(* ===== verification/Prelude.thy ===== *)
theory Prelude
  imports Main "HOL-Library.Word"
begin

unbundle bit_operations_syntax

text \<open>
  The prelude of the development: the names of the machine integers, the fact
  collections that the component theories fill, and the generic lemmas on words, lists
  and sums that several components share.

  A C++ \<open>unsigned\<close> integer of \<open>w\<close> bits is a \<open>w word\<close>, so that its arithmetic wraps as in the
  code.  A C++ \<open>int\<close> is a mathematical integer: signed overflow is undefined in C++, and the
  lemmas that need it show that the values stay in range, or the overflow is an error value.
\<close>

type_synonym u8 = "8 word"
type_synonym u32 = "32 word"
type_synonym u64 = "64 word"

named_theorems run_simps \<open>equations that run readers and writers\<close>
named_theorems shrink_intros \<open>readers consume their input\<close>
named_theorems fuel_intros \<open>readers with enough fuel do not run out of it\<close>
named_theorems agree_intros \<open>readers that agree on short inputs\<close>
named_theorems pickle_intros \<open>round trips of picklers\<close>

section \<open>Words\<close>

lemma unat_pow2: "unat (2 ^ n :: 'a::len word) = 2 ^ n" if "n < LENGTH('a)"
proof -
  have "unat (push_bit n (1 :: 'a word)) = take_bit LENGTH('a) (2 ^ n)"
    unfolding unsigned_push_bit_eq by (simp add: push_bit_eq_mult)
  also have "\<dots> = 2 ^ n"
    using that by (intro take_bit_nat_eq_self) simp
  finally show ?thesis by (simp add: push_bit_eq_mult)
qed

lemma less_pow2_iff: "x < 2 ^ n \<longleftrightarrow> unat x < 2 ^ n" if "n < LENGTH('a)" for x :: "'a::len word"
  using that by (simp add: word_less_nat_alt unat_pow2)

lemma unat_word_of_nat: "n < 2 ^ LENGTH('a) \<Longrightarrow> unat (word_of_nat n :: 'a::len word) = n"
  unfolding unsigned_of_nat by (simp add: take_bit_nat_eq_self)

lemma ucast_word_of_int:
  "LENGTH('b) \<le> LENGTH('a) \<Longrightarrow> (ucast (word_of_int z :: 'a::len word) :: 'b::len word) = word_of_int z"
  by (simp add: word_of_int_eq_iff unsigned_of_int)

lemma or_eq_add_nat: "push_bit k a OR b = a * 2 ^ k + b" if "b < 2 ^ k" for a b :: nat
proof -
  have "push_bit k a AND b = 0"
    using that by (intro bit_eqI)
      (metis bit_and_iff bit_push_bit_iff bit_take_bit_iff bit_0_eq bot_apply bot_bool_def
        linorder_not_le take_bit_nat_eq_self)
  then have "push_bit k a + b = push_bit k a OR b"
    by (rule disjunctive_add_eq_or)
  then show ?thesis by (simp add: push_bit_eq_mult)
qed

text \<open>Shifting a word left by \<open>k\<close> bits and putting a \<open>k\<close>-bit value below is place-value
  arithmetic, as long as the result fits in the word.\<close>

lemma unat_push_bit_or:
  fixes w b :: "'a::len word"
  assumes "unat b < 2 ^ k" and "unat w * 2 ^ k < 2 ^ LENGTH('a)"
  shows "unat (push_bit k w OR b) = unat w * 2 ^ k + unat b"
proof -
  have u: "unat (push_bit k w) = push_bit k (unat w)"
    unfolding unsigned_push_bit_eq using assms(2)
    by (intro take_bit_nat_eq_self) (simp add: push_bit_eq_mult)
  have "unat (push_bit k w OR b) = push_bit k (unat w) OR unat b"
    by (simp only: unsigned_or_eq u)
  also have "\<dots> = unat w * 2 ^ k + unat b"
    by (rule or_eq_add_nat [OF assms(1)])
  finally show ?thesis .
qed

lemma unat_u8_less [simp]: "unat (b :: u8) < 256"
  by (rule unsigned_less [where 'b = 8, simplified])

lemma unat_ucast8: "unat (ucast (x :: 'a::len word) :: u8) = unat x mod 256"
  by (simp add: unsigned_ucast_eq take_bit_eq_mod)

lemma unat_ucast_up:
  fixes x :: "'b::len word"
  assumes "LENGTH('b) \<le> LENGTH('a)"
  shows "unat (ucast x :: 'a::len word) = unat x"
  unfolding unsigned_ucast_eq
proof (rule take_bit_nat_eq_self)
  have "unat x < 2 ^ LENGTH('b)" by (rule unsigned_less)
  also have "\<dots> \<le> (2 :: nat) ^ LENGTH('a)"
    using assms by (intro power_increasing) simp_all
  finally show "unat x < 2 ^ LENGTH('a)" .
qed

lemma unat_drop_bit: "unat (drop_bit n x) = unat x div 2 ^ n" for x :: "'a::len word"
proof -
  have "take_bit LENGTH('a) (unat x) = unat x"
    by (intro take_bit_nat_eq_self) (rule unsigned_less)
  then have "unat (drop_bit n x) = drop_bit n (unat x)"
    by (simp only: unsigned_drop_bit_eq)
  also have "\<dots> = unat x div 2 ^ n" by (rule drop_bit_eq_div)
  finally show ?thesis .
qed

lemma unat_and_mask: "unat (x AND mask n) = unat x mod 2 ^ n" for x :: "'a::len word"
proof -
  have "unat (x AND mask n) = unat (take_bit n x)"
    by (rule arg_cong [OF take_bit_eq_mask [symmetric]])
  also have "\<dots> = take_bit n (unat x)" by (rule unsigned_take_bit_eq)
  also have "\<dots> = unat x mod 2 ^ n" by (rule take_bit_eq_mod)
  finally show ?thesis .
qed

lemma unat_or_low:
  fixes c w :: "'a::len word"
  assumes "unat c = k * 2 ^ m" "unat w < 2 ^ m"
  shows "unat (c OR w) = unat c + unat w"
proof -
  have "unat (c OR w) = push_bit m k OR unat w"
    by (simp only: unsigned_or_eq assms(1) push_bit_eq_mult)
  with or_eq_add_nat [OF assms(2), of k] show ?thesis
    by (simp add: assms(1))
qed

lemma word_le_iff: "x \<le> y \<longleftrightarrow> unat x \<le> unat y" for x y :: "'a::len word"
  by (rule word_le_nat_alt)

section \<open>Place-value arithmetic\<close>

lemma digit_less: "a < n \<Longrightarrow> d < k \<Longrightarrow> a * k + d < n * k" for a d k n :: nat
proof -
  assume "a < n" "d < k"
  then have "a * k + d < Suc a * k" by simp
  also have "\<dots> \<le> n * k" using \<open>a < n\<close> by (intro mult_le_mono1) simp
  finally show ?thesis .
qed

lemma digit_inj:
  fixes a b d e k :: nat
  assumes "a * k + d = b * k + e" "d < k" "e < k"
  shows "a = b" "d = e"
proof -
  have "(a * k + d) div k = a" "(b * k + e) div k = b" "(a * k + d) mod k = d" "(b * k + e) mod k = e"
    using assms(2,3) by simp_all
  with assms(1) show "a = b" "d = e" by metis+
qed

lemma and_bit_iff: "b AND 2 ^ k \<noteq> 0 \<longleftrightarrow> odd (unat b div 2 ^ k)" for b :: "'a::len word"
  unfolding and_exp_eq_0_iff_not_bit not_not by (simp add: bit_unsigned_iff flip: bit_iff_odd)

end
