(* ===== verification/Asdl_Stream.thy ===== *)
theory Asdl_Stream
  imports Prelude
begin

text \<open>
  The byte streams of the ASDL runtime (\<open>include/asdl/asdl-stream.hpp\<close> and the stream part
  of \<open>lib-codegen/asdl.cpp\<close>).  An input stream is the unread bytes and the three error bits
  of the \<open>std::istream\<close> it wraps; an output stream is the bytes written so far and whether
  the \<open>std::ostream\<close> accepts more.  The reports that end the program (\<open>exit(1)\<close> after a
  message, a failed \<open>assert\<close>) are values of the type \<open>asdl_error\<close>.
  The second half holds the readers' monad and the three properties every reader of the
  development has: it consumes its input, enough fuel is enough, more fuel changes nothing.
\<close>

section \<open>Errors\<close>

datatype asdl_error =
    InvalidTag u32 string string  \<comment> \<open>tag, type name, stream name\<close>
  | UnexpectedEOF string          \<comment> \<open>end-of-file bit set when a read starts\<close>
  | ReadError string              \<comment> \<open>another error bit set when a read starts\<close>
  | AssertFailure                 \<comment> \<open>a failed \<open>assert\<close>\<close>
  | SignedOverflow                \<comment> \<open>overflow of a signed integer, undefined in C++\<close>
  | OutOfFuel                     \<comment> \<open>artefact of the fuelled readers; shown not to occur\<close>

section \<open>Input streams\<close>

record instream =
  is_name :: string
  is_data :: "u8 list"
  is_eof :: bool
  is_fail :: bool
  is_bad :: bool

definition good :: "instream \<Rightarrow> bool" where
  "good is \<longleftrightarrow> \<not> is_eof is \<and> \<not> is_fail is \<and> \<not> is_bad is"

definition stream :: "string \<Rightarrow> u8 list \<Rightarrow> instream" where
  "stream nm bs = \<lparr>is_name = nm, is_data = bs, is_eof = False, is_fail = False, is_bad = False\<rparr>"

text \<open>A file that cannot be opened leaves the fail bit set; the constructor does not look.\<close>

definition file_instream :: "string \<Rightarrow> u8 list option \<Rightarrow> instream" where
  "file_instream file contents =
     (case contents of
        None \<Rightarrow> (stream file [])\<lparr>is_fail := True\<rparr>
      | Some bs \<Rightarrow> stream file bs)"

definition memory_instream :: "u8 list \<Rightarrow> instream" where
  "memory_instream bs = stream ''<memory>'' bs"

definition invalidTag :: "instream \<Rightarrow> u32 \<Rightarrow> string \<Rightarrow> asdl_error" where
  "invalidTag is tag tyName = InvalidTag tag tyName (is_name is)"

definition invalidIOState :: "instream \<Rightarrow> asdl_error" where
  "invalidIOState is = (if is_eof is then UnexpectedEOF (is_name is) else ReadError (is_name is))"

text \<open>\<open>std::istream::get\<close>: the next byte; at the end of the data it sets the end-of-file and
  fail bits and returns \<open>EOF\<close>, which is \<open>-1\<close>.\<close>

definition istream_get :: "instream \<Rightarrow> int \<times> instream" where
  "istream_get is =
     (case is_data is of
        b # bs \<Rightarrow> (uint b, is\<lparr>is_data := bs\<rparr>)
      | [] \<Rightarrow> (- 1, is\<lparr>is_eof := True, is_fail := True\<rparr>))"

definition getb :: "instream \<Rightarrow> asdl_error + u8 \<times> instream" where
  "getb is =
     (if good is then (case istream_get is of (c, is') \<Rightarrow> Inr (word_of_int c, is'))
      else Inl (invalidIOState is))"

definition getc :: "instream \<Rightarrow> asdl_error + u8 \<times> instream" where
  "getc is =
     (if good is then (case istream_get is of (c, is') \<Rightarrow> Inr (word_of_int c, is'))
      else Inl (invalidIOState is))"

section \<open>Output streams\<close>

record outstream =
  os_data :: "u8 list"
  os_good :: bool

definition memory_outstream :: outstream where
  "memory_outstream = \<lparr>os_data = [], os_good = True\<rparr>"

definition file_outstream :: "bool \<Rightarrow> outstream" where
  "file_outstream opened = \<lparr>os_data = [], os_good = opened\<rparr>"

definition get_pickle :: "outstream \<Rightarrow> u8 list" where
  "get_pickle os = os_data os"

definition emit :: "outstream \<Rightarrow> u8 list \<Rightarrow> outstream" where
  "emit os bs = (if os_good os then os\<lparr>os_data := os_data os @ bs\<rparr> else os)"

definition putb :: "outstream \<Rightarrow> u8 \<Rightarrow> outstream" where
  "putb os b = emit os [b]"

lemma emit_emit [simp]: "emit (emit os p) q = emit os (p @ q)"
  by (simp add: emit_def)

lemma emit_Nil [simp]: "emit os [] = os"
  by (simp add: emit_def)

lemma get_pickle_emit: "get_pickle (emit memory_outstream p) = p"
  by (simp add: get_pickle_def emit_def memory_outstream_def)

section \<open>Readers\<close>

type_synonym 'a reader = "instream \<Rightarrow> asdl_error + 'a \<times> instream"
type_synonym 'a writer = "outstream \<Rightarrow> 'a \<Rightarrow> asdl_error + outstream"

definition rreturn :: "'a \<Rightarrow> 'a reader" where
  "rreturn x = (\<lambda>is. Inr (x, is))"

definition rbind :: "'a reader \<Rightarrow> ('a \<Rightarrow> 'b reader) \<Rightarrow> 'b reader" where
  "rbind m k = (\<lambda>is. case m is of Inl e \<Rightarrow> Inl e | Inr (x, is') \<Rightarrow> k x is')"

text \<open>A computation that may fail.\<close>

definition rtry :: "asdl_error + 'a \<Rightarrow> 'a reader" where
  "rtry r = (\<lambda>is. case r of Inl e \<Rightarrow> Inl e | Inr x \<Rightarrow> Inr (x, is))"

definition rinvalid :: "u32 \<Rightarrow> string \<Rightarrow> 'a reader" where
  "rinvalid tag tyName = (\<lambda>is. Inl (invalidTag is tag tyName))"

lemma rreturn_run [run_simps]: "rreturn x s = Inr (x, s)"
  by (simp add: rreturn_def)

lemma rtry_run [run_simps]: "rtry (Inr x) s = Inr (x, s)"
  by (simp add: rtry_def)

lemma rbind_Inr [run_simps]: "m s = Inr (x, s') \<Longrightarrow> rbind m k s = k x s'"
  by (simp add: rbind_def)

lemma rbind_Inl: "m s = Inl e \<Longrightarrow> rbind m k s = Inl e"
  by (simp add: rbind_def)

lemma rbind_cases:
  assumes "rbind m k s = r"
  obtains e where "m s = Inl e" "r = Inl e"
  | x s' where "m s = Inr (x, s')" "k x s' = r"
  using assms by (auto simp: rbind_def split: sum.splits prod.splits)

lemma rbind_InrE [elim]:
  assumes "rbind m k s = Inr r"
  obtains x s' where "m s = Inr (x, s')" "k x s' = Inr r"
  using assms by (auto simp: rbind_def split: sum.splits prod.splits)

lemma good_stream [simp]: "good (stream nm bs)"
  by (simp add: good_def stream_def)

lemma stream_data [simp]: "is_data (stream nm bs) = bs" "is_name (stream nm bs) = nm"
  by (simp_all add: stream_def)

lemma getb_Cons [run_simps]: "getb (stream nm (b # bs)) = Inr (b, stream nm bs)"
  by (simp add: getb_def istream_get_def good_def stream_def)

lemma getc_Cons [run_simps]: "getc (stream nm (b # bs)) = Inr (b, stream nm bs)"
  by (simp add: getc_def istream_get_def good_def stream_def)

lemma getb_Nil: "getb (stream nm []) = Inr (255, (stream nm [])\<lparr>is_eof := True, is_fail := True\<rparr>)"
  by (simp add: getb_def istream_get_def good_def stream_def)

lemma getb_not_good: "\<not> good is \<Longrightarrow> getb is = Inl (invalidIOState is)"
  by (simp add: getb_def)

section \<open>Consumption, fuel, and monotonicity\<close>

text \<open>\<open>left is\<close> bounds the number of successful reads from here on: the unread bytes, and the
  one read at the end of the data that returns 255.\<close>

definition left :: "instream \<Rightarrow> nat" where
  "left is = (if good is then Suc (length (is_data is)) else 0)"

lemma left_stream [simp]: "left (stream nm bs) = Suc (length bs)"
  by (simp add: left_def)

definition shrinking :: "'a reader \<Rightarrow> bool" where
  "shrinking m \<longleftrightarrow> (\<forall>s x s'. m s = Inr (x, s') \<longrightarrow> left s' < left s)"

definition nonexpanding :: "'a reader \<Rightarrow> bool" where
  "nonexpanding m \<longleftrightarrow> (\<forall>s x s'. m s = Inr (x, s') \<longrightarrow> left s' \<le> left s)"

definition fuel_ok :: "nat \<Rightarrow> 'a reader \<Rightarrow> bool" where
  "fuel_ok n m \<longleftrightarrow> (\<forall>s. left s < n \<longrightarrow> m s \<noteq> Inl OutOfFuel)"

definition agree :: "nat \<Rightarrow> 'a reader \<Rightarrow> 'a reader \<Rightarrow> bool" where
  "agree n m m' \<longleftrightarrow> (\<forall>s. left s < n \<longrightarrow> m s = m' s)"

lemma shrinking_nonexpanding: "shrinking m \<Longrightarrow> nonexpanding m"
  by (auto simp: shrinking_def nonexpanding_def intro: less_imp_le)

lemma nonexpanding_rreturn [shrink_intros]: "nonexpanding (rreturn x)"
  by (simp add: nonexpanding_def rreturn_def)

lemma nonexpanding_rtry [shrink_intros]: "nonexpanding (rtry r)"
  by (auto simp: nonexpanding_def rtry_def split: sum.splits)

lemma shrinking_rinvalid [shrink_intros]: "shrinking (rinvalid tag ty)"
  by (simp add: shrinking_def rinvalid_def)

lemma nonexpanding_rinvalid [shrink_intros]: "nonexpanding (rinvalid tag ty)"
  by (simp add: nonexpanding_def rinvalid_def)

lemma shrinking_getb [shrink_intros]: "shrinking getb"
  by (auto simp: shrinking_def getb_def istream_get_def left_def good_def split: list.splits if_splits)

lemma shrinking_getc [shrink_intros]: "shrinking getc"
  by (auto simp: shrinking_def getc_def istream_get_def left_def good_def split: list.splits if_splits)

lemma shrinking_rbind [shrink_intros]:
  "shrinking m \<Longrightarrow> (\<And>x. nonexpanding (k x)) \<Longrightarrow> shrinking (rbind m k)"
  unfolding shrinking_def nonexpanding_def by (metis order_le_less_trans rbind_InrE)

lemma nonexpanding_rbind [shrink_intros]:
  "nonexpanding m \<Longrightarrow> (\<And>x. nonexpanding (k x)) \<Longrightarrow> nonexpanding (rbind m k)"
  unfolding nonexpanding_def by (metis order_trans rbind_InrE)

lemma nonexpanding_if [shrink_intros]:
  "nonexpanding a \<Longrightarrow> nonexpanding b \<Longrightarrow> nonexpanding (if c then a else b)"
  by simp

lemma fuel_ok_rreturn [fuel_intros]: "fuel_ok n (rreturn x)"
  by (simp add: fuel_ok_def rreturn_def)

lemma fuel_ok_rtry: "r \<noteq> Inl OutOfFuel \<Longrightarrow> fuel_ok n (rtry r)"
  by (auto simp: fuel_ok_def rtry_def split: sum.splits)

lemma fuel_ok_rinvalid [fuel_intros]: "fuel_ok n (rinvalid tag ty)"
  by (simp add: fuel_ok_def rinvalid_def invalidTag_def)

lemma fuel_ok_getb [fuel_intros]: "fuel_ok n getb"
  by (simp add: fuel_ok_def getb_def invalidIOState_def split: prod.splits)

lemma fuel_ok_getc [fuel_intros]: "fuel_ok n getc"
  by (simp add: fuel_ok_def getc_def invalidIOState_def split: prod.splits)

lemma fuel_ok_if [fuel_intros]: "fuel_ok n a \<Longrightarrow> fuel_ok n b \<Longrightarrow> fuel_ok n (if c then a else b)"
  by simp

lemma fuel_ok_rbind [fuel_intros]:
  assumes "fuel_ok n m" "nonexpanding m" "\<And>x. fuel_ok n (k x)"
  shows "fuel_ok n (rbind m k)"
  unfolding fuel_ok_def
proof (intro allI impI notI)
  fix s assume l: "left s < n" and oof: "rbind m k s = Inl OutOfFuel"
  from l assms(1) have "m s \<noteq> Inl OutOfFuel" by (simp add: fuel_ok_def)
  with oof obtain x s' where "m s = Inr (x, s')" "k x s' = Inl OutOfFuel"
    by (elim rbind_cases) auto
  moreover from this assms(2) l have "left s' < n"
    unfolding nonexpanding_def by (meson order_le_less_trans)
  ultimately show False
    using assms(3) by (auto simp: fuel_ok_def)
qed

text \<open>The first byte read pays for one unit of fuel.\<close>

lemma fuel_ok_rbind_shrink:
  assumes "\<And>n. fuel_ok n m" "shrinking m" "\<And>x. fuel_ok n (k x)"
  shows "fuel_ok (Suc n) (rbind m k)"
  unfolding fuel_ok_def
proof (intro allI impI notI)
  fix s assume l: "left s < Suc n" and oof: "rbind m k s = Inl OutOfFuel"
  from assms(1) have "m s \<noteq> Inl OutOfFuel" by (auto simp: fuel_ok_def)
  with oof obtain x s' where "m s = Inr (x, s')" "k x s' = Inl OutOfFuel"
    by (elim rbind_cases) auto
  moreover from this assms(2) l have "left s' < n"
    unfolding shrinking_def by fastforce
  ultimately show False
    using assms(3) by (auto simp: fuel_ok_def)
qed

lemma agree_refl [agree_intros]: "agree n m m"
  by (simp add: agree_def)

lemma agree_if [agree_intros]:
  "agree n a a' \<Longrightarrow> agree n b b' \<Longrightarrow> agree n (if c then a else b) (if c then a' else b')"
  by simp

lemma agree_rbind [agree_intros]:
  assumes "agree n m m'" "nonexpanding m" "\<And>x. agree n (k x) (k' x)"
  shows "agree n (rbind m k) (rbind m' k')"
  unfolding agree_def
proof (intro allI impI)
  fix s assume l: "left s < n"
  then have m: "m' s = m s" using assms(1) by (simp add: agree_def)
  show "rbind m k s = rbind m' k' s"
  proof (cases "m s")
    case (Inr r)
    then obtain x s' where r: "m s = Inr (x, s')" by (cases r) simp
    with assms(2) l have "left s' < n"
      unfolding nonexpanding_def by (meson order_le_less_trans)
    with assms(3) r m show ?thesis by (simp add: rbind_def agree_def)
  qed (simp add: rbind_def m)
qed

lemma agree_rbind_shrink:
  assumes "shrinking m" "\<And>x. agree n (k x) (k' x)"
  shows "agree (Suc n) (rbind m k) (rbind m k')"
  unfolding agree_def
proof (intro allI impI)
  fix s assume l: "left s < Suc n"
  show "rbind m k s = rbind m k' s"
  proof (cases "m s")
    case (Inr r)
    then obtain x s' where r: "m s = Inr (x, s')" by (cases r) simp
    with assms(1) l have "left s' < n"
      unfolding shrinking_def by fastforce
    with assms(2) r show ?thesis by (simp add: rbind_def agree_def)
  qed (simp add: rbind_def)
qed

section \<open>Recursive readers\<close>

text \<open>A recursive reader of the code is given by its body, with the recursive calls as an
  argument.  The number of bytes left is fuel enough, because every body reads a tag before
  it calls itself: the locale shows that the reader is then a solution of its own recursion
  equation, and that it never runs out.\<close>

primrec fuelled :: "('a reader \<Rightarrow> 'a reader) \<Rightarrow> nat \<Rightarrow> 'a reader" where
  "fuelled body 0 = (\<lambda>is. Inl OutOfFuel)"
| "fuelled body (Suc n) = body (fuelled body n)"

definition fix_reader :: "('a reader \<Rightarrow> 'a reader) \<Rightarrow> 'a reader" where
  "fix_reader body = (\<lambda>is. fuelled body (Suc (left is)) is)"

locale recursive_reader =
  fixes body :: "'a reader \<Rightarrow> 'a reader"
  assumes body_agree: "agree n r r' \<Longrightarrow> nonexpanding r \<Longrightarrow> agree (Suc n) (body r) (body r')"
    and body_shrinks: "nonexpanding r \<Longrightarrow> shrinking (body r)"
    and body_fuel: "fuel_ok n r \<Longrightarrow> nonexpanding r \<Longrightarrow> fuel_ok (Suc n) (body r)"
begin

lemma fuelled_shrinks: "shrinking (fuelled body n)"
  by (induction n) (simp_all add: shrinking_def [of "\<lambda>is. Inl OutOfFuel"] body_shrinks
    shrinking_nonexpanding)

lemma fuelled_fuel_ok: "fuel_ok n (fuelled body n)"
proof (induction n)
  case 0
  show ?case by (simp add: fuel_ok_def)
next
  case (Suc n)
  then show ?case
    by (simp add: body_fuel shrinking_nonexpanding [OF fuelled_shrinks])
qed

lemma fuelled_agree: "n \<le> m \<Longrightarrow> agree n (fuelled body n) (fuelled body m)"
proof (induction n arbitrary: m)
  case 0
  show ?case by (simp add: agree_def)
next
  case (Suc n)
  then obtain m' where "m = Suc m'" "n \<le> m'" by (cases m) auto
  with Suc.IH [of m'] show ?case
    by (simp add: body_agree shrinking_nonexpanding [OF fuelled_shrinks])
qed

lemma fuelled_fix: "agree n (fuelled body n) (fix_reader body)"
  unfolding agree_def
proof (intro allI impI)
  fix s assume "left s < n"
  with fuelled_agree [of "Suc (left s)" n] show "fuelled body n s = fix_reader body s"
    by (simp add: agree_def fix_reader_def del: fuelled.simps)
qed

lemma fix_shrinks: "shrinking (fix_reader body)"
  using fuelled_shrinks unfolding shrinking_def fix_reader_def by blast

lemma fix_fuel_ok: "fuel_ok n (fix_reader body)"
  using fuelled_fuel_ok unfolding fuel_ok_def fix_reader_def by blast

text \<open>The recursion equation.\<close>

lemma fix_unfold: "fix_reader body = body (fix_reader body)"
proof
  fix s
  have "fix_reader body s = body (fuelled body (left s)) s"
    by (simp add: fix_reader_def)
  also have "\<dots> = body (fix_reader body) s"
    using body_agree [OF fuelled_fix [of "left s"] shrinking_nonexpanding [OF fuelled_shrinks]]
    by (simp add: agree_def)
  finally show "fix_reader body s = body (fix_reader body) s" .
qed

end

end
