(* ===== verification/Asdl.thy ===== *)
theory Asdl
  imports Asdl_Stream
begin

text \<open>
  The basic picklers of the ASDL runtime: \<open>include/asdl/asdl.hpp\<close> and
  \<open>lib-codegen/asdl.cpp\<close>.  Integers take one to four bytes, the top two bits of the first
  byte giving the number of bytes that follow, most significant first.  The locale
  \<open>pickler\<close> states what a client relies on: what a writer emits, its reader gives back,
  leaving the rest of the stream untouched; options and sequences inherit it.
\<close>

section \<open>Integers\<close>

text \<open>The fall-through \<open>switch\<close> on the number of bytes that follow.\<close>

primrec fallthrough :: "nat \<Rightarrow> 'a::len word \<Rightarrow> 'a word reader" where
  "fallthrough 0 v = rreturn v"
| "fallthrough (Suc k) v = rbind getb (\<lambda>b. fallthrough k (push_bit 8 v OR ucast b))"

definition write_int :: "int writer" where
  "write_int os i =
     (if \<not> (- 536870912 \<le> i \<and> i < 536870912) then Inl AssertFailure
      else
        let sign = (if i < 0 then 0x20 else 0) :: u32;
            ui = (if i < 0 then word_of_int (- (i + 1)) else word_of_int i) :: u32
        in Inr
          (if ui \<le> 0x1f then putb os (ucast (sign OR ui))
           else if ui \<le> 0x1fff then
             (let os = putb os (ucast ((0x40 OR sign) OR drop_bit 8 ui))
              in putb os (ucast ui))
           else if ui \<le> 0x1fffff then
             (let os = putb os (ucast ((0x80 OR sign) OR drop_bit 16 ui));
                  os = putb os (ucast (drop_bit 8 ui))
              in putb os (ucast ui))
           else
             (let os = putb os (ucast ((0xc0 OR sign) OR drop_bit 24 ui));
                  os = putb os (ucast (drop_bit 16 ui));
                  os = putb os (ucast (drop_bit 8 ui))
              in putb os (ucast ui))))"

definition write_uint :: "u32 writer" where
  "write_uint os ui =
     (if ui \<le> 0x3f then Inr (putb os (ucast ui))
      else if ui \<le> 0x3fff then
        (let os = putb os (ucast (0x40 OR drop_bit 8 ui))
         in Inr (putb os (ucast ui)))
      else if ui \<le> 0x3fffff then
        (let os = putb os (ucast (0x80 OR drop_bit 16 ui));
             os = putb os (ucast (drop_bit 8 ui))
         in Inr (putb os (ucast ui)))
      else if \<not> ui \<le> 0x3fffffff then Inl AssertFailure
      else
        (let os = putb os (ucast (0xc0 OR drop_bit 24 ui));
             os = putb os (ucast (drop_bit 16 ui));
             os = putb os (ucast (drop_bit 8 ui))
         in Inr (putb os (ucast ui))))"

definition read_int :: "int reader" where
  "read_int =
     rbind getb (\<lambda>b0.
     rbind (fallthrough (unat (drop_bit 6 b0)) (ucast (b0 AND 0x1F) :: u32)) (\<lambda>v.
     rreturn (if b0 AND 0x20 \<noteq> 0 then - sint v - 1 else sint v)))"

definition read_uint :: "u32 reader" where
  "read_uint =
     rbind getb (\<lambda>b0. fallthrough (unat (drop_bit 6 b0)) (ucast (b0 AND 0x3F)))"

section \<open>Tags, Booleans, strings\<close>

definition write_tag8 :: "u32 writer" where
  "write_tag8 os ui = Inr (putb os (ucast ui))"

definition write_bool :: "bool writer" where
  "write_bool os b = (if b then write_tag8 os 2 else write_tag8 os 1)"

definition write_tag :: "u32 writer" where
  "write_tag os ui = write_uint os (ui + 1)"

primrec put_bytes :: "outstream \<Rightarrow> u8 list \<Rightarrow> outstream" where
  "put_bytes os [] = os"
| "put_bytes os (b # bs) = put_bytes (putb os b) bs"

definition write_string :: "u8 list writer" where
  "write_string os s =
     (case write_uint os (word_of_nat (length s)) of
        Inl e \<Rightarrow> Inl e
      | Inr os \<Rightarrow> Inr (put_bytes os s))"

definition read_tag8 :: "u32 reader" where
  "read_tag8 = rbind getb (\<lambda>b. rreturn (ucast b))"

definition read_bool :: "bool reader" where
  "read_bool = rbind read_tag8 (\<lambda>tag.
     if tag = 1 then rreturn False
     else if tag = 2 then rreturn True
     else rinvalid tag ''bool'')"

definition read_tag :: "u32 reader" where
  "read_tag = read_uint"

primrec read_n :: "nat \<Rightarrow> 'a reader \<Rightarrow> 'a list reader" where
  "read_n 0 rd = rreturn []"
| "read_n (Suc n) rd = rbind rd (\<lambda>x. rbind (read_n n rd) (\<lambda>xs. rreturn (x # xs)))"

definition read_string :: "u8 list reader" where
  "read_string = rbind read_uint (\<lambda>len. read_n (unat len) getc)"

section \<open>Options\<close>

definition write_tag0_option :: "unit option writer" where
  "write_tag0_option os optB = (case optB of Some _ \<Rightarrow> write_tag8 os 1 | None \<Rightarrow> write_tag8 os 0)"

definition write_tag8_option :: "u32 option writer" where
  "write_tag8_option os optB = (case optB of Some v \<Rightarrow> write_tag8 os v | None \<Rightarrow> write_tag8 os 0)"

definition write_tag_option :: "u32 option writer" where
  "write_tag_option os optB = (case optB of Some v \<Rightarrow> write_tag os v | None \<Rightarrow> write_tag os 0)"

definition write_int_option :: "int option writer" where
  "write_int_option os optB =
     (case optB of
        Some v \<Rightarrow> (case write_tag8 os 1 of Inl e \<Rightarrow> Inl e | Inr os \<Rightarrow> write_int os v)
      | None \<Rightarrow> write_tag8 os 0)"

definition write_uint_option :: "u32 option writer" where
  "write_uint_option os optB =
     (case optB of
        Some v \<Rightarrow> (case write_tag8 os 1 of Inl e \<Rightarrow> Inl e | Inr os \<Rightarrow> write_uint os v)
      | None \<Rightarrow> write_tag8 os 0)"

definition write_bool_option :: "bool option writer" where
  "write_bool_option os optB = (case optB of Some v \<Rightarrow> write_bool os v | None \<Rightarrow> write_tag8 os 0)"

text \<open>Unlike the two writers above, this one puts no tag in front of the string.\<close>

definition write_string_option :: "u8 list option writer" where
  "write_string_option os optB =
     (case optB of Some v \<Rightarrow> write_string os v | None \<Rightarrow> write_tag8 os 0)"

definition read_tag0_option :: "unit option reader" where
  "read_tag0_option = rbind read_tag8 (\<lambda>v. rreturn (if v = 0 then None else Some ()))"

definition read_tag8_option :: "u32 option reader" where
  "read_tag8_option = rbind read_tag8 (\<lambda>v. rreturn (if v = 0 then None else Some v))"

definition read_tag_option :: "u32 option reader" where
  "read_tag_option = rbind read_tag8 (\<lambda>v. rreturn (if v = 0 then None else Some v))"

text \<open>\<open>read_int_option\<close>, \<open>read_uint_option\<close>, \<open>read_string_option\<close>, \<open>read_integer_option\<close> and
  \<open>read_option\<close> share one shape: a tag that is 0 or 1, and then the value.\<close>

definition read_option_as :: "string \<Rightarrow> 'a reader \<Rightarrow> 'a option reader" where
  "read_option_as tyName rd = rbind read_tag8 (\<lambda>tag.
     if tag = 0 then rreturn None
     else if tag = 1 then rbind rd (\<lambda>x. rreturn (Some x))
     else rinvalid tag tyName)"

definition read_int_option :: "int option reader" where
  "read_int_option = read_option_as ''int?'' read_int"

definition read_uint_option :: "u32 option reader" where
  "read_uint_option = read_option_as ''uint?'' read_uint"

definition read_string_option :: "u8 list option reader" where
  "read_string_option = read_option_as ''string?'' read_string"

definition read_bool_option :: "bool option reader" where
  "read_bool_option = rbind read_tag8 (\<lambda>v.
     if v = 0 then rreturn None
     else if v = 1 then rreturn (Some False)
     else if v = 2 then rreturn (Some True)
     else rinvalid v ''bool?'')"

definition write_option :: "'a writer \<Rightarrow> 'a option writer" where
  "write_option wr os v =
     (case v of None \<Rightarrow> Inr (putb os 0) | Some x \<Rightarrow> wr (putb os 1) x)"

definition read_option :: "'a reader \<Rightarrow> 'a option reader" where
  "read_option rd = read_option_as ''option'' rd"

section \<open>Enumerations\<close>

text \<open>\<open>to\<close> and \<open>of\<close> are the two directions of the \<open>static_cast\<close> between \<open>unsigned int\<close> and
  the enumeration \<open>T\<close>.\<close>

definition write_small_enum_option :: "('t \<Rightarrow> u32) \<Rightarrow> 't option writer" where
  "write_small_enum_option of_enum os opt =
     (case opt of Some t \<Rightarrow> write_tag8 os (of_enum t) | None \<Rightarrow> write_tag8 os 0)"

definition write_big_enum_option :: "('t \<Rightarrow> u32) \<Rightarrow> 't option writer" where
  "write_big_enum_option of_enum os opt =
     (case opt of Some t \<Rightarrow> write_uint os (of_enum t) | None \<Rightarrow> write_uint os 0)"

definition read_small_enum_option :: "(u32 \<Rightarrow> 't) \<Rightarrow> 't option reader" where
  "read_small_enum_option to_enum =
     rbind read_tag8 (\<lambda>tag. rreturn (if tag \<noteq> 0 then Some (to_enum tag) else None))"

definition read_big_enum_option :: "(u32 \<Rightarrow> 't) \<Rightarrow> 't option reader" where
  "read_big_enum_option to_enum =
     rbind read_uint (\<lambda>tag. rreturn (if tag \<noteq> 0 then Some (to_enum tag) else None))"

definition read_small_enum_seq :: "(u32 \<Rightarrow> 't) \<Rightarrow> 't list reader" where
  "read_small_enum_seq to_enum =
     rbind read_uint (\<lambda>len. read_n (unat len) (rbind read_tag8 (\<lambda>t. rreturn (to_enum t))))"

definition read_big_enum_seq :: "(u32 \<Rightarrow> 't) \<Rightarrow> 't list reader" where
  "read_big_enum_seq to_enum =
     rbind read_uint (\<lambda>len. read_n (unat len) (rbind read_uint (\<lambda>t. rreturn (to_enum t))))"

section \<open>Sequences\<close>

primrec write_all :: "'a writer \<Rightarrow> 'a list writer" where
  "write_all wr os [] = Inr os"
| "write_all wr os (x # xs) =
     (case wr os x of Inl e \<Rightarrow> Inl e | Inr os \<Rightarrow> write_all wr os xs)"

definition write_seq :: "'a writer \<Rightarrow> 'a list writer" where
  "write_seq wr os xs =
     (case write_uint os (word_of_nat (length xs)) of
        Inl e \<Rightarrow> Inl e
      | Inr os \<Rightarrow> write_all wr os xs)"

definition write_small_enum_seq :: "('t \<Rightarrow> u32) \<Rightarrow> 't list writer" where
  "write_small_enum_seq of_enum = write_seq (\<lambda>os t. write_tag8 os (of_enum t))"

definition write_big_enum_seq :: "('t \<Rightarrow> u32) \<Rightarrow> 't list writer" where
  "write_big_enum_seq of_enum = write_seq (\<lambda>os t. write_uint os (of_enum t))"

definition read_seq :: "'a reader \<Rightarrow> 'a list reader" where
  "read_seq rd = rbind read_uint (\<lambda>len. read_n (unat len) rd)"

definition read_int_seq :: "int list reader" where
  "read_int_seq = rbind read_uint (\<lambda>len. read_n (unat len) read_int)"

definition read_uint_seq :: "u32 list reader" where
  "read_uint_seq = rbind read_uint (\<lambda>len. read_n (unat len) read_uint)"

end
