(* ===== verification/Asdl_Laws.thy ===== *)
theory Asdl_Laws
  imports Asdl
begin

text \<open>
  The laws of the basic picklers of \<open>Asdl\<close>: what the readers compute on the bytes of a
  stream, the round trips, and the locales \<open>reader\<close> (consumes input, total) and \<open>pickler\<close>
  (a writer and the reader that inverts it) with their interpretations.
\<close>

section \<open>Big-endian bytes\<close>

definition be_nat :: "nat \<Rightarrow> u8 list \<Rightarrow> nat" where
  "be_nat a bs = foldl (\<lambda>a b. a * 256 + unat b) a bs"

lemma be_nat_simps [simp]:
  "be_nat a [] = a" "be_nat a (b # bs) = be_nat (a * 256 + unat b) bs"
  by (simp_all add: be_nat_def)

lemma be_nat_less: "a < n \<Longrightarrow> be_nat a bs < n * 256 ^ length bs"
proof (induction bs arbitrary: a n)
  case (Cons b bs)
  have "unat b < 256" by (rule unsigned_less [where 'b = 8, simplified])
  with Cons.prems have "a * 256 + unat b < n * 256" by linarith
  from Cons.IH [OF this] show ?case by (simp add: mult.assoc)
qed simp

lemma be_nat_ge: "a \<le> be_nat a bs"
proof (induction bs arbitrary: a)
  case (Cons b bs)
  have "a \<le> a * 256 + unat b" by simp
  also have "\<dots> \<le> be_nat (a * 256 + unat b) bs" by (rule Cons.IH)
  finally show ?case by simp
qed simp

lemma fallthrough_run [run_simps]:
  fixes v :: "'a::len word"
  assumes "8 < LENGTH('a)" "unat v < n" "n * 256 ^ length bs \<le> 2 ^ LENGTH('a)"
  shows "fallthrough (length bs) v (stream nm (bs @ r)) =
    Inr (word_of_nat (be_nat (unat v) bs), stream nm r)"
  using assms
proof (induction bs arbitrary: v n)
  case Nil
  then show ?case by (simp add: run_simps)
next
  case (Cons b bs)
  have ub: "unat (ucast b :: 'a word) = unat b"
    by (rule unat_ucast_up) (use Cons.prems(1) in simp)
  have fit: "unat v * 2 ^ 8 < 2 ^ LENGTH('a)"
  proof -
    have "unat v * 256 < n * 256" using Cons.prems(2) by simp
    also have "n * 256 \<le> n * 256 ^ length (b # bs)" by simp
    finally show ?thesis using Cons.prems(3) by simp
  qed
  have step: "unat (push_bit 8 v OR ucast b) = unat v * 256 + unat b"
    using unat_push_bit_or [of "ucast b :: 'a word" 8 v] fit by (simp add: ub)
  have "unat v * 256 + unat b < n * 256"
    using Cons.prems(2) unat_u8_less [of b] by linarith
  with Cons.IH [of "push_bit 8 v OR ucast b" "n * 256"] Cons.prems step
  show ?case by (simp add: run_simps mult.assoc)
qed

lemma masks: "(0x1F :: 'a::len word) = mask 5" "(0x3F :: 'a::len word) = mask 6"
  by (simp_all add: mask_eq_exp_minus_1)

section \<open>Reading and writing integers\<close>

lemma length_le_3: "unat (drop_bit 6 b0) \<le> 3" for b0 :: u8
proof -
  have "unat b0 div 64 \<le> 3"
    using unat_u8_less [of b0] by linarith
  then show ?thesis by (simp only: unat_drop_bit) simp
qed

lemma read_uint_run:
  assumes "length bs = unat b0 div 64"
  shows "read_uint (stream nm (b0 # bs @ r)) =
    Inr (word_of_nat (be_nat (unat b0 mod 64) bs), stream nm r)"
proof -
  let ?v = "ucast (b0 AND 0x3F) :: u32"
  have len: "unat (drop_bit 6 b0) = length bs" "length bs \<le> 3"
    using assms length_le_3 [of b0] by (simp_all only: unat_drop_bit) simp_all
  have v: "unat ?v = unat b0 mod 64"
    by (simp only: masks unat_and_mask unat_ucast_up) (simp add: unat_ucast_up unat_and_mask)
  have "64 * 256 ^ length bs \<le> (64 * 256 ^ 3 :: nat)"
    using len(2) by (intro mult_le_mono2 power_increasing) simp_all
  then have "fallthrough (length bs) ?v (stream nm (bs @ r)) =
      Inr (word_of_nat (be_nat (unat ?v) bs), stream nm r)"
    by (intro fallthrough_run [where n = 64]) (simp_all add: v)
  then show ?thesis
    by (simp only: read_uint_def run_simps len(1) v)
qed

text \<open>The first byte: \<open>c\<close> holds the length (and the sign), \<open>w\<close> the high bits of the value.\<close>

lemma head_byte:
  fixes c w :: u32
  assumes "unat c = k * 2 ^ m" "unat w < 2 ^ m" "k * 2 ^ m + 2 ^ m \<le> 256"
  shows "unat (ucast (c OR w) :: u8) = unat c + unat w"
proof -
  have "unat (c OR w) = unat c + unat w"
    by (rule unat_or_low [OF assms(1,2)])
  moreover have "unat c + unat w < 256"
    using assms by linarith
  ultimately show ?thesis by (simp only: unat_ucast8) simp
qed

lemma split_256: "n div 256 * 256 + n mod 256 = n" for n :: nat
  by simp

lemma div_256:
  "n div 65536 = n div 256 div 256" "n div 16777216 = n div 256 div 256 div 256" for n :: nat
  by (simp_all flip: div_mult2_eq)

lemma be_split1: "unat b = n mod 256 \<Longrightarrow> be_nat (n div 256) [b] = n"
  by (simp only: be_nat_simps split_256)

lemma be_split2:
  "unat c = n div 256 mod 256 \<Longrightarrow> unat b = n mod 256 \<Longrightarrow> be_nat (n div 65536) [c, b] = n"
  by (simp only: be_nat_simps div_256 split_256)

lemma be_split3:
  "unat d = n div 65536 mod 256 \<Longrightarrow> unat c = n div 256 mod 256 \<Longrightarrow> unat b = n mod 256 \<Longrightarrow>
   be_nat (n div 16777216) [d, c, b] = n"
  by (simp only: be_nat_simps div_256 split_256)

lemma read_uint_bytes:
  assumes "unat b0 = length bs * 64 + h" "h < 64" "be_nat h bs = unat ui"
  shows "read_uint (stream nm (b0 # bs @ r)) = Inr (ui, stream nm r)"
proof -
  have "unat b0 div 64 = length bs" "unat b0 mod 64 = h"
    using assms(1,2) by simp_all
  with read_uint_run [of bs b0 nm r] assms(3) show ?thesis by simp
qed

section \<open>The pickler contract\<close>

text \<open>\<open>rt wr rd x\<close>: the writer succeeds on \<open>x\<close>, emits the same bytes whatever was written
  before, and the reader gets \<open>x\<close> back from them and stops right behind them.\<close>

definition rt :: "'a writer \<Rightarrow> 'a reader \<Rightarrow> 'a \<Rightarrow> bool" where
  "rt wr rd x \<longleftrightarrow>
     (\<exists>p. (\<forall>os. wr os x = Inr (emit os p)) \<and>
          (\<forall>nm bs. rd (stream nm (p @ bs)) = Inr (x, stream nm bs)))"

lemma rtI:
  "(\<And>os. wr os x = Inr (emit os p)) \<Longrightarrow>
   (\<And>nm bs. rd (stream nm (p @ bs)) = Inr (x, stream nm bs)) \<Longrightarrow> rt wr rd x"
  by (auto simp: rt_def)

text \<open>The bytes below the first.\<close>

lemma low_bytes:
  fixes x :: u32
  shows "unat (ucast x :: u8) = unat x mod 256"
    and "unat (ucast (drop_bit 8 x) :: u8) = unat x div 256 mod 256"
    and "unat (ucast (drop_bit 16 x) :: u8) = unat x div 65536 mod 256"
  by (simp_all only: unat_ucast8 unat_drop_bit) simp_all

lemma rt_uint:
  assumes "ui \<le> 0x3fffffff"
  shows "rt write_uint read_uint ui"
proof -
  have u: "unat ui \<le> 0x3fffffff" using assms by (simp add: word_le_iff)
  consider "unat ui \<le> 0x3f" | "0x3f < unat ui" "unat ui \<le> 0x3fff"
    | "0x3fff < unat ui" "unat ui \<le> 0x3fffff" | "0x3fffff < unat ui" by linarith
  then show ?thesis
  proof cases
    case 1
    then have b0: "unat (ucast ui :: u8) = 0 * 64 + unat ui"
      by (simp only: unat_ucast8) simp
    show ?thesis
      by (rule rtI [where p = "[ucast ui]"])
        (use 1 read_uint_bytes [of "ucast ui" "[]", unfolded list.size, OF b0] in
          \<open>simp_all add: write_uint_def word_le_iff putb_def\<close>)
  next
    case 2
    let ?b0 = "ucast (0x40 OR drop_bit 8 ui) :: u8"
    have b0: "unat ?b0 = length [ucast ui :: u8] * 64 + unat ui div 256"
      using 2 head_byte [of "0x40" 1 6 "drop_bit 8 ui"] by (simp only: unat_drop_bit) simp
    show ?thesis
      by (rule rtI [where p = "[?b0, ucast ui]"])
        (use 2 read_uint_bytes [OF b0 _ be_split1 [OF low_bytes(1)]] in
          \<open>simp_all add: write_uint_def word_le_iff putb_def\<close>)
  next
    case 3
    let ?b0 = "ucast (0x80 OR drop_bit 16 ui) :: u8"
    let ?bs = "[ucast (drop_bit 8 ui), ucast ui] :: u8 list"
    have b0: "unat ?b0 = length ?bs * 64 + unat ui div 65536"
      using 3 head_byte [of "0x80" 2 6 "drop_bit 16 ui"] by (simp only: unat_drop_bit) simp
    show ?thesis
      by (rule rtI [where p = "?b0 # ?bs"])
        (use 3 read_uint_bytes [OF b0 _ be_split2 [OF low_bytes(2,1)]] in
          \<open>simp_all add: write_uint_def word_le_iff putb_def\<close>)
  next
    case 4
    let ?b0 = "ucast (0xc0 OR drop_bit 24 ui) :: u8"
    let ?bs = "[ucast (drop_bit 16 ui), ucast (drop_bit 8 ui), ucast ui] :: u8 list"
    have b0: "unat ?b0 = length ?bs * 64 + unat ui div 16777216"
      using u head_byte [of "0xc0" 3 6 "drop_bit 24 ui"] by (simp only: unat_drop_bit) simp
    show ?thesis
      by (rule rtI [where p = "?b0 # ?bs"])
        (use 4 u read_uint_bytes [OF b0 _ be_split3 [OF low_bytes(3,2,1)]] in
          \<open>simp_all add: write_uint_def word_le_iff putb_def\<close>)
  qed
qed

text \<open>Signed integers have one bit less in the first byte, the sign, which is bit 5.\<close>

lemma sign_bit: "b AND 0x20 \<noteq> 0 \<longleftrightarrow> odd (unat b div 32)" for b :: u8
proof -
  have "b AND 2 ^ 5 = 0 \<longleftrightarrow> \<not> bit b 5"
    by (rule and_exp_eq_0_iff_not_bit)
  moreover have "bit b 5 \<longleftrightarrow> bit (unat b) 5"
    by (simp add: bit_unsigned_iff)
  moreover have "bit (unat b) 5 \<longleftrightarrow> odd (unat b div 2 ^ 5)"
    by (rule bit_iff_odd)
  ultimately show ?thesis by simp
qed

lemma read_int_bytes:
  assumes "unat b0 = length bs * 64 + (if neg then 32 else 0) + h" "h < 32" "be_nat h bs = u"
    "u < 2 ^ 29"
  shows "read_int (stream nm (b0 # bs @ r)) =
    Inr (if neg then - int u - 1 else int u, stream nm r)"
proof -
  let ?v = "ucast (b0 AND 0x1F) :: u32"
  define s where "s = (if neg then 1 else 0 :: nat)"
  have b0: "unat b0 = 32 * (2 * length bs + s) + h" and s: "s \<le> 1"
    using assms(1) by (simp_all add: s_def split: if_splits)
  have d32: "unat b0 div 32 = 2 * length bs + s"
    unfolding b0 using assms(2) by simp
  have "unat b0 div 64 = unat b0 div 32 div 2"
    by (simp flip: div_mult2_eq)
  with s have "unat b0 div 64 = length bs"
    unfolding d32 by simp
  moreover have "unat b0 mod 32 = h"
    unfolding b0 using assms(2) by (simp only: mod_mult_self4 mod_less)
  moreover have "odd (unat b0 div 32) \<longleftrightarrow> neg"
    unfolding d32 by (simp add: s_def)
  ultimately have q: "unat b0 div 64 = length bs" "unat b0 mod 32 = h"
    "odd (unat b0 div 32) \<longleftrightarrow> neg" by blast+
  have len: "unat (drop_bit 6 b0) = length bs" "length bs \<le> 3"
    using q(1) length_le_3 [of b0] by (simp_all only: unat_drop_bit) simp_all
  have v: "unat ?v = h"
    using q(2) by (simp only: masks) (simp add: unat_ucast_up unat_and_mask)
  have "32 * 256 ^ length bs \<le> (32 * 256 ^ 3 :: nat)"
    using len(2) by (intro mult_le_mono2 power_increasing) simp_all
  then have f: "fallthrough (length bs) ?v (stream nm (bs @ r)) =
      Inr (word_of_nat u, stream nm r)"
    using assms(2,3) by (subst fallthrough_run [where n = 32]) (simp_all add: v)
  have "sint (word_of_nat u :: u32) = int u"
  proof -
    have "sint (word_of_int (int u) :: u32) = signed_take_bit 31 (int u)"
      by (simp only: signed_of_int) simp
    also have "\<dots> = int u"
      using assms(4) by (intro signed_take_bit_int_eq_self) simp_all
    finally show ?thesis by simp
  qed
  with f q(3) show ?thesis
    by (simp add: read_int_def run_simps len(1) sign_bit)
qed

lemma rt_int:
  assumes "- 536870912 \<le> i" "i < 536870912"
  shows "rt write_int read_int i"
proof -
  define neg where "neg = (i < 0)"
  define u where "u = nat (if neg then - (i + 1) else i)"
  define ui where "ui = (word_of_nat u :: u32)"
  define sg where "sg = (if neg then 0x20 else 0 :: u32)"
  have u29: "u < 2 ^ 29" and i: "i = (if neg then - int u - 1 else int u)"
    using assms by (auto simp: u_def neg_def)
  have uu: "unat ui = u"
    using u29 by (simp add: ui_def unsigned_of_nat take_bit_nat_eq_self)
  have wi: "(if i < 0 then word_of_int (- (i + 1)) else word_of_int i) = ui"
    by (auto simp: ui_def u_def neg_def of_nat_nat)
  have wr: "write_int os i = Inr
      (if u \<le> 0x1f then putb os (ucast (sg OR ui))
       else if u \<le> 0x1fff then putb (putb os (ucast ((0x40 OR sg) OR drop_bit 8 ui))) (ucast ui)
       else if u \<le> 0x1fffff then
         putb (putb (putb os (ucast ((0x80 OR sg) OR drop_bit 16 ui))) (ucast (drop_bit 8 ui))) (ucast ui)
       else putb (putb (putb (putb os (ucast ((0xc0 OR sg) OR drop_bit 24 ui)))
         (ucast (drop_bit 16 ui))) (ucast (drop_bit 8 ui))) (ucast ui))" for os
    unfolding write_int_def wi Let_def using assms
    by (simp add: word_le_iff uu sg_def neg_def)
  have rd: "read_int (stream nm (b0 # bs @ r)) = Inr (i, stream nm r)"
    if "unat b0 = length bs * 64 + (if neg then 32 else 0) + h" "h < 32" "be_nat h bs = u"
    for b0 bs h nm r
    using read_int_bytes [OF that u29] i by simp
  consider "u \<le> 0x1f" | "0x1f < u" "u \<le> 0x1fff" | "0x1fff < u" "u \<le> 0x1fffff" | "0x1fffff < u"
    by linarith
  then show ?thesis
  proof cases
    case 1
    have b0: "unat (ucast (sg OR ui) :: u8) = length [] * 64 + (if neg then 32 else 0) + u"
      using 1 head_byte [of sg "if neg then 1 else 0" 5 ui] by (simp add: sg_def uu)
    show ?thesis
      by (rule rtI [where p = "[ucast (sg OR ui)]"])
        (use 1 rd [OF b0] in \<open>simp_all add: wr putb_def\<close>)
  next
    case 2
    let ?b0 = "ucast ((0x40 OR sg) OR drop_bit 8 ui) :: u8"
    have b0: "unat ?b0 = length [ucast ui :: u8] * 64 + (if neg then 32 else 0) + u div 256"
      using 2 head_byte [of "0x40 OR sg" "if neg then 3 else 2" 5 "drop_bit 8 ui"]
      by (cases neg; simp only: unat_drop_bit uu; simp add: sg_def)
    show ?thesis
      by (rule rtI [where p = "[?b0, ucast ui]"])
        (use 2 u29 rd [OF b0 _ be_split1 [OF low_bytes(1) [of ui, unfolded uu]]] in
          \<open>simp_all add: wr putb_def\<close>)
  next
    case 3
    let ?b0 = "ucast ((0x80 OR sg) OR drop_bit 16 ui) :: u8"
    let ?bs = "[ucast (drop_bit 8 ui), ucast ui] :: u8 list"
    have b0: "unat ?b0 = length ?bs * 64 + (if neg then 32 else 0) + u div 65536"
      using 3 head_byte [of "0x80 OR sg" "if neg then 5 else 4" 5 "drop_bit 16 ui"]
      by (cases neg; simp only: unat_drop_bit uu; simp add: sg_def)
    show ?thesis
      by (rule rtI [where p = "?b0 # ?bs"])
        (use 3 u29 rd [OF b0 _ be_split2 [OF low_bytes(2,1) [of ui, unfolded uu]]] in
          \<open>simp_all add: wr putb_def\<close>)
  next
    case 4
    let ?b0 = "ucast ((0xc0 OR sg) OR drop_bit 24 ui) :: u8"
    let ?bs = "[ucast (drop_bit 16 ui), ucast (drop_bit 8 ui), ucast ui] :: u8 list"
    have b0: "unat ?b0 = length ?bs * 64 + (if neg then 32 else 0) + u div 16777216"
      using u29 head_byte [of "0xc0 OR sg" "if neg then 7 else 6" 5 "drop_bit 24 ui"]
      by (cases neg; simp only: unat_drop_bit uu; simp add: sg_def)
    show ?thesis
      by (rule rtI [where p = "?b0 # ?bs"])
        (use 4 u29 rd [OF b0 _ be_split3 [OF low_bytes(3,2,1) [of ui, unfolded uu]]] in
          \<open>simp_all add: wr putb_def\<close>)
  qed
qed

section \<open>Readers consume their input and need no fuel\<close>

lemma nonexpanding_fallthrough [shrink_intros]: "nonexpanding (fallthrough k v)"
  by (induction k arbitrary: v)
    (auto intro!: nonexpanding_rreturn nonexpanding_rbind shrinking_nonexpanding [OF shrinking_getb])

lemma fuel_ok_fallthrough [fuel_intros]: "fuel_ok n (fallthrough k v)"
  by (induction k arbitrary: v)
    (auto intro!: fuel_intros shrinking_nonexpanding [OF shrinking_getb])

lemma shrinking_read_int [shrink_intros]: "shrinking read_int"
  unfolding read_int_def by (intro shrink_intros)

lemma shrinking_read_uint [shrink_intros]: "shrinking read_uint"
  unfolding read_uint_def by (intro shrink_intros)

lemma shrinking_read_tag8 [shrink_intros]: "shrinking read_tag8"
  unfolding read_tag8_def by (intro shrink_intros)

lemma shrinking_read_bool [shrink_intros]: "shrinking read_bool"
  unfolding read_bool_def by (intro shrink_intros)

lemma fuel_ok_read_int [fuel_intros]: "fuel_ok n read_int"
  unfolding read_int_def by (intro fuel_intros shrinking_nonexpanding shrink_intros)

lemma fuel_ok_read_uint [fuel_intros]: "fuel_ok n read_uint"
  unfolding read_uint_def by (intro fuel_intros shrinking_nonexpanding shrink_intros)

lemma fuel_ok_read_tag8 [fuel_intros]: "fuel_ok n read_tag8"
  unfolding read_tag8_def by (intro fuel_intros shrinking_nonexpanding shrink_intros)

lemma fuel_ok_read_bool [fuel_intros]: "fuel_ok n read_bool"
  unfolding read_bool_def by (intro fuel_intros shrinking_nonexpanding shrink_intros)

lemma nonexpanding_read_n [shrink_intros]: "nonexpanding rd \<Longrightarrow> nonexpanding (read_n k rd)"
  by (induction k) (auto intro!: shrink_intros)

lemma fuel_ok_read_n [fuel_intros]:
  "fuel_ok n rd \<Longrightarrow> nonexpanding rd \<Longrightarrow> fuel_ok n (read_n k rd)"
  by (induction k) (auto intro!: fuel_intros shrink_intros)

lemma agree_read_n [agree_intros]:
  "agree n rd rd' \<Longrightarrow> nonexpanding rd \<Longrightarrow> agree n (read_n k rd) (read_n k rd')"
  by (induction k) (auto intro!: agree_intros shrink_intros)

lemma shrinking_read_seq [shrink_intros]: "nonexpanding rd \<Longrightarrow> shrinking (read_seq rd)"
  unfolding read_seq_def by (intro shrink_intros)

lemma fuel_ok_read_seq [fuel_intros]:
  "fuel_ok n rd \<Longrightarrow> nonexpanding rd \<Longrightarrow> fuel_ok n (read_seq rd)"
  unfolding read_seq_def
  by (intro fuel_intros shrinking_nonexpanding [OF shrinking_read_uint])

lemma agree_read_seq [agree_intros]:
  "agree n rd rd' \<Longrightarrow> nonexpanding rd \<Longrightarrow> agree n (read_seq rd) (read_seq rd')"
  unfolding read_seq_def by (intro agree_intros shrinking_nonexpanding [OF shrinking_read_uint])

lemma shrinking_read_string [shrink_intros]: "shrinking read_string"
  unfolding read_string_def
  by (intro shrink_intros shrinking_nonexpanding [OF shrinking_getc])

lemma fuel_ok_read_string [fuel_intros]: "fuel_ok n read_string"
  unfolding read_string_def
  by (intro fuel_intros shrinking_nonexpanding [OF shrinking_read_uint]
    shrinking_nonexpanding [OF shrinking_getc])

lemma shrinking_read_option_as [shrink_intros]:
  "nonexpanding rd \<Longrightarrow> shrinking (read_option_as ty rd)"
  unfolding read_option_as_def by (intro shrink_intros)

lemma fuel_ok_read_option_as [fuel_intros]:
  "fuel_ok n rd \<Longrightarrow> nonexpanding rd \<Longrightarrow> fuel_ok n (read_option_as ty rd)"
  unfolding read_option_as_def
  by (intro fuel_intros shrinking_nonexpanding [OF shrinking_read_tag8])

section \<open>Round trips of sequences, options and strings\<close>

lemma rtE:
  assumes "rt wr rd x"
  obtains p where "\<And>os. wr os x = Inr (emit os p)"
    "\<And>nm bs. rd (stream nm (p @ bs)) = Inr (x, stream nm bs)"
  using assms by (auto simp: rt_def)

lemma rt_all:
  assumes "\<And>x. x \<in> set xs \<Longrightarrow> rt wr rd x"
  shows "rt (write_all wr) (read_n (length xs) rd) xs"
  using assms
proof (induction xs)
  case Nil
  show ?case by (rule rtI [where p = "[]"]) (simp_all add: run_simps)
next
  case (Cons x xs)
  obtain p where p: "\<And>os. wr os x = Inr (emit os p)"
    "\<And>nm bs. rd (stream nm (p @ bs)) = Inr (x, stream nm bs)"
    using rtE [OF Cons.prems [of x]] by auto
  obtain q where q: "\<And>os. write_all wr os xs = Inr (emit os q)"
    "\<And>nm bs. read_n (length xs) rd (stream nm (q @ bs)) = Inr (xs, stream nm bs)"
    using rtE [OF Cons.IH] Cons.prems by (metis list.set_intros(2))
  show ?case
    by (rule rtI [where p = "p @ q"]) (simp_all add: p q run_simps)
qed

lemma rt_length: "n < 2 ^ 30 \<Longrightarrow> rt write_uint read_uint (word_of_nat n)"
  and unat_length: "n < 2 ^ 30 \<Longrightarrow> unat (word_of_nat n :: u32) = n"
proof -
  assume n: "n < 2 ^ 30"
  then show u: "unat (word_of_nat n :: u32) = n"
    by (simp add: unsigned_of_nat take_bit_nat_eq_self)
  show "rt write_uint read_uint (word_of_nat n)"
    by (rule rt_uint) (use n u in \<open>simp add: word_le_iff\<close>)
qed

lemma rt_seq:
  assumes "\<And>x. x \<in> set xs \<Longrightarrow> rt wr rd x" "length xs < 2 ^ 30"
  shows "rt (write_seq wr) (read_seq rd) xs"
proof -
  obtain p where p: "\<And>os. write_uint os (word_of_nat (length xs)) = Inr (emit os p)"
    "\<And>nm bs. read_uint (stream nm (p @ bs)) = Inr (word_of_nat (length xs), stream nm bs)"
    using rtE [OF rt_length [OF assms(2)]] by blast
  obtain q where q: "\<And>os. write_all wr os xs = Inr (emit os q)"
    "\<And>nm bs. read_n (length xs) rd (stream nm (q @ bs)) = Inr (xs, stream nm bs)"
    using rtE [OF rt_all [OF assms(1)]] by metis
  show ?thesis
    by (rule rtI [where p = "p @ q"])
      (simp_all add: write_seq_def read_seq_def p q run_simps unat_length [OF assms(2)])
qed

lemma put_bytes_emit: "put_bytes os s = emit os s"
  by (induction s arbitrary: os) (simp_all add: putb_def)

lemma read_chars: "read_n (length s) getc (stream nm (s @ bs)) = Inr (s, stream nm bs)"
  by (induction s) (simp_all add: run_simps)

lemma rt_string:
  assumes "length s < 2 ^ 30"
  shows "rt write_string read_string s"
proof -
  obtain p where p: "\<And>os. write_uint os (word_of_nat (length s)) = Inr (emit os p)"
    "\<And>nm bs. read_uint (stream nm (p @ bs)) = Inr (word_of_nat (length s), stream nm bs)"
    using rtE [OF rt_length [OF assms]] by blast
  show ?thesis
    by (rule rtI [where p = "p @ s"])
      (simp_all add: write_string_def read_string_def p put_bytes_emit read_chars run_simps
        unat_length [OF assms])
qed

lemma read_tag8_Cons [run_simps]:
  "read_tag8 (stream nm (b # bs)) = Inr (ucast b, stream nm bs)"
  by (simp add: read_tag8_def run_simps)

lemma rt_tag8: "t < 256 \<Longrightarrow> rt write_tag8 read_tag8 t"
proof (rule rtI [where p = "[ucast t]"])
  assume t: "t < 256"
  then have "unat (ucast (ucast t :: u8) :: u32) = unat t"
    by (simp add: unat_ucast_up unat_ucast8 word_less_nat_alt)
  then have tt: "ucast (ucast t :: u8) = t"
    by (simp only: unsigned_word_eqI)
  show "read_tag8 (stream nm ([ucast t] @ bs)) = Inr (t, stream nm bs)" for nm bs
    by (simp add: run_simps tt)
qed (simp add: write_tag8_def putb_def)

lemma rt_bool: "rt write_bool read_bool b"
  by (rule rtI [where p = "[if b then 2 else 1]"])
    (simp_all add: write_bool_def write_tag8_def putb_def read_bool_def run_simps)

lemma rt_option:
  assumes "\<And>x. v = Some x \<Longrightarrow> rt wr rd x"
  shows "rt (write_option wr) (read_option rd) v"
proof (cases v)
  case None
  then show ?thesis
    by (intro rtI [where p = "[0]"])
      (simp_all add: write_option_def read_option_def read_option_as_def putb_def run_simps)
next
  case (Some x)
  obtain p where "\<And>os. wr os x = Inr (emit os p)"
    "\<And>nm bs. rd (stream nm (p @ bs)) = Inr (x, stream nm bs)"
    using rtE [OF assms [OF Some]] by blast
  with Some show ?thesis
    by (intro rtI [where p = "1 # p"])
      (simp_all add: write_option_def read_option_def read_option_as_def putb_def run_simps)
qed

section \<open>The contracts as locales\<close>

locale asdl_reader =
  fixes rd :: "'a reader"
  assumes shrinks: "shrinking rd"
    and fuel: "fuel_ok n rd"
begin

lemma never_out_of_fuel: "rd s \<noteq> Inl OutOfFuel"
  using fuel [of "Suc (left s)"] by (simp add: fuel_ok_def)

lemma seq_shrinks: "shrinking (read_seq rd)"
  by (intro shrink_intros shrinking_nonexpanding shrinks)

lemma seq_fuel: "fuel_ok n (read_seq rd)"
  by (intro fuel_intros fuel shrinking_nonexpanding shrinks)

lemma option_shrinks: "shrinking (read_option rd)"
  unfolding read_option_def by (intro shrink_intros shrinking_nonexpanding shrinks)

lemma option_fuel: "fuel_ok n (read_option rd)"
  unfolding read_option_def by (intro fuel_intros fuel shrinking_nonexpanding shrinks)

end

locale pickler = asdl_reader rd for rd :: "'a reader" +
  fixes wr :: "'a writer"
    and ok :: "'a \<Rightarrow> bool"
  assumes roundtrip: "ok x \<Longrightarrow> rt wr rd x"
begin

lemma seq_roundtrip:
  "list_all ok xs \<Longrightarrow> length xs < 2 ^ 30 \<Longrightarrow> rt (write_seq wr) (read_seq rd) xs"
  by (rule rt_seq) (auto simp: list_all_iff intro: roundtrip)

lemma option_roundtrip: "pred_option ok v \<Longrightarrow> rt (write_option wr) (read_option rd) v"
  by (rule rt_option) (auto intro: roundtrip)

lemma injective:
  assumes "ok x" "ok y" "wr memory_outstream x = wr memory_outstream y"
  shows "x = y"
proof -
  obtain p where p: "wr memory_outstream x = Inr (emit memory_outstream p)"
    "\<And>nm bs. rd (stream nm (p @ bs)) = Inr (x, stream nm bs)"
    using rtE [OF roundtrip [OF assms(1)]] by metis
  obtain q where q: "wr memory_outstream y = Inr (emit memory_outstream q)"
    "\<And>nm bs. rd (stream nm (q @ bs)) = Inr (y, stream nm bs)"
    using rtE [OF roundtrip [OF assms(2)]] by metis
  from p(1) q(1) assms(3) have "p = q"
    by (metis get_pickle_emit sum.inject(2))
  with p(2) [of "[]" "[]"] q(2) [of "[]" "[]"] show ?thesis by simp
qed

text \<open>The pickle, read back through a memory stream.\<close>

lemma memory_roundtrip:
  assumes "ok x"
  shows "\<exists>os. wr memory_outstream x = Inr os \<and>
    rd (memory_instream (get_pickle os)) = Inr (x, memory_instream [])"
proof -
  obtain p where "wr memory_outstream x = Inr (emit memory_outstream p)"
    "\<And>nm bs. rd (stream nm (p @ bs)) = Inr (x, stream nm bs)"
    using rtE [OF roundtrip [OF assms]] by metis
  from this(1) this(2) [of "''<memory>''" "[]"] show ?thesis
    by (simp add: get_pickle_emit memory_instream_def)
qed

end

interpretation int_p: pickler read_int write_int "\<lambda>i. - 536870912 \<le> i \<and> i < 536870912"
  by unfold_locales (auto intro: shrink_intros fuel_intros rt_int)

interpretation uint_p: pickler read_uint write_uint "\<lambda>ui. ui \<le> 0x3fffffff"
  by unfold_locales (auto intro: shrink_intros fuel_intros rt_uint)

interpretation tag8_p: pickler read_tag8 write_tag8 "\<lambda>t. t < 256"
  by unfold_locales (auto intro: shrink_intros fuel_intros rt_tag8)

interpretation bool_p: pickler read_bool write_bool "\<lambda>_. True"
  by unfold_locales (auto intro: shrink_intros fuel_intros rt_bool)

interpretation string_p: pickler read_string write_string "\<lambda>s. length s < 2 ^ 30"
  by unfold_locales (auto intro: shrink_intros fuel_intros rt_string)

end
