(* ===== verification/Asdl_Integer.thy ===== *)
theory Asdl_Integer
  imports Asdl_Laws
begin

text \<open>
  The multiprecision integers of the ASDL runtime (\<open>include/asdl/asdl-integer.hpp\<close> and
  \<open>lib-codegen/asdl-integer.cpp\<close>, without GNU MP): a sign and 32-bit digits, most significant
  first.  In a pickle an integer is a sign bit, six value bits and then seven value bits per
  byte, the top bit of each byte saying whether another follows; reading it repacks the
  seven-bit groups into 32-bit digits.  \<open>int_val\<close> is the number an \<open>integer\<close> stands for.
\<close>

record integer =
  i_sign :: bool
  i_digits :: "u32 list"

section \<open>Constructors\<close>

definition integer_default :: integer where
  "integer_default = \<lparr>i_sign = False, i_digits = [0]\<rparr>"

definition integer_of_uint32 :: "u32 \<Rightarrow> integer" where
  "integer_of_uint32 n = \<lparr>i_sign = False, i_digits = (if n \<noteq> 0 then [n] else [])\<rparr>"

text \<open>\<open>abs\<close> of the least integer overflows.\<close>

definition integer_of_int32 :: "int \<Rightarrow> asdl_error + integer" where
  "integer_of_int32 n =
     (if n = - (2 ^ 31) then Inl SignedOverflow
      else Inr \<lparr>i_sign = n < 0, i_digits = (if n \<noteq> 0 then [word_of_int \<bar>n\<bar>] else [])\<rparr>)"

definition integer_of_uint64 :: "u64 \<Rightarrow> integer" where
  "integer_of_uint64 n =
     \<lparr>i_sign = False,
      i_digits =
        (if n \<noteq> 0 then
           (if n < 0x100000000 then [ucast n] else [ucast (drop_bit 32 n), ucast n])
         else [])\<rparr>"

definition integer_of_int64 :: "int \<Rightarrow> asdl_error + integer" where
  "integer_of_int64 n =
     (if n = - (2 ^ 63) then Inl SignedOverflow
      else Inr
        \<lparr>i_sign = n < 0,
         i_digits =
           (if n \<noteq> 0 then
              (let ui = word_of_int \<bar>n\<bar> :: u64
               in if ui < 0x100000000 then [ucast ui] else [ucast (drop_bit 32 ui), ucast ui])
            else [])\<rparr>)"

text \<open>\<open>integer::write\<close> has an empty body.\<close>

definition integer_write :: "integer writer" where
  "integer_write os i = Inr os"

section \<open>Reading\<close>

function read_digits :: "u8 list reader" where
  "read_digits is =
     (case getb is of
        Inl e \<Rightarrow> Inl e
      | Inr (b, is') \<Rightarrow>
          if b AND 0x80 \<noteq> 0 then
            (case read_digits is' of
               Inl e \<Rightarrow> Inl e
             | Inr (ds, is'') \<Rightarrow> Inr ((b AND 0x7f) # ds, is''))
          else Inr ([b AND 0x7f], is'))"
  by pat_completeness auto
termination
  using shrinking_getb by (relation "measure left") (auto simp: shrinking_def)

declare read_digits.simps [simp del]

definition first_bits :: "u8 \<Rightarrow> nat" where
  "first_bits b =
     (if b > 0x1f then 6
      else if b > 0xf then 5
      else if b > 0x7 then 4
      else if b > 0x3 then 3
      else if b > 0x1 then 2
      else if b > 0x0 then 1
      else 0)"

text \<open>The packing loop.  Its variables are the unread seven-bit digits, the bits still free in
  the current result digit, the current result digit, and the digits pushed so far.\<close>

fun pack_loop :: "u8 list \<Rightarrow> nat \<Rightarrow> u32 \<Rightarrow> u32 list \<Rightarrow> u32 list" where
  "pack_loop [] availBits w out = out @ [w]"
| "pack_loop (b # digits) availBits w out =
     (if availBits \<ge> 7 then
        pack_loop digits (availBits - 7) (push_bit 7 w OR ucast b) out
      else
        let excessBits = 7 - availBits;
            w' = push_bit availBits w OR drop_bit excessBits (ucast b)
        in pack_loop digits (32 - excessBits) (ucast b AND mask excessBits) (out @ [w']))"

text \<open>The body for a positive number \<open>nbits\<close> of bits.\<close>

definition pack_bits :: "nat \<Rightarrow> u8 \<Rightarrow> u8 list \<Rightarrow> u32 list" where
  "pack_bits nbits b rest =
     (let firstBits = first_bits b;
          availBits = (if nbits mod 32 = 0 then 32 else nbits mod 32);
          w = ucast b :: u32
      in if availBits < firstBits then
           (let k = firstBits - availBits
            in pack_loop rest (32 - k) (w AND mask k) [drop_bit k w])
         else pack_loop rest (availBits - firstBits) w [])"

text \<open>The number of bits is computed in \<open>size_t\<close> and then narrowed to \<open>int\<close>; only its low 32 bits
  count.  The sum \<open>nbits + 31\<close> and the index of the loop, both of type \<open>int\<close>, may overflow.\<close>

definition pack_digits :: "u8 \<Rightarrow> u8 list \<Rightarrow> asdl_error + u32 list" where
  "pack_digits b rest =
     (let nbits = sint (word_of_nat (length rest * 7 + first_bits b) :: u32)
      in if nbits > 0 then
           if nbits + 31 \<ge> 2 ^ 31 \<or> length rest + 1 \<ge> 2 ^ 31 then Inl SignedOverflow
           else Inr (pack_bits (nat nbits) b rest)
         else Inr [])"

definition read_integer :: "integer reader" where
  "read_integer =
     rbind getb (\<lambda>b.
     rbind (if b AND 0x80 \<noteq> 0 then read_digits else rreturn []) (\<lambda>digits.
     rbind (rtry (pack_digits (b AND 0x3f) digits)) (\<lambda>ds.
     rreturn \<lparr>i_sign = (b AND 0x40 \<noteq> 0), i_digits = ds\<rparr>)))"

text \<open>No tag in front of the value, as in \<open>write_string_option\<close>; the reader expects one.\<close>

definition write_integer_option :: "integer option writer" where
  "write_integer_option os optB =
     (case optB of Some v \<Rightarrow> integer_write os v | None \<Rightarrow> write_tag8 os 0)"

definition read_integer_option :: "integer option reader" where
  "read_integer_option = read_option_as ''integer?'' read_integer"

section \<open>Conversions\<close>

text \<open>\<open>None\<close> is the return value \<open>true\<close>: the number does not fit and the result variable is not
  written.  The magnitude of the least integer is converted to the least integer, whose negation
  overflows.  The \<open>SIZEOF_INT == 4\<close> branch is the one modelled.\<close>

definition getSign :: "integer \<Rightarrow> int" where
  "getSign i = (if i_sign i then - 1 else 1)"

definition toInt32 :: "integer \<Rightarrow> asdl_error + u32 option" where
  "toInt32 i =
     (case i_digits i of
        [] \<Rightarrow> Inr (Some 0)
      | [d] \<Rightarrow>
          (if i_sign i then
             if d \<le> 0x80000000 then (if d = 0x80000000 then Inl SignedOverflow else Inr (Some (- d)))
             else Inr None
           else if d < 0x80000000 then Inr (Some d) else Inr None)
      | _ \<Rightarrow> Inr None)"

definition toInt64 :: "integer \<Rightarrow> asdl_error + u64 option" where
  "toInt64 i =
     (case i_digits i of
        [] \<Rightarrow> Inr (Some 0)
      | [d] \<Rightarrow> Inr (Some (if i_sign i then - ucast d else ucast d))
      | [d0, d1] \<Rightarrow>
          (let un = push_bit 32 (ucast d0) + ucast d1 :: u64
           in if i_sign i then
                if un \<le> 0x8000000000000000 then
                  (if un = 0x8000000000000000 then Inl SignedOverflow else Inr (Some (- un)))
                else Inr None
              else if un \<le> 0x7fffffffffffffff then Inr (Some un) else Inr None)
      | _ \<Rightarrow> Inr None)"

definition toUInt32 :: "integer \<Rightarrow> u32 option" where
  "toUInt32 i = (case i_digits i of [] \<Rightarrow> Some 0 | [d] \<Rightarrow> Some d | _ \<Rightarrow> None)"

definition toUInt64 :: "integer \<Rightarrow> u64 option" where
  "toUInt64 i =
     (case i_digits i of
        [] \<Rightarrow> Some 0
      | [d] \<Rightarrow> Some (ucast d)
      | [d0, d1] \<Rightarrow> Some (push_bit 32 (ucast d0) + ucast d1)
      | _ \<Rightarrow> None)"

definition toInt :: "integer \<Rightarrow> asdl_error + u32 option" where
  "toInt i = toInt32 i"

definition toUInt :: "integer \<Rightarrow> u32 option" where
  "toUInt i = toUInt32 i"

section \<open>Equality\<close>

definition integer_eq :: "integer \<Rightarrow> integer \<Rightarrow> bool" where
  "integer_eq a b =
     (if i_sign a \<noteq> i_sign b \<or> length (i_digits a) \<noteq> length (i_digits b) then False
      else list_all (\<lambda>i. i_digits a ! i = i_digits b ! i) [0..<length (i_digits a)])"

definition integer_neq :: "integer \<Rightarrow> integer \<Rightarrow> bool" where
  "integer_neq a b =
     (if i_sign a \<noteq> i_sign b \<or> length (i_digits a) \<noteq> length (i_digits b) then True
      else list_ex (\<lambda>i. i_digits a ! i \<noteq> i_digits b ! i) [0..<length (i_digits a)])"

section \<open>The number an integer stands for\<close>

definition val32 :: "u32 list \<Rightarrow> nat" where
  "val32 ds = foldl (\<lambda>a d. a * 2 ^ 32 + unat d) 0 ds"

definition int_val :: "integer \<Rightarrow> int" where
  "int_val i = (if i_sign i then - int (val32 (i_digits i)) else int (val32 (i_digits i)))"

text \<open>No leading zero digit.\<close>

definition canonical :: "integer \<Rightarrow> bool" where
  "canonical i \<longleftrightarrow> i_digits i = [] \<or> hd (i_digits i) \<noteq> 0"

lemma val32_Nil [simp]: "val32 [] = 0"
  and val32_snoc [simp]: "val32 (ds @ [d]) = val32 ds * 2 ^ 32 + unat d"
  by (simp_all add: val32_def)

lemma val32_one [simp]: "val32 [d] = unat d"
  using val32_snoc [of "[]" d] by simp

lemma val32_two [simp]: "val32 [d, e] = unat d * 2 ^ 32 + unat e"
  using val32_snoc [of "[d]" e] by simp

lemma unat_u32_less [simp]: "unat (d :: u32) < 4294967296"
  by (rule unsigned_less [where 'b = 32, simplified])

section \<open>Packing is correct\<close>

definition val7 :: "nat \<Rightarrow> u8 list \<Rightarrow> nat" where
  "val7 a bs = foldl (\<lambda>a b. a * 128 + unat b) a bs"

lemma val7_simps [simp]: "val7 a [] = a" "val7 a (b # bs) = val7 (a * 128 + unat b) bs"
  by (simp_all add: val7_def)

lemma pack_push:
  fixes w :: u32 and b :: u8
  assumes "unat w < 2 ^ wb" "wb + k \<le> 32" "unat c < 2 ^ k"
  shows "unat (push_bit k w OR c) = unat w * 2 ^ k + unat c"
    and "unat (push_bit k w OR c) < 2 ^ (wb + k)"
proof -
  have "unat w * 2 ^ k < 2 ^ wb * 2 ^ k"
    using assms(1) by simp
  also have "\<dots> = 2 ^ (wb + k)" by (simp add: power_add)
  also have "\<dots> \<le> (2 :: nat) ^ 32"
    using assms(2) by (intro power_increasing) simp_all
  finally show eq: "unat (push_bit k w OR c) = unat w * 2 ^ k + unat c"
    by (intro unat_push_bit_or assms) simp
  have "(unat w + 1) * 2 ^ k \<le> 2 ^ wb * 2 ^ k"
    using assms(1) by (intro mult_le_mono1) simp
  with assms(3) show "unat (push_bit k w OR c) < 2 ^ (wb + k)"
    by (simp add: eq power_add)
qed

lemma unat_ucast_u8_u32: "unat (ucast (b :: u8) :: u32) = unat b"
  by (rule unat_ucast_up) simp

text \<open>The loop invariant: the current digit \<open>w\<close> holds \<open>wb\<close> bits and has \<open>availBits\<close> free; the
  digits pushed and \<open>w\<close> together stand for \<open>V\<close>; the bits still to come fill the current digit
  and \<open>j\<close> more.\<close>

lemma pack_loop_correct:
  assumes "\<forall>b \<in> set bs. b < 128"
    and "unat w < 2 ^ wb" "wb + avail \<le> 32" "out \<noteq> [] \<Longrightarrow> wb + avail = 32"
    and "val32 out * 2 ^ wb + unat w = V"
    and "7 * length bs = avail + 32 * j"
  shows "val32 (pack_loop bs avail w out) = val7 V bs"
    and "length (pack_loop bs avail w out) = length out + j + 1"
proof -
  have "val32 (pack_loop bs avail w out) = val7 V bs \<and>
    length (pack_loop bs avail w out) = length out + j + 1"
    using assms
  proof (induction bs arbitrary: avail w out wb V j)
    case Nil
    then have "avail = 0" "j = 0" by simp_all
    with Nil.prems show ?case by (cases "out = []") auto
  next
    case (Cons b bs)
    have b: "unat b < 128"
      using Cons.prems(1) by (simp add: word_less_nat_alt)
    show ?case
    proof (cases "avail \<ge> 7")
      case True
      let ?w = "push_bit 7 w OR ucast b :: u32"
      have w: "unat ?w = unat w * 128 + unat b" "unat ?w < 2 ^ (wb + 7)"
        using pack_push [OF Cons.prems(2), of 7 "ucast b"] Cons.prems(3) True b
        by (simp_all add: unat_ucast_u8_u32)
      have "val32 (pack_loop bs (avail - 7) ?w out) = val7 (V * 128 + unat b) bs \<and>
        length (pack_loop bs (avail - 7) ?w out) = length out + j + 1"
        using Cons.prems True w
        by (intro Cons.IH [where wb = "wb + 7"]) (auto simp: power_add)
      with True show ?thesis by simp
    next
      case False
      define e where "e = 7 - avail"
      have e: "0 < e" "e \<le> 7" "avail + e = 7" using False by (simp_all add: e_def)
      let ?c = "ucast b :: u32"
      let ?w1 = "push_bit avail w OR drop_bit e ?c"
      have c: "unat (drop_bit e ?c) = unat b div 2 ^ e"
        by (simp only: unat_drop_bit unat_ucast_u8_u32)
      have p7: "2 ^ avail * 2 ^ e = (128 :: nat)"
        using e(3) by (simp flip: power_add)
      then have "unat b div 2 ^ e < 2 ^ avail"
        using b by (simp add: less_mult_imp_div_less)
      then have w1: "unat ?w1 = unat w * 2 ^ avail + unat b div 2 ^ e"
        using pack_push [OF Cons.prems(2,3), of "drop_bit e ?c"] by (simp only: c)
      have w: "unat (?c AND mask e) = unat b mod 2 ^ e"
        by (simp only: unat_and_mask unat_ucast_u8_u32)
      obtain j' where j: "j = Suc j'"
        using Cons.prems(6) False by (cases j) simp_all
      have pow: "val32 out * 2 ^ 32 = val32 out * 2 ^ wb * 2 ^ avail"
        using Cons.prems(4) by (cases "out = []") (simp_all flip: power_add mult.assoc
          add: power_add [of 2 wb avail, symmetric] mult.assoc)
      have "val32 (out @ [?w1]) = (val32 out * 2 ^ wb + unat w) * 2 ^ avail + unat b div 2 ^ e"
        unfolding val32_snoc w1 pow by (simp add: algebra_simps)
      then have "val32 (out @ [?w1]) * 2 ^ e + unat (?c AND mask e) =
          (V * 2 ^ avail + unat b div 2 ^ e) * 2 ^ e + unat b mod 2 ^ e"
        unfolding w by (simp add: Cons.prems(5))
      also have "\<dots> = V * (2 ^ avail * 2 ^ e) + (unat b div 2 ^ e * 2 ^ e + unat b mod 2 ^ e)"
        by (simp only: add_mult_distrib mult.assoc add.assoc)
      also have "\<dots> = V * 128 + unat b" by (simp only: p7 div_mult_mod_eq)
      finally have V: "val32 (out @ [?w1]) * 2 ^ e + unat (?c AND mask e) = V * 128 + unat b" .
      have "val32 (pack_loop bs (32 - e) (?c AND mask e) (out @ [?w1])) = val7 (V * 128 + unat b) bs \<and>
        length (pack_loop bs (32 - e) (?c AND mask e) (out @ [?w1])) = length (out @ [?w1]) + j' + 1"
      proof (rule Cons.IH [where wb = e])
        show "unat (?c AND mask e) < 2 ^ e" by (simp only: w) simp
        show "7 * length bs = 32 - e + 32 * j'"
          using Cons.prems(6) e j by simp
      qed (use Cons.prems(1) e V in auto)
      with False show ?thesis by (simp add: e_def [symmetric] Let_def j)
    qed
  qed
  then show "val32 (pack_loop bs avail w out) = val7 V bs"
    and "length (pack_loop bs avail w out) = length out + j + 1" by blast+
qed

text \<open>\<open>first_bits\<close> is the number of significant bits of the first byte.\<close>

lemma first_bits_bound:
  assumes "b < 64"
  shows "first_bits b \<le> 6" "unat b < 2 ^ first_bits b"
    "0 < first_bits b \<Longrightarrow> 2 ^ (first_bits b - 1) \<le> unat b"
proof -
  have u: "unat b < 64" using assms by (simp add: word_less_nat_alt)
  show "first_bits b \<le> 6" by (simp add: first_bits_def)
  show "unat b < 2 ^ first_bits b" "0 < first_bits b \<Longrightarrow> 2 ^ (first_bits b - 1) \<le> unat b"
    using u by (simp_all add: first_bits_def word_less_nat_alt split: if_splits)
qed

text \<open>The digits of a number of bits that does not overflow.\<close>

definition count_bits :: "u8 \<Rightarrow> u8 list \<Rightarrow> nat" where
  "count_bits b rest = length rest * 7 + first_bits b"

definition digits_of :: "u8 \<Rightarrow> u8 list \<Rightarrow> u32 list" where
  "digits_of b rest =
     (let nbits = length rest * 7 + first_bits b in if nbits > 0 then pack_bits nbits b rest else [])"

lemma sint_low: "n < 2 ^ 31 \<Longrightarrow> sint (word_of_nat n :: u32) = int n"
  by (simp add: signed_of_nat signed_take_bit_int_eq_self)

lemma sint_high: "2 ^ 31 \<le> n \<Longrightarrow> n < 2 ^ 32 \<Longrightarrow> sint (word_of_nat n :: u32) < 0"
proof -
  assume n: "2 ^ 31 \<le> n" "n < 2 ^ 32"
  have "(int n + 2147483648) mod 4294967296 = (int n - 2147483648) mod 4294967296"
    by (subst mod_add_self2 [symmetric]) (simp add: add.commute)
  also have "\<dots> = int n - 2147483648"
    using n by (intro mod_pos_pos_trivial) simp_all
  finally show ?thesis
    using n by (simp add: signed_of_nat signed_take_bit_eq_take_bit_shift take_bit_eq_mod)
qed

lemma pack_digits_fits:
  assumes "count_bits b rest + 31 < 2 ^ 31"
  shows "pack_digits b rest = Inr (digits_of b rest)"
proof -
  have "sint (word_of_nat (length rest * 7 + first_bits b) :: u32) = int (length rest * 7 + first_bits b)"
    using assms by (intro sint_low) (simp add: count_bits_def)
  with assms show ?thesis by (simp add: pack_digits_def digits_of_def count_bits_def Let_def del: of_nat_add of_nat_mult)
qed

text \<open>From \<open>2\<^sup>3\<^sup>1\<close> bits on, the narrowed number is negative, and there are no digits.\<close>

lemma pack_digits_wraps:
  assumes "2 ^ 31 \<le> count_bits b rest" "count_bits b rest < 2 ^ 32"
  shows "pack_digits b rest = Inr []"
  using sint_high [OF assms] by (simp add: pack_digits_def count_bits_def Let_def del: of_nat_add of_nat_mult)

lemma digits_of_correct:
  assumes "b < 64" "\<forall>d \<in> set rest. d < 128"
  shows "val32 (digits_of b rest) = val7 (unat b) rest"
    and "length (digits_of b rest) = (length rest * 7 + first_bits b + 31) div 32"
proof -
  define fb where "fb = first_bits b"
  define n where "n = length rest * 7 + fb"
  define av where "av = (if n mod 32 = 0 then 32 else n mod 32)"
  note fb = first_bits_bound [OF assms(1), folded fb_def]
  have "val32 (digits_of b rest) = val7 (unat b) rest \<and>
    length (digits_of b rest) = (n + 31) div 32"
  proof (cases "n = 0")
    case True
    then have "rest = []" "fb = 0" by (simp_all add: n_def)
    with fb(2) True show ?thesis
      by (simp add: digits_of_def pack_bits_def n_def fb_def)
  next
    case False
    have av: "0 < av" "av \<le> 32" by (auto simp: av_def less_imp_le)
    obtain j where j: "n = av + 32 * j"
    proof (cases "n mod 32 = 0")
      case True
      then have "n = 32 * (n div 32)" "0 < n div 32" using False by auto
      then have "n = av + 32 * (n div 32 - 1)" using True by (simp add: av_def)
      then show thesis by (rule that)
    next
      case nz: False
      have "n = n mod 32 + 32 * (n div 32)" by simp
      then have "n = av + 32 * (n div 32)" using nz by (simp add: av_def)
      then show thesis by (rule that)
    qed
    have len: "(n + 31) div 32 = j + 1" unfolding j
      by (rule div_nat_eqI) (use av in simp_all)
    have pd: "digits_of b rest =
      (if av < fb then pack_loop rest (32 - (fb - av)) (ucast b AND mask (fb - av))
         [drop_bit (fb - av) (ucast b)]
       else pack_loop rest (av - fb) (ucast b) [])"
      unfolding digits_of_def pack_bits_def Let_def fb_def [symmetric] n_def [symmetric] av_def [symmetric]
      using False by simp
    show ?thesis
    proof (cases "av < fb")
      case True
      define k where "k = fb - av"
      have k: "0 < k" "k \<le> 6" using True fb(1) by (simp_all add: k_def)
      obtain j' where j': "j = Suc j'"
        using j True by (cases j) (simp_all add: n_def)
      let ?w = "ucast b AND mask k :: u32" and ?o = "[drop_bit k (ucast b) :: u32]"
      have w: "unat ?w = unat b mod 2 ^ k" "unat (hd ?o) = unat b div 2 ^ k"
        by (simp_all only: unat_and_mask unat_drop_bit unat_ucast_u8_u32 list.sel)
      have "unat ?w < 2 ^ k" by (simp only: w) simp
      moreover have "val32 ?o * 2 ^ k + unat ?w = unat b"
        by (simp only: val32_one w [unfolded list.sel] div_mult_mod_eq)
      moreover have "7 * length rest = 32 - k + 32 * j'"
        using j True k by (simp add: n_def j' k_def)
      ultimately show ?thesis
        using pack_loop_correct [of rest ?w k "32 - k" ?o "unat b" j'] assms(2) k True
        by (simp add: pd k_def [symmetric] len j')
    next
      case F: False
      then show ?thesis
        using pack_loop_correct [of rest "ucast b" fb "av - fb" "[]" "unat b" j] assms(2) av fb(2) j
        by (simp add: pd unat_ucast_u8_u32 len n_def)
    qed
  qed
  then show "val32 (digits_of b rest) = val7 (unat b) rest"
    and "length (digits_of b rest) = (length rest * 7 + first_bits b + 31) div 32"
    by (simp_all add: n_def fb_def)
qed

section \<open>The digits of a number are unique\<close>

lemma foldl32: "foldl (\<lambda>a d. a * 2 ^ 32 + unat (d :: u32)) a ds = a * 2 ^ (32 * length ds) + val32 ds"
proof (induction ds rule: rev_induct)
  case (snoc d ds)
  then show ?case by (simp add: power_add algebra_simps)
qed simp

lemma val32_Cons: "val32 (d # ds) = unat d * 2 ^ (32 * length ds) + val32 ds"
  using foldl32 [of "unat d" ds] by (simp add: val32_def)

lemma val32_less: "val32 ds < 2 ^ (32 * length ds)"
proof (induction ds rule: rev_induct)
  case (snoc d ds)
  have "unat d < 2 ^ 32" by simp
  from digit_less [OF snoc this] show ?case
    by (simp add: power_add mult.commute)
qed simp

lemma val32_ge: "ds \<noteq> [] \<Longrightarrow> hd ds \<noteq> 0 \<Longrightarrow> 2 ^ (32 * (length ds - 1)) \<le> val32 ds"
proof (cases ds)
  case (Cons d ds')
  assume "hd ds \<noteq> 0"
  with Cons have "1 \<le> unat d" by (simp add: Suc_le_eq unat_gt_0)
  then have "1 * 2 ^ (32 * length ds') \<le> unat d * 2 ^ (32 * length ds')"
    by (rule mult_le_mono1)
  with Cons show ?thesis by (simp add: val32_Cons trans_le_add1)
qed simp

lemma val32_inj:
  "val32 ds = val32 es \<Longrightarrow> ds = [] \<or> hd ds \<noteq> 0 \<Longrightarrow> es = [] \<or> hd es \<noteq> 0 \<Longrightarrow> ds = es"
proof (induction ds arbitrary: es rule: rev_induct)
  case Nil
  then show ?case using val32_ge [of es] by (cases "es = []") auto
next
  case (snoc d ds)
  have "0 < val32 (ds @ [d])"
  proof -
    have "2 ^ (32 * (length (ds @ [d]) - 1)) \<le> val32 (ds @ [d])"
      using snoc.prems(2) by (intro val32_ge) simp_all
    then show ?thesis by (rule order_less_le_trans [rotated]) simp
  qed
  with snoc.prems(1) have "es \<noteq> []" by auto
  then obtain es' e where es: "es = es' @ [e]" by (cases es rule: rev_cases) auto
  have eq: "val32 ds * 2 ^ 32 + unat d = val32 es' * 2 ^ 32 + unat e"
    using snoc.prems(1) unfolding es val32_snoc .
  have "unat d < 2 ^ 32" "unat e < 2 ^ 32" by simp_all
  note inj = digit_inj [OF eq this]
  have "d = e" using inj(2) by (simp only: word_unat_eq_iff)
  moreover have "ds = es'"
    using inj(1) snoc.prems(2,3) es by (intro snoc.IH) (auto split: if_splits)
  ultimately show ?case using es by blast
qed

lemma integer_eqI:
  assumes "int_val i = int_val j" "i_sign i = i_sign j" "canonical i" "canonical j"
  shows "i = j"
proof -
  have "i_digits i = i_digits j"
    using assms by (intro val32_inj) (auto simp: int_val_def canonical_def split: if_splits)
  with assms(2) show ?thesis by simp
qed

text \<open>A tight encoding (no superfluous leading group) gives digits without a leading zero.\<close>

definition tight :: "u8 \<Rightarrow> u8 list \<Rightarrow> bool" where
  "tight b rest \<longleftrightarrow> b \<noteq> 0 \<or> rest = [] \<or> 64 \<le> hd rest"

lemma val7_ge: "a * 128 ^ length bs \<le> val7 a bs"
proof (induction bs arbitrary: a)
  case (Cons b bs)
  have "a * 128 ^ length (b # bs) \<le> (a * 128 + unat b) * 128 ^ length bs"
    by (simp add: algebra_simps)
  also have "\<dots> \<le> val7 (a * 128 + unat b) bs" by (rule Cons.IH)
  finally show ?case by simp
qed simp

lemma tight_ge:
  assumes "b < 64" "tight b rest" "0 < length rest * 7 + first_bits b"
  shows "2 ^ (length rest * 7 + first_bits b - 1) \<le> val7 (unat b) rest"
proof (cases "b = 0")
  case False
  then have f: "0 < first_bits b"
    using first_bits_bound(2) [OF assms(1)] by (cases "first_bits b") (auto simp: unat_eq_zero)
  have "(2 :: nat) ^ (7 * length rest) = 128 ^ length rest" by (simp add: power_mult)
  then have "2 ^ (length rest * 7 + first_bits b - 1) = 2 ^ (first_bits b - 1) * (128 :: nat) ^ length rest"
    using f by (cases "first_bits b") (simp_all add: power_add mult.commute [of "length rest"])
  also have "\<dots> \<le> unat b * 128 ^ length rest"
    using first_bits_bound(3) [OF assms(1) f] by (rule mult_le_mono1)
  also have "\<dots> \<le> val7 (unat b) rest" by (rule val7_ge)
  finally show ?thesis .
next
  case True
  with assms obtain r rs where r: "rest = r # rs" "64 \<le> unat r"
    by (cases rest) (auto simp: tight_def first_bits_def word_le_nat_alt)
  have "2 ^ (length rest * 7 + first_bits b - 1) = (64 :: nat) * 128 ^ length rs"
    using True r by (simp add: first_bits_def power_add power_mult mult.commute [of "length rs"])
  also have "\<dots> \<le> unat r * 128 ^ length rs"
    using r(2) by (rule mult_le_mono1)
  also have "\<dots> \<le> val7 (unat r) rs" by (rule val7_ge)
  finally show ?thesis using True r(1) by simp
qed

lemma digits_of_canonical:
  assumes "b < 64" "\<forall>d \<in> set rest. d < 128" "tight b rest"
  shows "digits_of b rest = [] \<or> hd (digits_of b rest) \<noteq> 0"
proof (rule disjCI)
  let ?ds = "digits_of b rest" and ?n = "length rest * 7 + first_bits b"
  assume "\<not> hd ?ds \<noteq> 0"
  then have z: "hd ?ds = 0" by simp
  note c = digits_of_correct [OF assms(1,2)]
  show "?ds = []"
  proof (rule ccontr)
    assume ne: "?ds \<noteq> []"
    then have n: "0 < ?n" by (cases "0 < ?n") (simp_all add: digits_of_def pack_bits_def Let_def)
    obtain ds where ds: "?ds = 0 # ds" using ne z by (cases ?ds) auto
    have "val32 ?ds < 2 ^ (32 * length ds)"
      unfolding ds val32_Cons using val32_less [of ds] by simp
    also have "32 * length ds \<le> ?n - 1"
      using c(2) n unfolding ds by simp
    then have "2 ^ (32 * length ds) \<le> (2 :: nat) ^ (?n - 1)"
      by (intro power_increasing) simp_all
    finally show False
      using tight_ge [OF assms(1,3) n] c(1) by simp
  qed
qed

section \<open>The bytes of an integer\<close>

text \<open>The format that \<open>integer::integer (instream \<open>&\<close>)\<close> reads, as the bytes that stand for a
  sign and a list of groups.\<close>

fun cont_bytes :: "u8 list \<Rightarrow> u8 list" where
  "cont_bytes [] = []"
| "cont_bytes [d] = [d]"
| "cont_bytes (d # ds) = (d OR 0x80) # cont_bytes ds"

definition integer_bytes :: "bool \<Rightarrow> u8 \<Rightarrow> u8 list \<Rightarrow> u8 list" where
  "integer_bytes neg b rest =
     ((if neg then 0x40 else 0) OR (if rest \<noteq> [] then 0x80 else 0) OR b) # cont_bytes rest"

lemma p8:
  "(0x80 :: u8) = 2 ^ 7" "(0x40 :: u8) = 2 ^ 6" "(0x7f :: u8) = mask 7" "(0x3f :: u8) = mask 6"
  by (simp_all add: mask_eq_exp_minus_1)

lemma and_mask_eqI: "unat b mod 2 ^ k = unat c \<Longrightarrow> b AND mask k = c" for b :: "'a::len word"
  by (simp only: word_unat_eq_iff unat_and_mask)

lemma group_bits:
  fixes b :: u8
  assumes "b < 128"
  shows "(b OR 0x80) AND 0x80 \<noteq> 0" "(b OR 0x80) AND 0x7f = b" "b AND 0x80 = 0" "b AND 0x7f = b"
proof -
  have b: "unat b < 2 ^ 7" using assms by (simp add: word_less_nat_alt)
  have "unat (0x80 OR b) = unat (0x80 :: u8) + unat b"
    by (rule unat_or_low [OF _ b, where k = 1]) simp
  then have o: "unat (b OR 0x80) = 128 + unat b" by (simp add: or.commute)
  show "(b OR 0x80) AND 0x80 \<noteq> 0" "b AND 0x80 = 0"
    using and_bit_iff [of "b OR 0x80" 7] and_bit_iff [of b 7] b unfolding p8(1) [symmetric] o
    by simp_all
  show "(b OR 0x80) AND 0x7f = b" "b AND 0x7f = b"
    unfolding p8(3) by (rule and_mask_eqI; use b o in simp)+
qed

lemma first_bits_of_byte:
  fixes b :: u8
  assumes "b < 64"
  defines "w \<equiv> \<lambda>neg ct. (if neg then 0x40 else 0) OR (if ct then 0x80 else 0) OR b"
  shows "w neg ct AND 0x80 \<noteq> 0 \<longleftrightarrow> ct" "w neg ct AND 0x40 \<noteq> 0 \<longleftrightarrow> neg" "w neg ct AND 0x3f = b"
proof -
  have b: "unat b < 2 ^ 6" using assms by (simp add: word_less_nat_alt)
  define c :: u8 where "c = (if neg then 0x40 else 0) OR (if ct then 0x80 else 0)"
  have c: "unat c = ((if neg then 1 else 0) + (if ct then 2 else 0)) * 2 ^ 6"
    by (simp add: c_def)
  have w: "w neg ct = c OR b" by (simp only: w_def c_def or.assoc)
  have o: "unat (w neg ct) = (if neg then 64 else 0) + (if ct then 128 else 0) + unat b"
    unfolding w unat_or_low [OF c b] c by simp
  have d: "(64 + unat b) div 128 = 0" "(128 + unat b) div 128 = 1" "(192 + unat b) div 128 = 1"
    "(64 + unat b) div 64 = 1" "(128 + unat b) div 64 = 2" "(192 + unat b) div 64 = 3"
    using b by simp_all
  show "w neg ct AND 0x80 \<noteq> 0 \<longleftrightarrow> ct" "w neg ct AND 0x40 \<noteq> 0 \<longleftrightarrow> neg"
    using and_bit_iff [of "w neg ct" 7] and_bit_iff [of "w neg ct" 6] b d
    unfolding p8(1,2) [symmetric] o by simp_all
  show "w neg ct AND 0x3f = b"
    unfolding p8(4) w
    by (rule and_mask_eqI) (simp only: unat_or_low [OF c b] c mod_mult_self3 mod_less b)
qed

lemma read_digits_run:
  "ds \<noteq> [] \<Longrightarrow> \<forall>d \<in> set ds. d < 128 \<Longrightarrow>
   read_digits (stream nm (cont_bytes ds @ r)) = Inr (ds, stream nm r)"
proof (induction ds rule: cont_bytes.induct)
  case (2 d)
  then show ?case by (subst read_digits.simps) (simp add: run_simps group_bits)
next
  case (3 d e ds)
  then show ?case
    by (subst read_digits.simps) (simp add: run_simps group_bits)
qed simp

lemma read_integer_bytes:
  assumes "b < 64" "\<forall>d \<in> set rest. d < 128"
  shows "read_integer (stream nm (integer_bytes neg b rest @ r)) =
    map_sum (\<lambda>e. e) (\<lambda>ds. (\<lparr>i_sign = neg, i_digits = ds\<rparr>, stream nm r)) (pack_digits b rest)"
proof (cases "rest = []")
  case True
  then show ?thesis
    using first_bits_of_byte [OF assms(1), of neg False]
    by (cases "pack_digits b []") (simp_all add: read_integer_def integer_bytes_def run_simps rbind_def rtry_def)
next
  case False
  then show ?thesis
    using first_bits_of_byte [OF assms(1), of neg True] read_digits_run [OF False assms(2), of nm r]
    by (cases "pack_digits b rest") (simp_all add: read_integer_def integer_bytes_def run_simps rbind_def rtry_def)
qed

lemma shrinking_read_digits [shrink_intros]: "shrinking read_digits"
  unfolding shrinking_def
proof (intro allI impI)
  fix s x s'
  assume "read_digits s = Inr (x, s')"
  then show "left s' < left s"
  proof (induction s arbitrary: x rule: read_digits.induct)
    case (1 s)
    obtain b s1 where g: "getb s = Inr (b, s1)"
      using "1.prems" by (subst (asm) read_digits.simps) (auto split: sum.splits)
    then have l: "left s1 < left s" using shrinking_getb by (auto simp: shrinking_def)
    show ?case
    proof (cases "b AND 0x80 \<noteq> 0")
      case True
      then obtain ds where "read_digits s1 = Inr (ds, s')"
        using "1.prems" g by (subst (asm) read_digits.simps) (auto split: sum.splits)
      from "1.IH" [OF g refl True this] l show ?thesis by simp
    next
      case False
      then show ?thesis
        using "1.prems" g l by (subst (asm) read_digits.simps) simp
    qed
  qed
qed

lemma fuel_ok_read_digits [fuel_intros]: "fuel_ok n read_digits"
  unfolding fuel_ok_def
proof (intro allI impI)
  fix s
  show "read_digits s \<noteq> Inl OutOfFuel"
  proof (induction s rule: read_digits.induct)
    case (1 s)
    have "getb s \<noteq> Inl OutOfFuel"
      using fuel_ok_getb [of "Suc (left s)"] by (simp add: fuel_ok_def)
    then show ?case
      using "1.IH" by (subst read_digits.simps) (auto split: sum.splits)
  qed
qed

lemma shrinking_read_integer [shrink_intros]: "shrinking read_integer"
  unfolding read_integer_def
  by (intro shrinking_rbind nonexpanding_rbind nonexpanding_if nonexpanding_rreturn nonexpanding_rtry
    shrinking_getb shrinking_nonexpanding [OF shrinking_read_digits])

lemma pack_digits_fuel: "pack_digits b rest \<noteq> Inl OutOfFuel"
  by (simp add: pack_digits_def Let_def)

lemma fuel_ok_read_integer [fuel_intros]: "fuel_ok n read_integer"
  unfolding read_integer_def
  by (intro fuel_intros fuel_ok_rtry pack_digits_fuel nonexpanding_if nonexpanding_rreturn nonexpanding_rtry
    shrinking_nonexpanding [OF shrinking_getb] shrinking_nonexpanding [OF shrinking_read_digits])

interpretation integer_r: asdl_reader read_integer
  by unfold_locales (intro shrink_intros fuel_intros)+

section \<open>Equality is equality\<close>

lemma integer_eq_iff: "integer_eq a b \<longleftrightarrow> a = b"
proof -
  have "i_digits a = i_digits b \<longleftrightarrow> length (i_digits a) = length (i_digits b) \<and>
      (\<forall>i < length (i_digits a). i_digits a ! i = i_digits b ! i)"
    by (rule list_eq_iff_nth_eq)
  then have "integer_eq a b \<longleftrightarrow> i_sign a = i_sign b \<and> i_digits a = i_digits b"
    by (auto simp: integer_eq_def list_all_iff)
  also have "\<dots> \<longleftrightarrow> a = b" by (cases a, cases b) simp
  finally show ?thesis .
qed

lemma integer_neq_iff: "integer_neq a b \<longleftrightarrow> a \<noteq> b"
proof -
  have "integer_neq a b \<longleftrightarrow> \<not> integer_eq a b"
    by (auto simp: integer_eq_def integer_neq_def list_all_iff list_ex_iff)
  then show ?thesis by (simp only: integer_eq_iff)
qed

section \<open>Conversions are exact\<close>

lemma two_digits:
  "push_bit 32 (ucast d0) + ucast d1 = (word_of_nat (unat (d0 :: u32) * 2 ^ 32 + unat (d1 :: u32)) :: u64)"
  by (simp add: push_bit_eq_mult)

lemma unat_two_digits:
  "unat (push_bit 32 (ucast d0) + ucast d1 :: u64) = unat (d0 :: u32) * 2 ^ 32 + unat (d1 :: u32)"
proof -
  have "unat d0 * 2 ^ 32 + unat d1 < 2 ^ 32 * 2 ^ 32"
    by (rule digit_less) simp_all
  then show ?thesis
    unfolding two_digits unsigned_of_nat by (simp add: take_bit_nat_eq_self)
qed

lemma val32_three: "canonical i \<Longrightarrow> i_digits i = d # e # f # ds \<Longrightarrow> 2 ^ 64 \<le> val32 (i_digits i)"
proof -
  assume "canonical i" "i_digits i = d # e # f # ds"
  then have "2 ^ (32 * (length (i_digits i) - 1)) \<le> val32 (i_digits i)"
    by (intro val32_ge) (auto simp: canonical_def)
  moreover have "(2 :: nat) ^ 64 \<le> 2 ^ (32 * (length (i_digits i) - 1))"
    using \<open>i_digits i = _\<close> by (intro power_increasing) simp_all
  ultimately show ?thesis by linarith
qed

lemma word_of_int_digits:
  "word_of_nat (unat d) = (ucast d :: 'b::len word)" for d :: "'a::len word"
  by simp

lemma toUInt64_exact:
  assumes "canonical i"
  shows "toUInt64 i =
    (if val32 (i_digits i) < 2 ^ 64 then Some (word_of_nat (val32 (i_digits i))) else None)"
proof -
  consider "i_digits i = []" | d where "i_digits i = [d]" | d e where "i_digits i = [d, e]"
    | d e f ds where "i_digits i = d # e # f # ds"
    by (metis list.exhaust)
  then show ?thesis
  proof cases
    case (2 d)
    have "unat d < 2 ^ 64" by (rule order_less_trans [OF unat_u32_less]) simp
    with 2 show ?thesis by (simp add: toUInt64_def)
  next
    case (3 d e)
    have "unat d * 2 ^ 32 + unat e < 2 ^ 64" by (rule order_less_le_trans [OF digit_less [of _ "2 ^ 32"]]) simp_all
    with 3 two_digits [of d e] show ?thesis by (simp add: toUInt64_def)
  next
    case 4
    with val32_three [OF assms 4] show ?thesis by (simp add: toUInt64_def)
  qed (simp add: toUInt64_def)
qed

lemma toInt64_exact:
  assumes "canonical i"
  shows "toInt64 i =
    (if int_val i = - (2 ^ 63) then Inl SignedOverflow
     else if - (2 ^ 63) < int_val i \<and> int_val i < 2 ^ 63 then Inr (Some (word_of_int (int_val i)))
     else Inr None)"
proof -
  consider "i_digits i = []" | d where "i_digits i = [d]" | d e where "i_digits i = [d, e]"
    | d e f ds where "i_digits i = d # e # f # ds"
    by (metis list.exhaust)
  then show ?thesis
  proof cases
    case (2 d)
    have "uint d < 2 ^ 32" using uint_lt2p [of d] by simp
    moreover from this have "uint d < 2 ^ 63" "- uint d < 2 ^ 63" "- (2 ^ 63) < uint d" "uint d \<noteq> 2 ^ 63" "- uint d \<noteq> - (2 ^ 63)" "uint d \<noteq> - (2 ^ 63)"
      using uint_ge_0 [of d] by (simp_all; linarith)+
    ultimately show ?thesis using 2 by (auto simp: toInt64_def int_val_def)
  next
    case (3 d e)
    let ?un = "push_bit 32 (ucast d) + ucast e :: u64" and ?u = "unat d * 2 ^ 32 + unat e"
    define u where "u = ?u"
    have un: "?un = word_of_nat u" unfolding u_def by (rule two_digits)
    have "?un \<le> 0x8000000000000000 \<longleftrightarrow> u \<le> 0x8000000000000000"
      "?un \<le> 0x7fffffffffffffff \<longleftrightarrow> u \<le> 0x7fffffffffffffff"
      "?un = 0x8000000000000000 \<longleftrightarrow> u = 0x8000000000000000"
      unfolding word_le_nat_alt word_unat_eq_iff unat_two_digits u_def by simp_all
    then have t: "toInt64 i =
      (if i_sign i then
         if u \<le> 0x8000000000000000 then
           (if u = 0x8000000000000000 then Inl SignedOverflow else Inr (Some (- word_of_nat u)))
         else Inr None
       else if u \<le> 0x7fffffffffffffff then Inr (Some (word_of_nat u)) else Inr None)"
      using 3 by (simp add: toInt64_def Let_def un u_def)
    have "int_val i = (if i_sign i then - int u else int u)"
      using 3 by (simp add: int_val_def u_def)
    then show ?thesis unfolding t by auto
  next
    case 4
    with val32_three [OF assms 4] show ?thesis
      by (auto simp: toInt64_def int_val_def)
  qed (simp add: toInt64_def int_val_def)
qed

section \<open>Every number has a pickle\<close>

text \<open>The groups of a magnitude: a head below 64 and seven-bit groups, none superfluous.\<close>

fun int_groups :: "nat \<Rightarrow> u8 \<times> u8 list" where
  "int_groups n =
     (if n < 64 then (word_of_nat n, [])
      else (fst (int_groups (n div 128)), snd (int_groups (n div 128)) @ [word_of_nat (n mod 128)]))"

declare int_groups.simps [simp del]

definition int_pickle :: "int \<Rightarrow> u8 list" where
  "int_pickle z =
     (let (b, rest) = int_groups (nat \<bar>z\<bar>) in integer_bytes (z < 0) b rest)"

lemma val7_append: "val7 a (xs @ ys) = val7 (val7 a xs) ys"
  by (simp add: val7_def)

lemma unat_word8: "n < 256 \<Longrightarrow> unat (word_of_nat n :: u8) = n"
  by (simp add: unsigned_of_nat take_bit_nat_eq_self)

lemma int_groups_correct:
  "fst (int_groups n) < 64 \<and> (\<forall>d \<in> set (snd (int_groups n)). d < 128) \<and>
   val7 (unat (fst (int_groups n))) (snd (int_groups n)) = n \<and>
   tight (fst (int_groups n)) (snd (int_groups n))"
proof (induction n rule: int_groups.induct)
  case (1 n)
  show ?case
  proof (cases "n < 64")
    case True
    then show ?thesis
      by (subst (1 2 3 4 5 6) int_groups.simps) (simp add: tight_def word_less_nat_alt unat_word8)
  next
    case False
    define b rs where "b = fst (int_groups (n div 128))" and "rs = snd (int_groups (n div 128))"
    define d :: u8 where "d = word_of_nat (n mod 128)"
    have g: "int_groups n = (b, rs @ [d])"
      by (subst int_groups.simps) (simp add: False b_def rs_def d_def)
    have d: "unat d = n mod 128" by (simp only: d_def) (rule unat_word8, simp add: less_trans [of _ 128])
    have IH: "b < 64" "\<forall>d \<in> set rs. d < 128" "val7 (unat b) rs = n div 128" "tight b rs"
      using "1.IH" [OF False] by (simp_all add: b_def rs_def)
    have "tight b (rs @ [d])"
    proof (cases "b = 0 \<and> rs = []")
      case True
      then have "n div 128 = 0" using IH(3) by simp
      then have "64 \<le> d" using False d by (simp add: word_le_nat_alt)
      with True show ?thesis by (simp add: tight_def)
    next
      case False
      with IH(4) show ?thesis by (auto simp: tight_def)
    qed
    with IH d show ?thesis
      by (simp add: g val7_append word_less_nat_alt)
  qed
qed

text \<open>The number of bits that the reader counts, and the numbers for which nothing overflows.\<close>

definition pickle_bits :: "int \<Rightarrow> nat" where
  "pickle_bits z = (let (b, rest) = int_groups (nat \<bar>z\<bar>) in count_bits b rest)"

definition int_fits :: "int \<Rightarrow> bool" where
  "int_fits z \<longleftrightarrow> pickle_bits z + 31 < 2 ^ 31"

lemma read_int_pickle_eq:
  "read_integer (stream nm (int_pickle z @ r)) =
     (let (b, rest) = int_groups (nat \<bar>z\<bar>)
      in map_sum (\<lambda>e. e) (\<lambda>ds. (\<lparr>i_sign = (z < 0), i_digits = ds\<rparr>, stream nm r)) (pack_digits b rest))"
  using read_integer_bytes int_groups_correct [of "nat \<bar>z\<bar>"]
  by (cases "int_groups (nat \<bar>z\<bar>)") (simp add: int_pickle_def)

lemma read_int_pickle:
  assumes "int_fits z"
  shows "\<exists>i. read_integer (stream nm (int_pickle z @ r)) = Inr (i, stream nm r) \<and>
     int_val i = z \<and> canonical i \<and> i_sign i = (z < 0)"
proof -
  obtain b rest where g: "int_groups (nat \<bar>z\<bar>) = (b, rest)" by fastforce
  note c = int_groups_correct [of "nat \<bar>z\<bar>", unfolded g fst_conv snd_conv]
  let ?i = "\<lparr>i_sign = z < 0, i_digits = digits_of b rest\<rparr>"
  have "pack_digits b rest = Inr (digits_of b rest)"
    using assms by (intro pack_digits_fits) (simp add: int_fits_def pickle_bits_def g)
  then have "read_integer (stream nm (int_pickle z @ r)) = Inr (?i, stream nm r)"
    by (simp add: read_int_pickle_eq g)
  moreover have "int_val ?i = z"
    using digits_of_correct(1) [of b rest] c by (simp add: int_val_def)
  moreover have "canonical ?i"
    using digits_of_canonical [of b rest] c by (simp add: canonical_def)
  ultimately show ?thesis by (metis integer.select_convs(1))
qed

lemma read_int_pickle_wraps:
  assumes "2 ^ 31 \<le> pickle_bits z" "pickle_bits z < 2 ^ 32"
  shows "read_integer (stream nm (int_pickle z @ r)) = Inr (\<lparr>i_sign = z < 0, i_digits = []\<rparr>, stream nm r)"
proof -
  obtain b rest where g: "int_groups (nat \<bar>z\<bar>) = (b, rest)" by fastforce
  have "pack_digits b rest = Inr []"
    using assms by (intro pack_digits_wraps) (simp_all add: pickle_bits_def g)
  then show ?thesis by (simp add: read_int_pickle_eq g)
qed

text \<open>Among the numbers that fit are those of 64 bits.\<close>

lemma int_groups_length: "n < 64 * 128 ^ k \<Longrightarrow> length (snd (int_groups n)) \<le> k"
proof (induction k arbitrary: n)
  case 0
  then show ?case by (subst int_groups.simps) simp
next
  case (Suc k)
  then have "n div 128 < 64 * 128 ^ k" by (simp add: less_mult_imp_div_less mult.assoc mult.commute)
  from Suc.IH [OF this] show ?case by (subst int_groups.simps) simp
qed

lemma int_fits_64 [simp]: "\<bar>z\<bar> < 2 ^ 64 \<Longrightarrow> int_fits z"
proof -
  assume "\<bar>z\<bar> < 2 ^ 64"
  then have "length (snd (int_groups (nat \<bar>z\<bar>))) \<le> 9" by (intro int_groups_length) simp
  moreover have "first_bits (fst (int_groups (nat \<bar>z\<bar>))) \<le> 6" by (simp add: first_bits_def)
  ultimately show ?thesis by (simp add: int_fits_def pickle_bits_def count_bits_def case_prod_beta)
qed

text \<open>The default constructor's value is not the zero that the other constructors make.\<close>

lemma integer_zeros:
  "integer_of_int64 0 = Inr (integer_of_uint32 0)" "int_val integer_default = int_val (integer_of_uint32 0)"
  "\<not> integer_eq integer_default (integer_of_uint32 0)"
  by (simp_all add: integer_of_uint32_def integer_of_int64_def integer_default_def int_val_def integer_eq_def)

lemma integer_of_uint64_val: "int_val (integer_of_uint64 n) = int (unat n)"
  and integer_of_uint64_canonical: "canonical (integer_of_uint64 n)"
proof -
  have u: "unat (ucast n :: u32) = unat n mod 2 ^ 32"
    by (simp add: unsigned_ucast_eq take_bit_eq_mod)
  have h: "unat (ucast (drop_bit 32 n) :: u32) = unat n div 2 ^ 32"
  proof -
    have "unat n div 2 ^ 32 < 2 ^ 32"
      using unsigned_less [of n] by (intro less_mult_imp_div_less) simp
    then show ?thesis
      by (simp only: unsigned_ucast_eq take_bit_eq_mod unat_drop_bit) simp
  qed
  have "val32 (i_digits (integer_of_uint64 n)) = unat n"
  proof (cases "n < 0x100000000")
    case True
    then have "unat n < 2 ^ 32" by (simp add: word_less_nat_alt)
    with True u show ?thesis by (simp add: integer_of_uint64_def)
  next
    case False
    then show ?thesis using u h by (simp add: integer_of_uint64_def del: unsigned_ucast_eq)
  qed
  then show "int_val (integer_of_uint64 n) = int (unat n)"
    by (simp add: int_val_def integer_of_uint64_def)
  show "canonical (integer_of_uint64 n)"
  proof (cases "n < 0x100000000")
    case True
    then have "unat n < 2 ^ 32" by (simp add: word_less_nat_alt)
    with u have "unat (ucast n :: u32) = unat n" by simp
    then have "n \<noteq> 0 \<Longrightarrow> (ucast n :: u32) \<noteq> 0" by (metis unat_eq_zero)
    with True show ?thesis by (simp add: canonical_def integer_of_uint64_def)
  next
    case False
    then have "2 ^ 32 \<le> unat n" by (simp add: word_less_nat_alt)
    then have "unat n div 2 ^ 32 \<noteq> 0" by simp
    with h have "(ucast (drop_bit 32 n) :: u32) \<noteq> 0" by (metis unat_eq_zero)
    with False show ?thesis by (simp add: canonical_def integer_of_uint64_def)
  qed
qed

end
