(* ===== verification/Lambda_Var.thy ===== *)
theory Lambda_Var
  imports Asdl_Laws
begin

text \<open>
  The primitive module \<open>LambdaVar\<close> of \<open>cfg.asdl\<close>: \<open>include/lambda-var.hpp\<close>,
  \<open>lib-codegen/lambda-var.cpp\<close>, and the SML writer of the other side,
  \<open>tests/Synthetic/lambda-var-pickle.sml\<close>.  A variable is one to eight bytes; the top three bits
  of the first give the number of bytes that follow.  The writer keeps the low 61 bits of an
  identifier; the reader narrows the 61-bit value to a C++ \<open>int\<close>, so that the round trip holds
  below \<open>2\<^sup>3\<^sup>1\<close> and the upper identifiers come back changed.
\<close>

type_synonym lvar = int

definition read_lvar :: "lvar reader" where
  "read_lvar =
     rbind getb (\<lambda>b0.
     rbind (fallthrough (unat (drop_bit 5 b0)) (ucast (b0 AND 0x1F) :: u64)) (\<lambda>v.
     rreturn (sint (ucast v :: u32))))"

definition read_lvar_seq :: "lvar list reader" where
  "read_lvar_seq = rbind read_uint (\<lambda>len. read_n (unat len) read_lvar)"

section \<open>The writer\<close>

type_synonym sml_word = "63 word"

definition toByte :: "sml_word \<Rightarrow> u8" where
  "toByte w = ucast w"

definition lvar_mask :: sml_word where
  "lvar_mask = push_bit (63 - 2) 1 - 1"

lemma drop_bit_8_less: "w \<noteq> 0 \<Longrightarrow> unat (drop_bit 8 w) < unat w" for w :: "'a::len word"
  by (simp only: unat_drop_bit) (simp add: unat_gt_0)

function cvt :: "sml_word \<Rightarrow> u8 list \<Rightarrow> u8 list" where
  "cvt w bytes = (if w = 0 then bytes else cvt (drop_bit 8 w) (toByte w # bytes))"
  by pat_completeness auto
termination
  by (relation "measure (\<lambda>(w, _). unat w)") (simp_all del: drop_bit_eq_div only: in_measure prod.case drop_bit_8_less not_False_eq_True wf_measure)

declare cvt.simps [simp del]

definition write_lvar :: "lvar writer" where
  "write_lvar os lv =
     (let w = word_of_int lv AND lvar_mask;
          bytes =
            (case cvt w [] of
               [] \<Rightarrow> [0]
             | b0 # rest \<Rightarrow>
                 (let (b0, rest) = (if b0 \<le> 0x1f then (b0, rest) else (0, b0 # rest));
                      n = push_bit 5 (word_of_nat (length rest)) :: sml_word
                  in (toByte n OR b0) # rest))
      in Inr (put_bytes os bytes))"

section \<open>Bytes of a number\<close>

fun nat_bytes :: "nat \<Rightarrow> u8 list" where
  "nat_bytes n = (if n = 0 then [] else nat_bytes (n div 256) @ [word_of_nat n])"

declare nat_bytes.simps [simp del]

lemma nat_bytes_0 [simp]: "nat_bytes 0 = []"
  by (simp add: nat_bytes.simps)

lemma nat_bytes_step: "n \<noteq> 0 \<Longrightarrow> nat_bytes n = nat_bytes (n div 256) @ [word_of_nat n]"
  by (subst nat_bytes.simps) simp

lemma be_nat_append: "be_nat a (xs @ ys) = be_nat (be_nat a xs) ys"
  by (simp add: be_nat_def)

lemma be_nat_Cons: "be_nat a (b # bs) = (a * 256 + unat b) * 256 ^ length bs + be_nat 0 bs"
proof -
  have "be_nat a bs = a * 256 ^ length bs + be_nat 0 bs" for a
    by (induction bs rule: rev_induct) (simp_all add: be_nat_append algebra_simps)
  from this [of "a * 256 + unat b"] show ?thesis by simp
qed

lemma be_nat_bytes: "be_nat 0 (nat_bytes n) = n"
proof (induction n rule: nat_bytes.induct)
  case (1 n)
  show ?case
  proof (cases "n = 0")
    case False
    have "unat (word_of_nat n :: u8) = n mod 256"
      by (simp add: unsigned_of_nat take_bit_eq_mod)
    with False "1.IH" [OF False] show ?thesis
      by (simp add: nat_bytes_step be_nat_append)
  qed simp
qed

lemma cvt_bytes: "cvt w bs = nat_bytes (unat w) @ bs"
proof (induction w bs rule: cvt.induct)
  case (1 w bs)
  show ?case
  proof (cases "w = 0")
    case True
    then show ?thesis by (subst cvt.simps) simp
  next
    case False
    have t: "toByte w = word_of_nat (unat w)"
      by (simp add: toByte_def)
    from False have "unat w \<noteq> 0" by (simp add: unat_eq_zero)
    then show ?thesis
      using "1.IH" [OF False] False
      by (subst cvt.simps) (simp add: nat_bytes_step t unat_drop_bit del: drop_bit_eq_div)
  qed
qed

lemma length_nat_bytes: "n < 256 ^ k \<Longrightarrow> length (nat_bytes n) \<le> k"
proof (induction k arbitrary: n)
  case (Suc k)
  show ?case
  proof (cases "n = 0")
    case False
    have "n div 256 < 256 ^ k" using Suc.prems by (simp add: less_mult_imp_div_less)
    from Suc.IH [OF this] False show ?thesis by (simp add: nat_bytes_step)
  qed simp
qed simp

section \<open>The round trip\<close>

lemma read_lvar_bytes:
  assumes "unat b0 = length bs * 32 + h" "h < 32" "length bs \<le> 7"
  shows "read_lvar (stream nm (b0 # bs @ r)) =
    Inr (sint (ucast (word_of_nat (be_nat h bs) :: u64) :: u32), stream nm r)"
proof -
  let ?v = "ucast (b0 AND 0x1F) :: u64"
  have q: "unat b0 div 32 = length bs" "unat b0 mod 32 = h"
    using assms(1,2) by simp_all
  have len: "unat (drop_bit 5 b0) = length bs"
    using q(1) by (simp only: unat_drop_bit) simp
  have v: "unat ?v = h"
    using q(2) by (simp only: masks) (simp add: unat_ucast_up unat_and_mask)
  have "32 * 256 ^ length bs \<le> (32 * 256 ^ 7 :: nat)"
    using assms(3) by (intro mult_le_mono2 power_increasing) simp_all
  then have "fallthrough (length bs) ?v (stream nm (bs @ r)) =
      Inr (word_of_nat (be_nat h bs), stream nm r)"
    using assms(2) by (subst fallthrough_run [where n = 32]) (simp_all add: v)
  then show ?thesis
    by (simp only: read_lvar_def run_simps len)
qed

lemma lvar_head:
  assumes "k \<le> 7" "unat b < 32"
  shows "unat (toByte (push_bit 5 (word_of_nat k)) OR b) = k * 32 + unat b"
proof -
  have "unat (toByte (push_bit 5 (word_of_nat k))) = k * 2 ^ 5"
  proof -
    have "push_bit 5 (word_of_nat k) = (word_of_nat (k * 32) :: sml_word)"
      by (simp add: push_bit_eq_mult)
    moreover have "unat (word_of_nat (k * 32) :: sml_word) = k * 32"
      using assms(1) by (intro unat_word_of_nat) simp
    ultimately show ?thesis using assms(1) by (simp add: toByte_def unat_ucast8)
  qed
  from unat_or_low [OF this, of b] assms(2) this show ?thesis by simp
qed

text \<open>What the writer writes, for an identifier of 61 bits.\<close>

lemma write_lvar_bytes:
  assumes "0 \<le> z" "z < 2 ^ 61"
  obtains b bs h where "\<And>os. write_lvar os z = Inr (emit os (b # bs))"
    "unat b = length bs * 32 + h" "h < 32" "length bs \<le> 7" "be_nat h bs = nat z"
proof -
  define n where "n = nat z"
  define w where "w = word_of_int z AND lvar_mask"
  have m: "lvar_mask = mask 61"
    by (simp add: lvar_mask_def mask_eq_exp_minus_1)
  have n: "n < 2 ^ 61" using assms by (simp add: n_def nat_less_iff)
  have "unat (word_of_int z :: sml_word) = n"
    using assms n by (simp add: n_def unsigned_of_int take_bit_int_eq_self)
  then have w: "unat w = n"
    using n unfolding w_def m unat_and_mask by simp
  have wr: "write_lvar os z = Inr (emit os
      (case nat_bytes n of [] \<Rightarrow> [0]
       | b0 # rest \<Rightarrow>
           (let (b0, rest) = (if b0 \<le> 0x1f then (b0, rest) else (0, b0 # rest))
            in (toByte (push_bit 5 (word_of_nat (length rest))) OR b0) # rest)))" for os
    unfolding write_lvar_def w_def [symmetric] Let_def put_bytes_emit cvt_bytes w by simp
  have len8: "length (nat_bytes n) \<le> 8"
    by (rule length_nat_bytes) (use n in simp)
  show thesis
  proof (cases "nat_bytes n")
    case Nil
    then have "n = 0" using be_nat_bytes [of n] by simp
    then show thesis using wr Nil assms by (intro that [of 0 "[]" 0]) (simp_all add: n_def)
  next
    case (Cons b0 rest)
    have v: "be_nat (unat b0) rest = n" using be_nat_bytes [of n] Cons by simp
    show thesis
    proof (cases "b0 \<le> 0x1f")
      case True
      then have "unat b0 < 32" by (simp add: word_le_nat_alt)
      with wr Cons True len8 v show thesis
        by (intro that [of "toByte (push_bit 5 (word_of_nat (length rest))) OR b0" rest "unat b0"])
          (simp_all add: lvar_head n_def)
    next
      case False
      then have b: "32 \<le> unat b0" by (simp add: word_le_nat_alt)
      have "length rest \<noteq> 7"
      proof
        assume "length rest = 7"
        with be_nat_Cons [of 0 b0 rest] v have "unat b0 * 256 ^ 7 \<le> n" by simp
        with b n show False by simp
      qed
      with len8 Cons have "length (b0 # rest) \<le> 7" by simp
      with wr Cons False v show thesis
        by (intro that [of "toByte (push_bit 5 (word_of_nat (length (b0 # rest)))) OR 0" "b0 # rest" 0])
          (simp_all add: lvar_head [of "Suc (length rest)" 0, simplified] n_def)
    qed
  qed
qed

lemma narrow: "sint (ucast (word_of_int z :: u64) :: u32) = signed_take_bit 31 z"
proof -
  have "sint (ucast (word_of_int z :: u64) :: u32) = sint (word_of_int z :: u32)"
    by (simp add: ucast_word_of_int)
  also have "\<dots> = signed_take_bit 31 z" by (simp only: signed_of_int) simp
  finally show ?thesis .
qed

lemma read_write_lvar:
  assumes "0 \<le> z" "z < 2 ^ 61"
  shows "\<exists>p. (\<forall>os. write_lvar os z = Inr (emit os p)) \<and>
    (\<forall>nm bs. read_lvar (stream nm (p @ bs)) = Inr (signed_take_bit 31 z, stream nm bs))"
proof -
  obtain b bs h where p: "\<And>os. write_lvar os z = Inr (emit os (b # bs))"
    "unat b = length bs * 32 + h" "h < 32" "length bs \<le> 7" "be_nat h bs = nat z"
    using write_lvar_bytes [OF assms] by blast
  show ?thesis
    by (rule exI [of _ "b # bs"])
      (simp add: p(1) read_lvar_bytes [OF p(2-4)] p(5) narrow assms(1))
qed

lemma rt_lvar: "0 \<le> z \<Longrightarrow> z < 2 ^ 31 \<Longrightarrow> rt write_lvar read_lvar z"
proof -
  assume z: "0 \<le> z" "z < 2 ^ 31"
  then have "signed_take_bit 31 z = z" by (intro signed_take_bit_int_eq_self) simp_all
  with read_write_lvar [of z] z show ?thesis by (simp add: rt_def)
qed

lemma shrinking_read_lvar [shrink_intros]: "shrinking read_lvar"
  unfolding read_lvar_def by (intro shrink_intros)

lemma fuel_ok_read_lvar [fuel_intros]: "fuel_ok n read_lvar"
  unfolding read_lvar_def by (intro fuel_intros shrinking_nonexpanding shrink_intros)

interpretation lvar_p: pickler read_lvar write_lvar "\<lambda>z. 0 \<le> z \<and> z < 2 ^ 31"
  by unfold_locales (auto intro: shrink_intros fuel_intros rt_lvar)

lemma read_lvar_seq_eq: "read_lvar_seq = read_seq read_lvar"
  by (simp add: read_lvar_seq_def read_seq_def)

end
