(* ===== verification/Target_Info.thy ===== *)
theory Target_Info
  imports Prelude
begin

text \<open>
  \<open>include/target-info.hpp\<close>, \<open>lib-codegen/target-info.cpp\<close>, \<open>include/cm-registers.hpp\<close> and
  \<open>lib-codegen/cm-registers.cpp\<close>: the table of target machines, the special registers of the
  CMachine (which live in machine registers or in stack slots, depending on the target), and the
  map from these registers to their current values.  The preprocessor symbols that select the
  targets are the fields of a record \<open>build_config\<close>.  Pointers that may be null are options.
\<close>

section \<open>Special registers\<close>

datatype CMRegId = ALLOC_PTR | LIMIT_PTR | STORE_PTR | EXN_HNDLR | VAR_PTR

text \<open>The identifiers in the order of their numbers; \<open>NUM_REGS\<close> is the length.\<close>

definition reg_ids :: "CMRegId list" where
  "reg_ids = [ALLOC_PTR, LIMIT_PTR, STORE_PTR, EXN_HNDLR, VAR_PTR]"

primrec reg_num :: "CMRegId \<Rightarrow> nat" where
  "reg_num ALLOC_PTR = 0"
| "reg_num LIMIT_PTR = 1"
| "reg_num STORE_PTR = 2"
| "reg_num EXN_HNDLR = 3"
| "reg_num VAR_PTR = 4"

lemma reg_ids_nth [simp]: "reg_ids ! reg_num r = r" "reg_num r < length reg_ids"
  by (cases r; simp add: reg_ids_def)+

lemma set_reg_ids [simp]: "r \<in> set reg_ids"
  by (cases r) (simp_all add: reg_ids_def)

lemma distinct_reg_ids [simp]: "distinct reg_ids"
  by (simp add: reg_ids_def)

definition gRegNames :: "string list" where
  "gRegNames = [''allocPtr'', ''limitPtr'', ''storePtr'', ''exnPtr'', ''varPtr'']"

record CMRegInfo =
  ri_id :: CMRegId
  ri_idx :: int
  ri_offset :: int
  ri_name :: string

definition CMRegInfo_new :: "CMRegId \<Rightarrow> int \<Rightarrow> int \<Rightarrow> CMRegInfo" where
  "CMRegInfo_new rid idx off =
     \<lparr>ri_id = rid, ri_idx = idx, ri_offset = off, ri_name = gRegNames ! reg_num rid\<rparr>"

definition createReg :: "CMRegId \<Rightarrow> int \<Rightarrow> CMRegInfo" where
  "createReg rid idx = CMRegInfo_new rid idx 0"

definition createStkReg :: "CMRegId \<Rightarrow> int \<Rightarrow> CMRegInfo" where
  "createStkReg rid offset = CMRegInfo_new rid (- 1) offset"

definition isMachineReg :: "CMRegInfo \<Rightarrow> bool" where
  "isMachineReg ri \<longleftrightarrow> ri_idx ri \<ge> 0"

definition isMemReg :: "CMRegInfo \<Rightarrow> bool" where
  "isMemReg ri \<longleftrightarrow> ri_idx ri < 0"

section \<open>Targets\<close>

datatype arch_type = aarch64 | x86_64

record target_info =
  ti_name :: string
  ti_dataLayout :: string
  ti_spName :: string
  ti_arch :: arch_type
  ti_wordSzB :: int
  ti_wordSz :: int
  ti_numGPArgRegs :: int
  ti_numFPArgRegs :: int
  ti_numCalleeSaves :: int
  ti_hasPCRel :: bool
  ti_stkOffset :: "int list"
  ti_callGCOffset :: int
  ti_raiseOvflwOffset :: int
  ti_allocSlopSzb :: u32
  ti_initialized :: bool
  ti_inits :: "string list"  \<comment> \<open>the five initialisation functions\<close>

datatype host_arch = HOST_AMD64 | HOST_ARM64
datatype host_os = DARWIN | LINUX

record build_config =
  cfg_arch :: host_arch
  cfg_os :: host_os
  cfg_enable_x86 :: bool
  cfg_enable_arm64 :: bool
  cfg_enable_all :: bool

definition enable_x86 :: "build_config \<Rightarrow> bool" where
  "enable_x86 b \<longleftrightarrow> cfg_enable_x86 b \<or> cfg_arch b = HOST_AMD64 \<or> cfg_enable_all b"

definition enable_arm64 :: "build_config \<Rightarrow> bool" where
  "enable_arm64 b \<longleftrightarrow> cfg_enable_arm64 b \<or> cfg_arch b = HOST_ARM64 \<or> cfg_enable_all b"

definition kVendor :: "host_os \<Rightarrow> string" where
  "kVendor os = (case os of DARWIN \<Rightarrow> ''apple'' | LINUX \<Rightarrow> ''unknown'')"

definition kOS :: "host_os \<Rightarrow> string" where
  "kOS os = (case os of DARWIN \<Rightarrow> ''macos'' | LINUX \<Rightarrow> ''linux'')"

definition DL_MANGLE :: "host_os \<Rightarrow> string" where
  "DL_MANGLE os = (case os of DARWIN \<Rightarrow> ''m:o'' | LINUX \<Rightarrow> ''m:e'')"

definition Arm64Info :: "build_config \<Rightarrow> target_info" where
  "Arm64Info b =
     \<lparr>ti_name = ''aarch64'',
      ti_dataLayout = ''e-'' @ DL_MANGLE (cfg_os b) @ ''-i64:64-i128:128-n32:64-S128'',
      ti_spName = ''sp'',
      ti_arch = aarch64,
      ti_wordSzB = 8, ti_wordSz = 64,
      ti_numGPArgRegs = 22,
      ti_numFPArgRegs = 32,
      ti_numCalleeSaves = 3,
      ti_hasPCRel = True,
      ti_stkOffset = [0, 0, 0, 0, 0],
      ti_callGCOffset = 8216,
      ti_raiseOvflwOffset = 8208,
      ti_allocSlopSzb = 8 * 1024,
      ti_initialized = False,
      ti_inits =
        [''LLVMInitializeAArch64TargetInfo'', ''LLVMInitializeAArch64Target'',
         ''LLVMInitializeAArch64TargetMC'', ''LLVMInitializeAArch64AsmParser'',
         ''LLVMInitializeAArch64AsmPrinter'']\<rparr>"

definition X86_64Info :: "build_config \<Rightarrow> target_info" where
  "X86_64Info b =
     \<lparr>ti_name = ''x86_64'',
      ti_dataLayout = ''e-'' @ DL_MANGLE (cfg_os b) @ ''-i64:64-n8:16:32:64-S128'',
      ti_spName = ''rsp'',
      ti_arch = x86_64,
      ti_wordSzB = 8, ti_wordSz = 64,
      ti_numGPArgRegs = 11,
      ti_numFPArgRegs = 16,
      ti_numCalleeSaves = 3,
      ti_hasPCRel = True,
      ti_stkOffset = [0, 0, 0, 8224, 8232],
      ti_callGCOffset = 8240,
      ti_raiseOvflwOffset = 8248,
      ti_allocSlopSzb = 8 * 1024,
      ti_initialized = False,
      ti_inits =
        [''LLVMInitializeX86TargetInfo'', ''LLVMInitializeX86Target'',
         ''LLVMInitializeX86TargetMC'', ''LLVMInitializeX86AsmParser'',
         ''LLVMInitializeX86AsmPrinter'']\<rparr>"

definition Targets :: "build_config \<Rightarrow> target_info list" where
  "Targets b =
     (if enable_x86 b then [X86_64Info b] else []) @
     (if enable_arm64 b then [Arm64Info b] else [])"

definition native_target :: "build_config \<Rightarrow> target_info" where
  "native_target b = (case cfg_arch b of HOST_AMD64 \<Rightarrow> X86_64Info b | HOST_ARM64 \<Rightarrow> Arm64Info b)"

definition targetNames :: "build_config \<Rightarrow> string list" where
  "targetNames b = map ti_name (Targets b)"

primrec find_target :: "string \<Rightarrow> target_info list \<Rightarrow> target_info option" where
  "find_target name [] = None"
| "find_target name (t # ts) = (if name = ti_name t then Some t else find_target name ts)"

definition infoForTarget :: "build_config \<Rightarrow> string \<Rightarrow> target_info option" where
  "infoForTarget b name = find_target name (Targets b)"

text \<open>The architecture, vendor and system of the triple.  The comparison \<open>this == &Arm64Info\<close> is of
  addresses, and there is one object per target.\<close>

definition getTriple :: "build_config \<Rightarrow> target_info \<Rightarrow> string \<times> string \<times> string" where
  "getTriple b ti =
     (if enable_arm64 b \<and> ti_arch ti = aarch64 then (ti_name ti, ''apple'', ''macos'')
      else (ti_name ti, kVendor (cfg_os b), kOS (cfg_os b)))"

text \<open>\<open>initialize\<close>: the functions called, and the target afterwards.\<close>

definition initialize :: "target_info \<Rightarrow> string list \<times> target_info" where
  "initialize ti =
     (if \<not> ti_initialized ti then (ti_inits ti, ti\<lparr>ti_initialized := True\<rparr>) else ([], ti))"

definition numGCRoots :: "target_info \<Rightarrow> int" where
  "numGCRoots ti = ti_numCalleeSaves ti + 4"

definition ti_roundToWordSz :: "target_info \<Rightarrow> u64 \<Rightarrow> u64" where
  "ti_roundToWordSz ti nBytes =
     (let mask = word_of_int (ti_wordSzB ti - 1) in (nBytes + mask) AND NOT mask)"

section \<open>The register table of a target\<close>

record CMRegs =
  rg_usesBasePtr :: bool
  rg_nHWRegs :: nat
  rg_info :: "CMRegInfo option list"
  rg_hwRegs :: "CMRegInfo list"  \<comment> \<open>the entries below \<open>_nHWRegs\<close>; the others are never written\<close>

text \<open>Without a target the constructor sets \<open>_nHWRegs\<close> only.\<close>

definition CMRegs_new :: "target_info option \<Rightarrow> CMRegs" where
  "CMRegs_new target =
     (case target of
        None \<Rightarrow> \<lparr>rg_usesBasePtr = False, rg_nHWRegs = 0, rg_info = [], rg_hwRegs = []\<rparr>
      | Some ti \<Rightarrow>
          (let info =
             map (\<lambda>rid.
               if ti_stkOffset ti ! reg_num rid \<noteq> 0
               then Some (createStkReg rid (ti_stkOffset ti ! reg_num rid))
               else Some (createReg rid (int (reg_num rid)))) reg_ids;
               hw = filter isMachineReg (List.map_filter (\<lambda>x. x) info)
           in \<lparr>rg_usesBasePtr = \<not> ti_hasPCRel ti, rg_nHWRegs = length hw, rg_info = info,
               rg_hwRegs = hw\<rparr>))"

definition reg_info :: "CMRegs \<Rightarrow> CMRegId \<Rightarrow> CMRegInfo option" where
  "reg_info rs rid = (if reg_num rid < length (rg_info rs) then rg_info rs ! reg_num rid else None)"

definition numMachineRegs :: "CMRegs \<Rightarrow> nat" where
  "numMachineRegs rs = rg_nHWRegs rs"

definition machineReg :: "CMRegs \<Rightarrow> nat \<Rightarrow> CMRegInfo" where
  "machineReg rs i = rg_hwRegs rs ! i"

definition usesBasePtr :: "CMRegs \<Rightarrow> bool" where
  "usesBasePtr rs = rg_usesBasePtr rs"

section \<open>The values of the registers\<close>

record 'v CMRegState =
  rs_basePtr :: "'v option"
  rs_val :: "CMRegId \<Rightarrow> 'v option"

definition CMRegState_new :: "'v CMRegState" where
  "CMRegState_new = \<lparr>rs_basePtr = None, rs_val = (\<lambda>_. None)\<rparr>"

definition rs_get :: "'v CMRegState \<Rightarrow> CMRegId \<Rightarrow> 'v option" where
  "rs_get st r = rs_val st r"

definition rs_set :: "'v CMRegState \<Rightarrow> CMRegId \<Rightarrow> 'v option \<Rightarrow> 'v CMRegState" where
  "rs_set st r v = st\<lparr>rs_val := (rs_val st)(r := v)\<rparr>"

definition getBasePtr :: "'v CMRegState \<Rightarrow> 'v option" where
  "getBasePtr st = rs_basePtr st"

definition setBasePtr :: "'v CMRegState \<Rightarrow> 'v \<Rightarrow> 'v CMRegState" where
  "setBasePtr st v = st\<lparr>rs_basePtr := Some v\<rparr>"

definition clearBasePtr :: "'v CMRegState \<Rightarrow> 'v CMRegState" where
  "clearBasePtr st = st\<lparr>rs_basePtr := None\<rparr>"

text \<open>The base pointer is not copied.\<close>

definition copyFrom :: "'v CMRegState \<Rightarrow> 'v CMRegState \<Rightarrow> 'v CMRegState" where
  "copyFrom st cache = st\<lparr>rs_val := rs_val cache\<rparr>"

lemma rs_get_set [simp]: "rs_get (rs_set st r v) r' = (if r' = r then v else rs_get st r')"
  by (simp add: rs_get_def rs_set_def)

lemma rs_get_copyFrom [simp]: "rs_get (copyFrom st cache) r = rs_get cache r"
  by (simp add: rs_get_def copyFrom_def)

lemma basePtr_simps [simp]:
  "getBasePtr (rs_set st r v) = getBasePtr st" "getBasePtr (copyFrom st cache) = getBasePtr st"
  "getBasePtr (setBasePtr st w) = Some w" "rs_get (setBasePtr st w) r = rs_get st r"
  by (simp_all add: getBasePtr_def rs_set_def copyFrom_def setBasePtr_def rs_get_def)

section \<open>Facts about the tables\<close>

lemma find_target_Some: "find_target name ts = Some t \<Longrightarrow> t \<in> set ts \<and> ti_name t = name"
  by (induction ts) (auto split: if_splits)

lemma find_target_None: "find_target name ts = None \<longleftrightarrow> name \<notin> ti_name ` set ts"
  by (induction ts) (auto split: if_splits)

definition target_ok :: "target_info \<Rightarrow> bool" where
  "target_ok ti \<longleftrightarrow> ti_wordSzB ti = 8 \<and> ti_wordSz ti = 64 \<and> length (ti_stkOffset ti) = length reg_ids \<and>
     ti_stkOffset ti ! reg_num ALLOC_PTR = 0 \<and> ti_stkOffset ti ! reg_num LIMIT_PTR = 0 \<and>
     ti_stkOffset ti ! reg_num STORE_PTR = 0 \<and> ti_hasPCRel ti \<and>
     ti_numCalleeSaves ti + 4 \<le> ti_numGPArgRegs ti \<and> ti_allocSlopSzb ti = 8192"

lemma Targets_ok: "t \<in> set (Targets b) \<Longrightarrow> target_ok t"
  by (auto simp: Targets_def X86_64Info_def Arm64Info_def target_ok_def reg_ids_def split: if_splits)

lemma native_in_Targets: "native_target b \<in> set (Targets b)"
  by (cases "cfg_arch b") (auto simp: native_target_def Targets_def enable_x86_def enable_arm64_def)

lemma reg_info_new:
  "reg_info (CMRegs_new (Some ti)) rid =
     Some (if ti_stkOffset ti ! reg_num rid \<noteq> 0 then createStkReg rid (ti_stkOffset ti ! reg_num rid)
           else createReg rid (int (reg_num rid)))"
  by (cases rid) (simp_all add: reg_info_def CMRegs_new_def reg_ids_def Let_def)

lemma machine_new [simp]:
  "isMachineReg (createReg rid n) \<longleftrightarrow> 0 \<le> n" "\<not> isMachineReg (createStkReg rid off)"
  by (simp_all add: isMachineReg_def createReg_def createStkReg_def CMRegInfo_new_def)

lemma ri_id_new [simp]: "ri_id (createReg rid n) = rid" "ri_id (createStkReg rid off) = rid"
  by (simp_all add: createReg_def createStkReg_def CMRegInfo_new_def)

lemma hwRegs_ids:
  "map ri_id (rg_hwRegs (CMRegs_new (Some ti))) =
     filter (\<lambda>rid. ti_stkOffset ti ! reg_num rid = 0) reg_ids"
  by (simp add: CMRegs_new_def reg_ids_def Let_def List.map_filter_def comp_def)

lemma numMachineRegs_new:
  "numMachineRegs (CMRegs_new (Some ti)) = length (rg_hwRegs (CMRegs_new (Some ti)))"
  by (simp add: CMRegs_new_def numMachineRegs_def Let_def)

end
