(* ===== verification/Llvm_IR.thy ===== *)
theory Llvm_IR
  imports Target_Info
begin

text \<open>
  The part of LLVM's intermediate representation that the code generator uses, as the data that
  it builds: types, values, instructions, basic blocks with an insertion point, and the
  operations of \<open>llvm::IRBuilder\<close> that append instructions.  LLVM is a library of this program:
  its constant folder, which may replace an instruction on constants by a constant, is the field
  \<open>ir_fold\<close> of the state and so a parameter of everything below.

  The code generator is written in the monad \<open>cg\<close> of state and failure: a failed assertion, an
  index out of range, a null dereference or a \<open>switch\<close> without a matching case is an error value.
  Assertions are enabled (no \<open>NDEBUG\<close>).
\<close>

section \<open>State and failure\<close>

datatype cg_error =
    AssertFailed string
  | NullPointer string
  | IndexOutOfRange
  | Uninitialised string  \<comment> \<open>the value of a variable that was never written\<close>
  | UndefinedOverflow  \<comment> \<open>signed overflow\<close>
  | NoCase string  \<comment> \<open>end of a non-void function without \<open>return\<close>\<close>

type_synonym ('s, 'a) cg = "'s \<Rightarrow> cg_error + 'a \<times> 's"

definition creturn :: "'a \<Rightarrow> ('s, 'a) cg" where
  "creturn x = (\<lambda>s. Inr (x, s))"

definition cbind :: "('s, 'a) cg \<Rightarrow> ('a \<Rightarrow> ('s, 'b) cg) \<Rightarrow> ('s, 'b) cg" where
  "cbind m k = (\<lambda>s. case m s of Inl e \<Rightarrow> Inl e | Inr (x, s') \<Rightarrow> k x s')"

definition cfail :: "cg_error \<Rightarrow> ('s, 'a) cg" where
  "cfail e = (\<lambda>s. Inl e)"

definition cassert :: "bool \<Rightarrow> string \<Rightarrow> ('s, unit) cg" where
  "cassert b msg = (if b then creturn () else cfail (AssertFailed msg))"

definition cget :: "('s \<Rightarrow> 'a) \<Rightarrow> ('s, 'a) cg" where
  "cget f = (\<lambda>s. Inr (f s, s))"

definition cmodify :: "('s \<Rightarrow> 's) \<Rightarrow> ('s, unit) cg" where
  "cmodify f = (\<lambda>s. Inr ((), f s))"

definition cthe :: "cg_error \<Rightarrow> 'a option \<Rightarrow> ('s, 'a) cg" where
  "cthe e v = (case v of Some x \<Rightarrow> creturn x | None \<Rightarrow> cfail e)"

definition cnth :: "'a list \<Rightarrow> nat \<Rightarrow> ('s, 'a) cg" where
  "cnth xs i = (if i < length xs then creturn (xs ! i) else cfail IndexOutOfRange)"

definition cthen :: "('s, 'a) cg \<Rightarrow> ('s, 'b) cg \<Rightarrow> ('s, 'b) cg" where
  "cthen m k = cbind m (\<lambda>_. k)"

primrec cmap :: "('a \<Rightarrow> ('s, 'b) cg) \<Rightarrow> 'a list \<Rightarrow> ('s, 'b list) cg" where
  "cmap f [] = creturn []"
| "cmap f (x # xs) = cbind (f x) (\<lambda>y. cbind (cmap f xs) (\<lambda>ys. creturn (y # ys)))"

primrec cforeach :: "'a list \<Rightarrow> ('a \<Rightarrow> ('s, unit) cg) \<Rightarrow> ('s, unit) cg" where
  "cforeach [] f = creturn ()"
| "cforeach (x # xs) f = cthen (f x) (cforeach xs f)"

named_theorems cg_simps \<open>unfolding of the monad\<close>

lemmas [cg_simps] = creturn_def cfail_def cassert_def cget_def cmodify_def cnth_def cthen_def

lemma cbind_return [simp]: "cbind (creturn x) k = k x"
  by (rule ext) (simp add: cbind_def creturn_def)

lemma cbind_assoc: "cbind (cbind m k) l = cbind m (\<lambda>x. cbind (k x) l)"
  by (rule ext) (simp add: cbind_def split: sum.splits prod.splits)

lemma cbind_InrE:
  assumes "cbind m k s = Inr r"
  obtains x s' where "m s = Inr (x, s')" "k x s' = Inr r"
  using assms by (auto simp: cbind_def split: sum.splits prod.splits)

lemma cthen_InrE:
  assumes "cthen m k s = Inr r"
  obtains x s' where "m s = Inr (x, s')" "k s' = Inr r"
  using assms unfolding cthen_def by (elim cbind_InrE)

lemma cbind_Inr: "m s = Inr (x, s') \<Longrightarrow> cbind m k s = k x s'"
  by (simp add: cbind_def)

lemma cthen_Inr: "m s = Inr (x, s') \<Longrightarrow> cthen m k s = k s'"
  by (simp add: cthen_def cbind_def)

lemma cmap_cong [fundef_cong]:
  "xs = ys \<Longrightarrow> (\<And>x. x \<in> set ys \<Longrightarrow> f x = g x) \<Longrightarrow> cmap f xs = cmap g ys"
  by (induction ys arbitrary: xs) auto

lemma cforeach_cong [fundef_cong]:
  "xs = ys \<Longrightarrow> (\<And>x. x \<in> set ys \<Longrightarrow> f x = g x) \<Longrightarrow> cforeach xs f = cforeach ys g"
  by (induction ys arbitrary: xs) auto

section \<open>Types, values, instructions\<close>

text \<open>Pointers are opaque in this version of LLVM: \<open>getPointerTo\<close> always gives \<open>PtrTy\<close>.\<close>

datatype lty = VoidTy | IntTy nat | FloatTy | DoubleTy | PtrTy | StructTy "lty list" | MetadataTy

record fnty =
  ft_ret :: lty
  ft_params :: "lty list"

definition isPointerTy :: "lty \<Rightarrow> bool" where "isPointerTy t \<longleftrightarrow> t = PtrTy"

definition isIntegerTy :: "lty \<Rightarrow> bool" where
  "isIntegerTy t = (case t of IntTy _ \<Rightarrow> True | _ \<Rightarrow> False)"

text \<open>\<open>getPrimitiveSizeInBits\<close>; pointers count as 0.\<close>

fun primSize :: "lty \<Rightarrow> nat" where
  "primSize (IntTy w) = w"
| "primSize FloatTy = 32"
| "primSize DoubleTy = 64"
| "primSize _ = 0"

datatype binop =
    OpAdd | OpSub | OpMul | OpSDiv | OpSRem | OpUDiv | OpURem | OpShl | OpLShr | OpAShr
  | OpAnd | OpOr | OpXor | OpFAdd | OpFSub | OpFMul | OpFDiv | OpFRem

datatype castop = Trunc | ZExt | SExt | FPToSI | SIToFP | PtrToInt | IntToPtr | BitCast

datatype icmp_pred =
    ICMP_EQ | ICMP_NE | ICMP_UGT | ICMP_UGE | ICMP_ULT | ICMP_ULE
  | ICMP_SGT | ICMP_SGE | ICMP_SLT | ICMP_SLE

datatype fcmp_pred =
    FCMP_OEQ | FCMP_OGT | FCMP_OGE | FCMP_OLT | FCMP_OLE | FCMP_ONE | FCMP_ORD | FCMP_UNO
  | FCMP_UEQ | FCMP_UGT | FCMP_UGE | FCMP_ULT | FCMP_ULE | FCMP_UNE

text \<open>The intrinsics with a cache in \<open>Context\<close>.\<close>

datatype intrinsic =
    Sadd32WO | Ssub32WO | Smul32WO | Sadd64WO | Ssub64WO | Smul64WO
  | Ctlz32 | Ctpop32 | Cttz32 | Ctlz64 | Ctpop64 | Cttz64
  | Fshl32 | Fshr32 | Fshl64 | Fshr64
  | Fma32 | Fabs32 | Sqrt32 | Copysign32 | Fma64 | Fabs64 | Sqrt64 | Copysign64

text \<open>Values: results of instructions by number, arguments of the current function, constants of
  a width (reduced modulo it), functions, intrinsics of a module, aliases, and the constant
  expressions that the program builds.\<close>

datatype "value" =
    VInst nat lty
  | VArg nat lty
  | VInt nat int
  | VUndef lty
  | VFn nat
  | VIntr intrinsic nat
  | VReadReg nat
  | VAlias nat
  | VBlockAddr nat nat
  | VMeta string
  | VConstCast castop "value" lty
  | VConstSub "value" "value"

fun type_of :: "value \<Rightarrow> lty" where
  "type_of (VInst _ t) = t"
| "type_of (VArg _ t) = t"
| "type_of (VInt w _) = IntTy w"
| "type_of (VUndef t) = t"
| "type_of (VFn _) = PtrTy"
| "type_of (VIntr _ _) = PtrTy"
| "type_of (VReadReg _) = PtrTy"
| "type_of (VAlias _) = PtrTy"
| "type_of (VBlockAddr _ _) = PtrTy"
| "type_of (VMeta _) = MetadataTy"
| "type_of (VConstCast _ _ t) = t"
| "type_of (VConstSub a _) = type_of a"

datatype tail_kind = TCK_None | TCK_Tail | TCK_NoTail
datatype calling_conv = CC_C | CC_JWA

datatype instr =
    BinOp binop "value" "value"
  | Cast castop "value" lty
  | FNeg "value"
  | ICmp icmp_pred "value" "value"
  | FCmp fcmp_pred "value" "value"
  | Load lty "value" "nat option" bool  \<comment> \<open>type, address, alignment, invariant\<close>
  | Store "value" "value" "nat option"
  | GEP lty "value" "value"  \<comment> \<open>element type, base, index; in bounds\<close>
  | Call fnty "value" "value list" calling_conv tail_kind
  | ExtractValue "value" nat
  | Phi lty
  | Br nat
  | CondBr "value" nat nat "(int \<times> int) option"
  | Switch "value" nat "(value \<times> nat) list"
  | RetVoid
  | Unreachable

fun is_terminator :: "instr \<Rightarrow> bool" where
  "is_terminator (Br _) = True"
| "is_terminator (CondBr _ _ _ _) = True"
| "is_terminator (Switch _ _ _) = True"
| "is_terminator RetVoid = True"
| "is_terminator Unreachable = True"
| "is_terminator _ = False"

fun extract_ty :: "lty \<Rightarrow> nat \<Rightarrow> lty" where
  "extract_ty (StructTy ts) i = (if i < length ts then ts ! i else VoidTy)"
| "extract_ty _ _ = VoidTy"

fun instr_ty :: "instr \<Rightarrow> lty" where
  "instr_ty (BinOp _ a _) = type_of a"
| "instr_ty (Cast _ _ t) = t"
| "instr_ty (FNeg a) = type_of a"
| "instr_ty (ICmp _ _ _) = IntTy 1"
| "instr_ty (FCmp _ _ _) = IntTy 1"
| "instr_ty (Load t _ _ _) = t"
| "instr_ty (GEP _ _ _) = PtrTy"
| "instr_ty (Call ft _ _ _ _) = ft_ret ft"
| "instr_ty (ExtractValue a i) = extract_ty (type_of a) i"
| "instr_ty (Phi t) = t"
| "instr_ty _ = VoidTy"

section \<open>Blocks and the builder\<close>

record bblock =
  bb_name :: string
  bb_fn :: nat
  bb_insts :: "(nat \<times> instr) list"

definition empty_block :: bblock where
  "empty_block = \<lparr>bb_name = [], bb_fn = 0, bb_insts = []\<rparr>"

record llfn =
  fn_ty :: fnty
  fn_name :: string
  fn_module :: nat
  fn_public :: bool
  fn_cc :: calling_conv
  fn_nounwind :: bool

record ir =
  ir_fold :: "instr \<Rightarrow> value option"
  ir_nvals :: nat
  ir_nblocks :: nat
  ir_blocks :: "nat \<Rightarrow> bblock"
  ir_phis :: "nat \<Rightarrow> (value \<times> nat) list"
  ir_nmodules :: nat
  ir_module :: "nat option"
  ir_fns :: "llfn list"
  ir_aliases :: "(string \<times> lty \<times> value) list"
  ir_insert :: "nat option"

text \<open>\<open>Insert\<close>: append to the current block.\<close>

definition ir_append :: "instr \<Rightarrow> ('x ir_scheme, value) cg" where
  "ir_append i = (\<lambda>s.
     case ir_insert s of
       None \<Rightarrow> Inl (NullPointer ''insertion point'')
     | Some b \<Rightarrow>
         (let n = ir_nvals s;
              blk = ir_blocks s b
          in Inr (VInst n (instr_ty i),
               s\<lparr>ir_nvals := n + 1,
                 ir_blocks := (ir_blocks s)(b := blk\<lparr>bb_insts := bb_insts blk @ [(n, i)]\<rparr>)\<rparr>)))"

text \<open>The operations of the builder that go through the folder first.\<close>

definition ir_create :: "instr \<Rightarrow> ('x ir_scheme, value) cg" where
  "ir_create i = (\<lambda>s. case ir_fold s i of Some v \<Rightarrow> Inr (v, s) | None \<Rightarrow> ir_append i s)"

text \<open>\<open>CreateCast\<close> returns a value that has the type already.\<close>

definition CreateCast :: "castop \<Rightarrow> value \<Rightarrow> lty \<Rightarrow> ('x ir_scheme, value) cg" where
  "CreateCast op v t = (if type_of v = t then creturn v else ir_create (Cast op v t))"

definition ir_exec :: "instr \<Rightarrow> ('x ir_scheme, unit) cg" where
  "ir_exec i = cbind (ir_append i) (\<lambda>_. creturn ())"

definition CreatePHI :: "lty \<Rightarrow> ('x ir_scheme, value) cg" where
  "CreatePHI t = ir_append (Phi t)"

definition phi_addIncoming :: "value \<Rightarrow> value \<Rightarrow> nat \<Rightarrow> ('x ir_scheme, unit) cg" where
  "phi_addIncoming phi v b =
     (case phi of
        VInst n _ \<Rightarrow> cmodify (\<lambda>s. s\<lparr>ir_phis := (ir_phis s)(n := ir_phis s n @ [(v, b)])\<rparr>)
      | _ \<Rightarrow> cfail (NullPointer ''phi node''))"

definition BasicBlock_Create :: "string \<Rightarrow> nat \<Rightarrow> ('x ir_scheme, nat) cg" where
  "BasicBlock_Create name f = (\<lambda>s.
     Inr (ir_nblocks s,
       s\<lparr>ir_nblocks := ir_nblocks s + 1,
         ir_blocks := (ir_blocks s)(ir_nblocks s := \<lparr>bb_name = name, bb_fn = f, bb_insts = []\<rparr>)\<rparr>))"

definition SetInsertPoint :: "nat \<Rightarrow> ('x ir_scheme, unit) cg" where
  "SetInsertPoint b = cmodify (\<lambda>s. s\<lparr>ir_insert := Some b\<rparr>)"

definition GetInsertBlock :: "('x ir_scheme, nat) cg" where
  "GetInsertBlock = cbind (cget ir_insert) (cthe (NullPointer ''insertion point''))"

definition current_module :: "('x ir_scheme, nat) cg" where
  "current_module = cbind (cget ir_module) (cthe (NullPointer ''module''))"

definition Function_Create :: "fnty \<Rightarrow> bool \<Rightarrow> string \<Rightarrow> ('x ir_scheme, nat) cg" where
  "Function_Create ft public name =
     cbind current_module (\<lambda>m.
     (\<lambda>s. Inr (length (ir_fns s),
       s\<lparr>ir_fns := ir_fns s @
           [\<lparr>fn_ty = ft, fn_name = name, fn_module = m, fn_public = public, fn_cc = CC_C,
             fn_nounwind = False\<rparr>]\<rparr>)))"

definition fn_update :: "nat \<Rightarrow> (llfn \<Rightarrow> llfn) \<Rightarrow> ('x ir_scheme, unit) cg" where
  "fn_update f g = cmodify (\<lambda>s. s\<lparr>ir_fns := (ir_fns s)[f := g (ir_fns s ! f)]\<rparr>)"

text \<open>\<open>setMetadata (MD_invariant_load)\<close> on a load of the current block.\<close>

definition set_invariant :: "value \<Rightarrow> (nat \<times> instr) \<Rightarrow> (nat \<times> instr)" where
  "set_invariant v ni =
     (case (v, ni) of
        (VInst n _, (k, Load t a al iv)) \<Rightarrow> (if k = n then (k, Load t a al True) else ni)
      | _ \<Rightarrow> ni)"

end
