(* ===== verification/Cfg_Types.thy ===== *)
theory Cfg_Types
  imports Asdl_Integer Lambda_Var Llvm_IR
begin

text \<open>
  The CFG intermediate representation: the classes of \<open>include/cfg.hpp\<close> (generated from
  \<open>cfg.asdl\<close>), namespace by namespace.  An abstract class with one subclass per constructor is
  a datatype with one constructor per subclass and the fields as its arguments; a class without
  subclasses is a record.  Constructor arguments and record selectors stand for the \<open>get_\<close>
  methods; nothing in the program calls the \<open>set_\<close> methods.

  An enumeration read from a pickle is a \<open>static_cast\<close> of the tag, which C++ does not
  check: each enumeration has one more constructor, for the tags that name no enumerator.
  \<open>ARITH\<close> of \<open>CFG_Prim\<close> and the enumerator \<open>INT\<close> are renamed (\<open>ARITH_prim\<close>, \<open>INT_k\<close>).
\<close>

type_synonym cstring = "u8 list"

text \<open>A \<open>static_cast\<close> to an enumeration that numbers \<open>names\<close> from 1.\<close>

definition enum_cast :: "'e list \<Rightarrow> (u32 \<Rightarrow> 'e) \<Rightarrow> u32 \<Rightarrow> 'e" where
  "enum_cast names other t =
     (if t = 0 then other t
      else if unat t \<le> length names then names ! (unat t - 1)
      else other t)"

section \<open>\<open>CTypes\<close>\<close>

datatype c_int = I_char | I_short | I_int | I_long | I_long_long | c_int_other u32

definition to_c_int :: "u32 \<Rightarrow> c_int" where
  "to_c_int = enum_cast [I_char, I_short, I_int, I_long, I_long_long] c_int_other"

datatype c_type =
    C_void
  | C_float
  | C_double
  | C_long_double
  | C_unsigned c_int
  | C_signed c_int
  | C_PTR
  | C_ARRAY c_type int
  | C_STRUCT "c_type list"
  | C_UNION "c_type list"

type_synonym calling_convention = cstring

record c_proto =
  conv :: calling_convention
  retTy :: c_type
  paramTys :: "c_type list"

section \<open>\<open>CFG_Prim\<close>\<close>

datatype numkind = INT_k | FLT | numkind_other u32

definition to_numkind :: "u32 \<Rightarrow> numkind" where
  "to_numkind = enum_cast [INT_k, FLT] numkind_other"

datatype rounding_mode = TO_NEAREST | TO_NEGINF | TO_POSINF | TO_ZERO | rounding_mode_other u32

definition to_rounding_mode :: "u32 \<Rightarrow> rounding_mode" where
  "to_rounding_mode =
     enum_cast [TO_NEAREST, TO_NEGINF, TO_POSINF, TO_ZERO] rounding_mode_other"

record raw_ty =
  rt_kind :: numkind
  rt_sz :: int

datatype alloc =
    SPECIAL
  | RECORD integer bool  \<comment> \<open>descriptor, mutable\<close>
  | RAW_RECORD integer int "raw_ty list"  \<comment> \<open>descriptor, alignment, fields\<close>
  | RAW_ALLOC "integer option" int int  \<comment> \<open>descriptor, alignment, length\<close>

datatype arithop = IADD | ISUB | IMUL | IDIV | IREM | arithop_other u32

definition to_arithop :: "u32 \<Rightarrow> arithop" where
  "to_arithop = enum_cast [IADD, ISUB, IMUL, IDIV, IREM] arithop_other"

datatype arith =
    ARITH_prim arithop int  \<comment> \<open>operator, size\<close>
  | FLOAT_TO_INT rounding_mode int int  \<comment> \<open>mode, from, to\<close>

datatype pureop =
    ADD | SUB | MUL | SDIV | SREM | UDIV | UREM | SHL | ASHR | LSHR | ORB | XORB | ANDB
  | CNTPOP | CNTLZ | CNTTZ | ROTL | ROTR | FADD | FSUB | FMUL | FDIV | FREM | FMADD
  | FNEG | FABS | FCOPYSIGN | FSQRT | pureop_other u32

definition to_pureop :: "u32 \<Rightarrow> pureop" where
  "to_pureop =
     enum_cast
       [ADD, SUB, MUL, SDIV, SREM, UDIV, UREM, SHL, ASHR, LSHR, ORB, XORB, ANDB, CNTPOP, CNTLZ,
        CNTTZ, ROTL, ROTR, FADD, FSUB, FMUL, FDIV, FREM, FMADD, FNEG, FABS, FCOPYSIGN, FSQRT]
       pureop_other"

datatype pure =
    PURE_ARITH pureop int  \<comment> \<open>operator, size\<close>
  | EXTEND bool int int  \<comment> \<open>signed, from, to\<close>
  | TRUNC int int  \<comment> \<open>from, to\<close>
  | INT_TO_FLOAT int int  \<comment> \<open>from, to\<close>
  | FLOAT_TO_BITS int
  | BITS_TO_FLOAT int
  | PURE_SUBSCRIPT
  | PURE_RAW_SUBSCRIPT numkind int  \<comment> \<open>kind, size\<close>
  | RAW_SELECT numkind int int  \<comment> \<open>kind, size, offset\<close>

datatype looker =
    DEREF
  | SUBSCRIPT
  | RAW_SUBSCRIPT numkind int
  | RAW_LOAD numkind int
  | GET_HDLR
  | GET_VAR

datatype setter =
    UNBOXED_UPDATE
  | UPDATE
  | UNBOXED_ASSIGN
  | ASSIGN
  | RAW_UPDATE numkind int
  | RAW_STORE numkind int
  | SET_HDLR
  | SET_VAR

datatype cmpop = GT | GTE | LT | LTE | EQL | NEQ | cmpop_other u32

definition to_cmpop :: "u32 \<Rightarrow> cmpop" where
  "to_cmpop = enum_cast [GT, GTE, LT, LTE, EQL, NEQ] cmpop_other"

datatype fcmpop =
    F_EQ | F_ULG | F_UN | F_LEG | F_GT | F_GE | F_UGT | F_UGE | F_LT | F_LE | F_ULT | F_ULE
  | F_LG | F_UE | fcmpop_other u32

definition to_fcmpop :: "u32 \<Rightarrow> fcmpop" where
  "to_fcmpop =
     enum_cast
       [F_EQ, F_ULG, F_UN, F_LEG, F_GT, F_GE, F_UGT, F_UGE, F_LT, F_LE, F_ULT, F_ULE, F_LG, F_UE]
       fcmpop_other"

datatype branch =
    CMP cmpop bool int  \<comment> \<open>operator, signed, size\<close>
  | FCMP fcmpop int  \<comment> \<open>operator, size\<close>
  | FSGN int
  | PEQL
  | PNEQ
  | LIMIT u32

section \<open>\<open>CFG\<close>\<close>

datatype ty =
    LABt
  | PTRt
  | TAGt
  | NUMt int
  | FLTt int

definition isNUMt :: "ty \<Rightarrow> bool" where
  "isNUMt t = (case t of NUMt _ \<Rightarrow> True | _ \<Rightarrow> False)"

definition isFLTt :: "ty \<Rightarrow> bool" where
  "isFLTt t = (case t of FLTt _ \<Rightarrow> True | _ \<Rightarrow> False)"

datatype exp =
    VAR lvar
  | LABEL lvar
  | NUM integer int  \<comment> \<open>value, size\<close>
  | LOOKER looker "exp list"
  | PURE pure "exp list"
  | SELECT int exp  \<comment> \<open>index, record\<close>

definition isLABEL :: "exp \<Rightarrow> bool" where
  "isLABEL e = (case e of LABEL _ \<Rightarrow> True | _ \<Rightarrow> False)"

record param =
  p_name :: lvar
  p_ty :: ty

type_synonym probability = int

text \<open>The first argument of each statement is the field \<open>_bb\<close> that the class \<open>stm\<close> holds: the
  number of the basic block that the statement starts, once \<open>init\<close> has run; the constructors
  leave it unset.\<close>

type_synonym block_id = nat

datatype stm =
    LET "block_id option" exp param stm
  | ALLOC "block_id option" alloc "exp list" lvar stm
  | APPLY "block_id option" exp "exp list" "ty list"
  | THROW "block_id option" exp "exp list" "ty list"
  | GOTO "block_id option" lvar "exp list"
  | SWITCH "block_id option" exp "stm list"
  | BRANCH "block_id option" branch "exp list" probability stm stm
  | ARITH "block_id option" arith "exp list" param stm
  | SETTER "block_id option" setter "exp list" stm
  | CALLGC "block_id option" "exp list" "lvar list" stm
  | RCC "block_id option" bool cstring c_proto "exp list" "param list" "param list" stm
      \<comment> \<open>reentrant, linkage, prototype, arguments, results, live, continuation\<close>

datatype frag_kind = STD_FUN | STD_CONT | KNOWN_FUN | INTERNAL | frag_kind_other u32

definition to_frag_kind :: "u32 \<Rightarrow> frag_kind" where
  "to_frag_kind = enum_cast [STD_FUN, STD_CONT, KNOWN_FUN, INTERNAL] frag_kind_other"

record frag =
  f_kind :: frag_kind
  f_lab :: lvar
  f_params :: "param list"
  f_body :: stm
  f_phiNodes :: "value list"  \<comment> \<open>the phi nodes that \<open>init\<close> makes; empty before\<close>

record attrs =
  alignHP :: int
  needsBasePtr :: bool
  hasTrapArith :: bool
  hasRCC :: bool

record cluster =
  c_attrs :: attrs
  c_frags :: "frag list"
  c_fn :: "nat option"  \<comment> \<open>number of the function that \<open>init\<close> makes; unset before\<close>

definition cluster_entry :: "cluster \<Rightarrow> frag option" where
  "cluster_entry c = (case c_frags c of [] \<Rightarrow> None | f # _ \<Rightarrow> Some f)"

record comp_unit =
  srcFile :: cstring
  entry :: cluster
  fns :: "cluster list"

text \<open>The block that a statement starts.\<close>

fun stm_bb :: "stm \<Rightarrow> block_id option" where
  "stm_bb (LET b _ _ _) = b"
| "stm_bb (ALLOC b _ _ _ _) = b"
| "stm_bb (APPLY b _ _ _) = b"
| "stm_bb (THROW b _ _ _) = b"
| "stm_bb (GOTO b _ _) = b"
| "stm_bb (SWITCH b _ _) = b"
| "stm_bb (BRANCH b _ _ _ _ _) = b"
| "stm_bb (ARITH b _ _ _ _) = b"
| "stm_bb (SETTER b _ _ _) = b"
| "stm_bb (CALLGC b _ _ _) = b"
| "stm_bb (RCC b _ _ _ _ _ _ _) = b"

end
