(* ===== verification/Cfg_Read.thy ===== *)
theory Cfg_Read
  imports Cfg_Types
begin

text \<open>
  The readers of \<open>lib-codegen/cfg.cpp\<close>, which build a \<open>comp_unit\<close> from a pickle.  The recursive
  ones, for \<open>c_type\<close>, \<open>exp\<close> and \<open>stm\<close>, are \<open>fix_reader\<close> of their bodies; the interpretations of
  \<open>recursive_reader\<close> give each its recursion equation and show that it ends on every input.
\<close>

text \<open>\<open>static_cast<T>(read_tag8 (is))\<close>\<close>

definition read_enum :: "(u32 \<Rightarrow> 'e) \<Rightarrow> 'e reader" where
  "read_enum cast = rbind read_tag8 (\<lambda>t. rreturn (cast t))"

lemma shrinking_read_enum [shrink_intros]: "shrinking (read_enum c)"
  unfolding read_enum_def by (intro shrink_intros)

lemma fuel_ok_read_enum [fuel_intros]: "fuel_ok n (read_enum c)"
  unfolding read_enum_def by (intro fuel_intros shrinking_nonexpanding shrink_intros)

section \<open>\<open>CTypes\<close>\<close>

definition read_c_int :: "c_int reader" where
  "read_c_int = read_enum to_c_int"

definition read_c_type_body :: "c_type reader \<Rightarrow> c_type reader" where
  "read_c_type_body rd = rbind read_tag8 (\<lambda>tag.
     if tag = 1 then rreturn C_void
     else if tag = 2 then rreturn C_float
     else if tag = 3 then rreturn C_double
     else if tag = 4 then rreturn C_long_double
     else if tag = 5 then rbind read_c_int (\<lambda>f0. rreturn (C_unsigned f0))
     else if tag = 6 then rbind read_c_int (\<lambda>f0. rreturn (C_signed f0))
     else if tag = 7 then rreturn C_PTR
     else if tag = 8 then rbind rd (\<lambda>f0. rbind read_int (\<lambda>f1. rreturn (C_ARRAY f0 f1)))
     else if tag = 9 then rbind (read_seq rd) (\<lambda>f0. rreturn (C_STRUCT f0))
     else if tag = 10 then rbind (read_seq rd) (\<lambda>f0. rreturn (C_UNION f0))
     else rinvalid tag ''c_type'')"

definition read_c_type :: "c_type reader" where
  "read_c_type = fix_reader read_c_type_body"

definition read_c_type_seq :: "c_type list reader" where
  "read_c_type_seq = read_seq read_c_type"

definition read_calling_convention :: "calling_convention reader" where
  "read_calling_convention = read_string"

definition read_c_proto :: "c_proto reader" where
  "read_c_proto =
     rbind read_calling_convention (\<lambda>fconv.
     rbind read_c_type (\<lambda>fretTy.
     rbind read_c_type_seq (\<lambda>fparamTys.
     rreturn \<lparr>conv = fconv, retTy = fretTy, paramTys = fparamTys\<rparr>)))"

section \<open>\<open>CFG_Prim\<close>\<close>

definition read_numkind :: "numkind reader" where
  "read_numkind = read_enum to_numkind"

definition read_rounding_mode :: "rounding_mode reader" where
  "read_rounding_mode = read_enum to_rounding_mode"

definition read_raw_ty :: "raw_ty reader" where
  "read_raw_ty =
     rbind read_numkind (\<lambda>fkind. rbind read_int (\<lambda>fsz. rreturn \<lparr>rt_kind = fkind, rt_sz = fsz\<rparr>))"

definition read_raw_ty_seq :: "raw_ty list reader" where
  "read_raw_ty_seq = read_seq read_raw_ty"

definition read_alloc :: "alloc reader" where
  "read_alloc = rbind read_tag8 (\<lambda>tag.
     if tag = 1 then rreturn SPECIAL
     else if tag = 2 then
       rbind read_integer (\<lambda>fdesc. rbind read_bool (\<lambda>fmut. rreturn (RECORD fdesc fmut)))
     else if tag = 3 then
       rbind read_integer (\<lambda>fdesc. rbind read_int (\<lambda>falign. rbind read_raw_ty_seq (\<lambda>ffields.
         rreturn (RAW_RECORD fdesc falign ffields))))
     else if tag = 4 then
       rbind read_integer_option (\<lambda>fdesc. rbind read_int (\<lambda>falign. rbind read_int (\<lambda>flen.
         rreturn (RAW_ALLOC fdesc falign flen))))
     else rinvalid tag ''alloc'')"

definition read_arithop :: "arithop reader" where
  "read_arithop = read_enum to_arithop"

definition read_arith :: "arith reader" where
  "read_arith = rbind read_tag8 (\<lambda>tag.
     if tag = 1 then
       rbind read_arithop (\<lambda>foper. rbind read_int (\<lambda>fsz. rreturn (ARITH_prim foper fsz)))
     else if tag = 2 then
       rbind read_rounding_mode (\<lambda>fmode. rbind read_int (\<lambda>ffrom. rbind read_int (\<lambda>fto.
         rreturn (FLOAT_TO_INT fmode ffrom fto))))
     else rinvalid tag ''arith'')"

definition read_pureop :: "pureop reader" where
  "read_pureop = read_enum to_pureop"

definition read_pure :: "pure reader" where
  "read_pure = rbind read_tag8 (\<lambda>tag.
     if tag = 1 then
       rbind read_pureop (\<lambda>foper. rbind read_int (\<lambda>fsz. rreturn (PURE_ARITH foper fsz)))
     else if tag = 2 then
       rbind read_bool (\<lambda>fsigned. rbind read_int (\<lambda>ffrom. rbind read_int (\<lambda>fto.
         rreturn (EXTEND fsigned ffrom fto))))
     else if tag = 3 then
       rbind read_int (\<lambda>ffrom. rbind read_int (\<lambda>fto. rreturn (TRUNC ffrom fto)))
     else if tag = 4 then
       rbind read_int (\<lambda>ffrom. rbind read_int (\<lambda>fto. rreturn (INT_TO_FLOAT ffrom fto)))
     else if tag = 5 then rbind read_int (\<lambda>fsz. rreturn (FLOAT_TO_BITS fsz))
     else if tag = 6 then rbind read_int (\<lambda>fsz. rreturn (BITS_TO_FLOAT fsz))
     else if tag = 7 then rreturn PURE_SUBSCRIPT
     else if tag = 8 then
       rbind read_numkind (\<lambda>fkind. rbind read_int (\<lambda>fsz. rreturn (PURE_RAW_SUBSCRIPT fkind fsz)))
     else if tag = 9 then
       rbind read_numkind (\<lambda>fkind. rbind read_int (\<lambda>fsz. rbind read_int (\<lambda>foffset.
         rreturn (RAW_SELECT fkind fsz foffset))))
     else rinvalid tag ''pure'')"

definition read_looker :: "looker reader" where
  "read_looker = rbind read_tag8 (\<lambda>tag.
     if tag = 1 then rreturn DEREF
     else if tag = 2 then rreturn SUBSCRIPT
     else if tag = 3 then
       rbind read_numkind (\<lambda>fkind. rbind read_int (\<lambda>fsz. rreturn (RAW_SUBSCRIPT fkind fsz)))
     else if tag = 4 then
       rbind read_numkind (\<lambda>fkind. rbind read_int (\<lambda>fsz. rreturn (RAW_LOAD fkind fsz)))
     else if tag = 5 then rreturn GET_HDLR
     else if tag = 6 then rreturn GET_VAR
     else rinvalid tag ''looker'')"

definition read_setter :: "setter reader" where
  "read_setter = rbind read_tag8 (\<lambda>tag.
     if tag = 1 then rreturn UNBOXED_UPDATE
     else if tag = 2 then rreturn UPDATE
     else if tag = 3 then rreturn UNBOXED_ASSIGN
     else if tag = 4 then rreturn ASSIGN
     else if tag = 5 then
       rbind read_numkind (\<lambda>fkind. rbind read_int (\<lambda>fsz. rreturn (RAW_UPDATE fkind fsz)))
     else if tag = 6 then
       rbind read_numkind (\<lambda>fkind. rbind read_int (\<lambda>fsz. rreturn (RAW_STORE fkind fsz)))
     else if tag = 7 then rreturn SET_HDLR
     else if tag = 8 then rreturn SET_VAR
     else rinvalid tag ''setter'')"

definition read_cmpop :: "cmpop reader" where
  "read_cmpop = read_enum to_cmpop"

definition read_fcmpop :: "fcmpop reader" where
  "read_fcmpop = read_enum to_fcmpop"

definition read_branch :: "branch reader" where
  "read_branch = rbind read_tag8 (\<lambda>tag.
     if tag = 1 then
       rbind read_cmpop (\<lambda>foper. rbind read_bool (\<lambda>fsigned. rbind read_int (\<lambda>fsz.
         rreturn (CMP foper fsigned fsz))))
     else if tag = 2 then
       rbind read_fcmpop (\<lambda>foper. rbind read_int (\<lambda>fsz. rreturn (FCMP foper fsz)))
     else if tag = 3 then rbind read_int (\<lambda>f0. rreturn (FSGN f0))
     else if tag = 4 then rreturn PEQL
     else if tag = 5 then rreturn PNEQ
     else if tag = 6 then rbind read_uint (\<lambda>f0. rreturn (LIMIT f0))
     else rinvalid tag ''branch'')"

section \<open>\<open>CFG\<close>\<close>

definition read_ty :: "ty reader" where
  "read_ty = rbind read_tag8 (\<lambda>tag.
     if tag = 1 then rreturn LABt
     else if tag = 2 then rreturn PTRt
     else if tag = 3 then rreturn TAGt
     else if tag = 4 then rbind read_int (\<lambda>fsz. rreturn (NUMt fsz))
     else if tag = 5 then rbind read_int (\<lambda>fsz. rreturn (FLTt fsz))
     else rinvalid tag ''ty'')"

definition read_ty_seq :: "ty list reader" where
  "read_ty_seq = read_seq read_ty"

definition read_exp_body :: "exp reader \<Rightarrow> exp reader" where
  "read_exp_body rd = rbind read_tag8 (\<lambda>tag.
     if tag = 1 then rbind read_lvar (\<lambda>fname. rreturn (VAR fname))
     else if tag = 2 then rbind read_lvar (\<lambda>fname. rreturn (LABEL fname))
     else if tag = 3 then rbind read_integer (\<lambda>fiv. rbind read_int (\<lambda>fsz. rreturn (NUM fiv fsz)))
     else if tag = 4 then
       rbind read_looker (\<lambda>foper. rbind (read_seq rd) (\<lambda>fargs. rreturn (LOOKER foper fargs)))
     else if tag = 5 then
       rbind read_pure (\<lambda>foper. rbind (read_seq rd) (\<lambda>fargs. rreturn (PURE foper fargs)))
     else if tag = 6 then
       rbind read_int (\<lambda>fidx. rbind rd (\<lambda>farg. rreturn (SELECT fidx farg)))
     else rinvalid tag ''exp'')"

definition read_exp :: "exp reader" where
  "read_exp = fix_reader read_exp_body"

definition read_exp_seq :: "exp list reader" where
  "read_exp_seq = read_seq read_exp"

definition read_param :: "param reader" where
  "read_param =
     rbind read_lvar (\<lambda>fname. rbind read_ty (\<lambda>fty. rreturn \<lparr>p_name = fname, p_ty = fty\<rparr>))"

definition read_param_seq :: "param list reader" where
  "read_param_seq = read_seq read_param"

definition read_probability :: "probability reader" where
  "read_probability = read_int"

definition read_stm_body :: "stm reader \<Rightarrow> stm reader" where
  "read_stm_body rd = rbind read_tag8 (\<lambda>tag.
     if tag = 1 then
       rbind read_exp (\<lambda>f0. rbind read_param (\<lambda>f1. rbind rd (\<lambda>f2. rreturn (LET None f0 f1 f2))))
     else if tag = 2 then
       rbind read_alloc (\<lambda>f0. rbind read_exp_seq (\<lambda>f1. rbind read_lvar (\<lambda>f2. rbind rd (\<lambda>f3.
         rreturn (ALLOC None f0 f1 f2 f3)))))
     else if tag = 3 then
       rbind read_exp (\<lambda>f0. rbind read_exp_seq (\<lambda>f1. rbind read_ty_seq (\<lambda>f2.
         rreturn (APPLY None f0 f1 f2))))
     else if tag = 4 then
       rbind read_exp (\<lambda>f0. rbind read_exp_seq (\<lambda>f1. rbind read_ty_seq (\<lambda>f2.
         rreturn (THROW None f0 f1 f2))))
     else if tag = 5 then
       rbind read_lvar (\<lambda>f0. rbind read_exp_seq (\<lambda>f1. rreturn (GOTO None f0 f1)))
     else if tag = 6 then
       rbind read_exp (\<lambda>f0. rbind (read_seq rd) (\<lambda>f1. rreturn (SWITCH None f0 f1)))
     else if tag = 7 then
       rbind read_branch (\<lambda>f0. rbind read_exp_seq (\<lambda>f1. rbind read_probability (\<lambda>f2.
       rbind rd (\<lambda>f3. rbind rd (\<lambda>f4. rreturn (BRANCH None f0 f1 f2 f3 f4))))))
     else if tag = 8 then
       rbind read_arith (\<lambda>f0. rbind read_exp_seq (\<lambda>f1. rbind read_param (\<lambda>f2. rbind rd (\<lambda>f3.
         rreturn (ARITH None f0 f1 f2 f3)))))
     else if tag = 9 then
       rbind read_setter (\<lambda>f0. rbind read_exp_seq (\<lambda>f1. rbind rd (\<lambda>f2.
         rreturn (SETTER None f0 f1 f2))))
     else if tag = 10 then
       rbind read_exp_seq (\<lambda>f0. rbind read_lvar_seq (\<lambda>f1. rbind rd (\<lambda>f2.
         rreturn (CALLGC None f0 f1 f2))))
     else if tag = 11 then
       rbind read_bool (\<lambda>freentrant. rbind read_string (\<lambda>flinkage. rbind read_c_proto (\<lambda>fproto.
       rbind read_exp_seq (\<lambda>fargs. rbind read_param_seq (\<lambda>fresults. rbind read_param_seq (\<lambda>flive.
       rbind rd (\<lambda>fk. rreturn (RCC None freentrant flinkage fproto fargs fresults flive fk))))))))
     else rinvalid tag ''stm'')"

definition read_stm :: "stm reader" where
  "read_stm = fix_reader read_stm_body"

definition read_stm_seq :: "stm list reader" where
  "read_stm_seq = read_seq read_stm"

definition read_frag_kind :: "frag_kind reader" where
  "read_frag_kind = read_enum to_frag_kind"

definition read_frag :: "frag reader" where
  "read_frag =
     rbind read_frag_kind (\<lambda>fkind.
     rbind read_lvar (\<lambda>flab.
     rbind read_param_seq (\<lambda>fparams.
     rbind read_stm (\<lambda>fbody.
     rreturn \<lparr>f_kind = fkind, f_lab = flab, f_params = fparams, f_body = fbody, f_phiNodes = []\<rparr>))))"

definition read_frag_seq :: "frag list reader" where
  "read_frag_seq = read_seq read_frag"

definition read_attrs :: "attrs reader" where
  "read_attrs =
     rbind read_int (\<lambda>falignHP.
     rbind read_bool (\<lambda>fneedsBasePtr.
     rbind read_bool (\<lambda>fhasTrapArith.
     rbind read_bool (\<lambda>fhasRCC.
     rreturn \<lparr>alignHP = falignHP, needsBasePtr = fneedsBasePtr, hasTrapArith = fhasTrapArith,
       hasRCC = fhasRCC\<rparr>))))"

definition read_cluster :: "cluster reader" where
  "read_cluster =
     rbind read_attrs (\<lambda>fattrs.
     rbind read_frag_seq (\<lambda>ffrags.
     rreturn \<lparr>c_attrs = fattrs, c_frags = ffrags, c_fn = None\<rparr>))"

definition read_cluster_seq :: "cluster list reader" where
  "read_cluster_seq = read_seq read_cluster"

definition read_comp_unit :: "comp_unit reader" where
  "read_comp_unit =
     rbind read_string (\<lambda>fsrcFile.
     rbind read_cluster (\<lambda>fentry.
     rbind read_cluster_seq (\<lambda>ffns.
     rreturn \<lparr>srcFile = fsrcFile, entry = fentry, fns = ffns\<rparr>)))"

section \<open>Every reader consumes input and ends\<close>

lemmas cfg_reader_defs =
  read_c_int_def read_calling_convention_def read_numkind_def read_rounding_mode_def
  read_raw_ty_def read_raw_ty_seq_def read_alloc_def read_arithop_def read_arith_def
  read_pureop_def read_pure_def read_looker_def read_setter_def read_cmpop_def read_fcmpop_def
  read_branch_def read_ty_def read_ty_seq_def read_exp_seq_def read_param_def read_param_seq_def
  read_probability_def read_frag_kind_def read_frag_def read_frag_seq_def read_attrs_def
  read_cluster_def read_cluster_seq_def read_comp_unit_def read_c_type_seq_def read_c_proto_def
  read_lvar_seq_eq read_integer_option_def

lemma shrinking_prims [shrink_intros]:
  "shrinking read_alloc" "shrinking read_arith" "shrinking read_pure" "shrinking read_looker"
  "shrinking read_setter" "shrinking read_branch" "shrinking read_ty" "shrinking read_param"
  "shrinking read_param_seq" "shrinking read_ty_seq" "shrinking read_lvar_seq" "shrinking read_c_int"
  "shrinking read_probability"
  unfolding cfg_reader_defs
  by (assumption | rule shrink_intros fuel_intros | rule shrinking_nonexpanding)+

lemma fuel_ok_prims [fuel_intros]:
  "fuel_ok n read_alloc" "fuel_ok n read_arith" "fuel_ok n read_pure" "fuel_ok n read_looker"
  "fuel_ok n read_setter" "fuel_ok n read_branch" "fuel_ok n read_ty" "fuel_ok n read_param"
  "fuel_ok n read_param_seq" "fuel_ok n read_ty_seq" "fuel_ok n read_lvar_seq" "fuel_ok n read_c_int"
  "fuel_ok n read_probability"
  unfolding cfg_reader_defs
  by (assumption | rule shrink_intros fuel_intros | rule shrinking_nonexpanding)+

lemmas first_read = agree_rbind_shrink fuel_ok_rbind_shrink shrinking_rbind

interpretation c_type_r: recursive_reader read_c_type_body
  unfolding read_c_type_body_def
  by (unfold_locales; rule first_read;
    (assumption | rule agree_intros shrink_intros fuel_intros | rule shrinking_nonexpanding)+)

lemma read_c_type_reader [shrink_intros, fuel_intros]:
  "shrinking read_c_type" "fuel_ok n read_c_type"
  unfolding read_c_type_def by (rule c_type_r.fix_shrinks c_type_r.fix_fuel_ok)+

lemma read_c_proto_reader [shrink_intros, fuel_intros]:
  "shrinking read_c_proto" "fuel_ok n read_c_proto"
  unfolding read_c_proto_def read_c_type_seq_def read_calling_convention_def
  by (assumption | rule shrink_intros fuel_intros | rule shrinking_nonexpanding)+

interpretation exp_r: recursive_reader read_exp_body
  unfolding read_exp_body_def
  by (unfold_locales; rule first_read;
    (assumption | rule agree_intros shrink_intros fuel_intros | rule shrinking_nonexpanding)+)

lemma read_exp_reader [shrink_intros, fuel_intros]:
  "shrinking read_exp" "fuel_ok n read_exp" "shrinking read_exp_seq" "fuel_ok n read_exp_seq"
  unfolding read_exp_def read_exp_seq_def
  by (rule exp_r.fix_shrinks exp_r.fix_fuel_ok shrink_intros fuel_intros | rule shrinking_nonexpanding)+

interpretation stm_r: recursive_reader read_stm_body
  unfolding read_stm_body_def
  by (unfold_locales; rule first_read;
    (assumption | rule agree_intros shrink_intros fuel_intros | rule shrinking_nonexpanding)+)

lemma read_stm_reader [shrink_intros, fuel_intros]:
  "shrinking read_stm" "fuel_ok n read_stm"
  unfolding read_stm_def by (rule stm_r.fix_shrinks stm_r.fix_fuel_ok)+

lemma read_cluster_reader [shrink_intros, fuel_intros]:
  "shrinking read_cluster" "fuel_ok n read_cluster"
  "shrinking read_comp_unit" "fuel_ok n read_comp_unit"
  unfolding cfg_reader_defs
  by (assumption | rule shrink_intros fuel_intros | rule shrinking_nonexpanding)+

interpretation comp_unit_r: asdl_reader read_comp_unit
  by unfold_locales (rule read_cluster_reader)+

text \<open>The recursion equations.\<close>

lemma read_c_type_eq: "read_c_type = read_c_type_body read_c_type"
  unfolding read_c_type_def by (rule c_type_r.fix_unfold)

lemma read_exp_eq: "read_exp = read_exp_body read_exp"
  unfolding read_exp_def by (rule exp_r.fix_unfold)

lemma read_stm_eq: "read_stm = read_stm_body read_stm"
  unfolding read_stm_def by (rule stm_r.fix_unfold)

end
