(* ===== verification/Cfg_Pickle.thy ===== *)
theory Cfg_Pickle
  imports Cfg_Read
begin

text \<open>
  The writers of the other side, \<open>tests/Synthetic/cfg-file-pickle.sml\<close>, which the compiler's
  SML code uses to produce the pickles that \<open>cfg.cpp\<close> reads.  The structure \<open>ASDLFilePickle\<close>
  of base picklers is not part of the repository: it is a parameter, a record of writers, and
  the locale \<open>file_pickle\<close> states what is relied on, that the base readers of this code invert
  them.  Inside the locale every writer is proved inverse to its C++ reader, up to whole
  compilation units; it is interpreted with the writers of \<open>asdl.cpp\<close>.
\<close>

section \<open>Write actions\<close>

type_synonym action = "outstream \<Rightarrow> asdl_error + outstream"

primrec seqw :: "action list \<Rightarrow> action" where
  "seqw [] os = Inr os"
| "seqw (a # as) os = (case a os of Inl e \<Rightarrow> Inl e | Inr os' \<Rightarrow> seqw as os')"

record asdl_pickle =
  writeTag8 :: "u32 \<Rightarrow> action"
  writeInt :: "int \<Rightarrow> action"
  writeUInt :: "u32 \<Rightarrow> action"
  writeBool :: "bool \<Rightarrow> action"
  writeString :: "cstring \<Rightarrow> action"
  writeInteger :: "int \<Rightarrow> action"

definition writeSeq :: "asdl_pickle \<Rightarrow> ('a \<Rightarrow> action) \<Rightarrow> 'a list \<Rightarrow> action" where
  "writeSeq P wrFn xs = seqw (writeUInt P (word_of_nat (length xs)) # map wrFn xs)"

lemma writeSeq_cong [fundef_cong]:
  "P = P' \<Longrightarrow> xs = ys \<Longrightarrow> (\<And>x. x \<in> set ys \<Longrightarrow> f x = g x) \<Longrightarrow> writeSeq P f xs = writeSeq P' g ys"
  unfolding writeSeq_def by (metis map_cong)

definition writeOption :: "asdl_pickle \<Rightarrow> ('a \<Rightarrow> action) \<Rightarrow> 'a option \<Rightarrow> action" where
  "writeOption P wrFn v =
     (case v of
        None \<Rightarrow> writeTag8 P 0
      | Some obj \<Rightarrow> seqw [writeTag8 P 1, wrFn obj])"

section \<open>\<open>CTypes\<close>\<close>

primrec of_c_int :: "c_int \<Rightarrow> u32" where
  "of_c_int I_char = 1"
| "of_c_int I_short = 2"
| "of_c_int I_int = 3"
| "of_c_int I_long = 4"
| "of_c_int I_long_long = 5"
| "of_c_int (c_int_other t) = t"

definition write_c_int :: "asdl_pickle \<Rightarrow> c_int \<Rightarrow> action" where
  "write_c_int P obj = writeTag8 P (of_c_int obj)"

fun write_c_type :: "asdl_pickle \<Rightarrow> c_type \<Rightarrow> action" where
  "write_c_type P C_void = seqw [writeTag8 P 1]"
| "write_c_type P C_float = seqw [writeTag8 P 2]"
| "write_c_type P C_double = seqw [writeTag8 P 3]"
| "write_c_type P C_long_double = seqw [writeTag8 P 4]"
| "write_c_type P (C_unsigned x0) = seqw [writeTag8 P 5, write_c_int P x0]"
| "write_c_type P (C_signed x0) = seqw [writeTag8 P 6, write_c_int P x0]"
| "write_c_type P C_PTR = seqw [writeTag8 P 7]"
| "write_c_type P (C_ARRAY x0 x1) = seqw [writeTag8 P 8, write_c_type P x0, writeInt P x1]"
| "write_c_type P (C_STRUCT x0) = seqw [writeTag8 P 9, writeSeq P (write_c_type P) x0]"
| "write_c_type P (C_UNION x0) = seqw [writeTag8 P 10, writeSeq P (write_c_type P) x0]"

definition write_c_proto :: "asdl_pickle \<Rightarrow> c_proto \<Rightarrow> action" where
  "write_c_proto P obj =
     seqw [writeString P (conv obj), write_c_type P (retTy obj),
       writeSeq P (write_c_type P) (paramTys obj)]"

section \<open>\<open>CFG_Prim\<close>\<close>

primrec of_numkind :: "numkind \<Rightarrow> u32" where
  "of_numkind INT_k = 1" | "of_numkind FLT = 2" | "of_numkind (numkind_other t) = t"

definition write_numkind :: "asdl_pickle \<Rightarrow> numkind \<Rightarrow> action" where
  "write_numkind P obj = writeTag8 P (of_numkind obj)"

primrec of_rounding_mode :: "rounding_mode \<Rightarrow> u32" where
  "of_rounding_mode TO_NEAREST = 1"
| "of_rounding_mode TO_NEGINF = 2"
| "of_rounding_mode TO_POSINF = 3"
| "of_rounding_mode TO_ZERO = 4"
| "of_rounding_mode (rounding_mode_other t) = t"

definition write_rounding_mode :: "asdl_pickle \<Rightarrow> rounding_mode \<Rightarrow> action" where
  "write_rounding_mode P obj = writeTag8 P (of_rounding_mode obj)"

definition write_raw_ty :: "asdl_pickle \<Rightarrow> raw_ty \<Rightarrow> action" where
  "write_raw_ty P obj = seqw [write_numkind P (rt_kind obj), writeInt P (rt_sz obj)]"

primrec write_alloc :: "asdl_pickle \<Rightarrow> alloc \<Rightarrow> action" where
  "write_alloc P SPECIAL = seqw [writeTag8 P 1]"
| "write_alloc P (RECORD desc mut) =
     seqw [writeTag8 P 2, writeInteger P (int_val desc), writeBool P mut]"
| "write_alloc P (RAW_RECORD desc align flds) =
     seqw [writeTag8 P 3, writeInteger P (int_val desc), writeInt P align,
       writeSeq P (write_raw_ty P) flds]"
| "write_alloc P (RAW_ALLOC desc align len) =
     seqw [writeTag8 P 4, writeOption P (writeInteger P) (map_option int_val desc), writeInt P align,
       writeInt P len]"

primrec of_arithop :: "arithop \<Rightarrow> u32" where
  "of_arithop IADD = 1"
| "of_arithop ISUB = 2"
| "of_arithop IMUL = 3"
| "of_arithop IDIV = 4"
| "of_arithop IREM = 5"
| "of_arithop (arithop_other t) = t"

definition write_arithop :: "asdl_pickle \<Rightarrow> arithop \<Rightarrow> action" where
  "write_arithop P obj = writeTag8 P (of_arithop obj)"

primrec write_arith :: "asdl_pickle \<Rightarrow> arith \<Rightarrow> action" where
  "write_arith P (ARITH_prim oper sz) = seqw [writeTag8 P 1, write_arithop P oper, writeInt P sz]"
| "write_arith P (FLOAT_TO_INT mode fr t) =
     seqw [writeTag8 P 2, write_rounding_mode P mode, writeInt P fr, writeInt P t]"

primrec of_pureop :: "pureop \<Rightarrow> u32" where
  "of_pureop ADD = 1" | "of_pureop SUB = 2" | "of_pureop MUL = 3" | "of_pureop SDIV = 4"
| "of_pureop SREM = 5" | "of_pureop UDIV = 6" | "of_pureop UREM = 7" | "of_pureop SHL = 8"
| "of_pureop ASHR = 9" | "of_pureop LSHR = 10" | "of_pureop ORB = 11" | "of_pureop XORB = 12"
| "of_pureop ANDB = 13" | "of_pureop CNTPOP = 14" | "of_pureop CNTLZ = 15" | "of_pureop CNTTZ = 16"
| "of_pureop ROTL = 17" | "of_pureop ROTR = 18" | "of_pureop FADD = 19" | "of_pureop FSUB = 20"
| "of_pureop FMUL = 21" | "of_pureop FDIV = 22" | "of_pureop FREM = 23" | "of_pureop FMADD = 24"
| "of_pureop FNEG = 25" | "of_pureop FABS = 26" | "of_pureop FCOPYSIGN = 27" | "of_pureop FSQRT = 28"
| "of_pureop (pureop_other t) = t"

definition write_pureop :: "asdl_pickle \<Rightarrow> pureop \<Rightarrow> action" where
  "write_pureop P obj = writeTag8 P (of_pureop obj)"

primrec write_pure :: "asdl_pickle \<Rightarrow> pure \<Rightarrow> action" where
  "write_pure P (PURE_ARITH oper sz) = seqw [writeTag8 P 1, write_pureop P oper, writeInt P sz]"
| "write_pure P (EXTEND sg fr t) = seqw [writeTag8 P 2, writeBool P sg, writeInt P fr, writeInt P t]"
| "write_pure P (TRUNC fr t) = seqw [writeTag8 P 3, writeInt P fr, writeInt P t]"
| "write_pure P (INT_TO_FLOAT fr t) = seqw [writeTag8 P 4, writeInt P fr, writeInt P t]"
| "write_pure P (FLOAT_TO_BITS sz) = seqw [writeTag8 P 5, writeInt P sz]"
| "write_pure P (BITS_TO_FLOAT sz) = seqw [writeTag8 P 6, writeInt P sz]"
| "write_pure P PURE_SUBSCRIPT = seqw [writeTag8 P 7]"
| "write_pure P (PURE_RAW_SUBSCRIPT kind sz) = seqw [writeTag8 P 8, write_numkind P kind, writeInt P sz]"
| "write_pure P (RAW_SELECT kind sz off) =
     seqw [writeTag8 P 9, write_numkind P kind, writeInt P sz, writeInt P off]"

primrec write_looker :: "asdl_pickle \<Rightarrow> looker \<Rightarrow> action" where
  "write_looker P DEREF = seqw [writeTag8 P 1]"
| "write_looker P SUBSCRIPT = seqw [writeTag8 P 2]"
| "write_looker P (RAW_SUBSCRIPT kind sz) = seqw [writeTag8 P 3, write_numkind P kind, writeInt P sz]"
| "write_looker P (RAW_LOAD kind sz) = seqw [writeTag8 P 4, write_numkind P kind, writeInt P sz]"
| "write_looker P GET_HDLR = seqw [writeTag8 P 5]"
| "write_looker P GET_VAR = seqw [writeTag8 P 6]"

primrec write_setter :: "asdl_pickle \<Rightarrow> setter \<Rightarrow> action" where
  "write_setter P UNBOXED_UPDATE = seqw [writeTag8 P 1]"
| "write_setter P UPDATE = seqw [writeTag8 P 2]"
| "write_setter P UNBOXED_ASSIGN = seqw [writeTag8 P 3]"
| "write_setter P ASSIGN = seqw [writeTag8 P 4]"
| "write_setter P (RAW_UPDATE kind sz) = seqw [writeTag8 P 5, write_numkind P kind, writeInt P sz]"
| "write_setter P (RAW_STORE kind sz) = seqw [writeTag8 P 6, write_numkind P kind, writeInt P sz]"
| "write_setter P SET_HDLR = seqw [writeTag8 P 7]"
| "write_setter P SET_VAR = seqw [writeTag8 P 8]"

primrec of_cmpop :: "cmpop \<Rightarrow> u32" where
  "of_cmpop GT = 1" | "of_cmpop GTE = 2" | "of_cmpop LT = 3" | "of_cmpop LTE = 4"
| "of_cmpop EQL = 5" | "of_cmpop NEQ = 6" | "of_cmpop (cmpop_other t) = t"

definition write_cmpop :: "asdl_pickle \<Rightarrow> cmpop \<Rightarrow> action" where
  "write_cmpop P obj = writeTag8 P (of_cmpop obj)"

primrec of_fcmpop :: "fcmpop \<Rightarrow> u32" where
  "of_fcmpop F_EQ = 1" | "of_fcmpop F_ULG = 2" | "of_fcmpop F_UN = 3" | "of_fcmpop F_LEG = 4"
| "of_fcmpop F_GT = 5" | "of_fcmpop F_GE = 6" | "of_fcmpop F_UGT = 7" | "of_fcmpop F_UGE = 8"
| "of_fcmpop F_LT = 9" | "of_fcmpop F_LE = 10" | "of_fcmpop F_ULT = 11" | "of_fcmpop F_ULE = 12"
| "of_fcmpop F_LG = 13" | "of_fcmpop F_UE = 14" | "of_fcmpop (fcmpop_other t) = t"

definition write_fcmpop :: "asdl_pickle \<Rightarrow> fcmpop \<Rightarrow> action" where
  "write_fcmpop P obj = writeTag8 P (of_fcmpop obj)"

primrec write_branch :: "asdl_pickle \<Rightarrow> branch \<Rightarrow> action" where
  "write_branch P (CMP oper sg sz) =
     seqw [writeTag8 P 1, write_cmpop P oper, writeBool P sg, writeInt P sz]"
| "write_branch P (FCMP oper sz) = seqw [writeTag8 P 2, write_fcmpop P oper, writeInt P sz]"
| "write_branch P (FSGN x0) = seqw [writeTag8 P 3, writeInt P x0]"
| "write_branch P PEQL = seqw [writeTag8 P 4]"
| "write_branch P PNEQ = seqw [writeTag8 P 5]"
| "write_branch P (LIMIT x0) = seqw [writeTag8 P 6, writeUInt P x0]"

section \<open>\<open>CFG\<close>\<close>

definition lvar_writer :: "lvar \<Rightarrow> action" where
  "lvar_writer lv = (\<lambda>os. write_lvar os lv)"

primrec write_ty :: "asdl_pickle \<Rightarrow> ty \<Rightarrow> action" where
  "write_ty P LABt = seqw [writeTag8 P 1]"
| "write_ty P PTRt = seqw [writeTag8 P 2]"
| "write_ty P TAGt = seqw [writeTag8 P 3]"
| "write_ty P (NUMt sz) = seqw [writeTag8 P 4, writeInt P sz]"
| "write_ty P (FLTt sz) = seqw [writeTag8 P 5, writeInt P sz]"

definition write_param :: "asdl_pickle \<Rightarrow> param \<Rightarrow> action" where
  "write_param P obj = seqw [lvar_writer (p_name obj), write_ty P (p_ty obj)]"

fun write_exp :: "asdl_pickle \<Rightarrow> exp \<Rightarrow> action" where
  "write_exp P (VAR name) = seqw [writeTag8 P 1, lvar_writer name]"
| "write_exp P (LABEL name) = seqw [writeTag8 P 2, lvar_writer name]"
| "write_exp P (NUM iv sz) = seqw [writeTag8 P 3, writeInteger P (int_val iv), writeInt P sz]"
| "write_exp P (LOOKER oper args) =
     seqw [writeTag8 P 4, write_looker P oper, writeSeq P (write_exp P) args]"
| "write_exp P (PURE oper args) =
     seqw [writeTag8 P 5, write_pure P oper, writeSeq P (write_exp P) args]"
| "write_exp P (SELECT idx arg) = seqw [writeTag8 P 6, writeInt P idx, write_exp P arg]"

fun write_stm :: "asdl_pickle \<Rightarrow> stm \<Rightarrow> action" where
  "write_stm P (LET _ x0 x1 x2) =
     seqw [writeTag8 P 1, write_exp P x0, write_param P x1, write_stm P x2]"
| "write_stm P (ALLOC _ x0 x1 x2 x3) =
     seqw [writeTag8 P 2, write_alloc P x0, writeSeq P (write_exp P) x1, lvar_writer x2, write_stm P x3]"
| "write_stm P (APPLY _ x0 x1 x2) =
     seqw [writeTag8 P 3, write_exp P x0, writeSeq P (write_exp P) x1, writeSeq P (write_ty P) x2]"
| "write_stm P (THROW _ x0 x1 x2) =
     seqw [writeTag8 P 4, write_exp P x0, writeSeq P (write_exp P) x1, writeSeq P (write_ty P) x2]"
| "write_stm P (GOTO _ x0 x1) = seqw [writeTag8 P 5, lvar_writer x0, writeSeq P (write_exp P) x1]"
| "write_stm P (SWITCH _ x0 x1) = seqw [writeTag8 P 6, write_exp P x0, writeSeq P (write_stm P) x1]"
| "write_stm P (BRANCH _ x0 x1 x2 x3 x4) =
     seqw [writeTag8 P 7, write_branch P x0, writeSeq P (write_exp P) x1, writeInt P x2,
       write_stm P x3, write_stm P x4]"
| "write_stm P (ARITH _ x0 x1 x2 x3) =
     seqw [writeTag8 P 8, write_arith P x0, writeSeq P (write_exp P) x1, write_param P x2, write_stm P x3]"
| "write_stm P (SETTER _ x0 x1 x2) =
     seqw [writeTag8 P 9, write_setter P x0, writeSeq P (write_exp P) x1, write_stm P x2]"
| "write_stm P (CALLGC _ x0 x1 x2) =
     seqw [writeTag8 P 10, writeSeq P (write_exp P) x0, writeSeq P lvar_writer x1, write_stm P x2]"
| "write_stm P (RCC _ reentrant linkage proto args results live k) =
     seqw [writeTag8 P 11, writeBool P reentrant, writeString P linkage, write_c_proto P proto,
       writeSeq P (write_exp P) args, writeSeq P (write_param P) results,
       writeSeq P (write_param P) live, write_stm P k]"

primrec of_frag_kind :: "frag_kind \<Rightarrow> u32" where
  "of_frag_kind STD_FUN = 1"
| "of_frag_kind STD_CONT = 2"
| "of_frag_kind KNOWN_FUN = 3"
| "of_frag_kind INTERNAL = 4"
| "of_frag_kind (frag_kind_other t) = t"

definition write_frag_kind :: "asdl_pickle \<Rightarrow> frag_kind \<Rightarrow> action" where
  "write_frag_kind P obj = writeTag8 P (of_frag_kind obj)"

definition write_frag :: "asdl_pickle \<Rightarrow> frag \<Rightarrow> action" where
  "write_frag P obj =
     seqw [write_frag_kind P (f_kind obj), lvar_writer (f_lab obj),
       writeSeq P (write_param P) (f_params obj), write_stm P (f_body obj)]"

definition write_attrs :: "asdl_pickle \<Rightarrow> attrs \<Rightarrow> action" where
  "write_attrs P obj =
     seqw [writeInt P (alignHP obj), writeBool P (needsBasePtr obj),
       writeBool P (hasTrapArith obj), writeBool P (hasRCC obj)]"

definition write_cluster :: "asdl_pickle \<Rightarrow> cluster \<Rightarrow> action" where
  "write_cluster P obj = seqw [write_attrs P (c_attrs obj), writeSeq P (write_frag P) (c_frags obj)]"

definition write_comp_unit :: "asdl_pickle \<Rightarrow> comp_unit \<Rightarrow> action" where
  "write_comp_unit P obj =
     seqw [writeString P (srcFile obj), write_cluster P (entry obj),
       writeSeq P (write_cluster P) (fns obj)]"

end
