(* ===== verification/Cfg_Roundtrip.thy ===== *)
theory Cfg_Roundtrip
  imports Cfg_Pickle
begin

text \<open>
  Pickles and back: what \<open>cfg-file-pickle.sml\<close> writes, \<open>cfg.cpp\<close> reads as the same compilation
  unit.  The \<open>_ok\<close> predicates say which values the format can carry: integers of 30 bits,
  identifiers below \<open>2\<^sup>3\<^sup>1\<close>, sequences of less than \<open>2\<^sup>3\<^sup>0\<close> elements, enumerators that exist, and
  multiprecision integers without leading zeros.
\<close>

section \<open>Emitting and reading back\<close>

definition emits :: "action \<Rightarrow> 'a reader \<Rightarrow> 'a \<Rightarrow> bool" where
  "emits a rd x \<longleftrightarrow>
     (\<exists>p. (\<forall>os. a os = Inr (emit os p)) \<and>
          (\<forall>nm bs. rd (stream nm (p @ bs)) = Inr (x, stream nm bs)))"

lemma emits_rt: "emits (\<lambda>os. wr os x) rd x \<longleftrightarrow> rt wr rd x"
  by (simp add: emits_def rt_def)

lemma emits_nil [pickle_intros]: "emits (seqw []) (rreturn y) y"
  unfolding emits_def by (rule exI [of _ "[]"]) (simp add: run_simps)

lemma emits_cons [pickle_intros]:
  assumes "emits a m x" "emits (seqw as) (k x) y"
  shows "emits (seqw (a # as)) (rbind m k) y"
proof -
  obtain p q where "\<And>os. a os = Inr (emit os p)" "\<And>os. seqw as os = Inr (emit os q)"
    "\<And>nm bs. m (stream nm (p @ bs)) = Inr (x, stream nm bs)"
    "\<And>nm bs. k x (stream nm (q @ bs)) = Inr (y, stream nm bs)"
    using assms unfolding emits_def by metis
  then show ?thesis unfolding emits_def
    by (intro exI [of _ "p @ q"]) (simp add: run_simps)
qed

lemma seqw_single: "seqw [a] = a"
  by (rule ext) (simp split: sum.split)

declare seqw.simps [simp del]

lemma emits_map:
  assumes "\<And>x. x \<in> set xs \<Longrightarrow> emits (w x) rd x"
  shows "emits (seqw (map w xs)) (read_n (length xs) rd) xs"
  using assms
proof (induction xs)
  case Nil
  show ?case by (simp add: emits_nil)
next
  case (Cons x xs)
  have "emits (seqw (map w xs)) (rbind (read_n (length xs) rd) (\<lambda>xs. rreturn (x # xs))) (x # xs)"
  proof -
    have "emits (seqw (map w xs)) (read_n (length xs) rd) xs" using Cons by simp
    then show ?thesis unfolding emits_def by (metis rbind_Inr rreturn_run)
  qed
  then show ?case
    unfolding list.map length_Cons read_n.simps
    by (intro emits_cons [where x = x] Cons.prems) simp_all
qed

section \<open>Values that the format can carry\<close>

definition int_ok :: "int \<Rightarrow> bool" where
  "int_ok i \<longleftrightarrow> - 536870912 \<le> i \<and> i < 536870912"

definition lvar_ok :: "lvar \<Rightarrow> bool" where
  "lvar_ok v \<longleftrightarrow> 0 \<le> v \<and> v < 2 ^ 31"

definition len_ok :: "'a list \<Rightarrow> bool" where
  "len_ok xs \<longleftrightarrow> length xs < 2 ^ 30"

text \<open>A multiprecision integer without leading zeros, of fewer than about \<open>2\<^sup>3\<^sup>1\<close> bits: the reader
  counts the bits in an \<open>int\<close>.\<close>

definition integer_ok :: "integer \<Rightarrow> bool" where
  "integer_ok i \<longleftrightarrow> canonical i \<and> (i_sign i \<longleftrightarrow> int_val i < 0) \<and> int_fits (int_val i)"

definition seq_ok :: "('a \<Rightarrow> bool) \<Rightarrow> 'a list \<Rightarrow> bool" where
  "seq_ok ok xs \<longleftrightarrow> len_ok xs \<and> list_all ok xs"

lemma seq_ok_cong [fundef_cong]:
  "xs = ys \<Longrightarrow> (\<And>x. x \<in> set ys \<Longrightarrow> f x = g x) \<Longrightarrow> seq_ok f xs = seq_ok g ys"
  by (auto simp: seq_ok_def list_all_iff)

definition c_int_ok :: "c_int \<Rightarrow> bool" where
  "c_int_ok e \<longleftrightarrow> (case e of c_int_other _ \<Rightarrow> False | _ \<Rightarrow> True)"

fun c_type_ok :: "c_type \<Rightarrow> bool" where
  "c_type_ok (C_unsigned i) = c_int_ok i"
| "c_type_ok (C_signed i) = c_int_ok i"
| "c_type_ok (C_ARRAY t n) = (c_type_ok t \<and> int_ok n)"
| "c_type_ok (C_STRUCT ts) = seq_ok c_type_ok ts"
| "c_type_ok (C_UNION ts) = seq_ok c_type_ok ts"
| "c_type_ok _ = True"

definition c_proto_ok :: "c_proto \<Rightarrow> bool" where
  "c_proto_ok p \<longleftrightarrow> len_ok (conv p) \<and> c_type_ok (retTy p) \<and> seq_ok c_type_ok (paramTys p)"

definition numkind_ok :: "numkind \<Rightarrow> bool" where
  "numkind_ok e \<longleftrightarrow> (case e of numkind_other _ \<Rightarrow> False | _ \<Rightarrow> True)"

definition rounding_mode_ok :: "rounding_mode \<Rightarrow> bool" where
  "rounding_mode_ok e \<longleftrightarrow> (case e of rounding_mode_other _ \<Rightarrow> False | _ \<Rightarrow> True)"

definition arithop_ok :: "arithop \<Rightarrow> bool" where
  "arithop_ok e \<longleftrightarrow> (case e of arithop_other _ \<Rightarrow> False | _ \<Rightarrow> True)"

definition pureop_ok :: "pureop \<Rightarrow> bool" where
  "pureop_ok e \<longleftrightarrow> (case e of pureop_other _ \<Rightarrow> False | _ \<Rightarrow> True)"

definition cmpop_ok :: "cmpop \<Rightarrow> bool" where
  "cmpop_ok e \<longleftrightarrow> (case e of cmpop_other _ \<Rightarrow> False | _ \<Rightarrow> True)"

definition fcmpop_ok :: "fcmpop \<Rightarrow> bool" where
  "fcmpop_ok e \<longleftrightarrow> (case e of fcmpop_other _ \<Rightarrow> False | _ \<Rightarrow> True)"

definition frag_kind_ok :: "frag_kind \<Rightarrow> bool" where
  "frag_kind_ok e \<longleftrightarrow> (case e of frag_kind_other _ \<Rightarrow> False | _ \<Rightarrow> True)"

definition raw_ty_ok :: "raw_ty \<Rightarrow> bool" where
  "raw_ty_ok t \<longleftrightarrow> numkind_ok (rt_kind t) \<and> int_ok (rt_sz t)"

fun alloc_ok :: "alloc \<Rightarrow> bool" where
  "alloc_ok SPECIAL = True"
| "alloc_ok (RECORD desc _) = integer_ok desc"
| "alloc_ok (RAW_RECORD desc align flds) = (integer_ok desc \<and> int_ok align \<and> seq_ok raw_ty_ok flds)"
| "alloc_ok (RAW_ALLOC desc align len) = (pred_option integer_ok desc \<and> int_ok align \<and> int_ok len)"

fun arith_ok :: "arith \<Rightarrow> bool" where
  "arith_ok (ARITH_prim oper sz) = (arithop_ok oper \<and> int_ok sz)"
| "arith_ok (FLOAT_TO_INT mode fr t) = (rounding_mode_ok mode \<and> int_ok fr \<and> int_ok t)"

fun pure_ok :: "pure \<Rightarrow> bool" where
  "pure_ok (PURE_ARITH oper sz) = (pureop_ok oper \<and> int_ok sz)"
| "pure_ok (EXTEND _ fr t) = (int_ok fr \<and> int_ok t)"
| "pure_ok (TRUNC fr t) = (int_ok fr \<and> int_ok t)"
| "pure_ok (INT_TO_FLOAT fr t) = (int_ok fr \<and> int_ok t)"
| "pure_ok (FLOAT_TO_BITS sz) = int_ok sz"
| "pure_ok (BITS_TO_FLOAT sz) = int_ok sz"
| "pure_ok PURE_SUBSCRIPT = True"
| "pure_ok (PURE_RAW_SUBSCRIPT kind sz) = (numkind_ok kind \<and> int_ok sz)"
| "pure_ok (RAW_SELECT kind sz off) = (numkind_ok kind \<and> int_ok sz \<and> int_ok off)"

fun looker_ok :: "looker \<Rightarrow> bool" where
  "looker_ok (RAW_SUBSCRIPT kind sz) = (numkind_ok kind \<and> int_ok sz)"
| "looker_ok (RAW_LOAD kind sz) = (numkind_ok kind \<and> int_ok sz)"
| "looker_ok _ = True"

fun setter_ok :: "setter \<Rightarrow> bool" where
  "setter_ok (RAW_UPDATE kind sz) = (numkind_ok kind \<and> int_ok sz)"
| "setter_ok (RAW_STORE kind sz) = (numkind_ok kind \<and> int_ok sz)"
| "setter_ok _ = True"

fun branch_ok :: "branch \<Rightarrow> bool" where
  "branch_ok (CMP oper _ sz) = (cmpop_ok oper \<and> int_ok sz)"
| "branch_ok (FCMP oper sz) = (fcmpop_ok oper \<and> int_ok sz)"
| "branch_ok (FSGN n) = int_ok n"
| "branch_ok PEQL = True"
| "branch_ok PNEQ = True"
| "branch_ok (LIMIT n) = (n \<le> 0x3fffffff)"

fun ty_ok :: "ty \<Rightarrow> bool" where
  "ty_ok (NUMt sz) = int_ok sz"
| "ty_ok (FLTt sz) = int_ok sz"
| "ty_ok _ = True"

definition param_ok :: "param \<Rightarrow> bool" where
  "param_ok p \<longleftrightarrow> lvar_ok (p_name p) \<and> ty_ok (p_ty p)"

fun exp_ok :: "exp \<Rightarrow> bool" where
  "exp_ok (VAR v) = lvar_ok v"
| "exp_ok (LABEL v) = lvar_ok v"
| "exp_ok (NUM iv sz) = (integer_ok iv \<and> int_ok sz)"
| "exp_ok (LOOKER oper args) = (looker_ok oper \<and> seq_ok exp_ok args)"
| "exp_ok (PURE oper args) = (pure_ok oper \<and> seq_ok exp_ok args)"
| "exp_ok (SELECT idx arg) = (int_ok idx \<and> exp_ok arg)"

text \<open>The \<open>_bb\<close> field is not part of a pickle: it is unset.\<close>

fun stm_ok :: "stm \<Rightarrow> bool" where
  "stm_ok (LET bb e p k) = (bb = None \<and> exp_ok e \<and> param_ok p \<and> stm_ok k)"
| "stm_ok (ALLOC bb a es v k) = (bb = None \<and> alloc_ok a \<and> seq_ok exp_ok es \<and> lvar_ok v \<and> stm_ok k)"
| "stm_ok (APPLY bb e es ts) = (bb = None \<and> exp_ok e \<and> seq_ok exp_ok es \<and> seq_ok ty_ok ts)"
| "stm_ok (THROW bb e es ts) = (bb = None \<and> exp_ok e \<and> seq_ok exp_ok es \<and> seq_ok ty_ok ts)"
| "stm_ok (GOTO bb v es) = (bb = None \<and> lvar_ok v \<and> seq_ok exp_ok es)"
| "stm_ok (SWITCH bb e ks) = (bb = None \<and> exp_ok e \<and> seq_ok stm_ok ks)"
| "stm_ok (BRANCH bb b es pr k1 k2) =
     (bb = None \<and> branch_ok b \<and> seq_ok exp_ok es \<and> int_ok pr \<and> stm_ok k1 \<and> stm_ok k2)"
| "stm_ok (ARITH bb a es p k) = (bb = None \<and> arith_ok a \<and> seq_ok exp_ok es \<and> param_ok p \<and> stm_ok k)"
| "stm_ok (SETTER bb s es k) = (bb = None \<and> setter_ok s \<and> seq_ok exp_ok es \<and> stm_ok k)"
| "stm_ok (CALLGC bb es vs k) = (bb = None \<and> seq_ok exp_ok es \<and> seq_ok lvar_ok vs \<and> stm_ok k)"
| "stm_ok (RCC bb _ link proto es rs ls k) =
     (bb = None \<and> len_ok link \<and> c_proto_ok proto \<and> seq_ok exp_ok es \<and> seq_ok param_ok rs \<and>
      seq_ok param_ok ls \<and> stm_ok k)"

definition frag_ok :: "frag \<Rightarrow> bool" where
  "frag_ok f \<longleftrightarrow> frag_kind_ok (f_kind f) \<and> lvar_ok (f_lab f) \<and> seq_ok param_ok (f_params f) \<and>
     stm_ok (f_body f) \<and> f_phiNodes f = []"

definition attrs_ok :: "attrs \<Rightarrow> bool" where
  "attrs_ok a \<longleftrightarrow> int_ok (alignHP a)"

definition cluster_ok :: "cluster \<Rightarrow> bool" where
  "cluster_ok c \<longleftrightarrow> attrs_ok (c_attrs c) \<and> seq_ok frag_ok (c_frags c) \<and> c_fn c = None"

definition comp_unit_ok :: "comp_unit \<Rightarrow> bool" where
  "comp_unit_ok u \<longleftrightarrow> len_ok (srcFile u) \<and> cluster_ok (entry u) \<and> seq_ok cluster_ok (fns u)"

section \<open>The round trip\<close>

locale file_pickle =
  fixes P :: asdl_pickle
  assumes tag8: "t < 256 \<Longrightarrow> emits (writeTag8 P t) read_tag8 t"
    and pint: "int_ok i \<Longrightarrow> emits (writeInt P i) read_int i"
    and puint: "u \<le> 0x3fffffff \<Longrightarrow> emits (writeUInt P u) read_uint u"
    and pbool: "emits (writeBool P b) read_bool b"
    and pstring: "len_ok s \<Longrightarrow> emits (writeString P s) read_string s"
    and pinteger: "integer_ok iv \<Longrightarrow> emits (writeInteger P (int_val iv)) read_integer iv"
begin

declare pint [pickle_intros] puint [pickle_intros] pbool [pickle_intros] pstring [pickle_intros]
  pinteger [pickle_intros]

lemma seq [pickle_intros]:
  assumes "seq_ok ok xs" "\<And>x. ok x \<Longrightarrow> x \<in> set xs \<Longrightarrow> emits (w x) rd x"
  shows "emits (writeSeq P w xs) (read_seq rd) xs"
proof -
  have l: "length xs < 2 ^ 30" and ok: "\<And>x. x \<in> set xs \<Longrightarrow> ok x"
    using assms(1) by (auto simp: seq_ok_def len_ok_def list_all_iff)
  have "emits (writeUInt P (word_of_nat (length xs))) read_uint (word_of_nat (length xs))"
    using l unat_length [OF l] by (intro puint) (simp add: word_le_iff)
  moreover have "emits (seqw (map w xs)) (read_n (length xs) rd) xs"
    by (rule emits_map) (simp add: assms(2) ok)
  ultimately show ?thesis
    unfolding writeSeq_def read_seq_def
    by (intro emits_cons [where x = "word_of_nat (length xs)"]) (simp_all add: unat_length [OF l])
qed

lemma tagged:
  "t < 256 \<Longrightarrow> emits (seqw as) (k t) y \<Longrightarrow> emits (seqw (writeTag8 P t # as)) (rbind read_tag8 k) y"
  by (rule emits_cons [OF tag8])

lemma enum:
  assumes "of_enum e < 256" "cast (of_enum e) = e"
  shows "emits (writeTag8 P (of_enum e)) (read_enum cast) e"
proof -
  have "emits (seqw [writeTag8 P (of_enum e)]) (read_enum cast) e"
    unfolding read_enum_def by (rule tagged) (simp_all add: emits_nil assms)
  then show ?thesis by (simp only: seqw_single)
qed

lemma c_int_enum [pickle_intros]: "c_int_ok e \<Longrightarrow> emits (write_c_int P e) read_c_int e"
  unfolding write_c_int_def read_c_int_def
  by (rule enum; cases e; simp add: c_int_ok_def to_c_int_def enum_cast_def)

lemma numkind_enum [pickle_intros]: "numkind_ok e \<Longrightarrow> emits (write_numkind P e) read_numkind e"
  unfolding write_numkind_def read_numkind_def
  by (rule enum; cases e; simp add: numkind_ok_def to_numkind_def enum_cast_def)

lemma rounding_mode_enum [pickle_intros]: "rounding_mode_ok e \<Longrightarrow> emits (write_rounding_mode P e) read_rounding_mode e"
  unfolding write_rounding_mode_def read_rounding_mode_def
  by (rule enum; cases e; simp add: rounding_mode_ok_def to_rounding_mode_def enum_cast_def)

lemma arithop_enum [pickle_intros]: "arithop_ok e \<Longrightarrow> emits (write_arithop P e) read_arithop e"
  unfolding write_arithop_def read_arithop_def
  by (rule enum; cases e; simp add: arithop_ok_def to_arithop_def enum_cast_def)

lemma pureop_enum [pickle_intros]: "pureop_ok e \<Longrightarrow> emits (write_pureop P e) read_pureop e"
  unfolding write_pureop_def read_pureop_def
  by (rule enum; cases e; simp add: pureop_ok_def to_pureop_def enum_cast_def)

lemma cmpop_enum [pickle_intros]: "cmpop_ok e \<Longrightarrow> emits (write_cmpop P e) read_cmpop e"
  unfolding write_cmpop_def read_cmpop_def
  by (rule enum; cases e; simp add: cmpop_ok_def to_cmpop_def enum_cast_def)

lemma fcmpop_enum [pickle_intros]: "fcmpop_ok e \<Longrightarrow> emits (write_fcmpop P e) read_fcmpop e"
  unfolding write_fcmpop_def read_fcmpop_def
  by (rule enum; cases e; simp add: fcmpop_ok_def to_fcmpop_def enum_cast_def)

lemma frag_kind_enum [pickle_intros]: "frag_kind_ok e \<Longrightarrow> emits (write_frag_kind P e) read_frag_kind e"
  unfolding write_frag_kind_def read_frag_kind_def
  by (rule enum; cases e; simp add: frag_kind_ok_def to_frag_kind_def enum_cast_def)

lemma raw_ty_rt [pickle_intros]: "raw_ty_ok t \<Longrightarrow> emits (write_raw_ty P t) read_raw_ty t"
  unfolding write_raw_ty_def read_raw_ty_def raw_ty_ok_def
  by (cases t) (auto intro!: pickle_intros)

lemma raw_ty_seq [pickle_intros]:
  "seq_ok raw_ty_ok ts \<Longrightarrow> emits (writeSeq P (write_raw_ty P) ts) read_raw_ty_seq ts"
  unfolding read_raw_ty_seq_def by (rule seq) (assumption, rule raw_ty_rt)

lemma integer_option [pickle_intros]:
  assumes "pred_option integer_ok d"
  shows "emits (writeOption P (writeInteger P) (map_option int_val d)) read_integer_option d"
proof (cases d)
  case None
  have "emits (seqw [writeTag8 P 0]) read_integer_option None"
    unfolding read_integer_option_def read_option_as_def
    by (rule tagged) (simp_all add: emits_nil)
  with None show ?thesis by (simp add: writeOption_def seqw_single)
next
  case (Some i)
  have "emits (seqw [writeTag8 P 1, writeInteger P (int_val i)]) read_integer_option (Some i)"
    unfolding read_integer_option_def read_option_as_def
    by (rule tagged) (use Some assms in \<open>auto intro!: pickle_intros\<close>)
  with Some show ?thesis by (simp add: writeOption_def)
qed

lemma alloc_rt [pickle_intros]: "alloc_ok a \<Longrightarrow> emits (write_alloc P a) read_alloc a"
  unfolding read_alloc_def
  by (cases a; simp only: write_alloc.simps alloc_ok.simps; rule tagged;
    auto intro!: pickle_intros)

lemma arith_rt [pickle_intros]: "arith_ok a \<Longrightarrow> emits (write_arith P a) read_arith a"
  unfolding read_arith_def
  by (cases a; simp only: write_arith.simps arith_ok.simps; rule tagged;
    auto intro!: pickle_intros)

lemma pure_rt [pickle_intros]: "pure_ok a \<Longrightarrow> emits (write_pure P a) read_pure a"
  unfolding read_pure_def
  by (cases a; simp only: write_pure.simps pure_ok.simps; rule tagged;
    auto intro!: pickle_intros)

lemma looker_rt [pickle_intros]: "looker_ok a \<Longrightarrow> emits (write_looker P a) read_looker a"
  unfolding read_looker_def
  by (cases a; simp only: write_looker.simps looker_ok.simps; rule tagged;
    auto intro!: pickle_intros)

lemma setter_rt [pickle_intros]: "setter_ok a \<Longrightarrow> emits (write_setter P a) read_setter a"
  unfolding read_setter_def
  by (cases a; simp only: write_setter.simps setter_ok.simps; rule tagged;
    auto intro!: pickle_intros)

lemma branch_rt [pickle_intros]: "branch_ok a \<Longrightarrow> emits (write_branch P a) read_branch a"
  unfolding read_branch_def
  by (cases a; simp only: write_branch.simps branch_ok.simps; rule tagged;
    auto intro!: pickle_intros)

lemma ty_rt [pickle_intros]: "ty_ok a \<Longrightarrow> emits (write_ty P a) read_ty a"
  unfolding read_ty_def
  by (cases a; simp only: write_ty.simps ty_ok.simps; rule tagged;
    auto intro!: pickle_intros)

lemma lvar_rt [pickle_intros]: "lvar_ok v \<Longrightarrow> emits (lvar_writer v) read_lvar v"
  unfolding lvar_writer_def emits_rt lvar_ok_def by (rule lvar_p.roundtrip)

lemma param_rt [pickle_intros]: "param_ok p \<Longrightarrow> emits (write_param P p) read_param p"
  unfolding write_param_def read_param_def param_ok_def
  by (cases p) (auto intro!: pickle_intros)

lemma c_type_rt [pickle_intros]: "c_type_ok t \<Longrightarrow> emits (write_c_type P t) read_c_type t"
proof (induction t)
  case (C_STRUCT ts)
  then show ?case
    by (subst read_c_type_eq, unfold read_c_type_body_def write_c_type.simps, intro tagged)
      (auto intro!: pickle_intros)
next
  case (C_UNION ts)
  then show ?case
    by (subst read_c_type_eq, unfold read_c_type_body_def write_c_type.simps, intro tagged)
      (auto intro!: pickle_intros)
qed (subst read_c_type_eq, unfold read_c_type_body_def write_c_type.simps, intro tagged,
  auto intro!: pickle_intros)+

lemma c_proto_rt [pickle_intros]: "c_proto_ok p \<Longrightarrow> emits (write_c_proto P p) read_c_proto p"
  unfolding write_c_proto_def read_c_proto_def c_proto_ok_def read_calling_convention_def
    read_c_type_seq_def
  by (cases p) (auto intro!: pickle_intros)

lemma exp_rt [pickle_intros]: "exp_ok e \<Longrightarrow> emits (write_exp P e) read_exp e"
  by (induction e;
    subst read_exp_eq, unfold read_exp_body_def write_exp.simps, rule tagged,
    auto intro!: pickle_intros)

lemma exp_seq_rt [pickle_intros]:
  "seq_ok exp_ok es \<Longrightarrow> emits (writeSeq P (write_exp P) es) read_exp_seq es"
  "seq_ok ty_ok ts \<Longrightarrow> emits (writeSeq P (write_ty P) ts) read_ty_seq ts"
  "seq_ok param_ok ps \<Longrightarrow> emits (writeSeq P (write_param P) ps) read_param_seq ps"
  "seq_ok lvar_ok vs \<Longrightarrow> emits (writeSeq P lvar_writer vs) read_lvar_seq vs"
  "int_ok i \<Longrightarrow> emits (writeInt P i) read_probability i"
  unfolding read_exp_seq_def read_ty_seq_def read_param_seq_def read_lvar_seq_eq read_probability_def
  by (auto intro!: pickle_intros)

lemma stm_rt [pickle_intros]: "stm_ok s \<Longrightarrow> emits (write_stm P s) read_stm s"
  by (induction s;
    subst read_stm_eq, unfold read_stm_body_def write_stm.simps, rule tagged,
    auto intro!: pickle_intros)

lemma frag_rt [pickle_intros]: "frag_ok f \<Longrightarrow> emits (write_frag P f) read_frag f"
  unfolding write_frag_def read_frag_def frag_ok_def
  by (cases f) (auto intro!: pickle_intros)

lemma attrs_rt [pickle_intros]: "attrs_ok a \<Longrightarrow> emits (write_attrs P a) read_attrs a"
  unfolding write_attrs_def read_attrs_def attrs_ok_def
  by (cases a) (auto intro!: pickle_intros)

lemma cluster_rt [pickle_intros]: "cluster_ok c \<Longrightarrow> emits (write_cluster P c) read_cluster c"
  unfolding write_cluster_def read_cluster_def cluster_ok_def read_frag_seq_def
  by (cases c) (auto intro!: pickle_intros)

lemma comp_unit_rt: "comp_unit_ok u \<Longrightarrow> emits (write_comp_unit P u) read_comp_unit u"
  unfolding write_comp_unit_def read_comp_unit_def comp_unit_ok_def read_cluster_seq_def
  by (cases u) (auto intro!: pickle_intros)

end

section \<open>The writers of this code\<close>

text \<open>\<open>integer::write\<close> writes nothing, so the integers are written in the format that
  \<open>read_integer\<close> reads.\<close>

definition cpp_pickle :: asdl_pickle where
  "cpp_pickle =
     \<lparr>writeTag8 = (\<lambda>t os. write_tag8 os t), writeInt = (\<lambda>i os. write_int os i),
      writeUInt = (\<lambda>u os. write_uint os u), writeBool = (\<lambda>b os. write_bool os b),
      writeString = (\<lambda>s os. write_string os s),
      writeInteger = (\<lambda>z os. Inr (put_bytes os (int_pickle z)))\<rparr>"

lemma emits_int_pickle:
  assumes "integer_ok i"
  shows "emits (\<lambda>os. Inr (put_bytes os (int_pickle (int_val i)))) read_integer i"
  unfolding emits_def
proof (intro exI [of _ "int_pickle (int_val i)"] conjI allI)
  fix nm r
  obtain j where j: "read_integer (stream nm (int_pickle (int_val i) @ r)) = Inr (j, stream nm r)"
    "int_val j = int_val i" "canonical j" "i_sign j = (int_val i < 0)"
    using read_int_pickle assms unfolding integer_ok_def by blast
  moreover have "j = i"
    using assms j by (intro integer_eqI) (auto simp: integer_ok_def)
  ultimately show "read_integer (stream nm (int_pickle (int_val i) @ r)) = Inr (i, stream nm r)"
    by simp
qed (simp add: put_bytes_emit)

interpretation cpp_fp: file_pickle cpp_pickle
  by unfold_locales
    (auto simp: cpp_pickle_def emits_rt int_ok_def len_ok_def
      intro: tag8_p.roundtrip int_p.roundtrip uint_p.roundtrip bool_p.roundtrip string_p.roundtrip
        emits_int_pickle)

end
