(* ===== verification/Pickle_Properties.thy ===== *)
theory Pickle_Properties
  imports Cfg_Roundtrip
begin

text \<open>
  The properties of the pickle side of the program: the round trip of whole compilation
  units, the totality of the readers, the base picklers at the edges of their ranges, and the
  multiprecision integers.
\<close>

section \<open>Compilation units\<close>

text \<open>C1: What the SML pickler writes for a compilation unit, the C++ reader reads back as the same
  compilation unit, and it stops right behind it, whatever follows in the stream.  The unit is one
  that the format can carry (\<open>comp_unit_ok\<close>): 30-bit integers and lengths, variables below
  \<open>2\<^sup>3\<^sup>1\<close>, multiprecision integers without leading zeros and of at most about \<open>2\<^sup>3\<^sup>1\<close> bits.\<close>

theorem comp_unit_roundtrip:
  assumes "file_pickle P" "comp_unit_ok u"
  shows "\<exists>p. (\<forall>os. write_comp_unit P u os = Inr (emit os p)) \<and>
    (\<forall>nm bs. read_comp_unit (stream nm (p @ bs)) = Inr (u, stream nm bs))"
  using file_pickle.comp_unit_rt [OF assms] by (simp only: emits_def)

definition sample_unit :: comp_unit where
  "sample_unit =
     \<lparr>srcFile = [102, 111, 111],
      entry =
        \<lparr>c_attrs = \<lparr>alignHP = 8, needsBasePtr = False, hasTrapArith = True, hasRCC = False\<rparr>,
         c_frags =
           [\<lparr>f_kind = STD_FUN, f_lab = 17, f_params = [\<lparr>p_name = 40, p_ty = NUMt 64\<rparr>],
             f_body =
               BRANCH None (CMP LT True 64) [VAR 40, NUM \<lparr>i_sign = True, i_digits = [5]\<rparr> 64] 500
                 (SWITCH None (VAR 40) [GOTO None 18 [PURE (PURE_ARITH ADD 64) [VAR 40, VAR 40]]])
                 (APPLY None (LABEL 17) [SELECT 2 (VAR 40)] [PTRt]),
             f_phiNodes = []\<rparr>],
         c_fn = None\<rparr>,
      fns = []\<rparr>"

lemma comp_unit_roundtrip_witness:
  "\<exists>p. (\<forall>os. write_comp_unit cpp_pickle sample_unit os = Inr (emit os p)) \<and>
    (\<forall>nm bs. read_comp_unit (stream nm (p @ bs)) = Inr (sample_unit, stream nm bs))"
proof (rule comp_unit_roundtrip)
  show "file_pickle cpp_pickle" by (rule cpp_fp.file_pickle_axioms)
  show "comp_unit_ok sample_unit"
    by (simp add: sample_unit_def comp_unit_ok_def len_ok_def cluster_ok_def attrs_ok_def int_ok_def
      seq_ok_def frag_ok_def frag_kind_ok_def lvar_ok_def param_ok_def cmpop_ok_def integer_ok_def
      canonical_def int_val_def pureop_ok_def)
qed

text \<open>C19: On every input, however corrupt, the reader of compilation units ends: either with one of the
  reports of the program (or in the signed overflow of an integer of about \<open>2\<^sup>3\<^sup>1\<close> bits) or with a
  unit, having consumed input.\<close>

theorem comp_unit_reader_total:
  "case read_comp_unit s of Inl e \<Rightarrow> e \<noteq> OutOfFuel | Inr (u, s') \<Rightarrow> left s' < left s"
  using comp_unit_r.never_out_of_fuel [of s] comp_unit_r.shrinks
  by (auto simp: shrinking_def split: sum.splits)

text \<open>The fuelled readers of statements, expressions and C types satisfy the recursion equations of
  the code, without any fuel.\<close>

theorem reader_recursion:
  "read_stm = read_stm_body read_stm \<and> read_exp = read_exp_body read_exp \<and>
   read_c_type = read_c_type_body read_c_type"
  by (intro conjI read_stm_eq read_exp_eq read_c_type_eq)

section \<open>Base picklers\<close>

text \<open>C33: A 30-bit integer is written in at most four bytes and read back; any other integer stops the
  writer.\<close>

theorem int_range:
  "if - (2 ^ 29) \<le> i \<and> i < 2 ^ 29 then rt write_int read_int i
   else (\<forall>os. write_int os i = Inl AssertFailure)"
  using int_p.roundtrip [of i] by (auto simp: write_int_def)

text \<open>C34: An unsigned integer below \<open>2\<^sup>3\<^sup>0\<close> is written and read back; any other stops the writer.\<close>

theorem uint_range:
  "if unat ui < 2 ^ 30 then rt write_uint read_uint ui
   else (\<forall>os. write_uint os ui = Inl AssertFailure)"
  using uint_p.roundtrip [of ui] by (auto simp: write_uint_def word_le_iff)

text \<open>Sequences of integers and options of integers come back unchanged from a memory stream.\<close>

theorem int_seq_roundtrip:
  assumes "list_all (\<lambda>i. - (2 ^ 29) \<le> i \<and> i < 2 ^ 29) xs" "length xs < 2 ^ 30"
  shows "rt (write_seq write_int) read_int_seq xs"
  using int_p.seq_roundtrip [of xs] assms by (simp add: read_int_seq_def read_seq_def)

lemma int_seq_roundtrip_witness: "rt (write_seq write_int) read_int_seq [- 536870912, 7, 536870911]"
  by (rule int_seq_roundtrip) simp_all

text \<open>The head of a string is its length.\<close>

lemma string_head:
  assumes "length s < 2 ^ 30"
  obtains p where "\<And>os. write_string os s = Inr (emit os (p @ s))"
    "\<And>nm bs. read_uint (stream nm (p @ bs)) = Inr (word_of_nat (length s), stream nm bs)"
    "length s < 64 \<Longrightarrow> p = [word_of_nat (length s)]"
proof -
  have n: "unat (word_of_nat (length s) :: u32) = length s"
    by (rule unat_word_of_nat) (use assms in simp)
  have "rt write_uint read_uint (word_of_nat (length s))"
    using assms by (intro uint_p.roundtrip) (simp add: word_le_nat_alt n)
  then obtain p where p: "\<And>os. write_uint os (word_of_nat (length s)) = Inr (emit os p)"
    "\<And>nm bs. read_uint (stream nm (p @ bs)) = Inr (word_of_nat (length s), stream nm bs)"
    unfolding rt_def by blast
  have "p = [word_of_nat (length s)]" if "length s < 64"
  proof -
    have "word_of_nat (length s) \<le> (0x3f :: u32)" using that by (simp add: word_le_nat_alt n)
    moreover have "ucast (word_of_nat (length s) :: u32) = (word_of_nat (length s) :: u8)"
      using that by (simp add: word_unat_eq_iff unat_ucast8 n unat_word_of_nat)
    ultimately show ?thesis
      using p(1) [of memory_outstream] by (simp add: write_uint_def putb_def emit_def memory_outstream_def)
  qed
  with p show thesis by (intro that [of p]) (simp_all add: write_string_def put_bytes_emit)
qed

text \<open>C38: A string of less than \<open>2\<^sup>3\<^sup>0\<close> characters comes back unchanged; if it is not empty and the last
  byte of its pickle is missing, the reader still succeeds and puts the character 255 in its place.\<close>

theorem string_roundtrip_and_truncation:
  assumes "length s < 2 ^ 30"
  shows "rt write_string read_string s \<and>
    (s = [] \<or>
      (\<exists>os. write_string memory_outstream s = Inr os \<and>
        (\<exists>is'. read_string (memory_instream (butlast (get_pickle os))) = Inr (butlast s @ [255], is'))))"
proof (intro conjI)
  show "rt write_string read_string s" by (rule string_p.roundtrip [OF assms])
  show "s = [] \<or> (\<exists>os. write_string memory_outstream s = Inr os \<and>
      (\<exists>is'. read_string (memory_instream (butlast (get_pickle os))) = Inr (butlast s @ [255], is')))"
  proof (cases s rule: rev_cases)
    case (snoc t c)
    have n: "unat (1 + word_of_nat (length t) :: u32) = Suc (length t)"
      using unat_word_of_nat [of "Suc (length t)", where 'a = 32] assms snoc by simp
    obtain p where p: "\<And>os. write_string os s = Inr (emit os (p @ s))"
      "\<And>nm bs. read_uint (stream nm (p @ bs)) = Inr (word_of_nat (length s), stream nm bs)"
      by (rule string_head [OF assms]) blast
    have tail: "read_n (Suc (length t)) getc (stream nm t) =
        Inr (t @ [255], (stream nm [])\<lparr>is_eof := True, is_fail := True\<rparr>)" for nm
      by (induction t) (simp_all add: run_simps rbind_def getc_def istream_get_def rreturn_def stream_def good_def)
    have "butlast (p @ s) = p @ t" by (simp add: snoc butlast_append)
    then show ?thesis
      using tail by (simp add: p [unfolded snoc] get_pickle_emit memory_instream_def read_string_def rbind_def
          n snoc del: read_n.simps)
  qed simp
qed

lemma string_roundtrip_and_truncation_witness:
  "rt write_string read_string [104, 105] \<and>
    (\<exists>os. write_string memory_outstream [104, 105] = Inr os \<and>
      (\<exists>is'. read_string (memory_instream (butlast (get_pickle os))) = Inr ([104] @ [255], is')))"
  using string_roundtrip_and_truncation [of "[104, 105]"] by simp

text \<open>What is read from a single byte is not the string of this byte: a small byte is a length, and
  after any other the reader runs past the end.\<close>

lemma read_string_byte: "read_string (stream nm [c]) = Inr (v, is') \<Longrightarrow> v \<noteq> [c]"
proof
  assume r: "read_string (stream nm [c]) = Inr (v, is')" and v: "v = [c]"
  then obtain len s1 where len: "read_uint (stream nm [c]) = Inr (len, s1)" "read_n (unat len) getc s1 = Inr ([c], is')"
    by (auto simp: read_string_def rbind_def split: sum.splits)
  have one: "unat len = 1"
  proof (cases "unat len")
    case (Suc k)
    with len(2) show ?thesis by (cases k) (auto simp: rbind_def rreturn_def split: sum.splits)
  qed (use len(2) in \<open>simp add: rreturn_def\<close>)
  then have get: "getc s1 = Inr (c, is')"
    using len(2) by (auto simp: rbind_def rreturn_def split: sum.splits)
  show False
  proof (cases "unat c < 64")
    case True
    then have "read_uint (stream nm [c]) = Inr (ucast c, stream nm [])"
      using read_uint_bytes [of c "[]" "unat c" "ucast c" nm "[]"] by (simp add: unat_ucast_up)
    with len(1) have "s1 = stream nm []" "len = ucast c" by simp_all
    moreover have m: "(- 1 :: u8) = 255" by simp
    have "c \<noteq> - 1" unfolding m using True by auto
    ultimately show False using get one
      by (simp add: getc_def good_def stream_def istream_get_def unat_ucast_up)
  next
    case False
    have "unat (drop_bit 6 c) = unat c div 2 ^ 6" by (simp only: unat_drop_bit)
    then have "unat (drop_bit 6 c) \<noteq> 0" using False by simp
    then obtain k where "unat (drop_bit 6 c) = Suc k" by (cases "unat (drop_bit 6 c)") simp_all
    then have "\<not> good s1"
      using len(1) by (cases k)
        (auto simp: read_uint_def rbind_def getb_def good_def stream_def istream_get_def rreturn_def)
    with get show False by (simp add: getc_def)
  qed
qed

text \<open>C39: The option writer for strings leaves out the tag that the option reader expects, so that no
  string comes back.  The pickle of \<open>Some s\<close> is rejected for every \<open>s\<close> of at least 2 characters, with
  its first byte reported as the tag; the empty string comes back as \<open>None\<close>; and for a string of one
  character, which is taken for a length, the result is an error or another string.\<close>

theorem string_option_mismatch:
  assumes "length s < 2 ^ 30"
  shows "\<exists>p. write_string_option memory_outstream (Some s) = Inr (emit memory_outstream p) \<and>
    (case read_string_option (memory_instream p) of
       Inl e \<Rightarrow> s \<noteq> [] \<and> (2 \<le> length s \<longrightarrow> e = InvalidTag (ucast (hd p)) ''string?'' ''<memory>'')
     | Inr (v, is') \<Rightarrow> length s < 2 \<and> v \<noteq> Some s \<and> (s = [] \<longrightarrow> v = None))"
proof -
  obtain p where p: "\<And>os. write_string os s = Inr (emit os (p @ s))"
    "\<And>nm bs. read_uint (stream nm (p @ bs)) = Inr (word_of_nat (length s), stream nm bs)"
    "length s < 64 \<Longrightarrow> p = [word_of_nat (length s)]"
    by (rule string_head [OF assms]) blast
  have w: "write_string_option memory_outstream (Some s) = Inr (emit memory_outstream (p @ s))"
    by (simp add: write_string_option_def p(1))
  have "p \<noteq> []"
  proof
    assume "p = []"
    then have "read_uint (stream [] []) = Inr (word_of_nat (length s), stream [] [])"
      using p(2) [of "[]" "[]"] by simp
    then show False using shrinking_read_uint by (fastforce simp: shrinking_def)
  qed
  then obtain b q where bq: "p = b # q" by (cases p) auto
  have big: "2 \<le> length s" if "b \<noteq> 0" "b \<noteq> 1 \<or> q \<noteq> []"
  proof (rule ccontr)
    assume "\<not> 2 \<le> length s"
    then have "length s = 0 \<or> length s = 1" by linarith
    with p(3) bq that show False by auto
  qed
  have n: "unat (word_of_nat (length s) :: u32) = length s"
    by (rule unat_word_of_nat) (use assms in simp)
  have len: "length s = unat b" "q = []" if "unat b < 64"
  proof -
    have "word_of_nat (length s) = (ucast b :: u32)" "q = []"
      using p(2) [of "[]" "[]"] read_uint_bytes [of b "[]" "unat b" "ucast b" "[]" q] that
      by (simp_all add: bq unat_ucast_up stream_def)
    then show "length s = unat b" "q = []" using n by (simp_all add: unat_ucast_up)
  qed
  have u: "ucast b = (0 :: u32) \<longleftrightarrow> b = 0" "ucast b = (1 :: u32) \<longleftrightarrow> b = 1"
    by (simp_all add: word_unat_eq_iff unat_ucast_up)
  have run: "read_string_option (memory_instream (p @ s)) =
      (if b = 0 then Inr (None, stream ''<memory>'' (q @ s))
       else if b = 1 then rbind read_string (\<lambda>x. rreturn (Some x)) (stream ''<memory>'' (q @ s))
       else Inl (InvalidTag (ucast b) ''string?'' ''<memory>''))"
    by (simp add: bq u memory_instream_def read_string_option_def read_option_as_def read_tag8_Cons
        rbind_def rreturn_def rinvalid_def invalidTag_def)
  consider "b = 0" "s = []" | c where "b = 1" "q = []" "s = [c]" | "b \<noteq> 0" "b \<noteq> 1" "2 \<le> length s"
  proof -
    have "s = []" if "b = 0" using len that by simp
    moreover have "q = [] \<and> (\<exists>c. s = [c])" if "b = 1" using len that by (simp add: length_Suc_conv)
    ultimately show thesis using that big by blast
  qed
  then show ?thesis
  proof cases
    case 1
    then show ?thesis unfolding w using run by auto
  next
    case 2
    have "v \<noteq> [c]" if "read_string (stream ''<memory>'' [c]) = Inr (v, is')" for v is'
      using read_string_byte [OF that] .
    then show ?thesis unfolding w using run 2
      by (auto simp: rbind_def rreturn_def split: sum.splits)
  next
    case 3
    then show ?thesis unfolding w using run by (intro exI [of _ "p @ s"]) (auto simp: bq)
  qed
qed

lemma string_option_mismatch_witness:
  "\<exists>p. write_string_option memory_outstream (Some [102, 111, 111]) = Inr (emit memory_outstream p) \<and>
    (case read_string_option (memory_instream p) of
       Inl e \<Rightarrow> e = InvalidTag (ucast (hd p)) ''string?'' ''<memory>''
     | Inr (v, is') \<Rightarrow> False)"
  using string_option_mismatch [of "[102, 111, 111]"] by (auto split: sum.splits)

section \<open>Multiprecision integers\<close>

text \<open>C20: The reader of integers.  An integer whose pickle has at most \<open>2\<^sup>3\<^sup>1 - 32\<close> bits, which is
  about 300 million bytes, is rebuilt from it: sign and 32-bit digits, most significant first and
  without a leading zero.  The number of bits is counted in an \<open>int\<close>: from \<open>2\<^sup>3\<^sup>1\<close> bits up to
  \<open>2\<^sup>3\<^sup>2\<close> the count is negative, and the integer is read as a zero, without any digits.\<close>

theorem integer_reader_correct:
  "(pickle_bits z + 31 < 2 ^ 31 \<longrightarrow>
     (\<exists>i. read_integer (stream nm (int_pickle z @ r)) = Inr (i, stream nm r) \<and> int_val i = z \<and> canonical i)) \<and>
   (2 ^ 31 \<le> pickle_bits z \<and> pickle_bits z < 2 ^ 32 \<longrightarrow>
     read_integer (stream nm (int_pickle z @ r)) = Inr (\<lparr>i_sign = z < 0, i_digits = []\<rparr>, stream nm r))"
  using read_int_pickle [of z nm r] read_int_pickle_wraps [of z nm r] by (auto simp: int_fits_def)

lemma integer_reader_correct_witness:
  "pickle_bits (- 1000000007) + 31 < 2 ^ 31 \<and>
   (\<exists>i. read_integer (stream ''f'' (int_pickle (- 1000000007) @ [7])) = Inr (i, stream ''f'' [7]) \<and>
     int_val i = - 1000000007 \<and> canonical i)"
proof -
  have "int_fits (- 1000000007)" by simp
  then show ?thesis
    using integer_reader_correct [of "- 1000000007" "''f''" "[7]"] by (simp only: int_fits_def)
qed

text \<open>C36: Converting to a 64-bit signed integer succeeds exactly on the numbers that fit and gives
  their two's complement representation, with one exception: on the least 64-bit integer, the
  negation of the code overflows.\<close>

theorem toInt64_correct:
  assumes "canonical i"
  shows "toInt64 i =
    (if int_val i = - (2 ^ 63) then Inl SignedOverflow
     else if - (2 ^ 63) < int_val i \<and> int_val i < 2 ^ 63 then Inr (Some (word_of_int (int_val i)))
     else Inr None)"
  using assms by (rule toInt64_exact)

lemma toInt64_correct_witness:
  "toInt64 \<lparr>i_sign = True, i_digits = [0x7FFFFFFF, 0xFFFFFFFF]\<rparr> = Inr (Some 0x8000000000000001) \<and>
   toInt64 \<lparr>i_sign = True, i_digits = [0x80000000, 0]\<rparr> = Inl SignedOverflow \<and>
   toInt64 \<lparr>i_sign = False, i_digits = [0x80000000, 0]\<rparr> = Inr None"
proof -
  let ?l = "\<lparr>i_sign = True, i_digits = [0x7FFFFFFF, 0xFFFFFFFF]\<rparr>"
  let ?m = "\<lparr>i_sign = True, i_digits = [0x80000000, 0]\<rparr>"
  let ?p = "\<lparr>i_sign = False, i_digits = [0x80000000, 0]\<rparr>"
  have "canonical ?l" "canonical ?m" "canonical ?p"
    "int_val ?l = - (2 ^ 63) + 1" "int_val ?m = - (2 ^ 63)" "int_val ?p = 2 ^ 63"
    by (simp_all add: canonical_def int_val_def)
  then show ?thesis using toInt64_correct [of ?l] toInt64_correct [of ?m] toInt64_correct [of ?p] by simp
qed

text \<open>C37: Converting to a 64-bit unsigned integer gives the magnitude when it fits, and ignores the
  sign.\<close>

theorem toUInt64_correct:
  assumes "canonical i"
  shows "toUInt64 i =
    (if \<bar>int_val i\<bar> < 2 ^ 64 then Some (word_of_int \<bar>int_val i\<bar>) else None)"
proof -
  have "\<bar>int_val i\<bar> = int (val32 (i_digits i))" by (simp add: int_val_def)
  then show ?thesis
    using toUInt64_exact [OF assms] by (simp add: nat_less_iff [symmetric] of_nat_less_iff [symmetric]
      del: of_nat_less_iff)
qed

lemma toUInt64_correct_witness:
  "toUInt64 \<lparr>i_sign = True, i_digits = [1, 2]\<rparr> = Some 0x100000002"
proof -
  let ?i = "\<lparr>i_sign = True, i_digits = [1, 2]\<rparr>"
  have "canonical ?i" "int_val ?i = - 0x100000002" by (simp_all add: canonical_def int_val_def)
  then show ?thesis using toUInt64_correct [of ?i] by simp
qed

text \<open>C40: The two comparison operators of multiprecision integers decide equality of the
  representations.\<close>

theorem integer_comparisons:
  "(integer_eq a b \<longleftrightarrow> a = b) \<and> (integer_neq a b \<longleftrightarrow> \<not> integer_eq a b)"
  by (simp add: integer_eq_iff integer_neq_iff)

section \<open>Variables\<close>

text \<open>C35: The reader of variables gives back an identifier of 61 bits narrowed to 32 bits: below
  \<open>2\<^sup>3\<^sup>1\<close> it is unchanged, above it comes back as another number.\<close>

theorem lvar_narrowing:
  assumes "0 \<le> z" "z < 2 ^ 61"
  shows "\<exists>p. (\<forall>os. write_lvar os z = Inr (emit os p)) \<and>
    (\<forall>nm bs. read_lvar (stream nm (p @ bs)) = Inr (if z < 2 ^ 31 then z else signed_take_bit 31 z, stream nm bs))"
proof -
  have "z < 2 ^ 31 \<Longrightarrow> signed_take_bit 31 z = z"
    using assms(1) by (intro signed_take_bit_int_eq_self) simp_all
  with read_write_lvar [OF assms] show ?thesis by auto
qed

lemma lvar_narrowing_witness:
  "\<exists>p. (\<forall>os. write_lvar os 2147483653 = Inr (emit os p)) \<and>
    (\<forall>nm bs. read_lvar (stream nm (p @ bs)) = Inr (- 2147483643, stream nm bs))"
proof -
  have "signed_take_bit 31 2147483653 = (- 2147483643 :: int)" by (simp add: signed_take_bit_int_eq_self_iff signed_take_bit_eq_take_bit_shift take_bit_eq_mod)
  then show ?thesis using lvar_narrowing [of 2147483653] by simp
qed

end
