(* ===== verification/Object_File.thy ===== *)
theory Object_File
  imports Prelude
begin

text \<open>
  \<open>lib-codegen/object-file.cpp\<close> and \<open>lib-codegen/objfile-stream.cpp\<close>: the memory manager that
  lays the sections of an object file out in one chunk of memory and hands out pieces of them to
  the linker, and the stream that collects the bytes of the object file.  Addresses and sizes are
  64-bit words; the address that \<open>new\<close> returns is an argument.  Failed assertions are values of
  \<open>mem_error\<close> and \<open>stream_error\<close>.
\<close>

section \<open>Alignment\<close>

definition alignBy :: "u64 \<Rightarrow> u64 \<Rightarrow> u64" where
  "alignBy n align = (n + (align - 1)) AND NOT (align - 1)"

section \<open>Sections\<close>

datatype mem_error =
    NoSectionMemory       \<comment> \<open>"no memory allocated for section"\<close>
  | InsufficientSpace     \<comment> \<open>"insufficient space for allocation"\<close>
  | AlreadyAllocated      \<comment> \<open>"memory already allocated"\<close>
  | TooSmall              \<comment> \<open>"too small"\<close>
  | NotReserved           \<comment> \<open>"memory has not been reserved"\<close>

record mem_section =
  sec_data :: "u64 option"
  sec_szb :: u64
  sec_paddedSzb :: u64

definition section_new :: mem_section where
  "section_new = \<lparr>sec_data = None, sec_szb = 0, sec_paddedSzb = 0\<rparr>"

definition setSize :: "mem_section \<Rightarrow> u64 \<Rightarrow> u64 \<Rightarrow> mem_section" where
  "setSize s szb align = s\<lparr>sec_paddedSzb := alignBy szb align\<rparr>"

definition sec_top :: "mem_section \<Rightarrow> u64" where
  "sec_top s = (case sec_data s of Some d \<Rightarrow> d | None \<Rightarrow> 0) + sec_paddedSzb s"

definition sec_alloc :: "mem_section \<Rightarrow> u64 \<Rightarrow> u64 \<Rightarrow> mem_error + u64 \<times> mem_section" where
  "sec_alloc s nb align =
     (case sec_data s of
        None \<Rightarrow> Inl NoSectionMemory
      | Some d \<Rightarrow>
          if \<not> alignBy (sec_szb s) align + alignBy nb align \<le> sec_paddedSzb s then Inl InsufficientSpace
          else
            (let ptr = d + alignBy (sec_szb s) align
             in Inr (ptr, s\<lparr>sec_szb := (ptr - d) + alignBy nb align\<rparr>)))"

section \<open>The memory manager\<close>

record mem_manager =
  mm_mem :: "u64 option"
  mm_base :: "u64 option"
  mm_baseAlign :: u64
  mm_code :: mem_section
  mm_roData :: mem_section
  mm_rwData :: mem_section

definition MemManager_new :: "u64 \<Rightarrow> mem_manager" where
  "MemManager_new align =
     \<lparr>mm_mem = None, mm_base = None, mm_baseAlign = align,
      mm_code = section_new, mm_roData = section_new, mm_rwData = section_new\<rparr>"

definition mm_size :: "mem_manager \<Rightarrow> u64" where
  "mm_size mm =
     sec_paddedSzb (mm_code mm) + sec_paddedSzb (mm_roData mm) + sec_paddedSzb (mm_rwData mm)"

definition maxAlign :: "u64 \<Rightarrow> u64 \<Rightarrow> u64 \<Rightarrow> u64" where
  "maxAlign codeAlign roDataAlign rwDataAlign =
     (let m = 8;
          m = (if codeAlign > m then codeAlign else m);
          m = (if roDataAlign > m then roDataAlign else m)
      in if rwDataAlign > m then rwDataAlign else m)"

text \<open>\<open>newMem\<close> is the address that \<open>new uint8_t [totalSize]\<close> returns.\<close>

definition reserveAllocationSpace ::
  "mem_manager \<Rightarrow> u64 \<Rightarrow> u64 \<Rightarrow> u64 \<Rightarrow> u64 \<Rightarrow> u64 \<Rightarrow> u64 \<Rightarrow> u64 \<Rightarrow> mem_error + mem_manager" where
  "reserveAllocationSpace mm codeSzb codeAlign roDataSzb roDataAlign rwDataSzb rwDataAlign newMem =
     (if mm_mem mm \<noteq> None then Inl AlreadyAllocated
      else
        let align = maxAlign codeAlign roDataAlign rwDataAlign;
            mm = mm\<lparr>mm_code := setSize (mm_code mm) codeSzb align,
                    mm_roData := setSize (mm_roData mm) roDataSzb align,
                    mm_rwData := setSize (mm_rwData mm) rwDataSzb align\<rparr>;
            totalSize = mm_size mm + mm_baseAlign mm - 1;
            base = alignBy newMem (mm_baseAlign mm)
        in if \<not> base + mm_size mm \<le> newMem + totalSize then Inl TooSmall
           else
             let code = (mm_code mm)\<lparr>sec_data := Some base\<rparr>;
                 roData = (mm_roData mm)\<lparr>sec_data := Some (sec_top code)\<rparr>;
                 rwData = (mm_rwData mm)\<lparr>sec_data := Some (sec_top roData)\<rparr>
             in Inr (mm\<lparr>mm_mem := Some newMem, mm_base := Some base,
                        mm_code := code, mm_roData := roData, mm_rwData := rwData\<rparr>))"

definition allocateCodeSection :: "mem_manager \<Rightarrow> u64 \<Rightarrow> u64 \<Rightarrow> mem_error + u64 \<times> mem_manager" where
  "allocateCodeSection mm szb align =
     (if mm_base mm = None then Inl NotReserved
      else case sec_alloc (mm_code mm) szb align of
        Inl e \<Rightarrow> Inl e
      | Inr (ptr, s) \<Rightarrow> Inr (ptr, mm\<lparr>mm_code := s\<rparr>))"

definition allocateDataSection :: "mem_manager \<Rightarrow> u64 \<Rightarrow> u64 \<Rightarrow> bool \<Rightarrow> mem_error + u64 \<times> mem_manager" where
  "allocateDataSection mm szb align readOnly =
     (if mm_base mm = None then Inl NotReserved
      else if readOnly then
        (case sec_alloc (mm_roData mm) szb align of
           Inl e \<Rightarrow> Inl e
         | Inr (ptr, s) \<Rightarrow> Inr (ptr, mm\<lparr>mm_roData := s\<rparr>))
      else
        (case sec_alloc (mm_rwData mm) szb align of
           Inl e \<Rightarrow> Inl e
         | Inr (ptr, s) \<Rightarrow> Inr (ptr, mm\<lparr>mm_rwData := s\<rparr>)))"

section \<open>The object-file stream\<close>

type_synonym objfile_stream = "u8 list"

definition write_impl :: "objfile_stream \<Rightarrow> u8 list \<Rightarrow> objfile_stream" where
  "write_impl s bytes = s @ bytes"

text \<open>The assertion that the stream is not extended computes \<open>offset + nBytes\<close> in 64 bits; when this sum
  wraps, it may hold although the write goes beyond the vector.\<close>

datatype stream_error = StreamExtended | OutOfBounds

definition pwrite_impl :: "objfile_stream \<Rightarrow> u8 list \<Rightarrow> u64 \<Rightarrow> stream_error + objfile_stream" where
  "pwrite_impl s bytes off =
     (if \<not> off + word_of_nat (length bytes) \<le> word_of_nat (length s) then Inl StreamExtended
      else if unat off + length bytes \<le> length s then
        Inr (take (unat off) s @ bytes @ drop (unat off + length bytes) s)
      else Inl OutOfBounds)"

definition current_pos :: "objfile_stream \<Rightarrow> nat" where
  "current_pos s = length s"

lemma pwrite_impl_nth:
  assumes "pwrite_impl s bytes off = Inr s'"
  shows "length s' = length s \<and>
    (\<forall>i < length s. s' ! i =
       (if unat off \<le> i \<and> i < unat off + length bytes then bytes ! (i - unat off) else s ! i))"
  using assms by (auto simp: pwrite_impl_def nth_append min_def split: if_splits)

text \<open>The assertion, as a comparison of numbers.\<close>

lemma pwrite_check:
  assumes "length s < 2 ^ 63" "length bytes < 2 ^ 63"
  shows "off + word_of_nat (length bytes) \<le> (word_of_nat (length s) :: u64) \<longleftrightarrow>
    (if unat off + length bytes < 2 ^ 64 then unat off + length bytes \<le> length s
     else unat off + length bytes - 2 ^ 64 \<le> length s)"
proof -
  have n: "unat (word_of_nat (length s) :: u64) = length s" "unat (word_of_nat (length bytes) :: u64) = length bytes"
    using assms by (simp_all add: unat_word_of_nat)
  have "unat off < 2 ^ LENGTH(64)" by (rule unsigned_less)
  then have off: "unat off < 2 ^ 64" by simp
  show ?thesis
  proof (cases "unat off + length bytes < 2 ^ 64")
    case True
    then show ?thesis by (simp add: word_le_nat_alt n unat_word_ariths(1))
  next
    case False
    have "(unat off + length bytes) mod 2 ^ 64 = (unat off + length bytes - 2 ^ 64) mod 2 ^ 64"
      using False by (simp add: le_mod_geq)
    also have "\<dots> = unat off + length bytes - 2 ^ 64" using off assms(2) by (intro mod_less) simp
    finally show ?thesis using False by (simp add: word_le_nat_alt n unat_word_ariths(1))
  qed
qed

section \<open>Alignment is rounding up\<close>

definition round_up :: "nat \<Rightarrow> nat \<Rightarrow> nat" where
  "round_up n a = (n + a - 1) div a * a"

lemma round_up_props:
  assumes "0 < a"
  shows "n \<le> round_up n a" "round_up n a < n + a" "a dvd round_up n a"
proof -
  have "(n + a - 1) div a * a + (n + a - 1) mod a = n + a - 1" by (rule div_mult_mod_eq)
  moreover have "(n + a - 1) mod a < a" using assms by simp
  ultimately show "n \<le> round_up n a" "round_up n a < n + a"
    unfolding round_up_def using assms by linarith+
  show "a dvd round_up n a" by (simp add: round_up_def)
qed

lemma and_not_mask: "x AND NOT (mask k) = push_bit k (drop_bit k x)" for x :: "'a::len word"
  by (rule bit_word_eqI) (auto simp: bit_simps)

lemma unat_alignBy:
  assumes "k < 64" "unat n + 2 ^ k \<le> 2 ^ 64"
  shows "unat (alignBy n (2 ^ k)) = round_up (unat n) (2 ^ k)"
proof -
  have m: "(2 ^ k :: u64) - 1 = mask k" by (rule mask_eq_exp_minus_1 [symmetric])
  have um: "unat (mask k :: u64) = 2 ^ k - 1"
    by (simp add: m [symmetric] unat_sub word_le_nat_alt unat_pow2 assms(1))
  have "unat (n + mask k) = unat n + unat (mask k :: u64)"
    using assms(2) by (subst unat_add_lem [symmetric]) (simp add: um)
  then have s: "unat (n + mask k) = unat n + 2 ^ k - 1" by (simp add: um)
  have "unat (push_bit k (drop_bit k (n + mask k))) =
      take_bit 64 (push_bit k (unat (drop_bit k (n + mask k))))"
    by (simp add: unsigned_push_bit_eq)
  also have "\<dots> = take_bit 64 ((unat n + 2 ^ k - 1) div 2 ^ k * 2 ^ k)"
    by (simp only: unat_drop_bit s push_bit_eq_mult)
  also have "\<dots> = (unat n + 2 ^ k - 1) div 2 ^ k * 2 ^ k"
  proof (rule take_bit_nat_eq_self)
    have "(unat n + 2 ^ k - 1) div 2 ^ k * 2 ^ k \<le> unat n + 2 ^ k - 1" by simp
    also have "\<dots> < 2 ^ 64" using assms(2) by (simp add: order_less_le_trans)
    finally show "(unat n + 2 ^ k - 1) div 2 ^ k * 2 ^ k < 2 ^ 64" .
  qed
  finally show ?thesis
    by (simp add: alignBy_def m and_not_mask round_up_def)
qed

section \<open>What the linker gets\<close>

text \<open>A request of the linker: the section, the size, the alignment.\<close>

datatype sec_kind = Code | ROData | RWData

record request =
  rq_kind :: sec_kind
  rq_szb :: u64
  rq_align :: u64

definition mm_alloc :: "mem_manager \<Rightarrow> request \<Rightarrow> mem_error + u64 \<times> mem_manager" where
  "mm_alloc mm rq =
     (case rq_kind rq of
        Code \<Rightarrow> allocateCodeSection mm (rq_szb rq) (rq_align rq)
      | ROData \<Rightarrow> allocateDataSection mm (rq_szb rq) (rq_align rq) True
      | RWData \<Rightarrow> allocateDataSection mm (rq_szb rq) (rq_align rq) False)"

primrec mm_allocs :: "mem_manager \<Rightarrow> request list \<Rightarrow> mem_error + u64 list \<times> mem_manager" where
  "mm_allocs mm [] = Inr ([], mm)"
| "mm_allocs mm (rq # rqs) =
     (case mm_alloc mm rq of
        Inl e \<Rightarrow> Inl e
      | Inr (p, mm) \<Rightarrow>
          (case mm_allocs mm rqs of
             Inl e \<Rightarrow> Inl e
           | Inr (ps, mm) \<Rightarrow> Inr (p # ps, mm)))"

definition mm_sec :: "mem_manager \<Rightarrow> sec_kind \<Rightarrow> mem_section" where
  "mm_sec mm kd = (case kd of Code \<Rightarrow> mm_code mm | ROData \<Rightarrow> mm_roData mm | RWData \<Rightarrow> mm_rwData mm)"

text \<open>The part of a section that is still free, as a range of addresses.\<close>

definition sec_lo :: "mem_section \<Rightarrow> nat" where
  "sec_lo s = unat (the (sec_data s)) + unat (sec_szb s)"

definition sec_hi :: "mem_section \<Rightarrow> nat" where
  "sec_hi s = unat (the (sec_data s)) + unat (sec_paddedSzb s)"

definition sec_ok :: "nat \<Rightarrow> mem_section \<Rightarrow> bool" where
  "sec_ok m s \<longleftrightarrow> sec_data s \<noteq> None \<and> 2 ^ m dvd unat (the (sec_data s)) \<and> m \<le> 12 \<and>
     unat (sec_szb s) \<le> unat (sec_paddedSzb s) \<and> unat (sec_paddedSzb s) \<le> 2 ^ 62 \<and> sec_hi s < 2 ^ 64"

definition request_ok :: "nat \<Rightarrow> request \<Rightarrow> bool" where
  "request_ok m rq \<longleftrightarrow> (\<exists>k \<le> m. rq_align rq = 2 ^ k) \<and> unat (rq_szb rq) < 2 ^ 62"

lemma sec_alloc_ok:
  assumes ok: "sec_ok m s" and al: "align = 2 ^ k" "k \<le> m" and nb: "unat nb < 2 ^ 62"
    and r: "sec_alloc s nb align = Inr (p, s')"
  shows "sec_ok m s'" "2 ^ k dvd unat p" "sec_lo s \<le> unat p" "unat p + unat nb \<le> sec_lo s'"
    "sec_hi s' = sec_hi s" "sec_data s' = sec_data s" "sec_paddedSzb s' = sec_paddedSzb s"
proof -
  obtain d where d: "sec_data s = Some d" using ok by (auto simp: sec_ok_def)
  have k: "k < 64" "2 ^ k \<le> (2 :: nat) ^ 12"
    using ok al(2) power_increasing [of k 12 "2 :: nat"] by (auto simp: sec_ok_def)
  have szb: "unat (sec_szb s) \<le> 2 ^ 62" using ok by (auto simp: sec_ok_def)
  have A: "unat (alignBy (sec_szb s) align) = round_up (unat (sec_szb s)) (2 ^ k)"
    unfolding al(1) by (rule unat_alignBy) (use k szb in simp_all)
  have B: "unat (alignBy nb align) = round_up (unat nb) (2 ^ k)"
    unfolding al(1) by (rule unat_alignBy) (use k nb in simp_all)
  note ra = round_up_props [of "2 ^ k" "unat (sec_szb s)"] and rb = round_up_props [of "2 ^ k" "unat nb"]
  have sum: "unat (alignBy (sec_szb s) align + alignBy nb align) =
      unat (alignBy (sec_szb s) align) + unat (alignBy nb align)"
    by (subst unat_add_lem [symmetric]) (use A B ra rb szb nb k(2) in simp)
  have le: "alignBy (sec_szb s) align + alignBy nb align \<le> sec_paddedSzb s"
    and p: "p = d + alignBy (sec_szb s) align"
    and s': "s' = s\<lparr>sec_szb := alignBy (sec_szb s) align + alignBy nb align\<rparr>"
    using r d by (auto simp: sec_alloc_def Let_def split: if_splits)
  from le have le': "unat (alignBy (sec_szb s) align) + unat (alignBy nb align) \<le> unat (sec_paddedSzb s)"
    by (simp add: word_le_nat_alt sum)
  have up: "unat p = unat d + unat (alignBy (sec_szb s) align)"
    unfolding p using le' ok d
    by (subst unat_add_lem [symmetric]) (simp add: sec_ok_def sec_hi_def)
  show "sec_hi s' = sec_hi s" "sec_data s' = sec_data s" "sec_paddedSzb s' = sec_paddedSzb s"
    by (simp_all add: s' sec_hi_def)
  then show "sec_ok m s'"
    using ok le' by (simp add: sec_ok_def s' sum)
  have "2 ^ k dvd unat d"
    using ok d al(2) by (auto simp: sec_ok_def intro: dvd_trans [OF le_imp_power_dvd])
  with ra(3) show "2 ^ k dvd unat p" by (simp add: up A)
  show "sec_lo s \<le> unat p" using ra(1) by (simp add: sec_lo_def d up A)
  show "unat p + unat nb \<le> sec_lo s'" using rb(1) by (simp add: sec_lo_def s' d sum up A B)
qed

definition mm_ok :: "nat \<Rightarrow> mem_manager \<Rightarrow> bool" where
  "mm_ok m mm \<longleftrightarrow> mm_base mm \<noteq> None \<and> (\<forall>kd. sec_ok m (mm_sec mm kd)) \<and>
     unat (the (mm_base mm)) \<le> unat (the (sec_data (mm_code mm))) \<and>
     sec_hi (mm_code mm) \<le> unat (the (sec_data (mm_roData mm))) \<and>
     sec_hi (mm_roData mm) \<le> unat (the (sec_data (mm_rwData mm))) \<and>
     sec_hi (mm_rwData mm) \<le> unat (the (mm_base mm)) + unat (mm_size mm)"

text \<open>One request: the block comes out of the free part of its section, and the free parts of
  the other sections stay as they are.\<close>

lemma mm_alloc_ok:
  assumes "mm_ok m mm" "request_ok m rq" "mm_alloc mm rq = Inr (p, mm')"
  shows "mm_ok m mm'" "unat (rq_align rq) dvd unat p"
    "sec_lo (mm_sec mm (rq_kind rq)) \<le> unat p"
    "unat p + unat (rq_szb rq) \<le> sec_lo (mm_sec mm' (rq_kind rq))"
    "\<And>kd. sec_lo (mm_sec mm kd) \<le> sec_lo (mm_sec mm' kd)"
    "\<And>kd. sec_hi (mm_sec mm' kd) = sec_hi (mm_sec mm kd)"
    "\<And>kd. sec_data (mm_sec mm' kd) = sec_data (mm_sec mm kd)"
    "mm_base mm' = mm_base mm" "mm_size mm' = mm_size mm"
proof -
  obtain k where k: "rq_align rq = 2 ^ k" "k \<le> m" and nb: "unat (rq_szb rq) < 2 ^ 62"
    using assms(2) by (auto simp: request_ok_def)
  have k64: "k < 64" using k(2) assms(1) by (auto simp: mm_ok_def sec_ok_def)
  obtain s' where s': "sec_alloc (mm_sec mm (rq_kind rq)) (rq_szb rq) (rq_align rq) = Inr (p, s')"
    and sec: "\<And>kd. mm_sec mm' kd = (if kd = rq_kind rq then s' else mm_sec mm kd)"
    and b: "mm_base mm' = mm_base mm"
    using assms(3)
    by (cases "rq_kind rq")
      (auto simp: mm_alloc_def mm_sec_def allocateCodeSection_def allocateDataSection_def
        split: if_splits sum.splits sec_kind.splits)
  have ok: "sec_ok m (mm_sec mm (rq_kind rq))" using assms(1) by (simp add: mm_ok_def)
  note a = sec_alloc_ok [OF ok k nb s']
  show hi: "\<And>kd. sec_hi (mm_sec mm' kd) = sec_hi (mm_sec mm kd)"
    and dat: "\<And>kd. sec_data (mm_sec mm' kd) = sec_data (mm_sec mm kd)"
    using a(5,6) by (simp_all add: sec)
  have pad: "\<And>kd. sec_paddedSzb (mm_sec mm' kd) = sec_paddedSzb (mm_sec mm kd)"
    using a(7) by (simp add: sec)
  show "mm_base mm' = mm_base mm" by (rule b)
  show sz: "mm_size mm' = mm_size mm"
    using pad [of Code] pad [of ROData] pad [of RWData] by (simp add: mm_size_def mm_sec_def)
  show "mm_ok m mm'"
    using assms(1) a(1) sec b sz hi [of Code] hi [of ROData] hi [of RWData] dat [of Code] dat [of ROData] dat [of RWData]
    by (auto simp: mm_ok_def mm_sec_def)
  show "unat (rq_align rq) dvd unat p" using a(2) by (simp add: k(1) unat_pow2 k64)
  show "sec_lo (mm_sec mm (rq_kind rq)) \<le> unat p" by (rule a(3))
  show "unat p + unat (rq_szb rq) \<le> sec_lo (mm_sec mm' (rq_kind rq))" using a(4) by (simp add: sec)
  show "\<And>kd. sec_lo (mm_sec mm kd) \<le> sec_lo (mm_sec mm' kd)" using a(3,4) by (simp add: sec)
qed

lemma sec_ranges: "sec_ok m s \<Longrightarrow> unat (the (sec_data s)) \<le> sec_lo s \<and> sec_lo s \<le> sec_hi s"
  by (auto simp: sec_ok_def sec_lo_def sec_hi_def)

lemma mm_allocs_ok:
  assumes "mm_ok m mm" "list_all (request_ok m) rqs" "mm_allocs mm rqs = Inr (ps, mm')"
  shows "length ps = length rqs \<and>
    (\<forall>i < length rqs.
       unat (rq_align (rqs ! i)) dvd unat (ps ! i) \<and>
       sec_lo (mm_sec mm (rq_kind (rqs ! i))) \<le> unat (ps ! i) \<and>
       unat (ps ! i) + unat (rq_szb (rqs ! i)) \<le> sec_hi (mm_sec mm (rq_kind (rqs ! i)))) \<and>
    (\<forall>j < length rqs. \<forall>i < j. rq_kind (rqs ! i) = rq_kind (rqs ! j) \<longrightarrow>
       unat (ps ! i) + unat (rq_szb (rqs ! i)) \<le> unat (ps ! j))"
  using assms
proof (induction rqs arbitrary: mm ps)
  case (Cons rq rqs)
  obtain p mm1 ps' where p: "mm_alloc mm rq = Inr (p, mm1)" "mm_allocs mm1 rqs = Inr (ps', mm')" "ps = p # ps'"
    using Cons.prems(3) by (auto split: sum.splits)
  have ok: "request_ok m rq" "list_all (request_ok m) rqs" using Cons.prems(2) by simp_all
  note a = mm_alloc_ok [OF Cons.prems(1) ok(1) p(1)]
  have hi: "sec_lo (mm_sec mm1 kd) \<le> sec_hi (mm_sec mm kd)" for kd
    using sec_ranges [of m "mm_sec mm1 kd"] a(1) a(6) [of kd] by (auto simp: mm_ok_def)
  have IH: "length ps' = length rqs"
    "\<And>i. i < length rqs \<Longrightarrow> unat (rq_align (rqs ! i)) dvd unat (ps' ! i) \<and>
       sec_lo (mm_sec mm1 (rq_kind (rqs ! i))) \<le> unat (ps' ! i) \<and>
       unat (ps' ! i) + unat (rq_szb (rqs ! i)) \<le> sec_hi (mm_sec mm (rq_kind (rqs ! i)))"
    "\<And>i j. j < length rqs \<Longrightarrow> i < j \<Longrightarrow> rq_kind (rqs ! i) = rq_kind (rqs ! j) \<Longrightarrow>
       unat (ps' ! i) + unat (rq_szb (rqs ! i)) \<le> unat (ps' ! j)"
    using Cons.IH [OF a(1) ok(2) p(2)] a(6) by simp_all
  have first: "i < length rqs \<Longrightarrow> rq_kind rq = rq_kind (rqs ! i) \<Longrightarrow>
      unat p + unat (rq_szb rq) \<le> unat (ps' ! i)" for i
    using a(4) IH(2) [of i] by simp
  show ?case
  proof (intro conjI allI impI)
    show "length ps = length (rq # rqs)" by (simp add: p(3) IH(1))
  next
    fix i assume i: "i < length (rq # rqs)"
    show "unat (rq_align ((rq # rqs) ! i)) dvd unat (ps ! i)"
      using a(2) IH(2) i by (cases i) (simp_all add: p(3))
    show "sec_lo (mm_sec mm (rq_kind ((rq # rqs) ! i))) \<le> unat (ps ! i)"
      using a(3) a(5) IH(2) i by (cases i) (auto simp: p(3) intro: order_trans)
    show "unat (ps ! i) + unat (rq_szb ((rq # rqs) ! i)) \<le> sec_hi (mm_sec mm (rq_kind ((rq # rqs) ! i)))"
      using a(4) hi IH(2) i by (cases i) (auto simp: p(3) intro: order_trans)
  next
    fix j i assume "j < length (rq # rqs)" "i < j" "rq_kind ((rq # rqs) ! i) = rq_kind ((rq # rqs) ! j)"
    then show "unat (ps ! i) + unat (rq_szb ((rq # rqs) ! i)) \<le> unat (ps ! j)"
      using first IH(3) by (cases j; cases i) (auto simp: p(3))
  qed
qed simp

lemma less_pow2: "k < 64 \<Longrightarrow> l < 64 \<Longrightarrow> (2 ^ k :: u64) < 2 ^ l \<longleftrightarrow> k < l"
  by (simp add: word_less_nat_alt unat_pow2)

lemma maxAlign_pow2:
  assumes "a \<le> 12" "b \<le> 12" "c \<le> 12"
  shows "maxAlign (2 ^ a) (2 ^ b) (2 ^ c) = 2 ^ max 3 (max a (max b c))"
proof -
  have e: "(8 :: u64) = 2 ^ 3" by simp
  have m: "(if (2 ^ k :: u64) < 2 ^ l then 2 ^ l else 2 ^ k) = (2 ^ max k l :: u64)" if "k \<le> 12" "l \<le> 12" for k l
    using that by (auto simp: less_pow2 max_def)
  have l: "3 \<le> (12 :: nat)" "max 3 a \<le> 12" "max (max 3 a) b \<le> 12" using assms by simp_all
  have "maxAlign (2 ^ a) (2 ^ b) (2 ^ c) = 2 ^ max (max (max 3 a) b) c"
    unfolding maxAlign_def Let_def e by (simp only: m assms l)
  then show ?thesis by (simp add: max.assoc)
qed

lemma reserve_ok:
  assumes r: "reserveAllocationSpace (MemManager_new 0x1000) csz (2 ^ a) rsz (2 ^ b) wsz (2 ^ c) newMem = Inr mm"
    and al: "a \<le> 12" "b \<le> 12" "c \<le> 12"
    and sz: "unat csz < 2 ^ 60" "unat rsz < 2 ^ 60" "unat wsz < 2 ^ 60" "unat newMem < 2 ^ 63"
  shows "mm_ok (max 3 (max a (max b c))) mm"
proof -
  define m where "m = max 3 (max a (max b c))"
  have m: "m \<le> 12" "m < 64" using al by (simp_all add: m_def)
  have p: "(2 :: nat) ^ m \<le> 2 ^ 12" using m(1) by (intro power_increasing) simp_all
  define C R Wd B where "C = alignBy csz (2 ^ m)" and "R = alignBy rsz (2 ^ m)"
    and "Wd = alignBy wsz (2 ^ m)" and "B = alignBy newMem (2 ^ 12)"
  have u: "unat C = round_up (unat csz) (2 ^ m)" "unat R = round_up (unat rsz) (2 ^ m)"
    "unat Wd = round_up (unat wsz) (2 ^ m)" "unat B = round_up (unat newMem) (2 ^ 12)"
    unfolding C_def R_def Wd_def B_def by (rule unat_alignBy; use sz p m in simp)+
  have d: "2 ^ m dvd unat C" "2 ^ m dvd unat R" "2 ^ m dvd unat B"
    unfolding u using round_up_props(3) [of "2 ^ m"] round_up_props(3) [of "2 ^ 12" "unat newMem"]
    by (auto intro: dvd_trans [OF le_imp_power_dvd [OF m(1)]])
  have s: "unat C < 2 ^ 60 + 2 ^ 12" "unat R < 2 ^ 60 + 2 ^ 12" "unat Wd < 2 ^ 60 + 2 ^ 12" "unat B < 2 ^ 63 + 2 ^ 12"
    unfolding u using round_up_props(2) [of "2 ^ m" "unat csz"] round_up_props(2) [of "2 ^ m" "unat rsz"]
      round_up_props(2) [of "2 ^ m" "unat wsz"] round_up_props(2) [of "2 ^ 12" "unat newMem"] sz p
    by (simp_all; linarith)+
  have plus: "unat (B + C) = unat B + unat C" "unat (B + C + R) = unat B + unat C + unat R"
    "unat (C + R + Wd) = unat C + unat R + unat Wd"
    using s by (simp_all add: unat_word_ariths)
  have mm: "mm_base mm = Some B"
    "mm_code mm = \<lparr>sec_data = Some B, sec_szb = 0, sec_paddedSzb = C\<rparr>"
    "mm_roData mm = \<lparr>sec_data = Some (B + C), sec_szb = 0, sec_paddedSzb = R\<rparr>"
    "mm_rwData mm = \<lparr>sec_data = Some (B + C + R), sec_szb = 0, sec_paddedSzb = Wd\<rparr>"
    using r unfolding reserveAllocationSpace_def Let_def maxAlign_pow2 [OF al] m_def [symmetric]
    by (auto simp: MemManager_new_def section_new_def setSize_def sec_top_def C_def R_def Wd_def B_def
      split: if_splits)
  have size: "unat (mm_size mm) = unat C + unat R + unat Wd" by (simp add: mm_size_def mm plus)
  have "sec_ok m (mm_sec mm kd)" for kd
    using d s m(1) by (cases kd) (simp_all add: mm_sec_def mm sec_ok_def sec_hi_def plus)
  then show ?thesis
    unfolding m_def [symmetric] by (simp add: mm_ok_def mm sec_hi_def plus size)
qed

lemma sec_in_mem:
  assumes "mm_ok m mm"
  shows "unat (the (mm_base mm)) \<le> sec_lo (mm_sec mm kd)"
    "sec_hi (mm_sec mm kd) \<le> unat (the (mm_base mm)) + unat (mm_size mm)"
proof -
  have r: "unat (the (sec_data (mm_sec mm k))) \<le> sec_lo (mm_sec mm k) \<and> sec_lo (mm_sec mm k) \<le> sec_hi (mm_sec mm k)" for k
    using assms sec_ranges [of m "mm_sec mm k"] by (simp add: mm_ok_def)
  show "unat (the (mm_base mm)) \<le> sec_lo (mm_sec mm kd)"
    "sec_hi (mm_sec mm kd) \<le> unat (the (mm_base mm)) + unat (mm_size mm)"
    using assms r [of Code] r [of ROData] r [of RWData] unfolding mm_ok_def
    by (cases kd; simp add: mm_sec_def)+
qed

lemma sec_disjoint:
  assumes "mm_ok m mm" "k1 \<noteq> k2"
  shows "sec_hi (mm_sec mm k1) \<le> sec_lo (mm_sec mm k2) \<or> sec_hi (mm_sec mm k2) \<le> sec_lo (mm_sec mm k1)"
proof -
  have r: "unat (the (sec_data (mm_sec mm k))) \<le> sec_lo (mm_sec mm k) \<and> sec_lo (mm_sec mm k) \<le> sec_hi (mm_sec mm k)" for k
    using assms sec_ranges [of m "mm_sec mm k"] by (simp add: mm_ok_def)
  show ?thesis
    using assms r [of Code] r [of ROData] r [of RWData] unfolding mm_ok_def
    by (cases k1; cases k2; simp add: mm_sec_def)
qed

text \<open>Two blocks do not overlap.\<close>

definition blocks_disjoint :: "u64 \<Rightarrow> u64 \<Rightarrow> u64 \<Rightarrow> u64 \<Rightarrow> bool" where
  "blocks_disjoint p n q k \<longleftrightarrow> unat p + unat n \<le> unat q \<or> unat q + unat k \<le> unat p"

lemma mm_allocs_safe:
  assumes "mm_ok m mm" "list_all (request_ok m) rqs" "mm_allocs mm rqs = Inr (ps, mm')"
  shows "length ps = length rqs \<and>
    (\<forall>i < length rqs.
       unat (rq_align (rqs ! i)) dvd unat (ps ! i) \<and>
       unat (the (mm_base mm)) \<le> unat (ps ! i) \<and>
       unat (ps ! i) + unat (rq_szb (rqs ! i)) \<le> unat (the (mm_base mm)) + unat (mm_size mm) \<and>
       (\<forall>j < i. blocks_disjoint (ps ! j) (rq_szb (rqs ! j)) (ps ! i) (rq_szb (rqs ! i))))"
proof -
  note a = mm_allocs_ok [OF assms]
  have dis: "blocks_disjoint (ps ! j) (rq_szb (rqs ! j)) (ps ! i) (rq_szb (rqs ! i))"
    if i: "i < length rqs" and j: "j < i" for i j
  proof (cases "rq_kind (rqs ! j) = rq_kind (rqs ! i)")
    case True
    with a i j show ?thesis by (simp add: blocks_disjoint_def)
  next
    case False
    have "sec_lo (mm_sec mm (rq_kind (rqs ! k))) \<le> unat (ps ! k) \<and>
      unat (ps ! k) + unat (rq_szb (rqs ! k)) \<le> sec_hi (mm_sec mm (rq_kind (rqs ! k)))" if "k < length rqs" for k
      using a that by blast
    from this [of i] this [of j] i j sec_disjoint [OF assms(1) False] show ?thesis
      unfolding blocks_disjoint_def by (meson dual_order.trans less_trans)
  qed
  have "unat (the (mm_base mm)) \<le> unat (ps ! i) \<and>
      unat (ps ! i) + unat (rq_szb (rqs ! i)) \<le> unat (the (mm_base mm)) + unat (mm_size mm)"
    if "i < length rqs" for i
    using a that sec_in_mem [OF assms(1), of "rq_kind (rqs ! i)"] by (meson order_trans)
  with a dis show ?thesis by blast
qed

end
