(* ===== verification/Object_Load.thy ===== *)
theory Object_Load
  imports Object_File
begin

text \<open>
  The class \<open>ObjectFile\<close> of \<open>lib-codegen/object-file.cpp\<close>: the object file that the code generator
  has put into an \<open>ObjfileStream\<close> is loaded by LLVM's \<open>RuntimeDyld\<close>, which calls the memory manager
  and the symbol resolver of the program.  \<open>RuntimeDyld\<close> and the writer of object files are
  parameters: what they do is the sequence of calls that they make.
\<close>

section \<open>The stream of the object file\<close>

text \<open>The calls that write an object file.\<close>

datatype stream_call = Write "u8 list" | Pwrite "u8 list" u64

primrec stream_calls :: "stream_call list \<Rightarrow> objfile_stream \<Rightarrow> stream_error + objfile_stream" where
  "stream_calls [] s = Inr s"
| "stream_calls (c # cs) s =
     (case (case c of Write bytes \<Rightarrow> Inr (write_impl s bytes) | Pwrite bytes off \<Rightarrow> pwrite_impl s bytes off) of
        Inl e \<Rightarrow> Inl e
      | Inr s \<Rightarrow> stream_calls cs s)"

section \<open>Calls of the loader\<close>

type_synonym bytes = "u64 \<Rightarrow> u8"

text \<open>A loader reserves memory, given the sizes and alignments of code, read-only and other data,
  allocates sections, writes to the memory, knowing the addresses of the sections so far, and
  looks up symbols.\<close>

datatype dyld_call =
    Reserve "u64 \<times> u64" "u64 \<times> u64" "u64 \<times> u64"
  | Allocate request
  | Fill "u64 list \<Rightarrow> bytes \<Rightarrow> bytes"
  | Lookup "string list"

text \<open>\<open>rd_new\<close> is the address that \<open>new\<close> returns, and \<open>rd_fresh\<close> what the memory holds then.  The
  loading of an object file, if it is one, is the calls made and the error, if there is one; it
  depends on the symbols that the resolver is responsible for.\<close>

record runtime_dyld =
  rd_new :: u64
  rd_fresh :: bytes
  rd_load :: "(string list \<Rightarrow> string list) \<Rightarrow> u8 list \<Rightarrow> (dyld_call list \<times> string option) option"

datatype load_error =
    MemError mem_error
  | NoMemory               \<comment> \<open>"no memory allocated"\<close>
  | UnexpectedLookup       \<comment> \<open>"unexpected external symbol lookup"\<close>
  | NotAnObject            \<comment> \<open>\<open>cantFail\<close> of a failure\<close>
  | DyldFailed string      \<comment> \<open>"RuntimeDyld failed: ..."\<close>

record loading =
  ld_mm :: mem_manager
  ld_mem :: bytes
  ld_blocks :: "u64 list"

definition resolver_lookup :: "string list \<Rightarrow> load_error + unit" where
  "resolver_lookup syms = Inl UnexpectedLookup"

definition getResponsibilitySet :: "string list \<Rightarrow> string list" where
  "getResponsibilitySet symbols = []"

fun dyld_step :: "u64 \<Rightarrow> dyld_call \<Rightarrow> loading \<Rightarrow> load_error + loading" where
  "dyld_step newMem (Reserve (codeSzb, codeAlign) (roSzb, roAlign) (rwSzb, rwAlign)) s =
     (case reserveAllocationSpace (ld_mm s) codeSzb codeAlign roSzb roAlign rwSzb rwAlign newMem of
        Inl e \<Rightarrow> Inl (MemError e)
      | Inr mm \<Rightarrow> Inr (s\<lparr>ld_mm := mm\<rparr>))"
| "dyld_step newMem (Allocate rq) s =
     (case mm_alloc (ld_mm s) rq of
        Inl e \<Rightarrow> Inl (MemError e)
      | Inr (p, mm) \<Rightarrow> Inr (s\<lparr>ld_mm := mm, ld_blocks := ld_blocks s @ [p]\<rparr>))"
| "dyld_step newMem (Fill f) s = Inr (s\<lparr>ld_mem := f (ld_blocks s) (ld_mem s)\<rparr>)"
| "dyld_step newMem (Lookup syms) s =
     (case resolver_lookup syms of Inl e \<Rightarrow> Inl e | Inr _ \<Rightarrow> Inr s)"

primrec dyld_calls :: "u64 \<Rightarrow> dyld_call list \<Rightarrow> loading \<Rightarrow> load_error + loading" where
  "dyld_calls newMem [] s = Inr s"
| "dyld_calls newMem (c # cs) s =
     (case dyld_step newMem c s of Inl e \<Rightarrow> Inl e | Inr s \<Rightarrow> dyld_calls newMem cs s)"

section \<open>Object files\<close>

definition ObjectFile_new :: "runtime_dyld \<Rightarrow> objfile_stream \<Rightarrow> load_error + loading" where
  "ObjectFile_new rd output =
     (case rd_load rd getResponsibilitySet output of
        None \<Rightarrow> Inl NotAnObject
      | Some (calls, error) \<Rightarrow>
          (case dyld_calls (rd_new rd) calls
                  \<lparr>ld_mm = MemManager_new 0x1000, ld_mem = rd_fresh rd, ld_blocks = []\<rparr> of
             Inl e \<Rightarrow> Inl e
           | Inr s \<Rightarrow> (case error of Some msg \<Rightarrow> Inl (DyldFailed msg) | None \<Rightarrow> Inr s)))"

definition object_size :: "loading \<Rightarrow> u64" where
  "object_size obj = mm_size (ld_mm obj)"

definition object_data :: "loading \<Rightarrow> load_error + u64" where
  "object_data obj = (case mm_base (ld_mm obj) of None \<Rightarrow> Inl NoMemory | Some base \<Rightarrow> Inr base)"

text \<open>The bytes \<open>data()[0]\<close> to \<open>data()[size() - 1]\<close>.\<close>

definition object_bytes :: "loading \<Rightarrow> load_error + u8 list" where
  "object_bytes obj =
     (case object_data obj of
        Inl e \<Rightarrow> Inl e
      | Inr base \<Rightarrow> Inr (map (\<lambda>i. ld_mem obj (base + of_nat i)) [0..<unat (object_size obj)]))"

section \<open>The blocks of a loaded object\<close>

text \<open>After the reservation, the calls of a loader that succeeds come down to its requests.\<close>

definition requests :: "dyld_call list \<Rightarrow> request list" where
  "requests cs = concat (map (\<lambda>c. case c of Allocate rq \<Rightarrow> [rq] | _ \<Rightarrow> []) cs)"

lemma requests_simps [simp]:
  "requests [] = []" "requests (Allocate rq # cs) = rq # requests cs" "requests (Fill f # cs) = requests cs"
  "requests (Lookup syms # cs) = requests cs" "requests (Reserve c ro rw # cs) = requests cs"
  by (simp_all add: requests_def)

lemma mm_alloc_mem: "mm_alloc mm rq = Inr (p, mm') \<Longrightarrow> mm_mem mm' = mm_mem mm"
  by (auto simp: mm_alloc_def allocateCodeSection_def allocateDataSection_def
      split: sec_kind.splits if_splits sum.splits)

lemma dyld_calls_requests:
  "dyld_calls newMem cs s = Inr s' \<Longrightarrow> mm_mem (ld_mm s) \<noteq> None \<Longrightarrow>
     \<exists>ps. mm_allocs (ld_mm s) (requests cs) = Inr (ps, ld_mm s') \<and> ld_blocks s' = ld_blocks s @ ps"
proof (induction cs arbitrary: s)
  case (Cons c cs)
  then obtain t where t: "dyld_step newMem c s = Inr t" "dyld_calls newMem cs t = Inr s'"
    by (auto split: sum.splits)
  have mem: "mm_mem (ld_mm t) \<noteq> None"
    using t(1) Cons.prems(2) mm_alloc_mem
    by (cases c) (auto simp: reserveAllocationSpace_def resolver_lookup_def split: sum.splits)
  obtain ps where ps: "mm_allocs (ld_mm t) (requests cs) = Inr (ps, ld_mm s')" "ld_blocks s' = ld_blocks t @ ps"
    using Cons.IH [OF t(2) mem] by blast
  show ?case
    using t(1) Cons.prems(2) ps
    by (cases c) (auto simp: reserveAllocationSpace_def resolver_lookup_def split: sum.splits)
qed simp

text \<open>Requests leave the base and the size of the memory alone.\<close>

lemma mm_allocs_frame:
  "mm_ok m mm \<Longrightarrow> list_all (request_ok m) rqs \<Longrightarrow> mm_allocs mm rqs = Inr (ps, mm') \<Longrightarrow>
     mm_base mm' = mm_base mm \<and> mm_size mm' = mm_size mm"
proof (induction rqs arbitrary: mm ps)
  case (Cons rq rqs)
  obtain p mm1 ps' where p: "mm_alloc mm rq = Inr (p, mm1)" "mm_allocs mm1 rqs = Inr (ps', mm')"
    using Cons.prems(3) by (auto split: sum.splits)
  have ok: "request_ok m rq" "list_all (request_ok m) rqs" using Cons.prems(2) by simp_all
  note a = mm_alloc_ok [OF Cons.prems(1) ok(1) p(1)]
  show ?case using Cons.IH [OF a(1) ok(2) p(2)] a(8,9) by simp
qed simp

lemma reserve_base:
  assumes "reserveAllocationSpace (MemManager_new 0x1000) csz ca rsz ra wsz wa newMem = Inr mm"
  shows "mm_base mm = Some (alignBy newMem 0x1000)" "mm_mem mm \<noteq> None"
  using assms by (auto simp: reserveAllocationSpace_def MemManager_new_def Let_def mm_size_def split: if_splits)

text \<open>The bytes of a block are a part of the bytes of the object.\<close>

lemma slice_of_object:
  assumes "object_bytes obj = Inr bs" "object_data obj = Inr base"
    and "unat base \<le> unat p" "unat p + n \<le> unat base + length bs"
  shows "take n (drop (unat p - unat base) bs) = map (\<lambda>k. ld_mem obj (p + of_nat k)) [0..<n]"
proof -
  have p: "base + of_nat (unat p - unat base) = p"
    using assms(3) by (simp add: of_nat_diff)
  have nth: "bs ! i = ld_mem obj (base + of_nat i)" if "i < length bs" for i
    using assms(1,2) that by (auto simp: object_bytes_def)
  have "bs ! (unat p - unat base + k) = ld_mem obj (p + of_nat k)" if "k < n" for k
  proof -
    have "bs ! (unat p - unat base + k) = ld_mem obj (base + of_nat (unat p - unat base) + of_nat k)"
      using nth [of "unat p - unat base + k"] assms(3,4) that by (simp add: add.assoc)
    then show ?thesis unfolding p .
  qed
  moreover have "n \<le> length bs - (unat p - unat base)" using assms(3,4) by linarith
  ultimately show ?thesis by (intro nth_equalityI) simp_all
qed

end
