(* ===== verification/Memory_Properties.thy ===== *)
theory Memory_Properties
  imports Object_Load Target_Info
begin

text \<open>
  The properties of the memory manager for object files and of the target tables.
\<close>

section \<open>The memory of an object file\<close>

text \<open>C29: Rounding up to a power of two gives the least multiple that is not below the size, as long
  as it fits in 64 bits.\<close>

theorem alignBy_correct:
  assumes "k < 64" "unat n + 2 ^ k \<le> 2 ^ 64"
  shows "2 ^ k dvd unat (alignBy n (2 ^ k)) \<and> n \<le> alignBy n (2 ^ k) \<and>
    unat (alignBy n (2 ^ k)) < unat n + 2 ^ k"
  using round_up_props [of "2 ^ k" "unat n"] unat_alignBy [OF assms] by (simp add: word_le_nat_alt)

lemma alignBy_correct_witness:
  "2 ^ 4 dvd unat (alignBy 33 (2 ^ 4)) \<and> 33 \<le> alignBy 33 (2 ^ 4) \<and>
    unat (alignBy 33 (2 ^ 4)) < unat (33 :: u64) + 2 ^ 4"
  by (rule alignBy_correct) simp_all





text \<open>A request for an alignment above a page, which is accepted, may give a block that is not aligned.\<close>

lemma large_alignment_missed:
  "\<exists>mm p mm'. reserveAllocationSpace (MemManager_new 0x1000) 64 0x2000 0 1 0 1 0x7f1000 = Inr mm \<and>
     mm_alloc mm \<lparr>rq_kind = Code, rq_szb = 64, rq_align = 0x2000\<rparr> = Inr (p, mm') \<and> \<not> 0x2000 dvd unat p"
  by (simp add: reserveAllocationSpace_def MemManager_new_def section_new_def setSize_def alignBy_def maxAlign_def
      mm_size_def sec_top_def mm_alloc_def allocateCodeSection_def sec_alloc_def Let_def)

section \<open>A loaded object\<close>




text \<open>C30: Writing into the object-file stream at an offset.  When the bytes fit behind the offset,
  exactly the bytes there are replaced and the length is kept.  When they do not, the assertion fails,
  as long as the end of the write is below \<open>2\<^sup>6\<^sup>4\<close>; beyond, the sum in the assertion wraps, and
  if the wrapped sum lies in the stream, the program writes out of bounds.\<close>

theorem pwrite_replaces:
  assumes "length s < 2 ^ 63" "length bytes < 2 ^ 63"
  shows "let top = unat off + length bytes in
    if top \<le> length s then
      (\<exists>s'. pwrite_impl s bytes off = Inr s' \<and> length s' = length s \<and>
         take (unat off) s' = take (unat off) s \<and> take (length bytes) (drop (unat off) s') = bytes \<and>
         drop top s' = drop top s)
    else pwrite_impl s bytes off =
      Inl (if top < 2 ^ 64 \<or> length s < top - 2 ^ 64 then StreamExtended else OutOfBounds)"
proof (cases "unat off + length bytes \<le> length s")
  case True
  then have "unat off + length bytes < 2 ^ 64" using assms(1) by simp
  then show ?thesis
    using True pwrite_check [OF assms, of off] by (simp add: pwrite_impl_def Let_def)
next
  case False
  then show ?thesis
    using pwrite_check [OF assms, of off] by (auto simp: pwrite_impl_def Let_def)
qed

lemma pwrite_replaces_witness:
  "pwrite_impl [1, 2, 3, 4] [9, 8] 5 = Inl StreamExtended \<and>
   pwrite_impl [1, 2, 3, 4] [9, 8] 0xFFFFFFFFFFFFFFFF = Inl OutOfBounds \<and>
   (\<exists>s'. pwrite_impl [1, 2, 3, 4] [9, 8] 1 = Inr s' \<and> length s' = 4 \<and> take 1 s' = [1] \<and>
      take 2 (drop 1 s') = [9, 8] \<and> drop 3 s' = [4])"
proof -
  let ?s = "[1, 2, 3, 4 :: u8]" and ?b = "[9, 8 :: u8]"
  have l: "length ?s < 2 ^ 63" "length ?b < 2 ^ 63" by simp_all
  note p = pwrite_replaces [OF l]
  have "pwrite_impl ?s ?b 5 = Inl StreamExtended" using p [of 5] by simp
  moreover have "pwrite_impl ?s ?b 0xFFFFFFFFFFFFFFFF = Inl OutOfBounds" using p [of "0xFFFFFFFFFFFFFFFF"] by simp
  moreover have "\<exists>s'. pwrite_impl ?s ?b 1 = Inr s' \<and> length s' = 4 \<and> take 1 s' = [1] \<and>
      take 2 (drop 1 s') = [9, 8] \<and> drop 3 s' = [4]"
    using p [of 1] by (simp add: numeral_eq_Suc)
  ultimately show ?thesis by blast
qed

text \<open>C31: Looking a target up by name finds exactly the configured targets, and the target of the host
  is always among them.\<close>

theorem infoForTarget_correct:
  "(case infoForTarget b nm of
      None \<Rightarrow> nm \<notin> set (targetNames b)
    | Some t \<Rightarrow> t \<in> set (Targets b) \<and> ti_name t = nm) \<and>
   infoForTarget b (ti_name (native_target b)) = Some (native_target b)"
proof -
  have "infoForTarget b (ti_name (native_target b)) = Some (native_target b)"
    by (cases "cfg_arch b")
      (simp_all add: infoForTarget_def Targets_def native_target_def enable_x86_def enable_arm64_def
        X86_64Info_def Arm64Info_def)
  then show ?thesis
    using find_target_Some [of nm "Targets b"] find_target_None [of nm "Targets b"]
    by (auto simp: infoForTarget_def targetNames_def split: option.splits)
qed

text \<open>C32: The register table of a target lists, in the order of their numbers, exactly the special
  registers without a stack slot; a register is either there or has its slot as offset.\<close>

theorem register_table:
  "map ri_id (rg_hwRegs (CMRegs_new (Some ti))) = filter (\<lambda>r. ti_stkOffset ti ! reg_num r = 0) reg_ids \<and>
   numMachineRegs (CMRegs_new (Some ti)) = length (rg_hwRegs (CMRegs_new (Some ti))) \<and>
   (\<forall>r. \<exists>ri. reg_info (CMRegs_new (Some ti)) r = Some ri \<and> ri_id ri = r \<and>
      (if ti_stkOffset ti ! reg_num r = 0 then isMachineReg ri \<and> ri_idx ri = int (reg_num r)
       else isMemReg ri \<and> ri_offset ri = ti_stkOffset ti ! reg_num r))"
  by (auto simp: hwRegs_ids numMachineRegs_new reg_info_new createReg_def createStkReg_def
    CMRegInfo_new_def isMachineReg_def isMemReg_def)

end
