(* ===== verification/Context.thy ===== *)
theory Context
  imports Llvm_IR Cfg_Types
begin

text \<open>
  The class \<open>Context\<close>: \<open>include/context.hpp\<close>, \<open>lib-codegen/context.cpp\<close> and
  \<open>lib-codegen/overflow.cpp\<close>.  It holds the state of the code generator: the module under
  construction, the target, the current function and cluster, the maps from labels and variables,
  and the values of the CMachine registers.  Null pointers are \<open>None\<close>; the pointers to clusters
  and fragments in the maps are the objects themselves, inserted once they are initialised.
  Where C++ leaves the order of evaluation of arguments open, it is taken from left to right.
\<close>

section \<open>State\<close>

record cgctx = ir +
  cx_target :: target_info
  cx_regInfo :: CMRegs
  cx_regState :: "value CMRegState"
  cx_wordSzB :: int
  cx_intTy :: lty
  cx_moduleName :: cstring
  cx_curFn :: "nat option"
  cx_curCluster :: "cluster option"
  cx_clusterMap :: "lvar \<Rightarrow> cluster option"
  cx_fragMap :: "lvar \<Rightarrow> frag option"
  cx_vMap :: "lvar \<Rightarrow> value option"
  cx_gcFnTy :: fnty
  cx_raiseOverflowFnTy :: fnty
  cx_overflowBB :: "nat option"
  cx_overflowPhiNodes :: "value list"
  cx_intr :: "intrinsic \<Rightarrow> value option"
  cx_readReg :: "value option"
  cx_spRegMD :: "value option"

type_synonym 'a cx = "(cgctx, 'a) cg"

section \<open>Types and constants\<close>

abbreviation i8Ty :: lty where "i8Ty \<equiv> IntTy 8"
abbreviation i32Ty :: lty where "i32Ty \<equiv> IntTy 32"
abbreviation i64Ty :: lty where "i64Ty \<equiv> IntTy 64"
abbreviation mlValueTy :: lty where "mlValueTy \<equiv> PtrTy"

definition iType :: "int \<Rightarrow> lty" where
  "iType sz =
     (if sz = 64 then IntTy 64 else if sz = 32 then IntTy 32 else if sz = 16 then IntTy 16 else IntTy 8)"

definition fType :: "int \<Rightarrow> lty" where
  "fType sz = (if sz = 64 then DoubleTy else FloatTy)"

text \<open>A constant of an integer type: the value modulo the width.\<close>

definition const_of :: "lty \<Rightarrow> int \<Rightarrow> value" where
  "const_of t c = VInt (primSize t) (take_bit (primSize t) c)"

definition iConst_sz :: "int \<Rightarrow> u64 \<Rightarrow> value" where
  "iConst_sz sz c = const_of (iType sz) (sint c)"

definition iConst :: "int \<Rightarrow> value cx" where
  "iConst c = cbind (cget cx_intTy) (\<lambda>t. creturn (const_of t c))"

definition i32Const :: "int \<Rightarrow> value" where
  "i32Const n = const_of i32Ty n"

definition uConst_sz :: "int \<Rightarrow> u64 \<Rightarrow> value" where
  "uConst_sz sz c = const_of (iType sz) (uint c)"

definition uConst :: "u64 \<Rightarrow> value cx" where
  "uConst c = cbind (cget cx_intTy) (\<lambda>t. creturn (const_of t (uint c)))"

definition is64Bit :: "bool cx" where
  "is64Bit = cget (\<lambda>s. cx_wordSzB s = 8)"

definition wordSzInBytes :: "int cx" where
  "wordSzInBytes = cget cx_wordSzB"

definition wordAlign :: "nat option cx" where
  "wordAlign = cget (\<lambda>s. Some (nat (cx_wordSzB s)))"

definition MaybeAlign :: "u32 \<Rightarrow> nat option" where
  "MaybeAlign a = (if a = 0 then None else Some (unat a))"

definition roundToWordSzInBytes :: "u64 \<Rightarrow> u64 cx" where
  "roundToWordSzInBytes nb =
     cget (\<lambda>s. (nb + word_of_int (cx_wordSzB s - 1)) AND NOT (word_of_int (cx_wordSzB s - 1)))"

definition roundToWordSz :: "u64 \<Rightarrow> u64 cx" where
  "roundToWordSz nb =
     cget (\<lambda>s. ((nb + word_of_int (cx_wordSzB s - 1)) AND NOT (word_of_int (cx_wordSzB s - 1)))
                 div word_of_int (cx_wordSzB s))"

section \<open>Conversions\<close>

definition createIntToPtr :: "value \<Rightarrow> value cx" where
  "createIntToPtr v = CreateCast IntToPtr v PtrTy"

definition createPtrToInt :: "value \<Rightarrow> value cx" where
  "createPtrToInt v = cbind (cget cx_intTy) (\<lambda>t. CreateCast PtrToInt v t)"

definition asPtr :: "value \<Rightarrow> value cx" where
  "asPtr v =
     (if \<not> isPointerTy (type_of v) then
        (if isIntegerTy (type_of v) then CreateCast IntToPtr v PtrTy
         else cfail (AssertFailed ''invalid type conversion''))
      else creturn v)"

definition asMLValue :: "value \<Rightarrow> value cx" where
  "asMLValue v = asPtr v"

definition asInt :: "value \<Rightarrow> value cx" where
  "asInt v = (if isPointerTy (type_of v) then createPtrToInt v else creturn v)"

definition asInt_sz :: "int \<Rightarrow> value \<Rightarrow> value cx" where
  "asInt_sz sz v = (if type_of v = mlValueTy then CreateCast PtrToInt v (iType sz) else creturn v)"

definition castTy :: "lty \<Rightarrow> lty \<Rightarrow> value \<Rightarrow> value cx" where
  "castTy srcTy tgtTy v =
     (if isPointerTy tgtTy then
        (if isPointerTy srcTy then CreateCast BitCast v tgtTy else CreateCast IntToPtr v tgtTy)
      else if isIntegerTy tgtTy \<and> isPointerTy srcTy then CreateCast PtrToInt v tgtTy
      else cfail (AssertFailed ''invalid type cast''))"

definition unitValue :: "value cx" where
  "unitValue = cbind (iConst 1) (\<lambda>c. CreateCast IntToPtr c mlValueTy)"

section \<open>Shorthand for instructions\<close>

definition createBin :: "binop \<Rightarrow> value \<Rightarrow> value \<Rightarrow> value cx" where
  "createBin op a b =
     cbind (asInt a) (\<lambda>a. cbind (asInt b) (\<lambda>b. ir_create (BinOp op a b)))"

definition createAdd :: "value \<Rightarrow> value \<Rightarrow> value cx" where "createAdd = createBin OpAdd"
definition createAnd :: "value \<Rightarrow> value \<Rightarrow> value cx" where "createAnd = createBin OpAnd"
definition createAShr :: "value \<Rightarrow> value \<Rightarrow> value cx" where "createAShr = createBin OpAShr"
definition createLShr :: "value \<Rightarrow> value \<Rightarrow> value cx" where "createLShr = createBin OpLShr"
definition createMul :: "value \<Rightarrow> value \<Rightarrow> value cx" where "createMul = createBin OpMul"
definition createOr :: "value \<Rightarrow> value \<Rightarrow> value cx" where "createOr = createBin OpOr"
definition createSDiv :: "value \<Rightarrow> value \<Rightarrow> value cx" where "createSDiv = createBin OpSDiv"
definition createShl :: "value \<Rightarrow> value \<Rightarrow> value cx" where "createShl = createBin OpShl"
definition createSRem :: "value \<Rightarrow> value \<Rightarrow> value cx" where "createSRem = createBin OpSRem"
definition createSub :: "value \<Rightarrow> value \<Rightarrow> value cx" where "createSub = createBin OpSub"
definition createUDiv :: "value \<Rightarrow> value \<Rightarrow> value cx" where "createUDiv = createBin OpUDiv"
definition createURem :: "value \<Rightarrow> value \<Rightarrow> value cx" where "createURem = createBin OpURem"
definition createXor :: "value \<Rightarrow> value \<Rightarrow> value cx" where "createXor = createBin OpXor"

definition createICmp :: "icmp_pred \<Rightarrow> value \<Rightarrow> value \<Rightarrow> value cx" where
  "createICmp p a b =
     cbind (asInt a) (\<lambda>a. cbind (asInt b) (\<lambda>b. ir_create (ICmp p a b)))"

definition createICmpEQ :: "value \<Rightarrow> value \<Rightarrow> value cx" where "createICmpEQ = createICmp ICMP_EQ"
definition createICmpNE :: "value \<Rightarrow> value \<Rightarrow> value cx" where "createICmpNE = createICmp ICMP_NE"
definition createICmpSLT :: "value \<Rightarrow> value \<Rightarrow> value cx" where "createICmpSLT = createICmp ICMP_SLT"

definition createSIToFP :: "value \<Rightarrow> lty \<Rightarrow> value cx" where "createSIToFP = CreateCast SIToFP"
definition createSExt :: "value \<Rightarrow> lty \<Rightarrow> value cx" where "createSExt = CreateCast SExt"
definition createZExt :: "value \<Rightarrow> lty \<Rightarrow> value cx" where "createZExt = CreateCast ZExt"
definition createTrunc :: "value \<Rightarrow> lty \<Rightarrow> value cx" where "createTrunc = CreateCast Trunc"
definition createFPToSI :: "value \<Rightarrow> lty \<Rightarrow> value cx" where "createFPToSI = CreateCast FPToSI"
definition createBitCast :: "value \<Rightarrow> lty \<Rightarrow> value cx" where "createBitCast = CreateCast BitCast"

definition createFBin :: "binop \<Rightarrow> value \<Rightarrow> value \<Rightarrow> value cx" where
  "createFBin op a b = ir_create (BinOp op a b)"

definition createFAdd :: "value \<Rightarrow> value \<Rightarrow> value cx" where "createFAdd = createFBin OpFAdd"
definition createFSub :: "value \<Rightarrow> value \<Rightarrow> value cx" where "createFSub = createFBin OpFSub"
definition createFMul :: "value \<Rightarrow> value \<Rightarrow> value cx" where "createFMul = createFBin OpFMul"
definition createFDiv :: "value \<Rightarrow> value \<Rightarrow> value cx" where "createFDiv = createFBin OpFDiv"
definition createFRem :: "value \<Rightarrow> value \<Rightarrow> value cx" where "createFRem = createFBin OpFRem"
definition createFNeg :: "value \<Rightarrow> value cx" where "createFNeg v = ir_create (FNeg v)"

definition createFCmp :: "fcmp_pred \<Rightarrow> value \<Rightarrow> value \<Rightarrow> value cx" where
  "createFCmp p a b = ir_create (FCmp p a b)"

definition createLoad_align :: "lty \<Rightarrow> value \<Rightarrow> u32 \<Rightarrow> value cx" where
  "createLoad_align t adr align = ir_append (Load t adr (MaybeAlign align) False)"

definition createLoad :: "lty \<Rightarrow> value \<Rightarrow> value cx" where
  "createLoad t adr = ir_append (Load t adr None False)"

definition setInvarianteLoadMD :: "value \<Rightarrow> value cx" where
  "setInvarianteLoadMD v =
     cbind GetInsertBlock (\<lambda>b.
     cthen (cmodify (\<lambda>s. s\<lparr>ir_blocks := (ir_blocks s)(b := (ir_blocks s b)
       \<lparr>bb_insts := map (set_invariant v) (bb_insts (ir_blocks s b))\<rparr>)\<rparr>))
     (creturn v))"

definition createStoreML :: "value \<Rightarrow> value \<Rightarrow> unit cx" where
  "createStoreML v adr =
     cbind (asMLValue v) (\<lambda>v. cbind (asPtr adr) (\<lambda>adr. cbind wordAlign (\<lambda>al. ir_exec (Store v adr al))))"

definition createStoreInt :: "value \<Rightarrow> value \<Rightarrow> unit cx" where
  "createStoreInt v adr =
     cbind (asPtr adr) (\<lambda>adr. cbind wordAlign (\<lambda>al. ir_exec (Store v adr al)))"

definition createStore :: "value \<Rightarrow> value \<Rightarrow> u32 \<Rightarrow> unit cx" where
  "createStore v adr align = ir_exec (Store v adr (MaybeAlign align))"

definition createGEP :: "value \<Rightarrow> value \<Rightarrow> value cx" where
  "createGEP base idx = ir_create (GEP mlValueTy base idx)"

definition createGEP_ty :: "lty \<Rightarrow> value \<Rightarrow> value \<Rightarrow> value cx" where
  "createGEP_ty elemTy base idx = cbind (asPtr base) (\<lambda>base. ir_create (GEP elemTy base idx))"

definition createGEP_i :: "value \<Rightarrow> int \<Rightarrow> value cx" where
  "createGEP_i base idx = ir_create (GEP mlValueTy base (i32Const idx))"

definition createGEP_ty_i :: "lty \<Rightarrow> value \<Rightarrow> int \<Rightarrow> value cx" where
  "createGEP_ty_i elemTy base idx =
     cbind (asPtr base) (\<lambda>base. ir_create (GEP elemTy base (i32Const idx)))"

definition createJWACall :: "fnty \<Rightarrow> value \<Rightarrow> value list \<Rightarrow> value cx" where
  "createJWACall ft f args = ir_append (Call ft f args CC_JWA TCK_Tail)"

definition createExtractValue :: "value \<Rightarrow> nat \<Rightarrow> value cx" where
  "createExtractValue v i = ir_create (ExtractValue v i)"

definition createBr :: "nat \<Rightarrow> unit cx" where
  "createBr b = ir_exec (Br b)"

section \<open>Modules, clusters, fragments, maps\<close>

definition curFn :: "nat cx" where
  "curFn = cbind (cget cx_curFn) (cthe (NullPointer ''current function''))"

definition newBB :: "string \<Rightarrow> nat cx" where
  "newBB name = cbind curFn (\<lambda>f. BasicBlock_Create name f)"

definition setCluster :: "cluster \<Rightarrow> unit cx" where
  "setCluster c = cmodify (\<lambda>s. s\<lparr>cx_curCluster := Some c\<rparr>)"

text \<open>\<open>unordered_map::insert\<close> keeps an existing binding.\<close>

definition map_insert :: "'v \<Rightarrow> lvar \<Rightarrow> (lvar \<Rightarrow> 'v option) \<Rightarrow> (lvar \<Rightarrow> 'v option)" where
  "map_insert v k m = (if m k = None then m(k := Some v) else m)"

definition insertCluster :: "lvar \<Rightarrow> cluster \<Rightarrow> unit cx" where
  "insertCluster lab c = cmodify (\<lambda>s. s\<lparr>cx_clusterMap := map_insert c lab (cx_clusterMap s)\<rparr>)"

definition lookupCluster :: "lvar \<Rightarrow> cluster option cx" where
  "lookupCluster lab = cget (\<lambda>s. cx_clusterMap s lab)"

definition insertFrag :: "lvar \<Rightarrow> frag \<Rightarrow> unit cx" where
  "insertFrag lab f = cmodify (\<lambda>s. s\<lparr>cx_fragMap := map_insert f lab (cx_fragMap s)\<rparr>)"

definition lookupFrag :: "lvar \<Rightarrow> frag option cx" where
  "lookupFrag lab = cget (\<lambda>s. cx_fragMap s lab)"

definition insertVal :: "lvar \<Rightarrow> value \<Rightarrow> unit cx" where
  "insertVal lv v = cmodify (\<lambda>s. s\<lparr>cx_vMap := map_insert v lv (cx_vMap s)\<rparr>)"

definition lookupVal :: "lvar \<Rightarrow> value option cx" where
  "lookupVal lv = cget (\<lambda>s. cx_vMap s lv)"

text \<open>\<open>param::bind\<close>\<close>

definition param_bind :: "param \<Rightarrow> value \<Rightarrow> unit cx" where
  "param_bind p v = insertVal (p_name p) v"

definition intrinsics :: "intrinsic list" where
  "intrinsics =
     [Sadd32WO, Ssub32WO, Smul32WO, Sadd64WO, Ssub64WO, Smul64WO,
      Ctlz32, Ctpop32, Cttz32, Ctlz64, Ctpop64, Cttz64, Fshl32, Fshr32, Fshl64, Fshr64,
      Fma32, Fabs32, Sqrt32, Copysign32, Fma64, Fabs64, Sqrt64, Copysign64]"

definition intr_get :: "intrinsic \<Rightarrow> value cx" where
  "intr_get i =
     cbind (cget (\<lambda>s. cx_intr s i)) (\<lambda>c.
       case c of
         Some v \<Rightarrow> creturn v
       | None \<Rightarrow>
           cbind current_module (\<lambda>m.
           cthen (cmodify (\<lambda>s. s\<lparr>cx_intr := (cx_intr s)(i := Some (VIntr i m))\<rparr>))
           (creturn (VIntr i m))))"

definition intr_reset :: "intrinsic \<Rightarrow> unit cx" where
  "intr_reset i = cmodify (\<lambda>s. s\<lparr>cx_intr := (cx_intr s)(i := None)\<rparr>)"

definition beginModule :: "cstring \<Rightarrow> nat \<Rightarrow> unit cx" where
  "beginModule src nClusters =
     cthen (cmodify (\<lambda>s. s\<lparr>ir_module := Some (ir_nmodules s), ir_nmodules := ir_nmodules s + 1,
       cx_moduleName := src\<rparr>))
     (cthen (cmodify (\<lambda>s. s\<lparr>cx_clusterMap := (\<lambda>_. None)\<rparr>))
     (cthen (cforeach intrinsics intr_reset)
     (cmodify (\<lambda>s. s\<lparr>cx_readReg := None, cx_spRegMD := None\<rparr>))))"

definition completeModule :: "unit cx" where
  "completeModule = creturn ()"

definition endModule :: "unit cx" where
  "endModule = cmodify (\<lambda>s. s\<lparr>ir_module := None\<rparr>)"

definition beginCluster :: "cluster \<Rightarrow> nat option \<Rightarrow> unit cx" where
  "beginCluster c f =
     cthen (cassert (f \<noteq> None) ''undefined function'')
     (cmodify (\<lambda>s. s\<lparr>cx_overflowBB := None, cx_overflowPhiNodes := [], cx_fragMap := (\<lambda>_. None),
       cx_curFn := f, cx_curCluster := Some c\<rparr>))"

definition endCluster :: "unit cx" where
  "endCluster = creturn ()"

definition beginFrag :: "unit cx" where
  "beginFrag = cmodify (\<lambda>s. s\<lparr>cx_vMap := (\<lambda>_. None)\<rparr>)"

definition newFunction :: "fnty \<Rightarrow> string \<Rightarrow> bool \<Rightarrow> nat cx" where
  "newFunction ft name isPublic =
     cbind (Function_Create ft isPublic name) (\<lambda>f.
     cthen (fn_update f (\<lambda>g. g\<lparr>fn_cc := CC_JWA\<rparr>))
     (cthen (fn_update f (\<lambda>g. g\<lparr>fn_nounwind := True\<rparr>))
     (creturn f)))"

section \<open>Argument layout\<close>

record arg_info =
  nExtra :: nat
  nBasePtr :: nat
  nUnused :: nat

definition numArgs :: "arg_info \<Rightarrow> nat \<Rightarrow> nat" where
  "numArgs info n = n + nExtra info + nBasePtr info + nUnused info"

definition getArgInfo :: "frag_kind \<Rightarrow> arg_info cx" where
  "getArgInfo kind =
     cbind (cget (\<lambda>s. numMachineRegs (cx_regInfo s))) (\<lambda>extra.
       case kind of
         STD_FUN \<Rightarrow> creturn \<lparr>nExtra = extra, nBasePtr = 0, nUnused = 0\<rparr>
       | STD_CONT \<Rightarrow> creturn \<lparr>nExtra = extra, nBasePtr = 0, nUnused = 2\<rparr>
       | frag_kind_other _ \<Rightarrow> cfail (NoCase ''_getArgInfo'')
       | _ \<Rightarrow>
           cbind (cget cx_curCluster) (\<lambda>c.
             case c of
               None \<Rightarrow> cfail (AssertFailed ''no current cluster defined'')
             | Some c \<Rightarrow>
                 cbind (cget (\<lambda>s. usesBasePtr (cx_regInfo s))) (\<lambda>ub.
                   creturn \<lparr>nExtra = extra,
                     nBasePtr = (if ub \<and> needsBasePtr (c_attrs c) then 1 else 0), nUnused = 0\<rparr>)))"

definition addExtraParamTys :: "lty list \<Rightarrow> arg_info \<Rightarrow> lty list cx" where
  "addExtraParamTys tys info =
     cbind (cget cx_intTy) (\<lambda>it.
       creturn (tys @ replicate (nExtra info) PtrTy @ (if nBasePtr info \<noteq> 0 then [it] else [])))"

definition createParamTys :: "frag_kind \<Rightarrow> nat \<Rightarrow> lty list cx" where
  "createParamTys kind n =
     cbind (getArgInfo kind) (\<lambda>info.
     cbind (addExtraParamTys [] info) (\<lambda>tys.
     creturn (tys @ replicate (nUnused info) mlValueTy)))"

definition createFnTy :: "frag_kind \<Rightarrow> lty list \<Rightarrow> fnty cx" where
  "createFnTy kind tys =
     cbind (createParamTys kind (length tys)) (\<lambda>allParams.
     creturn \<lparr>ft_ret = VoidTy, ft_params = allParams @ tys\<rparr>)"

definition reg_value :: "CMRegId \<Rightarrow> value cx" where
  "reg_value r = cbind (cget (\<lambda>s. rs_get (cx_regState s) r)) (cthe (NullPointer ''register''))"

definition addExtraArgs :: "value list \<Rightarrow> arg_info \<Rightarrow> value list cx" where
  "addExtraArgs args info =
     cbind (cget cx_regInfo) (\<lambda>ri.
     cbind (cmap (\<lambda>i. reg_value (ri_id (machineReg ri i))) [0..<nExtra info]) (\<lambda>regs.
     if nBasePtr info \<noteq> 0 then
       cbind (cbind (cget (\<lambda>s. getBasePtr (cx_regState s))) (cthe (NullPointer ''base pointer'')))
         (\<lambda>b. creturn (args @ regs @ [b]))
     else creturn (args @ regs)))"

definition createArgs :: "frag_kind \<Rightarrow> nat \<Rightarrow> value list cx" where
  "createArgs kind n =
     cbind (getArgInfo kind) (\<lambda>info.
     cbind (addExtraArgs [] info) (\<lambda>args.
     creturn (args @ replicate (nUnused info) (VUndef mlValueTy))))"

end
