(* ===== verification/Context_Code.thy ===== *)
theory Context_Code
  imports Context
begin

text \<open>
  The rest of the class \<open>Context\<close>: access to the stack and to the CMachine registers, the entry
  of functions and fragments, the values of labels, allocation of records, the call of the
  garbage collector, the overflow block, and the construction of a context.
\<close>

section \<open>The stack and the CMachine registers\<close>

definition initSPAccess :: "unit cx" where
  "initSPAccess =
     cbind (cget (\<lambda>s. cx_readReg s = None \<and> cx_spRegMD s = None)) (\<lambda>ok.
     cthen (cassert ok ''_initSPAccess'')
     (cbind current_module (\<lambda>m.
     cmodify (\<lambda>s. s\<lparr>cx_readReg := Some (VReadReg m),
       cx_spRegMD := Some (VMeta (ti_spName (cx_target s)))\<rparr>))))"

definition readReg_ty :: "fnty cx" where
  "readReg_ty = cbind (cget cx_intTy) (\<lambda>t. creturn \<lparr>ft_ret = t, ft_params = [MetadataTy]\<rparr>)"

definition stkAddr :: "int \<Rightarrow> value cx" where
  "stkAddr offset =
     cthen (cbind (cget cx_readReg) (\<lambda>r. if r = None then initSPAccess else creturn ()))
     (cbind readReg_ty (\<lambda>ft.
      cbind (cbind (cget cx_readReg) (cthe (NullPointer ''read_register''))) (\<lambda>rr.
      cbind (cbind (cget cx_spRegMD) (cthe (NullPointer ''stack pointer''))) (\<lambda>md.
      cbind (ir_append (Call ft rr [md] CC_C TCK_None)) (\<lambda>sp.
      cbind (iConst offset) (\<lambda>off.
      cbind (createAdd sp off) (\<lambda>a.
      createIntToPtr a)))))))"

definition loadFromStack :: "int \<Rightarrow> value cx" where
  "loadFromStack offset =
     cbind (stkAddr offset) (\<lambda>a.
     cbind wordAlign (\<lambda>al.
     ir_append (Load mlValueTy a al False)))"

definition get_reg_info :: "CMRegId \<Rightarrow> CMRegInfo cx" where
  "get_reg_info r =
     cbind (cget (\<lambda>s. reg_info (cx_regInfo s) r)) (cthe (NullPointer ''register info''))"

definition loadMemReg :: "CMRegId \<Rightarrow> value cx" where
  "loadMemReg r = cbind (get_reg_info r) (\<lambda>info. loadFromStack (ri_offset info))"

definition storeMemReg :: "CMRegId \<Rightarrow> value \<Rightarrow> unit cx" where
  "storeMemReg r v =
     cbind (get_reg_info r) (\<lambda>info.
     cbind (stkAddr (ri_offset info)) (\<lambda>a.
     cbind wordAlign (\<lambda>al.
     ir_exec (Store v a al))))"

definition setRegState :: "CMRegId \<Rightarrow> value option \<Rightarrow> unit cx" where
  "setRegState r v = cmodify (\<lambda>s. s\<lparr>cx_regState := rs_set (cx_regState s) r v\<rparr>)"

definition mlReg :: "CMRegId \<Rightarrow> value cx" where
  "mlReg r =
     cbind (cget (\<lambda>s. rs_get (cx_regState s) r)) (\<lambda>reg.
       case reg of None \<Rightarrow> loadMemReg r | Some v \<Rightarrow> creturn v)"

definition setMLReg :: "CMRegId \<Rightarrow> value \<Rightarrow> unit cx" where
  "setMLReg r v =
     cbind (cget (\<lambda>s. rs_get (cx_regState s) r)) (\<lambda>reg.
       case reg of None \<Rightarrow> storeMemReg r v | Some _ \<Rightarrow> setRegState r (Some v))"

text \<open>The cache is a state of its own; the base pointer is not copied, and the cache is only read
  back by \<open>restoreSMLRegState\<close>.\<close>

definition saveSMLRegState :: "(value CMRegState) cx" where
  "saveSMLRegState = cget (\<lambda>s. copyFrom CMRegState_new (cx_regState s))"

definition restoreSMLRegState :: "value CMRegState \<Rightarrow> unit cx" where
  "restoreSMLRegState cache = cmodify (\<lambda>s. s\<lparr>cx_regState := copyFrom (cx_regState s) cache\<rparr>)"

definition alignedAllocPtr :: "value cx" where
  "alignedAllocPtr =
     cbind is64Bit (\<lambda>b.
       if b then mlReg ALLOC_PTR
       else cbind (mlReg ALLOC_PTR) (\<lambda>p. cbind (createPtrToInt p) (\<lambda>i.
            cbind (uConst 4) (\<lambda>c. cbind (createOr i c) createIntToPtr))))"

definition cx_basePtr :: "value cx" where
  "cx_basePtr =
     cbind (cget (\<lambda>s. getBasePtr (cx_regState s)))
       (cthe (AssertFailed ''no base pointer for current cluster''))"

definition set_basePtr :: "value \<Rightarrow> unit cx" where
  "set_basePtr v =
     cthen (cassert (isIntegerTy (type_of v)) ''base pointer should have intTy'')
     (cmodify (\<lambda>s. s\<lparr>cx_regState := setBasePtr (cx_regState s) v\<rparr>))"

definition clear_basePtr :: "unit cx" where
  "clear_basePtr = cmodify (\<lambda>s. s\<lparr>cx_regState := clearBasePtr (cx_regState s)\<rparr>)"

section \<open>Entry of functions and fragments\<close>

text \<open>\<open>Function::getArg\<close>\<close>

definition fn_type :: "nat \<Rightarrow> fnty cx" where
  "fn_type f = cbind (cget ir_fns) (\<lambda>fs. cbind (cnth fs f) (\<lambda>g. creturn (fn_ty g)))"

definition getArg :: "nat \<Rightarrow> nat \<Rightarrow> value cx" where
  "getArg f i = cbind (fn_type f) (\<lambda>ft. cbind (cnth (ft_params ft) i) (\<lambda>t. creturn (VArg i t)))"

text \<open>The loop over the registers of \<open>setupStdEntry\<close>; the argument counts the machine registers.\<close>

primrec setup_regs :: "nat \<Rightarrow> CMRegId list \<Rightarrow> nat \<Rightarrow> unit cx" where
  "setup_regs f [] hwIx = creturn ()"
| "setup_regs f (r # rs) hwIx =
     cbind (get_reg_info r) (\<lambda>info.
       if isMachineReg info then
         cbind (getArg f hwIx) (\<lambda>arg.
         cthen (setRegState (ri_id info) (Some arg)) (setup_regs f rs (hwIx + 1)))
       else cthen (setRegState (ri_id info) None) (setup_regs f rs hwIx))"

primrec bind_params :: "param list \<Rightarrow> (nat \<Rightarrow> value cx) \<Rightarrow> nat \<Rightarrow> unit cx" where
  "bind_params [] arg i = creturn ()"
| "bind_params (p # ps) arg i =
     cthen (cbind (arg i) (param_bind p)) (bind_params ps arg (i + 1))"

definition get_curCluster :: "cluster cx" where
  "get_curCluster = cbind (cget cx_curCluster) (cthe (NullPointer ''current cluster''))"

definition setupStdEntry :: "frag \<Rightarrow> unit cx" where
  "setupStdEntry fr =
     cbind curFn (\<lambda>f.
     cbind (getArgInfo (f_kind fr)) (\<lambda>info.
     cthen (setup_regs f reg_ids 0)
     (cthen
       (cbind (cget cx_regInfo) (\<lambda>ri.
        cbind (if usesBasePtr ri
               then cbind get_curCluster (\<lambda>c. creturn (needsBasePtr (c_attrs c)))
               else creturn False) (\<lambda>b.
        if b then
          cbind (getArg f (if f_kind fr = STD_FUN then numMachineRegs ri else numMachineRegs ri + 2))
            (\<lambda>a. cbind (createPtrToInt a) set_basePtr)
        else clear_basePtr)))
     (bind_params (f_params fr) (getArg f) (nExtra info + nUnused info)))))"

definition phi_at :: "value list \<Rightarrow> nat \<Rightarrow> value cx" where
  "phi_at phis i = cnth phis i"

definition setupFragEntry :: "frag \<Rightarrow> value list \<Rightarrow> unit cx" where
  "setupFragEntry fr phiNodes =
     cthen (cassert (f_kind fr = INTERNAL) ''not an internal fragment'')
     (cbind (getArgInfo (f_kind fr)) (\<lambda>info.
      cbind (cget cx_regInfo) (\<lambda>ri.
      cthen (cforeach [0..<nExtra info] (\<lambda>i.
        cbind (phi_at phiNodes i) (\<lambda>p. setRegState (ri_id (machineReg ri i)) (Some p))))
      (cthen (if nBasePtr info \<noteq> 0 then cbind (phi_at phiNodes (nExtra info)) set_basePtr
              else creturn ())
      (bind_params (f_params fr) (phi_at phiNodes) (nExtra info + nBasePtr info))))))"

section \<open>Labels\<close>

definition createGlobalAlias :: "lty \<Rightarrow> string \<Rightarrow> value \<Rightarrow> value cx" where
  "createGlobalAlias t name v =
     cbind current_module (\<lambda>_.
     (\<lambda>s. Inr (VAlias (length (ir_aliases s)), s\<lparr>ir_aliases := ir_aliases s @ [(name, t, v)]\<rparr>)))"

definition name_of_fn :: "nat \<Rightarrow> string cx" where
  "name_of_fn f = cbind (cget ir_fns) (\<lambda>fs. cbind (cnth fs f) (\<lambda>g. creturn (fn_name g)))"

text \<open>The constant expression \<open>IntToPtr (PtrToInt (a) - PtrToInt (b))\<close>, before LLVM folds it.\<close>

definition const_diff :: "lty \<Rightarrow> value \<Rightarrow> value \<Rightarrow> value" where
  "const_diff it a b = VConstCast IntToPtr (VConstSub (VConstCast PtrToInt a it) b) mlValueTy"

definition labelDiff :: "nat \<Rightarrow> nat \<Rightarrow> value cx" where
  "labelDiff f1 f2 =
     cbind (cget cx_intTy) (\<lambda>it.
     cbind (name_of_fn f1) (\<lambda>n1.
     cbind (name_of_fn f2) (\<lambda>n2.
     createGlobalAlias it (n1 @ ''_sub_'' @ n2)
       (const_diff it (VFn f1) (VConstCast PtrToInt (VFn f2) it)))))"

definition blockAddr :: "nat \<Rightarrow> value cx" where
  "blockAddr bb = cbind curFn (\<lambda>f. creturn (VBlockAddr f bb))"

definition blockDiff :: "nat \<Rightarrow> value cx" where
  "blockDiff bb =
     cbind (cget cx_intTy) (\<lambda>it.
     cbind curFn (\<lambda>f.
     cbind (cget (\<lambda>s. bb_name (ir_blocks s bb))) (\<lambda>n1.
     cbind (name_of_fn f) (\<lambda>n2.
     cbind (blockAddr bb) (\<lambda>ba.
     createGlobalAlias it (n1 @ ''_sub_'' @ n2)
       (const_diff it ba (VConstCast PtrToInt (VFn f) it)))))))"

definition evalLabel :: "nat \<Rightarrow> value cx" where
  "evalLabel fn =
     cbind (cget (\<lambda>s. ti_hasPCRel (cx_target s))) (\<lambda>pcrel.
     if pcrel then
       cbind (cget cx_intTy) (\<lambda>it.
       cbind (name_of_fn fn) (\<lambda>n.
       createGlobalAlias it (n @ ''_alias'') (const_diff it (VFn fn) (const_of it 0))))
     else
       cbind (cbind (cget (\<lambda>s. getBasePtr (cx_regState s)))
               (cthe (AssertFailed ''basePtr is not defined''))) (\<lambda>b.
       cbind curFn (\<lambda>f.
       cbind (labelDiff fn f) (\<lambda>d.
       cbind (createAdd b d) (\<lambda>a. CreateCast IntToPtr a mlValueTy)))))"

section \<open>Allocation\<close>

text \<open>The loop of \<open>allocRecord\<close> from field \<open>i\<close> on.\<close>

primrec alloc_fields :: "value \<Rightarrow> nat \<Rightarrow> value list \<Rightarrow> unit cx" where
  "alloc_fields allocPtr i [] = creturn ()"
| "alloc_fields allocPtr i (v # vs) =
     cthen
       (cbind (asMLValue v) (\<lambda>v.
        cbind (createGEP_i allocPtr (int i)) (\<lambda>a.
        cbind wordAlign (\<lambda>al.
        ir_exec (Store v a al)))))
       (alloc_fields allocPtr (i + 1) vs)"

definition allocRecord :: "value \<Rightarrow> value list \<Rightarrow> value cx" where
  "allocRecord desc args =
     cbind (cget cx_intTy) (\<lambda>it.
     cthen (cassert (type_of desc = it) ''descriptor should be an integer'')
     (cbind (mlReg ALLOC_PTR) (\<lambda>allocPtr.
      cbind wordAlign (\<lambda>al.
      cthen (ir_exec (Store desc allocPtr al))
      (cthen (alloc_fields allocPtr 1 args)
      (cbind (cbind (createGEP_i allocPtr 1) asMLValue) (\<lambda>obj.
       cthen (cbind (createGEP_i allocPtr (int (length args) + 1)) (setMLReg ALLOC_PTR))
       (creturn obj))))))))"

definition allocRecord_const :: "u64 \<Rightarrow> value list \<Rightarrow> value cx" where
  "allocRecord_const desc args =
     cbind (cbind (uConst desc) asMLValue) (\<lambda>d. allocRecord d args)"

section \<open>Garbage collection and overflow\<close>

primrec gc_restore :: "value \<Rightarrow> CMRegId list \<Rightarrow> nat \<Rightarrow> unit cx" where
  "gc_restore call [] hwIx = creturn ()"
| "gc_restore call (r # rs) hwIx =
     cbind (get_reg_info r) (\<lambda>info.
       if isMachineReg info then
         cbind (createExtractValue call hwIx) (\<lambda>reg.
         cthen (setMLReg (ri_id info) reg) (gc_restore call rs (hwIx + 1)))
       else gc_restore call rs hwIx)"

primrec gc_newRoots :: "value \<Rightarrow> lvar list \<Rightarrow> nat \<Rightarrow> unit cx" where
  "gc_newRoots call [] ix = creturn ()"
| "gc_newRoots call (lv # lvs) ix =
     cthen (cbind (createExtractValue call ix) (insertVal lv)) (gc_newRoots call lvs (ix + 1))"

definition callGC :: "value list \<Rightarrow> lvar list \<Rightarrow> unit cx" where
  "callGC roots newRoots =
     cbind (cget cx_gcFnTy) (\<lambda>ft.
     cthen (cassert (length (ft_params ft) = length roots) ''arity mismatch in GC call'')
     (cbind (cbind (cget (\<lambda>s. ti_callGCOffset (cx_target s))) loadFromStack) (\<lambda>callGCFn.
      cbind (createBitCast callGCFn PtrTy) (\<lambda>f.
      cbind (ir_append (Call ft f roots CC_JWA TCK_NoTail)) (\<lambda>call.
      cthen (gc_restore call reg_ids 0)
      (cbind (cget (\<lambda>s. numMachineRegs (cx_regInfo s))) (\<lambda>ix.
       gc_newRoots call newRoots ix)))))))"

text \<open>The weights of the two branches, the true one first; both are 32-bit constants.\<close>

definition branchProb :: "int \<Rightarrow> int \<times> int" where
  "branchProb prob = (prob, 1000 - prob)"

definition overflowWeights :: "int \<times> int" where
  "overflowWeights = branchProb 1"

definition make_overflowBB :: "nat \<Rightarrow> nat \<Rightarrow> unit cx" where
  "make_overflowBB srcBB nArgs =
     cbind (newBB ''overflow'') (\<lambda>bb.
     cthen (cmodify (\<lambda>s. s\<lparr>cx_overflowBB := Some bb\<rparr>))
     (cthen (SetInsertPoint bb)
     (cbind (cmap (\<lambda>_.
        cbind (CreatePHI PtrTy) (\<lambda>phi.
        cthen (cmodify (\<lambda>s. s\<lparr>cx_overflowPhiNodes := cx_overflowPhiNodes s @ [phi]\<rparr>))
        (creturn phi))) [0..<nArgs]) (\<lambda>args.
      cbind (cbind (cget (\<lambda>s. ti_raiseOvflwOffset (cx_target s))) loadFromStack) (\<lambda>raiseFn.
      cbind (cget cx_raiseOverflowFnTy) (\<lambda>ft.
      cbind (createBitCast raiseFn PtrTy) (\<lambda>f.
      cthen (cbind (ir_append (Call ft f args CC_JWA TCK_NoTail)) (\<lambda>_. creturn ()))
      (cthen (ir_exec RetVoid)
      (SetInsertPoint srcBB)))))))))"

definition getOverflowBB :: "nat cx" where
  "getOverflowBB =
     cbind GetInsertBlock (\<lambda>srcBB.
     cbind (cget (\<lambda>s. numMachineRegs (cx_regInfo s))) (\<lambda>nArgs.
     cthen (cbind (cget cx_overflowBB) (\<lambda>bb.
              if bb = None then make_overflowBB srcBB nArgs else creturn ()))
     (cbind (cget cx_regInfo) (\<lambda>ri.
      cthen (cforeach [0..<nArgs] (\<lambda>i.
        cbind (cbind (cget cx_overflowPhiNodes) (\<lambda>phis. phi_at phis i)) (\<lambda>phi.
        cbind (reg_value (ri_id (machineReg ri i))) (\<lambda>v.
        phi_addIncoming phi v srcBB))))
      (cbind (cget cx_overflowBB) (cthe (NullPointer ''overflow block'')))))))"

section \<open>Construction\<close>

text \<open>The constructor without the types: no block exists, nothing is bound.  \<open>folder\<close> is the
  constant folder of the builder.\<close>

definition Context_init :: "(instr \<Rightarrow> value option) \<Rightarrow> target_info \<Rightarrow> cgctx" where
  "Context_init folder ti =
     \<lparr>ir_fold = folder, ir_nvals = 0, ir_nblocks = 0, ir_blocks = (\<lambda>_. empty_block),
      ir_phis = (\<lambda>_. []), ir_nmodules = 0, ir_module = None, ir_fns = [], ir_aliases = [],
      ir_insert = None,
      cx_target = ti, cx_regInfo = CMRegs_new (Some ti), cx_regState = CMRegState_new,
      cx_wordSzB = (if ti_wordSz ti = 32 then 4 else 8),
      cx_intTy = (if ti_wordSz ti = 32 then i32Ty else i64Ty),
      cx_moduleName = [], cx_curFn = None, cx_curCluster = None,
      cx_clusterMap = (\<lambda>_. None), cx_fragMap = (\<lambda>_. None), cx_vMap = (\<lambda>_. None),
      cx_gcFnTy = \<lparr>ft_ret = VoidTy, ft_params = []\<rparr>,
      cx_raiseOverflowFnTy = \<lparr>ft_ret = VoidTy, ft_params = []\<rparr>,
      cx_overflowBB = None, cx_overflowPhiNodes = [], cx_intr = (\<lambda>_. None),
      cx_readReg = None, cx_spRegMD = None\<rparr>"

definition init_fn_types :: "unit cx" where
  "init_fn_types =
     cbind (cget cx_target) (\<lambda>ti.
     let n = nat (ti_numCalleeSaves ti + 4) in
     cbind (createParamTys STD_FUN n) (\<lambda>tys.
     let gcTys = tys @ replicate n mlValueTy in
     cthen (cmodify (\<lambda>s. s\<lparr>cx_gcFnTy := \<lparr>ft_ret = StructTy gcTys, ft_params = gcTys\<rparr>\<rparr>))
     (cmodify (\<lambda>s. s\<lparr>cx_raiseOverflowFnTy :=
        \<lparr>ft_ret = VoidTy, ft_params = replicate (numMachineRegs (cx_regInfo s)) PtrTy\<rparr>\<rparr>))))"

definition Context_new :: "(instr \<Rightarrow> value option) \<Rightarrow> target_info \<Rightarrow> cg_error + cgctx" where
  "Context_new folder ti =
     (case init_fn_types (Context_init folder ti) of Inl e \<Rightarrow> Inl e | Inr (_, s) \<Rightarrow> Inr s)"

text \<open>\<open>create\<close> with a name: no context for an unknown target.\<close>

definition create ::
  "build_config \<Rightarrow> (instr \<Rightarrow> value option) \<Rightarrow> string \<Rightarrow> cg_error + cgctx option" where
  "create b folder name =
     (case infoForTarget b name of
        None \<Rightarrow> Inr None
      | Some ti \<Rightarrow> (case Context_new folder ti of Inl e \<Rightarrow> Inl e | Inr s \<Rightarrow> Inr (Some s)))"

end
