(* ===== verification/Prim_Codegen.thy ===== *)
theory Prim_Codegen
  imports Context_Code
begin

unbundle bit_operations_syntax

text \<open>
  \<open>lib-codegen/cfg-prim-codegen.cpp\<close>: code generation for the primitive operations.  Arguments
  are values of the current function; \<open>args[i]\<close> past the end of the vector is the error
  \<open>IndexOutOfRange\<close>, and a \<open>switch\<close> that leaves its result unset is \<open>NoCase\<close>.
\<close>

section \<open>Helpers\<close>

definition numType :: "numkind \<Rightarrow> int \<Rightarrow> lty" where
  "numType k sz = (if k = INT_k then iType sz else fType sz)"

definition bitsToBytes :: "int \<Rightarrow> u32" where
  "bitsToBytes n = drop_bit 3 (word_of_int n)"

definition castArgToInt :: "int \<Rightarrow> value \<Rightarrow> value cx" where
  "castArgToInt sz arg =
     (if type_of arg = mlValueTy then CreateCast PtrToInt arg (iType sz) else creturn arg)"

text \<open>The types of the intrinsics.\<close>

fun intr_ty :: "intrinsic \<Rightarrow> fnty" where
  "intr_ty i =
     (let wo = (\<lambda>t. \<lparr>ft_ret = StructTy [t, IntTy 1], ft_params = [t, t]\<rparr>);
          un = (\<lambda>t. \<lparr>ft_ret = t, ft_params = [t]\<rparr>);
          zs = (\<lambda>t. \<lparr>ft_ret = t, ft_params = [t, IntTy 1]\<rparr>);
          bi = (\<lambda>t. \<lparr>ft_ret = t, ft_params = [t, t]\<rparr>);
          tri = (\<lambda>t. \<lparr>ft_ret = t, ft_params = [t, t, t]\<rparr>)
      in case i of
           Sadd32WO \<Rightarrow> wo i32Ty | Ssub32WO \<Rightarrow> wo i32Ty | Smul32WO \<Rightarrow> wo i32Ty
         | Sadd64WO \<Rightarrow> wo i64Ty | Ssub64WO \<Rightarrow> wo i64Ty | Smul64WO \<Rightarrow> wo i64Ty
         | Ctlz32 \<Rightarrow> zs i32Ty | Cttz32 \<Rightarrow> zs i32Ty | Ctlz64 \<Rightarrow> zs i64Ty | Cttz64 \<Rightarrow> zs i64Ty
         | Ctpop32 \<Rightarrow> un i32Ty | Ctpop64 \<Rightarrow> un i64Ty
         | Fshl32 \<Rightarrow> tri i32Ty | Fshr32 \<Rightarrow> tri i32Ty | Fshl64 \<Rightarrow> tri i64Ty | Fshr64 \<Rightarrow> tri i64Ty
         | Fma32 \<Rightarrow> tri FloatTy | Fabs32 \<Rightarrow> un FloatTy | Sqrt32 \<Rightarrow> un FloatTy
         | Copysign32 \<Rightarrow> bi FloatTy
         | Fma64 \<Rightarrow> tri DoubleTy | Fabs64 \<Rightarrow> un DoubleTy | Sqrt64 \<Rightarrow> un DoubleTy
         | Copysign64 \<Rightarrow> bi DoubleTy)"

definition call_intr :: "intrinsic \<Rightarrow> value list \<Rightarrow> value cx" where
  "call_intr i args =
     cbind (intr_get i) (\<lambda>f. ir_append (Call (intr_ty i) f args CC_C TCK_None))"

section \<open>\<open>alloc\<close>\<close>

text \<open>The conversions without a result variable read it even when the number does not fit.\<close>

definition get_toInt64 :: "integer \<Rightarrow> u64 cx" where
  "get_toInt64 i =
     (case toInt64 i of
        Inl _ \<Rightarrow> cfail UndefinedOverflow
      | Inr n \<Rightarrow> cthe (Uninitialised ''toInt64'') n)"

definition get_toUInt64 :: "integer \<Rightarrow> u64 cx" where
  "get_toUInt64 i = cthe (Uninitialised ''toUInt64'') (toUInt64 i)"

text \<open>A descriptor word.\<close>

definition desc_word :: "integer \<Rightarrow> value cx" where
  "desc_word i = cbind (get_toUInt64 i) uConst"

text \<open>The loop of \<open>RAW_RECORD\<close> over the flds, from a byte offset; the result is the offset
  after the last field.\<close>

definition raw_align :: "int \<Rightarrow> int \<Rightarrow> int" where
  "raw_align offset szb =
     (if offset AND (szb - 1) \<noteq> 0 then (offset + (szb - 1)) AND NOT (szb - 1) else offset)"

primrec raw_fields :: "value \<Rightarrow> int \<Rightarrow> (raw_ty \<times> value) list \<Rightarrow> int cx" where
  "raw_fields obj offset [] = creturn offset"
| "raw_fields obj offset (fa # fas) =
     (let fld = fst fa; arg = snd fa;
          szb = uint (bitsToBytes (rt_sz fld));
          off = raw_align offset szb;
          elemTy = numType (rt_kind fld) (rt_sz fld)
      in cbind (createGEP_ty_i i8Ty obj off) (\<lambda>adr.
         cthen
           (if type_of arg = mlValueTy then
              cbind (cget cx_intTy) (\<lambda>it.
              cthen (cassert (primSize elemTy = primSize it) ''expected native integer field'')
              (createStoreML arg adr))
            else
              cthen (cassert (type_of arg = elemTy) ''type mismatch'')
              (createStore arg adr (bitsToBytes (rt_sz fld))))
           (raw_fields obj (off + szb) fas)))"

definition RAW_RECORD_codegen :: "integer \<Rightarrow> raw_ty list \<Rightarrow> value list \<Rightarrow> value cx" where
  "RAW_RECORD_codegen desc flds args =
     cbind (mlReg ALLOC_PTR) (\<lambda>allocPtr.
     cthen (cassert (length args = length flds) ''incorrect number of fields'')
     (cthen (cbind (desc_word desc) (\<lambda>d. createStoreInt d allocPtr))
     (cbind (cbind (createGEP_i allocPtr 1) asMLValue) (\<lambda>obj.
      cbind (raw_fields obj 0 (zip flds args)) (\<lambda>offset.
      cbind wordSzInBytes (\<lambda>wsz.
      cthen (cbind (createGEP_i obj ((offset + (wsz - 1)) AND NOT (wsz - 1)))
               (setMLReg ALLOC_PTR))
      (creturn obj)))))))"

definition RAW_ALLOC_codegen ::
  "integer option \<Rightarrow> int \<Rightarrow> int \<Rightarrow> value list \<Rightarrow> value cx" where
  "RAW_ALLOC_codegen desc align len args =
     cbind (mlReg ALLOC_PTR) (\<lambda>allocPtr.
     cbind wordSzInBytes (\<lambda>wsz.
     cbind
       (case desc of
          Some d \<Rightarrow>
            cbind (if align > wsz then
                     cbind (cbind (createPtrToInt allocPtr) (\<lambda>i.
                            cbind (uConst (word_of_int (align - wsz))) (createOr i)))
                       createIntToPtr
                   else creturn allocPtr) (\<lambda>ap.
            cthen (cbind (desc_word d) (\<lambda>dv. createStoreML dv ap))
            (creturn ap))
        | None \<Rightarrow>
            cthen (cassert (align = wsz) ''unexpected alignment for spill record'')
            (creturn allocPtr)) (\<lambda>ap.
     cbind (cbind (createGEP_i ap 1) (\<lambda>a. createBitCast a mlValueTy)) (\<lambda>obj.
     cthen (cbind (cbind (createGEP_ty_i i8Ty ap (len + wsz)) (\<lambda>a. createBitCast a PtrTy))
              (setMLReg ALLOC_PTR))
     (creturn obj)))))"

definition alloc_codegen :: "alloc \<Rightarrow> value list \<Rightarrow> value cx" where
  "alloc_codegen op args =
     (case op of
        SPECIAL \<Rightarrow>
          cthen (cassert (length args = 2) ''expected descriptor and content'')
          (cbind (cnth args 0) (\<lambda>a0. cbind (asInt a0) (\<lambda>d.
           cbind (cnth args 1) (\<lambda>a1. allocRecord d [a1]))))
      | RECORD desc _ \<Rightarrow> cbind (desc_word desc) (\<lambda>d. allocRecord d args)
      | RAW_RECORD desc _ flds \<Rightarrow> RAW_RECORD_codegen desc flds args
      | RAW_ALLOC desc align len \<Rightarrow> RAW_ALLOC_codegen desc align len args)"

section \<open>\<open>arith\<close>\<close>

text \<open>The end of \<open>ARITH::codegen\<close>: branch to the overflow block when the overflow bit is set.\<close>

definition overflow_check :: "value \<Rightarrow> value cx" where
  "overflow_check pair =
     cbind (createExtractValue pair 0) (\<lambda>res.
     cbind (createExtractValue pair 1) (\<lambda>obit.
     cbind (newBB ''ok'') (\<lambda>next.
     cbind getOverflowBB (\<lambda>ovfl.
     cthen (ir_exec (CondBr obit ovfl next (Some overflowWeights)))
     (cthen (SetInsertPoint next)
     (creturn res))))))"

definition ARITH_codegen :: "arithop \<Rightarrow> int \<Rightarrow> value list \<Rightarrow> value cx" where
  "ARITH_codegen oper sz argv =
     cthen (cassert (length argv = 2) ''expected two arguments'')
     (cbind (cbind (cnth argv 0) (asInt_sz sz)) (\<lambda>a0.
      cbind (cbind (cnth argv 1) (asInt_sz sz)) (\<lambda>a1.
      case oper of
        IADD \<Rightarrow> cbind (call_intr (if sz = 32 then Sadd32WO else Sadd64WO) [a0, a1]) overflow_check
      | ISUB \<Rightarrow> cbind (call_intr (if sz = 32 then Ssub32WO else Ssub64WO) [a0, a1]) overflow_check
      | IMUL \<Rightarrow> cbind (call_intr (if sz = 32 then Smul32WO else Smul64WO) [a0, a1]) overflow_check
      | IDIV \<Rightarrow> createSDiv a0 a1
      | IREM \<Rightarrow> createSRem a0 a1
      | arithop_other _ \<Rightarrow> cfail (NoCase ''ARITH''))))"

definition arith_codegen :: "arith \<Rightarrow> value list \<Rightarrow> value cx" where
  "arith_codegen op args =
     (case op of
        ARITH_prim oper sz \<Rightarrow> ARITH_codegen oper sz args
      | FLOAT_TO_INT _ _ to \<Rightarrow> cbind (cnth args 0) (\<lambda>a. createFPToSI a (iType to)))"

section \<open>\<open>pure\<close>\<close>

text \<open>An operation on two integers, with the coercions of \<open>PURE_ARITH\<close>.\<close>

definition int_op2 :: "(value \<Rightarrow> value \<Rightarrow> value cx) \<Rightarrow> int \<Rightarrow> value list \<Rightarrow> value cx" where
  "int_op2 f sz args =
     cbind (cbind (cnth args 0) (asInt_sz sz)) (\<lambda>a.
     cbind (cbind (cnth args 1) (asInt_sz sz)) (\<lambda>b. f a b))"

definition flt_op2 :: "(value \<Rightarrow> value \<Rightarrow> value cx) \<Rightarrow> value list \<Rightarrow> value cx" where
  "flt_op2 f args = cbind (cnth args 0) (\<lambda>a. cbind (cnth args 1) (\<lambda>b. f a b))"

definition count_zeros :: "intrinsic \<Rightarrow> value list \<Rightarrow> value cx" where
  "count_zeros i args = cbind (cnth args 0) (\<lambda>a. call_intr i [a, VInt 1 0])"

definition rotate_op :: "intrinsic \<Rightarrow> value list \<Rightarrow> value cx" where
  "rotate_op i args = cbind (cnth args 0) (\<lambda>a. cbind (cnth args 1) (\<lambda>b. call_intr i [a, a, b]))"

definition PURE_ARITH_codegen :: "pureop \<Rightarrow> int \<Rightarrow> value list \<Rightarrow> value cx" where
  "PURE_ARITH_codegen oper sz args =
     (let is32 = (sz = 32) in
      case oper of
        ADD \<Rightarrow> int_op2 createAdd sz args
      | SUB \<Rightarrow> int_op2 createSub sz args
      | MUL \<Rightarrow> int_op2 createMul sz args
      | SDIV \<Rightarrow> int_op2 createSDiv sz args
      | SREM \<Rightarrow> int_op2 createSRem sz args
      | UDIV \<Rightarrow> int_op2 createUDiv sz args
      | UREM \<Rightarrow> int_op2 createURem sz args
      | SHL \<Rightarrow> int_op2 createShl sz args
      | ASHR \<Rightarrow> int_op2 createAShr sz args
      | LSHR \<Rightarrow> int_op2 createLShr sz args
      | ORB \<Rightarrow> int_op2 createOr sz args
      | XORB \<Rightarrow> int_op2 createXor sz args
      | ANDB \<Rightarrow> int_op2 createAnd sz args
      | CNTPOP \<Rightarrow> call_intr (if is32 then Ctpop32 else Ctpop64) args
      | CNTLZ \<Rightarrow> count_zeros (if is32 then Ctlz32 else Ctlz64) args
      | CNTTZ \<Rightarrow> count_zeros (if is32 then Cttz32 else Cttz64) args
      | ROTL \<Rightarrow> rotate_op (if is32 then Fshl32 else Fshl64) args
      | ROTR \<Rightarrow> rotate_op (if is32 then Fshr32 else Fshr64) args
      | FADD \<Rightarrow> flt_op2 createFAdd args
      | FSUB \<Rightarrow> flt_op2 createFSub args
      | FMUL \<Rightarrow> flt_op2 createFMul args
      | FDIV \<Rightarrow> flt_op2 createFDiv args
      | FREM \<Rightarrow> flt_op2 createFRem args
      | FMADD \<Rightarrow> call_intr (if is32 then Fma32 else Fma64) args
      | FNEG \<Rightarrow> cbind (cnth args 0) createFNeg
      | FABS \<Rightarrow> call_intr (if is32 then Fabs32 else Fabs64) args
      | FCOPYSIGN \<Rightarrow> call_intr (if is32 then Copysign32 else Copysign64) args
      | FSQRT \<Rightarrow> call_intr (if is32 then Sqrt32 else Sqrt64) args
      | pureop_other _ \<Rightarrow> cfail (NoCase ''PURE_ARITH''))"

definition EXTEND_codegen :: "bool \<Rightarrow> int \<Rightarrow> value list \<Rightarrow> value cx" where
  "EXTEND_codegen sg to args =
     cbind (cnth args 0) (\<lambda>a.
       if type_of a \<noteq> mlValueTy then
         (if sg then createSExt a (iType to) else createZExt a (iType to))
       else
         cthen (cassert (\<not> sg) ''unexpected sign extension of ML llvm::Value'')
         (cbind (cget cx_intTy) (\<lambda>it.
          cthen (cassert (iType to = it) ''EXTEND'') (creturn a))))"

text \<open>A load of an element of a type, from an index or a byte offset.\<close>

definition raw_load :: "lty \<Rightarrow> numkind \<Rightarrow> int \<Rightarrow> value list \<Rightarrow> value cx" where
  "raw_load idxTy kind sz args =
     cbind (cnth args 0) (\<lambda>a. cbind (cnth args 1) (\<lambda>i.
     cbind (createGEP_ty idxTy a i) (\<lambda>adr.
     createLoad_align (numType kind sz) adr (bitsToBytes sz))))"

definition subscript :: "value list \<Rightarrow> value cx" where
  "subscript args =
     cbind (cbind (cnth args 0) asPtr) (\<lambda>b.
     cbind (cbind (cnth args 1) asInt) (\<lambda>i.
     cbind (createGEP b i) (\<lambda>adr.
     ir_append (Load mlValueTy adr None False))))"

definition pure_codegen :: "pure \<Rightarrow> value list \<Rightarrow> value cx" where
  "pure_codegen op args =
     (case op of
        PURE_ARITH oper sz \<Rightarrow> PURE_ARITH_codegen oper sz args
      | EXTEND sg _ to \<Rightarrow> EXTEND_codegen sg to args
      | TRUNC _ to \<Rightarrow> cbind (cnth args 0) (\<lambda>a. createTrunc a (iType to))
      | INT_TO_FLOAT _ to \<Rightarrow> cbind (cnth args 0) (\<lambda>a. createSIToFP a (fType to))
      | FLOAT_TO_BITS sz \<Rightarrow> cbind (cnth args 0) (\<lambda>a. createBitCast a (iType sz))
      | BITS_TO_FLOAT sz \<Rightarrow> cbind (cnth args 0) (\<lambda>a. createBitCast a (fType sz))
      | PURE_SUBSCRIPT \<Rightarrow> subscript args
      | PURE_RAW_SUBSCRIPT kind sz \<Rightarrow> raw_load (numType kind sz) kind sz args
      | RAW_SELECT kind sz offset \<Rightarrow>
          cbind (cbind (cnth args 0) asPtr) (\<lambda>a.
          cbind (uConst (word_of_int offset)) (\<lambda>off.
          cbind (createGEP_ty i8Ty a off) (\<lambda>adr.
          createLoad_align (numType kind sz) adr (bitsToBytes sz)))))"

section \<open>\<open>looker\<close>\<close>

definition looker_codegen :: "looker \<Rightarrow> value list \<Rightarrow> value cx" where
  "looker_codegen op args =
     (case op of
        DEREF \<Rightarrow>
          cbind (cbind (cnth args 0) asPtr) (\<lambda>a. ir_append (Load mlValueTy a None False))
      | SUBSCRIPT \<Rightarrow> subscript args
      | RAW_SUBSCRIPT kind sz \<Rightarrow> raw_load (numType kind sz) kind sz args
      | RAW_LOAD kind sz \<Rightarrow> raw_load i8Ty kind sz args
      | GET_HDLR \<Rightarrow> mlReg EXN_HNDLR
      | GET_VAR \<Rightarrow> mlReg VAR_PTR)"

section \<open>\<open>setter\<close>\<close>

definition recordStore :: "value \<Rightarrow> unit cx" where
  "recordStore adr =
     cbind (mlReg ALLOC_PTR) (\<lambda>allocPtr.
     cbind (mlReg STORE_PTR) (\<lambda>storePtr.
     cthen (cbind (createGEP_i allocPtr 0) (createStoreML adr))
     (cthen (cbind (createGEP_i allocPtr 1) (createStoreML storePtr))
     (cthen (setMLReg STORE_PTR allocPtr)
     (cbind (createGEP_i allocPtr 2) (setMLReg ALLOC_PTR))))))"

definition setter_codegen :: "setter \<Rightarrow> value list \<Rightarrow> unit cx" where
  "setter_codegen op args =
     (case op of
        UNBOXED_UPDATE \<Rightarrow>
          cbind (cnth args 2) (\<lambda>v. cbind (cnth args 0) (\<lambda>a. cbind (cnth args 1) (\<lambda>i.
          cbind (createGEP_ty mlValueTy a i) (createStoreML v))))
      | UPDATE \<Rightarrow>
          cbind (cnth args 0) (\<lambda>a. cbind (cnth args 1) (\<lambda>i.
          cbind (createGEP_ty mlValueTy a i) (\<lambda>adr.
          cthen (recordStore adr)
          (cbind (cnth args 2) (\<lambda>v. createStoreML v adr)))))
      | UNBOXED_ASSIGN \<Rightarrow>
          cbind (cbind (cnth args 1) asInt) (\<lambda>v.
          cbind (cbind (cnth args 0) asMLValue) (\<lambda>a.
          cbind wordSzInBytes (\<lambda>w. createStore v a (word_of_int w))))
      | ASSIGN \<Rightarrow>
          cbind (cnth args 0) (\<lambda>a.
          cthen (recordStore a)
          (cbind (cnth args 1) (\<lambda>v. createStoreML v a)))
      | RAW_UPDATE kind sz \<Rightarrow>
          cbind (cnth args 0) (\<lambda>a. cbind (cnth args 1) (\<lambda>i.
          cbind (createGEP_ty (numType kind sz) a i) (\<lambda>adr.
          cbind (cnth args 2) (\<lambda>v.
            if type_of v = mlValueTy then
              cbind (cget cx_intTy) (\<lambda>it.
              cthen (cassert (numType kind sz = it) ''expected native integer field'')
              (createStoreML v adr))
            else createStore v adr (bitsToBytes sz)))))
      | RAW_STORE kind sz \<Rightarrow>
          cbind (cnth args 0) (\<lambda>a. cbind (cnth args 1) (\<lambda>i.
          cbind (createGEP_ty i8Ty a i) (\<lambda>adr.
          cbind (cnth args 2) (\<lambda>v. createStore v adr (bitsToBytes sz)))))
      | SET_HDLR \<Rightarrow> cbind (cnth args 0) (setMLReg EXN_HNDLR)
      | SET_VAR \<Rightarrow> cbind (cnth args 0) (setMLReg VAR_PTR))"

section \<open>\<open>branch\<close>\<close>

definition ICmpMap :: "icmp_pred list" where
  "ICmpMap =
     [ICMP_SGT, ICMP_UGT, ICMP_SGE, ICMP_UGE, ICMP_SLT, ICMP_ULT, ICMP_SLE, ICMP_ULE,
      ICMP_EQ, ICMP_EQ, ICMP_NE, ICMP_NE]"

text \<open>The numbers of the enumerators; a value outside the enumeration indexes past the table.\<close>

definition cmpop_num :: "cmpop \<Rightarrow> nat option" where
  "cmpop_num c =
     (case c of GT \<Rightarrow> Some 1 | GTE \<Rightarrow> Some 2 | LT \<Rightarrow> Some 3 | LTE \<Rightarrow> Some 4 | EQL \<Rightarrow> Some 5
      | NEQ \<Rightarrow> Some 6 | cmpop_other _ \<Rightarrow> None)"

definition CMP_pred :: "cmpop \<Rightarrow> bool \<Rightarrow> icmp_pred option" where
  "CMP_pred oper sg =
     (case cmpop_num oper of
        None \<Rightarrow> None
      | Some n \<Rightarrow> (let idx = 2 * (n - 1) + (if sg then 0 else 1) in Some (ICmpMap ! idx)))"

definition FCmpMap :: "fcmp_pred list" where
  "FCmpMap =
     [FCMP_OEQ, FCMP_UNE, FCMP_ONE, FCMP_ORD, FCMP_OGT, FCMP_OGE, FCMP_UGT, FCMP_UGE,
      FCMP_OLT, FCMP_OLE, FCMP_ULT, FCMP_ULE, FCMP_ONE, FCMP_UEQ]"

definition fcmpop_num :: "fcmpop \<Rightarrow> nat option" where
  "fcmpop_num c =
     (case c of F_EQ \<Rightarrow> Some 1 | F_ULG \<Rightarrow> Some 2 | F_UN \<Rightarrow> Some 3 | F_LEG \<Rightarrow> Some 4 | F_GT \<Rightarrow> Some 5
      | F_GE \<Rightarrow> Some 6 | F_UGT \<Rightarrow> Some 7 | F_UGE \<Rightarrow> Some 8 | F_LT \<Rightarrow> Some 9 | F_LE \<Rightarrow> Some 10
      | F_ULT \<Rightarrow> Some 11 | F_ULE \<Rightarrow> Some 12 | F_LG \<Rightarrow> Some 13 | F_UE \<Rightarrow> Some 14
      | fcmpop_other _ \<Rightarrow> None)"

definition FCMP_pred :: "fcmpop \<Rightarrow> fcmp_pred option" where
  "FCMP_pred oper =
     (case fcmpop_num oper of None \<Rightarrow> None | Some n \<Rightarrow> Some (FCmpMap ! (n - 1)))"

definition LIMIT_codegen :: "u32 \<Rightarrow> value cx" where
  "LIMIT_codegen amt =
     cbind (cget (\<lambda>s. ti_allocSlopSzb (cx_target s))) (\<lambda>allocSlop.
     if amt > allocSlop then
       cbind (cbind (mlReg ALLOC_PTR) (\<lambda>ap.
              cbind (uConst (ucast (amt - allocSlop))) (\<lambda>c. createAdd ap c))) (\<lambda>a.
       cbind (cbind (mlReg LIMIT_PTR) asInt) (\<lambda>l. createICmp ICMP_UGT a l))
     else
       cbind (cbind (mlReg ALLOC_PTR) asInt) (\<lambda>a.
       cbind (cbind (mlReg LIMIT_PTR) asInt) (\<lambda>l. createICmp ICMP_UGT a l)))"

definition branch_codegen :: "branch \<Rightarrow> value list \<Rightarrow> value cx" where
  "branch_codegen op args =
     (case op of
        CMP oper sg sz \<Rightarrow>
          cbind (cthe IndexOutOfRange (CMP_pred oper sg)) (\<lambda>p.
          cbind (cbind (cnth args 0) (asInt_sz sz)) (\<lambda>a.
          cbind (cbind (cnth args 1) (asInt_sz sz)) (\<lambda>b. createICmp p a b)))
      | FCMP oper _ \<Rightarrow>
          cbind (cthe IndexOutOfRange (FCMP_pred oper)) (\<lambda>p. flt_op2 (createFCmp p) args)
      | FSGN sz \<Rightarrow>
          cbind (cnth args 0) (\<lambda>a. cbind (createBitCast a (iType sz)) (\<lambda>i.
          createICmpSLT i (iConst_sz sz 0)))
      | PEQL \<Rightarrow> flt_op2 createICmpEQ args
      | PNEQ \<Rightarrow> flt_op2 createICmpNE args
      | LIMIT amt \<Rightarrow> LIMIT_codegen amt)"

end
