(* ===== verification/Codegen.thy ===== *)
theory Codegen
  imports Prim_Codegen
begin

text \<open>
  \<open>lib-codegen/cfg-init.cpp\<close> and \<open>lib-codegen/cfg-codegen.cpp\<close>: initialisation (one basic block
  for each statement that starts one, phi nodes for internal fragments, a function per cluster)
  and code generation.  \<open>init\<close> changes its object; here it returns the object with its new
  fields, and the maps of the context hold initialised objects.
\<close>

section \<open>Types\<close>

definition ty_codegen :: "ty \<Rightarrow> lty cx" where
  "ty_codegen t =
     (case t of
        LABt \<Rightarrow> creturn mlValueTy
      | PTRt \<Rightarrow> creturn mlValueTy
      | TAGt \<Rightarrow> cget cx_intTy
      | NUMt sz \<Rightarrow> creturn (iType sz)
      | FLTt sz \<Rightarrow> creturn (fType sz))"

definition genTypes :: "ty list \<Rightarrow> lty list cx" where
  "genTypes tys = cmap ty_codegen tys"

section \<open>Initialisation\<close>

definition initBB :: "bool \<Rightarrow> block_id option cx" where
  "initBB blkEntry =
     (if blkEntry then cbind (newBB []) (\<lambda>b. creturn (Some b)) else creturn None)"

fun stm_init :: "stm \<Rightarrow> bool \<Rightarrow> stm cx" where
  "stm_init (LET _ e p k) ent =
     cbind (initBB ent) (\<lambda>b. cbind (stm_init k False) (\<lambda>k. creturn (LET b e p k)))"
| "stm_init (ALLOC _ a es x k) ent =
     cbind (initBB ent) (\<lambda>b. cbind (stm_init k False) (\<lambda>k. creturn (ALLOC b a es x k)))"
| "stm_init (APPLY _ f args tys) ent =
     cbind (initBB ent) (\<lambda>b. creturn (APPLY b f args tys))"
| "stm_init (THROW _ f args tys) ent =
     cbind (initBB ent) (\<lambda>b. creturn (THROW b f args tys))"
| "stm_init (GOTO _ lab args) ent =
     cbind (initBB ent) (\<lambda>b. creturn (GOTO b lab args))"
| "stm_init (SWITCH _ e arms) ent =
     cbind (initBB ent) (\<lambda>b.
     cbind (cmap (\<lambda>arm. stm_init arm True) arms) (\<lambda>arms. creturn (SWITCH b e arms)))"
| "stm_init (BRANCH _ br es prob k1 k2) ent =
     cbind (initBB ent) (\<lambda>b.
     cbind (stm_init k1 True) (\<lambda>k1.
     cbind (stm_init k2 True) (\<lambda>k2. creturn (BRANCH b br es prob k1 k2))))"
| "stm_init (ARITH _ a es p k) ent =
     cbind (initBB ent) (\<lambda>b. cbind (stm_init k False) (\<lambda>k. creturn (ARITH b a es p k)))"
| "stm_init (SETTER _ op es k) ent =
     cbind (initBB ent) (\<lambda>b. cbind (stm_init k False) (\<lambda>k. creturn (SETTER b op es k)))"
| "stm_init (CALLGC _ roots newRoots k) ent =
     cbind (initBB ent) (\<lambda>b.
     cbind (stm_init k False) (\<lambda>k. creturn (CALLGC b roots newRoots k)))"
| "stm_init (RCC _ reentrant linkage proto args results live k) ent =
     cbind (initBB ent) (\<lambda>b.
     cbind (stm_init k False) (\<lambda>k. creturn (RCC b reentrant linkage proto args results live k)))"

definition bb_of :: "stm \<Rightarrow> block_id cx" where
  "bb_of s = cthe (NullPointer ''basic block'') (stm_bb s)"

text \<open>The decimal digits of a label, as \<open>std::to_string\<close> writes them.\<close>

fun dec_digits :: "nat \<Rightarrow> string" where
  "dec_digits n =
     (if n < 10 then [char_of (48 + n)] else dec_digits (n div 10) @ [char_of (48 + n mod 10)])"

definition lvar_string :: "lvar \<Rightarrow> string" where
  "lvar_string x = (if x < 0 then ''-'' @ dec_digits (nat (- x)) else dec_digits (nat x))"

definition set_bb_name :: "block_id \<Rightarrow> string \<Rightarrow> unit cx" where
  "set_bb_name b name =
     cmodify (\<lambda>s. s\<lparr>ir_blocks := (ir_blocks s)(b := (ir_blocks s b)\<lparr>bb_name := name\<rparr>)\<rparr>)"

definition phi_num :: "value \<Rightarrow> nat cx" where
  "phi_num v = (case v of VInst n _ \<Rightarrow> creturn n | _ \<Rightarrow> cfail (NullPointer ''phi node''))"

definition frag_init :: "frag \<Rightarrow> frag cx" where
  "frag_init fr =
     cbind (stm_init (f_body fr) True) (\<lambda>body.
     cbind (bb_of body) (\<lambda>bb.
     cthen (set_bb_name bb (''L_'' @ lvar_string (f_lab fr)))
     (cbind
       (if f_kind fr = INTERNAL then
          cbind (createParamTys (f_kind fr) (length (f_params fr))) (\<lambda>tys.
          cbind (cmap (\<lambda>p. ty_codegen (p_ty p)) (f_params fr)) (\<lambda>ptys.
          cthen (SetInsertPoint bb)
          (cmap CreatePHI (tys @ ptys))))
        else creturn []) (\<lambda>phis.
      let fr' = fr\<lparr>f_body := body, f_phiNodes := phis\<rparr>
      in cthen (insertFrag (f_lab fr) fr') (creturn fr')))))"

definition cluster_init :: "cluster \<Rightarrow> bool \<Rightarrow> cluster cx" where
  "cluster_init c isEntry =
     cthen (cassert (length (c_frags c) > 0) ''no fragments'')
     (let ent = c_frags c ! 0 in
      cthen (setCluster c)
      (cbind (cmap (\<lambda>p. ty_codegen (p_ty p)) (f_params ent)) (\<lambda>ptys.
       cbind (createFnTy (f_kind ent) ptys) (\<lambda>fnTy.
       cbind (newFunction fnTy ((if isEntry then ''entry'' else ''fn'') @ lvar_string (f_lab ent))
                isEntry) (\<lambda>f.
       let c' = c\<lparr>c_fn := Some f\<rparr>
       in cthen (insertCluster (f_lab ent) c') (creturn c'))))))"

section \<open>Expressions\<close>

definition cluster_fn :: "cluster \<Rightarrow> nat cx" where
  "cluster_fn c = cthe (NullPointer ''function of the cluster'') (c_fn c)"

fun exp_codegen :: "exp \<Rightarrow> value cx" where
  "exp_codegen (VAR x) = cbind (lookupVal x) (cthe (AssertFailed ''unbound variable''))"
| "exp_codegen (LABEL lab) =
     cbind (cbind (lookupCluster lab) (cthe (AssertFailed ''Unknown cluster label''))) (\<lambda>c.
     cbind (cluster_fn c) evalLabel)"
| "exp_codegen (NUM iv sz) =
     (if getSign iv < 0 then cbind (get_toInt64 iv) (\<lambda>n. creturn (iConst_sz sz n))
      else cbind (get_toUInt64 iv) (\<lambda>n. creturn (uConst_sz sz n)))"
| "exp_codegen (LOOKER op args) = cbind (cmap exp_codegen args) (looker_codegen op)"
| "exp_codegen (PURE op args) = cbind (cmap exp_codegen args) (pure_codegen op)"
| "exp_codegen (SELECT idx e) =
     cbind (cbind (exp_codegen e) asPtr) (\<lambda>b.
     cbind (createGEP_i b idx) (\<lambda>adr.
     cbind (createLoad mlValueTy adr) setInvarianteLoadMD))"

definition exps_codegen :: "exp list \<Rightarrow> value list cx" where
  "exps_codegen es = cmap exp_codegen es"

section \<open>Calls\<close>

text \<open>An actual argument for a parameter of a type.\<close>

definition coerce_arg :: "lty \<Rightarrow> value \<Rightarrow> value cx" where
  "coerce_arg paramTy v =
     (if paramTy \<noteq> type_of v then castTy (type_of v) paramTy v else creturn v)"

primrec setup_args :: "fnty \<Rightarrow> nat \<Rightarrow> exp list \<Rightarrow> value list cx" where
  "setup_args fnTy i [] = creturn []"
| "setup_args fnTy i (e # es) =
     cbind (exp_codegen e) (\<lambda>arg.
     cbind (cnth (ft_params fnTy) i) (\<lambda>paramTy.
     cbind (coerce_arg paramTy arg) (\<lambda>arg.
     cbind (setup_args fnTy (i + 1) es) (\<lambda>args. creturn (arg # args)))))"

definition SetupStdArgs :: "fnty \<Rightarrow> frag_kind \<Rightarrow> exp list \<Rightarrow> value list cx" where
  "SetupStdArgs fnTy fk cfgArgs =
     cbind (createArgs fk (length cfgArgs)) (\<lambda>args.
     cbind (setup_args fnTy (length args) cfgArgs) (\<lambda>args'. creturn (args @ args')))"

text \<open>The check on the number of argument registers; \<open>reserved\<close> is 2 for a continuation.\<close>

definition check_nargs :: "int \<Rightarrow> ty list \<Rightarrow> unit cx" where
  "check_nargs reserved tys =
     cbind (cget cx_target) (\<lambda>ti.
     cassert
       (int (length (filter (\<lambda>t. \<not> isFLTt t) tys)) \<le> ti_numGPArgRegs ti - reserved \<and>
        int (length (filter isFLTt tys)) \<le> ti_numFPArgRegs ti) ''too many arguments'')"

text \<open>The function of a call: a label of a cluster, or the value of an expression.  The result
  is the kind of the callee, its type and its address.\<close>

definition APPLY_callee :: "exp \<Rightarrow> ty list \<Rightarrow> (frag_kind \<times> fnty \<times> value) cx" where
  "APPLY_callee e tys =
     (case e of
        LABEL lab \<Rightarrow>
          cbind (cbind (lookupCluster lab) (cthe (AssertFailed ''APPLY of unknown cluster''))) (\<lambda>c.
          cbind (cthe IndexOutOfRange (cluster_entry c)) (\<lambda>en.
          cbind (cluster_fn c) (\<lambda>f.
          cbind (fn_type f) (\<lambda>ft. creturn (f_kind en, ft, VFn f)))))
      | _ \<Rightarrow>
          cbind (cbind (genTypes tys) (createFnTy STD_FUN)) (\<lambda>ft.
          cbind (cbind (exp_codegen e) (\<lambda>v. createBitCast v PtrTy)) (\<lambda>f.
          creturn (STD_FUN, ft, f))))"

definition THROW_callee :: "exp \<Rightarrow> ty list \<Rightarrow> (fnty \<times> value) cx" where
  "THROW_callee e tys =
     (case e of
        LABEL lab \<Rightarrow>
          cbind (cbind (lookupCluster lab) (cthe (AssertFailed ''THROW of unknown cluster''))) (\<lambda>c.
          cbind (cluster_fn c) (\<lambda>f.
          cbind (fn_type f) (\<lambda>ft. creturn (ft, VFn f))))
      | _ \<Rightarrow>
          cbind (cbind (genTypes tys) (createFnTy STD_CONT)) (\<lambda>ft.
          cbind (cbind (exp_codegen e) (\<lambda>v. createBitCast v PtrTy)) (\<lambda>f. creturn (ft, f))))"

definition APPLY_codegen :: "exp \<Rightarrow> exp list \<Rightarrow> ty list \<Rightarrow> unit cx" where
  "APPLY_codegen f args tys =
     cbind (APPLY_callee f tys) (\<lambda>(fk, fnTy, fn).
     cthen (check_nargs 0 tys)
     (cbind (SetupStdArgs fnTy fk args) (\<lambda>vs.
      cbind (createJWACall fnTy fn vs) (\<lambda>_. ir_exec RetVoid))))"

definition THROW_codegen :: "exp \<Rightarrow> exp list \<Rightarrow> ty list \<Rightarrow> unit cx" where
  "THROW_codegen f args tys =
     cbind (THROW_callee f tys) (\<lambda>(fnTy, fn).
     cthen (check_nargs 2 tys)
     (cbind (SetupStdArgs fnTy STD_CONT args) (\<lambda>vs.
      cbind (createJWACall fnTy fn vs) (\<lambda>_. ir_exec RetVoid))))"

text \<open>\<open>frag::addIncoming\<close> for the outgoing values, with a cast in the source block where the types
  differ.\<close>

primrec goto_phis :: "value list \<Rightarrow> nat \<Rightarrow> value list \<Rightarrow> nat \<Rightarrow> unit cx" where
  "goto_phis phis i [] srcBB = creturn ()"
| "goto_phis phis i (v # vs) srcBB =
     cthen
       (cbind (cnth phis i) (\<lambda>phi.
        cbind (coerce_arg (type_of phi) v) (\<lambda>v. phi_addIncoming phi v srcBB)))
       (goto_phis phis (i + 1) vs srcBB)"

definition GOTO_codegen :: "lvar \<Rightarrow> exp list \<Rightarrow> unit cx" where
  "GOTO_codegen lab args =
     cbind GetInsertBlock (\<lambda>srcBB.
     cbind (lookupFrag lab) (\<lambda>dst.
     case dst of
       None \<Rightarrow> cfail (AssertFailed ''GOTO of an unknown fragment'')
     | Some fr \<Rightarrow>
         cthen (cassert (f_kind fr = INTERNAL) ''GOTO of a fragment that is not internal'')
         (cbind (createArgs INTERNAL (length args)) (\<lambda>extra.
          cbind (exps_codegen args) (\<lambda>vs.
          cthen (goto_phis (f_phiNodes fr) 0 (extra @ vs) srcBB)
          (cbind (bb_of (f_body fr)) createBr))))))"

section \<open>Statements\<close>

fun stm_codegen :: "stm \<Rightarrow> unit cx" where
  "stm_codegen (LET _ e p k) =
     cthen (cbind (exp_codegen e) (param_bind p)) (stm_codegen k)"
| "stm_codegen (ALLOC _ a es x k) =
     cthen (cbind (exps_codegen es) (\<lambda>args. cbind (alloc_codegen a args) (insertVal x)))
     (stm_codegen k)"
| "stm_codegen (APPLY _ f args tys) = APPLY_codegen f args tys"
| "stm_codegen (THROW _ f args tys) = THROW_codegen f args tys"
| "stm_codegen (GOTO _ lab args) = GOTO_codegen lab args"
| "stm_codegen (SWITCH _ e arms) =
     cbind (cbind (cbind (exp_codegen e) asInt) (\<lambda>v. createTrunc v i32Ty)) (\<lambda>arg.
     cbind GetInsertBlock (\<lambda>curBlk.
     cbind (newBB ''impossible'') (\<lambda>dfltBlk.
     cthen (SetInsertPoint dfltBlk)
     (cthen (ir_exec Unreachable)
     (cthen (SetInsertPoint curBlk)
     (cbind (cmap bb_of arms) (\<lambda>bbs.
      cthen (ir_exec (Switch arg dfltBlk
        (zip (map (\<lambda>i. iConst_sz 32 (word_of_nat i)) [0..<length arms]) bbs)))
      (cbind saveSMLRegState (\<lambda>saveRegs.
       cforeach arms (\<lambda>arm.
         cthen (restoreSMLRegState saveRegs)
         (cthen (cbind (bb_of arm) SetInsertPoint)
         (stm_codegen arm))))))))))))"
| "stm_codegen (BRANCH _ br es prob k1 k2) =
     cbind (exps_codegen es) (\<lambda>args.
     cbind (branch_codegen br args) (\<lambda>cnd.
     cbind (bb_of k1) (\<lambda>b1.
     cbind (bb_of k2) (\<lambda>b2.
     cthen (ir_exec (CondBr cnd b1 b2 (if prob = 0 then None else Some (branchProb prob))))
     (cbind saveSMLRegState (\<lambda>saveRegs.
      cthen (SetInsertPoint b1)
      (cthen (stm_codegen k1)
      (cthen (restoreSMLRegState saveRegs)
      (cthen (SetInsertPoint b2)
      (stm_codegen k2))))))))))"
| "stm_codegen (ARITH _ a es p k) =
     cthen (cbind (exps_codegen es) (\<lambda>args. cbind (arith_codegen a args) (param_bind p)))
     (stm_codegen k)"
| "stm_codegen (SETTER _ op es k) =
     cthen (cbind (exps_codegen es) (setter_codegen op)) (stm_codegen k)"
| "stm_codegen (CALLGC _ roots newRoots k) =
     cthen
       (cbind (createArgs STD_FUN (length roots)) (\<lambda>extra.
        cbind (cmap (\<lambda>e. cbind (exp_codegen e) asMLValue) roots) (\<lambda>vs.
        callGC (extra @ vs) newRoots)))
       (stm_codegen k)"
| "stm_codegen (RCC _ reentrant linkage proto args results live k) =
     cfail (AssertFailed ''RCC not yet implemented'')"

section \<open>Fragments, clusters, compilation units\<close>

definition frag_codegen :: "frag \<Rightarrow> bool \<Rightarrow> unit cx" where
  "frag_codegen fr isEntry =
     cthen beginFrag
     (cthen (cbind (bb_of (f_body fr)) SetInsertPoint)
     (cthen (if isEntry then setupStdEntry fr else setupFragEntry fr (f_phiNodes fr))
     (stm_codegen (f_body fr))))"

definition cluster_codegen :: "cluster \<Rightarrow> unit cx" where
  "cluster_codegen c =
     cthen (beginCluster c (c_fn c))
     (cbind (cmap frag_init (c_frags c)) (\<lambda>frs.
      cthen (case frs of
               [] \<Rightarrow> cfail IndexOutOfRange
             | fr # rest \<Rightarrow>
                 cthen (frag_codegen fr True) (cforeach rest (\<lambda>fr. frag_codegen fr False)))
      endCluster))"

definition comp_unit_codegen :: "comp_unit \<Rightarrow> unit cx" where
  "comp_unit_codegen cu =
     cthen (beginModule (srcFile cu) (length (fns cu) + 1))
     (cbind (cluster_init (entry cu) True) (\<lambda>en.
      cbind (cmap (\<lambda>c. cluster_init c False) (fns cu)) (\<lambda>cs.
      cthen (cluster_codegen en)
      (cthen (cforeach cs cluster_codegen)
      completeModule))))"

section \<open>The start of a module\<close>

lemma intr_resets:
  "cforeach is intr_reset s =
     Inr ((), s\<lparr>cx_intr := (\<lambda>i. if i \<in> set is then None else cx_intr s i)\<rparr>)"
  by (induction "is" arbitrary: s) (auto simp: intr_reset_def cg_simps cbind_def fun_eq_iff)

lemma set_intrinsics [simp]: "i \<in> set intrinsics"
  by (cases i) (simp_all add: intrinsics_def)

lemma beginModule_eq:
  "beginModule src n s =
     Inr ((), s\<lparr>ir_module := Some (ir_nmodules s), ir_nmodules := ir_nmodules s + 1,
       cx_moduleName := src, cx_clusterMap := (\<lambda>_. None), cx_intr := (\<lambda>_. None),
       cx_readReg := None, cx_spRegMD := None\<rparr>)"
  by (simp add: beginModule_def intr_resets cmodify_def cthen_def cbind_def)

end
