(* ===== verification/Sample_Unit.thy ===== *)
theory Sample_Unit
  imports Codegen
begin

text \<open>
  A small compilation unit and its compilation for x86-64 without constant folding, evaluated by
  rewriting.  Its entry cluster adds a number to itself with an overflow check, compares, and
  either throws or goes to an internal fragment.
\<close>

definition sample_build :: build_config where
  "sample_build = \<lparr>cfg_arch = HOST_AMD64, cfg_os = LINUX, cfg_enable_x86 = True,
     cfg_enable_arm64 = False, cfg_enable_all = False\<rparr>"

definition sample_ctx :: cgctx where
  "sample_ctx = Context_init (\<lambda>_. None) (X86_64Info sample_build)"

definition sample_param :: "lvar \<Rightarrow> ty \<Rightarrow> param" where
  "sample_param x t = \<lparr>p_name = x, p_ty = t\<rparr>"

definition sample_body :: stm where
  "sample_body =
     ARITH None (ARITH_prim IADD 64) [VAR 2, VAR 2] (sample_param 3 (NUMt 64))
       (BRANCH None (CMP LT True 64) [VAR 2, VAR 3] 0
         (THROW None (VAR 1) [VAR 1] [PTRt])
         (GOTO None 8 [VAR 1]))"

definition sample_frags :: "frag list" where
  "sample_frags =
     [\<lparr>f_kind = STD_CONT, f_lab = 7, f_params = [sample_param 1 PTRt, sample_param 2 (NUMt 64)],
       f_body = sample_body, f_phiNodes = []\<rparr>,
      \<lparr>f_kind = INTERNAL, f_lab = 8, f_params = [sample_param 4 PTRt],
       f_body = THROW None (VAR 4) [VAR 4] [PTRt], f_phiNodes = []\<rparr>]"

definition sample_cluster :: cluster where
  "sample_cluster =
     \<lparr>c_attrs = \<lparr>alignHP = 0, needsBasePtr = False, hasTrapArith = True, hasRCC = False\<rparr>,
      c_frags = sample_frags, c_fn = None\<rparr>"

definition sample_unit :: comp_unit where
  "sample_unit = \<lparr>srcFile = [], entry = sample_cluster, fns = []\<rparr>"

section \<open>Evaluation\<close>

lemma replicate_small: "replicate 2 x = [x, x]" "replicate 3 x = [x, x, x]"
  by (simp_all add: numeral_eq_Suc)

named_theorems run_defs \<open>definitions for the evaluation of the code generator\<close>

lemmas [run_defs] =
  cbind_def creturn_def cthen_def cfail_def cget_def cmodify_def cassert_def cthe_def cnth_def
  CreateCast_def ir_create_def ir_append_def ir_exec_def CreatePHI_def phi_addIncoming_def
  BasicBlock_Create_def SetInsertPoint_def GetInsertBlock_def current_module_def
  Function_Create_def fn_update_def isPointerTy_def

lemmas [run_defs] =
  iType_def iConst_def const_of_def wordAlign_def asInt_def asInt_sz_def createIntToPtr_def
  createPtrToInt_def createBin_def createAdd_def createICmp_def createICmpEQ_def createBitCast_def
  createJWACall_def createExtractValue_def createBr_def
  curFn_def newBB_def setCluster_def map_insert_def insertCluster_def insertFrag_def lookupFrag_def
  insertVal_def lookupVal_def param_bind_def intr_get_def beginModule_eq completeModule_def
  beginCluster_def endCluster_def beginFrag_def newFunction_def getArgInfo_def addExtraParamTys_def
  createParamTys_def createFnTy_def reg_value_def addExtraArgs_def createArgs_def

lemmas [run_defs] =
  initSPAccess_def readReg_ty_def stkAddr_def loadFromStack_def get_reg_info_def setRegState_def
  saveSMLRegState_def restoreSMLRegState_def set_basePtr_def clear_basePtr_def fn_type_def
  getArg_def get_curCluster_def setupStdEntry_def phi_at_def setupFragEntry_def branchProb_def
  overflowWeights_def make_overflowBB_def getOverflowBB_def
  call_intr_def overflow_check_def ARITH_codegen_def arith_codegen_def cmpop_num_def ICmpMap_def
  CMP_pred_def flt_op2_def branch_codegen_def

lemmas [run_defs] =
  ty_codegen_def genTypes_def initBB_def bb_of_def lvar_string_def set_bb_name_def frag_init_def
  cluster_init_def exps_codegen_def coerce_arg_def SetupStdArgs_def check_nargs_def isFLTt_def
  THROW_callee_def THROW_codegen_def GOTO_codegen_def frag_codegen_def cluster_codegen_def
  comp_unit_codegen_def

lemmas [run_defs] =
  Context_init_def X86_64Info_def CMRegs_new_def CMRegState_new_def numMachineRegs_def
  machineReg_def usesBasePtr_def reg_info_def rs_get_def rs_set_def copyFrom_def clearBasePtr_def
  reg_ids_def createReg_def createStkReg_def CMRegInfo_new_def isMachineReg_def
  List.map_filter_def replicate_small Let_def

lemmas sample_defs =
  sample_unit_def sample_cluster_def sample_frags_def sample_body_def sample_param_def
  sample_ctx_def

lemma sample_run:
  "case comp_unit_codegen sample_unit sample_ctx of
     Inl _ \<Rightarrow> False
   | Inr (_, t) \<Rightarrow> ir_nblocks t = 6 \<and> length (bb_insts (ir_blocks t 0)) = 4"
  by (simp add: run_defs sample_defs)

lemma sample_runs:
  obtains t where "comp_unit_codegen sample_unit sample_ctx = Inr ((), t)" "ir_nblocks t = 6"
  using sample_run by (auto split: sum.splits prod.splits)

end
