(* ===== verification/Frames.thy ===== *)
theory Frames
  imports Codegen
begin

text \<open>
  Interfaces for frame properties.  A relation between the states before and after that is
  reflexive and transitive is kept by every composition of operations that keep it; one that is
  kept by the few operations that change the state is kept by every expression, or by every
  statement that does not leave its block.  The clients interpret these locales on the relations
  that they need.
\<close>

section \<open>Sequences of operations\<close>

definition keeps :: "(cgctx \<Rightarrow> cgctx \<Rightarrow> bool) \<Rightarrow> 'a cx \<Rightarrow> bool" where
  "keeps P m \<longleftrightarrow> (\<forall>s x t. m s = Inr (x, t) \<longrightarrow> P s t)"

named_theorems frame_intros \<open>operations that keep a relation\<close>

lemma keepsD: "keeps P m \<Longrightarrow> m s = Inr (x, t) \<Longrightarrow> P s t"
  unfolding keeps_def by blast

lemmas shorthand_defs =
  createAdd_def createAnd_def createAShr_def createLShr_def createMul_def createOr_def createSDiv_def createShl_def
  createSRem_def createSub_def createUDiv_def createURem_def createXor_def createFAdd_def createFSub_def createFMul_def
  createFDiv_def createFRem_def createSIToFP_def createSExt_def createZExt_def createTrunc_def createFPToSI_def createBitCast_def createICmpEQ_def createICmpNE_def createICmpSLT_def

locale frame =
  fixes P :: "cgctx \<Rightarrow> cgctx \<Rightarrow> bool"
  assumes keeps_refl: "P s s"
    and keeps_trans: "P s t \<Longrightarrow> P t u \<Longrightarrow> P s u"
begin

lemma keeps_bind [frame_intros]:
  "keeps P m \<Longrightarrow> (\<And>x. keeps P (k x)) \<Longrightarrow> keeps P (cbind m k)"
  unfolding keeps_def by (blast elim: cbind_InrE intro: keeps_trans)

lemma keeps_then [frame_intros]: "keeps P m \<Longrightarrow> keeps P k \<Longrightarrow> keeps P (cthen m k)"
  unfolding cthen_def by (intro keeps_bind)

lemma keeps_return [frame_intros]: "keeps P (creturn x)"
  by (auto simp: keeps_def creturn_def keeps_refl)

lemma keeps_fail [frame_intros]: "keeps P (cfail e)"
  by (auto simp: keeps_def cfail_def)

lemma keeps_assert [frame_intros]: "keeps P (cassert b msg)"
  by (simp add: cassert_def keeps_return keeps_fail)

lemma keeps_get [frame_intros]: "keeps P (cget f)"
  by (auto simp: keeps_def cget_def keeps_refl)

lemma keeps_the [frame_intros]: "keeps P (cthe e v)"
  by (cases v) (simp_all add: cthe_def keeps_return keeps_fail)

lemma keeps_nth [frame_intros]: "keeps P (cnth xs i)"
  by (simp add: cnth_def keeps_return keeps_fail)

lemma keeps_modify: "(\<And>s. P s (f s)) \<Longrightarrow> keeps P (cmodify f)"
  by (auto simp: keeps_def cmodify_def)

lemma keeps_if [frame_intros]:
  "(b \<Longrightarrow> keeps P m) \<Longrightarrow> (\<not> b \<Longrightarrow> keeps P n) \<Longrightarrow> keeps P (if b then m else n)"
  by simp

lemma keeps_option [frame_intros]:
  "keeps P m \<Longrightarrow> (\<And>x. keeps P (k x)) \<Longrightarrow> keeps P (case v of None \<Rightarrow> m | Some x \<Rightarrow> k x)"
  by (cases v) simp_all

lemma keeps_map [frame_intros]: "(\<And>x. x \<in> set xs \<Longrightarrow> keeps P (f x)) \<Longrightarrow> keeps P (cmap f xs)"
  by (induction xs) (auto intro!: frame_intros)

lemma keeps_foreach [frame_intros]:
  "(\<And>x. x \<in> set xs \<Longrightarrow> keeps P (f x)) \<Longrightarrow> keeps P (cforeach xs f)"
  by (induction xs) (auto intro!: frame_intros)

end

section \<open>Expressions\<close>

text \<open>The operations on the state that expressions are made of.\<close>

locale expr_frame = frame +
  assumes keeps_append [frame_intros]: "\<not> is_terminator i \<Longrightarrow> keeps P (ir_append i)"
    and keeps_setInvariante [frame_intros]: "keeps P (setInvarianteLoadMD v)"
    and keeps_intr_get [frame_intros]: "keeps P (intr_get j)"
    and keeps_initSPAccess [frame_intros]: "keeps P initSPAccess"
    and keeps_createGlobalAlias [frame_intros]: "keeps P (createGlobalAlias ty n v)"
begin

lemma keeps_create [frame_intros]: "\<not> is_terminator i \<Longrightarrow> keeps P (ir_create i)"
  using keeps_append [of i] by (auto simp: keeps_def ir_create_def keeps_refl split: option.splits)

lemma keeps_exec [frame_intros]: "\<not> is_terminator i \<Longrightarrow> keeps P (ir_exec i)"
  by (simp add: ir_exec_def keeps_bind keeps_append keeps_return)

lemma keeps_cast [frame_intros]: "keeps P (CreateCast c v t)"
  by (simp add: CreateCast_def keeps_return keeps_create)

lemma keeps_phi [frame_intros]: "keeps P (CreatePHI t)"
  by (simp add: CreatePHI_def keeps_append)

lemma keeps_GetInsertBlock [frame_intros]: "keeps P GetInsertBlock"
  unfolding GetInsertBlock_def by (intro frame_intros)

lemma keeps_current_module [frame_intros]: "keeps P current_module"
  unfolding current_module_def by (intro frame_intros)

lemma keeps_iConst [frame_intros]: "keeps P (iConst c)"
  by (auto simp: iConst_def Let_def intro!: frame_intros)

lemma keeps_uConst [frame_intros]: "keeps P (uConst c)"
  by (auto simp: uConst_def Let_def intro!: frame_intros)

lemma keeps_is64Bit [frame_intros]: "keeps P (is64Bit)"
  by (auto simp: is64Bit_def Let_def intro!: frame_intros)

lemma keeps_wordSz [frame_intros]: "keeps P (wordSzInBytes)"
  by (auto simp: wordSzInBytes_def Let_def intro!: frame_intros)

lemma keeps_wordAlign [frame_intros]: "keeps P (wordAlign)"
  by (auto simp: wordAlign_def Let_def intro!: frame_intros)

lemma keeps_createIntToPtr [frame_intros]: "keeps P (createIntToPtr v)"
  by (auto simp: createIntToPtr_def Let_def intro!: frame_intros)

lemma keeps_createPtrToInt [frame_intros]: "keeps P (createPtrToInt v)"
  by (auto simp: createPtrToInt_def Let_def intro!: frame_intros)

lemma keeps_asPtr [frame_intros]: "keeps P (asPtr v)"
  by (auto simp: asPtr_def Let_def intro!: frame_intros)

lemma keeps_asMLValue [frame_intros]: "keeps P (asMLValue v)"
  by (auto simp: asMLValue_def Let_def intro!: frame_intros)

lemma keeps_asInt [frame_intros]: "keeps P (asInt v)"
  by (auto simp: asInt_def Let_def intro!: frame_intros)

lemma keeps_asInt_sz [frame_intros]: "keeps P (asInt_sz sz v)"
  by (auto simp: asInt_sz_def Let_def intro!: frame_intros)

lemma keeps_castTy [frame_intros]: "keeps P (castTy a b v)"
  by (auto simp: castTy_def Let_def intro!: frame_intros)

lemma keeps_createBin [frame_intros]: "keeps P (createBin op a b)"
  by (auto simp: createBin_def Let_def intro!: frame_intros)

lemma keeps_createFBin [frame_intros]: "keeps P (createFBin op a b)"
  by (auto simp: createFBin_def Let_def intro!: frame_intros)

lemma keeps_createICmp [frame_intros]: "keeps P (createICmp p a b)"
  by (auto simp: createICmp_def Let_def intro!: frame_intros)

lemma keeps_createFCmp [frame_intros]: "keeps P (createFCmp p a b)"
  by (auto simp: createFCmp_def Let_def intro!: frame_intros)

lemma keeps_createFNeg [frame_intros]: "keeps P (createFNeg v)"
  by (auto simp: createFNeg_def Let_def intro!: frame_intros)

lemma keeps_createLoad_align [frame_intros]: "keeps P (createLoad_align t a n)"
  by (auto simp: createLoad_align_def Let_def intro!: frame_intros)

lemma keeps_createLoad [frame_intros]: "keeps P (createLoad t a)"
  by (auto simp: createLoad_def Let_def intro!: frame_intros)

lemma keeps_createStoreML [frame_intros]: "keeps P (createStoreML v a)"
  by (auto simp: createStoreML_def Let_def intro!: frame_intros)

lemma keeps_createStoreInt [frame_intros]: "keeps P (createStoreInt v a)"
  by (auto simp: createStoreInt_def Let_def intro!: frame_intros)

lemma keeps_createStore [frame_intros]: "keeps P (createStore v a n)"
  by (auto simp: createStore_def Let_def intro!: frame_intros)

lemma keeps_createGEP [frame_intros]: "keeps P (createGEP b i)"
  by (auto simp: createGEP_def Let_def intro!: frame_intros)

lemma keeps_createGEP_ty [frame_intros]: "keeps P (createGEP_ty t b i)"
  by (auto simp: createGEP_ty_def Let_def intro!: frame_intros)

lemma keeps_createGEP_i [frame_intros]: "keeps P (createGEP_i b n)"
  by (auto simp: createGEP_i_def Let_def intro!: frame_intros)

lemma keeps_createGEP_ty_i [frame_intros]: "keeps P (createGEP_ty_i t b n)"
  by (auto simp: createGEP_ty_i_def Let_def intro!: frame_intros)

lemma keeps_createJWACall [frame_intros]: "keeps P (createJWACall ft f args)"
  by (auto simp: createJWACall_def Let_def intro!: frame_intros)

lemma keeps_createExtractValue [frame_intros]: "keeps P (createExtractValue v i)"
  by (auto simp: createExtractValue_def Let_def intro!: frame_intros)

lemma keeps_curFn [frame_intros]: "keeps P (curFn)"
  by (auto simp: curFn_def Let_def intro!: frame_intros)

lemma keeps_lookupVal [frame_intros]: "keeps P (lookupVal x)"
  by (auto simp: lookupVal_def Let_def intro!: frame_intros)

lemma keeps_lookupCluster [frame_intros]: "keeps P (lookupCluster x)"
  by (auto simp: lookupCluster_def Let_def intro!: frame_intros)

lemma keeps_lookupFrag [frame_intros]: "keeps P (lookupFrag x)"
  by (auto simp: lookupFrag_def Let_def intro!: frame_intros)

lemma keeps_getArgInfo [frame_intros]: "keeps P (getArgInfo k)"
  by (auto simp: getArgInfo_def Let_def intro!: frame_intros split: frag_kind.split option.split)

lemma keeps_addExtraParamTys [frame_intros]: "keeps P (addExtraParamTys tys info)"
  by (auto simp: addExtraParamTys_def Let_def intro!: frame_intros)

lemma keeps_createParamTys [frame_intros]: "keeps P (createParamTys k n)"
  by (auto simp: createParamTys_def Let_def intro!: frame_intros)

lemma keeps_createFnTy [frame_intros]: "keeps P (createFnTy k tys)"
  by (auto simp: createFnTy_def Let_def intro!: frame_intros)

lemma keeps_reg_value [frame_intros]: "keeps P (reg_value r)"
  by (auto simp: reg_value_def Let_def intro!: frame_intros)

lemma keeps_addExtraArgs [frame_intros]: "keeps P (addExtraArgs args info)"
  by (auto simp: addExtraArgs_def Let_def intro!: frame_intros)

lemma keeps_createArgs [frame_intros]: "keeps P (createArgs k n)"
  by (auto simp: createArgs_def Let_def intro!: frame_intros)

lemma keeps_readReg_ty [frame_intros]: "keeps P (readReg_ty)"
  by (auto simp: readReg_ty_def Let_def intro!: frame_intros)

lemma keeps_createAdd [frame_intros]: "keeps P (createAdd a b)"
  by (auto simp: createAdd_def Let_def intro!: frame_intros)

lemma keeps_stkAddr [frame_intros]: "keeps P (stkAddr n)"
  by (auto simp: stkAddr_def Let_def intro!: frame_intros)

lemma keeps_loadFromStack [frame_intros]: "keeps P (loadFromStack n)"
  by (auto simp: loadFromStack_def Let_def intro!: frame_intros)

lemma keeps_get_reg_info [frame_intros]: "keeps P (get_reg_info r)"
  by (auto simp: get_reg_info_def Let_def intro!: frame_intros)

lemma keeps_loadMemReg [frame_intros]: "keeps P (loadMemReg r)"
  by (auto simp: loadMemReg_def Let_def intro!: frame_intros)

lemma keeps_storeMemReg [frame_intros]: "keeps P (storeMemReg r v)"
  by (auto simp: storeMemReg_def Let_def intro!: frame_intros)

lemma keeps_mlReg [frame_intros]: "keeps P (mlReg r)"
  by (auto simp: mlReg_def Let_def intro!: frame_intros)

lemma keeps_saveSML [frame_intros]: "keeps P (saveSMLRegState)"
  by (auto simp: saveSMLRegState_def Let_def intro!: frame_intros)

lemma keeps_fn_type [frame_intros]: "keeps P (fn_type f)"
  by (auto simp: fn_type_def Let_def intro!: frame_intros)

lemma keeps_getArg [frame_intros]: "keeps P (getArg f i)"
  by (auto simp: getArg_def Let_def intro!: frame_intros)

lemma keeps_get_curCluster [frame_intros]: "keeps P (get_curCluster)"
  by (auto simp: get_curCluster_def Let_def intro!: frame_intros)

lemma keeps_phi_at [frame_intros]: "keeps P (phi_at phis i)"
  by (auto simp: phi_at_def Let_def intro!: frame_intros)

lemma keeps_name_of_fn [frame_intros]: "keeps P (name_of_fn f)"
  by (auto simp: name_of_fn_def Let_def intro!: frame_intros)

lemma keeps_labelDiff [frame_intros]: "keeps P (labelDiff f g)"
  by (auto simp: labelDiff_def Let_def intro!: frame_intros)

lemma keeps_blockAddr [frame_intros]: "keeps P (blockAddr b)"
  by (auto simp: blockAddr_def Let_def intro!: frame_intros)

lemma keeps_blockDiff [frame_intros]: "keeps P (blockDiff b)"
  by (auto simp: blockDiff_def Let_def intro!: frame_intros)

lemma keeps_evalLabel [frame_intros]: "keeps P (evalLabel f)"
  by (auto simp: evalLabel_def Let_def intro!: frame_intros)

lemma keeps_alloc_fields [frame_intros]: "keeps P (alloc_fields p i vs)"
  by (induction vs arbitrary: i) (auto simp: Let_def intro!: frame_intros)

lemma keeps_call_intr [frame_intros]: "keeps P (call_intr i args)"
  by (auto simp: call_intr_def Let_def intro!: frame_intros)

lemma keeps_get_toInt64 [frame_intros]: "keeps P (get_toInt64 i)"
  by (auto simp: get_toInt64_def Let_def intro!: frame_intros split: sum.splits)

lemma keeps_get_toUInt64 [frame_intros]: "keeps P (get_toUInt64 i)"
  by (auto simp: get_toUInt64_def Let_def intro!: frame_intros)

lemma keeps_desc_word [frame_intros]: "keeps P (desc_word i)"
  by (auto simp: desc_word_def Let_def intro!: frame_intros)

lemma keeps_raw_fields [frame_intros]: "keeps P (raw_fields obj off fas)"
  by (induction fas arbitrary: off) (auto simp: Let_def intro!: frame_intros)

lemma keeps_int_op2 [frame_intros]:
  "(\<And>a b. keeps P (f a b)) \<Longrightarrow> keeps P (int_op2 f sz args)"
  by (auto simp: int_op2_def intro!: frame_intros)

lemma keeps_flt_op2 [frame_intros]:
  "(\<And>a b. keeps P (f a b)) \<Longrightarrow> keeps P (flt_op2 f args)"
  by (auto simp: flt_op2_def intro!: frame_intros)

lemma keeps_count_zeros [frame_intros]: "keeps P (count_zeros i args)"
  by (auto simp: count_zeros_def Let_def intro!: frame_intros)

lemma keeps_rotate_op [frame_intros]: "keeps P (rotate_op i args)"
  by (auto simp: rotate_op_def Let_def intro!: frame_intros)

lemma keeps_PURE_ARITH [frame_intros]: "keeps P (PURE_ARITH_codegen oper sz args)"
  by (cases oper) (auto simp: PURE_ARITH_codegen_def shorthand_defs intro!: frame_intros)

lemma keeps_EXTEND [frame_intros]: "keeps P (EXTEND_codegen sg to args)"
  by (auto simp: EXTEND_codegen_def shorthand_defs Let_def intro!: frame_intros)

lemma keeps_raw_load [frame_intros]: "keeps P (raw_load t k sz args)"
  by (auto simp: raw_load_def Let_def intro!: frame_intros)

lemma keeps_subscript [frame_intros]: "keeps P (subscript args)"
  by (auto simp: subscript_def Let_def intro!: frame_intros)

lemma keeps_pure [frame_intros]: "keeps P (pure_codegen op args)"
  by (cases op) (auto simp: pure_codegen_def shorthand_defs intro!: frame_intros)

lemma keeps_looker [frame_intros]: "keeps P (looker_codegen op args)"
  by (cases op) (auto simp: looker_codegen_def shorthand_defs intro!: frame_intros)

lemma keeps_LIMIT [frame_intros]: "keeps P (LIMIT_codegen amt)"
  by (auto simp: LIMIT_codegen_def Let_def intro!: frame_intros)

lemma keeps_branch [frame_intros]: "keeps P (branch_codegen op args)"
  by (cases op) (auto simp: branch_codegen_def shorthand_defs intro!: frame_intros)

lemma keeps_cluster_fn [frame_intros]: "keeps P (cluster_fn c)"
  by (auto simp: cluster_fn_def Let_def intro!: frame_intros)

lemma keeps_exp [frame_intros]: "keeps P (exp_codegen e)"
  by (induction e rule: exp_codegen.induct) (auto intro!: frame_intros)

lemma keeps_exps [frame_intros]: "keeps P (exps_codegen es)"
  by (auto simp: exps_codegen_def Let_def intro!: frame_intros)

lemma keeps_coerce_arg [frame_intros]: "keeps P (coerce_arg t v)"
  by (auto simp: coerce_arg_def Let_def intro!: frame_intros)

lemma keeps_setup_args [frame_intros]: "keeps P (setup_args ft i es)"
  by (induction es arbitrary: i) (auto simp: Let_def intro!: frame_intros)

lemma keeps_SetupStdArgs [frame_intros]: "keeps P (SetupStdArgs ft fk es)"
  by (auto simp: SetupStdArgs_def Let_def intro!: frame_intros)

lemma keeps_check_nargs [frame_intros]: "keeps P (check_nargs n tys)"
  by (auto simp: check_nargs_def Let_def intro!: frame_intros)

lemma keeps_ty_codegen [frame_intros]: "keeps P (ty_codegen t)"
  by (cases t) (auto simp: ty_codegen_def intro!: frame_intros)

lemma keeps_genTypes [frame_intros]: "keeps P (genTypes tys)"
  by (auto simp: genTypes_def Let_def intro!: frame_intros)

lemma keeps_APPLY_callee [frame_intros]: "keeps P (APPLY_callee e tys)"
  by (cases e) (auto simp: APPLY_callee_def shorthand_defs intro!: frame_intros)

lemma keeps_THROW_callee [frame_intros]: "keeps P (THROW_callee e tys)"
  by (cases e) (auto simp: THROW_callee_def shorthand_defs intro!: frame_intros)

lemma keeps_bb_of [frame_intros]: "keeps P (bb_of k)"
  by (auto simp: bb_of_def Let_def intro!: frame_intros)

end

section \<open>Straight-line statements\<close>

locale state_frame = expr_frame +
  assumes keeps_setRegState [frame_intros]: "keeps P (setRegState r w)"
    and keeps_restoreSML [frame_intros]: "keeps P (restoreSMLRegState c)"
    and keeps_set_basePtr [frame_intros]: "keeps P (set_basePtr v)"
    and keeps_clear_basePtr [frame_intros]: "keeps P clear_basePtr"
begin

lemma keeps_setMLReg [frame_intros]: "keeps P (setMLReg r v)"
  by (auto simp: setMLReg_def Let_def intro!: frame_intros)

lemma keeps_setup_regs [frame_intros]: "keeps P (setup_regs f rs i)"
  by (induction rs arbitrary: i) (auto simp: Let_def intro!: frame_intros)

lemma keeps_allocRecord [frame_intros]: "keeps P (allocRecord d args)"
  by (auto simp: allocRecord_def Let_def intro!: frame_intros)

lemma keeps_gc_restore [frame_intros]: "keeps P (gc_restore c rs i)"
  by (induction rs arbitrary: i) (auto simp: Let_def intro!: frame_intros)

lemma keeps_RAW_RECORD [frame_intros]: "keeps P (RAW_RECORD_codegen d flds args)"
  by (auto simp: RAW_RECORD_codegen_def Let_def intro!: frame_intros)

lemma keeps_RAW_ALLOC [frame_intros]: "keeps P (RAW_ALLOC_codegen d al len args)"
  by (auto simp: RAW_ALLOC_codegen_def shorthand_defs Let_def intro!: frame_intros split: option.split)

lemma keeps_alloc_codegen [frame_intros]: "keeps P (alloc_codegen op args)"
  by (auto simp: alloc_codegen_def Let_def intro!: frame_intros split: alloc.split)

lemma keeps_recordStore [frame_intros]: "keeps P (recordStore a)"
  by (auto simp: recordStore_def Let_def intro!: frame_intros)

lemma keeps_setter [frame_intros]: "keeps P (setter_codegen op args)"
  by (cases op) (auto simp: setter_codegen_def shorthand_defs intro!: frame_intros)

end

text \<open>Operations that add edges to phi nodes, and that bind variables as well.\<close>

locale edge_frame = state_frame +
  assumes keeps_phi_addIncoming [frame_intros]: "keeps P (phi_addIncoming phi v b)"
begin

lemma keeps_goto_phis [frame_intros]: "keeps P (goto_phis phis i vs b)"
  by (induction vs arbitrary: i) (auto simp: Let_def intro!: frame_intros)

end

locale stm_frame = edge_frame +
  assumes keeps_insertVal [frame_intros]: "keeps P (insertVal x v)"
begin

lemma keeps_param_bind [frame_intros]: "keeps P (param_bind p v)"
  by (auto simp: param_bind_def Let_def intro!: frame_intros)

lemma keeps_bind_params [frame_intros]:
  "(\<And>i. keeps P (arg i)) \<Longrightarrow> keeps P (bind_params ps arg i)"
  by (induction ps arbitrary: i) (auto intro!: frame_intros)

lemma keeps_setupStdEntry [frame_intros]: "keeps P (setupStdEntry fr)"
  by (auto simp: setupStdEntry_def Let_def intro!: frame_intros)

lemma keeps_setupFragEntry [frame_intros]: "keeps P (setupFragEntry fr phis)"
  by (auto simp: setupFragEntry_def Let_def intro!: frame_intros)

lemma keeps_gc_newRoots [frame_intros]: "keeps P (gc_newRoots c lvs i)"
  by (induction lvs arbitrary: i) (auto simp: Let_def intro!: frame_intros)

lemma keeps_callGC [frame_intros]: "keeps P (callGC roots lvs)"
  by (auto simp: callGC_def shorthand_defs Let_def intro!: frame_intros)

end

section \<open>All statements\<close>

text \<open>The end of a trapping operation: the branch to the overflow block.\<close>

definition trap_post :: "value \<times> value \<Rightarrow> value cx" where
  "trap_post = (\<lambda>(res, obit).
     cbind (newBB ''ok'') (\<lambda>next.
     cbind getOverflowBB (\<lambda>ovfl.
     cthen (ir_exec (CondBr obit ovfl next (Some overflowWeights)))
     (cthen (SetInsertPoint next)
     (creturn res)))))"

lemma overflow_check_eq:
  "overflow_check pair =
     cbind (createExtractValue pair 0) (\<lambda>res.
     cbind (createExtractValue pair 1) (\<lambda>obit. trap_post (res, obit)))"
  by (simp add: overflow_check_def trap_post_def)

text \<open>Operations that leave their block.\<close>

locale flow_frame = edge_frame +
  assumes keeps_ir_exec: "keeps P (ir_exec i)"
    and keeps_newBB: "keeps P (newBB n)"
    and keeps_SetInsertPoint: "keeps P (SetInsertPoint b)"
    and keeps_getOverflowBB: "keeps P getOverflowBB"
begin

lemmas code_intros = keeps_bind keeps_then keeps_ir_exec keeps_newBB keeps_SetInsertPoint
  keeps_getOverflowBB

lemma keeps_trap_post: "keeps P (trap_post ro)"
  unfolding trap_post_def by (cases ro) (auto intro!: code_intros frame_intros)

lemma keeps_overflow_check: "keeps P (overflow_check p)"
  unfolding overflow_check_eq by (intro keeps_bind keeps_trap_post frame_intros)

lemma keeps_arith: "keeps P (arith_codegen a args)"
proof (cases a)
  case (ARITH_prim oper sz)
  have ops: "keeps P (case oper of
        IADD \<Rightarrow> cbind (call_intr (if sz = 32 then Sadd32WO else Sadd64WO) [a0, a1]) overflow_check
      | ISUB \<Rightarrow> cbind (call_intr (if sz = 32 then Ssub32WO else Ssub64WO) [a0, a1]) overflow_check
      | IMUL \<Rightarrow> cbind (call_intr (if sz = 32 then Smul32WO else Smul64WO) [a0, a1]) overflow_check
      | IDIV \<Rightarrow> createSDiv a0 a1
      | IREM \<Rightarrow> createSRem a0 a1
      | arithop_other _ \<Rightarrow> cfail (NoCase ''ARITH''))" for a0 a1
    by (cases oper)
      (simp_all add: shorthand_defs keeps_bind keeps_overflow_check frame_intros)
  show ?thesis
    unfolding ARITH_prim arith_codegen_def ARITH_codegen_def arith.case
    by (intro keeps_then keeps_bind ops) (auto intro!: frame_intros)
next
  case FLOAT_TO_INT
  then show ?thesis by (auto simp: arith_codegen_def shorthand_defs intro!: frame_intros)
qed

lemma keeps_calls: "keeps P (APPLY_codegen f args tys)" "keeps P (THROW_codegen f args tys)"
  unfolding APPLY_codegen_def THROW_codegen_def
  by (auto intro!: code_intros intro: frame_intros split: prod.splits)

lemma keeps_GOTO: "keeps P (GOTO_codegen lab args)"
  unfolding GOTO_codegen_def createBr_def
  by (auto intro!: code_intros split: option.splits; intro frame_intros)

end

text \<open>A relation that all of them keep is kept by the code of every statement.\<close>

locale code_frame = stm_frame + flow_frame
begin

lemma keeps_stm: "keeps P (stm_codegen k)"
proof (induction k rule: stm_codegen.induct)
  case (6 b e arms)
  show ?case
    unfolding stm_codegen.simps
    by (intro code_intros keeps_foreach 6) (auto simp: shorthand_defs intro!: frame_intros)
next
  case (7 b br es prob k1 k2)
  then show ?case
    unfolding stm_codegen.simps by (intro code_intros) (auto intro: frame_intros)
next
  case 8
  then show ?case
    unfolding stm_codegen.simps by (intro keeps_then keeps_bind keeps_arith) (auto intro: frame_intros)
next
  case 10
  then show ?case by (auto intro!: keeps_then) (intro frame_intros)
qed (auto intro!: keeps_then keeps_calls keeps_GOTO intro: frame_intros)

end

end
