(* ===== verification/Frame_Laws.thy ===== *)
theory Frame_Laws
  imports Frames
begin

text \<open>
  What the operations of the code generator leave alone.  \<open>straight\<close> operations only append
  instructions that are not terminators to the current block; they keep the insertion point, the
  set of blocks and the maps of labels.  Every operation on expressions and
  every primitive operation but the trapping arithmetic is straight.
\<close>

section \<open>Straight-line operations\<close>

text \<open>The caches of intrinsics change only by functions of the current module.\<close>

definition cached :: "cgctx \<Rightarrow> cgctx \<Rightarrow> bool" where
  "cached s t \<longleftrightarrow>
     (\<forall>i v. cx_intr t i = Some v \<longrightarrow> cx_intr s i = Some v \<or> (\<exists>m. ir_module s = Some m \<and> v = VIntr i m)) \<and>
     (\<forall>v. cx_readReg t = Some v \<longrightarrow>
        cx_readReg s = Some v \<or> (\<exists>m. ir_module s = Some m \<and> v = VReadReg m))"

lemma cached_same: "cx_intr t = cx_intr s \<Longrightarrow> cx_readReg t = cx_readReg s \<Longrightarrow> cached s t"
  by (simp add: cached_def)

lemma cached_trans: "cached s t \<Longrightarrow> cached t u \<Longrightarrow> ir_module t = ir_module s \<Longrightarrow> cached s u"
  unfolding cached_def by metis

text \<open>The fields that straight operations keep.\<close>

definition kept :: "cgctx \<Rightarrow> cgctx \<Rightarrow> bool" where
  "kept s t \<longleftrightarrow>
     ir_fold t = ir_fold s \<and> ir_nblocks t = ir_nblocks s \<and> ir_nmodules t = ir_nmodules s \<and>
     ir_module t = ir_module s \<and> ir_fns t = ir_fns s \<and> ir_insert t = ir_insert s \<and>
     cx_target t = cx_target s \<and> cx_regInfo t = cx_regInfo s \<and> cx_wordSzB t = cx_wordSzB s \<and>
     cx_intTy t = cx_intTy s \<and> cx_curFn t = cx_curFn s \<and> cx_curCluster t = cx_curCluster s \<and>
     cx_clusterMap t = cx_clusterMap s \<and> cx_fragMap t = cx_fragMap s \<and>
     cx_gcFnTy t = cx_gcFnTy s \<and> cx_raiseOverflowFnTy t = cx_raiseOverflowFnTy s \<and>
     cached s t"

text \<open>Which instructions of a block are terminators.\<close>

definition shape :: "bblock \<Rightarrow> bool list" where
  "shape b = map (\<lambda>ni. is_terminator (snd ni)) (bb_insts b)"

definition grown :: "cgctx \<Rightarrow> cgctx \<Rightarrow> bool" where
  "grown s t \<longleftrightarrow>
     (\<forall>b. if ir_insert s = Some b
          then \<exists>k. shape (ir_blocks t b) = shape (ir_blocks s b) @ replicate k False
          else ir_blocks t b = ir_blocks s b)"

text \<open>Both together, for operations that only append to the current block.\<close>

definition extends :: "cgctx \<Rightarrow> cgctx \<Rightarrow> bool" where
  "extends s t \<longleftrightarrow> kept s t \<and> grown s t"

abbreviation straight :: "'a cx \<Rightarrow> bool" where
  "straight \<equiv> keeps extends"

lemma kept_refl [simp]: "kept s s"
  by (simp add: kept_def cached_same)

lemma kept_trans: "kept s t \<Longrightarrow> kept t u \<Longrightarrow> kept s u"
  unfolding kept_def by (auto intro: cached_trans)

lemma kept_insert: "kept s t \<Longrightarrow> ir_insert t = ir_insert s"
  by (simp add: kept_def cached_same)

lemma grown_same: "ir_blocks t = ir_blocks s \<Longrightarrow> grown s t"
  by (auto simp: grown_def intro: exI [of _ 0])

lemma grown_refl [simp]: "grown s s"
  by (rule grown_same) simp

lemma grown_trans: "grown s t \<Longrightarrow> grown t u \<Longrightarrow> ir_insert t = ir_insert s \<Longrightarrow> grown s u"
  unfolding grown_def
proof (intro allI)
  fix b
  assume st: "\<forall>b. if ir_insert s = Some b
      then \<exists>k. shape (ir_blocks t b) = shape (ir_blocks s b) @ replicate k False
      else ir_blocks t b = ir_blocks s b"
    and tu: "\<forall>b. if ir_insert t = Some b
      then \<exists>k. shape (ir_blocks u b) = shape (ir_blocks t b) @ replicate k False
      else ir_blocks u b = ir_blocks t b"
    and ins: "ir_insert t = ir_insert s"
  show "if ir_insert s = Some b
      then \<exists>k. shape (ir_blocks u b) = shape (ir_blocks s b) @ replicate k False
      else ir_blocks u b = ir_blocks s b"
  proof (cases "ir_insert s = Some b")
    case True
    with st tu ins obtain k l where "shape (ir_blocks t b) = shape (ir_blocks s b) @ replicate k False"
      "shape (ir_blocks u b) = shape (ir_blocks t b) @ replicate l False"
      by (metis (mono_tags, lifting))
    then have "shape (ir_blocks u b) = shape (ir_blocks s b) @ replicate (k + l) False"
      by (simp add: replicate_add)
    with True show ?thesis by auto
  next
    case False
    with st tu ins show ?thesis by (metis (mono_tags, lifting))
  qed
qed

lemma straightD: "straight m \<Longrightarrow> m s = Inr (x, t) \<Longrightarrow> kept s t \<and> grown s t"
  unfolding extends_def [symmetric] by (rule keepsD)

lemma extends_trans: "extends s t \<Longrightarrow> extends t u \<Longrightarrow> extends s u"
  unfolding extends_def by (blast intro: kept_trans grown_trans kept_insert)

lemma modify_extends:
  "(\<And>s. kept s (f s) \<and> ir_blocks (f s) = ir_blocks s) \<Longrightarrow> straight (cmodify f)"
  by (auto simp: keeps_def cmodify_def extends_def grown_same)

section \<open>The basic operations\<close>

lemma ir_append_Some:
  "ir_append i s = Inr (x, t) \<Longrightarrow>
     \<exists>b. ir_insert s = Some b \<and> x = VInst (ir_nvals s) (instr_ty i) \<and>
       t = s\<lparr>ir_nvals := ir_nvals s + 1,
             ir_blocks := (ir_blocks s)(b := (ir_blocks s b)
               \<lparr>bb_insts := bb_insts (ir_blocks s b) @ [(ir_nvals s, i)]\<rparr>)\<rparr>"
  by (auto simp: ir_append_def Let_def split: option.splits)

lemma shape_append: "shape (b\<lparr>bb_insts := bb_insts b @ [(n, i)]\<rparr>) = shape b @ [is_terminator i]"
  by (simp add: shape_def)

lemma append_extends: "\<not> is_terminator i \<Longrightarrow> straight (ir_append i)"
  unfolding keeps_def extends_def
proof (intro allI impI)
  fix s t :: cgctx and x
  assume "\<not> is_terminator i" "ir_append i s = Inr (x, t)"
  then show "kept s t \<and> grown s t"
    by (auto dest!: ir_append_Some simp: kept_def cached_same grown_def shape_append intro!: exI [of _ 1])
qed

lemma set_invariant_terminator: "is_terminator (snd (set_invariant v ni)) = is_terminator (snd ni)"
  by (cases ni; cases v; cases "snd ni") (simp_all add: set_invariant_def)

lemma setInvariante_extends: "straight (setInvarianteLoadMD v)"
proof -
  have sh: "shape (b\<lparr>bb_insts := map (set_invariant v) (bb_insts b)\<rparr>) = shape b" for b
    by (simp add: shape_def set_invariant_terminator comp_def)
  show ?thesis
    unfolding keeps_def extends_def setInvarianteLoadMD_def GetInsertBlock_def
    by (auto simp: cg_simps cbind_def cthe_def kept_def cached_same grown_def sh
        split: option.splits intro: exI [of _ 0])
qed

lemma intr_get_extends: "straight (intr_get i)"
  unfolding keeps_def extends_def
  by (auto simp: intr_get_def current_module_def cg_simps cbind_def cthe_def kept_def cached_def
      grown_same split: option.splits if_splits)

lemma initSPAccess_extends: "straight initSPAccess"
  unfolding keeps_def extends_def
  by (auto simp: initSPAccess_def current_module_def cg_simps cbind_def cthe_def kept_def cached_def
      grown_same split: option.splits if_splits)

lemma createGlobalAlias_extends: "straight (createGlobalAlias ty n v)"
  by (auto simp: createGlobalAlias_def current_module_def cg_simps cbind_def cthe_def keeps_def
      extends_def kept_def cached_same grown_same split: option.splits)

text \<open>The ones that change the maps and the registers.\<close>

lemma set_basePtr_extends: "straight (set_basePtr v)"
  by (auto simp: set_basePtr_def cg_simps cbind_def keeps_def extends_def kept_def cached_same
      grown_same)

lemma phi_addIncoming_extends: "straight (phi_addIncoming p v b)"
  by (cases p) (auto simp: phi_addIncoming_def cg_simps keeps_def extends_def kept_def cached_same
      grown_same)

interpretation straight: stm_frame extends
proof unfold_locales
  show "extends s s" for s by (simp add: extends_def)
  show "extends s t \<Longrightarrow> extends t u \<Longrightarrow> extends s u" for s t u by (rule extends_trans)
  show "\<not> is_terminator i \<Longrightarrow> straight (ir_append i)" for i by (rule append_extends)
  show "straight (setInvarianteLoadMD v)" for v by (rule setInvariante_extends)
  show "straight (intr_get i)" for i by (rule intr_get_extends)
  show "straight initSPAccess" by (rule initSPAccess_extends)
  show "straight (createGlobalAlias ty n v)" for ty n v by (rule createGlobalAlias_extends)
  show "straight (insertVal x v)" for x v
    unfolding insertVal_def by (rule modify_extends) (simp add: kept_def cached_same)
  show "straight (setRegState r w)" for r w
    unfolding setRegState_def by (rule modify_extends) (simp add: kept_def cached_same)
  show "straight (restoreSMLRegState c)" for c
    unfolding restoreSMLRegState_def by (rule modify_extends) (simp add: kept_def cached_same)
  show "straight (set_basePtr v)" for v by (rule set_basePtr_extends)
  show "straight clear_basePtr"
    unfolding clear_basePtr_def by (rule modify_extends) (simp add: kept_def cached_same)
  show "straight (phi_addIncoming phi v b)" for phi v b by (rule phi_addIncoming_extends)
qed

section \<open>What expressions leave alone\<close>

text \<open>Expressions, tests and the evaluation of arguments change neither the registers nor the
  bindings of variables, phi nodes and the overflow block.\<close>

definition quiet :: "cgctx \<Rightarrow> cgctx \<Rightarrow> bool" where
  "quiet s t \<longleftrightarrow>
     cx_regState t = cx_regState s \<and> cx_vMap t = cx_vMap s \<and> ir_phis t = ir_phis s \<and>
     cx_overflowBB t = cx_overflowBB s \<and> cx_overflowPhiNodes t = cx_overflowPhiNodes s"

interpretation quiet: expr_frame quiet
proof unfold_locales
  show "keeps quiet (ir_append i)" for i
    by (auto simp: keeps_def quiet_def dest!: ir_append_Some)
  show "keeps quiet (setInvarianteLoadMD v)" for v
    by (auto simp: keeps_def quiet_def setInvarianteLoadMD_def GetInsertBlock_def cg_simps cbind_def
        cthe_def split: option.splits)
  show "keeps quiet (intr_get i)" for i
    by (auto simp: keeps_def quiet_def intr_get_def current_module_def cg_simps cbind_def cthe_def
        split: option.splits if_splits)
  show "keeps quiet initSPAccess"
    by (auto simp: keeps_def quiet_def initSPAccess_def current_module_def cg_simps cbind_def cthe_def
        split: option.splits if_splits)
  show "keeps quiet (createGlobalAlias ty n v)" for ty n v
    by (auto simp: keeps_def quiet_def createGlobalAlias_def current_module_def cg_simps cbind_def
        cthe_def split: option.splits)
qed (auto simp: quiet_def)

end
