(* ===== verification/Overflow_Block.thy ===== *)
theory Overflow_Block
  imports Frame_Laws
begin

text \<open>
  The overflow block of a cluster: it is made on demand, once, and each branch to it adds one
  incoming value for each machine register to its phi nodes.  \<open>does m s Q\<close> says that \<open>m\<close> succeeds in
  \<open>s\<close> with \<open>Q\<close>.
\<close>

section \<open>Success\<close>

definition does :: "'a cx \<Rightarrow> cgctx \<Rightarrow> ('a \<Rightarrow> cgctx \<Rightarrow> bool) \<Rightarrow> bool" where
  "does m s Q \<longleftrightarrow> (\<exists>x t. m s = Inr (x, t) \<and> Q x t)"

named_theorems does_intros \<open>weakest preconditions\<close>

lemma does_return [does_intros]: "Q x s \<Longrightarrow> does (creturn x) s Q"
  by (simp add: does_def creturn_def)

lemma does_get [does_intros]: "Q (f s) s \<Longrightarrow> does (cget f) s Q"
  by (simp add: does_def cget_def)

lemma does_modify [does_intros]: "Q () (f s) \<Longrightarrow> does (cmodify f) s Q"
  by (simp add: does_def cmodify_def)

lemma does_assert [does_intros]: "b \<Longrightarrow> Q () s \<Longrightarrow> does (cassert b msg) s Q"
  by (simp add: cassert_def does_return)

lemma does_bind [does_intros]: "does m s (\<lambda>x t. does (k x) t Q) \<Longrightarrow> does (cbind m k) s Q"
  unfolding does_def cbind_def by auto

lemma does_then [does_intros]: "does m s (\<lambda>_ t. does k t Q) \<Longrightarrow> does (cthen m k) s Q"
  unfolding cthen_def by (rule does_bind)

lemma does_mono: "does m s Q \<Longrightarrow> (\<And>x t. Q x t \<Longrightarrow> R x t) \<Longrightarrow> does m s R"
  unfolding does_def by blast

text \<open>Steps that only append to the current block.\<close>

definition same :: "cgctx \<Rightarrow> cgctx \<Rightarrow> bool" where
  "same s t \<longleftrightarrow>
     cx_regState t = cx_regState s \<and> cx_regInfo t = cx_regInfo s \<and> ir_phis t = ir_phis s \<and>
     cx_overflowBB t = cx_overflowBB s \<and> cx_overflowPhiNodes t = cx_overflowPhiNodes s \<and>
     cx_curFn t = cx_curFn s \<and> ir_module t = ir_module s \<and> ir_insert t = ir_insert s \<and>
     ir_nblocks t = ir_nblocks s \<and> ir_nvals s \<le> ir_nvals t \<and>
     (\<forall>b. ir_insert s \<noteq> Some b \<longrightarrow> ir_blocks t b = ir_blocks s b)"

text \<open>Access to the stack pointer is set up completely or not at all.\<close>

definition sp_ok :: "cgctx \<Rightarrow> bool" where
  "sp_ok s \<longleftrightarrow> ir_module s \<noteq> None \<and> (cx_readReg s = None \<longleftrightarrow> cx_spRegMD s = None) \<and>
     isIntegerTy (cx_intTy s)"

text \<open>A state reached from \<open>s\<close> by such steps, with current block \<open>c\<close>.\<close>

definition steady :: "cgctx \<Rightarrow> nat \<Rightarrow> cgctx \<Rightarrow> bool" where
  "steady s c t \<longleftrightarrow> same s t \<and> sp_ok t \<and> ir_insert t = Some c"

lemma steady_start: "ir_insert s = Some c \<Longrightarrow> sp_ok s \<Longrightarrow> steady s c s"
  by (simp add: steady_def same_def)

lemma steady_same: "steady s c t \<Longrightarrow> same t u \<Longrightarrow> sp_ok u \<Longrightarrow> steady s c u"
  by (auto simp: steady_def same_def)

lemma does_append:
  assumes "steady s c t"
    and "\<And>u. steady s c u \<Longrightarrow> Q (VInst (ir_nvals t) (instr_ty i)) u"
  shows "does (ir_append i) t Q"
proof -
  define u where "u = t\<lparr>ir_nvals := ir_nvals t + 1, ir_blocks := (ir_blocks t)
    (c := (ir_blocks t c)\<lparr>bb_insts := bb_insts (ir_blocks t c) @ [(ir_nvals t, i)]\<rparr>)\<rparr>"
  have f: "same s t" "sp_ok t" "ir_insert t = Some c" using assms(1) by (simp_all add: steady_def)
  have "same s u" using f(1,3) by (auto simp: same_def u_def)
  moreover have "sp_ok u" using f(2) by (simp add: sp_ok_def u_def)
  ultimately have "steady s c u" using f(3) by (simp add: steady_def u_def)
  from assms(2) [OF this] assms(1) show ?thesis
    by (simp add: does_def ir_append_def Let_def steady_def u_def)
qed

lemma does_exec:
  "steady s c t \<Longrightarrow> (\<And>u. steady s c u \<Longrightarrow> Q () u) \<Longrightarrow> does (ir_exec i) t Q"
  unfolding ir_exec_def by (intro does_bind, erule does_append, rule does_return)

lemma does_create:
  assumes "steady s c t" and Q: "\<And>v u. steady s c u \<Longrightarrow> Q v u"
  shows "does (ir_create i) t Q"
proof (cases "ir_fold t i")
  case None
  then have "ir_create i t = ir_append i t" by (simp add: ir_create_def)
  with does_append [OF assms(1), of Q i] Q show ?thesis by (simp add: does_def)
next
  case (Some v)
  then show ?thesis using assms by (simp add: does_def ir_create_def)
qed

lemma does_cast:
  "steady s c t \<Longrightarrow> (\<And>v u. steady s c u \<Longrightarrow> Q v u) \<Longrightarrow> does (CreateCast op v ty) t Q"
  by (auto simp: CreateCast_def intro: does_create does_return)

lemma does_asInt:
  "steady s c t \<Longrightarrow> (\<And>v u. steady s c u \<Longrightarrow> Q v u) \<Longrightarrow> does (asInt v) t Q"
  unfolding asInt_def createPtrToInt_def by (auto intro!: does_return does_bind does_get elim: does_cast)

lemma does_initSP:
  assumes "steady s c t" "cx_readReg t = None"
    and "\<And>u. steady s c u \<Longrightarrow> cx_readReg u \<noteq> None \<Longrightarrow> Q () u"
  shows "does initSPAccess t Q"
  unfolding initSPAccess_def current_module_def cthe_def
  using assms(1,2)
  by (intro does_intros)
    (auto simp: steady_def sp_ok_def same_def split: option.splits intro!: does_intros assms(3))

lemma does_sp:
  assumes "steady s c t"
    and "\<And>u. steady s c u \<Longrightarrow> cx_readReg u \<noteq> None \<Longrightarrow> cx_spRegMD u \<noteq> None \<Longrightarrow> Q () u"
  shows "does (if cx_readReg t = None then initSPAccess else creturn ()) t Q"
  using assms
  by (auto intro!: does_initSP [OF assms(1)] does_return simp: steady_def sp_ok_def)

lemma does_the: "v \<noteq> None \<Longrightarrow> (\<And>x. v = Some x \<Longrightarrow> Q x s) \<Longrightarrow> does (cthe e v) s Q"
  by (auto simp: cthe_def intro!: does_return)

lemma does_loadFromStack:
  assumes "steady s c t" and Q: "\<And>v u. steady s c u \<Longrightarrow> type_of v = PtrTy \<Longrightarrow> Q v u"
  shows "does (loadFromStack off) t Q"
  unfolding loadFromStack_def stkAddr_def readReg_ty_def iConst_def createAdd_def createBin_def
    createIntToPtr_def wordAlign_def
  apply (intro does_bind does_then does_get, rule does_sp [OF assms(1)])
  apply (intro does_bind does_get does_return does_the, assumption, assumption)
  apply (erule does_append, intro does_bind does_get does_return)
  apply (erule does_asInt, intro does_bind, erule does_asInt, erule does_create, erule does_cast)
  apply (intro does_bind does_get, erule does_append)
  by (rule Q) auto

section \<open>The block\<close>

definition phi_vals :: "nat \<Rightarrow> nat \<Rightarrow> value list" where
  "phi_vals k n = map (\<lambda>i. VInst (k + i) PtrTy) [0..<n]"

lemma phi_vals_Suc: "phi_vals k (Suc n) = VInst k PtrTy # phi_vals (Suc k) n"
  by (simp add: phi_vals_def map_upt_Suc del: upt_Suc)

lemma overflow_phis:
  assumes "ir_insert s = Some c" "sp_ok s"
  shows "does (cmap (\<lambda>_. cbind (CreatePHI PtrTy) (\<lambda>phi.
      cthen (cmodify (\<lambda>s. s\<lparr>cx_overflowPhiNodes := cx_overflowPhiNodes s @ [phi]\<rparr>))
      (creturn phi))) (xs :: nat list)) s
    (\<lambda>phis t. phis = phi_vals (ir_nvals s) (length xs) \<and>
       same (s\<lparr>cx_overflowPhiNodes := cx_overflowPhiNodes s @ phis\<rparr>) t \<and> sp_ok t \<and>
       ir_nvals t = ir_nvals s + length xs)"
  using assms
proof (induction xs arbitrary: s)
  case Nil
  then show ?case by (auto intro!: does_return simp: phi_vals_def same_def)
next
  case (Cons x xs)
  define u where "u = s\<lparr>ir_nvals := ir_nvals s + 1, ir_blocks := (ir_blocks s)
    (c := (ir_blocks s c)\<lparr>bb_insts := bb_insts (ir_blocks s c) @ [(ir_nvals s, Phi PtrTy)]\<rparr>),
    cx_overflowPhiNodes := cx_overflowPhiNodes s @ [VInst (ir_nvals s) PtrTy]\<rparr>"
  have u: "ir_insert u = Some c" "sp_ok u" "ir_nvals u = Suc (ir_nvals s)"
    "cx_overflowPhiNodes u = cx_overflowPhiNodes s @ [VInst (ir_nvals s) PtrTy]"
    using Cons.prems by (simp_all add: u_def sp_ok_def)
  define f where "f = (\<lambda>_ :: nat. cbind (CreatePHI PtrTy) (\<lambda>phi.
      cthen (cmodify (\<lambda>s. s\<lparr>cx_overflowPhiNodes := cx_overflowPhiNodes s @ [phi]\<rparr>))
      (creturn phi :: value cx)))"
  have first: "f x s = Inr (VInst (ir_nvals s) PtrTy, u)"
    using Cons.prems(1)
    by (simp add: f_def CreatePHI_def ir_append_def Let_def u_def cbind_def cthen_def cmodify_def creturn_def)
  from Cons.IH [OF u(1,2), folded f_def] obtain t where t: "cmap f xs u = Inr (phi_vals (ir_nvals u) (length xs), t)"
    "same (u\<lparr>cx_overflowPhiNodes := cx_overflowPhiNodes u @ phi_vals (ir_nvals u) (length xs)\<rparr>) t"
    "sp_ok t" "ir_nvals t = ir_nvals u + length xs"
    by (auto simp: does_def)
  have "cmap f (x # xs) s = Inr (phi_vals (ir_nvals s) (length (x # xs)), t)"
    using t(1) u(3) by (simp add: cbind_def first creturn_def phi_vals_Suc)
  moreover have "same (s\<lparr>cx_overflowPhiNodes := cx_overflowPhiNodes s @
      phi_vals (ir_nvals s) (length (x # xs))\<rparr>) t"
    using t(2) Cons.prems(1) by (simp add: same_def u_def phi_vals_Suc)
  ultimately show ?case using t(3,4) u(3) unfolding f_def [symmetric] by (simp add: does_def)
qed

text \<open>The state of the overflow block: it does not exist, or it has a phi node for each machine
  register.\<close>

definition phis_ok :: "cgctx \<Rightarrow> bool" where
  "phis_ok s \<longleftrightarrow>
     (\<exists>ns. cx_overflowPhiNodes s = map (\<lambda>n. VInst n PtrTy) ns \<and> distinct ns \<and>
        (\<forall>n\<in>set ns. n < ir_nvals s) \<and>
        length ns = (if cx_overflowBB s = None then 0 else numMachineRegs (cx_regInfo s)))"

definition overflow_ok :: "cgctx \<Rightarrow> bool" where
  "overflow_ok s \<longleftrightarrow>
     sp_ok s \<and> cx_curFn s \<noteq> None \<and>
     (\<forall>i<numMachineRegs (cx_regInfo s).
        rs_get (cx_regState s) (ri_id (machineReg (cx_regInfo s) i)) \<noteq> None) \<and>
     phis_ok s"

text \<open>What \<open>make_overflowBB\<close> changes: a new block, and its phi nodes.\<close>

definition made :: "nat \<Rightarrow> nat \<Rightarrow> cgctx \<Rightarrow> cgctx \<Rightarrow> bool" where
  "made c n s t \<longleftrightarrow>
     cx_overflowBB t = Some (ir_nblocks s) \<and>
     cx_overflowPhiNodes t = cx_overflowPhiNodes s @ phi_vals (ir_nvals s) n \<and>
     cx_regState t = cx_regState s \<and> cx_regInfo t = cx_regInfo s \<and> ir_phis t = ir_phis s \<and>
     cx_curFn t = cx_curFn s \<and> sp_ok t \<and> ir_insert t = Some c \<and>
     ir_nblocks t = ir_nblocks s + 1 \<and> ir_nvals s + n \<le> ir_nvals t \<and>
     (\<forall>b. b \<noteq> ir_nblocks s \<longrightarrow> ir_blocks t b = ir_blocks s b)"

lemma does_newBB:
  assumes "cx_curFn s = Some f"
    and "Q (ir_nblocks s) (s\<lparr>ir_nblocks := ir_nblocks s + 1, ir_blocks := (ir_blocks s)
      (ir_nblocks s := \<lparr>bb_name = name, bb_fn = f, bb_insts = []\<rparr>)\<rparr>)"
  shows "does (newBB name) s Q"
  using assms
  by (simp add: does_def newBB_def curFn_def cthe_def BasicBlock_Create_def cbind_def cget_def
      creturn_def)

lemma does_make_overflowBB:
  assumes "cx_curFn s \<noteq> None" "sp_ok s" and Q: "\<And>t. made c n s t \<Longrightarrow> Q () t"
  shows "does (make_overflowBB c n) s Q"
proof -
  obtain f where f: "cx_curFn s = Some f" using assms(1) by blast
  define s2 where "s2 = s\<lparr>ir_nblocks := ir_nblocks s + 1, ir_blocks := (ir_blocks s)
      (ir_nblocks s := \<lparr>bb_name = ''overflow'', bb_fn = f, bb_insts = []\<rparr>),
      cx_overflowBB := Some (ir_nblocks s), ir_insert := Some (ir_nblocks s)\<rparr>"
  have s2_eq: "s2 = s\<lparr>ir_nblocks := ir_nblocks s + 1, ir_blocks := (ir_blocks s)
      (ir_nblocks s := \<lparr>bb_name = ''overflow'', bb_fn = f, bb_insts = []\<rparr>)\<rparr>
      \<lparr>cx_overflowBB := Some (ir_nblocks s)\<rparr>\<lparr>ir_insert := Some (ir_nblocks s)\<rparr>"
    by (simp add: s2_def)
  have s2: "ir_insert s2 = Some (ir_nblocks s)" "sp_ok s2"
    using assms(2) by (simp_all add: s2_def sp_ok_def)
  define body where "body = (\<lambda>args.
      cbind (cbind (cget (\<lambda>s. ti_raiseOvflwOffset (cx_target s))) loadFromStack) (\<lambda>raiseFn.
      cbind (cget cx_raiseOverflowFnTy) (\<lambda>ft.
      cbind (createBitCast raiseFn PtrTy) (\<lambda>f.
      cthen (cbind (ir_append (Call ft f args CC_JWA TCK_NoTail)) (\<lambda>_. creturn ()))
      (cthen (ir_exec RetVoid)
      (SetInsertPoint c))))))"
  have body: "does (body args) t2 Q"
    if "same (s2\<lparr>cx_overflowPhiNodes := cx_overflowPhiNodes s2 @ phi_vals (ir_nvals s2) n\<rparr>) t2"
      "sp_ok t2" "ir_nvals t2 = ir_nvals s2 + n" for args t2
  proof -
    have st: "steady t2 (ir_nblocks s) t2"
      using that(1) s2(1) by (intro steady_start that(2)) (simp add: same_def)
    have fin: "Q () (u\<lparr>ir_insert := Some c\<rparr>)" if "steady t2 (ir_nblocks s) u" for u
    proof (rule Q)
      have "same t2 u" "sp_ok u" using that by (simp_all add: steady_def)
      with \<open>same _ t2\<close> \<open>ir_nvals t2 = _\<close> show "made c n s (u\<lparr>ir_insert := Some c\<rparr>)"
        by (auto simp: made_def same_def s2_def sp_ok_def)
    qed
    show ?thesis
      unfolding body_def createBitCast_def SetInsertPoint_def
      apply (intro does_bind does_get, rule does_loadFromStack [OF st])
      apply (intro does_bind does_get, erule does_cast)
      apply (intro does_then does_bind, erule does_append)
      apply (intro does_return does_then, erule does_exec)
      by (intro does_modify fin)
  qed
  show ?thesis
    unfolding make_overflowBB_def
    apply (intro does_bind, rule does_newBB [OF f])
    apply (unfold SetInsertPoint_def, intro does_then does_modify does_bind)
    apply (fold s2_eq)
    apply (rule does_mono, rule overflow_phis [OF s2])
    by (rule body [unfolded body_def SetInsertPoint_def]) auto
qed

text \<open>The edge from block \<open>c\<close> to the overflow block.\<close>

definition reg_val :: "cgctx \<Rightarrow> nat \<Rightarrow> value" where
  "reg_val s i = the (rs_get (cx_regState s) (ri_id (machineReg (cx_regInfo s) i)))"

lemma incoming_loop:
  assumes "cx_overflowPhiNodes s = map (\<lambda>n. VInst n PtrTy) ns" "\<forall>i\<in>set is. i < length ns"
    "\<forall>i\<in>set is. rs_get (cx_regState s) (ri_id (machineReg (cx_regInfo s) i)) \<noteq> None"
  shows "cforeach is (\<lambda>i.
      cbind (cbind (cget cx_overflowPhiNodes) (\<lambda>phis. phi_at phis i)) (\<lambda>phi.
      cbind (reg_value (ri_id (machineReg (cx_regInfo s) i))) (\<lambda>v. phi_addIncoming phi v c))) s =
    Inr ((), s\<lparr>ir_phis := (\<lambda>m. ir_phis s m @
      map (\<lambda>i. (reg_val s i, c)) (filter (\<lambda>i. ns ! i = m) is))\<rparr>)"
  using assms
proof (induction "is" arbitrary: s)
  case Nil
  then show ?case by (simp add: creturn_def)
next
  case (Cons i js)
  obtain v where v: "rs_get (cx_regState s) (ri_id (machineReg (cx_regInfo s) i)) = Some v"
    using Cons.prems(3) by auto
  define u where "u = s\<lparr>ir_phis := (ir_phis s)(ns ! i := ir_phis s (ns ! i) @ [(v, c)])\<rparr>"
  have u: "cx_overflowPhiNodes u = map (\<lambda>n. VInst n PtrTy) ns" "cx_regInfo u = cx_regInfo s"
    "cx_regState u = cx_regState s"
    using Cons.prems(1) by (simp_all add: u_def)
  have "(cbind (cbind (cget cx_overflowPhiNodes) (\<lambda>phis. phi_at phis i)) (\<lambda>phi.
      cbind (reg_value (ri_id (machineReg (cx_regInfo s) i))) (\<lambda>v. phi_addIncoming phi v c))) s =
      Inr ((), u)"
    using Cons.prems(1,2) v
    by (simp add: cbind_def cget_def phi_at_def cnth_def creturn_def reg_value_def cthe_def
        phi_addIncoming_def cmodify_def u_def)
  moreover have "reg_val u j = reg_val s j" for j by (simp add: reg_val_def u)
  ultimately show ?case
    using Cons.IH [of u] Cons.prems u v
    by (simp add: cthen_def cbind_def reg_val_def) (auto simp: u_def fun_eq_iff)
qed

text \<open>The state after \<open>getOverflowBB\<close> in block \<open>c\<close>: each phi node has got the value of its register
  from \<open>c\<close>, and nothing else has changed but the block, when it is new.\<close>

definition edge_added :: "nat \<Rightarrow> cgctx \<Rightarrow> nat \<Rightarrow> cgctx \<Rightarrow> bool" where
  "edge_added c s ob t \<longleftrightarrow>
     cx_overflowBB t = Some ob \<and> ir_insert t = Some c \<and>
     cx_regState t = cx_regState s \<and> cx_regInfo t = cx_regInfo s \<and> ir_nvals s \<le> ir_nvals t \<and>
     (case cx_overflowBB s of
        Some b \<Rightarrow> ob = b \<and> ir_nblocks t = ir_nblocks s \<and> ir_blocks t = ir_blocks s
      | None \<Rightarrow> ob = ir_nblocks s \<and> ir_nblocks t = ir_nblocks s + 1 \<and>
          (\<forall>b. b \<noteq> ob \<longrightarrow> ir_blocks t b = ir_blocks s b)) \<and>
     (\<exists>ns. cx_overflowPhiNodes t = map (\<lambda>n. VInst n PtrTy) ns \<and> distinct ns \<and>
        length ns = numMachineRegs (cx_regInfo s) \<and>
        (\<forall>i<length ns. ir_phis t (ns ! i) = ir_phis s (ns ! i) @ [(reg_val s i, c)]) \<and>
        (\<forall>n. n \<notin> set ns \<longrightarrow> ir_phis t n = ir_phis s n))"

lemma filter_upt_eq: "i < n \<Longrightarrow> filter (\<lambda>j. j = i) [0..<n] = [i]"
  by (induction n) (auto simp: less_Suc_eq filter_empty_conv)

lemma filter_nth_eq:
  assumes "distinct ns" "i < length ns"
  shows "filter (\<lambda>j. ns ! j = ns ! i) [0..<length ns] = [i]"
proof -
  have "filter (\<lambda>j. ns ! j = ns ! i) [0..<length ns] = filter (\<lambda>j. j = i) [0..<length ns]"
    using assms by (intro filter_cong) (auto simp: nth_eq_iff_index_eq)
  also have "\<dots> = [i]" using assms(2) by (rule filter_upt_eq)
  finally show ?thesis .
qed

lemma getOverflowBB_loop:
  assumes "overflow_ok s" "cx_overflowBB s = Some ob" "n = numMachineRegs (cx_regInfo s)"
    and Q: "\<And>t. overflow_ok t \<Longrightarrow> cx_overflowBB t = Some ob \<Longrightarrow> ir_insert t = ir_insert s \<Longrightarrow>
      cx_regState t = cx_regState s \<Longrightarrow> cx_regInfo t = cx_regInfo s \<Longrightarrow> ir_nvals t = ir_nvals s \<Longrightarrow>
      ir_nblocks t = ir_nblocks s \<Longrightarrow> ir_blocks t = ir_blocks s \<Longrightarrow>
      \<exists>ns. cx_overflowPhiNodes t = map (\<lambda>n. VInst n PtrTy) ns \<and> distinct ns \<and> length ns = n \<and>
        (\<forall>i<length ns. ir_phis t (ns ! i) = ir_phis s (ns ! i) @ [(reg_val s i, c)]) \<and>
        (\<forall>m. m \<notin> set ns \<longrightarrow> ir_phis t m = ir_phis s m) \<Longrightarrow> Q ob t"
  shows "does (cbind (cget cx_regInfo) (\<lambda>ri.
      cthen (cforeach [0..<n] (\<lambda>i.
        cbind (cbind (cget cx_overflowPhiNodes) (\<lambda>phis. phi_at phis i)) (\<lambda>phi.
        cbind (reg_value (ri_id (machineReg ri i))) (\<lambda>v. phi_addIncoming phi v c))))
      (cbind (cget cx_overflowBB) (cthe (NullPointer ''overflow block''))))) s Q"
proof -
  obtain ns where ns: "cx_overflowPhiNodes s = map (\<lambda>n. VInst n PtrTy) ns" "distinct ns"
    "length ns = n" "\<forall>n\<in>set ns. n < ir_nvals s"
    using assms(1,2,3) by (auto simp: overflow_ok_def phis_ok_def)
  define t where "t = s\<lparr>ir_phis := (\<lambda>m. ir_phis s m @
      map (\<lambda>i. (reg_val s i, c)) (filter (\<lambda>i. ns ! i = m) [0..<n]))\<rparr>"
  have loop: "cforeach [0..<n] (\<lambda>i.
      cbind (cbind (cget cx_overflowPhiNodes) (\<lambda>phis. phi_at phis i)) (\<lambda>phi.
      cbind (reg_value (ri_id (machineReg (cx_regInfo s) i))) (\<lambda>v. phi_addIncoming phi v c))) s =
      Inr ((), t)"
    unfolding t_def by (rule incoming_loop [OF ns(1)])
      (use assms(1,3) ns(3) in \<open>auto simp: overflow_ok_def\<close>)
  have "Q ob t"
  proof (rule Q)
    show "overflow_ok t" using assms(1,2) by (simp add: t_def overflow_ok_def sp_ok_def phis_ok_def)
    have "ir_phis t (ns ! i) = ir_phis s (ns ! i) @ [(reg_val s i, c)]" if "i < length ns" for i
      using filter_nth_eq [OF ns(2) that] by (simp add: t_def ns(3))
    moreover have "ir_phis t m = ir_phis s m" if "m \<notin> set ns" for m
      using that ns(3) by (auto simp: t_def filter_empty_conv set_conv_nth)
    ultimately show "\<exists>ns. cx_overflowPhiNodes t = map (\<lambda>n. VInst n PtrTy) ns \<and> distinct ns \<and>
        length ns = n \<and>
        (\<forall>i<length ns. ir_phis t (ns ! i) = ir_phis s (ns ! i) @ [(reg_val s i, c)]) \<and>
        (\<forall>m. m \<notin> set ns \<longrightarrow> ir_phis t m = ir_phis s m)"
      using ns by (intro exI [of _ ns]) (auto simp: t_def)
  qed (simp_all add: t_def assms(2))
  moreover have "cx_overflowBB t = Some ob" by (simp add: t_def assms(2))
  moreover have "does (cforeach [0..<n] (\<lambda>i.
      cbind (cbind (cget cx_overflowPhiNodes) (\<lambda>phis. phi_at phis i)) (\<lambda>phi.
      cbind (reg_value (ri_id (machineReg (cx_regInfo s) i))) (\<lambda>v. phi_addIncoming phi v c)))) s
      (\<lambda>_ u. u = t)"
    by (simp only: does_def loop) simp
  ultimately show ?thesis
    by (intro does_bind does_get does_then, elim does_mono)
      (auto simp: cthe_def intro!: does_bind does_get does_return)
qed

lemma made_phis:
  assumes "made c n s t" "phis_ok s" "cx_overflowBB s = None" "n = numMachineRegs (cx_regInfo s)"
  shows "phis_ok t"
proof -
  have p: "cx_overflowPhiNodes s = []" using assms(2,3) by (auto simp: phis_ok_def)
  define ns where "ns = map (\<lambda>i. ir_nvals s + i) [0..<n]"
  have "cx_overflowPhiNodes t = map (\<lambda>n. VInst n PtrTy) ns" "distinct ns" "length ns = n"
    "\<forall>n\<in>set ns. n < ir_nvals t"
    using assms(1) p by (auto simp: made_def phi_vals_def ns_def distinct_map inj_on_def)
  then show ?thesis
    using assms(1,4) unfolding phis_ok_def by (intro exI [of _ ns]) (simp add: made_def)
qed

lemma made_ok:
  assumes "made c n s t" "overflow_ok s" "cx_overflowBB s = None" "n = numMachineRegs (cx_regInfo s)"
  shows "overflow_ok t"
  using assms made_phis [OF assms(1) _ assms(3,4)] by (simp add: overflow_ok_def made_def)

lemma does_getOverflowBB:
  assumes "overflow_ok s" "ir_insert s = Some c"
    and Q: "\<And>ob t. overflow_ok t \<Longrightarrow> edge_added c s ob t \<Longrightarrow> Q ob t"
  shows "does getOverflowBB s Q"
proof -
  have g: "does GetInsertBlock s R" if "R c s" for R
    using that assms(2) by (auto simp: GetInsertBlock_def cthe_def intro!: does_intros)
  show ?thesis
  proof (cases "cx_overflowBB s")
    case (Some b)
    show ?thesis
      unfolding getOverflowBB_def
      apply (rule does_bind, rule g, rule does_bind, rule does_get, rule does_then)
      apply (rule does_bind, rule does_get, simp add: Some, rule does_return)
      apply (rule getOverflowBB_loop [OF assms(1) Some refl])
      by (rule Q, assumption) (simp add: edge_added_def Some assms(2))
  next
    case None
    show ?thesis
      unfolding getOverflowBB_def
      apply (rule does_bind, rule g, rule does_bind, rule does_get, rule does_then)
      apply (rule does_bind, rule does_get, simp add: None)
      apply (rule does_make_overflowBB)
        apply (use assms(1) in \<open>simp_all add: overflow_ok_def\<close>)[2]
      subgoal premises m for u
      proof (rule getOverflowBB_loop [OF made_ok [OF m assms(1) None refl]])
        show "cx_overflowBB u = Some (ir_nblocks s)"
          "numMachineRegs (cx_regInfo s) = numMachineRegs (cx_regInfo u)"
          using m by (simp_all add: made_def)
        fix t
        assume t: "overflow_ok t" "cx_overflowBB t = Some (ir_nblocks s)" "ir_insert t = ir_insert u"
          "cx_regState t = cx_regState u" "cx_regInfo t = cx_regInfo u" "ir_nvals t = ir_nvals u"
          "ir_nblocks t = ir_nblocks u" "ir_blocks t = ir_blocks u"
          "\<exists>ns. cx_overflowPhiNodes t = map (\<lambda>n. VInst n PtrTy) ns \<and> distinct ns \<and>
             length ns = numMachineRegs (cx_regInfo s) \<and>
             (\<forall>i<length ns. ir_phis t (ns ! i) = ir_phis u (ns ! i) @ [(reg_val u i, c)]) \<and>
             (\<forall>m. m \<notin> set ns \<longrightarrow> ir_phis t m = ir_phis u m)"
        have "reg_val u = reg_val s" using m by (simp add: made_def reg_val_def fun_eq_iff)
        with m t have "edge_added c s (ir_nblocks s) t" by (simp add: edge_added_def None made_def)
        with t(1) show "Q (ir_nblocks s) t" by (rule Q)
      qed
      done
  qed
qed

end
