(* ===== verification/Llvm_Sem.thy ===== *)
theory Llvm_Sem
  imports Frame_Laws
begin

unbundle bit_operations_syntax

text \<open>
  The meaning of straight-line code, after the LLVM Language Reference: values of integer and
  pointer type and pairs, a byte memory, and the instructions that the generator uses for
  allocation, tests and arithmetic.  Undefined behaviour, poison, floating point and the values of
  labels are left out: an instruction without a meaning here has the result \<open>None\<close>.
\<close>

section \<open>Memory\<close>

type_synonym mem = "u64 \<Rightarrow> u8"

text \<open>Writing and reading \<open>k\<close> bytes, the least significant first.\<close>

definition put :: "nat \<Rightarrow> u64 \<Rightarrow> int \<Rightarrow> mem \<Rightarrow> mem" where
  "put k a v m = (\<lambda>x. if unat (x - a) < k then word_of_int (v div 256 ^ unat (x - a)) else m x)"

definition get :: "nat \<Rightarrow> u64 \<Rightarrow> mem \<Rightarrow> int" where
  "get k a m = (\<Sum>i<k. uint (m (a + of_nat i)) * 256 ^ i)"

primrec write_words :: "u64 \<Rightarrow> int list \<Rightarrow> mem \<Rightarrow> mem" where
  "write_words a [] m = m"
| "write_words a (w # ws) m = write_words (a + 8) ws (put 8 a w m)"

lemma digits_sum:
  fixes v :: int
  shows "(\<Sum>i<k. (v div 256 ^ i mod 256) * 256 ^ i) = v mod 256 ^ k"
proof (induction k)
  case (Suc k)
  have "v mod 256 ^ Suc k = v mod 256 ^ k + 256 ^ k * (v div 256 ^ k mod 256)"
    using mod_mult2_eq' [of v "256 ^ k" 256] by (simp add: mult.commute)
  with Suc show ?case by (simp add: mult.commute)
qed simp

lemma get_cong: "(\<And>i. i < k \<Longrightarrow> m (a + of_nat i) = n (a + of_nat i)) \<Longrightarrow> get k a m = get k a n"
  unfolding get_def by (intro sum.cong) auto

lemma get_put_same:
  assumes "k \<le> 8" "0 \<le> v" "v < 256 ^ k"
  shows "get k a (put k a v m) = v"
proof -
  have "uint (put k a v m (a + of_nat i)) = v div 256 ^ i mod 256" if "i < k" for i
  proof -
    have "unat (of_nat i :: u64) = i" using that assms(1) by (intro unat_word_of_nat) simp
    with that show ?thesis by (simp add: put_def uint_word_of_int)
  qed
  then have "get k a (put k a v m) = (\<Sum>i<k. (v div 256 ^ i mod 256) * 256 ^ i)"
    unfolding get_def by (intro sum.cong) auto
  with assms show ?thesis by (simp add: digits_sum)
qed

lemma get_put_other:
  assumes "\<And>i. i < l \<Longrightarrow> k \<le> unat (b + of_nat i - a)"
  shows "get l b (put k a v m) = get l b m"
  by (rule get_cong) (use assms in \<open>force simp: put_def\<close>)

lemma put_outside: "k \<le> unat (x - a) \<Longrightarrow> put k a v m x = m x"
  by (simp add: put_def)

text \<open>Offsets from a base address.\<close>

lemma unat_offset:
  assumes "n < 2 ^ 64"
  shows "unat (of_nat n :: u64) = n"
  using assms by (intro unat_word_of_nat) simp

lemma unat_neg:
  assumes "0 < n" "n < 2 ^ 64"
  shows "unat (- of_nat n :: u64) = 2 ^ 64 - n"
proof -
  have "(of_nat (2 ^ 64 - n) :: u64) = of_nat (2 ^ 64) - of_nat n"
    using assms by (intro of_nat_diff) simp
  also have "(of_nat (2 ^ 64) :: u64) = 0" by simp
  finally have "(- of_nat n :: u64) = of_nat (2 ^ 64 - n)" by simp
  then show ?thesis using assms by (simp only: unat_offset)
qed

lemma write_words_outside:
  "8 * length ws \<le> unat (x - a) \<Longrightarrow> write_words a ws m x = m x"
proof (induction ws arbitrary: a m)
  case (Cons w ws)
  have "unat (x - a) \<ge> 8" using Cons.prems by simp
  then have "unat (x - (a + 8)) = unat (x - a) - 8"
    using unat_sub [of 8 "x - a"] by (simp add: word_le_iff diff_diff_eq)
  with Cons.prems have "8 * length ws \<le> unat (x - (a + 8))" by simp
  from Cons.IH [OF this] \<open>unat (x - a) \<ge> 8\<close> show ?case by (simp add: put_outside)
qed simp

lemma write_words_read:
  assumes "i < length ws" "8 * length ws < 2 ^ 64" "\<forall>w\<in>set ws. 0 \<le> w \<and> w < 2 ^ 64"
  shows "get 8 (a + 8 * of_nat i) (write_words a ws m) = ws ! i"
  using assms
proof (induction ws arbitrary: a m i)
  case (Cons w ws)
  show ?case
  proof (cases i)
    case 0
    have "write_words (a + 8) ws (put 8 a w m) (a + of_nat j) = put 8 a w m (a + of_nat j)"
      if "j < 8" for j
    proof (rule write_words_outside)
      have "a + of_nat j - (a + 8) = - of_nat (8 - j)" using that by (simp add: of_nat_diff)
      moreover have "unat (- of_nat (8 - j) :: u64) = 2 ^ 64 - (8 - j)"
        using that by (intro unat_neg) auto
      ultimately show "8 * length ws \<le> unat (a + of_nat j - (a + 8))"
        using Cons.prems(2) that by simp
    qed
    then have "get 8 a (write_words (a + 8) ws (put 8 a w m)) = get 8 a (put 8 a w m)"
      by (rule get_cong)
    also have "\<dots> = w" using Cons.prems(3) by (intro get_put_same) auto
    finally show ?thesis by (simp add: 0)
  next
    case (Suc j)
    have "get 8 (a + 8 + 8 * of_nat j) (write_words (a + 8) ws (put 8 a w m)) = ws ! j"
      by (rule Cons.IH) (use Cons.prems Suc in auto)
    then show ?thesis by (simp add: Suc algebra_simps)
  qed
qed simp

section \<open>Values and instructions\<close>

text \<open>A number of floating-point type is its bits, without arithmetic.\<close>

datatype rval =
    RI nat int  \<comment> \<open>width, unsigned value\<close>
  | RP u64
  | RFlt bool int  \<comment> \<open>whether it is a \<open>double\<close>, bits\<close>
  | RPair rval rval

fun rtype :: "rval \<Rightarrow> lty" where
  "rtype (RI w _) = IntTy w"
| "rtype (RP _) = PtrTy"
| "rtype (RFlt d _) = (if d then DoubleTy else FloatTy)"
| "rtype (RPair a b) = StructTy [rtype a, rtype b]"

record rstate =
  rv_inst :: "nat \<Rightarrow> rval option"
  rv_arg :: "nat \<Rightarrow> rval option"
  rv_sp :: u64
  rv_mem :: mem

fun veval :: "rstate \<Rightarrow> value \<Rightarrow> rval option" where
  "veval \<sigma> (VInst n _) = rv_inst \<sigma> n"
| "veval \<sigma> (VArg i _) = rv_arg \<sigma> i"
| "veval \<sigma> (VInt w c) = Some (RI w (take_bit w c))"
| "veval \<sigma> _ = None"

definition sval :: "nat \<Rightarrow> int \<Rightarrow> int" where
  "sval w x = signed_take_bit (w - 1) x"

text \<open>Integer operations; division by zero, its overflow and shifts past the width are undefined.
  Signed division rounds towards zero.\<close>

definition quotient :: "int \<Rightarrow> int \<Rightarrow> int" where
  "quotient x y = sgn x * sgn y * (\<bar>x\<bar> div \<bar>y\<bar>)"

definition div_defined :: "nat \<Rightarrow> int \<Rightarrow> int \<Rightarrow> bool" where
  "div_defined w x y \<longleftrightarrow> y \<noteq> 0 \<and> \<not> (x = - (2 ^ (w - 1)) \<and> y = - 1)"

definition bin_int :: "binop \<Rightarrow> nat \<Rightarrow> int \<Rightarrow> int \<Rightarrow> int option" where
  "bin_int op w x y =
     (case op of
        OpAdd \<Rightarrow> Some (take_bit w (x + y))
      | OpSub \<Rightarrow> Some (take_bit w (x - y))
      | OpMul \<Rightarrow> Some (take_bit w (x * y))
      | OpUDiv \<Rightarrow> (if y = 0 then None else Some (x div y))
      | OpURem \<Rightarrow> (if y = 0 then None else Some (x mod y))
      | OpSDiv \<Rightarrow> (if div_defined w (sval w x) (sval w y)
          then Some (take_bit w (quotient (sval w x) (sval w y))) else None)
      | OpSRem \<Rightarrow> (if div_defined w (sval w x) (sval w y)
          then Some (take_bit w (sval w x - sval w y * quotient (sval w x) (sval w y))) else None)
      | OpAnd \<Rightarrow> Some (x AND y)
      | OpOr \<Rightarrow> Some (x OR y)
      | OpXor \<Rightarrow> Some (x XOR y)
      | OpShl \<Rightarrow> (if y < int w then Some (take_bit w (push_bit (nat y) x)) else None)
      | OpLShr \<Rightarrow> (if y < int w then Some (drop_bit (nat y) x) else None)
      | OpAShr \<Rightarrow> (if y < int w then Some (take_bit w (drop_bit (nat y) (sval w x))) else None)
      | _ \<Rightarrow> None)"

definition icmp_int :: "icmp_pred \<Rightarrow> nat \<Rightarrow> int \<Rightarrow> int \<Rightarrow> bool" where
  "icmp_int p w x y =
     (case p of
        ICMP_EQ \<Rightarrow> x = y | ICMP_NE \<Rightarrow> x \<noteq> y
      | ICMP_UGT \<Rightarrow> x > y | ICMP_UGE \<Rightarrow> x \<ge> y | ICMP_ULT \<Rightarrow> x < y | ICMP_ULE \<Rightarrow> x \<le> y
      | ICMP_SGT \<Rightarrow> sval w x > sval w y | ICMP_SGE \<Rightarrow> sval w x \<ge> sval w y
      | ICMP_SLT \<Rightarrow> sval w x < sval w y | ICMP_SLE \<Rightarrow> sval w x \<le> sval w y)"

definition cast_val :: "castop \<Rightarrow> rval \<Rightarrow> lty \<Rightarrow> rval option" where
  "cast_val op r t =
     (case (op, r, t) of
        (Trunc, RI w x, IntTy v) \<Rightarrow> if v < w then Some (RI v (take_bit v x)) else None
      | (ZExt, RI w x, IntTy v) \<Rightarrow> if w < v then Some (RI v x) else None
      | (SExt, RI w x, IntTy v) \<Rightarrow> if w < v then Some (RI v (take_bit v (sval w x))) else None
      | (PtrToInt, RP p, IntTy v) \<Rightarrow> Some (RI v (take_bit v (uint p)))
      | (IntToPtr, RI w x, PtrTy) \<Rightarrow> Some (RP (word_of_int x))
      | (BitCast, RP p, PtrTy) \<Rightarrow> Some (RP p)
      | (BitCast, RI w x, IntTy v) \<Rightarrow> if v = w then Some (RI w x) else None
      | (BitCast, RFlt d x, IntTy v) \<Rightarrow> if v = (if d then 64 else 32) then Some (RI v x) else None
      | (BitCast, RI w x, DoubleTy) \<Rightarrow> if w = 64 then Some (RFlt True x) else None
      | (BitCast, RI w x, FloatTy) \<Rightarrow> if w = 32 then Some (RFlt False x) else None
      | _ \<Rightarrow> None)"

text \<open>The overflow intrinsics give the wrapped result and whether the exact one does not fit.\<close>

definition with_overflow :: "nat \<Rightarrow> int \<Rightarrow> rval" where
  "with_overflow w z =
     RPair (RI w (take_bit w z)) (RI 1 (if - (2 ^ (w - 1)) \<le> z \<and> z < 2 ^ (w - 1) then 0 else 1))"

text \<open>The width of the operands of an integer intrinsic.\<close>

definition intr_width :: "intrinsic \<Rightarrow> nat" where
  "intr_width i =
     (if i \<in> {Sadd32WO, Ssub32WO, Smul32WO, Ctlz32, Cttz32, Ctpop32, Fshl32, Fshr32} then 32 else 64)"

definition popcount :: "nat \<Rightarrow> int \<Rightarrow> int" where
  "popcount w x = int (length (filter (bit x) [0..<w]))"

definition zeros_below :: "nat \<Rightarrow> int \<Rightarrow> int" where
  "zeros_below w x = int (length (takeWhile (\<lambda>i. \<not> bit x i) [0..<w]))"

definition zeros_above :: "nat \<Rightarrow> int \<Rightarrow> int" where
  "zeros_above w x = int (length (takeWhile (\<lambda>i. \<not> bit x i) (rev [0..<w])))"

text \<open>The funnel shifts take the upper, or the lower, half of the shifted concatenation.\<close>

definition funnel_left :: "nat \<Rightarrow> int \<Rightarrow> int \<Rightarrow> int \<Rightarrow> int" where
  "funnel_left w x y k = take_bit w (drop_bit w (push_bit (nat (k mod int w)) (push_bit w x + y)))"

definition funnel_right :: "nat \<Rightarrow> int \<Rightarrow> int \<Rightarrow> int \<Rightarrow> int" where
  "funnel_right w x y k = take_bit w (drop_bit (nat (k mod int w)) (push_bit w x + y))"

definition intr_val :: "intrinsic \<Rightarrow> rval list \<Rightarrow> rval option" where
  "intr_val i rs =
     (let n = intr_width i in
      case rs of
        [RI v x] \<Rightarrow>
          if v = n \<and> i \<in> {Ctpop32, Ctpop64} then Some (RI n (popcount n x)) else None
      | [RI v x, RI w y] \<Rightarrow>
          (let ov = (\<lambda>z. if v = n \<and> w = n then Some (with_overflow n z) else None);
               zs = (\<lambda>z. if v = n \<and> w = 1 \<and> y = 0 then Some (RI n z) else None)
           in if i \<in> {Sadd32WO, Sadd64WO} then ov (sval n x + sval n y)
              else if i \<in> {Ssub32WO, Ssub64WO} then ov (sval n x - sval n y)
              else if i \<in> {Smul32WO, Smul64WO} then ov (sval n x * sval n y)
              else if i \<in> {Ctlz32, Ctlz64} then zs (zeros_above n x)
              else if i \<in> {Cttz32, Cttz64} then zs (zeros_below n x)
              else None)
      | [RI u x, RI v y, RI w k] \<Rightarrow>
          if u = n \<and> v = n \<and> w = n then
            if i \<in> {Fshl32, Fshl64} then Some (RI n (funnel_left n x y k))
            else if i \<in> {Fshr32, Fshr64} then Some (RI n (funnel_right n x y k))
            else None
          else None
      | _ \<Rightarrow> None)"

fun ty_bytes :: "lty \<Rightarrow> nat" where
  "ty_bytes (IntTy w) = w div 8"
| "ty_bytes FloatTy = 4"
| "ty_bytes _ = 8"

primrec vevals :: "rstate \<Rightarrow> value list \<Rightarrow> rval list option" where
  "vevals \<sigma> [] = Some []"
| "vevals \<sigma> (v # vs) =
     (case (veval \<sigma> v, vevals \<sigma> vs) of (Some r, Some rs) \<Rightarrow> Some (r # rs) | _ \<Rightarrow> None)"

text \<open>Instructions without effect on memory.\<close>

fun psem :: "rstate \<Rightarrow> instr \<Rightarrow> rval option" where
  "psem \<sigma> (BinOp op a b) =
     (case (veval \<sigma> a, veval \<sigma> b) of
        (Some (RI v x), Some (RI w y)) \<Rightarrow>
          if v = w then map_option (RI w) (bin_int op w x y) else None
      | _ \<Rightarrow> None)"
| "psem \<sigma> (Cast op a t) = (case veval \<sigma> a of Some r \<Rightarrow> cast_val op r t | None \<Rightarrow> None)"
| "psem \<sigma> (ICmp p a b) =
     (case (veval \<sigma> a, veval \<sigma> b) of
        (Some (RI v x), Some (RI w y)) \<Rightarrow>
          if v = w then Some (RI 1 (if icmp_int p w x y then 1 else 0)) else None
      | _ \<Rightarrow> None)"
| "psem \<sigma> (ExtractValue a i) =
     (case veval \<sigma> a of
        Some (RPair x y) \<Rightarrow> if i = 0 then Some x else if i = 1 then Some y else None
      | _ \<Rightarrow> None)"
| "psem \<sigma> (GEP t b i) =
     (case (veval \<sigma> b, veval \<sigma> i) of
        (Some (RP p), Some (RI w x)) \<Rightarrow> Some (RP (p + of_nat (ty_bytes t) * word_of_int (sval w x)))
      | _ \<Rightarrow> None)"
| "psem \<sigma> (Call ft f args cc tk) =
     (case f of
        VIntr i _ \<Rightarrow> (case vevals \<sigma> args of Some rs \<Rightarrow> intr_val i rs | None \<Rightarrow> None)
      | VReadReg _ \<Rightarrow> Some (RI 64 (uint (rv_sp \<sigma>)))
      | _ \<Rightarrow> None)"
| "psem \<sigma> _ = None"

definition rbytes :: "rval \<Rightarrow> nat" where
  "rbytes r = (case r of RI w _ \<Rightarrow> w div 8 | RFlt d _ \<Rightarrow> (if d then 8 else 4) | _ \<Rightarrow> 8)"

definition raw :: "rval \<Rightarrow> int" where
  "raw r = (case r of RI _ x \<Rightarrow> x | RP p \<Rightarrow> uint p | RFlt _ x \<Rightarrow> x | RPair _ _ \<Rightarrow> 0)"

fun exec1 :: "rstate \<Rightarrow> nat \<times> instr \<Rightarrow> rstate option" where
  "exec1 \<sigma> (n, Store v a al) =
     (case (veval \<sigma> v, veval \<sigma> a) of
        (Some r, Some (RP p)) \<Rightarrow> Some (\<sigma>\<lparr>rv_mem := put (rbytes r) p (raw r) (rv_mem \<sigma>)\<rparr>)
      | _ \<Rightarrow> None)"
| "exec1 \<sigma> (n, Load t a al iv) =
     (case (veval \<sigma> a, t) of
        (Some (RP p), PtrTy) \<Rightarrow>
          Some (\<sigma>\<lparr>rv_inst := (rv_inst \<sigma>)(n := Some (RP (word_of_int (get 8 p (rv_mem \<sigma>)))))\<rparr>)
      | (Some (RP p), IntTy w) \<Rightarrow>
          Some (\<sigma>\<lparr>rv_inst := (rv_inst \<sigma>)(n := Some (RI w (get (w div 8) p (rv_mem \<sigma>))))\<rparr>)
      | (Some (RP p), FloatTy) \<Rightarrow>
          Some (\<sigma>\<lparr>rv_inst := (rv_inst \<sigma>)(n := Some (RFlt False (get 4 p (rv_mem \<sigma>))))\<rparr>)
      | (Some (RP p), DoubleTy) \<Rightarrow>
          Some (\<sigma>\<lparr>rv_inst := (rv_inst \<sigma>)(n := Some (RFlt True (get 8 p (rv_mem \<sigma>))))\<rparr>)
      | _ \<Rightarrow> None)"
| "exec1 \<sigma> (n, i) =
     (case psem \<sigma> i of
        Some r \<Rightarrow> Some (\<sigma>\<lparr>rv_inst := (rv_inst \<sigma>)(n := Some r)\<rparr>)
      | None \<Rightarrow> None)"

primrec exec :: "rstate \<Rightarrow> (nat \<times> instr) list \<Rightarrow> rstate option" where
  "exec \<sigma> [] = Some \<sigma>"
| "exec \<sigma> (ni # is) = (case exec1 \<sigma> ni of Some \<tau> \<Rightarrow> exec \<tau> is | None \<Rightarrow> None)"

lemma exec_append:
  "exec \<sigma> (is @ js) = (case exec \<sigma> is of Some \<tau> \<Rightarrow> exec \<tau> js | None \<Rightarrow> None)"
  by (induction "is" arbitrary: \<sigma>) (auto split: option.split)

lemma exec1_pure:
  "psem \<sigma> i = Some r \<Longrightarrow> exec1 \<sigma> (n, i) = Some (\<sigma>\<lparr>rv_inst := (rv_inst \<sigma>)(n := Some r)\<rparr>)"
  by (cases i) simp_all

section \<open>A folder that respects the meaning\<close>

text \<open>\<open>IRBuilder\<close> may replace an instruction by a value: one of its operands, or a constant.  The
  value has the type of the instruction and, where the instruction has a meaning, its value.\<close>

fun operands :: "instr \<Rightarrow> value list" where
  "operands (BinOp _ a b) = [a, b]"
| "operands (Cast _ a _) = [a]"
| "operands (FNeg a) = [a]"
| "operands (ICmp _ a b) = [a, b]"
| "operands (FCmp _ a b) = [a, b]"
| "operands (GEP _ b i) = [b, i]"
| "operands (ExtractValue a _) = [a]"
| "operands _ = []"

definition local_value :: "value \<Rightarrow> bool" where
  "local_value v = (case v of VInst _ _ \<Rightarrow> True | _ \<Rightarrow> False)"

definition fold_sound :: "(instr \<Rightarrow> value option) \<Rightarrow> bool" where
  "fold_sound f \<longleftrightarrow>
     (\<forall>i v. f i = Some v \<longrightarrow>
        type_of v = instr_ty i \<and> (local_value v \<longrightarrow> v \<in> set (operands i)) \<and>
        (\<forall>\<sigma> r. psem \<sigma> i = Some r \<longrightarrow> veval \<sigma> v = Some r))"

lemma fold_sound_none [simp]: "fold_sound (\<lambda>_. None)"
  by (simp add: fold_sound_def)

end
