(* ===== verification/Emit_Logic.thy ===== *)
theory Emit_Logic
  imports Llvm_Sem
begin

text \<open>
  A weakest-precondition calculus for the code generator.  \<open>runs m s \<sigma> Q\<close> says that \<open>m\<close> succeeds
  in the state \<open>s\<close>, that the instructions it appends to the current block run from the machine
  state \<open>\<sigma>\<close>, and that \<open>Q\<close> holds of the result and of both states afterwards.
\<close>

section \<open>The states\<close>

text \<open>The state of the generator: a 64-bit target, a current block, a sound folder.\<close>

definition ctx_ok :: "cgctx \<Rightarrow> bool" where
  "ctx_ok s \<longleftrightarrow>
     ir_insert s \<noteq> None \<and> cx_intTy s = i64Ty \<and> cx_wordSzB s = 8 \<and> fold_sound (ir_fold s)"

text \<open>Besides the fields of \<open>kept\<close>, the overflow block and the access to the stack stay as they are.\<close>

definition still :: "cgctx \<Rightarrow> cgctx \<Rightarrow> bool" where
  "still s t \<longleftrightarrow>
     kept s t \<and> cx_overflowBB t = cx_overflowBB s \<and>
     cx_overflowPhiNodes t = cx_overflowPhiNodes s \<and> ir_phis t = ir_phis s \<and>
     cx_readReg t = cx_readReg s \<and> cx_spRegMD t = cx_spRegMD s"

lemma still_refl [simp]: "still s s"
  by (simp add: still_def)

lemma still_trans: "still s t \<Longrightarrow> still t u \<Longrightarrow> still s u"
  unfolding still_def by (auto intro: kept_trans)

lemma still_kept: "still s t \<Longrightarrow> kept s t"
  by (simp add: still_def)

definition emits :: "cgctx \<Rightarrow> (nat \<times> instr) list \<Rightarrow> cgctx \<Rightarrow> bool" where
  "emits s is t \<longleftrightarrow>
     still s t \<and>
     (\<forall>b. bb_insts (ir_blocks t b) =
        bb_insts (ir_blocks s b) @ (if ir_insert s = Some b then is else []))"

definition scoped :: "cgctx \<Rightarrow> value \<Rightarrow> bool" where
  "scoped s v \<longleftrightarrow> (case v of VInst n _ \<Rightarrow> n < ir_nvals s | _ \<Rightarrow> True)"

text \<open>The value \<open>v\<close> stands for \<open>r\<close>.\<close>

definition holds :: "cgctx \<Rightarrow> rstate \<Rightarrow> value \<Rightarrow> rval \<Rightarrow> bool" where
  "holds s \<sigma> v r \<longleftrightarrow> veval \<sigma> v = Some r \<and> scoped s v \<and> type_of v = rtype r"

text \<open>Later states: new instructions have new numbers, so that old values keep their meaning.\<close>

definition later :: "cgctx \<Rightarrow> rstate \<Rightarrow> cgctx \<Rightarrow> rstate \<Rightarrow> bool" where
  "later s \<sigma> t \<tau> \<longleftrightarrow>
     still s t \<and> ir_nvals s \<le> ir_nvals t \<and> rv_arg \<tau> = rv_arg \<sigma> \<and> rv_sp \<tau> = rv_sp \<sigma> \<and>
     (\<forall>n. n < ir_nvals s \<longrightarrow> rv_inst \<tau> n = rv_inst \<sigma> n)"

lemma later_refl [simp]: "later s \<sigma> s \<sigma>"
  by (simp add: later_def)

lemma later_trans: "later s \<sigma> t \<tau> \<Longrightarrow> later t \<tau> u \<upsilon> \<Longrightarrow> later s \<sigma> u \<upsilon>"
  unfolding later_def by (auto intro: still_trans)

lemma holds_later: "holds s \<sigma> v r \<Longrightarrow> later s \<sigma> t \<tau> \<Longrightarrow> holds t \<tau> v r"
  unfolding holds_def later_def scoped_def by (cases v) auto

lemma ctx_ok_later: "ctx_ok s \<Longrightarrow> later s \<sigma> t \<tau> \<Longrightarrow> ctx_ok t"
  unfolding ctx_ok_def later_def still_def kept_def by simp

lemma holds_int [simp]: "holds s \<sigma> (VInt w c) (RI w (take_bit w c))"
  by (simp add: holds_def scoped_def)

lemma emits_nothing: "still s t \<Longrightarrow> ir_blocks t = ir_blocks s \<Longrightarrow> emits s [] t"
  by (simp add: emits_def)

lemma emits_append: "emits s is t \<Longrightarrow> emits t js u \<Longrightarrow> emits s (is @ js) u"
  unfolding emits_def by (auto intro: still_trans simp: kept_insert [OF still_kept])

section \<open>The calculus\<close>

definition runs ::
  "'a cx \<Rightarrow> cgctx \<Rightarrow> rstate \<Rightarrow> ('a \<Rightarrow> cgctx \<Rightarrow> rstate \<Rightarrow> bool) \<Rightarrow> bool" where
  "runs m s \<sigma> Q \<longleftrightarrow>
     (\<exists>x t is \<tau>. m s = Inr (x, t) \<and> emits s is t \<and> exec \<sigma> is = Some \<tau> \<and> Q x t \<tau>)"

lemma runs_return: "Q x s \<sigma> \<Longrightarrow> runs (creturn x) s \<sigma> Q"
  unfolding runs_def creturn_def by (auto intro!: exI [of _ "[]"] emits_nothing)

lemma runs_get: "Q (f s) s \<sigma> \<Longrightarrow> runs (cget f) s \<sigma> Q"
  unfolding runs_def cget_def by (auto intro!: exI [of _ "[]"] emits_nothing)

lemma runs_assert: "b \<Longrightarrow> Q () s \<sigma> \<Longrightarrow> runs (cassert b msg) s \<sigma> Q"
  unfolding cassert_def by (simp add: runs_return)

lemma runs_the: "v = Some x \<Longrightarrow> Q x s \<sigma> \<Longrightarrow> runs (cthe e v) s \<sigma> Q"
  unfolding cthe_def by (simp add: runs_return)

lemma runs_modify:
  "still s (f s) \<Longrightarrow> ir_blocks (f s) = ir_blocks s \<Longrightarrow> Q () (f s) \<sigma> \<Longrightarrow> runs (cmodify f) s \<sigma> Q"
  unfolding runs_def cmodify_def by (auto intro!: exI [of _ "[]"] emits_nothing)

lemma runs_bind:
  assumes "runs m s \<sigma> (\<lambda>x t \<tau>. runs (k x) t \<tau> Q)"
  shows "runs (cbind m k) s \<sigma> Q"
proof -
  from assms obtain x t "is" \<tau> y u js \<upsilon> where
    "m s = Inr (x, t)" "emits s is t" "exec \<sigma> is = Some \<tau>"
    "k x t = Inr (y, u)" "emits t js u" "exec \<tau> js = Some \<upsilon>" "Q y u \<upsilon>"
    unfolding runs_def by blast
  then have "cbind m k s = Inr (y, u)" "emits s (is @ js) u" "exec \<sigma> (is @ js) = Some \<upsilon>"
    by (auto simp: cbind_def exec_append intro: emits_append)
  with \<open>Q y u \<upsilon>\<close> show ?thesis unfolding runs_def by blast
qed

lemma runs_then: "runs m s \<sigma> (\<lambda>_ t \<tau>. runs k t \<tau> Q) \<Longrightarrow> runs (cthen m k) s \<sigma> Q"
  unfolding cthen_def by (rule runs_bind)

lemma runs_mono:
  "runs m s \<sigma> Q \<Longrightarrow> (\<And>x t \<tau>. Q x t \<tau> \<Longrightarrow> R x t \<tau>) \<Longrightarrow> runs m s \<sigma> R"
  unfolding runs_def by blast

text \<open>Appending an instruction.\<close>

lemma append_result:
  assumes "ctx_ok s"
  obtains t where
    "ir_append i s = Inr (VInst (ir_nvals s) (instr_ty i), t)"
    "emits s [(ir_nvals s, i)] t" "ir_nvals t = ir_nvals s + 1"
    "cx_regState t = cx_regState s" "still s t"
proof -
  from assms obtain b where b: "ir_insert s = Some b" by (auto simp: ctx_ok_def)
  define t where "t = s\<lparr>ir_nvals := ir_nvals s + 1, ir_blocks := (ir_blocks s)
    (b := (ir_blocks s b)\<lparr>bb_insts := bb_insts (ir_blocks s b) @ [(ir_nvals s, i)]\<rparr>)\<rparr>"
  have k: "still s t" by (simp add: t_def still_def kept_def cached_same)
  show thesis
  proof (rule that [of t])
    show "ir_append i s = Inr (VInst (ir_nvals s) (instr_ty i), t)"
      by (simp add: ir_append_def b t_def Let_def)
    show "emits s [(ir_nvals s, i)] t" using k by (simp add: emits_def b t_def)
  qed (use k in \<open>simp_all add: t_def\<close>)
qed

lemma runs_append_pure:
  assumes "ctx_ok s" "psem \<sigma> i = Some r" "instr_ty i = rtype r"
    and Q: "\<And>v t \<tau>. later s \<sigma> t \<tau> \<Longrightarrow> cx_regState t = cx_regState s \<Longrightarrow>
      rv_mem \<tau> = rv_mem \<sigma> \<Longrightarrow> holds t \<tau> v r \<Longrightarrow> Q v t \<tau>"
  shows "runs (ir_append i) s \<sigma> Q"
proof -
  obtain t where t: "ir_append i s = Inr (VInst (ir_nvals s) (instr_ty i), t)"
    "emits s [(ir_nvals s, i)] t" "ir_nvals t = ir_nvals s + 1"
    "cx_regState t = cx_regState s" "still s t"
    using append_result [OF assms(1)] by blast
  define \<tau> where "\<tau> = \<sigma>\<lparr>rv_inst := (rv_inst \<sigma>)(ir_nvals s := Some r)\<rparr>"
  have "exec \<sigma> [(ir_nvals s, i)] = Some \<tau>"
    by (simp add: exec1_pure [OF assms(2)] \<tau>_def)
  moreover have "Q (VInst (ir_nvals s) (instr_ty i)) t \<tau>"
    by (rule Q) (use t assms(3) in \<open>auto simp: later_def \<tau>_def holds_def scoped_def\<close>)
  ultimately show ?thesis unfolding runs_def using t by blast
qed

lemma runs_create:
  assumes "ctx_ok s" "psem \<sigma> i = Some r" "instr_ty i = rtype r"
    and sc: "\<forall>v\<in>set (operands i). scoped s v"
    and Q: "\<And>v t \<tau>. later s \<sigma> t \<tau> \<Longrightarrow> cx_regState t = cx_regState s \<Longrightarrow>
      rv_mem \<tau> = rv_mem \<sigma> \<Longrightarrow> holds t \<tau> v r \<Longrightarrow> Q v t \<tau>"
  shows "runs (ir_create i) s \<sigma> Q"
proof (cases "ir_fold s i")
  case None
  with runs_append_pure [OF assms(1-3) Q] show ?thesis by (simp add: runs_def ir_create_def)
next
  case (Some v)
  have fs: "fold_sound (ir_fold s)" using assms(1) by (simp add: ctx_ok_def)
  have "type_of v = rtype r" "veval \<sigma> v = Some r" "local_value v \<longrightarrow> v \<in> set (operands i)"
    using fs Some assms(2,3) unfolding fold_sound_def by auto
  moreover from this sc have "scoped s v" by (cases v) (auto simp: scoped_def local_value_def)
  ultimately have "Q v s \<sigma>" by (intro Q) (simp_all add: holds_def)
  with Some show ?thesis
    unfolding runs_def ir_create_def by (auto intro!: exI [of _ "[]"] emits_nothing)
qed

lemma runs_store:
  assumes "ctx_ok s" "holds s \<sigma> v r" "holds s \<sigma> a (RP p)"
    and Q: "\<And>t \<tau>. later s \<sigma> t \<tau> \<Longrightarrow> cx_regState t = cx_regState s \<Longrightarrow>
      rv_mem \<tau> = put (rbytes r) p (raw r) (rv_mem \<sigma>) \<Longrightarrow> Q () t \<tau>"
  shows "runs (ir_exec (Store v a al)) s \<sigma> Q"
proof -
  obtain t where t: "ir_append (Store v a al) s = Inr (VInst (ir_nvals s) VoidTy, t)"
    "emits s [(ir_nvals s, Store v a al)] t" "ir_nvals t = ir_nvals s + 1"
    "cx_regState t = cx_regState s" "still s t"
    using append_result [OF assms(1), of "Store v a al"] by auto
  have "exec \<sigma> [(ir_nvals s, Store v a al)] =
      Some (\<sigma>\<lparr>rv_mem := put (rbytes r) p (raw r) (rv_mem \<sigma>)\<rparr>)"
    using assms(2,3) by (simp add: holds_def)
  moreover have "Q () t (\<sigma>\<lparr>rv_mem := put (rbytes r) p (raw r) (rv_mem \<sigma>)\<rparr>)"
    by (rule Q) (use t in \<open>auto simp: later_def\<close>)
  moreover have "ir_exec (Store v a al) s = Inr ((), t)"
    using t(1) by (simp add: ir_exec_def cbind_def creturn_def)
  ultimately show ?thesis unfolding runs_def using t(2) by blast
qed

section \<open>The builder functions of the context\<close>

text \<open>An ML value: a pointer or a 64-bit integer.\<close>

definition ml_word :: "rval \<Rightarrow> bool" where
  "ml_word r = (case r of RP _ \<Rightarrow> True | RI w x \<Rightarrow> w = 64 \<and> 0 \<le> x \<and> x < 2 ^ 64 | _ \<Rightarrow> False)"

lemma ml_word_cases:
  assumes "ml_word r"
  obtains p where "r = RP p" | x where "r = RI 64 x" "0 \<le> x" "x < 2 ^ 64"
  using assms by (cases r) (auto simp: ml_word_def)

lemma raw_word: "ml_word r \<Longrightarrow> uint (word_of_int (raw r) :: u64) = raw r"
  by (erule ml_word_cases) (simp_all add: raw_def uint_word_of_int)

lemma rbytes_ml: "ml_word r \<Longrightarrow> rbytes r = 8"
  by (erule ml_word_cases) (simp_all add: rbytes_def)

lemma ml_word_ptr [simp]: "ml_word (RP p)" "raw (RP p) = uint p" "rbytes (RP p) = 8"
  by (simp_all add: ml_word_def raw_def rbytes_def)

lemma holdsD: "holds s \<sigma> v r \<Longrightarrow> veval \<sigma> v = Some r \<and> scoped s v \<and> type_of v = rtype r"
  by (simp add: holds_def)

lemma runs_wordAlign: "ctx_ok s \<Longrightarrow> Q (Some 8) s \<sigma> \<Longrightarrow> runs wordAlign s \<sigma> Q"
  unfolding wordAlign_def by (intro runs_get) (simp add: ctx_ok_def)

lemma runs_wordSz: "ctx_ok s \<Longrightarrow> Q 8 s \<sigma> \<Longrightarrow> runs wordSzInBytes s \<sigma> Q"
  unfolding wordSzInBytes_def by (intro runs_get) (simp add: ctx_ok_def)

lemma uint64_less: "uint (x :: u64) < 18446744073709551616"
  using unsigned_less [of x] by simp

lemma take_bit_uint64 [simp]: "take_bit 64 (uint (c :: u64)) = uint c"
  using unsigned_less [of c] by (intro take_bit_int_eq_self) simp_all

lemma const_word: "const_of i64Ty (uint c) = VInt 64 (uint (c :: u64))"
  by (simp add: const_of_def)

lemma holds_word [simp]: "holds s \<sigma> (VInt 64 (uint (c :: u64))) (RI 64 (uint c))"
  using holds_int [of s \<sigma> 64 "uint c"] by simp

lemma runs_uConst:
  "ctx_ok s \<Longrightarrow> Q (VInt 64 (uint c)) s \<sigma> \<Longrightarrow> runs (uConst c) s \<sigma> Q"
  unfolding uConst_def by (intro runs_bind runs_get runs_return) (simp add: ctx_ok_def const_word)

lemma runs_cast:
  assumes "ctx_ok s" "holds s \<sigma> v r" "cast_val op r t = Some r'" "t = rtype r'"
    and same: "rtype r = t \<Longrightarrow> r' = r"
    and Q: "\<And>v t \<tau>. later s \<sigma> t \<tau> \<Longrightarrow> cx_regState t = cx_regState s \<Longrightarrow>
      rv_mem \<tau> = rv_mem \<sigma> \<Longrightarrow> holds t \<tau> v r' \<Longrightarrow> Q v t \<tau>"
  shows "runs (CreateCast op v t) s \<sigma> Q"
proof (cases "type_of v = t")
  case True
  then have "r' = r" using same holdsD [OF assms(2)] by simp
  with Q [of s \<sigma> v] assms(2) True show ?thesis by (simp add: CreateCast_def runs_return)
next
  case False
  then show ?thesis
    using holdsD [OF assms(2)] assms(1,3,4)
    by (auto simp: CreateCast_def intro!: runs_create Q)
qed

lemma runs_asPtr:
  assumes "ctx_ok s" "holds s \<sigma> v r" "ml_word r"
    and Q: "\<And>v t \<tau>. later s \<sigma> t \<tau> \<Longrightarrow> cx_regState t = cx_regState s \<Longrightarrow>
      rv_mem \<tau> = rv_mem \<sigma> \<Longrightarrow> holds t \<tau> v (RP (word_of_int (raw r))) \<Longrightarrow> Q v t \<tau>"
  shows "runs (asPtr v) s \<sigma> Q"
  using assms(3)
proof (cases rule: ml_word_cases)
  case (1 p)
  with holdsD [OF assms(2)] Q [of s \<sigma> v] assms(2) show ?thesis
    by (simp add: asPtr_def isPointerTy_def runs_return)
next
  case (2 x)
  then have "asPtr v = CreateCast IntToPtr v PtrTy"
    using holdsD [OF assms(2)] by (simp add: asPtr_def isPointerTy_def isIntegerTy_def)
  with 2 Q show ?thesis
    by (auto intro!: runs_cast [OF assms(1,2)] simp: cast_val_def raw_def)
qed

lemma runs_asInt:
  assumes "ctx_ok s" "holds s \<sigma> v r" "ml_word r"
    and Q: "\<And>v t \<tau>. later s \<sigma> t \<tau> \<Longrightarrow> cx_regState t = cx_regState s \<Longrightarrow>
      rv_mem \<tau> = rv_mem \<sigma> \<Longrightarrow> holds t \<tau> v (RI 64 (raw r)) \<Longrightarrow> Q v t \<tau>"
  shows "runs (asInt v) s \<sigma> Q"
  using assms(3)
proof (cases rule: ml_word_cases)
  case (1 p)
  then have "asInt v = createPtrToInt v"
    using holdsD [OF assms(2)] by (simp add: asInt_def isPointerTy_def)
  moreover have "cx_intTy s = i64Ty" using assms(1) by (simp add: ctx_ok_def)
  ultimately show ?thesis
    using 1 Q by (auto intro!: runs_bind runs_get runs_cast [OF assms(1,2)]
        simp: createPtrToInt_def cast_val_def)
next
  case (2 x)
  with holdsD [OF assms(2)] Q [of s \<sigma> v] assms(2) show ?thesis
    by (simp add: asInt_def isPointerTy_def runs_return raw_def)
qed

lemma signed_index:
  assumes "- (2 ^ 31) \<le> k" "k < 2 ^ 31"
  shows "sval 32 (take_bit 32 k) = k"
  using assms by (simp add: sval_def signed_take_bit_take_bit signed_take_bit_int_eq_self)

lemma runs_gep:
  assumes "ctx_ok s" "holds s \<sigma> b (RP p)" "- (2 ^ 31) \<le> k" "k < 2 ^ 31"
    and Q: "\<And>v t \<tau>. later s \<sigma> t \<tau> \<Longrightarrow> cx_regState t = cx_regState s \<Longrightarrow>
      rv_mem \<tau> = rv_mem \<sigma> \<Longrightarrow>
      holds t \<tau> v (RP (p + of_nat (ty_bytes ty) * word_of_int k)) \<Longrightarrow> Q v t \<tau>"
  shows "runs (ir_create (GEP ty b (i32Const k))) s \<sigma> Q"
proof (rule runs_create [OF assms(1)])
  show "psem \<sigma> (GEP ty b (i32Const k)) = Some (RP (p + of_nat (ty_bytes ty) * word_of_int k))"
    using holdsD [OF assms(2)] signed_index [OF assms(3,4)] by (simp add: i32Const_def const_of_def)
qed (use holdsD [OF assms(2)] Q in \<open>auto simp: i32Const_def const_of_def scoped_def\<close>)

lemma runs_createGEP_i:
  assumes "ctx_ok s" "holds s \<sigma> b (RP p)" "- (2 ^ 31) \<le> k" "k < 2 ^ 31"
    and "\<And>v t \<tau>. later s \<sigma> t \<tau> \<Longrightarrow> cx_regState t = cx_regState s \<Longrightarrow> rv_mem \<tau> = rv_mem \<sigma> \<Longrightarrow>
      holds t \<tau> v (RP (p + 8 * word_of_int k)) \<Longrightarrow> Q v t \<tau>"
  shows "runs (createGEP_i b k) s \<sigma> Q"
  unfolding createGEP_i_def using assms by (intro runs_gep) auto

lemma runs_createGEP_byte:
  assumes "ctx_ok s" "holds s \<sigma> b (RP p)" "- (2 ^ 31) \<le> k" "k < 2 ^ 31"
    and "\<And>v t \<tau>. later s \<sigma> t \<tau> \<Longrightarrow> cx_regState t = cx_regState s \<Longrightarrow> rv_mem \<tau> = rv_mem \<sigma> \<Longrightarrow>
      holds t \<tau> v (RP (p + word_of_int k)) \<Longrightarrow> Q v t \<tau>"
  shows "runs (createGEP_ty_i i8Ty b k) s \<sigma> Q"
proof -
  have "asPtr b = creturn b" using holdsD [OF assms(2)] by (simp add: asPtr_def isPointerTy_def)
  then show ?thesis
    unfolding createGEP_ty_i_def using assms by (simp, intro runs_gep) auto
qed

lemma runs_mlReg:
  "rs_get (cx_regState s) r = Some v \<Longrightarrow> Q v s \<sigma> \<Longrightarrow> runs (mlReg r) s \<sigma> Q"
  unfolding mlReg_def by (intro runs_bind runs_get) (simp add: runs_return)

lemma runs_setMLReg:
  assumes "rs_get (cx_regState s) r = Some w"
    and Q: "\<And>t. later s \<sigma> t \<sigma> \<Longrightarrow> cx_regState t = rs_set (cx_regState s) r (Some v) \<Longrightarrow> Q () t \<sigma>"
  shows "runs (setMLReg r v) s \<sigma> Q"
  unfolding setMLReg_def setRegState_def
proof (intro runs_bind runs_get, simp add: assms(1), intro runs_modify)
  let ?t = "s\<lparr>cx_regState := rs_set (cx_regState s) r (Some v)\<rparr>"
  show "still s ?t" by (simp add: still_def kept_def cached_same)
  then show "Q () ?t \<sigma>" by (intro Q) (simp_all add: later_def)
qed simp

end
