(* ===== verification/Alloc_Correct.thy ===== *)
theory Alloc_Correct
  imports Emit_Logic Prim_Codegen
begin

text \<open>
  What the code generated for allocation and for the store list does to the memory and to the
  CMachine registers.
\<close>

section \<open>Records\<close>

definition stands_for :: "cgctx \<Rightarrow> rstate \<Rightarrow> value list \<Rightarrow> rval list \<Rightarrow> bool" where
  "stands_for s \<sigma> vs rs \<longleftrightarrow> list_all2 (holds s \<sigma>) vs rs \<and> list_all ml_word rs"

lemma stands_for_later:
  "stands_for s \<sigma> vs rs \<Longrightarrow> later s \<sigma> t \<tau> \<Longrightarrow> stands_for t \<tau> vs rs"
  unfolding stands_for_def by (auto intro: list_all2_mono holds_later)

lemma stands_for_Cons:
  "stands_for s \<sigma> (v # vs) (r # rs) \<longleftrightarrow> holds s \<sigma> v r \<and> ml_word r \<and> stands_for s \<sigma> vs rs"
  by (auto simp: stands_for_def)

lemma stands_for_length: "stands_for s \<sigma> vs rs \<Longrightarrow> length rs = length vs"
  by (auto simp: stands_for_def dest: list_all2_lengthD)

lemma runs_alloc_fields:
  assumes "ctx_ok s" "holds s \<sigma> ap (RP p)" "stands_for s \<sigma> vs rs" "i + length vs < 2 ^ 31"
    and "\<And>t \<tau>. later s \<sigma> t \<tau> \<Longrightarrow> cx_regState t = cx_regState s \<Longrightarrow>
      rv_mem \<tau> = write_words (p + 8 * of_nat i) (map raw rs) (rv_mem \<sigma>) \<Longrightarrow> Q () t \<tau>"
  shows "runs (alloc_fields ap i vs) s \<sigma> Q"
  using assms
proof (induction vs arbitrary: s \<sigma> i rs Q)
  case Nil
  then show ?case by (simp add: stands_for_def runs_return)
next
  case (Cons v vs)
  from Cons.prems(3) obtain r rs' where rs: "rs = r # rs'"
    by (cases rs) (auto simp: stands_for_def)
  with Cons.prems(3) have v: "holds s \<sigma> v r" "ml_word r" "stands_for s \<sigma> vs rs'"
    by (simp_all add: stands_for_Cons)
  show ?case
    unfolding alloc_fields.simps
  proof (intro runs_then runs_bind, rule runs_asPtr [OF Cons.prems(1) v(1,2), folded asMLValue_def])
    fix v' s1 \<sigma>1
    assume 1: "later s \<sigma> s1 \<sigma>1" "cx_regState s1 = cx_regState s" "rv_mem \<sigma>1 = rv_mem \<sigma>"
      "holds s1 \<sigma>1 v' (RP (word_of_int (raw r)))"
    have ok1: "ctx_ok s1" and ap1: "holds s1 \<sigma>1 ap (RP p)"
      using 1(1) Cons.prems(1,2) ctx_ok_later holds_later by blast+
    show "runs (cbind (createGEP_i ap (int i)) (\<lambda>a. cbind wordAlign (\<lambda>al. ir_exec (Store v' a al))))
        s1 \<sigma>1 (\<lambda>x t \<tau>. runs (alloc_fields ap (i + 1) vs) t \<tau> Q)"
    proof (intro runs_bind, rule runs_createGEP_i [OF ok1 ap1])
      fix a s2 \<sigma>2
      assume 2: "later s1 \<sigma>1 s2 \<sigma>2" "cx_regState s2 = cx_regState s1" "rv_mem \<sigma>2 = rv_mem \<sigma>1"
        "holds s2 \<sigma>2 a (RP (p + 8 * word_of_int (int i)))"
      have ok2: "ctx_ok s2" and v2: "holds s2 \<sigma>2 v' (RP (word_of_int (raw r)))"
        using 2(1) ok1 1(4) ctx_ok_later holds_later by blast+
      show "runs (cbind wordAlign (\<lambda>al. ir_exec (Store v' a al))) s2 \<sigma>2
          (\<lambda>x t \<tau>. runs (alloc_fields ap (i + 1) vs) t \<tau> Q)"
      proof (intro runs_bind runs_wordAlign [OF ok2], rule runs_store [OF ok2 v2 2(4)])
        fix s3 \<sigma>3
        assume 3: "later s2 \<sigma>2 s3 \<sigma>3" "cx_regState s3 = cx_regState s2"
          "rv_mem \<sigma>3 = put (rbytes (RP (word_of_int (raw r)))) (p + 8 * word_of_int (int i))
             (raw (RP (word_of_int (raw r)))) (rv_mem \<sigma>2)"
        have l: "later s \<sigma> s3 \<sigma>3" using 1(1) 2(1) 3(1) later_trans by blast
        show "runs (alloc_fields ap (i + 1) vs) s3 \<sigma>3 Q"
        proof (rule Cons.IH)
          show "ctx_ok s3" "holds s3 \<sigma>3 ap (RP p)" "stands_for s3 \<sigma>3 vs rs'"
            using l Cons.prems(1,2) v(3) ctx_ok_later holds_later stands_for_later by blast+
          show "i + 1 + length vs < 2 ^ 31" using Cons.prems(4) by simp
        next
          fix t \<tau>
          assume t: "later s3 \<sigma>3 t \<tau>" "cx_regState t = cx_regState s3"
            "rv_mem \<tau> = write_words (p + 8 * of_nat (i + 1)) (map raw rs') (rv_mem \<sigma>3)"
          show "Q () t \<tau>"
          proof (rule Cons.prems(5))
            show "later s \<sigma> t \<tau>" using l t(1) later_trans by blast
            show "cx_regState t = cx_regState s" using t(2) 3(2) 2(2) 1(2) by simp
            show "rv_mem \<tau> = write_words (p + 8 * of_nat i) (map raw rs) (rv_mem \<sigma>)"
              using t(3) 3(3) 2(3) 1(3) v(2) by (simp add: rs raw_word algebra_simps)
          qed
        qed
      qed
    qed (use Cons.prems(4) in auto)
  qed
qed

text \<open>Steps that change neither the registers nor the memory.\<close>

definition calm :: "cgctx \<Rightarrow> rstate \<Rightarrow> cgctx \<Rightarrow> rstate \<Rightarrow> bool" where
  "calm s \<sigma> t \<tau> \<longleftrightarrow>
     later s \<sigma> t \<tau> \<and> cx_regState t = cx_regState s \<and> rv_mem \<tau> = rv_mem \<sigma>"

lemma calmI: "later s \<sigma> t \<tau> \<Longrightarrow> cx_regState t = cx_regState s \<Longrightarrow> rv_mem \<tau> = rv_mem \<sigma> \<Longrightarrow> calm s \<sigma> t \<tau>"
  by (simp add: calm_def)

lemma calm_refl [simp]: "calm s \<sigma> s \<sigma>"
  by (simp add: calm_def)

lemma calm_later: "calm s \<sigma> t \<tau> \<Longrightarrow> later s \<sigma> t \<tau>"
  by (simp add: calm_def)

lemma calm_same: "calm s \<sigma> t \<tau> \<Longrightarrow> cx_regState t = cx_regState s \<and> rv_mem \<tau> = rv_mem \<sigma>"
  by (simp add: calm_def)

text \<open>The object whose fields start one word after \<open>p\<close>, and the bumped allocation pointer.\<close>

definition allocated :: "cgctx \<Rightarrow> rstate \<Rightarrow> value \<Rightarrow> u64 \<Rightarrow> u64 \<Rightarrow> bool" where
  "allocated t \<tau> obj p q \<longleftrightarrow>
     holds t \<tau> obj (RP p) \<and>
     (\<exists>v. rs_get (cx_regState t) ALLOC_PTR = Some v \<and> holds t \<tau> v (RP q))"

lemma runs_bump:
  assumes "ctx_ok s" "holds s \<sigma> ap (RP p)" "- (2 ^ 31) \<le> k" "k < 2 ^ 31"
    "rs_get (cx_regState s) ALLOC_PTR = Some w" "holds s \<sigma> obj (RP q)"
    and Q: "\<And>t \<tau>. later s \<sigma> t \<tau> \<Longrightarrow> rv_mem \<tau> = rv_mem \<sigma> \<Longrightarrow>
      (\<And>r. r \<noteq> ALLOC_PTR \<Longrightarrow> rs_get (cx_regState t) r = rs_get (cx_regState s) r) \<Longrightarrow>
      allocated t \<tau> obj q (p + 8 * word_of_int k) \<Longrightarrow> Q obj t \<tau>"
  shows "runs (cthen (cbind (createGEP_i ap k) (setMLReg ALLOC_PTR)) (creturn obj)) s \<sigma> Q"
proof (intro runs_then runs_bind, rule runs_createGEP_i [OF assms(1-4)])
  fix v s1 \<sigma>1
  assume 1: "later s \<sigma> s1 \<sigma>1" "cx_regState s1 = cx_regState s" "rv_mem \<sigma>1 = rv_mem \<sigma>"
    "holds s1 \<sigma>1 v (RP (p + 8 * word_of_int k))"
  show "runs (setMLReg ALLOC_PTR v) s1 \<sigma>1 (\<lambda>_ t \<tau>. runs (creturn obj) t \<tau> Q)"
  proof (rule runs_setMLReg)
    show "rs_get (cx_regState s1) ALLOC_PTR = Some w" using 1(2) assms(5) by simp
  next
    fix t
    assume t: "later s1 \<sigma>1 t \<sigma>1" "cx_regState t = rs_set (cx_regState s1) ALLOC_PTR (Some v)"
    have l: "later s \<sigma> t \<sigma>1" using 1(1) t(1) later_trans by blast
    show "runs (creturn obj) t \<sigma>1 Q"
    proof (intro runs_return Q l)
      show "allocated t \<sigma>1 obj q (p + 8 * word_of_int k)"
        using l t 1(4) assms(6) by (auto simp: allocated_def intro: holds_later)
    qed (use t 1 in simp_all)
  qed
qed

lemma runs_allocRecord:
  assumes "ctx_ok s" "rs_get (cx_regState s) ALLOC_PTR = Some ap" "holds s \<sigma> ap (RP p)"
    "holds s \<sigma> d (RI 64 w)" "0 \<le> w" "w < 2 ^ 64"
    "stands_for s \<sigma> args rs" "length args < 2 ^ 30"
    and Q: "\<And>obj t \<tau>. later s \<sigma> t \<tau> \<Longrightarrow>
      rv_mem \<tau> = write_words p (w # map raw rs) (rv_mem \<sigma>) \<Longrightarrow>
      (\<And>r. r \<noteq> ALLOC_PTR \<Longrightarrow> rs_get (cx_regState t) r = rs_get (cx_regState s) r) \<Longrightarrow>
      allocated t \<tau> obj (p + 8) (p + 8 * of_nat (length args + 1)) \<Longrightarrow> Q obj t \<tau>"
  shows "runs (allocRecord d args) s \<sigma> Q"
  unfolding allocRecord_def
proof (intro runs_bind runs_get runs_then runs_assert)
  show "type_of d = cx_intTy s" using assms(1,4) by (simp add: ctx_ok_def holds_def)
  show "runs (mlReg ALLOC_PTR) s \<sigma> (\<lambda>allocPtr t \<tau>.
      runs (cbind wordAlign (\<lambda>al.
        cthen (ir_exec (Store d allocPtr al))
        (cthen (alloc_fields allocPtr 1 args)
        (cbind (cbind (createGEP_i allocPtr 1) asMLValue) (\<lambda>obj.
         cthen (cbind (createGEP_i allocPtr (int (length args) + 1)) (setMLReg ALLOC_PTR))
         (creturn obj)))))) t \<tau> Q)"
  proof (rule runs_mlReg [OF assms(2)], intro runs_bind runs_wordAlign [OF assms(1)] runs_then,
      rule runs_store [OF assms(1,4,3)])
    fix s1 \<sigma>1
    assume 1: "later s \<sigma> s1 \<sigma>1" "cx_regState s1 = cx_regState s"
      "rv_mem \<sigma>1 = put (rbytes (RI 64 w)) p (raw (RI 64 w)) (rv_mem \<sigma>)"
    have ok1: "ctx_ok s1" "holds s1 \<sigma>1 ap (RP p)" "stands_for s1 \<sigma>1 args rs"
      using 1(1) assms(1,3,7) ctx_ok_later holds_later stands_for_later by blast+
    show "runs (cthen (alloc_fields ap 1 args)
        (cbind (cbind (createGEP_i ap 1) asMLValue) (\<lambda>obj.
         cthen (cbind (createGEP_i ap (int (length args) + 1)) (setMLReg ALLOC_PTR))
         (creturn obj)))) s1 \<sigma>1 Q"
    proof (rule runs_then, rule runs_alloc_fields [OF ok1])
      show "1 + length args < 2 ^ 31" using assms(8) by simp
    next
      fix s2 \<sigma>2
      assume 2: "later s1 \<sigma>1 s2 \<sigma>2" "cx_regState s2 = cx_regState s1"
        "rv_mem \<sigma>2 = write_words (p + 8 * of_nat 1) (map raw rs) (rv_mem \<sigma>1)"
      have ok2: "ctx_ok s2" "holds s2 \<sigma>2 ap (RP p)"
        using 2(1) ok1 ctx_ok_later holds_later by blast+
      have mem: "rv_mem \<sigma>2 = write_words p (w # map raw rs) (rv_mem \<sigma>)"
        using 1(3) 2(3) by (simp add: rbytes_def raw_def)
      show "runs (cbind (cbind (createGEP_i ap 1) asMLValue) (\<lambda>obj.
         cthen (cbind (createGEP_i ap (int (length args) + 1)) (setMLReg ALLOC_PTR))
         (creturn obj))) s2 \<sigma>2 Q"
      proof (intro runs_bind, rule runs_createGEP_i [OF ok2])
        fix o1 s3 \<sigma>3
        assume 3: "later s2 \<sigma>2 s3 \<sigma>3" "cx_regState s3 = cx_regState s2" "rv_mem \<sigma>3 = rv_mem \<sigma>2"
          "holds s3 \<sigma>3 o1 (RP (p + 8 * word_of_int 1))"
        have ok3: "ctx_ok s3" "holds s3 \<sigma>3 ap (RP p)"
          using 3(1) ok2 ctx_ok_later holds_later by blast+
        have as: "asMLValue o1 = creturn o1"
          using holdsD [OF 3(4)] by (simp add: asMLValue_def asPtr_def isPointerTy_def)
        show "runs (asMLValue o1) s3 \<sigma>3 (\<lambda>obj t \<tau>. runs (
            cthen (cbind (createGEP_i ap (int (length args) + 1)) (setMLReg ALLOC_PTR))
            (creturn obj)) t \<tau> Q)"
          unfolding as
        proof (intro runs_return, rule runs_bump [OF ok3 _ _ _ 3(4)])
          show "rs_get (cx_regState s3) ALLOC_PTR = Some ap"
            using 1(2) 2(2) 3(2) assms(2) by simp
          fix t \<tau>
          assume t: "later s3 \<sigma>3 t \<tau>" "rv_mem \<tau> = rv_mem \<sigma>3"
            "\<And>r. r \<noteq> ALLOC_PTR \<Longrightarrow> rs_get (cx_regState t) r = rs_get (cx_regState s3) r"
            "allocated t \<tau> o1 (p + 8 * word_of_int 1) (p + 8 * word_of_int (int (length args) + 1))"
          show "Q o1 t \<tau>"
          proof (rule Q)
            show "later s \<sigma> t \<tau>" using 1(1) 2(1) 3(1) t(1) later_trans by blast
            show "rv_mem \<tau> = write_words p (w # map raw rs) (rv_mem \<sigma>)"
              using t(2) 3(3) mem by simp
            show "rs_get (cx_regState t) r = rs_get (cx_regState s) r" if "r \<noteq> ALLOC_PTR" for r
              using t(3) [OF that] 1(2) 2(2) 3(2) by simp
            show "allocated t \<tau> o1 (p + 8) (p + 8 * of_nat (length args + 1))"
              using t(4) by (simp add: add.commute)
          qed
        qed (use assms(8) in auto)
      qed auto
    qed
  qed
qed

end
