(* ===== verification/Emit_Steps.thy ===== *)
theory Emit_Steps
  imports Alloc_Correct
begin

text \<open>
  Symbolic execution of the code generator: \<open>known\<close> collects what is known after some steps
  (registers, memory, the values computed so far), and each builder function has one rule that
  extends it.
\<close>

definition known ::
  "cgctx \<Rightarrow> rstate \<Rightarrow> (CMRegId \<Rightarrow> value option) \<Rightarrow> mem \<Rightarrow> (value \<times> rval) list \<Rightarrow>
    cgctx \<Rightarrow> rstate \<Rightarrow> bool" where
  "known s0 \<sigma>0 R M \<Gamma> s \<sigma> \<longleftrightarrow>
     later s0 \<sigma>0 s \<sigma> \<and> ctx_ok s \<and> rs_get (cx_regState s) = R \<and> rv_mem \<sigma> = M \<and>
     (\<forall>vr\<in>set \<Gamma>. holds s \<sigma> (fst vr) (snd vr))"

lemma known_start:
  "ctx_ok s \<Longrightarrow> (\<forall>vr\<in>set \<Gamma>. holds s \<sigma> (fst vr) (snd vr)) \<Longrightarrow>
     known s \<sigma> (rs_get (cx_regState s)) (rv_mem \<sigma>) \<Gamma> s \<sigma>"
  by (simp add: known_def)

lemma known_holds: "known s0 \<sigma>0 R M \<Gamma> s \<sigma> \<Longrightarrow> (v, r) \<in> set \<Gamma> \<Longrightarrow> holds s \<sigma> v r"
  by (auto simp: known_def)

lemma known_type: "known s0 \<sigma>0 R M \<Gamma> s \<sigma> \<Longrightarrow> (v, r) \<in> set \<Gamma> \<Longrightarrow> type_of v = rtype r"
  using known_holds holdsD by blast

lemma known_asInt: "known s0 \<sigma>0 R M \<Gamma> s \<sigma> \<Longrightarrow> (v, RI w x) \<in> set \<Gamma> \<Longrightarrow> asInt v = creturn v"
  using known_type [of s0 \<sigma>0 R M \<Gamma> s \<sigma> v "RI w x"] by (simp add: asInt_def isPointerTy_def)

lemma known_ok: "known s0 \<sigma>0 R M \<Gamma> s \<sigma> \<Longrightarrow> ctx_ok s"
  by (simp add: known_def)

lemma known_extend:
  assumes "known s0 \<sigma>0 R M \<Gamma> s \<sigma>" "later s \<sigma> t \<tau>" "rs_get (cx_regState t) = R'" "rv_mem \<tau> = M'"
    "\<forall>vr\<in>set \<Delta>. holds t \<tau> (fst vr) (snd vr)"
  shows "known s0 \<sigma>0 R' M' (\<Delta> @ \<Gamma>) t \<tau>"
  using assms unfolding known_def
  by (auto intro: later_trans ctx_ok_later holds_later)

lemma known_calm:
  assumes "known s0 \<sigma>0 R M \<Gamma> s \<sigma>" "later s \<sigma> t \<tau>" "cx_regState t = cx_regState s"
    "rv_mem \<tau> = rv_mem \<sigma>" "holds t \<tau> v r"
  shows "known s0 \<sigma>0 R M ((v, r) # \<Gamma>) t \<tau>"
  using known_extend [OF assms(1,2), of R M "[(v, r)]"] assms by (simp add: known_def)

lemma known_weaken:
  "known s0 \<sigma>0 R M \<Gamma> s \<sigma> \<Longrightarrow> R' = R \<Longrightarrow> M' = M \<Longrightarrow> set \<Gamma>' \<subseteq> set \<Gamma> \<Longrightarrow>
     known s0 \<sigma>0 R' M' \<Gamma>' s \<sigma>"
  by (auto simp: known_def)

section \<open>Rules\<close>

lemma step_return: "known s0 \<sigma>0 R M \<Gamma> s \<sigma> \<Longrightarrow> Q x s \<sigma> \<Longrightarrow> runs (creturn x) s \<sigma> Q"
  by (rule runs_return)

lemma step_uConst:
  assumes "known s0 \<sigma>0 R M \<Gamma> s \<sigma>"
    "\<And>v t \<tau>. known s0 \<sigma>0 R M ((v, RI 64 (uint c)) # \<Gamma>) t \<tau> \<Longrightarrow> Q v t \<tau>"
  shows "runs (uConst c) s \<sigma> Q"
proof (rule runs_uConst [OF known_ok [OF assms(1)]])
  show "Q (VInt 64 (uint c)) s \<sigma>" by (intro assms(2) known_calm [OF assms(1)]) simp_all
qed

lemma step_asPtr:
  assumes "known s0 \<sigma>0 R M \<Gamma> s \<sigma>" "(v, r) \<in> set \<Gamma>" "ml_word r"
    "\<And>v t \<tau>. known s0 \<sigma>0 R M ((v, RP (word_of_int (raw r))) # \<Gamma>) t \<tau> \<Longrightarrow> Q v t \<tau>"
  shows "runs (asPtr v) s \<sigma> Q"
  using assms by (intro runs_asPtr [where r = r]) (auto intro: known_ok known_holds known_calm)

lemma step_asMLValue:
  assumes "known s0 \<sigma>0 R M \<Gamma> s \<sigma>" "(v, r) \<in> set \<Gamma>" "ml_word r"
    "\<And>v t \<tau>. known s0 \<sigma>0 R M ((v, RP (word_of_int (raw r))) # \<Gamma>) t \<tau> \<Longrightarrow> Q v t \<tau>"
  shows "runs (asMLValue v) s \<sigma> Q"
  unfolding asMLValue_def using assms by (rule step_asPtr)

lemma step_asInt:
  assumes "known s0 \<sigma>0 R M \<Gamma> s \<sigma>" "(v, r) \<in> set \<Gamma>" "ml_word r"
    "\<And>v t \<tau>. known s0 \<sigma>0 R M ((v, RI 64 (raw r)) # \<Gamma>) t \<tau> \<Longrightarrow> Q v t \<tau>"
  shows "runs (asInt v) s \<sigma> Q"
  using assms by (intro runs_asInt [where r = r]) (auto intro: known_ok known_holds known_calm)

lemma step_createGEP_i:
  assumes "known s0 \<sigma>0 R M \<Gamma> s \<sigma>" "(b, RP p) \<in> set \<Gamma>" "- (2 ^ 31) \<le> k" "k < 2 ^ 31"
    "\<And>v t \<tau>. known s0 \<sigma>0 R M ((v, RP (p + 8 * word_of_int k)) # \<Gamma>) t \<tau> \<Longrightarrow> Q v t \<tau>"
  shows "runs (createGEP_i b k) s \<sigma> Q"
  using assms by (intro runs_createGEP_i [where p = p]) (auto intro: known_ok known_holds known_calm)

lemma step_createGEP_byte:
  assumes "known s0 \<sigma>0 R M \<Gamma> s \<sigma>" "(b, RP p) \<in> set \<Gamma>" "- (2 ^ 31) \<le> k" "k < 2 ^ 31"
    "\<And>v t \<tau>. known s0 \<sigma>0 R M ((v, RP (p + word_of_int k)) # \<Gamma>) t \<tau> \<Longrightarrow> Q v t \<tau>"
  shows "runs (createGEP_ty_i i8Ty b k) s \<sigma> Q"
  using assms by (intro runs_createGEP_byte [where p = p]) (auto intro: known_ok known_holds known_calm)

lemma step_store:
  assumes "known s0 \<sigma>0 R M \<Gamma> s \<sigma>" "(v, r) \<in> set \<Gamma>" "(a, RP p) \<in> set \<Gamma>"
    "\<And>t \<tau>. known s0 \<sigma>0 R (put (rbytes r) p (raw r) M) \<Gamma> t \<tau> \<Longrightarrow> Q () t \<tau>"
  shows "runs (ir_exec (Store v a al)) s \<sigma> Q"
proof (rule runs_store)
  show "ctx_ok s" "holds s \<sigma> v r" "holds s \<sigma> a (RP p)"
    using assms(1-3) by (auto intro: known_ok known_holds)
  fix t \<tau>
  assume "later s \<sigma> t \<tau>" "cx_regState t = cx_regState s"
    "rv_mem \<tau> = put (rbytes r) p (raw r) (rv_mem \<sigma>)"
  with known_extend [OF assms(1), of t \<tau> R "put (rbytes r) p (raw r) M" "[]"] assms(1)
  show "Q () t \<tau>" by (intro assms(4)) (simp add: known_def)
qed

lemma step_mlReg:
  assumes "known s0 \<sigma>0 R M \<Gamma> s \<sigma>" "R r = Some v" "known s0 \<sigma>0 R M \<Gamma> s \<sigma> \<Longrightarrow> Q v s \<sigma>"
  shows "runs (mlReg r) s \<sigma> Q"
  using assms by (intro runs_mlReg) (auto simp: known_def)

lemma step_setMLReg:
  assumes "known s0 \<sigma>0 R M \<Gamma> s \<sigma>" "R r = Some w"
    "\<And>t \<tau>. known s0 \<sigma>0 (R(r := Some v)) M \<Gamma> t \<tau> \<Longrightarrow> Q () t \<tau>"
  shows "runs (setMLReg r v) s \<sigma> Q"
proof (rule runs_setMLReg)
  show "rs_get (cx_regState s) r = Some w" using assms(1,2) by (simp add: known_def)
  fix t
  assume t: "later s \<sigma> t \<sigma>" "cx_regState t = rs_set (cx_regState s) r (Some v)"
  have "rs_get (cx_regState t) = R(r := Some v)"
    using t(2) assms(1) by (auto simp: known_def fun_eq_iff)
  from known_extend [OF assms(1) t(1) this, of M "[]"] assms(1)
  show "Q () t \<sigma>" by (intro assms(3)) (simp add: known_def)
qed

lemma step_wordAlign:
  "known s0 \<sigma>0 R M \<Gamma> s \<sigma> \<Longrightarrow> (known s0 \<sigma>0 R M \<Gamma> s \<sigma> \<Longrightarrow> Q (Some 8) s \<sigma>) \<Longrightarrow>
     runs wordAlign s \<sigma> Q"
  by (rule runs_wordAlign) (auto intro: known_ok)

lemma step_wordSz: "known s0 \<sigma>0 R M \<Gamma> s \<sigma> \<Longrightarrow> (known s0 \<sigma>0 R M \<Gamma> s \<sigma> \<Longrightarrow> Q 8 s \<sigma>) \<Longrightarrow>
     runs wordSzInBytes s \<sigma> Q"
  by (rule runs_wordSz) (auto intro: known_ok)

lemma step_intTy: "known s0 \<sigma>0 R M \<Gamma> s \<sigma> \<Longrightarrow> (known s0 \<sigma>0 R M \<Gamma> s \<sigma> \<Longrightarrow> Q i64Ty s \<sigma>) \<Longrightarrow>
     runs (cget cx_intTy) s \<sigma> Q"
  by (intro runs_get) (simp add: known_def ctx_ok_def)

lemma step_createStoreML:
  assumes k: "known s0 \<sigma>0 R M \<Gamma> s \<sigma>" "(v, r) \<in> set \<Gamma>" "ml_word r" "(a, RP p) \<in> set \<Gamma>"
    and Q: "\<And>t \<tau>. known s0 \<sigma>0 R (put 8 p (raw r) M) \<Gamma> t \<tau> \<Longrightarrow> Q () t \<tau>"
  shows "runs (createStoreML v a) s \<sigma> Q"
  unfolding createStoreML_def
  apply (intro runs_bind, rule step_asMLValue [OF k(1-3)])
  apply (intro runs_bind, erule step_asPtr [where r = "RP p"])
    apply (use k(4) in simp, simp)
  apply (intro runs_bind, erule step_wordAlign)
  apply (erule step_store [where r = "RP (word_of_int (raw r))" and p = p], simp, simp)
  apply (rule Q, erule known_weaken)
  using k(3) by (auto simp: raw_word)

lemma step_createStoreInt:
  assumes k: "known s0 \<sigma>0 R M \<Gamma> s \<sigma>" "(v, r) \<in> set \<Gamma>" "(a, RP p) \<in> set \<Gamma>"
    and Q: "\<And>t \<tau>. known s0 \<sigma>0 R (put (rbytes r) p (raw r) M) \<Gamma> t \<tau> \<Longrightarrow> Q () t \<tau>"
  shows "runs (createStoreInt v a) s \<sigma> Q"
  unfolding createStoreInt_def
  apply (intro runs_bind, rule step_asPtr [OF k(1,3)], simp)
  apply (intro runs_bind, erule step_wordAlign)
  apply (erule step_store [where r = r and p = p], use k(2) in simp_all)
  by (rule Q, erule known_weaken) auto

lemma step_createStore:
  assumes "known s0 \<sigma>0 R M \<Gamma> s \<sigma>" "(v, r) \<in> set \<Gamma>" "(a, RP p) \<in> set \<Gamma>"
    "\<And>t \<tau>. known s0 \<sigma>0 R (put (rbytes r) p (raw r) M) \<Gamma> t \<tau> \<Longrightarrow> Q () t \<tau>"
  shows "runs (createStore v a al) s \<sigma> Q"
  unfolding createStore_def using assms by (rule step_store)

lemma step_create:
  assumes "known s0 \<sigma>0 R M \<Gamma> s \<sigma>" "psem \<sigma> i = Some r" "instr_ty i = rtype r"
    "\<forall>v\<in>set (operands i). scoped s v"
    "\<And>v t \<tau>. known s0 \<sigma>0 R M ((v, r) # \<Gamma>) t \<tau> \<Longrightarrow> Q v t \<tau>"
  shows "runs (ir_create i) s \<sigma> Q"
  using assms(2-4)
  by (intro runs_create [where r = r] assms(5) known_calm [OF assms(1)] known_ok [OF assms(1)])

lemma step_append:
  assumes "known s0 \<sigma>0 R M \<Gamma> s \<sigma>" "psem \<sigma> i = Some r" "instr_ty i = rtype r"
    "\<And>v t \<tau>. known s0 \<sigma>0 R M ((v, r) # \<Gamma>) t \<tau> \<Longrightarrow> Q v t \<tau>"
  shows "runs (ir_append i) s \<sigma> Q"
  using assms(2,3)
  by (intro runs_append_pure [where r = r] assms(4) known_calm [OF assms(1)] known_ok [OF assms(1)])

lemma step_createBin:
  assumes k: "known s0 \<sigma>0 R M \<Gamma> s \<sigma>" "(a, ra) \<in> set \<Gamma>" "ml_word ra" "(b, rb) \<in> set \<Gamma>" "ml_word rb"
    and z: "bin_int op 64 (raw ra) (raw rb) = Some z"
    and Q: "\<And>v t \<tau>. known s0 \<sigma>0 R M ((v, RI 64 z) # \<Gamma>) t \<tau> \<Longrightarrow> Q v t \<tau>"
  shows "runs (createBin op a b) s \<sigma> Q"
  unfolding createBin_def
proof (intro runs_bind, rule step_asInt [OF k(1-3)], intro runs_bind, erule step_asInt [OF _ _ k(5)])
  fix a' b' t \<tau>
  assume kn: "known s0 \<sigma>0 R M ((b', RI 64 (raw rb)) # (a', RI 64 (raw ra)) # \<Gamma>) t \<tau>"
  have h: "holds t \<tau> a' (RI 64 (raw ra))" "holds t \<tau> b' (RI 64 (raw rb))"
    by (auto intro: known_holds [OF kn])
  show "runs (ir_create (BinOp op a' b')) t \<tau> Q"
  proof (rule step_create [OF kn])
    show "psem \<tau> (BinOp op a' b') = Some (RI 64 z)"
      using holdsD [OF h(1)] holdsD [OF h(2)] z by simp
    show "Q v t' \<tau>'" if "known s0 \<sigma>0 R M
        ((v, RI 64 z) # (b', RI 64 (raw rb)) # (a', RI 64 (raw ra)) # \<Gamma>) t' \<tau>'" for v t' \<tau>'
      by (rule Q, rule known_weaken [OF that]) auto
  qed (use holdsD [OF h(1)] holdsD [OF h(2)] in auto)
qed (use k in auto)

lemma step_icmp:
  assumes k: "known s0 \<sigma>0 R M \<Gamma> s \<sigma>" "(a, RI w x) \<in> set \<Gamma>" "(b, RI w y) \<in> set \<Gamma>"
    and Q: "\<And>v t \<tau>. known s0 \<sigma>0 R M ((v, RI 1 (of_bool (icmp_int p w x y))) # \<Gamma>) t \<tau> \<Longrightarrow> Q v t \<tau>"
  shows "runs (ir_create (ICmp p a b)) s \<sigma> Q"
proof (rule step_create [OF k(1)])
  have h: "holds s \<sigma> a (RI w x)" "holds s \<sigma> b (RI w y)"
    using k by (auto intro: known_holds)
  show "psem \<sigma> (ICmp p a b) = Some (RI 1 (of_bool (icmp_int p w x y)))"
    using holdsD [OF h(1)] holdsD [OF h(2)] by simp
  show "\<forall>v\<in>set (operands (ICmp p a b)). scoped s v"
    using holdsD [OF h(1)] holdsD [OF h(2)] by simp
qed (use Q in auto)

lemma step_createICmp:
  assumes k: "known s0 \<sigma>0 R M \<Gamma> s \<sigma>" "(a, ra) \<in> set \<Gamma>" "ml_word ra" "(b, rb) \<in> set \<Gamma>" "ml_word rb"
    and Q: "\<And>v t \<tau>. known s0 \<sigma>0 R M
      ((v, RI 1 (of_bool (icmp_int p 64 (raw ra) (raw rb)))) # \<Gamma>) t \<tau> \<Longrightarrow> Q v t \<tau>"
  shows "runs (createICmp p a b) s \<sigma> Q"
  unfolding createICmp_def
  apply (intro runs_bind, rule step_asInt [OF k(1-3)])
  apply (intro runs_bind, erule step_asInt [OF _ _ k(5)], use k(4) in simp)
  apply (erule step_icmp [where w = 64 and x = "raw ra" and y = "raw rb"], simp, simp)
  by (rule Q, erule known_weaken) auto

lemma step_toInt:
  assumes "known s0 \<sigma>0 R M \<Gamma> s \<sigma>" "(v, RP p) \<in> set \<Gamma>"
    "\<And>v t \<tau>. known s0 \<sigma>0 R M ((v, RI 64 (uint p)) # \<Gamma>) t \<tau> \<Longrightarrow> Q v t \<tau>"
  shows "runs (createPtrToInt v) s \<sigma> Q"
proof -
  have "asInt v = createPtrToInt v"
    using holdsD [OF known_holds [OF assms(1,2)]] by (simp add: asInt_def isPointerTy_def)
  then show ?thesis using step_asInt [OF assms(1,2), of Q] assms(3) by simp
qed

lemma step_toPtr:
  assumes "known s0 \<sigma>0 R M \<Gamma> s \<sigma>" "(v, RI 64 x) \<in> set \<Gamma>" "0 \<le> x" "x < 2 ^ 64"
    "\<And>v t \<tau>. known s0 \<sigma>0 R M ((v, RP (word_of_int x)) # \<Gamma>) t \<tau> \<Longrightarrow> Q v t \<tau>"
  shows "runs (createIntToPtr v) s \<sigma> Q"
proof -
  have "asPtr v = createIntToPtr v"
    using holdsD [OF known_holds [OF assms(1,2)]]
    by (simp add: asPtr_def createIntToPtr_def isPointerTy_def isIntegerTy_def)
  moreover have "ml_word (RI 64 x)" using assms(3,4) by (simp add: ml_word_def)
  ultimately show ?thesis using step_asPtr [OF assms(1,2), of Q] assms(5) by (simp add: raw_def)
qed

lemma step_bitcast:
  assumes "known s0 \<sigma>0 R M \<Gamma> s \<sigma>" "(v, RP p) \<in> set \<Gamma>" "known s0 \<sigma>0 R M \<Gamma> s \<sigma> \<Longrightarrow> Q v s \<sigma>"
  shows "runs (createBitCast v PtrTy) s \<sigma> Q"
proof -
  have "createBitCast v PtrTy = creturn v"
    using holdsD [OF known_holds [OF assms(1,2)]] by (simp add: createBitCast_def CreateCast_def)
  then show ?thesis using assms(1,3) by (simp add: runs_return)
qed

end
