(* ===== verification/Test_Code.thy ===== *)
theory Test_Code
  imports Emit_Steps
begin

unbundle bit_operations_syntax

text \<open>
  What the code generated for tests computes: comparisons of numbers, the sign of a number of
  floating-point type, and the check of the heap limit.
\<close>

section \<open>Numbers\<close>

text \<open>An argument of a width: a number, or an ML value where the width is that of a word.\<close>

definition num_arg :: "nat \<Rightarrow> rval \<Rightarrow> int \<Rightarrow> bool" where
  "num_arg w r x \<longleftrightarrow>
     0 \<le> x \<and> x < 2 ^ w \<and> (r = RI w x \<or> w = 64 \<and> (case r of RP p \<Rightarrow> x = uint p | _ \<Rightarrow> False))"

definition int_size :: "int \<Rightarrow> bool" where
  "int_size sz \<longleftrightarrow> sz = 8 \<or> sz = 16 \<or> sz = 32 \<or> sz = 64"

lemma iType_size: "int_size sz \<Longrightarrow> iType sz = IntTy (nat sz)"
  by (auto simp: int_size_def iType_def)

lemma step_asInt_sz:
  assumes k: "known s0 \<sigma>0 R M \<Gamma> s \<sigma>" "(v, r) \<in> set \<Gamma>" "num_arg (nat sz) r x" "int_size sz"
    and Q: "\<And>v t \<tau>. known s0 \<sigma>0 R M ((v, RI (nat sz) x) # \<Gamma>) t \<tau> \<Longrightarrow> Q v t \<tau>"
  shows "runs (asInt_sz sz v) s \<sigma> Q"
proof -
  have h: "holds s \<sigma> v r" using k by (auto intro: known_holds)
  show ?thesis
  proof (cases "\<exists>p. r = RP p")
    case True
    then obtain p where p: "r = RP p" "nat sz = 64" "x = uint p"
      using k(3) by (auto simp: num_arg_def)
    then have "asInt_sz sz v = CreateCast PtrToInt v i64Ty"
      using holdsD [OF h] k(4) by (auto simp: asInt_sz_def int_size_def iType_def)
    moreover have "runs (CreateCast PtrToInt v i64Ty) s \<sigma> Q"
      by (rule runs_cast [OF known_ok [OF k(1)] h, where r' = "RI 64 x"])
        (use p Q in \<open>auto simp: cast_val_def intro!: known_calm [OF k(1)]\<close>)
    ultimately show ?thesis by simp
  next
    case False
    then have r: "r = RI (nat sz) x" using k(3) by (auto simp: num_arg_def split: rval.splits)
    then have "asInt_sz sz v = creturn v" using holdsD [OF h] by (simp add: asInt_sz_def)
    moreover have "known s0 \<sigma>0 R M ((v, RI (nat sz) x) # \<Gamma>) s \<sigma>"
      using k(1) h r by (simp add: known_def)
    ultimately show ?thesis using Q by (simp add: runs_return)
  qed
qed

section \<open>Comparisons\<close>

text \<open>The comparison that an operator asks for.\<close>

definition compares :: "cmpop \<Rightarrow> int \<Rightarrow> int \<Rightarrow> bool" where
  "compares c x y =
     (case c of GT \<Rightarrow> x > y | GTE \<Rightarrow> x \<ge> y | LT \<Rightarrow> x < y | LTE \<Rightarrow> x \<le> y | EQL \<Rightarrow> x = y
      | NEQ \<Rightarrow> x \<noteq> y | cmpop_other _ \<Rightarrow> False)"

definition as_num :: "bool \<Rightarrow> nat \<Rightarrow> int \<Rightarrow> int" where
  "as_num sg w x = (if sg then sval w x else x)"

lemma sval_eq_iff:
  assumes "0 < w" "0 \<le> x" "x < 2 ^ w" "0 \<le> y" "y < 2 ^ w"
  shows "sval w x = sval w y \<longleftrightarrow> x = y"
proof -
  have "Suc (w - 1) = w" using assms(1) by simp
  then show ?thesis
    using assms by (simp add: sval_def signed_take_bit_eq_iff_take_bit_eq take_bit_int_eq_self)
qed

lemma icmp_compares:
  assumes "CMP_pred c sg = Some p" "0 < w" "0 \<le> x" "x < 2 ^ w" "0 \<le> y" "y < 2 ^ w"
  shows "icmp_int p w x y = compares c (as_num sg w x) (as_num sg w y)"
  using assms(1) sval_eq_iff [OF assms(2-)]
  by (cases c; cases sg)
    (auto simp: CMP_pred_def cmpop_num_def ICmpMap_def icmp_int_def compares_def as_num_def)

lemma CMP_pred_defined: "CMP_pred c sg = None \<longleftrightarrow> (\<exists>n. c = cmpop_other n)"
  by (cases c) (auto simp: CMP_pred_def cmpop_num_def Let_def)

lemma runs_CMP:
  assumes k: "known s0 \<sigma>0 R M \<Gamma> s \<sigma>" "(a, ra) \<in> set \<Gamma>" "(b, rb) \<in> set \<Gamma>"
    and n: "num_arg (nat sz) ra x" "num_arg (nat sz) rb y" "int_size sz"
    and p: "\<And>n. c \<noteq> cmpop_other n"
    and Q: "\<And>v t \<tau>. known s0 \<sigma>0 R M
      ((v, RI 1 (of_bool (compares c (as_num sg (nat sz) x) (as_num sg (nat sz) y)))) # \<Gamma>) t \<tau> \<Longrightarrow>
      Q v t \<tau>"
  shows "runs (branch_codegen (CMP c sg sz) [a, b]) s \<sigma> Q"
proof -
  obtain pr where pr: "CMP_pred c sg = Some pr" using p CMP_pred_defined [of c sg] by auto
  have w: "0 < nat sz" using n(3) by (auto simp: int_size_def)
  have eq: "icmp_int pr (nat sz) x y = compares c (as_num sg (nat sz) x) (as_num sg (nat sz) y)"
    using n by (intro icmp_compares [OF pr w]) (auto simp: num_arg_def)
  have ci: "createICmp pr a' b' = ir_create (ICmp pr a' b')"
    if "known s0 \<sigma>0 R M ((b', RI (nat sz) y) # (a', RI (nat sz) x) # \<Gamma>) t \<tau>" for a' b' t \<tau>
    by (simp add: createICmp_def known_asInt [OF that, of a' "nat sz" x]
        known_asInt [OF that, of b' "nat sz" y])
  show ?thesis
    unfolding branch_codegen_def
    apply (simp add: cnth_def pr cthe_def)
    apply (intro runs_bind, rule step_asInt_sz [OF k(1,2) n(1,3)])
    apply (intro runs_bind, erule step_asInt_sz [OF _ _ n(2,3)], use k(3) in simp)
    apply (simp add: ci)
    apply (erule step_icmp [where w = "nat sz" and x = x and y = y], simp, simp)
    by (rule Q, erule known_weaken) (auto simp: eq)
qed

section \<open>The sign\<close>

lemma sval_neg: "0 < w \<Longrightarrow> sval w x < 0 \<longleftrightarrow> bit x (w - 1)"
  by (simp add: sval_def)

lemma runs_FSGN:
  assumes k: "known s0 \<sigma>0 R M \<Gamma> s \<sigma>" "(a, RFlt (sz = 64) x) \<in> set \<Gamma>" "sz = 32 \<or> sz = 64"
    and Q: "\<And>v t \<tau>. known s0 \<sigma>0 R M ((v, RI 1 (of_bool (bit x (nat sz - 1)))) # \<Gamma>) t \<tau> \<Longrightarrow>
      Q v t \<tau>"
  shows "runs (branch_codegen (FSGN sz) [a]) s \<sigma> Q"
proof -
  have h: "holds s \<sigma> a (RFlt (sz = 64) x)" using k by (auto intro: known_holds)
  have sz: "iType sz = IntTy (nat sz)" "int_size sz" "0 < nat sz"
    using k(3) by (auto simp: iType_def int_size_def)
  have cmp: "icmp_int ICMP_SLT (nat sz) x 0 = bit x (nat sz - 1)"
    using sval_neg [OF sz(3)] by (simp add: icmp_int_def sval_def)
  have zero: "iConst_sz sz 0 = VInt (nat sz) 0"
    by (simp add: iConst_sz_def const_of_def sz(1))
  have ci: "createICmpSLT i (iConst_sz sz 0) = ir_create (ICmp ICMP_SLT i (VInt (nat sz) 0))"
    if "known s0 \<sigma>0 R M ((i, RI (nat sz) x) # \<Gamma>) t \<tau>" for i t \<tau>
    by (simp add: createICmpSLT_def createICmp_def known_asInt [OF that, of i "nat sz" x] zero)
      (simp add: asInt_def isPointerTy_def)
  show ?thesis
    unfolding branch_codegen_def
    apply (simp add: cnth_def createBitCast_def)
    apply (intro runs_bind, rule runs_cast [OF known_ok [OF k(1)] h, where r' = "RI (nat sz) x"])
       apply (use k(3) in \<open>auto simp: cast_val_def sz(1)\<close>)[3]
    subgoal for v t \<tau>
    proof -
      assume *: "later s \<sigma> t \<tau>" "cx_regState t = cx_regState s" "rv_mem \<tau> = rv_mem \<sigma>"
        "holds t \<tau> v (RI (nat sz) x)"
      have kn: "known s0 \<sigma>0 R M ((v, RI (nat sz) x) # \<Gamma>) t \<tau>"
        using known_calm [OF k(1) *] .
      have kz: "known s0 \<sigma>0 R M ((VInt (nat sz) 0, RI (nat sz) 0) # (v, RI (nat sz) x) # \<Gamma>) t \<tau>"
        using kn holds_int [of t \<tau> "nat sz" 0] by (simp add: known_def)
      show ?thesis
        unfolding ci [OF kn]
        by (rule step_icmp [OF kz, where w = "nat sz" and x = x and y = 0])
          (simp_all, rule Q, erule known_weaken, auto simp: cmp)
    qed
    done
qed

section \<open>The heap limit\<close>

text \<open>The bytes that the check adds to the allocation pointer.\<close>

definition beyond_slop :: "target_info \<Rightarrow> u32 \<Rightarrow> u64" where
  "beyond_slop ti amt =
     (if ti_allocSlopSzb ti < amt then ucast (amt - ti_allocSlopSzb ti) else 0)"

lemma runs_LIMIT:
  assumes k: "known s0 \<sigma>0 R M \<Gamma> s \<sigma>"
    and R: "R ALLOC_PTR = Some ap" "(ap, RP p) \<in> set \<Gamma>" "R LIMIT_PTR = Some lp" "(lp, RP l) \<in> set \<Gamma>"
    and sl: "ti_allocSlopSzb (cx_target s) = slop"
    and Q: "\<And>v t \<tau>. known s0 \<sigma>0 R M
      ((v, RI 1 (of_bool (l < p + (if slop < amt then ucast (amt - slop) else 0)))) # \<Gamma>) t \<tau> \<Longrightarrow>
      Q v t \<tau>"
  shows "runs (branch_codegen (LIMIT amt) args) s \<sigma> Q"
proof (cases "slop < amt")
  case True
  let ?d = "ucast (amt - slop) :: u64"
  have add: "bin_int OpAdd 64 (raw (RP p)) (raw (RI 64 (uint ?d))) = Some (uint (p + ?d))"
    by (simp add: bin_int_def raw_def uint_word_arith_bintrs)
  have w: "ml_word (RI 64 (uint ?d))" "ml_word (RI 64 (uint (p + ?d)))"
    using unsigned_less [of ?d] unsigned_less [of "p + ?d"] by (simp_all add: ml_word_def)
  have cmp: "icmp_int ICMP_UGT 64 (raw (RI 64 (uint (p + ?d)))) (raw (RI 64 (uint l))) = (l < p + ?d)"
    by (simp add: icmp_int_def raw_def word_less_def)
  show ?thesis
    unfolding branch_codegen_def LIMIT_codegen_def
    apply (simp, intro runs_bind runs_get, simp add: sl True)
    apply (intro runs_bind, rule step_mlReg [OF k R(1)])
    apply (intro runs_bind, rule step_uConst [OF k])
    apply (unfold createAdd_def, erule step_createBin [OF _ _ _ _ w(1) add], use R in simp_all)
    apply (intro runs_bind, erule step_mlReg, use R in simp)
    apply (erule step_asInt [where r = "RP l"], use R in simp_all)
    apply (erule step_createICmp [OF _ _ w(2), where rb = "RI 64 (uint l)"], simp, simp)
     apply (simp add: ml_word_def uint64_less)
    apply (rule Q, erule known_weaken)
    using cmp True by auto
next
  case False
  have cmp: "icmp_int ICMP_UGT 64 (raw (RI 64 (uint p))) (raw (RI 64 (uint l))) = (l < p)"
    by (simp add: icmp_int_def raw_def word_less_def)
  have w: "ml_word (RI 64 (uint x))" for x :: u64
    using unsigned_less [of x] by (simp add: ml_word_def)
  show ?thesis
    unfolding branch_codegen_def LIMIT_codegen_def
    apply (simp, intro runs_bind runs_get, simp add: sl False)
    apply (intro runs_bind, rule step_mlReg [OF k R(1)])
    apply (rule step_asInt [OF k R(2)], simp)
    apply (intro runs_bind, erule step_mlReg, rule R)
    apply (erule step_asInt [where r = "RP l"], use R in simp_all)
    apply (erule step_createICmp [where ra = "RI 64 (uint p)" and rb = "RI 64 (uint l)"], simp_all add: w)
    apply (rule Q, erule known_weaken)
    using cmp False by (auto simp: raw_def)
qed

end
