(* ===== verification/Block_Structure.thy ===== *)
theory Block_Structure
  imports Frame_Laws
begin

text \<open>
  Every basic block that code generation makes is closed by exactly one terminator, at its end.
  Initialisation numbers the blocks of a statement consecutively and leaves them empty; code
  generation of a statement closes the current block, the blocks of the statements below it and
  every block it makes, and touches no other block.
\<close>

definition closed :: "bblock \<Rightarrow> bool" where
  "closed b \<longleftrightarrow> (\<exists>k. shape b = replicate k False @ [True])"

definition unfinished :: "bblock \<Rightarrow> bool" where
  "unfinished b \<longleftrightarrow> (\<exists>k. shape b = replicate k False)"

text \<open>The blocks of the statements below a statement, and with its own.\<close>

definition own_blocks :: "stm \<Rightarrow> block_id list" where
  "own_blocks k = (case stm_bb k of None \<Rightarrow> [] | Some b \<Rightarrow> [b])"

fun inner_blocks :: "stm \<Rightarrow> block_id list" where
  "inner_blocks (LET _ _ _ k) = inner_blocks k"
| "inner_blocks (ALLOC _ _ _ _ k) = inner_blocks k"
| "inner_blocks (SWITCH _ _ arms) = concat (map (\<lambda>a. own_blocks a @ inner_blocks a) arms)"
| "inner_blocks (BRANCH _ _ _ _ k1 k2) =
     own_blocks k1 @ inner_blocks k1 @ own_blocks k2 @ inner_blocks k2"
| "inner_blocks (ARITH _ _ _ _ k) = inner_blocks k"
| "inner_blocks (SETTER _ _ _ k) = inner_blocks k"
| "inner_blocks (CALLGC _ _ _ k) = inner_blocks k"
| "inner_blocks (RCC _ _ _ _ _ _ _ k) = inner_blocks k"
| "inner_blocks _ = []"

definition all_blocks :: "stm \<Rightarrow> block_id list" where
  "all_blocks k = own_blocks k @ inner_blocks k"

section \<open>Progress\<close>

text \<open>From \<open>s\<close> to \<open>t\<close> the blocks of \<open>B\<close> and the new ones have been closed.\<close>

definition progress :: "cgctx \<Rightarrow> cgctx \<Rightarrow> nat set \<Rightarrow> bool" where
  "progress s t B \<longleftrightarrow>
     ir_nblocks s \<le> ir_nblocks t \<and>
     (\<forall>b\<in>B. closed (ir_blocks t b)) \<and>
     (\<forall>b. ir_nblocks s \<le> b \<longrightarrow> b < ir_nblocks t \<longrightarrow> closed (ir_blocks t b)) \<and>
     (\<forall>b. b < ir_nblocks s \<longrightarrow> b \<notin> B \<longrightarrow> ir_blocks t b = ir_blocks s b)"

text \<open>From \<open>s\<close> to \<open>t\<close> the current block \<open>c\<close> has grown, or it has been closed and \<open>d\<close> is the
  current one.\<close>

definition moved :: "cgctx \<Rightarrow> cgctx \<Rightarrow> nat \<Rightarrow> nat \<Rightarrow> bool" where
  "moved s t c d \<longleftrightarrow>
     ir_insert t = Some d \<and> ir_nblocks s \<le> ir_nblocks t \<and>
     (d = c \<or> ir_nblocks s \<le> d \<and> d < ir_nblocks t \<and> closed (ir_blocks t c)) \<and>
     unfinished (ir_blocks t d) \<and>
     (\<forall>b. ir_nblocks s \<le> b \<longrightarrow> b < ir_nblocks t \<longrightarrow> b \<noteq> d \<longrightarrow> closed (ir_blocks t b)) \<and>
     (\<forall>b. b < ir_nblocks s \<longrightarrow> b \<noteq> c \<longrightarrow> ir_blocks t b = ir_blocks s b)"

text \<open>The state is ready to fill block \<open>c\<close>, and then those of \<open>bs\<close>.\<close>

definition ready :: "cgctx \<Rightarrow> nat list \<Rightarrow> bool" where
  "ready s bs \<longleftrightarrow>
     distinct bs \<and> (\<forall>b\<in>set bs. b < ir_nblocks s \<and> unfinished (ir_blocks s b))"

lemma progress_refl: "progress s s {}"
  by (simp add: progress_def)

lemma progress_cong:
  "progress s t B \<Longrightarrow> ir_nblocks u = ir_nblocks t \<Longrightarrow> ir_blocks u = ir_blocks t \<Longrightarrow> progress s u B"
  by (simp add: progress_def)

lemma progress_start:
  "progress s t B \<Longrightarrow> ir_nblocks u = ir_nblocks s \<Longrightarrow> ir_blocks u = ir_blocks s \<Longrightarrow> progress u t B"
  by (simp add: progress_def)

lemma ready_cong:
  "ready s bs \<Longrightarrow> ir_nblocks u = ir_nblocks s \<Longrightarrow> ir_blocks u = ir_blocks s \<Longrightarrow> ready u bs"
  by (simp add: ready_def)

lemma progress_trans:
  assumes "progress s t A" "progress t u B" "B \<subseteq> {..<ir_nblocks s}" "A \<subseteq> {..<ir_nblocks s}"
  shows "progress s u (A \<union> B)"
  unfolding progress_def
proof (intro conjI ballI allI impI)
  show "ir_nblocks s \<le> ir_nblocks u" using assms by (simp add: progress_def)
next
  fix b assume "b \<in> A \<union> B"
  with assms show "closed (ir_blocks u b)"
    unfolding progress_def by (metis UnE lessThan_iff order_less_le_trans subsetD)
next
  fix b assume "ir_nblocks s \<le> b" "b < ir_nblocks u"
  with assms show "closed (ir_blocks u b)"
    unfolding progress_def by (metis leD leI lessThan_iff subsetD)
next
  fix b assume "b < ir_nblocks s" "b \<notin> A \<union> B"
  with assms show "ir_blocks u b = ir_blocks s b"
    unfolding progress_def by (metis UnCI order_less_le_trans)
qed

lemma moved_progress:
  assumes "moved s t c d" "progress t u (insert d B)" "c < ir_nblocks s" "c \<notin> B"
    "B \<subseteq> {..<ir_nblocks s}"
  shows "progress s u (insert c B)"
  unfolding progress_def
proof (intro conjI ballI allI impI)
  show "ir_nblocks s \<le> ir_nblocks u" using assms by (simp add: progress_def moved_def)
next
  fix b assume "b \<in> insert c B"
  with assms show "closed (ir_blocks u b)"
    unfolding progress_def moved_def
    by (metis insertE insert_iff leD order_less_le_trans)
next
  fix b assume "ir_nblocks s \<le> b" "b < ir_nblocks u"
  with assms show "closed (ir_blocks u b)"
    unfolding progress_def moved_def
    by (metis insert_iff leD leI lessThan_iff subsetD)
next
  fix b assume "b < ir_nblocks s" "b \<notin> insert c B"
  with assms show "ir_blocks u b = ir_blocks s b"
    unfolding progress_def moved_def
    by (metis insert_iff leD order_less_le_trans)
qed

lemma ready_moved:
  assumes "moved s t c d" "ready s (c # bs)"
  shows "ready t (d # bs)"
  using assms unfolding ready_def moved_def by (auto 0 3)

lemma ready_progress:
  assumes "progress s t A" "ready s bs" "set bs \<inter> A = {}"
  shows "ready t bs"
  using assms unfolding ready_def progress_def by (auto 0 3 intro: order_less_le_trans)

lemma moved_trans:
  assumes "moved s t c d" "moved t u d e" "c < ir_nblocks s"
  shows "moved s u c e"
proof -
  have cl: "closed (ir_blocks u b)" if "ir_nblocks s \<le> b" "b < ir_nblocks u" "b \<noteq> e" for b
    using assms that by (cases "b < ir_nblocks t"; cases "b = d") (auto simp: moved_def)
  have "ir_blocks u b = ir_blocks s b" if "b < ir_nblocks s" "b \<noteq> c" for b
    using assms that by (auto simp: moved_def)
  moreover have "closed (ir_blocks u c)" if "e \<noteq> c"
    using assms that by (cases "d = c") (auto simp: moved_def)
  ultimately show ?thesis using assms cl by (auto simp: moved_def)
qed

lemma ready_append: "ready s (as @ bs) \<longleftrightarrow> ready s as \<and> ready s bs \<and> set as \<inter> set bs = {}"
  by (auto simp: ready_def)

section \<open>Steps of code generation\<close>

lemma straight_frame:
  assumes "straight m" "m s = Inr (x, t)"
  shows "ir_nblocks t = ir_nblocks s" "ir_insert t = ir_insert s"
    "ir_insert s \<noteq> Some b \<Longrightarrow> ir_blocks t b = ir_blocks s b"
  using straightD [OF assms] by (auto simp: kept_def cached_same grown_def)

lemma straight_unfinished:
  assumes "straight m" "m s = Inr (x, t)" "unfinished (ir_blocks s b)"
  shows "unfinished (ir_blocks t b)"
proof (cases "ir_insert s = Some b")
  case True
  then obtain k where "shape (ir_blocks t b) = shape (ir_blocks s b) @ replicate k False"
    using straightD [OF assms(1,2)] unfolding grown_def by metis
  moreover obtain l where "shape (ir_blocks s b) = replicate l False"
    using assms(3) by (auto simp: unfinished_def)
  ultimately have "shape (ir_blocks t b) = replicate (l + k) False" by (simp add: replicate_add)
  then show ?thesis unfolding unfinished_def by blast
next
  case False
  then show ?thesis using straight_frame(3) [OF assms(1,2)] assms(3) by simp
qed

lemma straight_moved:
  assumes "straight m" "m s = Inr (x, t)" "ir_insert s = Some c" "ready s (c # bs)"
  shows "moved s t c c"
  using assms straight_frame [OF assms(1,2)] straight_unfinished [OF assms(1,2)]
  by (auto simp: moved_def ready_def)

lemma exec_terminator:
  assumes "is_terminator i" "ir_exec i s = Inr (x, t)" "ir_insert s = Some c"
    "unfinished (ir_blocks s c)"
  shows "closed (ir_blocks t c)" "b \<noteq> c \<Longrightarrow> ir_blocks t b = ir_blocks s b"
    "ir_nblocks t = ir_nblocks s" "ir_insert t = Some c" "kept s t"
proof -
  obtain v where "ir_append i s = Inr (v, t)"
    using assms(2) unfolding ir_exec_def by (auto elim!: cbind_InrE simp: creturn_def)
  from ir_append_Some [OF this] assms(3)
  have t: "t = s\<lparr>ir_nvals := ir_nvals s + 1,
       ir_blocks := (ir_blocks s)(c := (ir_blocks s c)
         \<lparr>bb_insts := bb_insts (ir_blocks s c) @ [(ir_nvals s, i)]\<rparr>)\<rparr>" by auto
  show "b \<noteq> c \<Longrightarrow> ir_blocks t b = ir_blocks s b" "ir_nblocks t = ir_nblocks s"
    "ir_insert t = Some c" "kept s t"
    using assms(3) by (simp_all add: t kept_def cached_same)
  show "closed (ir_blocks t c)"
    using assms(1,4) by (auto simp: t closed_def unfinished_def shape_append)
qed

lemma terminator_progress:
  assumes "is_terminator i" "ir_exec i s = Inr (x, t)" "ir_insert s = Some c"
    "unfinished (ir_blocks s c)"
  shows "progress s t {c}"
  using exec_terminator [OF assms] by (simp add: progress_def)

lemma newBB_eq:
  "newBB n s = Inr (b, t) \<Longrightarrow>
     b = ir_nblocks s \<and>
     (\<exists>f. t = s\<lparr>ir_nblocks := ir_nblocks s + 1,
        ir_blocks := (ir_blocks s)(ir_nblocks s := \<lparr>bb_name = n, bb_fn = f, bb_insts = []\<rparr>)\<rparr>)"
  by (auto simp: newBB_def curFn_def BasicBlock_Create_def cthe_def cg_simps
      elim!: cbind_InrE split: option.splits)

lemma unfinished_new [simp]: "unfinished \<lparr>bb_name = n, bb_fn = f, bb_insts = []\<rparr>"
  by (auto simp: unfinished_def shape_def intro: exI [of _ 0])

lemma SetInsertPoint_eq: "SetInsertPoint b s = Inr (x, t) \<longleftrightarrow> t = s\<lparr>ir_insert := Some b\<rparr>"
  by (auto simp: SetInsertPoint_def cmodify_def)

lemma GetInsertBlock_eq: "GetInsertBlock s = Inr (b, t) \<longleftrightarrow> ir_insert s = Some b \<and> t = s"
  by (auto simp: GetInsertBlock_def cg_simps cbind_def cthe_def split: option.splits)

lemma cget_eq: "cget f s = Inr (f s, s)"
  by (simp add: cget_def)

section \<open>The overflow block\<close>

lemma straight_overflow_phis:
  "straight (cmap (\<lambda>_. cbind (CreatePHI PtrTy) (\<lambda>phi.
     cthen (cmodify (\<lambda>s. s\<lparr>cx_overflowPhiNodes := cx_overflowPhiNodes s @ [phi]\<rparr>))
     (creturn phi))) xs)"
  by (auto simp: kept_def cached_same intro!: frame_intros modify_extends)

lemma make_overflowBB_blocks:
  assumes "make_overflowBB c n s = Inr (x, t)"
  shows "progress s t {} \<and> ir_insert t = Some c"
proof -
  let ?phis = "cmap (\<lambda>_. cbind (CreatePHI PtrTy) (\<lambda>phi.
     cthen (cmodify (\<lambda>s. s\<lparr>cx_overflowPhiNodes := cx_overflowPhiNodes s @ [phi]\<rparr>))
     (creturn phi))) [0..<n]"
  let ?call = "\<lambda>args.
      cbind (cbind (cget (\<lambda>s. ti_raiseOvflwOffset (cx_target s))) loadFromStack) (\<lambda>raiseFn.
      cbind (cget cx_raiseOverflowFnTy) (\<lambda>ft.
      cbind (createBitCast raiseFn PtrTy) (\<lambda>f.
      cbind (ir_append (Call ft f args CC_JWA TCK_NoTail)) (\<lambda>_. creturn ()))))"
  define fill where "fill = cbind ?phis ?call"
  have st: "straight fill"
    unfolding fill_def by (intro straight.keeps_bind straight_overflow_phis)
      (auto simp: shorthand_defs intro!: frame_intros)
  have eq: "make_overflowBB c n =
      cbind (newBB ''overflow'') (\<lambda>bb.
      cthen (cmodify (\<lambda>s. s\<lparr>cx_overflowBB := Some bb\<rparr>))
      (cthen (SetInsertPoint bb)
      (cthen fill (cthen (ir_exec RetVoid) (SetInsertPoint c)))))"
    by (simp add: make_overflowBB_def fill_def cthen_def cbind_assoc)
  from assms obtain bb s1 s2 y s3 s4 where
    1: "newBB ''overflow'' s = Inr (bb, s1)"
    and 2: "s2 = s1\<lparr>cx_overflowBB := Some bb, ir_insert := Some bb\<rparr>"
    and 3: "fill s2 = Inr (y, s3)"
    and 4: "ir_exec RetVoid s3 = Inr ((), s4)"
    and 5: "t = s4\<lparr>ir_insert := Some c\<rparr>"
    unfolding eq
    by (auto elim!: cbind_InrE cthen_InrE simp: cmodify_def SetInsertPoint_eq)
  obtain f where s1: "bb = ir_nblocks s" "s1 = s\<lparr>ir_nblocks := ir_nblocks s + 1,
      ir_blocks := (ir_blocks s)(ir_nblocks s :=
        \<lparr>bb_name = ''overflow'', bb_fn = f, bb_insts = []\<rparr>)\<rparr>"
    using newBB_eq [OF 1] by blast
  have s2: "ir_insert s2 = Some bb" "unfinished (ir_blocks s2 bb)"
    by (simp_all add: 2 s1)
  note s3 = straight_frame [OF st 3] straight_unfinished [OF st 3 s2(2)]
  have i3: "ir_insert s3 = Some bb" using s3 s2 by simp
  note s4 = exec_terminator [OF _ 4 i3 s3(4), simplified]
  show ?thesis
    unfolding progress_def
    using s3 s4 by (auto simp: 5 2 s1 less_Suc_eq split: if_splits)
qed

lemma getOverflowBB_blocks:
  assumes "getOverflowBB s = Inr (ob, t)" "ir_insert s = Some c" "ready s (c # bs)"
  shows "moved s t c c"
proof -
  define mk where "mk = (\<lambda>n. cbind (cget cx_overflowBB) (\<lambda>bb.
    if bb = None then make_overflowBB c n else creturn ()))"
  define rest where "rest = (\<lambda>n. cbind (cget cx_regInfo) (\<lambda>ri.
      cthen (cforeach [0..<n] (\<lambda>i.
        cbind (cbind (cget cx_overflowPhiNodes) (\<lambda>phis. phi_at phis i)) (\<lambda>phi.
        cbind (reg_value (ri_id (machineReg ri i))) (\<lambda>v.
        phi_addIncoming phi v c))))
      (cbind (cget cx_overflowBB) (cthe (NullPointer ''overflow block'')))))"
  have st: "straight (rest n)" for n
    unfolding rest_def by (auto intro!: frame_intros)
  define n where "n = numMachineRegs (cx_regInfo s)"
  have ins: "GetInsertBlock s = Inr (c, s)" using assms by (simp add: GetInsertBlock_eq)
  have "getOverflowBB s = cthen (mk n) (rest n) s"
    unfolding getOverflowBB_def cbind_Inr [where m = GetInsertBlock, OF ins]
      cbind_Inr [where m = "cget f" for f, OF cget_eq [of _ s]] mk_def rest_def n_def ..
  with assms obtain u where u: "mk n s = Inr ((), u)" "rest n u = Inr (ob, t)"
    by (auto elim!: cthen_InrE)
  have "progress s u {} \<and> ir_insert u = Some c"
    using u(1) assms(2) unfolding mk_def
    by (auto elim!: cbind_InrE dest: make_overflowBB_blocks simp: cget_def creturn_def
        progress_refl split: if_splits)
  then have "moved s u c c" using assms(3) by (auto simp: moved_def progress_def ready_def)
  moreover from this have "moved u t c c"
    using straight_moved [OF st u(2) _ ready_moved [OF _ assms(3)]] by (simp add: moved_def)
  ultimately show ?thesis using assms(3) by (auto simp: ready_def intro: moved_trans)
qed

section \<open>Trapping arithmetic\<close>

text \<open>Operations that may move on to a new block.\<close>

definition movable :: "'a cx \<Rightarrow> bool" where
  "movable m \<longleftrightarrow> (\<forall>s x t c bs. m s = Inr (x, t) \<longrightarrow> ir_insert s = Some c \<longrightarrow>
     ready s (c # bs) \<longrightarrow> (\<exists>d. moved s t c d))"

lemma movableD:
  "movable m \<Longrightarrow> m s = Inr (x, t) \<Longrightarrow> ir_insert s = Some c \<Longrightarrow> ready s (c # bs) \<Longrightarrow>
     \<exists>d. moved s t c d"
  unfolding movable_def by blast

lemma movable_straight: "straight m \<Longrightarrow> movable m"
  unfolding movable_def by (blast intro: straight_moved)

lemma movable_bind: "movable m \<Longrightarrow> (\<And>x. movable (k x)) \<Longrightarrow> movable (cbind m k)"
  unfolding movable_def [of "cbind m k"]
proof (intro allI impI)
  fix s x t c bs
  assume m: "movable m" and k: "\<And>x. movable (k x)" and i: "ir_insert s = Some c"
    and r: "ready s (c # bs)" and "cbind m k s = Inr (x, t)"
  then obtain y u where u: "m s = Inr (y, u)" "k y u = Inr (x, t)" by (auto elim: cbind_InrE)
  obtain d where d: "moved s u c d" using movableD [OF m u(1) i r] ..
  then have "ir_insert u = Some d" by (simp add: moved_def)
  from movableD [OF k u(2) this ready_moved [OF d r]] obtain e where "moved u t d e" ..
  with d r show "\<exists>d. moved s t c d" by (auto simp: ready_def intro: moved_trans)
qed

lemma movable_then: "movable m \<Longrightarrow> movable k \<Longrightarrow> movable (cthen m k)"
  unfolding cthen_def by (intro movable_bind)

lemma trap_post_moved:
  assumes "trap_post (res, obit) s = Inr (x, t)" "ir_insert s = Some c" "ready s (c # bs)"
  shows "moved s t c (ir_nblocks s) \<and> ir_nblocks s < ir_nblocks t"
proof -
  from assms(1) obtain d ovfl s2 s3 s4 where
    2: "newBB ''ok'' s = Inr (d, s2)"
    and 3: "getOverflowBB s2 = Inr (ovfl, s3)"
    and 4: "ir_exec (CondBr obit ovfl d (Some overflowWeights)) s3 = Inr ((), s4)"
    and t: "t = s4\<lparr>ir_insert := Some d\<rparr>"
    unfolding trap_post_def by (auto elim!: cbind_InrE cthen_InrE simp: SetInsertPoint_eq creturn_def)
  obtain f where s2: "d = ir_nblocks s" "s2 = s\<lparr>ir_nblocks := ir_nblocks s + 1,
      ir_blocks := (ir_blocks s)(ir_nblocks s := \<lparr>bb_name = ''ok'', bb_fn = f, bb_insts = []\<rparr>)\<rparr>"
    using newBB_eq [OF 2] by blast
  have r2: "ready s2 (c # [d])" using assms(3) by (auto simp: ready_def s2)
  have i2: "ir_insert s2 = Some c" using assms(2) by (simp add: s2)
  have m3: "moved s2 s3 c c" by (rule getOverflowBB_blocks [OF 3 i2 r2])
  then have i3: "ir_insert s3 = Some c" "unfinished (ir_blocks s3 c)" by (simp_all add: moved_def)
  note s4 = exec_terminator [OF _ 4 i3, simplified]
  have cd: "c < d" using assms(3) by (simp add: ready_def s2)
  show ?thesis
    using m3 cd s4 unfolding moved_def t by (auto simp: s2 less_Suc_eq)
qed

lemma movable_overflow_check: "movable (overflow_check pair)"
proof -
  have tail: "movable (trap_post (res, obit))" for res obit
    unfolding movable_def by (blast dest: trap_post_moved)
  have parts: "movable (createExtractValue pair i)" for i
    by (intro movable_straight frame_intros)
  show ?thesis
    unfolding overflow_check_eq by (rule movable_bind [OF parts], rule movable_bind [OF parts], rule tail)
qed

lemma movable_arith: "movable (arith_codegen a args)"
proof (cases a)
  case (ARITH_prim oper sz)
  have "movable (cbind (call_intr i as) overflow_check)" for i as
    by (intro movable_bind movable_straight straight.keeps_call_intr movable_overflow_check)
  then have ops: "movable (case oper of
        IADD \<Rightarrow> cbind (call_intr (if sz = 32 then Sadd32WO else Sadd64WO) [a0, a1]) overflow_check
      | ISUB \<Rightarrow> cbind (call_intr (if sz = 32 then Ssub32WO else Ssub64WO) [a0, a1]) overflow_check
      | IMUL \<Rightarrow> cbind (call_intr (if sz = 32 then Smul32WO else Smul64WO) [a0, a1]) overflow_check
      | IDIV \<Rightarrow> createSDiv a0 a1
      | IREM \<Rightarrow> createSRem a0 a1
      | arithop_other _ \<Rightarrow> cfail (NoCase ''ARITH''))" for a0 a1
    by (cases oper)
      (simp_all add: shorthand_defs movable_straight straight.keeps_createBin straight.keeps_fail)
  show ?thesis
    unfolding ARITH_prim arith_codegen_def ARITH_codegen_def arith.case
    by (intro movable_then movable_bind ops) (auto intro!: movable_straight frame_intros)
next
  case FLOAT_TO_INT
  then show ?thesis
    by (auto simp: arith_codegen_def shorthand_defs intro!: movable_straight frame_intros)
qed

section \<open>Statements\<close>

text \<open>Operations that close the current block.\<close>

definition closing :: "'a cx \<Rightarrow> bool" where
  "closing m \<longleftrightarrow> (\<forall>s x t c bs. m s = Inr (x, t) \<longrightarrow> ir_insert s = Some c \<longrightarrow>
     ready s (c # bs) \<longrightarrow> progress s t {c})"

lemma closingD:
  "closing m \<Longrightarrow> m s = Inr (x, t) \<Longrightarrow> ir_insert s = Some c \<Longrightarrow> ready s (c # bs) \<Longrightarrow> progress s t {c}"
  unfolding closing_def by blast

lemma closing_exec: "is_terminator i \<Longrightarrow> closing (ir_exec i)"
  unfolding closing_def by (auto simp: ready_def intro: terminator_progress)

lemma closing_bind: "straight m \<Longrightarrow> (\<And>x. closing (k x)) \<Longrightarrow> closing (cbind m k)"
  unfolding closing_def [of "cbind m k"]
proof (intro allI impI)
  fix s x t c bs
  assume st: "straight m" and k: "\<And>x. closing (k x)" and i: "ir_insert s = Some c"
    and r: "ready s (c # bs)" and "cbind m k s = Inr (x, t)"
  then obtain y u where u: "m s = Inr (y, u)" "k y u = Inr (x, t)" by (auto elim: cbind_InrE)
  have mv: "moved s u c c" by (rule straight_moved [OF st u(1) i r])
  then have "progress u t {c}"
    using closingD [OF k u(2) _ ready_moved [OF mv r]] by (simp add: moved_def)
  with moved_progress [OF mv, of t "{}"] r show "progress s t {c}" by (simp add: ready_def)
qed

lemma closing_then: "straight m \<Longrightarrow> closing k \<Longrightarrow> closing (cthen m k)"
  unfolding cthen_def by (intro closing_bind)

lemma closing_fail: "closing (cfail e)"
  by (simp add: closing_def cfail_def)

lemma closing_APPLY: "closing (APPLY_codegen f args tys)"
  unfolding APPLY_codegen_def
  by (auto intro!: closing_bind closing_then closing_exec frame_intros split: prod.splits)

lemma closing_THROW: "closing (THROW_codegen f args tys)"
  unfolding THROW_codegen_def
  by (auto intro!: closing_bind closing_then closing_exec frame_intros split: prod.splits)

lemma closing_GOTO: "closing (GOTO_codegen lab args)"
  unfolding GOTO_codegen_def createBr_def
  by (auto intro!: closing_bind closing_then closing_exec closing_fail frame_intros
      split: option.splits)

text \<open>A statement closes its block and those below it.\<close>

definition closes :: "stm \<Rightarrow> bool" where
  "closes k \<longleftrightarrow> (\<forall>s x t c. stm_codegen k s = Inr (x, t) \<longrightarrow> ir_insert s = Some c \<longrightarrow>
     ready s (c # inner_blocks k) \<longrightarrow> progress s t (insert c (set (inner_blocks k))))"

lemma closesD:
  "closes k \<Longrightarrow> stm_codegen k s = Inr (x, t) \<Longrightarrow> ir_insert s = Some c \<Longrightarrow>
     ready s (c # inner_blocks k) \<Longrightarrow> progress s t (insert c (set (inner_blocks k)))"
  unfolding closes_def by blast

lemma seq_progress:
  assumes "movable m" "closes k" "cthen m (stm_codegen k) s = Inr (x, t)" "ir_insert s = Some c"
    "ready s (c # inner_blocks k)"
  shows "progress s t (insert c (set (inner_blocks k)))"
proof -
  from assms(3) obtain y u where u: "m s = Inr (y, u)" "stm_codegen k u = Inr (x, t)"
    by (rule cthen_InrE)
  obtain d where d: "moved s u c d" using movableD [OF assms(1) u(1) assms(4,5)] ..
  then have "ir_insert u = Some d" by (simp add: moved_def)
  from closesD [OF assms(2) u(2) this ready_moved [OF d assms(5)]]
  show ?thesis using moved_progress [OF d] assms(5) by (auto simp: ready_def)
qed

lemma bb_of_eq: "bb_of k s = Inr (b, t) \<longleftrightarrow> stm_bb k = Some b \<and> t = s"
  by (auto simp: bb_of_def cthe_def cfail_def creturn_def split: option.splits)

text \<open>The code of a branch, in its own block.\<close>

definition arm_codegen :: "stm \<Rightarrow> unit cx" where
  "arm_codegen k = cthen (cbind (bb_of k) SetInsertPoint) (stm_codegen k)"

lemma arm_progress:
  assumes "closes k" "arm_codegen k s = Inr (x, t)" "ready s (all_blocks k)"
  shows "progress s t (set (all_blocks k))"
proof -
  from assms(2) obtain b u where b: "stm_bb k = Some b" "u = s\<lparr>ir_insert := Some b\<rparr>"
    and k: "stm_codegen k u = Inr (x, t)"
    unfolding arm_codegen_def
    by (auto elim!: cthen_InrE cbind_InrE simp: bb_of_eq SetInsertPoint_eq)
  have al: "all_blocks k = b # inner_blocks k" by (simp add: all_blocks_def own_blocks_def b)
  have "progress u t (set (all_blocks k))"
    using closesD [OF assms(1) k, of b] assms(3) unfolding al by (simp add: b ready_def)
  then show ?thesis by (rule progress_start) (simp_all add: b)
qed

lemma restore_eq:
  "restoreSMLRegState c s = Inr (x, t) \<longleftrightarrow> t = s\<lparr>cx_regState := copyFrom (cx_regState s) c\<rparr>"
  by (auto simp: restoreSMLRegState_def cmodify_def)

lemma save_eq: "saveSMLRegState s = Inr (c, t) \<longleftrightarrow>
    c = copyFrom CMRegState_new (cx_regState s) \<and> t = s"
  by (auto simp: saveSMLRegState_def cget_def)

lemma ready_subset: "ready s bs \<Longrightarrow> set bs \<subseteq> {..<ir_nblocks s}"
  by (auto simp: ready_def)

text \<open>The code of the arms of a branch, one after the other, each with the registers that were saved
  before the first one.\<close>

definition arms_codegen :: "value CMRegState \<Rightarrow> stm list \<Rightarrow> unit cx" where
  "arms_codegen d arms =
     cforeach arms (\<lambda>k. cthen (restoreSMLRegState d) (arm_codegen k))"

lemma arms_progress:
  assumes "\<And>k. k \<in> set arms \<Longrightarrow> closes k"
    "arms_codegen c arms s = Inr (x, t)"
    "ready s (concat (map all_blocks arms))"
  shows "progress s t (set (concat (map all_blocks arms)))"
  using assms
proof (induction arms arbitrary: s)
  case Nil
  then show ?case by (simp add: arms_codegen_def creturn_def progress_refl)
next
  case (Cons k arms)
  from Cons.prems(2) obtain s1 u where s1: "s1 = s\<lparr>cx_regState := copyFrom (cx_regState s) c\<rparr>"
    and u: "arm_codegen k s1 = Inr ((), u)"
    and rest: "arms_codegen c arms u = Inr (x, t)"
    by (auto elim!: cthen_InrE simp: restore_eq arms_codegen_def)
  have r: "ready s (all_blocks k)" "ready s (concat (map all_blocks arms))"
    "set (all_blocks k) \<inter> set (concat (map all_blocks arms)) = {}"
    using Cons.prems(3) by (auto simp: ready_append)
  have "progress s1 u (set (all_blocks k))"
    by (rule arm_progress [OF Cons.prems(1) u]) (auto simp: s1 intro: ready_cong [OF r(1)])
  then have pu: "progress s u (set (all_blocks k))"
    by (rule progress_start) (simp_all add: s1)
  have "progress u t (set (concat (map all_blocks arms)))"
    by (rule Cons.IH [OF _ rest ready_progress [OF pu r(2)]]) (use Cons.prems(1) r(3) in auto)
  from progress_trans [OF pu this ready_subset [OF r(2)] ready_subset [OF r(1)]]
  show ?case by simp
qed

section \<open>Branches\<close>

text \<open>The test of \<open>BRANCH\<close>, up to the conditional branch.\<close>

definition branch_test :: "branch \<Rightarrow> exp list \<Rightarrow> probability \<Rightarrow> stm \<Rightarrow> stm \<Rightarrow> unit cx" where
  "branch_test br es prob k1 k2 =
     cbind (exps_codegen es) (\<lambda>args. cbind (branch_codegen br args) (\<lambda>cnd.
     cbind (bb_of k1) (\<lambda>b1. cbind (bb_of k2) (\<lambda>b2.
     ir_exec (CondBr cnd b1 b2 (if prob = 0 then None else Some (branchProb prob)))))))"

lemma closing_branch_test: "closing (branch_test br es prob k1 k2)"
  unfolding branch_test_def by (intro closing_bind closing_exec frame_intros) simp

text \<open>\<open>SWITCH\<close> up to the switch instruction.\<close>

definition switch_arg :: "exp \<Rightarrow> value cx" where
  "switch_arg e = cbind (cbind (exp_codegen e) asInt) (\<lambda>v. createTrunc v i32Ty)"

definition switch_end :: "value \<Rightarrow> nat \<Rightarrow> stm list \<Rightarrow> unit cx" where
  "switch_end arg dflt arms =
     cbind (cmap bb_of arms) (\<lambda>bbs.
     ir_exec (Switch arg dflt
       (zip (map (\<lambda>i. iConst_sz 32 (word_of_nat i)) [0..<length arms]) bbs)))"

lemma closing_switch_end: "closing (switch_end arg dflt arms)"
  unfolding switch_end_def by (intro closing_bind closing_exec frame_intros) simp

definition switch_head :: "exp \<Rightarrow> stm list \<Rightarrow> unit cx" where
  "switch_head e arms =
     cbind (switch_arg e) (\<lambda>arg.
     cbind GetInsertBlock (\<lambda>cur.
     cbind (newBB ''impossible'') (\<lambda>dflt.
     cthen (SetInsertPoint dflt)
     (cthen (ir_exec Unreachable)
     (cthen (SetInsertPoint cur)
     (switch_end arg dflt arms))))))"

lemma straight_switch_arg: "straight (switch_arg e)"
  unfolding switch_arg_def createTrunc_def by (intro frame_intros)

lemma switch_head_steps:
  assumes "switch_head e arms s = Inr (x, t)" "ir_insert s = Some c"
  obtains arg s1 dflt s2 s3 where
    "switch_arg e s = Inr (arg, s1)"
    "newBB ''impossible'' s1 = Inr (dflt, s2)"
    "ir_exec Unreachable (s2\<lparr>ir_insert := Some dflt\<rparr>) = Inr ((), s3)"
    "switch_end arg dflt arms (s3\<lparr>ir_insert := Some c\<rparr>) = Inr (x, t)"
proof -
  from assms(1) obtain arg s1 cur dflt s2 s3 where
    a: "switch_arg e s = Inr (arg, s1)" "ir_insert s1 = Some cur"
    and r: "newBB ''impossible'' s1 = Inr (dflt, s2)"
      "ir_exec Unreachable (s2\<lparr>ir_insert := Some dflt\<rparr>) = Inr ((), s3)"
      "switch_end arg dflt arms (s3\<lparr>ir_insert := Some cur\<rparr>) = Inr (x, t)"
    unfolding switch_head_def
    by (auto elim!: cbind_InrE cthen_InrE simp: GetInsertBlock_eq SetInsertPoint_eq)
  have "cur = c" using straight_frame(2) [OF straight_switch_arg a(1)] a(2) assms(2) by simp
  with a r that show thesis by blast
qed

lemma closing_switch_head: "closing (switch_head e arms)"
  unfolding closing_def
proof (intro allI impI)
  fix s x u c bs
  assume run: "switch_head e arms s = Inr (x, u)" and i: "ir_insert s = Some c" and r: "ready s (c # bs)"
  obtain arg s1 dflt s2 s3 where
    1: "switch_arg e s = Inr (arg, s1)"
    and 2: "newBB ''impossible'' s1 = Inr (dflt, s2)"
    and 3: "ir_exec Unreachable (s2\<lparr>ir_insert := Some dflt\<rparr>) = Inr ((), s3)"
    and 4: "switch_end arg dflt arms (s3\<lparr>ir_insert := Some c\<rparr>) = Inr (x, u)"
    using switch_head_steps [OF run i] .
  have m1: "moved s s1 c c" by (rule straight_moved [OF straight_switch_arg 1 i r])
  have r1: "ready s1 (c # bs)" by (rule ready_moved [OF m1 r])
  obtain f where s2: "dflt = ir_nblocks s1" "s2 = s1\<lparr>ir_nblocks := ir_nblocks s1 + 1,
      ir_blocks := (ir_blocks s1)(ir_nblocks s1 :=
        \<lparr>bb_name = ''impossible'', bb_fn = f, bb_insts = []\<rparr>)\<rparr>"
    using newBB_eq [OF 2] by blast
  have p3: "progress (s2\<lparr>ir_insert := Some dflt\<rparr>) s3 {dflt}"
    by (rule terminator_progress [OF _ 3]) (simp_all add: s2)
  have "closed (ir_blocks s3 b)" if "ir_nblocks s1 \<le> b" "b < ir_nblocks s3" for b
    using p3 that by (cases "b = ir_nblocks s1") (auto simp: progress_def s2)
  then have p: "progress s1 s3 {}"
    using p3 by (auto simp: progress_def s2)
  have ru: "ready (s3\<lparr>ir_insert := Some c\<rparr>) (c # bs)"
    by (rule ready_cong [OF ready_progress [OF p r1]]) simp_all
  have p4: "progress (s3\<lparr>ir_insert := Some c\<rparr>) u {c}"
    by (rule closingD [OF closing_switch_end 4 _ ru]) simp
  have "moved s (s3\<lparr>ir_insert := Some c\<rparr>) c c"
    using m1 p r straight_frame(1) [OF straight_switch_arg 1] by (auto simp: moved_def progress_def ready_def)
  then show "progress s u {c}"
    using moved_progress [of s _ c c u "{}"] p4 r by (simp add: ready_def)
qed

text \<open>Both statements are a head, which closes the current block, and then their arms.\<close>

fun arms_of :: "stm \<Rightarrow> stm list" where
  "arms_of (SWITCH _ _ arms) = arms"
| "arms_of (BRANCH _ _ _ _ k1 k2) = [k1, k2]"
| "arms_of _ = []"

definition forks :: "stm \<Rightarrow> unit cx \<Rightarrow> bool" where
  "forks k h \<longleftrightarrow>
     stm_codegen k = cthen h (cbind saveSMLRegState (\<lambda>d. arms_codegen d (arms_of k))) \<and>
     inner_blocks k = concat (map all_blocks (arms_of k)) \<and> closing h"

lemma SWITCH_forks: "forks (SWITCH b e arms) (switch_head e arms)"
  unfolding forks_def
proof (intro conjI closing_switch_head)
  show "stm_codegen (SWITCH b e arms) =
      cthen (switch_head e arms) (cbind saveSMLRegState (\<lambda>d. arms_codegen d (arms_of (SWITCH b e arms))))"
    by (simp add: switch_head_def switch_arg_def switch_end_def arms_codegen_def arm_codegen_def
        cthen_def cbind_assoc)
qed (simp add: all_blocks_def [abs_def])

lemma restore_saved: "restoreSMLRegState (copyFrom CMRegState_new (cx_regState s)) s = Inr ((), s)"
  by (simp add: restore_eq) (simp add: copyFrom_def)

lemma bb_of_Some: "stm_bb k = Some b \<Longrightarrow> bb_of k = creturn b"
  and bb_of_None: "stm_bb k = None \<Longrightarrow> bb_of k = cfail (NullPointer ''basic block'')"
  by (simp_all add: bb_of_def cthe_def)

lemma cbind_fail: "cbind (cfail e) k = cfail e"
  by (simp add: fun_eq_iff cbind_def cfail_def)

lemma BRANCH_forks: "forks (BRANCH b br es prob k1 k2) (branch_test br es prob k1 k2)"
  unfolding forks_def
proof (intro conjI closing_branch_test)
  let ?arms = "\<lambda>d. arms_codegen d [k1, k2]"
  let ?plain = "\<lambda>d. cthen (arm_codegen k1) (cthen (restoreSMLRegState d) (arm_codegen k2))"
  have eq: "cbind saveSMLRegState ?arms = cbind saveSMLRegState ?plain"
    by (intro ext)
      (simp add: saveSMLRegState_def cbind_def cget_def arms_codegen_def cthen_def restore_saved
        creturn_def split: sum.split prod.split)
  show "stm_codegen (BRANCH b br es prob k1 k2) =
      cthen (branch_test br es prob k1 k2)
        (cbind saveSMLRegState (\<lambda>d. arms_codegen d (arms_of (BRANCH b br es prob k1 k2))))"
    unfolding arms_of.simps eq
    by (cases "stm_bb k1"; cases "stm_bb k2")
      (simp_all add: branch_test_def arm_codegen_def cthen_def cbind_assoc bb_of_Some bb_of_None
        cbind_fail)
qed (simp add: all_blocks_def)

lemma fork_split:
  assumes "forks k h" "stm_codegen k s = Inr (x, t)"
  obtains u d where "h s = Inr ((), u)" "arms_codegen d (arms_of k) u = Inr (x, t)"
    "d = copyFrom CMRegState_new (cx_regState u)"
  using assms by (auto simp: forks_def save_eq elim!: cthen_InrE cbind_InrE)

lemma closes_fork:
  assumes "forks k h" "\<And>a. a \<in> set (arms_of k) \<Longrightarrow> closes a"
  shows "closes k"
  unfolding closes_def
proof (intro allI impI)
  fix s x t c
  assume run: "stm_codegen k s = Inr (x, t)" and i: "ir_insert s = Some c"
    and r: "ready s (c # inner_blocks k)"
  obtain u d where 1: "h s = Inr ((), u)" and 2: "arms_codegen d (arms_of k) u = Inr (x, t)"
    using fork_split [OF assms(1) run] .
  have inner: "inner_blocks k = concat (map all_blocks (arms_of k))" and cl: "closing h"
    using assms(1) by (auto simp: forks_def)
  have pu: "progress s u {c}" by (rule closingD [OF cl 1 i r])
  have "ready u (inner_blocks k)" by (rule ready_progress [OF pu]) (use r in \<open>auto simp: ready_def\<close>)
  then have "progress u t (set (inner_blocks k))"
    using arms_progress [OF assms(2) 2] by (simp add: inner)
  from progress_trans [OF pu this] ready_subset [OF r]
  show "progress s t (insert c (set (inner_blocks k)))" by simp
qed

lemma closes_seq:
  assumes "stm_codegen k' = cthen m (stm_codegen k)" "inner_blocks k' = inner_blocks k"
    "movable m" "closes k"
  shows "closes k'"
  using seq_progress [OF assms(3,4)] unfolding closes_def assms(1,2) by blast

lemma closes_closing: "stm_codegen k = m \<Longrightarrow> inner_blocks k = [] \<Longrightarrow> closing m \<Longrightarrow> closes k"
  unfolding closes_def closing_def by auto

theorem stm_closes: "closes k"
proof (induction k rule: inner_blocks.induct)
  case (3 b e arms)
  then show ?case by (intro closes_fork [OF SWITCH_forks]) simp
next
  case (4 b br es prob k1 k2)
  then show ?case by (intro closes_fork [OF BRANCH_forks]) auto
next
  case 1
  then show ?case
    by (intro closes_seq [OF stm_codegen.simps(1)] movable_straight frame_intros) simp_all
next
  case 2
  then show ?case
    by (intro closes_seq [OF stm_codegen.simps(2)] movable_straight frame_intros) simp_all
next
  case 5
  then show ?case
    by (intro closes_seq [OF stm_codegen.simps(8)] movable_bind movable_arith movable_straight
        frame_intros) simp_all
next
  case 6
  then show ?case
    by (intro closes_seq [OF stm_codegen.simps(9)] movable_straight frame_intros) simp_all
next
  case 7
  then show ?case
    by (intro closes_seq [OF stm_codegen.simps(10)] movable_straight frame_intros) simp_all
next
  case 8
  show ?case by (simp add: closes_def cfail_def)
next
  case "9_1"
  show ?case by (rule closes_closing [OF stm_codegen.simps(3) _ closing_APPLY]) simp
next
  case "9_2"
  show ?case by (rule closes_closing [OF stm_codegen.simps(4) _ closing_THROW]) simp
next
  case "9_3"
  show ?case by (rule closes_closing [OF stm_codegen.simps(5) _ closing_GOTO]) simp
qed

end
