(* ===== verification/Module_Structure.thy ===== *)
theory Module_Structure
  imports Block_Structure
begin

text \<open>
  Initialisation, and the blocks of a whole compilation unit.
\<close>

section \<open>Operations that change nothing\<close>

definition unchanged :: "cgctx \<Rightarrow> cgctx \<Rightarrow> bool" where
  "unchanged s t \<longleftrightarrow> t = s"

abbreviation reads :: "'a cx \<Rightarrow> bool" where
  "reads \<equiv> keeps unchanged"

interpretation reads: frame unchanged
  by unfold_locales (simp_all add: unchanged_def)

lemma readsD: "reads m \<Longrightarrow> m s = Inr (x, t) \<Longrightarrow> t = s"
  by (auto simp: unchanged_def dest: keepsD)

lemma reads_ty [frame_intros]: "reads (ty_codegen t)"
  by (cases t) (simp_all add: ty_codegen_def frame_intros)

lemma reads_getArgInfo [frame_intros]: "reads (getArgInfo k)"
  unfolding getArgInfo_def
  by (auto intro!: frame_intros split: frag_kind.split option.split)

lemma reads_createParamTys [frame_intros]: "reads (createParamTys k n)"
  unfolding createParamTys_def addExtraParamTys_def by (intro frame_intros)

lemma reads_createFnTy [frame_intros]: "reads (createFnTy k tys)"
  unfolding createFnTy_def by (intro frame_intros)

section \<open>Initialisation of statements\<close>

text \<open>From \<open>s\<close> to \<open>t\<close> some empty blocks have been added.\<close>

definition added :: "cgctx \<Rightarrow> cgctx \<Rightarrow> bool" where
  "added s t \<longleftrightarrow>
     t = s\<lparr>ir_nblocks := ir_nblocks t, ir_blocks := ir_blocks t\<rparr> \<and>
     ir_nblocks s \<le> ir_nblocks t \<and>
     (\<forall>b. b < ir_nblocks s \<longrightarrow> ir_blocks t b = ir_blocks s b) \<and>
     (\<forall>b. ir_nblocks s \<le> b \<longrightarrow> b < ir_nblocks t \<longrightarrow> bb_insts (ir_blocks t b) = [])"

lemma added_refl [simp]: "added s s"
  by (simp add: added_def)

lemma added_trans: "added s t \<Longrightarrow> added t u \<Longrightarrow> added s u"
proof -
  assume a: "added s t" and b: "added t u"
  have "u = s\<lparr>ir_nblocks := ir_nblocks u, ir_blocks := ir_blocks u\<rparr>"
  proof -
    have "u = t\<lparr>ir_nblocks := ir_nblocks u, ir_blocks := ir_blocks u\<rparr>" using b by (simp add: added_def)
    also have "\<dots> = (s\<lparr>ir_nblocks := ir_nblocks t, ir_blocks := ir_blocks t\<rparr>)
        \<lparr>ir_nblocks := ir_nblocks u, ir_blocks := ir_blocks u\<rparr>"
      using a by (simp add: added_def)
    finally show ?thesis by simp
  qed
  moreover have "bb_insts (ir_blocks u d) = []" if "ir_nblocks s \<le> d" "d < ir_nblocks u" for d
    using a b that by (cases "d < ir_nblocks t") (auto simp: added_def)
  ultimately show ?thesis using a b by (simp add: added_def)
qed

lemma initBB_added:
  assumes "initBB ent s = Inr (b, t)"
  shows "added s t \<and> (case b of None \<Rightarrow> [] | Some b \<Rightarrow> [b]) = [ir_nblocks s..<ir_nblocks t] \<and>
    (b \<noteq> None \<longleftrightarrow> ent)"
proof (cases ent)
  case True
  with assms obtain c where "newBB [] s = Inr (c, t)" "b = Some c"
    by (auto simp: initBB_def creturn_def elim!: cbind_InrE)
  with True show ?thesis by (auto dest!: newBB_eq simp: added_def less_Suc_eq)
next
  case False
  with assms show ?thesis by (simp add: initBB_def creturn_def)
qed

text \<open>The blocks of an initialised statement are the new ones, in order.\<close>

definition numbered :: "stm \<Rightarrow> bool \<Rightarrow> cgctx \<Rightarrow> cgctx \<Rightarrow> bool" where
  "numbered k ent s t \<longleftrightarrow>
     added s t \<and> all_blocks k = [ir_nblocks s..<ir_nblocks t] \<and> (stm_bb k \<noteq> None \<longleftrightarrow> ent)"

lemma upt_join: "a \<le> b \<Longrightarrow> b \<le> c \<Longrightarrow> [a..<b] @ [b..<c] = [a..<c]"
  by (metis le_Suc_ex upt_add_eq_append)

lemma numbered_join:
  assumes "initBB ent s = Inr (b, u)" "added u t" "inner_blocks k = [ir_nblocks u..<ir_nblocks t]"
    "stm_bb k = b"
  shows "numbered k ent s t"
proof -
  note bb = initBB_added [OF assms(1)]
  have "all_blocks k = [ir_nblocks s..<ir_nblocks u] @ [ir_nblocks u..<ir_nblocks t]"
    using bb assms by (simp add: all_blocks_def own_blocks_def)
  moreover have "ir_nblocks s \<le> ir_nblocks u" "ir_nblocks u \<le> ir_nblocks t"
    using bb assms(2) by (simp_all add: added_def)
  ultimately have "all_blocks k = [ir_nblocks s..<ir_nblocks t]" by (simp add: upt_join)
  moreover have "added s t" using bb assms(2) by (blast intro: added_trans)
  ultimately show ?thesis using bb assms(4) by (simp add: numbered_def)
qed

lemma numbered_inner:
  "numbered k False u t \<Longrightarrow> added u t \<and> inner_blocks k = [ir_nblocks u..<ir_nblocks t]"
  by (auto simp: numbered_def all_blocks_def own_blocks_def)

lemma numbered_seq:
  "initBB ent s = Inr (b, u) \<Longrightarrow> numbered k False u t \<Longrightarrow> inner_blocks k' = inner_blocks k \<Longrightarrow>
     stm_bb k' = b \<Longrightarrow> numbered k' ent s t"
  using numbered_inner by (intro numbered_join) simp_all

text \<open>One block after the other.\<close>

lemma numbered_arms:
  assumes "\<And>k k' s t. k \<in> set arms \<Longrightarrow> stm_init k True s = Inr (k', t) \<Longrightarrow> numbered k' True s t"
    "cmap (\<lambda>k. stm_init k True) arms s = Inr (arms', t)"
  shows "added s t \<and> concat (map all_blocks arms') = [ir_nblocks s..<ir_nblocks t]"
  using assms
proof (induction arms arbitrary: s arms')
  case Nil
  then show ?case by (simp add: creturn_def)
next
  case (Cons k arms)
  from Cons.prems(2) obtain k' u ks where k: "stm_init k True s = Inr (k', u)"
    and ks: "cmap (\<lambda>k. stm_init k True) arms u = Inr (ks, t)" and eq: "arms' = k' # ks"
    by (auto elim!: cbind_InrE simp: creturn_def)
  have 1: "numbered k' True s u" by (rule Cons.prems(1) [OF _ k]) simp
  have 2: "added u t \<and> concat (map all_blocks ks) = [ir_nblocks u..<ir_nblocks t]"
    by (rule Cons.IH [OF Cons.prems(1) ks]) simp_all
  have "added s t" using 1 2 by (auto simp: numbered_def intro: added_trans)
  moreover have "ir_nblocks s \<le> ir_nblocks u" "ir_nblocks u \<le> ir_nblocks t"
    using 1 2 by (simp_all add: numbered_def added_def)
  ultimately show ?case
    using 1 2 by (simp add: eq numbered_def upt_join)
qed

lemma stm_init_numbered: "stm_init k ent s = Inr (k', t) \<Longrightarrow> numbered k' ent s t"
proof (induction k ent arbitrary: s k' t rule: stm_init.induct)
  case (6 b e arms ent)
  from "6.prems" obtain b' u arms' where b: "initBB ent s = Inr (b', u)"
    and a: "cmap (\<lambda>k. stm_init k True) arms u = Inr (arms', t)" and k': "k' = SWITCH b' e arms'"
    by (auto elim!: cbind_InrE simp: creturn_def)
  have "added u t \<and> concat (map all_blocks arms') = [ir_nblocks u..<ir_nblocks t]"
    by (rule numbered_arms [OF _ a]) (rule "6.IH")
  then show ?case
    by (intro numbered_join [OF b]) (simp_all add: k' all_blocks_def [abs_def])
next
  case (7 b br es prob k1 k2 ent)
  from "7.prems" obtain b' u k1' v k2' where b: "initBB ent s = Inr (b', u)"
    and 1: "stm_init k1 True u = Inr (k1', v)" and 2: "stm_init k2 True v = Inr (k2', t)"
    and k': "k' = BRANCH b' br es prob k1' k2'"
    by (auto elim!: cbind_InrE simp: creturn_def)
  have n: "numbered k1' True u v" "numbered k2' True v t" using "7.IH" 1 2 by blast+
  then have "all_blocks k1' @ all_blocks k2' = [ir_nblocks u..<ir_nblocks t]"
    by (simp add: numbered_def upt_join added_def)
  moreover have "added u t" using n by (auto simp: numbered_def intro: added_trans)
  ultimately show ?case by (intro numbered_join [OF b]) (simp_all add: k' all_blocks_def)
qed (auto elim!: cbind_InrE simp: creturn_def intro: numbered_join,
    (erule numbered_seq, blast, simp, simp)+)

section \<open>Fragments\<close>

text \<open>From \<open>s\<close> to \<open>t\<close> the blocks \<open>bs\<close> have been added, unfinished.\<close>

definition prepared :: "cgctx \<Rightarrow> cgctx \<Rightarrow> nat list \<Rightarrow> bool" where
  "prepared s t bs \<longleftrightarrow>
     bs = [ir_nblocks s..<ir_nblocks t] \<and> ir_nblocks s \<le> ir_nblocks t \<and>
     (\<forall>b. b < ir_nblocks s \<longrightarrow> ir_blocks t b = ir_blocks s b) \<and>
     (\<forall>b\<in>set bs. unfinished (ir_blocks t b))"

lemma unfinished_empty: "bb_insts b = [] \<Longrightarrow> unfinished b"
  by (auto simp: unfinished_def shape_def intro: exI [of _ 0])

lemma numbered_prepared: "numbered k ent s t \<Longrightarrow> prepared s t (all_blocks k)"
  by (auto simp: numbered_def added_def prepared_def unfinished_empty)

lemma prepared_trans: "prepared s t as \<Longrightarrow> prepared t u bs \<Longrightarrow> prepared s u (as @ bs)"
  by (auto simp: prepared_def upt_join)

text \<open>Phi nodes of an entry block.\<close>

lemma prepared_straight:
  assumes "prepared s t bs" "b \<in> set bs" "straight m" "m (t\<lparr>ir_insert := Some b\<rparr>) = Inr (x, u)"
  shows "prepared s u bs"
proof -
  note fr = straight_frame [OF assms(3,4)] straight_unfinished [OF assms(3,4)]
  have "ir_blocks u c = ir_blocks t c" if "c \<noteq> b" for c using fr(3) [of c] that by simp
  moreover have "ir_nblocks s \<le> b" using assms(1,2) by (auto simp: prepared_def)
  ultimately show ?thesis
    using assms(1,2) fr(1,4) by (auto simp: prepared_def)
qed

lemma set_bb_name_prepared:
  assumes "prepared s t bs" "b \<in> set bs" "set_bb_name b n t = Inr (x, u)"
  shows "prepared s u bs" "ir_nblocks u = ir_nblocks t"
proof -
  have u: "u = t\<lparr>ir_blocks := (ir_blocks t)(b := (ir_blocks t b)\<lparr>bb_name := n\<rparr>)\<rparr>"
    using assms(3) by (simp add: set_bb_name_def cmodify_def)
  have "unfinished (ir_blocks t b) \<Longrightarrow> unfinished ((ir_blocks t b)\<lparr>bb_name := n\<rparr>)"
    by (simp add: unfinished_def shape_def)
  with assms(1,2) show "prepared s u bs" by (auto simp: prepared_def u)
  show "ir_nblocks u = ir_nblocks t" by (simp add: u)
qed

definition frag_blocks :: "frag \<Rightarrow> nat list" where
  "frag_blocks fr = all_blocks (f_body fr)"

lemma frag_init_prepared:
  assumes "frag_init fr s = Inr (fr', t)"
  shows "prepared s t (frag_blocks fr') \<and> stm_bb (f_body fr') \<noteq> None"
proof -
  define phis where "phis = (\<lambda>bb. if f_kind fr = INTERNAL then
          cbind (createParamTys (f_kind fr) (length (f_params fr))) (\<lambda>tys.
          cbind (cmap (\<lambda>p. ty_codegen (p_ty p)) (f_params fr)) (\<lambda>ptys.
          cthen (SetInsertPoint bb)
          (cmap CreatePHI (tys @ ptys))))
        else creturn [])"
  have eq: "frag_init fr =
     cbind (stm_init (f_body fr) True) (\<lambda>body.
     cbind (bb_of body) (\<lambda>bb.
     cthen (set_bb_name bb (''L_'' @ lvar_string (f_lab fr)))
     (cbind (phis bb) (\<lambda>ps.
      let fr' = fr\<lparr>f_body := body, f_phiNodes := ps\<rparr>
      in cthen (insertFrag (f_lab fr) fr') (creturn fr')))))"
    by (simp add: frag_init_def phis_def)
  from assms obtain body bb u v ps w where
    1: "stm_init (f_body fr) True s = Inr (body, u)" and b: "stm_bb body = Some bb"
    and 2: "set_bb_name bb (''L_'' @ lvar_string (f_lab fr)) u = Inr ((), v)"
    and 3: "phis bb v = Inr (ps, w)"
    and t: "t = w\<lparr>cx_fragMap := map_insert fr' (f_lab fr) (cx_fragMap w)\<rparr>"
    and fr': "f_body fr' = body"
    unfolding eq
    by (auto elim!: cbind_InrE cthen_InrE
        simp: bb_of_eq Let_def insertFrag_def cmodify_def creturn_def)
  have n: "numbered body True s u" by (rule stm_init_numbered [OF 1])
  have mem: "bb \<in> set (all_blocks body)" by (simp add: all_blocks_def own_blocks_def b)
  note v = set_bb_name_prepared [OF numbered_prepared [OF n] mem 2]
  have "prepared s w (all_blocks body)"
  proof (cases "f_kind fr = INTERNAL")
    case True
    define tys where "tys = cbind (createParamTys (f_kind fr) (length (f_params fr))) (\<lambda>tys.
      cbind (cmap (\<lambda>p. ty_codegen (p_ty p)) (f_params fr)) (\<lambda>ptys. creturn (tys @ ptys)))"
    have "phis bb = cbind tys (\<lambda>ts. cthen (SetInsertPoint bb) (cmap CreatePHI ts))"
      using True by (simp add: phis_def tys_def cbind_assoc)
    with 3 obtain ts v' where ts: "tys v = Inr (ts, v')"
      and p: "cmap CreatePHI ts (v'\<lparr>ir_insert := Some bb\<rparr>) = Inr (ps, w)"
      by (auto elim!: cbind_InrE cthen_InrE simp: SetInsertPoint_eq)
    have "reads tys" unfolding tys_def by (intro frame_intros)
    then have "v' = v" using ts by (rule readsD)
    have "straight (cmap CreatePHI ts)" by (intro frame_intros)
    from prepared_straight [OF v(1) mem this p [unfolded \<open>v' = v\<close>]] show ?thesis .
  next
    case False
    with 3 have "w = v" by (simp add: phis_def creturn_def)
    with v show ?thesis by simp
  qed
  then have "prepared s t (all_blocks body)" by (simp add: prepared_def t)
  then show ?thesis by (simp add: frag_blocks_def fr' b)
qed

lemma frag_inits_prepared:
  "cmap frag_init frs s = Inr (frs', t) \<Longrightarrow>
     prepared s t (concat (map frag_blocks frs')) \<and> (\<forall>fr\<in>set frs'. stm_bb (f_body fr) \<noteq> None)"
proof (induction frs arbitrary: s frs')
  case Nil
  then show ?case by (simp add: creturn_def prepared_def)
next
  case (Cons fr frs)
  from Cons.prems obtain fr' u rest where 1: "frag_init fr s = Inr (fr', u)"
    and 2: "cmap frag_init frs u = Inr (rest, t)" and eq: "frs' = fr' # rest"
    by (auto elim!: cbind_InrE simp: creturn_def)
  show ?case
    using frag_init_prepared [OF 1] Cons.IH [OF 2] by (auto simp: eq intro: prepared_trans)
qed

lemma frag_codegen_progress:
  assumes "frag_codegen fr ent s = Inr (x, t)" "ready s (frag_blocks fr)"
    "stm_bb (f_body fr) \<noteq> None"
  shows "progress s t (set (frag_blocks fr))"
proof -
  define prep where "prep = (if ent then setupStdEntry fr else setupFragEntry fr (f_phiNodes fr))"
  have st: "straight prep" unfolding prep_def by (intro frame_intros)
  from assms obtain b u where b: "stm_bb (f_body fr) = Some b"
    and u: "prep (s\<lparr>cx_vMap := (\<lambda>_. None), ir_insert := Some b\<rparr>) = Inr ((), u)"
    and c: "stm_codegen (f_body fr) u = Inr (x, t)"
    unfolding frag_codegen_def prep_def [symmetric]
    by (auto elim!: cbind_InrE cthen_InrE
        simp: bb_of_eq SetInsertPoint_eq beginFrag_def cmodify_def)
  define s0 where "s0 = s\<lparr>cx_vMap := (\<lambda>_. None), ir_insert := Some b\<rparr>"
  have fb: "frag_blocks fr = b # inner_blocks (f_body fr)"
    by (simp add: frag_blocks_def all_blocks_def own_blocks_def b)
  have r: "ready s0 (b # inner_blocks (f_body fr))"
    using assms(2) unfolding fb by (rule ready_cong) (simp_all add: s0_def)
  have i: "ir_insert s0 = Some b" by (simp add: s0_def)
  have mv: "moved s0 u b b" by (rule straight_moved [OF st u [folded s0_def] i r])
  have iu: "ir_insert u = Some b" using mv by (simp add: moved_def)
  have "progress u t (insert b (set (inner_blocks (f_body fr))))"
    by (rule closesD [OF stm_closes c iu ready_moved [OF mv r]])
  from moved_progress [OF mv this] r
  have "progress s0 t (set (frag_blocks fr))"
    using ready_subset [OF r] by (simp add: fb ready_def)
  then show ?thesis by (rule progress_start) (simp_all add: s0_def)
qed

section \<open>Clusters and compilation units\<close>

lemma frags_progress:
  assumes "cforeach frs (\<lambda>fr. frag_codegen fr ent) s = Inr (x, t)"
    "ready s (concat (map frag_blocks frs))" "\<forall>fr\<in>set frs. stm_bb (f_body fr) \<noteq> None"
  shows "progress s t (set (concat (map frag_blocks frs)))"
  using assms
proof (induction frs arbitrary: s)
  case Nil
  then show ?case by (simp add: creturn_def progress_refl)
next
  case (Cons fr frs)
  from Cons.prems(1) obtain u where u: "frag_codegen fr ent s = Inr ((), u)"
    and rest: "cforeach frs (\<lambda>fr. frag_codegen fr ent) u = Inr (x, t)"
    by (auto elim!: cthen_InrE)
  have r: "ready s (frag_blocks fr)" "ready s (concat (map frag_blocks frs))"
    "set (frag_blocks fr) \<inter> set (concat (map frag_blocks frs)) = {}"
    using Cons.prems(2) by (auto simp: ready_append)
  have pu: "progress s u (set (frag_blocks fr))"
    by (rule frag_codegen_progress [OF u r(1)]) (use Cons.prems(3) in auto)
  have "progress u t (set (concat (map frag_blocks frs)))"
    by (rule Cons.IH [OF rest ready_progress [OF pu r(2)]]) (use Cons.prems(3) r(3) in auto)
  from progress_trans [OF pu this ready_subset [OF r(2)] ready_subset [OF r(1)]]
  show ?case by simp
qed

lemma prepared_progress:
  assumes "prepared s u bs" "progress u t (set bs)"
  shows "progress s t {}"
  unfolding progress_def
proof (intro conjI ballI allI impI)
  show "ir_nblocks s \<le> ir_nblocks t" using assms by (simp add: prepared_def progress_def)
next
  fix b assume "ir_nblocks s \<le> b" "b < ir_nblocks t"
  then show "closed (ir_blocks t b)"
    using assms by (cases "b < ir_nblocks u") (auto simp: prepared_def progress_def)
next
  fix b assume "b < ir_nblocks s"
  then show "ir_blocks t b = ir_blocks s b"
    using assms by (auto simp: prepared_def progress_def)
qed simp

lemma prepared_ready: "prepared s t bs \<Longrightarrow> ready t bs"
  by (simp add: prepared_def ready_def)

lemma cluster_codegen_progress:
  assumes "cluster_codegen c s = Inr (x, t)"
  shows "progress s t {}"
proof -
  from assms obtain s1 frs u where b: "beginCluster c (c_fn c) s = Inr ((), s1)"
    and f: "cmap frag_init (c_frags c) s1 = Inr (frs, u)"
    and g: "(case frs of [] \<Rightarrow> cfail IndexOutOfRange
             | fr # rest \<Rightarrow>
                 cthen (frag_codegen fr True) (cforeach rest (\<lambda>fr. frag_codegen fr False))) u
      = Inr ((), t)"
    unfolding cluster_codegen_def
    by (auto elim!: cbind_InrE cthen_InrE simp: endCluster_def creturn_def)
  have s1: "ir_nblocks s1 = ir_nblocks s" "ir_blocks s1 = ir_blocks s"
    using b by (auto simp: beginCluster_def cassert_def cfail_def creturn_def cmodify_def
        elim!: cthen_InrE split: if_splits)
  note p = frag_inits_prepared [OF f]
  obtain fr rest where frs: "frs = fr # rest"
    using g by (cases frs) (auto simp: cfail_def)
  with g obtain v where v: "frag_codegen fr True u = Inr ((), v)"
    and w: "cforeach rest (\<lambda>fr. frag_codegen fr False) v = Inr ((), t)"
    by (auto elim!: cthen_InrE)
  have r: "ready u (frag_blocks fr)" "ready u (concat (map frag_blocks rest))"
    "set (frag_blocks fr) \<inter> set (concat (map frag_blocks rest)) = {}"
    using prepared_ready [OF conjunct1 [OF p]] by (auto simp: frs ready_append)
  have pv: "progress u v (set (frag_blocks fr))"
    by (rule frag_codegen_progress [OF v r(1)]) (use p in \<open>simp add: frs\<close>)
  have "progress v t (set (concat (map frag_blocks rest)))"
    by (rule frags_progress [OF w ready_progress [OF pv r(2)]]) (use r(3) p in \<open>auto simp: frs\<close>)
  from progress_trans [OF pv this ready_subset [OF r(2)] ready_subset [OF r(1)]]
  have "progress u t (set (concat (map frag_blocks frs)))" by (simp add: frs)
  with p have "progress s1 t {}" by (blast intro: prepared_progress)
  then show ?thesis by (rule progress_start) (simp_all add: s1)
qed

lemma cluster_init_blocks:
  assumes "cluster_init c ent s = Inr (c', t)"
  shows "ir_nblocks t = ir_nblocks s \<and> ir_blocks t = ir_blocks s"
proof -
  define tys where "tys = cbind (cmap (\<lambda>p. ty_codegen (p_ty p)) (f_params (c_frags c ! 0)))
    (createFnTy (f_kind (c_frags c ! 0)))"
  have rd: "reads tys" unfolding tys_def by (intro frame_intros)
  have nf: "newFunction ty n pub s = Inr (f, t) \<Longrightarrow>
      ir_nblocks t = ir_nblocks s \<and> ir_blocks t = ir_blocks s" for ty n pub f and s t :: cgctx
    by (auto simp: newFunction_def Function_Create_def current_module_def fn_update_def cthe_def
        cget_def cmodify_def creturn_def cfail_def elim!: cbind_InrE cthen_InrE split: option.splits)
  have eq: "cluster_init c ent =
     cthen (cassert (length (c_frags c) > 0) ''no fragments'')
     (cthen (setCluster c)
     (cbind tys (\<lambda>fnTy.
      cbind (newFunction fnTy ((if ent then ''entry'' else ''fn'') @
         lvar_string (f_lab (c_frags c ! 0))) ent) (\<lambda>f.
      cthen (insertCluster (f_lab (c_frags c ! 0)) (c\<lparr>c_fn := Some f\<rparr>))
        (creturn (c\<lparr>c_fn := Some f\<rparr>))))))"
    by (simp add: cluster_init_def tys_def Let_def cbind_assoc)
  from assms show ?thesis
    unfolding eq
    by (auto elim!: cbind_InrE cthen_InrE dest!: nf readsD [OF rd]
        simp: cassert_def cfail_def creturn_def setCluster_def insertCluster_def cmodify_def
        split: if_splits)
qed

lemma cluster_inits_blocks:
  "cmap (\<lambda>c. cluster_init c False) cs s = Inr (cs', t) \<Longrightarrow>
     ir_nblocks t = ir_nblocks s \<and> ir_blocks t = ir_blocks s"
proof (induction cs arbitrary: s cs')
  case Nil
  then show ?case by (simp add: creturn_def)
next
  case (Cons c cs)
  then obtain c' u rest where "cluster_init c False s = Inr (c', u)"
    "cmap (\<lambda>c. cluster_init c False) cs u = Inr (rest, t)"
    by (auto elim!: cbind_InrE simp: creturn_def)
  with Cons.IH show ?case by (auto dest!: cluster_init_blocks)
qed

lemma clusters_progress:
  "cforeach cs cluster_codegen s = Inr (x, t) \<Longrightarrow> progress s t {}"
proof (induction cs arbitrary: s)
  case Nil
  then show ?case by (simp add: creturn_def progress_refl)
next
  case (Cons c cs)
  then obtain u where u: "cluster_codegen c s = Inr ((), u)"
    and t: "cforeach cs cluster_codegen u = Inr (x, t)"
    by (auto elim!: cthen_InrE)
  from progress_trans [OF cluster_codegen_progress [OF u] Cons.IH [OF t]]
  show ?case by simp
qed

lemma beginModule_blocks:
  assumes "beginModule src n s = Inr (x, t)"
  shows "ir_nblocks t = ir_nblocks s \<and> ir_blocks t = ir_blocks s"
proof -
  have "cforeach is intr_reset s = Inr ((), t) \<Longrightarrow>
      ir_nblocks t = ir_nblocks s \<and> ir_blocks t = ir_blocks s" for "is" and s t :: cgctx
    by (induction "is" arbitrary: s)
      (auto simp: intr_reset_def cmodify_def creturn_def elim!: cthen_InrE)
  with assms show ?thesis
    unfolding beginModule_def by (fastforce simp: cmodify_def elim!: cthen_InrE)
qed

lemma comp_unit_progress:
  assumes "comp_unit_codegen cu s = Inr (x, t)"
  shows "progress s t {}"
proof -
  from assms obtain s1 en s2 cs s3 s4 where
    b: "beginModule (srcFile cu) (length (fns cu) + 1) s = Inr ((), s1)"
    and e: "cluster_init (entry cu) True s1 = Inr (en, s2)"
    and c: "cmap (\<lambda>c. cluster_init c False) (fns cu) s2 = Inr (cs, s3)"
    and g: "cluster_codegen en s3 = Inr ((), s4)" "cforeach cs cluster_codegen s4 = Inr ((), t)"
    unfolding comp_unit_codegen_def
    by (auto elim!: cbind_InrE cthen_InrE simp: completeModule_def creturn_def)
  have "progress s3 t {}"
    using progress_trans [OF cluster_codegen_progress [OF g(1)] clusters_progress [OF g(2)]] by simp
  then show ?thesis
    by (rule progress_start)
      (simp_all add: beginModule_blocks [OF b] cluster_init_blocks [OF e] cluster_inits_blocks [OF c])
qed

end
