(* ===== verification/Cache_Laws.thy ===== *)
theory Cache_Laws
  imports Module_Structure
begin

text \<open>
  The caches of intrinsics and of \<open>read_register\<close> never hold a function of an earlier module.
\<close>

definition caches_ok :: "cgctx \<Rightarrow> bool" where
  "caches_ok s \<longleftrightarrow>
     (\<forall>i v. cx_intr s i = Some v \<longrightarrow> (\<exists>m. ir_module s = Some m \<and> v = VIntr i m)) \<and>
     (\<forall>v. cx_readReg s = Some v \<longrightarrow> (\<exists>m. ir_module s = Some m \<and> v = VReadReg m))"

definition cache_step :: "cgctx \<Rightarrow> cgctx \<Rightarrow> bool" where
  "cache_step s t \<longleftrightarrow> (caches_ok s \<longrightarrow> caches_ok t \<and> ir_module t = ir_module s)"

abbreviation cache_safe :: "'a cx \<Rightarrow> bool" where
  "cache_safe \<equiv> keeps cache_step"

interpretation cache: frame cache_step
  by unfold_locales (auto simp: cache_step_def)

named_theorems cache_intros \<open>operations that keep the caches right\<close>

lemma cache_safeD:
  "cache_safe m \<Longrightarrow> m s = Inr (x, t) \<Longrightarrow> caches_ok s \<Longrightarrow> caches_ok t \<and> ir_module t = ir_module s"
  unfolding keeps_def cache_step_def by blast

lemma kept_cache: "kept s t \<Longrightarrow> caches_ok s \<Longrightarrow> caches_ok t \<and> ir_module t = ir_module s"
proof (intro conjI)
  assume k: "kept s t" and ok: "caches_ok s"
  then show m: "ir_module t = ir_module s" by (simp add: kept_def)
  have c: "cached s t" using k by (simp add: kept_def)
  show "caches_ok t"
    unfolding caches_ok_def m
  proof (intro conjI allI impI)
    fix i v assume "cx_intr t i = Some v"
    then have "cx_intr s i = Some v \<or> (\<exists>m. ir_module s = Some m \<and> v = VIntr i m)"
      using c unfolding cached_def by simp
    then show "\<exists>m. ir_module s = Some m \<and> v = VIntr i m" using ok unfolding caches_ok_def by auto
  next
    fix v assume "cx_readReg t = Some v"
    then have "cx_readReg s = Some v \<or> (\<exists>m. ir_module s = Some m \<and> v = VReadReg m)"
      using c unfolding cached_def by simp
    then show "\<exists>m. ir_module s = Some m \<and> v = VReadReg m" using ok unfolding caches_ok_def by auto
  qed
qed

lemma cache_straight: "straight m \<Longrightarrow> cache_safe m"
  by (auto simp: keeps_def [of cache_step] cache_step_def dest!: straightD dest: kept_cache)

lemma cache_modify:
  "(\<And>s. cx_intr (f s) = cx_intr s \<and> cx_readReg (f s) = cx_readReg s \<and> ir_module (f s) = ir_module s)
     \<Longrightarrow> cache_safe (cmodify f)"
  by (auto simp: keeps_def cache_step_def cmodify_def caches_ok_def)

lemma cache_reads: "reads m \<Longrightarrow> cache_safe m"
  by (auto simp: keeps_def [of cache_step] cache_step_def dest!: readsD)

lemma cache_exec [cache_intros]: "cache_safe (ir_exec i)"
  by (auto simp: keeps_def cache_step_def ir_exec_def creturn_def caches_ok_def elim!: cbind_InrE
      dest!: ir_append_Some)

lemma cache_newBB [cache_intros]: "cache_safe (newBB n)"
  by (auto simp: keeps_def cache_step_def caches_ok_def dest!: newBB_eq)

lemma cache_SetInsertPoint [cache_intros]: "cache_safe (SetInsertPoint b)"
  unfolding SetInsertPoint_def by (intro cache_modify) simp

lemma cache_make_overflowBB: "cache_safe (make_overflowBB c n)"
  unfolding make_overflowBB_def
  by (intro cache.keeps_bind cache.keeps_then cache_exec cache_newBB
      cache_SetInsertPoint cache_modify cache.keeps_map)
    (auto simp: shorthand_defs intro!: cache_straight straight_overflow_phis frame_intros)

lemma cache_getOverflowBB [cache_intros]: "cache_safe getOverflowBB"
  unfolding getOverflowBB_def
  by (intro cache.keeps_bind cache.keeps_then cache.keeps_if cache_make_overflowBB)
    (auto intro!: cache_straight frame_intros)

interpretation cache: code_frame cache_step
  by unfold_locales
    (auto intro: cache_exec cache_newBB cache_SetInsertPoint cache_getOverflowBB cache_straight
      frame_intros)

lemmas [cache_intros] =
  cache.keeps_bind cache.keeps_then cache.keeps_if cache.keeps_foreach cache.keeps_map cache.keeps_stm

lemma cache_restore [cache_intros]: "cache_safe (restoreSMLRegState c)"
  by (intro cache_straight frame_intros)

lemma cache_bb_of [cache_intros]: "cache_safe (bb_of k)"
  by (intro cache_straight frame_intros)

lemma added_cache: "added s t \<Longrightarrow> caches_ok s \<Longrightarrow> caches_ok t \<and> ir_module t = ir_module s"
proof -
  assume a: "added s t" and ok: "caches_ok s"
  then obtain n f where "t = s\<lparr>ir_nblocks := n, ir_blocks := f\<rparr>" unfolding added_def by blast
  with ok show ?thesis by (simp add: caches_ok_def)
qed

lemma cache_frag_init [cache_intros]: "cache_safe (frag_init fr)"
proof -
  have 1: "cache_safe (stm_init k ent)" for k ent
    unfolding keeps_def cache_step_def using stm_init_numbered added_cache by (fastforce simp: numbered_def)
  have 2: "cache_safe (set_bb_name b n)" for b n
    unfolding set_bb_name_def by (intro cache_modify) simp
  have 3: "cache_safe (insertFrag lab f)" for lab f
    unfolding insertFrag_def by (intro cache_modify) simp
  show ?thesis
    unfolding frag_init_def Let_def
    by (intro cache.keeps_bind cache.keeps_then cache.keeps_if 1 2 3 cache_bb_of cache_SetInsertPoint)
      (auto intro!: cache_straight frame_intros)
qed

lemma cache_frag_codegen [cache_intros]: "cache_safe (frag_codegen fr ent)"
  unfolding frag_codegen_def beginFrag_def
  by (intro cache.keeps_bind cache.keeps_then cache_modify cache.keeps_if cache.keeps_stm cache_bb_of cache_SetInsertPoint)
    (auto intro!: cache_straight frame_intros)

lemma cache_cluster_codegen [cache_intros]: "cache_safe (cluster_codegen c)"
proof -
  have 1: "cache_safe (beginCluster c f)" for f
    unfolding beginCluster_def
    by (intro cache.keeps_then cache_modify) (auto intro!: cache_straight frame_intros)
  have 2: "cache_safe (case frs of [] \<Rightarrow> cfail IndexOutOfRange
      | fr # rest \<Rightarrow> cthen (frag_codegen fr True) (cforeach rest (\<lambda>fr. frag_codegen fr False)))" for frs
    by (cases frs) (auto intro!: cache_intros intro: cache_straight frame_intros)
  show ?thesis
    unfolding cluster_codegen_def endCluster_def
    by (intro cache.keeps_bind cache.keeps_then 1 2 cache.keeps_foreach cache.keeps_map cache_frag_init)
      (auto intro!: cache_straight frame_intros)
qed

lemma cache_cluster_init [cache_intros]: "cache_safe (cluster_init c ent)"
proof -
  have 1: "cache_safe (newFunction ty n pub)" for ty n pub
    unfolding newFunction_def Function_Create_def fn_update_def
    by (auto simp: keeps_def cache_step_def current_module_def cmodify_def creturn_def cget_def cthe_def
        cfail_def caches_ok_def elim!: cbind_InrE cthen_InrE split: option.splits)
  show ?thesis
    unfolding cluster_init_def setCluster_def insertCluster_def Let_def
    by (intro cache.keeps_then cache.keeps_bind 1 cache_modify)
      (auto intro!: cache_straight frame_intros)
qed

lemma beginModule_caches:
  assumes "beginModule src n s = Inr (x, t)"
  shows "caches_ok t \<and> ir_module t = Some (ir_nmodules s)"
proof -
  have "cforeach is intr_reset s = Inr ((), t) \<Longrightarrow>
      ir_module t = ir_module s \<and> cx_intr t = (\<lambda>i. if i \<in> set is then None else cx_intr s i)"
    for "is" and s t :: cgctx
    by (induction "is" arbitrary: s)
      (auto simp: intr_reset_def cmodify_def creturn_def fun_eq_iff elim!: cthen_InrE)
  moreover have "i \<in> set intrinsics" for i by (cases i) (simp_all add: intrinsics_def)
  ultimately show ?thesis
    using assms unfolding beginModule_def caches_ok_def
    by (fastforce simp: cmodify_def elim!: cthen_InrE)
qed

lemma comp_unit_caches:
  assumes "comp_unit_codegen cu s = Inr (x, t)"
  shows "caches_ok t \<and> ir_module t = Some (ir_nmodules s)"
proof -
  define rest where "rest = cbind (cluster_init (entry cu) True) (\<lambda>en.
      cbind (cmap (\<lambda>c. cluster_init c False) (fns cu)) (\<lambda>cs.
      cthen (cluster_codegen en)
      (cthen (cforeach cs cluster_codegen)
      completeModule)))"
  have safe: "cache_safe rest"
    unfolding rest_def completeModule_def
    by (intro cache_intros) (auto intro!: cache_straight frame_intros)
  from assms obtain u where "beginModule (srcFile cu) (length (fns cu) + 1) s = Inr ((), u)"
    "rest u = Inr (x, t)"
    unfolding comp_unit_codegen_def rest_def by (auto elim!: cthen_InrE)
  with cache_safeD [OF safe] beginModule_caches show ?thesis by fastforce
qed

end
