(* ===== verification/Arith_Code.thy ===== *)
theory Arith_Code
  imports Overflow_Block Test_Code Cache_Laws
begin

text \<open>
  Trapping arithmetic: the code computes the wrapped result and the overflow bit, and leaves the
  block through a branch to the overflow block exactly when the exact result does not fit.
\<close>

definition arith_exact :: "arithop \<Rightarrow> int \<Rightarrow> int \<Rightarrow> int" where
  "arith_exact op x y =
     (case op of IADD \<Rightarrow> x + y | ISUB \<Rightarrow> x - y | IMUL \<Rightarrow> x * y | _ \<Rightarrow> 0)"

definition fits_signed :: "nat \<Rightarrow> int \<Rightarrow> bool" where
  "fits_signed w z \<longleftrightarrow> - (2 ^ (w - 1)) \<le> z \<and> z < 2 ^ (w - 1)"

definition trapping :: "arithop \<Rightarrow> bool" where
  "trapping op \<longleftrightarrow> op = IADD \<or> op = ISUB \<or> op = IMUL"

definition arith_intr :: "arithop \<Rightarrow> int \<Rightarrow> intrinsic" where
  "arith_intr op sz =
     (case op of
        IADD \<Rightarrow> (if sz = 32 then Sadd32WO else Sadd64WO)
      | ISUB \<Rightarrow> (if sz = 32 then Ssub32WO else Ssub64WO)
      | _ \<Rightarrow> (if sz = 32 then Smul32WO else Smul64WO))"

lemma arith_intr_val:
  assumes "trapping op" "sz = 32 \<or> sz = 64" "z = arith_exact op (sval (nat sz) x) (sval (nat sz) y)"
  shows "intr_val (arith_intr op sz) [RI (nat sz) x, RI (nat sz) y] =
    Some (RPair (RI (nat sz) (take_bit (nat sz) z)) (RI 1 (of_bool (\<not> fits_signed (nat sz) z))))"
  using assms(1,2) unfolding trapping_def assms(3)
  by (elim disjE) (simp_all add: arith_intr_def intr_val_def intr_width_def arith_exact_def
      with_overflow_def fits_signed_def Let_def)

lemma step_intr_get:
  assumes k: "known s0 \<sigma>0 R M \<Gamma> s \<sigma>" and c: "caches_ok s" "ir_module s \<noteq> None"
    and Q: "\<And>m t. known s0 \<sigma>0 R M \<Gamma> t \<sigma> \<Longrightarrow> Q (VIntr i m) t \<sigma>"
  shows "runs (intr_get i) s \<sigma> Q"
proof (cases "cx_intr s i")
  case (Some v)
  then obtain m where "v = VIntr i m" using c(1) by (auto simp: caches_ok_def)
  with Some show ?thesis
    unfolding intr_get_def by (intro runs_bind runs_get) (simp add: runs_return Q [OF k])
next
  case None
  obtain m where m: "ir_module s = Some m" using c(2) by blast
  let ?t = "s\<lparr>cx_intr := (cx_intr s)(i \<mapsto> VIntr i m)\<rparr>"
  have st: "still s ?t" using m by (simp add: still_def kept_def cached_def None)
  have "later s \<sigma> ?t \<sigma>" using st by (simp add: later_def)
  then have kt: "known s0 \<sigma>0 R M \<Gamma> ?t \<sigma>"
    using known_extend [OF k, of ?t \<sigma> R M "[]"] k by (simp add: known_def)
  show ?thesis
    unfolding intr_get_def current_module_def
    apply (intro runs_bind runs_get, simp add: None)
    apply (intro runs_bind runs_get, rule runs_the, rule m)
    apply (intro runs_then runs_modify runs_return, rule st, simp)
    by (rule Q [OF kt])
qed

lemma known_still: "known s0 \<sigma>0 R M \<Gamma> s \<sigma> \<Longrightarrow> still s0 s"
  by (simp add: known_def later_def)

lemma known_caches:
  assumes "known s0 \<sigma>0 R M \<Gamma> s \<sigma>" "caches_ok s0" "ir_module s0 \<noteq> None"
  shows "caches_ok s" "ir_module s \<noteq> None"
  using kept_cache [OF still_kept [OF known_still [OF assms(1)]] assms(2)] assms(3) by simp_all

lemma step_trap:
  assumes k: "known s0 \<sigma>0 R M \<Gamma> s \<sigma>" "(a, RI (nat sz) x) \<in> set \<Gamma>" "(b, RI (nat sz) y) \<in> set \<Gamma>"
    and c: "caches_ok s0" "ir_module s0 \<noteq> None"
    and op: "trapping op" "sz = 32 \<or> sz = 64"
    and z: "z = arith_exact op (sval (nat sz) x) (sval (nat sz) y)"
    and Q: "\<And>v t \<tau>. known s0 \<sigma>0 R M
      ((v, RPair (RI (nat sz) (take_bit (nat sz) z)) (RI 1 (of_bool (\<not> fits_signed (nat sz) z)))) # \<Gamma>) t \<tau> \<Longrightarrow>
      Q v t \<tau>"
  shows "runs (call_intr (arith_intr op sz) [a, b]) s \<sigma> Q"
  unfolding call_intr_def
proof (intro runs_bind, rule step_intr_get [OF k(1) known_caches [OF k(1) c]])
  fix m t
  assume kt: "known s0 \<sigma>0 R M \<Gamma> t \<sigma>"
  note h = holdsD [OF known_holds [OF kt k(2)]] holdsD [OF known_holds [OF kt k(3)]]
  show "runs (ir_append (Call (intr_ty (arith_intr op sz)) (VIntr (arith_intr op sz) m) [a, b]
      CC_C TCK_None)) t \<sigma> Q"
  proof (rule step_append [OF kt _ _ Q])
    show "psem \<sigma> (Call (intr_ty (arith_intr op sz)) (VIntr (arith_intr op sz) m) [a, b] CC_C TCK_None) =
        Some (RPair (RI (nat sz) (take_bit (nat sz) z)) (RI 1 (of_bool (\<not> fits_signed (nat sz) z))))"
      using h arith_intr_val [OF op z] by simp
  qed (use op in \<open>auto simp: trapping_def arith_intr_def Let_def\<close>)
qed

text \<open>The parts of the pair.\<close>

lemma step_extract:
  assumes k: "known s0 \<sigma>0 R M \<Gamma> s \<sigma>" "(p, RPair r0 r1) \<in> set \<Gamma>" and i: "i < 2"
    and Q: "\<And>v t \<tau>. known s0 \<sigma>0 R M ((v, if i = 0 then r0 else r1) # \<Gamma>) t \<tau> \<Longrightarrow> Q v t \<tau>"
  shows "runs (createExtractValue p i) s \<sigma> Q"
proof -
  note h = holdsD [OF known_holds [OF k]]
  have "i = 0 \<or> i = 1" using i by auto
  then show ?thesis
    unfolding createExtractValue_def
    by (intro step_create [OF k(1), where r = "if i = 0 then r0 else r1"] Q) (use h in auto)
qed

section \<open>The branch\<close>

text \<open>\<open>ARITH::codegen\<close> up to the branch.\<close>

definition trap_pre :: "arithop \<Rightarrow> int \<Rightarrow> value \<Rightarrow> value \<Rightarrow> (value \<times> value) cx" where
  "trap_pre op sz a b =
     cbind (asInt_sz sz a) (\<lambda>a0.
     cbind (asInt_sz sz b) (\<lambda>a1.
     cbind (call_intr (arith_intr op sz) [a0, a1]) (\<lambda>pair.
     cbind (createExtractValue pair 0) (\<lambda>res.
     cbind (createExtractValue pair 1) (\<lambda>obit. creturn (res, obit))))))"

lemma trap_split:
  assumes "trapping op"
  shows "ARITH_codegen op sz [a, b] = cbind (trap_pre op sz a b) trap_post"
proof -
  have ops: "(case op of
        IADD \<Rightarrow> cbind (call_intr (if sz = 32 then Sadd32WO else Sadd64WO) [a0, a1]) overflow_check
      | ISUB \<Rightarrow> cbind (call_intr (if sz = 32 then Ssub32WO else Ssub64WO) [a0, a1]) overflow_check
      | IMUL \<Rightarrow> cbind (call_intr (if sz = 32 then Smul32WO else Smul64WO) [a0, a1]) overflow_check
      | IDIV \<Rightarrow> createSDiv a0 a1
      | IREM \<Rightarrow> createSRem a0 a1
      | arithop_other _ \<Rightarrow> cfail (NoCase ''ARITH'')) =
      cbind (call_intr (arith_intr op sz) [a0, a1]) overflow_check" for a0 a1
    using assms by (auto simp: trapping_def arith_intr_def)
  have "ARITH_codegen op sz [a, b] = cbind (asInt_sz sz a) (\<lambda>a0. cbind (asInt_sz sz b) (\<lambda>a1.
      cbind (call_intr (arith_intr op sz) [a0, a1]) overflow_check))"
    unfolding ARITH_codegen_def ops by (simp add: cnth_def cassert_def cthen_def)
  then show ?thesis
    by (simp only: trap_pre_def trap_post_def overflow_check_def [abs_def] cbind_assoc cbind_return
        prod.case)
qed

lemma runs_trap_pre:
  assumes k: "known s0 \<sigma>0 R M \<Gamma> s \<sigma>" "(a, ra) \<in> set \<Gamma>" "(b, rb) \<in> set \<Gamma>"
    and n: "num_arg (nat sz) ra x" "num_arg (nat sz) rb y"
    and c: "caches_ok s0" "ir_module s0 \<noteq> None"
    and op: "trapping op" "sz = 32 \<or> sz = 64"
    and z: "z = arith_exact op (sval (nat sz) x) (sval (nat sz) y)"
    and Q: "\<And>res obit t \<tau>. known s0 \<sigma>0 R M
      ((obit, RI 1 (of_bool (\<not> fits_signed (nat sz) z))) # (res, RI (nat sz) (take_bit (nat sz) z)) # \<Gamma>) t \<tau> \<Longrightarrow>
      Q (res, obit) t \<tau>"
  shows "runs (trap_pre op sz a b) s \<sigma> Q"
proof -
  have sz: "int_size sz" using op(2) by (auto simp: int_size_def)
  let ?r0 = "RI (nat sz) (take_bit (nat sz) z)" and ?r1 = "RI 1 (of_bool (\<not> fits_signed (nat sz) z))"
  show ?thesis
    unfolding trap_pre_def
    apply (intro runs_bind, rule step_asInt_sz [OF k(1,2) n(1) sz])
    apply (intro runs_bind, erule step_asInt_sz [OF _ _ n(2) sz], use k(3) in simp)
    apply (intro runs_bind, erule step_trap [OF _ _ _ c op z], simp, simp)
    apply (intro runs_bind, erule step_extract [where ?r0.0 = ?r0 and ?r1.0 = ?r1], simp, simp)
    apply (intro runs_bind, erule step_extract [where ?r0.0 = ?r0 and ?r1.0 = ?r1], simp, simp)
    apply (rule runs_return, rule Q, erule known_weaken)
    by auto
qed

lemma overflow_ok_cong:
  assumes "overflow_ok s" "sp_ok t" "cx_curFn t = cx_curFn s" "cx_regInfo t = cx_regInfo s"
    "rs_get (cx_regState t) = rs_get (cx_regState s)"
    "cx_overflowBB t = cx_overflowBB s" "cx_overflowPhiNodes t = cx_overflowPhiNodes s"
    "ir_nvals s \<le> ir_nvals t"
  shows "overflow_ok t"
proof -
  obtain ns where ns: "cx_overflowPhiNodes s = map (\<lambda>n. VInst n PtrTy) ns" "distinct ns"
    "\<forall>n\<in>set ns. n < ir_nvals s"
    "length ns = (if cx_overflowBB s = None then 0 else numMachineRegs (cx_regInfo s))"
    using assms(1) by (auto simp: overflow_ok_def phis_ok_def)
  then have "phis_ok t"
    using assms(4,6,7,8) unfolding phis_ok_def by (intro exI [of _ ns]) auto
  then show ?thesis using assms by (simp add: overflow_ok_def)
qed

lemma overflow_ok_known:
  assumes "known s0 \<sigma>0 (rs_get (cx_regState s0)) M \<Gamma> s \<sigma>" "overflow_ok s0"
  shows "overflow_ok s"
proof (rule overflow_ok_cong [OF assms(2)])
  have st: "still s0 s" by (rule known_still [OF assms(1)])
  show "sp_ok s" using assms(2) st by (simp add: overflow_ok_def sp_ok_def still_def kept_def)
qed (use assms(1) in \<open>simp_all add: known_def later_def still_def kept_def\<close>)

lemma does_exec_exact:
  assumes "ir_insert s = Some c"
    and "Q () (s\<lparr>ir_nvals := ir_nvals s + 1, ir_blocks := (ir_blocks s)(c := (ir_blocks s c)
      \<lparr>bb_insts := bb_insts (ir_blocks s c) @ [(ir_nvals s, i)]\<rparr>)\<rparr>)"
  shows "does (ir_exec i) s Q"
  using assms by (simp add: does_def ir_exec_def ir_append_def cbind_def creturn_def Let_def)

text \<open>The block \<open>c\<close> ends with a branch to the overflow block, whose phi nodes have got an edge from
  \<open>c\<close>; a new block is the current one.\<close>

definition trapped :: "nat \<Rightarrow> value \<Rightarrow> cgctx \<Rightarrow> cgctx \<Rightarrow> bool" where
  "trapped c obit s t \<longleftrightarrow>
     (\<exists>n ovfl ns.
        bb_insts (ir_blocks t c) =
          bb_insts (ir_blocks s c) @ [(n, CondBr obit ovfl (ir_nblocks s) (Some overflowWeights))] \<and>
        cx_overflowBB t = Some ovfl \<and>
        cx_overflowPhiNodes t = map (\<lambda>n. VInst n PtrTy) ns \<and>
        length ns = numMachineRegs (cx_regInfo s) \<and>
        (\<forall>i<length ns. ir_phis t (ns ! i) = ir_phis s (ns ! i) @ [(reg_val s i, c)])) \<and>
     ir_insert t = Some (ir_nblocks s) \<and> bb_insts (ir_blocks t (ir_nblocks s)) = [] \<and>
     cx_regState t = cx_regState s \<and> overflow_ok t"

lemma does_trap_post:
  assumes ok: "overflow_ok s" and c: "ir_insert s = Some c" "c < ir_nblocks s"
  shows "does (trap_post (res, obit)) s (\<lambda>v t. v = res \<and> trapped c obit s t)"
proof -
  obtain f where f: "cx_curFn s = Some f" using ok by (auto simp: overflow_ok_def)
  define s1 where "s1 = s\<lparr>ir_nblocks := ir_nblocks s + 1, ir_blocks := (ir_blocks s)
      (ir_nblocks s := \<lparr>bb_name = ''ok'', bb_fn = f, bb_insts = []\<rparr>)\<rparr>"
  have ok1: "overflow_ok s1"
    by (rule overflow_ok_cong [OF ok]) (use ok in \<open>simp_all add: s1_def overflow_ok_def sp_ok_def\<close>)
  have c1: "ir_insert s1 = Some c" by (simp add: s1_def c)
  have fin: "trapped c obit s (u\<lparr>ir_nvals := ir_nvals u + 1, ir_blocks := (ir_blocks u)(c := (ir_blocks u c)
      \<lparr>bb_insts := bb_insts (ir_blocks u c) @
        [(ir_nvals u, CondBr obit ob (ir_nblocks s) (Some overflowWeights))]\<rparr>)\<rparr>
      \<lparr>ir_insert := Some (ir_nblocks s)\<rparr>)" (is "trapped c obit s ?t")
    if u: "overflow_ok u" "edge_added c s1 ob u" for ob u
  proof -
    have blk: "ir_blocks u c = ir_blocks s c" "ir_blocks u (ir_nblocks s) = ir_blocks s1 (ir_nblocks s)"
      using u(2) c(2) by (auto simp: edge_added_def s1_def split: option.splits)
    have "bb_insts (ir_blocks ?t c) =
        bb_insts (ir_blocks s c) @ [(ir_nvals u, CondBr obit ob (ir_nblocks s) (Some overflowWeights))]"
      "bb_insts (ir_blocks ?t (ir_nblocks s)) = []"
      using blk c(2) by (simp_all add: s1_def)
    moreover have "cx_overflowBB ?t = Some ob" "cx_regState ?t = cx_regState s"
      using u(2) by (simp_all add: edge_added_def s1_def)
    moreover have "reg_val s1 = reg_val s" by (simp add: fun_eq_iff reg_val_def s1_def)
    then obtain ns where "cx_overflowPhiNodes ?t = map (\<lambda>n. VInst n PtrTy) ns"
      "length ns = numMachineRegs (cx_regInfo s)"
      "\<forall>i<length ns. ir_phis ?t (ns ! i) = ir_phis s (ns ! i) @ [(reg_val s i, c)]"
      using u(2) by (auto simp: edge_added_def s1_def)
    moreover have "overflow_ok ?t"
      by (rule overflow_ok_cong [OF u(1)]) (use u(1) in \<open>simp_all add: overflow_ok_def sp_ok_def\<close>)
    ultimately show ?thesis unfolding trapped_def by auto
  qed
  show ?thesis
    unfolding trap_post_def prod.case
    apply (rule does_bind, rule does_newBB [OF f], fold s1_def)
    apply (rule does_bind, rule does_getOverflowBB [OF ok1 c1])
    apply (rule does_then, rule does_exec_exact, simp add: edge_added_def)
    apply (unfold SetInsertPoint_def, intro does_then does_modify does_return)
    using fin by simp
qed

lemma ARITH_traps:
  assumes ok: "ctx_ok s" "overflow_ok s" "caches_ok s" and c: "ir_insert s = Some c" "c < ir_nblocks s"
    and h: "holds s \<sigma> a ra" "holds s \<sigma> b rb" "num_arg (nat sz) ra x" "num_arg (nat sz) rb y"
    and op: "trapping op" "sz = 32 \<or> sz = 64"
    and z: "z = arith_exact op (sval (nat sz) x) (sval (nat sz) y)"
  shows "\<exists>res t is \<tau> n obit ovfl nxt.
    ARITH_codegen op sz [a, b] s = Inr (res, t) \<and>
    bb_insts (ir_blocks t c) =
      bb_insts (ir_blocks s c) @ is @ [(n, CondBr obit ovfl nxt (Some overflowWeights))] \<and>
    exec \<sigma> is = Some \<tau> \<and> rv_mem \<tau> = rv_mem \<sigma> \<and>
    veval \<tau> res = Some (RI (nat sz) (take_bit (nat sz) z)) \<and>
    veval \<tau> obit = Some (RI 1 (of_bool (\<not> fits_signed (nat sz) z))) \<and>
    cx_overflowBB t = Some ovfl \<and> ir_insert t = Some nxt \<and> bb_insts (ir_blocks t nxt) = [] \<and>
    rs_get (cx_regState t) = rs_get (cx_regState s) \<and> overflow_ok t"
proof -
  let ?w = "nat sz"
  let ?R = "rs_get (cx_regState s)"
  let ?known = "known s \<sigma> ?R (rv_mem \<sigma>) [(a, ra), (b, rb)]"
  have k: "?known s \<sigma>" using ok(1) h(1,2) by (intro known_start) auto
  have m: "ir_module s \<noteq> None" using ok(2) by (simp add: overflow_ok_def sp_ok_def)
  have "runs (trap_pre op sz a b) s \<sigma> (\<lambda>ro t \<tau>. known s \<sigma> ?R (rv_mem \<sigma>)
      [(snd ro, RI 1 (of_bool (\<not> fits_signed ?w z))), (fst ro, RI ?w (take_bit ?w z)), (a, ra), (b, rb)] t \<tau>)"
    by (rule runs_trap_pre [OF k _ _ h(3,4) ok(3) m op z]) simp_all
  then obtain res obit u "is" \<tau> where u: "trap_pre op sz a b s = Inr ((res, obit), u)"
    "emits s is u" "exec \<sigma> is = Some \<tau>"
    and ku: "known s \<sigma> ?R (rv_mem \<sigma>)
      [(obit, RI 1 (of_bool (\<not> fits_signed ?w z))), (res, RI ?w (take_bit ?w z)), (a, ra), (b, rb)] u \<tau>"
    by (auto simp: runs_def)
  have uc: "ir_insert u = Some c" "c < ir_nblocks u"
    "bb_insts (ir_blocks u c) = bb_insts (ir_blocks s c) @ is"
    using u(2) c by (simp_all add: emits_def still_def kept_def)
  obtain t where t: "trap_post (res, obit) u = Inr (res, t)" "trapped c obit u t"
    using does_trap_post [OF overflow_ok_known [OF ku ok(2)] uc(1,2), of res obit]
    by (auto simp: does_def)
  have "ARITH_codegen op sz [a, b] s = Inr (res, t)"
    unfolding trap_split [OF op(1)] by (simp add: cbind_def u(1) t(1))
  moreover have "veval \<tau> res = Some (RI ?w (take_bit ?w z))"
    "veval \<tau> obit = Some (RI 1 (of_bool (\<not> fits_signed ?w z)))" "rv_mem \<tau> = rv_mem \<sigma>"
    "rs_get (cx_regState u) = ?R"
    using ku by (simp_all add: known_def holds_def)
  ultimately show ?thesis
    using t(2) u(3) uc(3) unfolding trapped_def by (metis append.assoc)
qed

end
