(* ===== verification/Store_List.thy ===== *)
theory Store_List
  imports Emit_Steps
begin

text \<open>
  The store list: the log of assigned addresses that the garbage collector reads.  \<open>ASSIGN\<close> and
  \<open>UPDATE\<close> allocate a cell with the address and the previous list, and then write.
\<close>

section \<open>The store list\<close>

lemma runs_recordStore:
  assumes k: "known s0 \<sigma>0 R M \<Gamma> s \<sigma>" and a: "(a, r) \<in> set \<Gamma>" "ml_word r"
    and R: "R ALLOC_PTR = Some ap" "(ap, RP p) \<in> set \<Gamma>" "R STORE_PTR = Some sp" "(sp, RP q) \<in> set \<Gamma>"
    and Q: "\<And>ap' t \<tau>. known s0 \<sigma>0 (R(STORE_PTR := Some ap, ALLOC_PTR := Some ap'))
       (write_words p [raw r, uint q] M) ((ap', RP (p + 16)) # \<Gamma>) t \<tau> \<Longrightarrow> Q () t \<tau>"
  shows "runs (recordStore a) s \<sigma> Q"
  unfolding recordStore_def
  apply (intro runs_bind, rule step_mlReg [OF k R(1)])
  apply (intro runs_bind, rule step_mlReg [OF k R(3)])
  apply (intro runs_then runs_bind, rule step_createGEP_i [OF k R(2)], simp, simp)
  apply (erule step_createStoreML [where r = r and p = p], use a in simp_all)
  apply (intro runs_then runs_bind, erule step_createGEP_i [where p = p], use R in simp_all)
  apply (erule step_createStoreML [where r = "RP q" and p = "p + 8"], use R in simp_all)
  apply (intro runs_then runs_bind, erule step_setMLReg, use R in simp)
  apply (intro runs_then runs_bind, erule step_createGEP_i [where p = p], use R in simp_all)
  apply (erule step_setMLReg, use R in simp)
  apply (rule Q, erule known_weaken)
  by auto

lemma step_createGEP_ty:
  assumes k: "known s0 \<sigma>0 R M \<Gamma> s \<sigma>" "(a, RP p) \<in> set \<Gamma>" "(i, RI w x) \<in> set \<Gamma>"
    and Q: "\<And>v t \<tau>. known s0 \<sigma>0 R M
      ((v, RP (p + of_nat (ty_bytes ty) * word_of_int (sval w x))) # \<Gamma>) t \<tau> \<Longrightarrow> Q v t \<tau>"
  shows "runs (createGEP_ty ty a i) s \<sigma> Q"
proof -
  have h: "holds s \<sigma> a (RP p)" "holds s \<sigma> i (RI w x)" using k by (auto intro: known_holds)
  have "runs (ir_create (GEP ty a i)) s \<sigma> Q"
  proof (rule step_create [OF k(1)])
    show "psem \<sigma> (GEP ty a i) = Some (RP (p + of_nat (ty_bytes ty) * word_of_int (sval w x)))"
      using holdsD [OF h(1)] holdsD [OF h(2)] by simp
  qed (use holdsD [OF h(1)] holdsD [OF h(2)] Q in auto)
  moreover have "asPtr a = creturn a"
    using holdsD [OF h(1)] by (simp add: asPtr_def isPointerTy_def)
  ultimately show ?thesis by (simp add: createGEP_ty_def)
qed

lemma runs_ASSIGN:
  assumes k: "known s0 \<sigma>0 R M \<Gamma> s \<sigma>" and a: "(a, RP x) \<in> set \<Gamma>" and v: "(v, r) \<in> set \<Gamma>" "ml_word r"
    and R: "R ALLOC_PTR = Some ap" "(ap, RP p) \<in> set \<Gamma>" "R STORE_PTR = Some sp" "(sp, RP q) \<in> set \<Gamma>"
    and Q: "\<And>ap' t \<tau>. known s0 \<sigma>0 (R(STORE_PTR := Some ap, ALLOC_PTR := Some ap'))
       (put 8 x (raw r) (write_words p [uint x, uint q] M)) ((ap', RP (p + 16)) # \<Gamma>) t \<tau> \<Longrightarrow>
       Q () t \<tau>"
  shows "runs (setter_codegen ASSIGN [a, v]) s \<sigma> Q"
  unfolding setter_codegen_def
  apply (simp add: cnth_def)
  apply (intro runs_then runs_bind, rule runs_recordStore [OF k a _ R], simp)
  apply (erule step_createStoreML [where r = r and p = x], use a v in simp_all)
  by (rule Q, erule known_weaken) auto

lemma runs_UPDATE:
  assumes k: "known s0 \<sigma>0 R M \<Gamma> s \<sigma>" and a: "(a, RP x) \<in> set \<Gamma>" "(i, RI w n) \<in> set \<Gamma>"
    and v: "(v, r) \<in> set \<Gamma>" "ml_word r"
    and R: "R ALLOC_PTR = Some ap" "(ap, RP p) \<in> set \<Gamma>" "R STORE_PTR = Some sp" "(sp, RP q) \<in> set \<Gamma>"
    and y: "y = x + 8 * word_of_int (sval w n)"
    and Q: "\<And>ap' t \<tau>. known s0 \<sigma>0 (R(STORE_PTR := Some ap, ALLOC_PTR := Some ap'))
       (put 8 y (raw r) (write_words p [uint y, uint q] M)) ((ap', RP (p + 16)) # \<Gamma>) t \<tau> \<Longrightarrow>
       Q () t \<tau>"
  shows "runs (setter_codegen UPDATE [a, i, v]) s \<sigma> Q"
  unfolding setter_codegen_def
  apply (simp add: cnth_def)
  apply (intro runs_bind, rule step_createGEP_ty [OF k a])
  apply (intro runs_then, erule runs_recordStore [where r = "RP y" and ap = ap and p = p and sp = sp and q = q])
  apply (simp_all add: y R)
  apply (erule step_createStoreML [where r = r and p = y], simp_all add: y v)
  by (rule Q, erule known_weaken) (auto simp: y)

section \<open>The store list as a list\<close>

text \<open>The cell at \<open>q\<close> holds an address and the rest; \<open>z\<close> ends the list.\<close>

primrec store_list :: "u64 \<Rightarrow> mem \<Rightarrow> u64 \<Rightarrow> u64 list \<Rightarrow> bool" where
  "store_list z M q [] \<longleftrightarrow> q = z"
| "store_list z M q (x # xs) \<longleftrightarrow>
     get 8 q M = uint x \<and> store_list z M (word_of_int (get 8 (q + 8) M)) xs"

primrec cells :: "mem \<Rightarrow> u64 \<Rightarrow> u64 list \<Rightarrow> u64 list" where
  "cells M q [] = []"
| "cells M q (x # xs) = q # cells M (word_of_int (get 8 (q + 8) M)) xs"

text \<open>Two ranges of addresses do not meet.\<close>

definition apart :: "u64 \<Rightarrow> nat \<Rightarrow> u64 \<Rightarrow> nat \<Rightarrow> bool" where
  "apart a k b l \<longleftrightarrow> k \<le> unat (b - a) \<and> l \<le> unat (a - b)"

lemma apart_sym: "apart a k b l \<longleftrightarrow> apart b l a k"
  by (auto simp: apart_def)

lemma unat_minus_swap: "a \<noteq> b \<Longrightarrow> unat (a - b) = 2 ^ 64 - unat (b - a)" for a b :: u64
proof -
  assume "a \<noteq> b"
  then have "0 < unat (b - a)" by (simp add: unat_gt_0)
  moreover have "unat (b - a) < 2 ^ 64" using unsigned_less [of "b - a"] by simp
  moreover have "a - b = - of_nat (unat (b - a))" by simp
  ultimately show ?thesis using unat_neg by metis
qed

lemma apart_offset:
  assumes "apart a k b l" "i < l"
  shows "k \<le> unat (b + of_nat i - a)"
proof (cases "k = 0")
  case False
  with assms have ne: "a \<noteq> b" by (auto simp: apart_def)
  have "unat (b - a) + i < 2 ^ 64"
    using assms unat_minus_swap [OF ne] unsigned_less [of "b - a"] by (auto simp: apart_def)
  moreover from this have "unat (of_nat i :: u64) = i" by (intro unat_offset) simp
  ultimately have "unat ((b - a) + of_nat i) = unat (b - a) + i"
    by (simp add: unat_word_ariths)
  with assms show ?thesis by (simp add: apart_def algebra_simps)
qed simp

lemma get_put_apart: "apart a k b l \<Longrightarrow> get l b (put k a v m) = get l b m"
  by (intro get_put_other apart_offset)

lemma apart_parts:
  assumes "apart a k b 16"
  shows "apart a k b 8" "apart a k (b + 8) 8"
proof -
  show "apart a k b 8" using assms by (auto simp: apart_def)
  show "apart a k (b + 8) 8"
  proof (cases "a = b")
    case True with assms show ?thesis by (simp add: apart_def)
  next
    case False
    have "unat (a - b) \<ge> 16" using assms by (simp add: apart_def)
    then have "unat (a - (b + 8)) = unat (a - b) - 8"
      using unat_sub [of 8 "a - b"] by (simp add: word_le_iff diff_diff_eq)
    moreover have "k \<le> unat (b + 8 - a)" using apart_offset [OF assms, of 8] by simp
    ultimately show ?thesis using \<open>unat (a - b) \<ge> 16\<close> by (simp add: apart_def)
  qed
qed

lemma store_list_put:
  assumes "store_list z M q xs" "\<forall>c\<in>set (cells M q xs). apart a k c 16"
  shows "store_list z (put k a v M) q xs \<and> cells (put k a v M) q xs = cells M q xs"
  using assms
proof (induction xs arbitrary: q)
  case (Cons x xs)
  then have "apart a k q 8" "apart a k (q + 8) 8" using apart_parts [of a k q] by auto
  with Cons show ?case by (simp add: get_put_apart)
qed simp

text \<open>The write barrier pushes the address onto the store list.\<close>

lemma store_list_push:
  assumes "store_list z M q xs" "\<forall>c\<in>set (cells M q xs). apart p 16 c 16 \<and> apart x 8 c 16"
    and "apart x 8 p 16" "0 \<le> v" "v < 2 ^ 64"
  shows "store_list z (put 8 x v (write_words p [uint x, uint q] M)) p (x # xs)"
    and "get 8 x (put 8 x v (write_words p [uint x, uint q] M)) = v"
proof -
  let ?W = "write_words p [uint x, uint q] M"
  have eq: "?W = put 8 (p + 8) (uint q) (put 8 p (uint x) M)" by simp
  have "apart p 8 c 16 \<and> apart (p + 8) 8 c 16" if "apart p 16 c 16" for c
    using that apart_parts [of c 16 p] by (simp add: apart_sym)
  then have W: "store_list z ?W q xs" "cells ?W q xs = cells M q xs"
    unfolding eq
    using store_list_put [OF assms(1), of p 8 "uint x"] assms(2)
      store_list_put [of z "put 8 p (uint x) M" q xs "p + 8" 8 "uint q"] by simp_all
  have rd: "get 8 p ?W = uint x" "get 8 (p + 8) ?W = uint q"
    using write_words_read [of 0 "[uint x, uint q]" p M]
      write_words_read [of 1 "[uint x, uint q]" p M] by (simp_all add: uint64_less)
  have "store_list z ?W p (x # xs)" "cells ?W p (x # xs) = p # cells M q xs"
    using W rd by simp_all
  then show "store_list z (put 8 x v ?W) p (x # xs)"
    using store_list_put [of z ?W p "x # xs" x 8 v] assms(2,3) by simp
  show "get 8 x (put 8 x v ?W) = v" using assms(4,5) by (intro get_put_same) auto
qed

end
