(* ===== verification/Raw_Alloc.thy ===== *)
theory Raw_Alloc
  imports Emit_Steps
begin

unbundle bit_operations_syntax

text \<open>
  Raw records, whose fields have sizes of their own, and raw objects of an alignment: the offsets
  of the fields, what is written, and how far the allocation pointer moves.
\<close>

section \<open>Offsets\<close>

text \<open>The least multiple of \<open>k\<close> from \<open>n\<close> on.\<close>

definition align_up :: "int \<Rightarrow> int \<Rightarrow> int" where
  "align_up n k = (n + k - 1) div k * k"

lemma align_up_bounds:
  assumes "0 < k"
  shows "n \<le> align_up n k" "align_up n k < n + k" "k dvd align_up n k"
proof -
  have "align_up n k = n + k - 1 - (n + k - 1) mod k"
    by (simp add: align_up_def minus_mod_eq_div_mult)
  moreover have "0 \<le> (n + k - 1) mod k" "(n + k - 1) mod k < k" using assms by simp_all
  ultimately show "n \<le> align_up n k" "align_up n k < n + k" by linarith+
  show "k dvd align_up n k" by (simp add: align_up_def)
qed

lemma align_up_least: "0 < k \<Longrightarrow> n \<le> m \<Longrightarrow> k dvd m \<Longrightarrow> align_up n k \<le> m"
proof -
  assume k: "0 < k" and m: "n \<le> m" "k dvd m"
  then obtain q where q: "m = q * k" by (auto elim: dvdE simp: mult.commute)
  have "n + k - 1 \<le> (k - 1) + q * k" using m(1) q by simp
  then have "(n + k - 1) div k \<le> ((k - 1) + q * k) div k" using k by (intro zdiv_mono1)
  also have "\<dots> = q" using k by simp
  finally show ?thesis using k q by (simp add: align_up_def)
qed

lemma and_not_mask_int: "x AND NOT (mask k) = x div 2 ^ k * 2 ^ k" for x :: int
proof -
  have "x AND NOT (mask k) = push_bit k (drop_bit k x)" by (rule bit_eqI) (auto simp: bit_simps)
  then show ?thesis by (simp add: push_bit_eq_mult drop_bit_eq_div)
qed

lemma raw_align_power: "raw_align off (2 ^ k) = align_up off (2 ^ k)"
proof -
  have m: "(2 ^ k :: int) - 1 = mask k" by (simp add: mask_eq_exp_minus_1)
  have md: "off AND mask k = off mod 2 ^ k" by (simp add: take_bit_eq_mask [symmetric] take_bit_eq_mod)
  show ?thesis
  proof (cases "off mod 2 ^ k = 0")
    case True
    then have "(off + mask k) div 2 ^ k * 2 ^ k = off"
      by (simp add: mask_eq_exp_minus_1) (auto elim!: dvdE simp: dvd_eq_mod_eq_0 [symmetric])
    then show ?thesis using True by (simp add: raw_align_def m md align_up_def add_diff_eq [symmetric])
  next
    case False
    then show ?thesis
      by (simp add: raw_align_def m md align_up_def and_not_mask_int add_diff_eq [symmetric])
  qed
qed

text \<open>The size of a field in bytes, and where the fields end.\<close>

definition fld_bytes :: "raw_ty \<Rightarrow> int" where
  "fld_bytes f = rt_sz f div 8"

definition fld_ok :: "raw_ty \<Rightarrow> bool" where
  "fld_ok f \<longleftrightarrow>
     (case rt_kind f of INT_k \<Rightarrow> rt_sz f = 8 \<or> rt_sz f = 16 \<or> rt_sz f = 32 \<or> rt_sz f = 64
      | _ \<Rightarrow> rt_sz f = 32 \<or> rt_sz f = 64)"

primrec fields_end :: "int \<Rightarrow> raw_ty list \<Rightarrow> int" where
  "fields_end n [] = n"
| "fields_end n (f # fs) = fields_end (align_up n (fld_bytes f) + fld_bytes f) fs"

primrec field_offsets :: "int \<Rightarrow> raw_ty list \<Rightarrow> int list" where
  "field_offsets n [] = []"
| "field_offsets n (f # fs) =
     align_up n (fld_bytes f) # field_offsets (align_up n (fld_bytes f) + fld_bytes f) fs"

lemma fld_cases:
  assumes "fld_ok f"
  obtains k where "k \<le> 3" "fld_bytes f = 2 ^ k" "rt_sz f = 8 * 2 ^ k"
proof -
  have "rt_sz f = 8 \<or> rt_sz f = 16 \<or> rt_sz f = 32 \<or> rt_sz f = 64"
    using assms by (auto simp: fld_ok_def split: numkind.splits)
  then show thesis
    using that [of 0] that [of 1] that [of 2] that [of 3] by (auto simp: fld_bytes_def)
qed

lemma fld_pos: "fld_ok f \<Longrightarrow> 0 < fld_bytes f \<and> fld_bytes f \<le> 8"
proof (elim fld_cases)
  fix k :: nat assume k: "k \<le> 3" "fld_bytes f = 2 ^ k"
  have "(2::int) ^ k \<le> 2 ^ 3" using k(1) by (intro power_increasing) auto
  then show ?thesis using k(2) by simp
qed

lemma fld_szb: "fld_ok f \<Longrightarrow> uint (bitsToBytes (rt_sz f)) = fld_bytes f"
  by (auto simp: fld_ok_def fld_bytes_def bitsToBytes_def split: numkind.splits)

lemma fld_align: "fld_ok f \<Longrightarrow> raw_align n (fld_bytes f) = align_up n (fld_bytes f)"
  by (elim fld_cases) (simp add: raw_align_power)

lemma fields_end_ge: "list_all fld_ok fs \<Longrightarrow> n \<le> fields_end n fs"
proof (induction fs arbitrary: n)
  case (Cons f fs)
  then have "0 < fld_bytes f" using fld_pos by simp
  with Cons.IH [of "align_up n (fld_bytes f) + fld_bytes f"] Cons.prems
    align_up_bounds(1) [of "fld_bytes f" n] show ?case by simp
qed simp

lemma fields_end_le:
  "list_all fld_ok fs \<Longrightarrow> fields_end n fs < n + 16 * int (length fs) + 1"
proof (induction fs arbitrary: n)
  case (Cons f fs)
  then have "0 < fld_bytes f" "fld_bytes f \<le> 8" using fld_pos by simp_all
  with Cons.IH [of "align_up n (fld_bytes f) + fld_bytes f"] Cons.prems
    align_up_bounds(2) [of "fld_bytes f" n] show ?case by simp
qed simp

section \<open>What is written\<close>

primrec put_fields :: "u64 \<Rightarrow> int \<Rightarrow> (raw_ty \<times> rval) list \<Rightarrow> mem \<Rightarrow> mem" where
  "put_fields a n [] M = M"
| "put_fields a n (fr # frs) M =
     (let off = align_up n (fld_bytes (fst fr)); szb = fld_bytes (fst fr)
      in put_fields a (off + szb) frs (put (nat szb) (a + word_of_int off) (raw (snd fr)) M))"

text \<open>An argument that fits its field.\<close>

definition fits :: "raw_ty \<Rightarrow> rval \<Rightarrow> bool" where
  "fits f r \<longleftrightarrow>
     fld_ok f \<and>
     (case r of
        RP _ \<Rightarrow> rt_sz f = 64
      | RI w x \<Rightarrow> rt_kind f = INT_k \<and> int w = rt_sz f \<and> 0 \<le> x \<and> x < 2 ^ w
      | RFlt d x \<Rightarrow> rt_kind f \<noteq> INT_k \<and> rt_sz f = (if d then 64 else 32) \<and> 0 \<le> x \<and>
          x < (if d then 2 ^ 64 else 2 ^ 32)
      | RPair _ _ \<Rightarrow> False)"

lemma fits_bytes: "fits f r \<Longrightarrow> rbytes r = nat (fld_bytes f)"
  by (cases r) (auto simp: fits_def rbytes_def fld_bytes_def nat_div_distrib)

lemma fits_raw: "fits f r \<Longrightarrow> 0 \<le> raw r \<and> raw r < 256 ^ nat (fld_bytes f)"
proof (cases r)
  case (RI w x)
  assume f: "fits f r"
  then obtain k where k: "k \<le> 3" "fld_bytes f = 2 ^ k" "rt_sz f = 8 * 2 ^ k"
    by (auto simp: fits_def elim: fld_cases)
  have "int w = int (8 * 2 ^ k)" using f RI k(3) by (simp add: fits_def)
  then have "w = 8 * 2 ^ k" by (simp only: of_nat_eq_iff)
  then have "(2 :: int) ^ w = 256 ^ nat (fld_bytes f)" by (simp add: k(2) power_mult nat_power_eq)
  then show ?thesis using f RI by (simp add: fits_def raw_def)
qed (auto simp: fits_def raw_def fld_bytes_def uint64_less split: if_splits)

text \<open>The type of a field and of its argument.\<close>

lemma fits_type:
  assumes "fits f r" "\<nexists>p. r = RP p"
  shows "rtype r = numType (rt_kind f) (rt_sz f)" "rtype r \<noteq> PtrTy"
proof -
  show "rtype r = numType (rt_kind f) (rt_sz f)"
  proof (cases r)
    case (RI w x)
    then have "rt_sz f = int w" "rt_kind f = INT_k" "fld_ok f" using assms by (auto simp: fits_def)
    then show ?thesis using RI by (auto simp: numType_def iType_def fld_ok_def)
  qed (use assms in \<open>auto simp: fits_def numType_def fType_def\<close>)
  show "rtype r \<noteq> PtrTy" using assms by (cases r) (auto simp: fits_def)
qed

lemma fits_ptr_size: "fits f (RP p) \<Longrightarrow> primSize (numType (rt_kind f) (rt_sz f)) = 64"
  by (simp add: fits_def numType_def iType_def fType_def)

lemma step_raw_field:
  assumes k: "known s0 \<sigma>0 R M \<Gamma> s \<sigma>" "(v, r) \<in> set \<Gamma>" "(a, RP p) \<in> set \<Gamma>" and f: "fits f r"
    and Q: "\<And>t \<tau>. known s0 \<sigma>0 R (put (nat (fld_bytes f)) p (raw r) M) \<Gamma> t \<tau> \<Longrightarrow> Q () t \<tau>"
  shows "runs
    (if type_of v = mlValueTy then
       cbind (cget cx_intTy) (\<lambda>it.
       cthen (cassert (primSize (numType (rt_kind f) (rt_sz f)) = primSize it)
         ''expected native integer field'')
       (createStoreML v a))
     else
       cthen (cassert (type_of v = numType (rt_kind f) (rt_sz f)) ''type mismatch'')
       (createStore v a (bitsToBytes (rt_sz f)))) s \<sigma> Q"
proof (cases "\<exists>q. r = RP q")
  case True
  then obtain q where q: "r = RP q" by blast
  have b: "nat (fld_bytes f) = 8" using fits_bytes [OF f] by (simp add: q)
  have t: "type_of v = mlValueTy" using known_type [OF k(1,2)] q by simp
  show ?thesis
    unfolding t
    apply (simp, intro runs_bind, rule step_intTy [OF k(1)])
    apply (intro runs_then runs_assert)
     apply (use f q fits_ptr_size in simp)
    apply (rule step_createStoreML [OF k(1,2) _ k(3)], use q in simp)
    by (rule Q, simp add: b)
next
  case False
  note ty = fits_type [OF f False] known_type [OF k(1,2)]
  show ?thesis
    using ty
    apply (simp, intro runs_then runs_assert, simp)
    apply (rule step_createStore [OF k])
    by (rule Q, simp add: fits_bytes [OF f])
qed

lemma runs_raw_fields:
  assumes "known s0 \<sigma>0 R M \<Gamma> s \<sigma>" "(obj, RP p) \<in> set \<Gamma>"
    "list_all2 (\<lambda>fv r. (snd fv, r) \<in> set \<Gamma> \<and> fits (fst fv) r) fvs rs"
    "0 \<le> n" "fields_end n (map fst fvs) < 2 ^ 31"
    and "\<And>t \<tau>. known s0 \<sigma>0 R (put_fields p n (zip (map fst fvs) rs) M) \<Gamma> t \<tau> \<Longrightarrow>
      Q (fields_end n (map fst fvs)) t \<tau>"
  shows "runs (raw_fields obj n fvs) s \<sigma> Q"
  using assms
proof (induction fvs arbitrary: s \<sigma> n rs M)
  case Nil
  then show ?case by (simp add: runs_return)
next
  case (Cons fv fvs)
  obtain f v where fv: "fv = (f, v)" by (cases fv)
  obtain r rs' where rs: "rs = r # rs'" and r: "(v, r) \<in> set \<Gamma>" "fits f r"
    and rest: "list_all2 (\<lambda>fv r. (snd fv, r) \<in> set \<Gamma> \<and> fits (fst fv) r) fvs rs'"
    using Cons.prems(3) by (cases rs) (auto simp: fv)
  have f: "fld_ok f" using r(2) by (simp add: fits_def)
  define off where "off = align_up n (fld_bytes f)"
  have fs: "list_all fld_ok (map fst fvs)"
    using rest by (induction rule: list_all2_induct) (auto simp: fits_def)
  have e: "fields_end n (map fst (fv # fvs)) = fields_end (off + fld_bytes f) (map fst fvs)"
    by (simp add: fv off_def)
  have off: "0 \<le> off" "off + fld_bytes f \<le> fields_end n (map fst (fv # fvs))" "0 < fld_bytes f"
    using align_up_bounds(1) [of "fld_bytes f" n] Cons.prems(4) fld_pos [OF f] fields_end_ge [OF fs]
    unfolding e by (auto simp: off_def)
  note defs = fld_szb [OF f] fld_align [OF f]
  show ?case
    unfolding raw_fields.simps fv fst_conv snd_conv Let_def defs off_def [symmetric]
    apply (intro runs_bind, rule step_createGEP_byte [OF Cons.prems(1,2)])
      apply (use off Cons.prems(5) in linarith)
     apply (use off Cons.prems(5) in linarith)
    apply (intro runs_then, erule step_raw_field [where r = r and p = "p + word_of_int off"])
       apply (use r in simp, simp, rule r(2))
    apply (rule Cons.IH [where rs = rs'])
         apply (erule known_weaken [where \<Gamma>' = \<Gamma>], rule refl, rule refl, force)
        apply (rule Cons.prems(2), rule rest)
      apply (use off in simp)
     apply (use Cons.prems(5) e in simp)
    apply (use Cons.prems(6) e rs fv off_def in \<open>simp add: Let_def\<close>)
    done
qed

section \<open>Reading the fields back\<close>

lemma unat_word_of_int: "0 \<le> i \<Longrightarrow> i < 2 ^ 64 \<Longrightarrow> unat (word_of_int i :: u64) = nat i"
  using unat_offset [of "nat i"] by (simp add: nat_less_iff)

lemma put_elsewhere:
  assumes "0 \<le> off" "off + int k < 2 ^ 63"
    and "int (unat (x - p)) < off \<or> off + int k \<le> int (unat (x - p))"
  shows "put k (p + word_of_int off) v M x = M x"
proof (rule put_outside)
  define d where "d = unat (x - p)"
  have d: "x = p + of_nat d" "d < 2 ^ 64"
    using unsigned_less [of "x - p"] by (simp_all add: d_def)
  obtain m where m: "off = int m" using assms(1) by (rule nonneg_int_cases)
  have mk: "m + k < 2 ^ 63" using assms(2) by (simp add: m)
  have cases: "d < m \<or> m + k \<le> d" using assms(3) by (auto simp: m d_def [symmetric])
  show "k \<le> unat (x - (p + word_of_int off))"
  proof (cases "d < m")
    case True
    then have "x - (p + word_of_int off) = - of_nat (m - d)"
      by (simp add: d(1) m of_nat_diff)
    moreover have "unat (- of_nat (m - d) :: u64) = 2 ^ 64 - (m - d)"
      by (rule unat_neg) (use True mk in simp_all)
    moreover have "k \<le> 2 ^ 64 - (m - d)" using mk by simp
    ultimately show ?thesis by (simp only:)
  next
    case False
    then have "m + k \<le> d" using cases by blast
    moreover from this have "x - (p + word_of_int off) = of_nat (d - m)"
      by (simp add: d(1) m of_nat_diff)
    moreover have "unat (of_nat (d - m) :: u64) = d - m"
      by (rule unat_offset) (use d(2) in simp)
    ultimately show ?thesis by simp
  qed
qed

lemma put_fields_elsewhere:
  assumes "list_all (\<lambda>fr. fld_ok (fst fr)) frs" "0 \<le> n" "fields_end n (map fst frs) < 2 ^ 63"
    and "int (unat (x - p)) < n \<or> fields_end n (map fst frs) \<le> int (unat (x - p))"
  shows "put_fields p n frs M x = M x"
  using assms
proof (induction frs arbitrary: n M)
  case (Cons fr frs)
  define b where "b = fld_bytes (fst fr)"
  define off where "off = align_up n b"
  have b: "0 < b" using Cons.prems(1) fld_pos by (simp add: b_def)
  have off: "n \<le> off" using align_up_bounds(1) [OF b] by (simp add: off_def)
  have e: "fields_end n (map fst (fr # frs)) = fields_end (off + b) (map fst frs)"
    by (simp add: off_def b_def)
  have "list_all fld_ok (map fst frs)" using Cons.prems(1) by (simp add: list_all_iff)
  from fields_end_ge [OF this] have ge: "off + b \<le> fields_end n (map fst (fr # frs))"
    by (simp only: e)
  have "put_fields p (off + b) frs (put (nat b) (p + word_of_int off) (raw (snd fr)) M) x =
      put (nat b) (p + word_of_int off) (raw (snd fr)) M x"
    by (rule Cons.IH) (use Cons.prems e off b ge in auto)
  also have "\<dots> = M x"
    by (rule put_elsewhere) (use Cons.prems(2,3,4) off b ge in auto)
  finally show ?case by (simp add: Let_def off_def b_def)
qed simp

lemma field_offsets_bounds:
  assumes "list_all fld_ok fs" "i < length fs"
  shows "n \<le> field_offsets n fs ! i \<and> fld_bytes (fs ! i) dvd field_offsets n fs ! i \<and>
    field_offsets n fs ! i + fld_bytes (fs ! i) \<le> fields_end n fs"
  using assms
proof (induction fs arbitrary: n i)
  case (Cons f fs)
  then have "0 < fld_bytes f" using fld_pos by simp
  note b = align_up_bounds [OF this, of n] this
  show ?case
  proof (cases i)
    case 0
    then show ?thesis
      using b fields_end_ge [of fs "align_up n (fld_bytes f) + fld_bytes f"] Cons.prems by simp
  next
    case (Suc j)
    with Cons.IH [of j "align_up n (fld_bytes f) + fld_bytes f"] Cons.prems b show ?thesis by auto
  qed
qed simp

lemma put_fields_read:
  assumes "list_all2 fits fs rs" "0 \<le> n" "fields_end n fs < 2 ^ 63" "i < length fs"
  shows "get (nat (fld_bytes (fs ! i))) (p + word_of_int (field_offsets n fs ! i))
    (put_fields p n (zip fs rs) M) = raw (rs ! i)"
  using assms
proof (induction fs arbitrary: n i rs M)
  case (Cons f fs)
  obtain r rs' where rs: "rs = r # rs'" "fits f r" "list_all2 fits fs rs'"
    using Cons.prems(1) by (auto simp: list_all2_Cons1)
  define b where "b = fld_bytes f"
  define off where "off = align_up n b"
  have f: "fld_ok f" using rs(2) by (simp add: fits_def)
  have b: "0 < b" "b \<le> 8" using fld_pos [OF f] by (simp_all add: b_def)
  have off: "n \<le> off" using align_up_bounds(1) [OF b(1)] by (simp add: off_def)
  have e: "fields_end n (f # fs) = fields_end (off + b) fs" by (simp add: off_def b_def)
  have ok: "list_all fld_ok fs"
    using rs(3) by (induction rule: list_all2_induct) (auto simp: fits_def)
  have len: "map fst (zip fs rs') = fs" using rs(3) by (simp add: list_all2_lengthD)
  have okz: "list_all (\<lambda>fr. fld_ok (fst fr)) (zip fs rs')"
    using ok by (auto simp: list_all_iff dest: set_zip_leftD)
  have lim: "off + b < 2 ^ 63" using fields_end_ge [OF ok, of "off + b"] Cons.prems(3) e by simp
  let ?M = "put (nat b) (p + word_of_int off) (raw r) M"
  have eq: "put_fields p n (zip (f # fs) rs) M = put_fields p (off + b) (zip fs rs') ?M"
    by (simp add: rs Let_def off_def b_def)
  show ?case
  proof (cases i)
    case 0
    have "get (nat b) (p + word_of_int off) (put_fields p (off + b) (zip fs rs') ?M) =
        get (nat b) (p + word_of_int off) ?M"
    proof (rule get_cong)
      fix j assume j: "j < nat b"
      have "p + word_of_int off + of_nat j - p = (word_of_int (off + int j) :: u64)" by simp
      moreover have "unat (word_of_int (off + int j) :: u64) = nat (off + int j)"
        using Cons.prems(2) off lim j by (intro unat_word_of_int) auto
      ultimately have "int (unat (p + word_of_int off + of_nat j - p)) < off + b"
        using j Cons.prems(2) off by simp
      then show "put_fields p (off + b) (zip fs rs') ?M (p + word_of_int off + of_nat j) =
          ?M (p + word_of_int off + of_nat j)"
        by (intro put_fields_elsewhere okz) (use Cons.prems(2,3) off b e len in auto)
    qed
    also have "\<dots> = raw r"
      using fits_raw [OF rs(2)] b by (intro get_put_same) (auto simp: b_def)
    finally show ?thesis using 0 by (simp add: rs off_def b_def Let_def)
  next
    case (Suc j)
    have "get (nat (fld_bytes (fs ! j))) (p + word_of_int (field_offsets (off + b) fs ! j))
        (put_fields p (off + b) (zip fs rs') ?M) = raw (rs' ! j)"
      by (rule Cons.IH) (use rs Cons.prems(2,3,4) e off b Suc in auto)
    then show ?thesis using Suc by (simp add: rs off_def b_def Let_def)
  qed
qed simp

section \<open>\<open>RAW_RECORD\<close>\<close>

lemma step_desc_word:
  assumes "known s0 \<sigma>0 R M \<Gamma> s \<sigma>" "toUInt64 i = Some d"
    "\<And>v t \<tau>. known s0 \<sigma>0 R M ((v, RI 64 (uint d)) # \<Gamma>) t \<tau> \<Longrightarrow> Q v t \<tau>"
  shows "runs (desc_word i) s \<sigma> Q"
  using step_uConst [OF assms(1,3)] by (simp add: desc_word_def get_toUInt64_def cthe_def assms(2))

text \<open>How far the code moves the allocation pointer past the object: the size in bytes, as a number
  of words.\<close>

definition raw_bump :: "raw_ty list \<Rightarrow> int" where
  "raw_bump flds = align_up (fields_end 0 flds) 8"

lemma raw_bump_eq: "(fields_end 0 flds + (8 - 1)) AND NOT (8 - 1) = raw_bump flds"
  using and_not_mask_int [of "fields_end 0 flds + 7" 3]
  by (simp add: raw_bump_def align_up_def mask_eq_exp_minus_1)

lemma rbytes_word [simp]: "rbytes (RI 64 x) = 8" "raw (RI w x) = x"
  by (simp_all add: rbytes_def raw_def)

lemma runs_RAW_RECORD:
  assumes k: "known s0 \<sigma>0 R M \<Gamma> s \<sigma>"
    and R: "R ALLOC_PTR = Some ap" "(ap, RP p) \<in> set \<Gamma>"
    and d: "toUInt64 desc = Some d"
    and f: "length args = length flds" "list_all2 (\<lambda>v r. (v, r) \<in> set \<Gamma>) args rs" "list_all2 fits flds rs"
      "raw_bump flds < 2 ^ 31"
    and Q: "\<And>obj ap' t \<tau>. known s0 \<sigma>0 (R(ALLOC_PTR := Some ap'))
      (put_fields (p + 8) 0 (zip flds rs) (put 8 p (uint d) M))
      ((ap', RP (p + 8 + 8 * word_of_int (raw_bump flds))) # (obj, RP (p + 8)) # \<Gamma>) t \<tau> \<Longrightarrow> Q obj t \<tau>"
  shows "runs (RAW_RECORD_codegen desc flds args) s \<sigma> Q"
proof -
  have ok: "list_all fld_ok flds"
    using f(3) by (induction rule: list_all2_induct) (auto simp: fits_def)
  have z: "map fst (zip flds args) = flds" using f(1) by simp
  have e: "0 \<le> fields_end 0 flds" "fields_end 0 flds \<le> raw_bump flds"
    using fields_end_ge [OF ok] align_up_bounds(1) [of 8 "fields_end 0 flds"]
    by (auto simp: raw_bump_def)
  have fvs: "list_all2 (\<lambda>fv r. (snd fv, r) \<in> set \<Gamma> \<and> fits (fst fv) r) (zip flds args) rs"
    using f(1-3) by (auto simp: list_all2_conv_all_nth)
  show ?thesis
    unfolding RAW_RECORD_codegen_def
    apply (intro runs_bind, rule step_mlReg [OF k R(1)])
    apply (intro runs_then runs_assert, rule f(1))
    apply (intro runs_then runs_bind, rule step_desc_word [OF k d])
    apply (erule step_createStoreInt [where r = "RI 64 (uint d)" and p = p], simp, use R(2) in simp)
    apply (intro runs_bind, erule step_createGEP_i [where p = p], use R(2) in simp_all)
    apply (erule step_asMLValue [where r = "RP (p + 8)"], simp_all)
    apply (intro runs_bind)
    apply (erule runs_raw_fields [where p = "p + 8" and rs = rs])
        apply simp
       apply (rule list_all2_mono [OF fvs], simp)
      apply simp
     apply (use e f(4) z in simp)
    apply (intro runs_bind, erule step_wordSz)
    apply (simp only: z raw_bump_eq)
    apply (intro runs_then runs_bind, erule step_createGEP_i [where p = "p + 8"], simp)
      apply (use e f(4) in simp, use f(4) in simp)
    apply (erule step_setMLReg, use R in simp)
    apply (rule runs_return)
    apply (rule Q, erule known_weaken)
    by auto
qed

section \<open>\<open>RAW_ALLOC\<close>\<close>

lemma or_disjoint_bits:
  fixes p :: u64
  assumes "p AND mask 3 = 0" "3 \<le> k" "k < 64"
  shows "(p OR (2 ^ k - 8)) + 8 = (p AND NOT (mask k)) + 2 ^ k"
proof -
  have c: "(2 ^ k - 8 :: u64) = push_bit 3 (mask (k - 3))"
  proof -
    have "push_bit 3 (mask (k - 3) :: u64) = (2 ^ (k - 3) - 1) * 2 ^ 3"
      by (simp add: push_bit_eq_mult mask_eq_exp_minus_1)
    also have "\<dots> = 2 ^ (k - 3) * 2 ^ 3 - 8" by (simp add: algebra_simps)
    also have "(2 :: u64) ^ (k - 3) * 2 ^ 3 = 2 ^ k" using assms(2) by (simp only: power_add [symmetric] le_add_diff_inverse2)
    finally show ?thesis by simp
  qed
  have low: "3 \<le> n" if "bit p n" for n
  proof (rule ccontr)
    assume "\<not> 3 \<le> n"
    have "bit (p AND mask 3) n = bit (0 :: u64) n" by (simp only: assms(1))
    then show False using that \<open>\<not> 3 \<le> n\<close> by (simp add: bit_simps)
  qed
  have "p OR push_bit 3 (mask (k - 3)) = (p AND NOT (mask k)) OR push_bit 3 (mask (k - 3))"
    by (rule bit_word_eqI) (use low in \<open>force simp: bit_simps\<close>)
  also have "\<dots> = (p AND NOT (mask k)) + push_bit 3 (mask (k - 3))"
    by (rule disjunctive_add_eq_or [symmetric], rule bit_word_eqI) (auto simp: bit_simps)
  finally show ?thesis unfolding c [symmetric] by simp
qed

text \<open>Where the object of an alignment starts: its descriptor is one word before it.\<close>

definition raw_start :: "u64 \<Rightarrow> int \<Rightarrow> u64" where
  "raw_start p align = (if align > 8 then p OR word_of_int (align - 8) else p)"

lemma raw_start_power: "3 \<le> k \<Longrightarrow> p AND mask 3 = 0 \<Longrightarrow> raw_start p (2 ^ k) = p OR (2 ^ k - 8)"
proof (cases "k = 3")
  case False
  assume "3 \<le> k"
  with False have "(2 :: int) ^ 3 < 2 ^ k" by (intro power_strict_increasing) auto
  then show ?thesis by (simp add: raw_start_def)
qed (simp add: raw_start_def)

lemma raw_start_aligned:
  assumes "p AND mask 3 = 0" "3 \<le> k" "k < 64"
  shows "2 ^ k dvd unat (raw_start p (2 ^ k) + 8)"
    and "unat (raw_start p (2 ^ k) - p) \<le> 2 ^ k - 8"
proof -
  let ?c = "2 ^ k - 8 :: u64"
  have s: "raw_start p (2 ^ k) = p OR ?c" using assms by (intro raw_start_power) auto
  let ?a = "p AND NOT (mask k)"
  have "take_bit k ?a = 0" by (rule bit_word_eqI) (auto simp: bit_simps)
  then have "take_bit k (unat ?a) = 0" by (metis unat_0 unsigned_take_bit_eq)
  then have a: "2 ^ k dvd unat ?a" by (simp add: take_bit_eq_mod dvd_eq_mod_eq_0)
  have "unat (?a + 2 ^ k) = (unat ?a + unat (2 ^ k :: u64)) mod 2 ^ 64"
    by (simp add: unat_word_ariths)
  moreover have "unat (2 ^ k :: u64) = 2 ^ k" using assms(3) by (simp add: unat_pow2)
  moreover have "(2 :: nat) ^ k dvd 2 ^ 64" using assms(3) by (intro le_imp_power_dvd) simp
  ultimately have "2 ^ k dvd unat (?a + 2 ^ k)" using a by (simp only: dvd_mod dvd_add dvd_refl)
  then show "2 ^ k dvd unat (raw_start p (2 ^ k) + 8)"
    unfolding s or_disjoint_bits [OF assms] .
  have "p OR ?c = p OR (?c AND NOT p)" by (rule bit_word_eqI) (auto simp: bit_simps)
  also have "\<dots> = p + (?c AND NOT p)"
    by (rule disjunctive_add_eq_or [symmetric], rule bit_word_eqI) (auto simp: bit_simps)
  finally have "raw_start p (2 ^ k) - p = ?c AND NOT p" by (simp add: s)
  moreover have "?c AND NOT p \<le> ?c" by (rule word_and_le2)
  moreover have "unat ?c = 2 ^ k - 8"
  proof -
    have "(2 :: nat) ^ 3 \<le> 2 ^ k" using assms(2) by (intro power_increasing) auto
    moreover have "(2 :: nat) ^ k < 2 ^ 64" using assms(3) by (intro power_strict_increasing) auto
    ultimately have "?c = of_nat (2 ^ k - 8)" "(2 :: nat) ^ k - 8 < 2 ^ 64"
      by (simp_all add: of_nat_diff)
    then show ?thesis by (simp only: unat_offset)
  qed
  ultimately show "unat (raw_start p (2 ^ k) - p) \<le> 2 ^ k - 8"
    by (metis word_le_nat_alt)
qed

lemma step_raw_start:
  assumes k: "known s0 \<sigma>0 R M \<Gamma> s \<sigma>" "(ap, RP p) \<in> set \<Gamma>"
    and Q: "\<And>v t \<tau>. known s0 \<sigma>0 R M ((v, RP (raw_start p align)) # \<Gamma>) t \<tau> \<Longrightarrow> Q v t \<tau>"
  shows "runs
    (if align > 8 then
       cbind (cbind (createPtrToInt ap) (\<lambda>i.
              cbind (uConst (word_of_int (align - 8))) (createOr i)))
         createIntToPtr
     else creturn ap) s \<sigma> Q"
proof (cases "align > 8")
  case True
  let ?c = "word_of_int (align - 8) :: u64"
  have orr: "bin_int OpOr 64 (raw (RI 64 (uint p))) (raw (RI 64 (uint ?c))) = Some (uint (p OR ?c))"
    by (simp only: bin_int_def raw_def uint_or rval.case binop.case)
  have w: "ml_word (RI 64 (uint x))" for x :: u64
    by (simp add: ml_word_def uint64_less)
  show ?thesis
    unfolding createOr_def
    apply (simp only: True if_True)
    apply (intro runs_bind, rule step_toInt [OF k])
    apply (intro runs_bind, erule step_uConst)
    apply (erule step_createBin [OF _ _ w _ w orr], simp, simp)
    apply (erule step_toPtr [where x = "uint (p OR ?c)"], simp, simp, simp add: uint64_less)
    apply (rule Q, erule known_weaken)
    by (auto simp: raw_start_def True)
next
  case False
  have "known s0 \<sigma>0 R M ((ap, RP p) # \<Gamma>) s \<sigma>" using k by (auto simp: known_def)
  then show ?thesis
    using Q [of ap s \<sigma>] False by (simp add: raw_start_def runs_return)
qed

lemma runs_RAW_ALLOC:
  assumes k: "known s0 \<sigma>0 R M \<Gamma> s \<sigma>"
    and R: "R ALLOC_PTR = Some ap" "(ap, RP p) \<in> set \<Gamma>"
    and d: "toUInt64 desc = Some d"
    and len: "0 \<le> len" "len + 8 < 2 ^ 31"
    and Q: "\<And>obj ap' t \<tau>. known s0 \<sigma>0 (R(ALLOC_PTR := Some ap'))
      (put 8 (raw_start p align) (uint d) M)
      ((ap', RP (raw_start p align + word_of_int (len + 8))) #
       (obj, RP (raw_start p align + 8)) # \<Gamma>) t \<tau> \<Longrightarrow> Q obj t \<tau>"
  shows "runs (RAW_ALLOC_codegen (Some desc) align len args) s \<sigma> Q"
proof -
  let ?p = "raw_start p align"
  have w: "ml_word (RI 64 (uint x))" for x :: u64
    by (simp add: ml_word_def uint64_less)
  show ?thesis
    unfolding RAW_ALLOC_codegen_def
    apply (intro runs_bind, rule step_mlReg [OF k R(1)])
    apply (intro runs_bind, rule step_wordSz [OF k])
    apply (simp only: option.case)
    apply (intro runs_bind, rule step_raw_start [OF k R(2)])
    apply (intro runs_then runs_bind, erule step_desc_word [OF _ d])
    apply (erule step_createStoreML [where r = "RI 64 (uint d)" and p = "?p"], simp, rule w, simp)
    apply (rule runs_return)
    apply (intro runs_bind, erule step_createGEP_i [where p = "?p"], simp, simp, simp)
    apply (erule step_bitcast [where p = "?p + 8"], simp)
    apply (intro runs_then runs_bind, erule step_createGEP_byte [where p = "?p"], simp)
      apply (use len in simp, use len in simp)
    apply (erule step_bitcast [where p = "?p + word_of_int (len + 8)"], simp)
    apply (erule step_setMLReg, use R in simp)
    apply (rule runs_return)
    apply (rule Q, erule known_weaken)
    by auto
qed

end
