(* ===== verification/Sample_State.thy ===== *)
theory Sample_State
  imports Sample_Unit Arith_Code Store_List Raw_Alloc
begin

text \<open>
  A state of the generator and of the machine at which the theorems about generated code are
  applied: x86-64 without constant folding, one block, and every register in an argument of the
  function.
\<close>

definition work_regs :: "value CMRegState" where
  "work_regs = \<lparr>rs_basePtr = None, rs_val = (\<lambda>r. Some (VArg (reg_num r) PtrTy))\<rparr>"

definition work_ctx :: cgctx where
  "work_ctx = sample_ctx\<lparr>ir_module := Some 0, ir_nmodules := 1, ir_nblocks := 1,
     ir_insert := Some 0, cx_curFn := Some 0, cx_regState := work_regs\<rparr>"

text \<open>Arguments 0 to 4 are the registers, 5 a pointer, 6 and 7 are numbers and 8 a
  floating-point number.\<close>

definition work_state :: rstate where
  "work_state =
     \<lparr>rv_inst = (\<lambda>_. None),
      rv_arg = (\<lambda>i. Some (if i < 6 then RP (4096 * (of_nat i + 1))
        else if i = 6 then RI 64 5 else if i = 7 then RI 64 (2 ^ 63) else RFlt True (2 ^ 63))),
      rv_sp = 0, rv_mem = (\<lambda>_. 0)\<rparr>"

lemma work_ctx_simps [simp]:
  "ctx_ok work_ctx" "ir_insert work_ctx = Some 0" "ir_nblocks work_ctx = 1"
  "cx_regState work_ctx = work_regs" "cx_target work_ctx = X86_64Info sample_build"
  "cx_regInfo work_ctx = CMRegs_new (Some (X86_64Info sample_build))"
  "cx_curFn work_ctx = Some 0" "ir_module work_ctx = Some 0"
  by (simp_all add: ctx_ok_def work_ctx_def sample_ctx_def Context_init_def X86_64Info_def)

lemma work_regs_simps [simp]: "rs_get work_regs r = Some (VArg (reg_num r) PtrTy)"
  by (simp add: work_regs_def rs_get_def)

lemma work_holds [simp]:
  "i < 6 \<Longrightarrow> holds work_ctx work_state (VArg i PtrTy) (RP (4096 * of_nat i + 4096))"
  "holds work_ctx work_state (VArg 6 i64Ty) (RI 64 5)"
  "holds work_ctx work_state (VArg 7 i64Ty) (RI 64 9223372036854775808)"
  "holds work_ctx work_state (VArg 8 DoubleTy) (RFlt True 9223372036854775808)"
  by (simp_all add: holds_def work_state_def scoped_def)

lemma work_overflow_ok: "overflow_ok work_ctx"
  by (simp add: overflow_ok_def sp_ok_def phis_ok_def)
    (simp add: work_ctx_def sample_ctx_def Context_init_def X86_64Info_def isIntegerTy_def)

lemma work_caches_ok: "caches_ok work_ctx"
  by (simp add: caches_ok_def) (simp add: work_ctx_def sample_ctx_def Context_init_def)

end
