(* ===== verification/Exp_Sem.thy ===== *)
theory Exp_Sem
  imports Test_Code
begin

text \<open>
  The meaning of the expressions of the CFG language, over an environment for the variables and the
  memory.  It is stated by arithmetic on numbers and does not refer to the code generator.
  Labels, floating-point arithmetic and the registers of the runtime system have no meaning here.
\<close>

section \<open>Operands\<close>

text \<open>A value as a number of \<open>w\<close> bits; an ML value is a number of 64 bits.\<close>

definition as_int :: "nat \<Rightarrow> rval \<Rightarrow> int option" where
  "as_int w r =
     (case r of
        RI v x \<Rightarrow> if v = w \<and> 0 \<le> x \<and> x < 2 ^ w then Some x else None
      | RP p \<Rightarrow> if w = 64 then Some (uint p) else None
      | _ \<Rightarrow> None)"

text \<open>A value as an address, and as an index, which is signed.\<close>

definition as_adr :: "rval \<Rightarrow> u64 option" where
  "as_adr r = (if ml_word r then Some (word_of_int (raw r)) else None)"

definition as_index :: "rval \<Rightarrow> u64 option" where
  "as_index r = (case r of RI w x \<Rightarrow> Some (word_of_int (sval w x)) | _ \<Rightarrow> None)"

section \<open>Operators\<close>

definition shift_ok :: "nat \<Rightarrow> int \<Rightarrow> bool" where
  "shift_ok w k \<longleftrightarrow> k < int w"

text \<open>Binary operators on numbers of \<open>w\<close> bits.\<close>

definition int_op :: "pureop \<Rightarrow> nat \<Rightarrow> int \<Rightarrow> int \<Rightarrow> int option" where
  "int_op op w x y =
     (let sx = sval w x; sy = sval w y
      in case op of
           ADD \<Rightarrow> Some ((x + y) mod 2 ^ w)
         | SUB \<Rightarrow> Some ((x - y) mod 2 ^ w)
         | MUL \<Rightarrow> Some ((x * y) mod 2 ^ w)
         | SDIV \<Rightarrow> if div_defined w sx sy then Some (quotient sx sy mod 2 ^ w) else None
         | SREM \<Rightarrow> if div_defined w sx sy then Some ((sx - sy * quotient sx sy) mod 2 ^ w) else None
         | UDIV \<Rightarrow> if y \<noteq> 0 then Some (x div y) else None
         | UREM \<Rightarrow> if y \<noteq> 0 then Some (x mod y) else None
         | SHL \<Rightarrow> if shift_ok w y then Some ((x * 2 ^ nat y) mod 2 ^ w) else None
         | ASHR \<Rightarrow> if shift_ok w y then Some ((sx div 2 ^ nat y) mod 2 ^ w) else None
         | LSHR \<Rightarrow> if shift_ok w y then Some (x div 2 ^ nat y) else None
         | ORB \<Rightarrow> Some (x OR y)
         | XORB \<Rightarrow> Some (x XOR y)
         | ANDB \<Rightarrow> Some (x AND y)
         | _ \<Rightarrow> None)"

text \<open>Rotation by \<open>k\<close> modulo the width.\<close>

definition rotate_left :: "nat \<Rightarrow> int \<Rightarrow> int \<Rightarrow> int" where
  "rotate_left w x k = (let n = nat (k mod int w) in (x * 2 ^ n + x div 2 ^ (w - n)) mod 2 ^ w)"

definition rotate_right :: "nat \<Rightarrow> int \<Rightarrow> int \<Rightarrow> int" where
  "rotate_right w x k = (let n = nat (k mod int w) in (x div 2 ^ n + x * 2 ^ (w - n)) mod 2 ^ w)"

definition unary_op :: "pureop \<Rightarrow> nat \<Rightarrow> int \<Rightarrow> int option" where
  "unary_op op w x =
     (case op of
        CNTPOP \<Rightarrow> Some (popcount w x)
      | CNTLZ \<Rightarrow> Some (zeros_above w x)
      | CNTTZ \<Rightarrow> Some (zeros_below w x)
      | _ \<Rightarrow> None)"

definition arith_eval :: "pureop \<Rightarrow> nat \<Rightarrow> rval list \<Rightarrow> rval option" where
  "arith_eval op w rs =
     (case rs of
        [RI v x] \<Rightarrow>
          if v = w \<and> (w = 32 \<or> w = 64) then map_option (RI w) (unary_op op w x) else None
      | [a, b] \<Rightarrow>
          if op = ROTL \<or> op = ROTR then
            (case (a, b) of
               (RI u x, RI v k) \<Rightarrow>
                 if u = w \<and> v = w \<and> (w = 32 \<or> w = 64) \<and> 0 \<le> x \<and> x < 2 ^ w then
                   Some (RI w (if op = ROTL then rotate_left w x k else rotate_right w x k))
                 else None
             | _ \<Rightarrow> None)
          else
            (case (as_int w a, as_int w b) of
               (Some x, Some y) \<Rightarrow> map_option (RI w) (int_op op w x y)
             | _ \<Rightarrow> None)
      | _ \<Rightarrow> None)"

section \<open>Loads\<close>

text \<open>The bytes of an element, and the element at an address.\<close>

definition elem_bytes :: "int \<Rightarrow> u64" where
  "elem_bytes sz = of_nat (nat sz div 8)"

definition elem_at :: "numkind \<Rightarrow> int \<Rightarrow> u64 \<Rightarrow> mem \<Rightarrow> rval option" where
  "elem_at kind sz a M =
     (if kind = INT_k then
        if int_size sz then Some (RI (nat sz) (get (nat sz div 8) a M)) else None
      else
        if sz = 32 \<or> sz = 64 then Some (RFlt (sz = 64) (get (nat sz div 8) a M)) else None)"

definition word_at :: "u64 \<Rightarrow> mem \<Rightarrow> rval" where
  "word_at a M = RP (word_of_int (get 8 a M))"

definition subscript_eval :: "mem \<Rightarrow> rval list \<Rightarrow> rval option" where
  "subscript_eval M rs =
     (case rs of
        [a, i] \<Rightarrow>
          (case (as_adr a, as_adr i) of
             (Some p, Some k) \<Rightarrow> Some (word_at (p + 8 * k) M)
           | _ \<Rightarrow> None)
      | _ \<Rightarrow> None)"

definition raw_eval :: "mem \<Rightarrow> u64 \<Rightarrow> numkind \<Rightarrow> int \<Rightarrow> rval list \<Rightarrow> rval option" where
  "raw_eval M scale kind sz rs =
     (case rs of
        [a, i] \<Rightarrow>
          (case (as_adr a, as_index i) of
             (Some p, Some k) \<Rightarrow> elem_at kind sz (p + scale * k) M
           | _ \<Rightarrow> None)
      | _ \<Rightarrow> None)"

section \<open>Expressions\<close>

definition pure_eval :: "mem \<Rightarrow> pure \<Rightarrow> rval list \<Rightarrow> rval option" where
  "pure_eval M op rs =
     (case (op, rs) of
        (PURE_ARITH a sz, _) \<Rightarrow> if int_size sz then arith_eval a (nat sz) rs else None
      | (EXTEND sg from to, [RI w x]) \<Rightarrow>
          if int_size to \<and> w = nat from \<and> 0 \<le> x \<and> x < 2 ^ w \<and> 0 < w \<and> w \<le> nat to then
            Some (RI (nat to) ((if sg then sval w x else x) mod 2 ^ nat to))
          else None
      | (EXTEND sg from to, [RP p]) \<Rightarrow> if \<not> sg \<and> to = 64 then Some (RP p) else None
      | (TRUNC from to, [RI w x]) \<Rightarrow>
          if int_size to \<and> w = nat from \<and> nat to < w then Some (RI (nat to) (x mod 2 ^ nat to))
          else None
      | (FLOAT_TO_BITS sz, [RFlt d x]) \<Rightarrow>
          if sz = (if d then 64 else 32) then Some (RI (nat sz) x) else None
      | (BITS_TO_FLOAT sz, [RI w x]) \<Rightarrow>
          if w = nat sz \<and> (sz = 32 \<or> sz = 64) then Some (RFlt (sz = 64) x) else None
      | (PURE_SUBSCRIPT, _) \<Rightarrow> subscript_eval M rs
      | (PURE_RAW_SUBSCRIPT kind sz, _) \<Rightarrow> raw_eval M (elem_bytes sz) kind sz rs
      | (RAW_SELECT kind sz offset, [a]) \<Rightarrow>
          (case as_adr a of
             Some p \<Rightarrow> elem_at kind sz (p + word_of_int offset) M
           | None \<Rightarrow> None)
      | _ \<Rightarrow> None)"

definition looker_eval :: "mem \<Rightarrow> looker \<Rightarrow> rval list \<Rightarrow> rval option" where
  "looker_eval M op rs =
     (case op of
        DEREF \<Rightarrow> (case rs of [a] \<Rightarrow> map_option (\<lambda>p. word_at p M) (as_adr a) | _ \<Rightarrow> None)
      | SUBSCRIPT \<Rightarrow> subscript_eval M rs
      | RAW_SUBSCRIPT kind sz \<Rightarrow> raw_eval M (elem_bytes sz) kind sz rs
      | RAW_LOAD kind sz \<Rightarrow> raw_eval M 1 kind sz rs
      | _ \<Rightarrow> None)"

text \<open>The least 64-bit integer has no meaning: its conversion overflows in the source
  (\<open>toInt64\<close>).\<close>

fun exp_eval :: "(lvar \<Rightarrow> rval option) \<Rightarrow> mem \<Rightarrow> exp \<Rightarrow> rval option" where
  "exp_eval \<rho> M (VAR x) = \<rho> x"
| "exp_eval \<rho> M (LABEL lab) = None"
| "exp_eval \<rho> M (NUM iv sz) =
     (if int_size sz \<and> canonical iv \<and> - (2 ^ 63) < int_val iv \<and> int_val iv < 2 ^ 64 then
        Some (RI (nat sz) (int_val iv mod 2 ^ nat sz))
      else None)"
| "exp_eval \<rho> M (LOOKER op args) =
     (case those (map (exp_eval \<rho> M) args) of Some rs \<Rightarrow> looker_eval M op rs | None \<Rightarrow> None)"
| "exp_eval \<rho> M (PURE op args) =
     (case those (map (exp_eval \<rho> M) args) of Some rs \<Rightarrow> pure_eval M op rs | None \<Rightarrow> None)"
| "exp_eval \<rho> M (SELECT idx e) =
     (if - (2 ^ 31) \<le> idx \<and> idx < 2 ^ 31 then
        (case exp_eval \<rho> M e of
           Some r \<Rightarrow> map_option (\<lambda>p. word_at (p + 8 * word_of_int idx) M) (as_adr r)
         | None \<Rightarrow> None)
      else None)"

end
