(* ===== verification/Exp_Code.thy ===== *)
theory Exp_Code
  imports Exp_Sem Arith_Code
begin

unbundle bit_operations_syntax

text \<open>
  The code of an expression computes its value: for every expression with a meaning in
  \<open>Exp_Sem\<close>, code generation succeeds and the emitted instructions give that value, without
  changing the memory or the registers.
\<close>

section \<open>Numbers of instructions\<close>

text \<open>The instructions of the blocks have been numbered before; expressions keep that and leave
  registers and variables alone.\<close>

definition numbers_ok :: "cgctx \<Rightarrow> bool" where
  "numbers_ok s \<longleftrightarrow> (\<forall>b. \<forall>(n, i)\<in>set (bb_insts (ir_blocks s b)). n < ir_nvals s)"

definition tidy :: "cgctx \<Rightarrow> cgctx \<Rightarrow> bool" where
  "tidy s t \<longleftrightarrow> cx_vMap t = cx_vMap s \<and> (numbers_ok s \<longrightarrow> numbers_ok t)"

lemma set_invariant_number [simp]: "fst (set_invariant v ni) = fst ni"
  by (cases v; cases ni; cases "snd ni") (auto simp: set_invariant_def)

lemma numbers_ok_cong:
  "ir_blocks t = ir_blocks s \<Longrightarrow> ir_nvals t = ir_nvals s \<Longrightarrow> numbers_ok t = numbers_ok s"
  by (simp add: numbers_ok_def)

lemma tidy_same:
  "ir_blocks t = ir_blocks s \<Longrightarrow> ir_nvals t = ir_nvals s \<Longrightarrow> cx_vMap t = cx_vMap s \<Longrightarrow> tidy s t"
  using numbers_ok_cong [of t s] by (simp add: tidy_def)

lemma tidy_append: "keeps tidy (ir_append i)"
  unfolding keeps_def
proof (intro allI impI)
  fix s t :: cgctx and x assume "ir_append i s = Inr (x, t)"
  then obtain b where t: "t = s\<lparr>ir_nvals := ir_nvals s + 1, ir_blocks := (ir_blocks s)
      (b := (ir_blocks s b)\<lparr>bb_insts := bb_insts (ir_blocks s b) @ [(ir_nvals s, i)]\<rparr>)\<rparr>"
    by (auto simp: ir_append_def Let_def split: option.splits)
  have "numbers_ok t" if "numbers_ok s"
    unfolding numbers_ok_def
  proof (intro allI ballI, clarify)
    fix c n j assume "(n, j) \<in> set (bb_insts (ir_blocks t c))"
    then have "(n, j) \<in> set (bb_insts (ir_blocks s c)) \<or> n = ir_nvals s"
      by (auto simp: t split: if_splits)
    then show "n < ir_nvals t" using that by (fastforce simp: numbers_ok_def t)
  qed
  then show "tidy s t" by (simp add: tidy_def t)
qed

interpretation tidy: expr_frame tidy
proof unfold_locales
  show "tidy s u" if "tidy s t" "tidy t u" for s t u using that by (simp add: tidy_def)
  show "keeps tidy (ir_append i)" for i by (rule tidy_append)
  show "keeps tidy (setInvarianteLoadMD v)" for v
    unfolding keeps_def
  proof (intro allI impI)
    fix s x t assume "setInvarianteLoadMD v s = Inr (x, t)"
    then obtain b where t: "t = s\<lparr>ir_blocks := (ir_blocks s)(b := (ir_blocks s b)
        \<lparr>bb_insts := map (set_invariant v) (bb_insts (ir_blocks s b))\<rparr>)\<rparr>"
      by (auto simp: setInvarianteLoadMD_def GetInsertBlock_def cg_simps cbind_def cthe_def
          split: option.splits)
    have "numbers_ok t" if "numbers_ok s"
      unfolding numbers_ok_def
    proof (intro allI ballI, clarify)
      fix c n i assume "(n, i) \<in> set (bb_insts (ir_blocks t c))"
      then have "n \<in> fst ` set (bb_insts (ir_blocks t c))" by force
      also have "fst ` set (bb_insts (ir_blocks t c)) = fst ` set (bb_insts (ir_blocks s c))"
        by (cases "c = b") (simp_all add: t image_image)
      finally have "n \<in> fst ` set (bb_insts (ir_blocks s c))" .
      then show "n < ir_nvals t" using that by (fastforce simp: numbers_ok_def t)
    qed
    then show "tidy s t" by (simp add: tidy_def t)
  qed
  show "keeps tidy (intr_get i)" for i
    by (auto simp: keeps_def intr_get_def current_module_def cg_simps cbind_def cthe_def
        split: option.splits if_splits intro!: tidy_same)
  show "keeps tidy initSPAccess"
    by (auto simp: keeps_def initSPAccess_def current_module_def cg_simps cbind_def cthe_def
        split: option.splits if_splits intro!: tidy_same)
  show "keeps tidy (createGlobalAlias ty n v)" for ty n v
    by (auto simp: keeps_def createGlobalAlias_def current_module_def cg_simps cbind_def
        cthe_def split: option.splits intro!: tidy_same)
qed (simp add: tidy_def)

lemma runs_keeps:
  "runs m s \<sigma> Q \<Longrightarrow> keeps P m \<Longrightarrow> runs m s \<sigma> (\<lambda>x t \<tau>. Q x t \<tau> \<and> P s t)"
  unfolding runs_def by (meson keepsD)

section \<open>Rules for the builder\<close>

lemma step_bin:
  assumes k: "known s0 \<sigma>0 R M \<Gamma> s \<sigma>" "(a, RI w x) \<in> set \<Gamma>" "(b, RI w y) \<in> set \<Gamma>"
    and z: "bin_int op w x y = Some z"
    and Q: "\<And>v t \<tau>. known s0 \<sigma>0 R M ((v, RI w z) # \<Gamma>) t \<tau> \<Longrightarrow> Q v t \<tau>"
  shows "runs (createBin op a b) s \<sigma> Q"
proof -
  note h = holdsD [OF known_holds [OF k(1,2)]] holdsD [OF known_holds [OF k(1,3)]]
  have "createBin op a b = ir_create (BinOp op a b)"
    by (simp add: createBin_def known_asInt [OF k(1,2)] known_asInt [OF k(1,3)])
  moreover have "runs (ir_create (BinOp op a b)) s \<sigma> Q"
    by (rule step_create [OF k(1), where r = "RI w z"]) (use h z Q in auto)
  ultimately show ?thesis by simp
qed

lemma step_cast:
  assumes k: "known s0 \<sigma>0 R M \<Gamma> s \<sigma>" "(v, r) \<in> set \<Gamma>"
    and c: "rtype r = t \<or> cast_val op r t = Some r'" "t = rtype r'" "rtype r = t \<Longrightarrow> r' = r"
    and Q: "\<And>v t \<tau>. known s0 \<sigma>0 R M ((v, r') # \<Gamma>) t \<tau> \<Longrightarrow> Q v t \<tau>"
  shows "runs (CreateCast op v t) s \<sigma> Q"
proof (cases "type_of v = t")
  case True
  have h: "holds s \<sigma> v r" using k by (rule known_holds)
  then have "r' = r" using c(3) holdsD [OF h] True by simp
  then have "known s0 \<sigma>0 R M ((v, r') # \<Gamma>) s \<sigma>" using k h by (simp add: known_def)
  with Q True show ?thesis by (simp add: CreateCast_def runs_return)
next
  case False
  then have "cast_val op r t = Some r'" using c known_type [OF k] by auto
  then show ?thesis
    using runs_cast [OF known_ok [OF k(1)] known_holds [OF k] _ c(2,3)] Q known_calm [OF k(1)] by blast
qed

lemma step_gep:
  assumes k: "known s0 \<sigma>0 R M \<Gamma> s \<sigma>" "(b, RP p) \<in> set \<Gamma>" "(i, RI w x) \<in> set \<Gamma>"
    and Q: "\<And>v t \<tau>. known s0 \<sigma>0 R M
      ((v, RP (p + of_nat (ty_bytes ty) * word_of_int (sval w x))) # \<Gamma>) t \<tau> \<Longrightarrow> Q v t \<tau>"
  shows "runs (ir_create (GEP ty b i)) s \<sigma> Q"
  by (rule step_create [OF k(1), OF _ _ _ Q])
    (use holdsD [OF known_holds [OF k(1,2)]] holdsD [OF known_holds [OF k(1,3)]] in auto)

text \<open>The value of a type in memory.\<close>

definition loaded :: "lty \<Rightarrow> u64 \<Rightarrow> mem \<Rightarrow> rval option" where
  "loaded t p M =
     (case t of
        PtrTy \<Rightarrow> Some (RP (word_of_int (get 8 p M)))
      | IntTy w \<Rightarrow> Some (RI w (get (w div 8) p M))
      | FloatTy \<Rightarrow> Some (RFlt False (get 4 p M))
      | DoubleTy \<Rightarrow> Some (RFlt True (get 8 p M))
      | _ \<Rightarrow> None)"

lemma exec_load:
  assumes "veval \<sigma> a = Some (RP p)" "loaded t p (rv_mem \<sigma>) = Some r"
  shows "exec1 \<sigma> (n, Load t a al iv) = Some (\<sigma>\<lparr>rv_inst := (rv_inst \<sigma>)(n := Some r)\<rparr>)"
    and "rtype r = t"
  using assms by (auto simp: loaded_def split: lty.splits)

lemma step_load:
  assumes k: "known s0 \<sigma>0 R M \<Gamma> s \<sigma>" "(a, RP p) \<in> set \<Gamma>" "loaded t p M = Some r"
    and Q: "\<And>v t \<tau>. known s0 \<sigma>0 R M ((v, r) # \<Gamma>) t \<tau> \<Longrightarrow> Q v t \<tau>"
  shows "runs (ir_append (Load t a al iv)) s \<sigma> Q"
proof -
  obtain u where u: "ir_append (Load t a al iv) s = Inr (VInst (ir_nvals s) t, u)"
    "emits s [(ir_nvals s, Load t a al iv)] u" "ir_nvals u = ir_nvals s + 1"
    "cx_regState u = cx_regState s" "still s u"
    using append_result [OF known_ok [OF k(1)], of "Load t a al iv"] by auto
  define \<tau> where "\<tau> = \<sigma>\<lparr>rv_inst := (rv_inst \<sigma>)(ir_nvals s := Some r)\<rparr>"
  have h: "veval \<sigma> a = Some (RP p)" using holdsD [OF known_holds [OF k(1,2)]] by simp
  have m: "rv_mem \<sigma> = M" using k(1) by (simp add: known_def)
  note ex = exec_load [OF h, unfolded m, OF k(3)]
  have "later s \<sigma> u \<tau>" using u(3,5) by (simp add: later_def \<tau>_def)
  moreover have "holds u \<tau> (VInst (ir_nvals s) t) r"
    using u(3) ex(2) by (simp add: holds_def scoped_def \<tau>_def)
  ultimately have "known s0 \<sigma>0 R M ((VInst (ir_nvals s) t, r) # \<Gamma>) u \<tau>"
    by (intro known_calm [OF k(1)]) (use u in \<open>simp_all add: \<tau>_def\<close>)
  moreover have "exec \<sigma> [(ir_nvals s, Load t a al iv)] = Some \<tau>" using ex(1) by (simp add: \<tau>_def)
  ultimately show ?thesis using u(1,2) Q unfolding runs_def by blast
qed

text \<open>A load that is marked as invariant: the mark reaches only the new load.\<close>

lemma set_invariant_other: "fst ni \<noteq> n \<Longrightarrow> set_invariant (VInst n t) ni = ni"
  by (cases ni; cases "snd ni") (auto simp: set_invariant_def)

lemma step_invariant_load:
  assumes k: "known s0 \<sigma>0 R M \<Gamma> s \<sigma>" "(a, RP p) \<in> set \<Gamma>" "numbers_ok s"
    and Q: "\<And>v t \<tau>. known s0 \<sigma>0 R M ((v, word_at p M) # \<Gamma>) t \<tau> \<Longrightarrow> Q v t \<tau>"
  shows "runs (cbind (createLoad PtrTy a) setInvarianteLoadMD) s \<sigma> Q"
proof -
  let ?n = "ir_nvals s" and ?i = "Load PtrTy a None True"
  obtain c where c: "ir_insert s = Some c" using known_ok [OF k(1)] by (auto simp: ctx_ok_def)
  define u where "u = s\<lparr>ir_nvals := ?n + 1, ir_blocks := (ir_blocks s)
    (c := (ir_blocks s c)\<lparr>bb_insts := bb_insts (ir_blocks s c) @ [(?n, ?i)]\<rparr>)\<rparr>"
  have old: "map (set_invariant (VInst ?n PtrTy)) (bb_insts (ir_blocks s c)) = bb_insts (ir_blocks s c)"
    using k(3) by (intro map_idI set_invariant_other) (fastforce simp: numbers_ok_def)
  have run: "cbind (createLoad PtrTy a) setInvarianteLoadMD s = Inr (VInst ?n PtrTy, u)"
    by (simp add: createLoad_def cbind_def ir_append_def c Let_def setInvarianteLoadMD_def
        GetInsertBlock_def cg_simps cthe_def old u_def set_invariant_def)
  have st: "still s u" by (simp add: u_def still_def kept_def cached_same)
  have em: "emits s [(?n, ?i)] u" by (simp add: emits_def st c) (simp add: u_def)
  define \<tau> where "\<tau> = \<sigma>\<lparr>rv_inst := (rv_inst \<sigma>)(?n := Some (word_at p M))\<rparr>"
  have h: "veval \<sigma> a = Some (RP p)" using holdsD [OF known_holds [OF k(1,2)]] by simp
  have m: "rv_mem \<sigma> = M" using k(1) by (simp add: known_def)
  have ex: "exec \<sigma> [(?n, ?i)] = Some \<tau>" using h by (simp add: \<tau>_def word_at_def m)
  have "known s0 \<sigma>0 R M ((VInst ?n PtrTy, word_at p M) # \<Gamma>) u \<tau>"
    by (intro known_calm [OF k(1)])
      (use st in \<open>auto simp: later_def \<tau>_def u_def holds_def scoped_def word_at_def\<close>)
  with run em ex Q show ?thesis unfolding runs_def by blast
qed

section \<open>Operators\<close>

definition bin_of :: "pureop \<Rightarrow> binop option" where
  "bin_of op =
     (case op of ADD \<Rightarrow> Some OpAdd | SUB \<Rightarrow> Some OpSub | MUL \<Rightarrow> Some OpMul | SDIV \<Rightarrow> Some OpSDiv
      | SREM \<Rightarrow> Some OpSRem | UDIV \<Rightarrow> Some OpUDiv | UREM \<Rightarrow> Some OpURem | SHL \<Rightarrow> Some OpShl
      | ASHR \<Rightarrow> Some OpAShr | LSHR \<Rightarrow> Some OpLShr | ORB \<Rightarrow> Some OpOr | XORB \<Rightarrow> Some OpXor
      | ANDB \<Rightarrow> Some OpAnd | _ \<Rightarrow> None)"

lemma bin_of_codegen:
  "bin_of op = Some b \<Longrightarrow> PURE_ARITH_codegen op sz args = int_op2 (createBin b) sz args"
  by (cases op) (auto simp: bin_of_def PURE_ARITH_codegen_def Let_def shorthand_defs)

lemma bin_of_meaning:
  assumes "int_op op w x y = Some z" "0 \<le> y"
  shows "\<exists>b. bin_of op = Some b \<and> bin_int b w x y = Some z"
  using assms
  by (cases op)
    (auto simp: int_op_def bin_of_def bin_int_def Let_def take_bit_eq_mod push_bit_eq_mult
      drop_bit_eq_div shift_ok_def split: if_splits)

lemma as_int_num: "as_int w r = Some x \<Longrightarrow> num_arg w r x"
  by (auto simp: as_int_def num_arg_def uint64_less split: rval.splits if_splits)

lemma runs_int_op:
  assumes k: "known s0 \<sigma>0 R M \<Gamma> s \<sigma>" "(a, ra) \<in> set \<Gamma>" "(b, rb) \<in> set \<Gamma>" "int_size sz"
    and n: "as_int (nat sz) ra = Some x" "as_int (nat sz) rb = Some y" "int_op op (nat sz) x y = Some z"
    and Q: "\<And>v t \<tau>. known s0 \<sigma>0 R M ((v, RI (nat sz) z) # \<Gamma>) t \<tau> \<Longrightarrow> Q v t \<tau>"
  shows "runs (PURE_ARITH_codegen op sz [a, b]) s \<sigma> Q"
proof -
  note num = as_int_num [OF n(1)] as_int_num [OF n(2)]
  obtain bo where bo: "bin_of op = Some bo" "bin_int bo (nat sz) x y = Some z"
    using bin_of_meaning [OF n(3)] num(2) by (auto simp: num_arg_def)
  show ?thesis
    unfolding bin_of_codegen [OF bo(1)] int_op2_def
    apply (simp add: cnth_def)
    apply (intro runs_bind, rule step_asInt_sz [OF k(1,2) num(1) k(4)])
    apply (intro runs_bind, erule step_asInt_sz [OF _ _ num(2) k(4)], use k(3) in simp)
    apply (erule step_bin [where w = "nat sz" and x = x and y = y, OF _ _ _ bo(2)], simp, simp)
    by (rule Q, erule known_weaken) auto
qed

text \<open>Intrinsics on integers.\<close>

lemma vevals_holds: "list_all2 (holds s \<sigma>) vs rs \<Longrightarrow> vevals \<sigma> vs = Some rs"
  by (induction vs rs rule: list_all2_induct) (auto dest: holdsD)

lemma step_intr:
  assumes k: "known s0 \<sigma>0 R M \<Gamma> s \<sigma>" "list_all2 (\<lambda>v r. (v, r) \<in> set \<Gamma> \<or> holds s0 \<sigma>0 v r) vs rs"
    and c: "caches_ok s0" "ir_module s0 \<noteq> None"
    and i: "intr_val i rs = Some r" "ft_ret (intr_ty i) = rtype r"
    and Q: "\<And>v t \<tau>. known s0 \<sigma>0 R M ((v, r) # \<Gamma>) t \<tau> \<Longrightarrow> Q v t \<tau>"
  shows "runs (call_intr i vs) s \<sigma> Q"
  unfolding call_intr_def
proof (intro runs_bind, rule step_intr_get [OF k(1) known_caches [OF k(1) c]])
  fix m t assume kt: "known s0 \<sigma>0 R M \<Gamma> t \<sigma>"
  have "list_all2 (holds t \<sigma>) vs rs"
    using k(2) by (rule list_all2_mono)
      (use kt in \<open>auto intro: known_holds holds_later simp: known_def\<close>)
  then show "runs (ir_append (Call (intr_ty i) (VIntr i m) vs CC_C TCK_None)) t \<sigma> Q"
    by (intro step_append [OF kt _ _ Q]) (simp_all add: vevals_holds i del: intr_ty.simps)
qed

lemma funnel_rotate:
  assumes "0 < w"
  shows "funnel_left w x x k = rotate_left w x k" "funnel_right w x x k = rotate_right w x k"
proof -
  define n where "n = nat (k mod int w)"
  have n: "n < w" using assms by (simp add: n_def nat_less_iff)
  then have w: "(2 :: int) ^ w = 2 ^ n * 2 ^ (w - n)" by (simp flip: power_add)
  have "(x * 2 ^ w + x) * 2 ^ n div 2 ^ w = x * 2 ^ n + x * 2 ^ n div 2 ^ w"
    using div_mult_self1 [of "2 ^ w" "x * 2 ^ n" "x * 2 ^ n"] by (simp add: algebra_simps)
  also have "x * 2 ^ n div 2 ^ w = x div 2 ^ (w - n)" unfolding w by (simp add: mult.commute)
  finally show "funnel_left w x x k = rotate_left w x k"
    by (simp add: funnel_left_def rotate_left_def Let_def take_bit_eq_mod drop_bit_eq_div
        push_bit_eq_mult flip: n_def)
  have "(x * 2 ^ w + x) div 2 ^ n = x * 2 ^ (w - n) + x div 2 ^ n"
    unfolding w by (simp add: div_plus_div_distrib_dvd_left mult.assoc [symmetric] mult.commute)
  then show "funnel_right w x x k = rotate_right w x k"
    by (simp add: funnel_right_def rotate_right_def Let_def take_bit_eq_mod drop_bit_eq_div
        push_bit_eq_mult add.commute flip: n_def)
qed

lemma runs_unary:
  assumes k: "known s0 \<sigma>0 R M \<Gamma> s \<sigma>" "(a, RI (nat sz) x) \<in> set \<Gamma>" "sz = 32 \<or> sz = 64"
    and c: "caches_ok s0" "ir_module s0 \<noteq> None"
    and u: "unary_op op (nat sz) x = Some z"
    and Q: "\<And>v t \<tau>. known s0 \<sigma>0 R M ((v, RI (nat sz) z) # \<Gamma>) t \<tau> \<Longrightarrow> Q v t \<tau>"
  shows "runs (PURE_ARITH_codegen op sz [a]) s \<sigma> Q"
proof -
  consider "op = CNTPOP" | "op = CNTLZ" | "op = CNTTZ"
    using u by (auto simp: unary_op_def split: pureop.splits)
  then show ?thesis
  proof cases
    case 1
    have "runs (call_intr (if sz = 32 then Ctpop32 else Ctpop64) [a]) s \<sigma> Q"
      by (rule step_intr [OF k(1) _ c _ _ Q, where rs = "[RI (nat sz) x]"])
        (use k(2,3) u 1 in \<open>auto simp: intr_val_def intr_width_def unary_op_def Let_def\<close>)
    then show ?thesis by (simp add: 1 PURE_ARITH_codegen_def Let_def)
  next
    case 2
    have "runs (call_intr (if sz = 32 then Ctlz32 else Ctlz64) [a, VInt 1 0]) s \<sigma> Q"
      by (rule step_intr [OF k(1) _ c _ _ Q, where rs = "[RI (nat sz) x, RI 1 0]"])
        (use k(2,3) u 2 holds_int [of s0 \<sigma>0 1 0] in
          \<open>auto simp: intr_val_def intr_width_def unary_op_def Let_def\<close>)
    then show ?thesis by (simp add: 2 PURE_ARITH_codegen_def count_zeros_def cnth_def Let_def)
  next
    case 3
    have "runs (call_intr (if sz = 32 then Cttz32 else Cttz64) [a, VInt 1 0]) s \<sigma> Q"
      by (rule step_intr [OF k(1) _ c _ _ Q, where rs = "[RI (nat sz) x, RI 1 0]"])
        (use k(2,3) u 3 holds_int [of s0 \<sigma>0 1 0] in
          \<open>auto simp: intr_val_def intr_width_def unary_op_def Let_def\<close>)
    then show ?thesis by (simp add: 3 PURE_ARITH_codegen_def count_zeros_def cnth_def Let_def)
  qed
qed

lemma runs_rotate:
  assumes k: "known s0 \<sigma>0 R M \<Gamma> s \<sigma>" "(a, RI (nat sz) x) \<in> set \<Gamma>" "(b, RI (nat sz) y) \<in> set \<Gamma>"
      "sz = 32 \<or> sz = 64"
    and c: "caches_ok s0" "ir_module s0 \<noteq> None"
    and op: "op = ROTL \<or> op = ROTR"
    and Q: "\<And>v t \<tau>. known s0 \<sigma>0 R M ((v, RI (nat sz)
      (if op = ROTL then rotate_left (nat sz) x y else rotate_right (nat sz) x y)) # \<Gamma>) t \<tau> \<Longrightarrow> Q v t \<tau>"
  shows "runs (PURE_ARITH_codegen op sz [a, b]) s \<sigma> Q"
proof -
  define i where "i = (if op = ROTL then (if sz = 32 then Fshl32 else Fshl64)
    else (if sz = 32 then Fshr32 else Fshr64))"
  have w: "0 < nat sz" using k(4) by auto
  have "runs (call_intr i [a, a, b]) s \<sigma> Q"
    by (rule step_intr [OF k(1) _ c _ _ Q,
          where rs = "[RI (nat sz) x, RI (nat sz) x, RI (nat sz) y]"])
      (use k op funnel_rotate [OF w] in \<open>auto simp: intr_val_def intr_width_def i_def Let_def\<close>)
  moreover have "PURE_ARITH_codegen op sz [a, b] = call_intr i [a, a, b]"
    using op by (auto simp: PURE_ARITH_codegen_def rotate_op_def cnth_def Let_def i_def)
  ultimately show ?thesis by simp
qed

lemma runs_arith_eval:
  assumes k: "known s0 \<sigma>0 R M \<Gamma> s \<sigma>" "list_all2 (\<lambda>v r. (v, r) \<in> set \<Gamma>) vs rs" "int_size sz"
    and c: "caches_ok s0" "ir_module s0 \<noteq> None"
    and r: "arith_eval op (nat sz) rs = Some r"
    and Q: "\<And>v t \<tau>. known s0 \<sigma>0 R M ((v, r) # \<Gamma>) t \<tau> \<Longrightarrow> Q v t \<tau>"
  shows "runs (PURE_ARITH_codegen op sz vs) s \<sigma> Q"
proof -
  from r consider (un) x z where "rs = [RI (nat sz) x]" "sz = 32 \<or> sz = 64"
      "unary_op op (nat sz) x = Some z" "r = RI (nat sz) z"
    | (rot) x y where "rs = [RI (nat sz) x, RI (nat sz) y]" "op = ROTL \<or> op = ROTR" "sz = 32 \<or> sz = 64"
      "r = RI (nat sz) (if op = ROTL then rotate_left (nat sz) x y else rotate_right (nat sz) x y)"
    | (bin) ra rb x y z where "rs = [ra, rb]" "as_int (nat sz) ra = Some x" "as_int (nat sz) rb = Some y"
      "int_op op (nat sz) x y = Some z" "r = RI (nat sz) z"
    unfolding arith_eval_def
    by (auto split: list.splits rval.splits if_splits option.splits simp: nat_eq_iff)
  then show ?thesis
  proof cases
    case un
    then obtain a where "vs = [a]" "(a, RI (nat sz) x) \<in> set \<Gamma>" using k(2) by (auto simp: list_all2_Cons2)
    with un show ?thesis using runs_unary [OF k(1) _ _ c] Q by auto
  next
    case rot
    then obtain a b where "vs = [a, b]" "(a, RI (nat sz) x) \<in> set \<Gamma>" "(b, RI (nat sz) y) \<in> set \<Gamma>"
      using k(2) by (auto simp: list_all2_Cons2)
    with rot show ?thesis using runs_rotate [OF k(1) _ _ _ c] Q by auto
  next
    case bin
    then obtain a b where "vs = [a, b]" "(a, ra) \<in> set \<Gamma>" "(b, rb) \<in> set \<Gamma>"
      using k(2) by (auto simp: list_all2_Cons2)
    with bin show ?thesis using runs_int_op [OF k(1) _ _ k(3)] Q by auto
  qed
qed

section \<open>Loads\<close>

lemma as_adr_word: "as_adr r = Some p \<Longrightarrow> ml_word r \<and> p = word_of_int (raw r)"
  by (simp add: as_adr_def split: if_splits)

lemma step_adr:
  assumes "known s0 \<sigma>0 R M \<Gamma> s \<sigma>" "(v, r) \<in> set \<Gamma>" "as_adr r = Some p"
    "\<And>v t \<tau>. known s0 \<sigma>0 R M ((v, RP p) # \<Gamma>) t \<tau> \<Longrightarrow> Q v t \<tau>"
  shows "runs (asPtr v) s \<sigma> Q"
  using step_asPtr [OF assms(1,2)] as_adr_word [OF assms(3)] assms(4) by simp

lemma sval_64_word: "(word_of_int (sval 64 x) :: u64) = word_of_int x"
proof (rule bit_word_eqI)
  fix n assume "n < LENGTH(64)"
  then have "min 63 n = n" by simp
  then show "bit (word_of_int (sval 64 x) :: u64) n = bit (word_of_int x :: u64) n"
    by (simp add: sval_def bit_word_of_int_iff bit_signed_take_bit_iff)
qed

lemma elem_loaded:
  assumes "elem_at kind sz p M = Some r"
  shows "loaded (numType kind sz) p M = Some r" "ty_bytes (numType kind sz) = nat sz div 8"
  using assms
  by (auto simp: elem_at_def loaded_def numType_def iType_size fType_def iType_def int_size_def
      split: if_splits)

lemma runs_subscript:
  assumes k: "known s0 \<sigma>0 R M \<Gamma> s \<sigma>" "list_all2 (\<lambda>v r. (v, r) \<in> set \<Gamma>) vs rs"
    and r: "subscript_eval M rs = Some r"
    and Q: "\<And>v t \<tau>. known s0 \<sigma>0 R M ((v, r) # \<Gamma>) t \<tau> \<Longrightarrow> Q v t \<tau>"
  shows "runs (subscript vs) s \<sigma> Q"
proof -
  from r obtain ra ri p i where rs: "rs = [ra, ri]" "as_adr ra = Some p" "as_adr ri = Some i"
    "r = word_at (p + 8 * i) M"
    by (auto simp: subscript_eval_def split: list.splits option.splits)
  then obtain a b where vs: "vs = [a, b]" "(a, ra) \<in> set \<Gamma>" "(b, ri) \<in> set \<Gamma>"
    using k(2) by (auto simp: list_all2_Cons2)
  note i = as_adr_word [OF rs(3)]
  show ?thesis
    unfolding subscript_def createGEP_def vs(1)
    apply (simp add: cnth_def)
    apply (intro runs_bind, rule step_adr [OF k(1) vs(2) rs(2)])
    apply (intro runs_bind, erule step_asInt [where r = ri], use vs(3) in simp, use i in simp)
    apply (intro runs_bind, erule step_gep [where p = p and w = 64 and x = "raw ri"], simp, simp)
    apply (erule step_load [where p = "p + 8 * i" and r = r])
      apply (simp add: sval_64_word i)
     apply (simp add: loaded_def rs(4) word_at_def)
    by (rule Q, erule known_weaken) auto
qed

lemma runs_raw_load:
  assumes k: "known s0 \<sigma>0 R M \<Gamma> s \<sigma>" "list_all2 (\<lambda>v r. (v, r) \<in> set \<Gamma>) vs rs"
    and r: "raw_eval M scale kind sz rs = Some r"
    and scale: "elem_at kind sz p M \<noteq> None \<Longrightarrow> scale = of_nat (ty_bytes ty)"
    and Q: "\<And>v t \<tau>. known s0 \<sigma>0 R M ((v, r) # \<Gamma>) t \<tau> \<Longrightarrow> Q v t \<tau>"
  shows "runs (raw_load ty kind sz vs) s \<sigma> Q"
proof -
  from r obtain ra w x q where rs: "rs = [ra, RI w x]" "as_adr ra = Some q"
    "elem_at kind sz (q + scale * word_of_int (sval w x)) M = Some r"
    by (auto simp: raw_eval_def as_index_def split: list.splits option.splits rval.splits)
  then obtain a b where vs: "vs = [a, b]" "(a, ra) \<in> set \<Gamma>" "(b, RI w x) \<in> set \<Gamma>"
    using k(2) by (auto simp: list_all2_Cons2)
  have sc: "scale = of_nat (ty_bytes ty)"
    using rs(3) by (intro scale) (auto simp: elem_at_def split: if_splits)
  show ?thesis
    unfolding raw_load_def createGEP_ty_def createLoad_align_def vs(1)
    apply (simp add: cnth_def cbind_assoc)
    apply (intro runs_bind, rule step_adr [OF k(1) vs(2) rs(2)])
    apply (intro runs_bind, erule step_gep [where p = q and w = w and x = x], simp, use vs(3) in simp)
    apply (erule step_load [where p = "q + scale * word_of_int (sval w x)" and r = r])
      apply (simp add: sc)
     apply (rule elem_loaded [OF rs(3)])
    by (rule Q, erule known_weaken) auto
qed

section \<open>Primitive operations\<close>

lemma runs_extend:
  assumes k: "known s0 \<sigma>0 R M \<Gamma> s \<sigma>" "(a, RI w x) \<in> set \<Gamma>"
    and w: "int_size to" "0 \<le> x" "x < 2 ^ w" "0 < w" "w \<le> nat to"
    and Q: "\<And>v t \<tau>. known s0 \<sigma>0 R M
      ((v, RI (nat to) ((if sg then sval w x else x) mod 2 ^ nat to)) # \<Gamma>) t \<tau> \<Longrightarrow> Q v t \<tau>"
  shows "runs (EXTEND_codegen sg to [a]) s \<sigma> Q"
proof -
  have ty: "type_of a = IntTy w" using known_type [OF k] by simp
  have s: "sval w x mod 2 ^ w = x"
  proof -
    have "Suc (w - 1) = w" using w(4) by simp
    then have "take_bit w (signed_take_bit (w - 1) x) = take_bit w x"
      using take_bit_signed_take_bit [of w "w - 1" x] by simp
    then show ?thesis using w(2,3) by (simp add: sval_def take_bit_eq_mod)
  qed
  have x: "x mod 2 ^ nat to = x" if "w \<le> nat to"
  proof -
    have "(2 :: int) ^ w \<le> 2 ^ nat to" using that by (intro power_increasing) auto
    then show ?thesis using w(2,3) by (intro mod_pos_pos_trivial) linarith+
  qed
  show ?thesis
    unfolding EXTEND_codegen_def createSExt_def createZExt_def iType_size [OF w(1)]
    using w(5) s x ty
    by (auto simp: cnth_def cast_val_def take_bit_eq_mod le_less
        intro!: step_cast [OF k, where r' = "RI (nat to) ((if sg then sval w x else x) mod 2 ^ nat to)",
          OF _ _ _ Q])
qed

lemma runs_pure:
  assumes k: "known s0 \<sigma>0 R M \<Gamma> s \<sigma>" "list_all2 (\<lambda>v r. (v, r) \<in> set \<Gamma>) vs rs"
    and c: "caches_ok s0" "ir_module s0 \<noteq> None"
    and r: "pure_eval M op rs = Some r"
    and Q: "\<And>v t \<tau>. known s0 \<sigma>0 R M ((v, r) # \<Gamma>) t \<tau> \<Longrightarrow> Q v t \<tau>"
  shows "runs (pure_codegen op vs) s \<sigma> Q"
proof (cases op)
  case (PURE_ARITH a sz)
  then show ?thesis
    using r runs_arith_eval [OF k _ c _ Q] by (simp add: pure_eval_def pure_codegen_def split: if_splits)
next
  case (EXTEND sg "from" to)
  from r consider (int) w x where "rs = [RI w x]" "int_size to" "0 \<le> x" "x < 2 ^ w" "0 < w" "w \<le> nat to"
      "r = RI (nat to) ((if sg then sval w x else x) mod 2 ^ nat to)"
    | (ptr) p where "rs = [RP p]" "\<not> sg" "to = 64" "r = RP p"
    unfolding EXTEND pure_eval_def by (auto split: list.splits rval.splits if_splits)
  then show ?thesis
  proof cases
    case int
    then obtain a where "vs = [a]" "(a, RI w x) \<in> set \<Gamma>" using k(2) by (auto simp: list_all2_Cons2)
    with int show ?thesis using runs_extend [OF k(1)] Q by (simp add: pure_codegen_def EXTEND)
  next
    case ptr
    then obtain a where a: "vs = [a]" "(a, RP p) \<in> set \<Gamma>" using k(2) by (auto simp: list_all2_Cons2)
    have "known s0 \<sigma>0 R M ((a, r) # \<Gamma>) s \<sigma>"
      using k(1) known_holds [OF k(1) a(2)] ptr by (simp add: known_def)
    note q = Q [OF this]
    have "type_of a = PtrTy" using known_type [OF k(1) a(2)] by simp
    then show ?thesis
      using ptr(2,3) q
      by (auto simp: pure_codegen_def EXTEND EXTEND_codegen_def cnth_def iType_def a(1)
          intro!: runs_then runs_assert runs_bind step_intTy [OF k(1)] runs_return)
  qed
next
  case (TRUNC "from" to)
  with r obtain w x where rs: "rs = [RI w x]" "int_size to" "nat to < w" "r = RI (nat to) (x mod 2 ^ nat to)"
    by (auto simp: pure_eval_def split: list.splits rval.splits if_splits)
  then obtain a where "vs = [a]" "(a, RI w x) \<in> set \<Gamma>" using k(2) by (auto simp: list_all2_Cons2)
  with rs show ?thesis
    by (auto simp: TRUNC pure_codegen_def createTrunc_def cnth_def iType_size cast_val_def take_bit_eq_mod
        intro!: step_cast [OF k(1), where r = "RI w x" and r' = r, OF _ _ _ _ Q])
next
  case (FLOAT_TO_BITS sz)
  with r obtain d x where rs: "rs = [RFlt d x]" "sz = (if d then 64 else 32)" "r = RI (nat sz) x"
    by (auto simp: pure_eval_def split: list.splits rval.splits if_splits)
  then obtain a where "vs = [a]" "(a, RFlt d x) \<in> set \<Gamma>" using k(2) by (auto simp: list_all2_Cons2)
  with rs show ?thesis
    by (auto simp: FLOAT_TO_BITS pure_codegen_def createBitCast_def cnth_def iType_def cast_val_def
        intro!: step_cast [OF k(1), where r = "RFlt d x" and r' = r, OF _ _ _ _ Q] split: if_splits)
next
  case (BITS_TO_FLOAT sz)
  with r obtain x where rs: "rs = [RI (nat sz) x]" "sz = 32 \<or> sz = 64" "r = RFlt (sz = 64) x"
    by (auto simp: pure_eval_def split: list.splits rval.splits if_splits)
  then obtain a where "vs = [a]" "(a, RI (nat sz) x) \<in> set \<Gamma>" using k(2) by (auto simp: list_all2_Cons2)
  with rs show ?thesis
    by (auto simp: BITS_TO_FLOAT pure_codegen_def createBitCast_def cnth_def fType_def cast_val_def
        intro!: step_cast [OF k(1), where r = "RI (nat sz) x" and r' = r, OF _ _ _ _ Q])
next
  case PURE_SUBSCRIPT
  then show ?thesis using r runs_subscript [OF k _ Q] by (simp add: pure_eval_def pure_codegen_def)
next
  case (PURE_RAW_SUBSCRIPT kind sz)
  then show ?thesis
    using r runs_raw_load [OF k _ _ Q] elem_loaded(2)
    by (fastforce simp: pure_eval_def pure_codegen_def elem_bytes_def)
next
  case (RAW_SELECT kind sz off)
  with r obtain ra p where rs: "rs = [ra]" "as_adr ra = Some p" "elem_at kind sz (p + word_of_int off) M = Some r"
    by (auto simp: pure_eval_def split: list.splits option.splits)
  then obtain a where vs: "vs = [a]" "(a, ra) \<in> set \<Gamma>" using k(2) by (auto simp: list_all2_Cons2)
  show ?thesis
    unfolding RAW_SELECT pure_codegen_def vs(1) createGEP_ty_def createLoad_align_def
    apply (simp add: cnth_def cbind_assoc)
    apply (intro runs_bind, rule step_adr [OF k(1) vs(2) rs(2)])
    apply (intro runs_bind, erule step_uConst)
    apply (intro runs_bind, erule step_adr [where r = "RP p" and p = p], simp, simp add: as_adr_def)
    apply (intro runs_bind, erule step_gep [where p = p and w = 64 and x = "uint (word_of_int off :: u64)"],
        simp, simp)
    apply (erule step_load [where p = "p + word_of_int off" and r = r])
      apply (simp add: sval_64_word)
     apply (rule elem_loaded [OF rs(3)])
    by (rule Q, erule known_weaken) auto
qed (use r in \<open>simp_all add: pure_eval_def\<close>)

lemma runs_looker:
  assumes k: "known s0 \<sigma>0 R M \<Gamma> s \<sigma>" "list_all2 (\<lambda>v r. (v, r) \<in> set \<Gamma>) vs rs"
    and r: "looker_eval M op rs = Some r"
    and Q: "\<And>v t \<tau>. known s0 \<sigma>0 R M ((v, r) # \<Gamma>) t \<tau> \<Longrightarrow> Q v t \<tau>"
  shows "runs (looker_codegen op vs) s \<sigma> Q"
proof (cases op)
  case DEREF
  with r obtain ra p where rs: "rs = [ra]" "as_adr ra = Some p" "r = word_at p M"
    by (auto simp: looker_eval_def split: list.splits)
  then obtain a where vs: "vs = [a]" "(a, ra) \<in> set \<Gamma>" using k(2) by (auto simp: list_all2_Cons2)
  show ?thesis
    unfolding DEREF looker_codegen_def vs(1)
    apply (simp add: cnth_def)
    apply (intro runs_bind, rule step_adr [OF k(1) vs(2) rs(2)])
    apply (erule step_load [where p = p and r = r], simp)
     apply (simp add: loaded_def rs(3) word_at_def)
    by (rule Q, erule known_weaken) auto
next
  case SUBSCRIPT
  then show ?thesis using r runs_subscript [OF k _ Q] by (simp add: looker_eval_def looker_codegen_def)
next
  case (RAW_SUBSCRIPT kind sz)
  then show ?thesis
    using r runs_raw_load [OF k _ _ Q] elem_loaded(2)
    by (fastforce simp: looker_eval_def looker_codegen_def elem_bytes_def)
next
  case (RAW_LOAD kind sz)
  then show ?thesis
    using r runs_raw_load [OF k _ _ Q, where ty = i8Ty] by (simp add: looker_eval_def looker_codegen_def)
qed (use r in \<open>simp_all add: looker_eval_def\<close>)

section \<open>Expressions\<close>

text \<open>The variables of the environment are bound to values that stand for theirs.\<close>

definition env_holds :: "(lvar \<Rightarrow> rval option) \<Rightarrow> cgctx \<Rightarrow> rstate \<Rightarrow> bool" where
  "env_holds \<rho> s \<sigma> \<longleftrightarrow> (\<forall>x r. \<rho> x = Some r \<longrightarrow> (\<exists>v. cx_vMap s x = Some v \<and> holds s \<sigma> v r))"

lemma NUM_value:
  assumes "int_size sz" "canonical iv" "- (2 ^ 63) < int_val iv" "int_val iv < 2 ^ 64"
  shows "exp_codegen (NUM iv sz) = creturn (VInt (nat sz) (int_val iv mod 2 ^ nat sz))"
proof (cases "getSign iv < 0")
  case True
  then have "i_sign iv" by (auto simp: getSign_def split: if_splits)
  then have "int_val iv \<le> 0" by (simp add: int_val_def)
  then have "sint (word_of_int (int_val iv) :: u64) = int_val iv"
    using assms(3) by (simp add: signed_of_int signed_take_bit_int_eq_self)
  with True show ?thesis
    using assms \<open>int_val iv \<le> 0\<close>
    by (simp add: get_toInt64_def toInt64_exact iConst_sz_def const_of_def iType_size cthe_def
        take_bit_eq_mod)
next
  case False
  then have "\<not> i_sign iv" by (auto simp: getSign_def split: if_splits)
  then have v: "int_val iv = int (val32 (i_digits iv))" by (simp add: int_val_def)
  then have "uint (word_of_nat (val32 (i_digits iv)) :: u64) = int_val iv"
    using assms(4) by (simp add: unsigned_of_nat take_bit_nat_eq_self)
  with False v show ?thesis
    using assms
    by (simp add: get_toUInt64_def toUInt64_exact uConst_sz_def const_of_def iType_size cthe_def
        take_bit_eq_mod)
qed

text \<open>What is known before and after an expression.\<close>

definition ready_for ::
  "cgctx \<Rightarrow> rstate \<Rightarrow> (CMRegId \<Rightarrow> value option) \<Rightarrow> mem \<Rightarrow> (value \<times> rval) list \<Rightarrow>
    cgctx \<Rightarrow> rstate \<Rightarrow> bool" where
  "ready_for s0 \<sigma>0 R M \<Gamma> s \<sigma> \<longleftrightarrow>
     known s0 \<sigma>0 R M \<Gamma> s \<sigma> \<and> numbers_ok s \<and> cx_vMap s = cx_vMap s0"

definition computes ::
  "cgctx \<Rightarrow> rstate \<Rightarrow> (CMRegId \<Rightarrow> value option) \<Rightarrow> mem \<Rightarrow> exp \<Rightarrow> rval \<Rightarrow> bool" where
  "computes s0 \<sigma>0 R M e r \<longleftrightarrow>
     (\<forall>\<Gamma> s \<sigma>. ready_for s0 \<sigma>0 R M \<Gamma> s \<sigma> \<longrightarrow>
        runs (exp_codegen e) s \<sigma> (\<lambda>v. ready_for s0 \<sigma>0 R M ((v, r) # \<Gamma>)))"

lemma runs_tidy:
  assumes "runs m s \<sigma> (\<lambda>v. known s0 \<sigma>0 R M (F v))" "keeps tidy m" "ready_for s0 \<sigma>0 R M \<Gamma> s \<sigma>"
  shows "runs m s \<sigma> (\<lambda>v. ready_for s0 \<sigma>0 R M (F v))"
  using runs_keeps [OF assms(1,2)] assms(3)
  by (elim runs_mono) (auto simp: ready_for_def tidy_def)

lemma computesD:
  "computes s0 \<sigma>0 R M e r \<Longrightarrow> ready_for s0 \<sigma>0 R M \<Gamma> s \<sigma> \<Longrightarrow>
     (\<And>v t \<tau>. ready_for s0 \<sigma>0 R M ((v, r) # \<Gamma>) t \<tau> \<Longrightarrow> Q v t \<tau>) \<Longrightarrow> runs (exp_codegen e) s \<sigma> Q"
  unfolding computes_def by (blast intro: runs_mono)

text \<open>The arguments, from left to right.\<close>

lemma runs_args:
  assumes "list_all2 (computes s0 \<sigma>0 R M) es rs" "ready_for s0 \<sigma>0 R M \<Gamma> s \<sigma>"
    and Q: "\<And>vs \<Gamma>' t \<tau>. ready_for s0 \<sigma>0 R M \<Gamma>' t \<tau> \<Longrightarrow> set \<Gamma> \<subseteq> set \<Gamma>' \<Longrightarrow>
      list_all2 (\<lambda>v r. (v, r) \<in> set \<Gamma>') vs rs \<Longrightarrow> Q vs t \<tau>"
  shows "runs (cmap exp_codegen es) s \<sigma> Q"
  using assms
proof (induction es rs arbitrary: \<Gamma> s \<sigma> Q rule: list_all2_induct)
  case Nil
  then show ?case by (auto intro: runs_return)
next
  case (Cons e es r rs)
  show ?case
    unfolding cmap.simps
  proof (intro runs_bind, rule computesD [OF Cons.hyps(1) Cons.prems(1)])
    fix v t \<tau> assume v: "ready_for s0 \<sigma>0 R M ((v, r) # \<Gamma>) t \<tau>"
    show "runs (cbind (cmap exp_codegen es) (\<lambda>vs. creturn (v # vs))) t \<tau> Q"
      by (intro runs_bind Cons.IH [OF v] runs_return Cons.prems(2)) auto
  qed
qed

lemma those_all2: "those (map f xs) = Some ys \<Longrightarrow> list_all2 (\<lambda>x y. f x = Some y) xs ys"
  by (induction xs arbitrary: ys) (auto split: option.splits)

lemma keeps_prims:
  "keeps tidy (pure_codegen op vs)" "keeps tidy (looker_codegen lk vs)"
  by (rule tidy.keeps_pure, rule tidy.keeps_looker)

lemma exp_computes:
  assumes "exp_eval \<rho> M e = Some r" "env_holds \<rho> s0 \<sigma>0"
    and c: "caches_ok s0" "ir_module s0 \<noteq> None"
  shows "computes s0 \<sigma>0 R M e r"
  using assms(1,2)
proof (induction \<rho> M e arbitrary: r rule: exp_eval.induct)
  case (1 \<rho> M x)
  then obtain v where v: "cx_vMap s0 x = Some v" "holds s0 \<sigma>0 v r" by (auto simp: env_holds_def)
  show ?case
    unfolding computes_def
  proof (intro allI impI)
    fix \<Gamma> s \<sigma> assume k: "ready_for s0 \<sigma>0 R M \<Gamma> s \<sigma>"
    then have "ready_for s0 \<sigma>0 R M ((v, r) # \<Gamma>) s \<sigma>"
      using holds_later [OF v(2)] by (auto simp: ready_for_def known_def)
    then show "runs (exp_codegen (VAR x)) s \<sigma> (\<lambda>v. ready_for s0 \<sigma>0 R M ((v, r) # \<Gamma>))"
      using k v(1) by (auto simp: lookupVal_def ready_for_def intro!: runs_bind runs_get runs_the)
  qed
next
  case (3 \<rho> M iv sz)
  then have "exp_codegen (NUM iv sz) = creturn (VInt (nat sz) (int_val iv mod 2 ^ nat sz))"
    and r: "r = RI (nat sz) (int_val iv mod 2 ^ nat sz)"
    by (auto simp: NUM_value simp del: exp_codegen.simps split: if_splits)
  moreover have "holds s \<sigma> (VInt (nat sz) (int_val iv mod 2 ^ nat sz)) r" for s \<sigma>
    using holds_int [of s \<sigma> "nat sz" "int_val iv mod 2 ^ nat sz"] by (simp add: r take_bit_eq_mod)
  ultimately show ?case
    by (auto simp: computes_def ready_for_def known_def simp del: exp_codegen.simps intro!: runs_return)
next
  case (4 \<rho> M op args)
  then obtain rs where rs: "those (map (exp_eval \<rho> M) args) = Some rs" "looker_eval M op rs = Some r"
    by (auto split: option.splits)
  have args: "list_all2 (computes s0 \<sigma>0 R M) args rs"
    using those_all2 [OF rs(1)] by (rule list.rel_mono_strong) (use 4 in auto)
  show ?case
    unfolding computes_def exp_codegen.simps
  proof (intro allI impI runs_bind, erule runs_args [OF args])
    fix \<Gamma> vs \<Gamma>' t \<tau>
    assume k: "ready_for s0 \<sigma>0 R M \<Gamma>' t \<tau>" "set \<Gamma> \<subseteq> set \<Gamma>'" "list_all2 (\<lambda>v r. (v, r) \<in> set \<Gamma>') vs rs"
    have "runs (looker_codegen op vs) t \<tau> (\<lambda>v. known s0 \<sigma>0 R M ((v, r) # \<Gamma>))"
      by (rule runs_looker [OF _ k(3) rs(2)], use k in \<open>auto simp: ready_for_def\<close>)
        (erule known_weaken, auto)
    from runs_tidy [OF this keeps_prims(2) k(1)]
    show "runs (looker_codegen op vs) t \<tau> (\<lambda>v. ready_for s0 \<sigma>0 R M ((v, r) # \<Gamma>))" .
  qed
next
  case (5 \<rho> M op args)
  then obtain rs where rs: "those (map (exp_eval \<rho> M) args) = Some rs" "pure_eval M op rs = Some r"
    by (auto split: option.splits)
  have args: "list_all2 (computes s0 \<sigma>0 R M) args rs"
    using those_all2 [OF rs(1)] by (rule list.rel_mono_strong) (use 5 in auto)
  show ?case
    unfolding computes_def exp_codegen.simps
  proof (intro allI impI runs_bind, erule runs_args [OF args])
    fix \<Gamma> vs \<Gamma>' t \<tau>
    assume k: "ready_for s0 \<sigma>0 R M \<Gamma>' t \<tau>" "set \<Gamma> \<subseteq> set \<Gamma>'" "list_all2 (\<lambda>v r. (v, r) \<in> set \<Gamma>') vs rs"
    have "runs (pure_codegen op vs) t \<tau> (\<lambda>v. known s0 \<sigma>0 R M ((v, r) # \<Gamma>))"
      by (rule runs_pure [OF _ k(3) c rs(2)], use k in \<open>auto simp: ready_for_def\<close>)
        (erule known_weaken, auto)
    from runs_tidy [OF this keeps_prims(1) k(1)]
    show "runs (pure_codegen op vs) t \<tau> (\<lambda>v. ready_for s0 \<sigma>0 R M ((v, r) # \<Gamma>))" .
  qed
next
  case (6 \<rho> M idx e)
  then obtain re p where idx: "- (2 ^ 31) \<le> idx" "idx < 2 ^ 31" and re: "exp_eval \<rho> M e = Some re"
    "as_adr re = Some p" "r = word_at (p + 8 * word_of_int idx) M"
    by (auto split: if_splits option.splits)
  have IH: "computes s0 \<sigma>0 R M e re" using 6 re(1) idx by simp
  show ?case
    unfolding computes_def exp_codegen.simps
  proof (intro allI impI runs_bind, erule computesD [OF IH])
    fix \<Gamma> v t \<tau> assume k: "ready_for s0 \<sigma>0 R M ((v, re) # \<Gamma>) t \<tau>"
    have "runs (asPtr v) t \<tau> (\<lambda>b. known s0 \<sigma>0 R M ((b, RP p) # (v, re) # \<Gamma>))"
      by (rule step_adr [OF _ _ re(2)]) (use k in \<open>auto simp: ready_for_def\<close>)
    note 1 = runs_tidy [OF this tidy.keeps_asPtr k]
    show "runs (asPtr v) t \<tau> (\<lambda>b t \<tau>. runs (cbind (createGEP_i b idx) (\<lambda>adr.
        cbind (createLoad PtrTy adr) setInvarianteLoadMD)) t \<tau> (\<lambda>v. ready_for s0 \<sigma>0 R M ((v, r) # \<Gamma>)))"
    proof (rule runs_mono [OF 1], rule runs_bind)
      fix b t \<tau> assume k: "ready_for s0 \<sigma>0 R M ((b, RP p) # (v, re) # \<Gamma>) t \<tau>"
      have "runs (createGEP_i b idx) t \<tau>
          (\<lambda>a. known s0 \<sigma>0 R M ((a, RP (p + 8 * word_of_int idx)) # (b, RP p) # (v, re) # \<Gamma>))"
        by (rule step_createGEP_i) (use k idx in \<open>auto simp: ready_for_def\<close>)
      note 2 = runs_tidy [OF this tidy.keeps_createGEP_i k]
      show "runs (createGEP_i b idx) t \<tau> (\<lambda>a t \<tau>. runs (cbind (createLoad PtrTy a) setInvarianteLoadMD)
          t \<tau> (\<lambda>v. ready_for s0 \<sigma>0 R M ((v, r) # \<Gamma>)))"
      proof (rule runs_mono [OF 2])
        fix a t \<tau>
        assume k: "ready_for s0 \<sigma>0 R M ((a, RP (p + 8 * word_of_int idx)) # (b, RP p) # (v, re) # \<Gamma>) t \<tau>"
        have "runs (cbind (createLoad PtrTy a) setInvarianteLoadMD) t \<tau>
            (\<lambda>v. known s0 \<sigma>0 R M ((v, r) # \<Gamma>))"
        proof (rule step_invariant_load)
          show "known s0 \<sigma>0 R M ((a, RP (p + 8 * word_of_int idx)) # (b, RP p) # (v, re) # \<Gamma>) t \<tau>"
            and "numbers_ok t" using k by (simp_all add: ready_for_def)
        qed (auto simp: re(3) elim: known_weaken)
        moreover have "keeps tidy (cbind (createLoad PtrTy a) setInvarianteLoadMD)"
          unfolding createLoad_def by (intro tidy.keeps_bind tidy.keeps_setInvariante tidy.keeps_append) simp
        ultimately show "runs (cbind (createLoad PtrTy a) setInvarianteLoadMD) t \<tau>
            (\<lambda>v. ready_for s0 \<sigma>0 R M ((v, r) # \<Gamma>))"
          by (rule runs_tidy [OF _ _ k])
      qed
    qed
  qed
qed simp_all

end
