(* ===== verification/Emission_Properties.thy ===== *)
theory Emission_Properties
  imports Sample_State Exp_Code
begin

text \<open>
  The properties of the generated straight-line code: allocation, the write barrier, the heap
  check, comparisons and trapping arithmetic.  Each says what the emitted instructions compute
  under the semantics of \<open>Llvm_Sem\<close>, and has a witness at a state for x86-64.
\<close>

section \<open>Results of a run\<close>

text \<open>In the state \<open>t\<close>, the register \<open>r\<close> has the pointer \<open>p\<close>.\<close>

definition reg_has :: "cgctx \<Rightarrow> rstate \<Rightarrow> CMRegId \<Rightarrow> u64 \<Rightarrow> bool" where
  "reg_has t \<tau> r p \<longleftrightarrow> (\<exists>v. rs_get (cx_regState t) r = Some v \<and> holds t \<tau> v (RP p))"

lemma known_at:
  "ctx_ok s \<Longrightarrow> (\<forall>vr\<in>set \<Gamma>. holds s \<sigma> (fst vr) (snd vr)) \<Longrightarrow> R = rs_get (cx_regState s) \<Longrightarrow>
     known s \<sigma> R (rv_mem \<sigma>) \<Gamma> s \<sigma>"
  by (simp add: known_start)

lemma known_results:
  assumes "known s0 \<sigma>0 R M \<Gamma> t \<tau>"
  shows "rv_mem \<tau> = M" "rs_get (cx_regState t) = R" "(v, r) \<in> set \<Gamma> \<Longrightarrow> holds t \<tau> v r"
  using assms by (auto simp: known_def)

lemma known_reg: "known s0 \<sigma>0 R M \<Gamma> t \<tau> \<Longrightarrow> R r = Some v \<Longrightarrow> (v, RP p) \<in> set \<Gamma> \<Longrightarrow> reg_has t \<tau> r p"
  by (auto simp: known_def reg_has_def)

lemma work_reg_has: "i < 5 \<Longrightarrow> reg_num r = i \<Longrightarrow> p = 4096 * of_nat i + 4096 \<Longrightarrow>
    reg_has work_ctx work_state r p"
  by (auto simp: reg_has_def)

lemma raw_bounds: "ml_word r \<Longrightarrow> 0 \<le> raw r \<and> raw r < 2 ^ 64"
  by (erule ml_word_cases) (use uint64_less in \<open>auto simp: raw_def\<close>)

section \<open>Expressions\<close>

text \<open>C6: for every expression that has a value, code generation succeeds and the emitted code
  computes that value, without changing memory, registers or the bindings of variables; the
  environment is to be represented by the values that the variables are bound to.\<close>

theorem expression_correct:
  assumes "exp_eval \<rho> (rv_mem \<sigma>) e = Some r" "env_holds \<rho> s \<sigma>"
    "ctx_ok s" "numbers_ok s" "caches_ok s" "ir_module s \<noteq> None"
  shows "runs (exp_codegen e) s \<sigma> (\<lambda>v t \<tau>.
    holds t \<tau> v r \<and> rv_mem \<tau> = rv_mem \<sigma> \<and>
    rs_get (cx_regState t) = rs_get (cx_regState s) \<and> cx_vMap t = cx_vMap s)"
proof -
  have "ready_for s \<sigma> (rs_get (cx_regState s)) (rv_mem \<sigma>) [] s \<sigma>"
    using assms(3,4) by (auto simp: ready_for_def intro: known_at)
  from exp_computes [OF assms(1,2,5,6)] this show ?thesis
    by (rule computesD) (auto simp: ready_for_def known_def)
qed

text \<open>The sum of a field of a record and the sign of a number, by an arithmetic shift.\<close>

definition sum_exp :: exp where
  "sum_exp = PURE (PURE_ARITH ADD 64)
     [SELECT 1 (VAR 1), PURE (PURE_ARITH ASHR 64) [VAR 2, NUM (integer_of_uint64 62) 64]]"

definition sum_ctx :: cgctx where
  "sum_ctx = work_ctx\<lparr>cx_vMap := [1 \<mapsto> VArg 5 PtrTy, 2 \<mapsto> VArg 7 i64Ty]\<rparr>"

lemma integer_62: "canonical (integer_of_uint64 62)" "int_val (integer_of_uint64 62) = 62"
  using integer_of_uint64_canonical [of 62] integer_of_uint64_val [of 62] by simp_all

lemmas exp_eval_defs =
  pure_eval_def arith_eval_def as_int_def int_op_def as_adr_def ml_word_def word_at_def raw_def
  int_size_def integer_62 shift_ok_def work_state_def get_def sval_def

lemma expression_correct_witness:
  "runs (exp_codegen sum_exp) sum_ctx work_state (\<lambda>v t \<tau>. holds t \<tau> v (RI 64 (2 ^ 64 - 2)))"
proof (rule runs_mono [OF expression_correct
    [where \<rho> = "[1 \<mapsto> RP 24576, 2 \<mapsto> RI 64 (2 ^ 63)]" and r = "RI 64 (2 ^ 64 - 2)"]])
  have *: "holds sum_ctx work_state (VArg i t) r = holds work_ctx work_state (VArg i t) r" for i t r
    by (simp add: holds_def scoped_def)
  show "env_holds [1 \<mapsto> RP 24576, 2 \<mapsto> RI 64 (2 ^ 63)] sum_ctx work_state"
    using work_holds(1) [of 5] work_holds(3) by (auto simp: env_holds_def sum_ctx_def [THEN arg_cong [of _ _ cx_vMap]] *)
  show "exp_eval [1 \<mapsto> RP 24576, 2 \<mapsto> RI 64 (2 ^ 63)] (rv_mem work_state) sum_exp =
      Some (RI 64 (2 ^ 64 - 2))"
    by (simp add: sum_exp_def exp_eval_defs)
  show "ctx_ok sum_ctx" using work_ctx_simps(1) by (simp add: ctx_ok_def sum_ctx_def)
  show "caches_ok sum_ctx" using work_caches_ok by (simp add: caches_ok_def sum_ctx_def)
qed (simp_all add: numbers_ok_def sum_ctx_def work_ctx_def sample_ctx_def Context_init_def empty_block_def)

section \<open>Records\<close>

text \<open>C9: allocating a record of \<open>n\<close> words succeeds; the emitted code writes the descriptor at the
  allocation pointer and the fields after it, leaves the rest of memory as it is, gives the address
  after the descriptor, and moves the allocation pointer behind the record; the other registers
  stay as they are.\<close>

theorem record_allocated:
  assumes "ctx_ok s" "reg_has s \<sigma> ALLOC_PTR p" "holds s \<sigma> d (RI 64 w)" "0 \<le> w" "w < 2 ^ 64"
    "stands_for s \<sigma> args rs" "length args < 2 ^ 30"
  shows "runs (allocRecord d args) s \<sigma> (\<lambda>obj t \<tau>.
     holds t \<tau> obj (RP (p + 8)) \<and> reg_has t \<tau> ALLOC_PTR (p + 8 * of_nat (length args + 1)) \<and>
     (\<forall>r. r \<noteq> ALLOC_PTR \<longrightarrow> rs_get (cx_regState t) r = rs_get (cx_regState s) r) \<and>
     get 8 p (rv_mem \<tau>) = w \<and>
     (\<forall>i<length args. get 8 (p + 8 + 8 * of_nat i) (rv_mem \<tau>) = raw (rs ! i)) \<and>
     (\<forall>x. 8 * (length args + 1) \<le> unat (x - p) \<longrightarrow> rv_mem \<tau> x = rv_mem \<sigma> x))"
proof -
  from assms(2) obtain ap where ap: "rs_get (cx_regState s) ALLOC_PTR = Some ap" "holds s \<sigma> ap (RP p)"
    by (auto simp: reg_has_def)
  have n: "length rs = length args" using assms(6) by (auto dest: stands_for_length)
  have b: "\<forall>x\<in>set (w # map raw rs). 0 \<le> x \<and> x < 2 ^ 64"
    using assms(4,5,6) raw_bounds by (auto simp: stands_for_def list_all_iff)
  have rd: "get 8 (p + 8 * of_nat i) (write_words p (w # map raw rs) M) = (w # map raw rs) ! i"
    if "i \<le> length args" for i M
    using that n assms(7) b by (intro write_words_read) auto
  show ?thesis
    by (rule runs_allocRecord [OF assms(1) ap assms(3-7)])
      (use rd [of 0] rd [of "Suc i" for i] n in
        \<open>auto simp: allocated_def reg_has_def write_words_outside algebra_simps
           simp del: write_words.simps\<close>)
qed

lemma record_allocated_witness:
  "runs (allocRecord (VInt 64 66) [VArg 5 PtrTy, VInt 64 7]) work_ctx work_state (\<lambda>obj t \<tau>.
     holds t \<tau> obj (RP 4104) \<and> get 8 4096 (rv_mem \<tau>) = 66 \<and> get 8 4112 (rv_mem \<tau>) = 7)"
proof (rule runs_mono [OF record_allocated
    [where p = 4096 and w = 66 and rs = "[RP (4096 * 6), RI 64 7]"]])
  show "reg_has work_ctx work_state ALLOC_PTR 4096" by (rule work_reg_has [of 0]) simp_all
  show "holds work_ctx work_state (VInt 64 66) (RI 64 66)"
    using holds_int [of work_ctx work_state 64 66] by simp
  have "holds work_ctx work_state (VInt 64 7) (RI 64 7)"
    using holds_int [of work_ctx work_state 64 7] by simp
  then show "stands_for work_ctx work_state [VArg 5 PtrTy, VInt 64 7] [RP (4096 * 6), RI 64 7]"
    using work_holds(1) [of 5] by (simp add: stands_for_def ml_word_def)
qed (auto simp: raw_def)

section \<open>The write barrier\<close>

text \<open>After an assignment of \<open>v\<close> at \<open>x\<close>: the store list has \<open>x\<close> in front, in a cell at \<open>p\<close>, where
  the allocation pointer was, and the cell at \<open>x\<close> has the new value.\<close>

definition assigned ::
  "u64 \<Rightarrow> u64 list \<Rightarrow> u64 \<Rightarrow> u64 \<Rightarrow> int \<Rightarrow> cgctx \<Rightarrow> rstate \<Rightarrow> bool" where
  "assigned z xs p x v t \<tau> \<longleftrightarrow>
     store_list z (rv_mem \<tau>) p (x # xs) \<and> get 8 x (rv_mem \<tau>) = v \<and>
     reg_has t \<tau> STORE_PTR p \<and> reg_has t \<tau> ALLOC_PTR (p + 16)"

text \<open>The cells of the store list are disjoint from the space for the new one and from \<open>x\<close>.\<close>

definition room :: "mem \<Rightarrow> u64 \<Rightarrow> u64 list \<Rightarrow> u64 \<Rightarrow> u64 \<Rightarrow> bool" where
  "room M q xs p x \<longleftrightarrow>
     (\<forall>c\<in>set (cells M q xs). apart p 16 c 16 \<and> apart x 8 c 16) \<and> apart x 8 p 16"

text \<open>C12: the code of an assignment and of an array update pushes the address of the updated cell
  onto the store list and writes the new value, when the store list, the free space and the cell
  are disjoint.\<close>

theorem update_pushes:
  assumes "ctx_ok s" "holds s \<sigma> a (RP x)" "holds s \<sigma> i (RI w n)" "holds s \<sigma> v r" "ml_word r"
    "reg_has s \<sigma> ALLOC_PTR p" "reg_has s \<sigma> STORE_PTR q" "store_list z (rv_mem \<sigma>) q xs"
    and y: "y = x + 8 * word_of_int (sval w n)"
    and room: "room (rv_mem \<sigma>) q xs p x" "room (rv_mem \<sigma>) q xs p y"
  shows "runs (setter_codegen ASSIGN [a, v]) s \<sigma> (\<lambda>_. assigned z xs p x (raw r)) \<and>
    runs (setter_codegen UPDATE [a, i, v]) s \<sigma> (\<lambda>_. assigned z xs p y (raw r))"
proof -
  from assms(6,7) obtain ap sp where regs:
      "rs_get (cx_regState s) ALLOC_PTR = Some ap" "rs_get (cx_regState s) STORE_PTR = Some sp"
    and h: "holds s \<sigma> ap (RP p)" "holds s \<sigma> sp (RP q)"
    by (auto simp: reg_has_def)
  define \<Gamma> where "\<Gamma> = [(a, RP x), (i, RI w n), (v, r), (ap, RP p), (sp, RP q)]"
  have k: "known s \<sigma> (rs_get (cx_regState s)) (rv_mem \<sigma>) \<Gamma> s \<sigma>"
    using assms(1-4) h by (intro known_at) (auto simp: \<Gamma>_def)
  have fin: "assigned z xs p c (raw r) t \<tau>"
    if "room (rv_mem \<sigma>) q xs p c"
      and t: "known s \<sigma> ((rs_get (cx_regState s))(STORE_PTR := Some ap, ALLOC_PTR := Some ap'))
        (put 8 c (raw r) (write_words p [uint c, uint q] (rv_mem \<sigma>))) ((ap', RP (p + 16)) # \<Gamma>) t \<tau>"
    for c ap' t \<tau>
    unfolding assigned_def known_results(1) [OF t]
    using store_list_push [OF assms(8), of p c "raw r"] that(1) raw_bounds [OF assms(5)]
      known_reg [OF t, of STORE_PTR ap p] known_reg [OF t, of ALLOC_PTR ap' "p + 16"]
    by (simp add: room_def \<Gamma>_def)
  show ?thesis
    using fin room y
    by (intro conjI runs_ASSIGN [OF k] runs_UPDATE [OF k]) (auto simp: \<Gamma>_def regs assms(5))
qed

lemma update_pushes_witness:
  "runs (setter_codegen ASSIGN [VArg 5 PtrTy, VArg 4 PtrTy]) work_ctx work_state
     (\<lambda>_. assigned 12288 [] 4096 24576 20480)"
proof -
  have "runs (setter_codegen ASSIGN [VArg 5 PtrTy, VArg 4 PtrTy]) work_ctx work_state
      (\<lambda>_. assigned 12288 [] 4096 24576 (raw (RP 20480))) \<and>
    runs (setter_codegen UPDATE [VArg 5 PtrTy, VArg 6 i64Ty, VArg 4 PtrTy]) work_ctx work_state
      (\<lambda>_. assigned 12288 [] 4096 24616 (raw (RP 20480)))"
  proof (rule update_pushes [where w = 64 and n = 5])
    show "holds work_ctx work_state (VArg 5 PtrTy) (RP 24576)" using work_holds(1) [of 5] by simp
    show "holds work_ctx work_state (VArg 4 PtrTy) (RP 20480)" using work_holds(1) [of 4] by simp
    show "reg_has work_ctx work_state ALLOC_PTR 4096" by (rule work_reg_has [of 0]) simp_all
    show "reg_has work_ctx work_state STORE_PTR 12288" by (rule work_reg_has [of 2]) simp_all
  qed (simp_all add: sval_def room_def apart_def)
  then show ?thesis by (simp add: raw_def)
qed

section \<open>The heap check\<close>

text \<open>C11: the heap check compares the allocation pointer, plus the part of the amount that the
  slop does not cover, with the limit pointer; when the sum does not wrap around and the check does
  not ask for a collection, the amount is available below the limit and its slop.\<close>

theorem heap_check:
  assumes "ctx_ok s" "reg_has s \<sigma> ALLOC_PTR p" "reg_has s \<sigma> LIMIT_PTR l"
  shows "runs (branch_codegen (LIMIT amt) args) s \<sigma> (\<lambda>v t \<tau>.
    \<exists>b. holds t \<tau> v (RI 1 (of_bool b)) \<and> rv_mem \<tau> = rv_mem \<sigma> \<and>
      rs_get (cx_regState t) = rs_get (cx_regState s) \<and>
      b = (l < p + beyond_slop (cx_target s) amt) \<and>
      (unat p + unat (beyond_slop (cx_target s) amt) < 2 ^ 64 \<and> \<not> b \<longrightarrow>
        unat p + unat amt \<le> unat l + unat (ti_allocSlopSzb (cx_target s))))"
proof -
  let ?slop = "ti_allocSlopSzb (cx_target s)" and ?need = "beyond_slop (cx_target s) amt"
  from assms(2,3) obtain ap lp where regs:
      "rs_get (cx_regState s) ALLOC_PTR = Some ap" "rs_get (cx_regState s) LIMIT_PTR = Some lp"
    and h: "holds s \<sigma> ap (RP p)" "holds s \<sigma> lp (RP l)"
    by (auto simp: reg_has_def)
  have k: "known s \<sigma> (rs_get (cx_regState s)) (rv_mem \<sigma>) [(ap, RP p), (lp, RP l)] s \<sigma>"
    using assms(1) h by (intro known_at) auto
  have amt: "unat amt \<le> unat ?need + unat ?slop"
    by (auto simp: beyond_slop_def unat_sub word_less_nat_alt word_le_nat_alt unat_ucast_up)
  have avail: "unat p + unat amt \<le> unat l + unat ?slop"
    if "unat p + unat ?need < 2 ^ 64" "\<not> l < p + ?need"
  proof -
    have "unat (p + ?need) = unat p + unat ?need" using that(1) by (simp add: unat_word_ariths)
    then have "unat p + unat ?need \<le> unat l" using that(2) by (simp add: word_less_nat_alt)
    with amt show ?thesis by simp
  qed
  show ?thesis
    by (rule runs_LIMIT [OF k, where slop = ?slop])
      (use regs avail known_results in \<open>auto 0 3 simp flip: beyond_slop_def\<close>)
qed

lemma heap_check_witness:
  "runs (branch_codegen (LIMIT 16384) []) work_ctx work_state (\<lambda>v t \<tau>. holds t \<tau> v (RI 1 1))"
proof (rule runs_mono [OF heap_check [where p = 4096 and l = 8192]])
  show "reg_has work_ctx work_state ALLOC_PTR 4096" by (rule work_reg_has [of 0]) simp_all
  show "reg_has work_ctx work_state LIMIT_PTR 8192" by (rule work_reg_has [of 1]) simp_all
qed (auto simp: beyond_slop_def X86_64Info_def)

section \<open>Tests\<close>

text \<open>C10: for the comparisons of the source language, the emitted code compares its arguments, as
  signed or as unsigned numbers of the given size; a pointer counts as a number of 64 bits.\<close>

theorem comparison_correct:
  assumes "ctx_ok s" "holds s \<sigma> a ra" "holds s \<sigma> b rb" "int_size sz"
    "num_arg (nat sz) ra x" "num_arg (nat sz) rb y" "c \<in> {GT, GTE, LT, LTE, EQL, NEQ}"
  shows "runs (branch_codegen (CMP c sg sz) [a, b]) s \<sigma> (\<lambda>v t \<tau>.
    holds t \<tau> v (RI 1 (of_bool (compares c (as_num sg (nat sz) x) (as_num sg (nat sz) y)))) \<and>
    rv_mem \<tau> = rv_mem \<sigma> \<and> rs_get (cx_regState t) = rs_get (cx_regState s))"
proof -
  have "known s \<sigma> (rs_get (cx_regState s)) (rv_mem \<sigma>) [(a, ra), (b, rb)] s \<sigma>"
    using assms by (intro known_at) auto
  then show ?thesis
    by (rule runs_CMP [where x = x and y = y]) (use assms known_results in \<open>auto 0 3\<close>)
qed

lemma comparison_correct_witness:
  "runs (branch_codegen (CMP LT True 64) [VArg 6 i64Ty, VArg 7 i64Ty]) work_ctx work_state
     (\<lambda>v t \<tau>. holds t \<tau> v (RI 1 0)) \<and>
   runs (branch_codegen (CMP LT False 64) [VArg 6 i64Ty, VArg 7 i64Ty]) work_ctx work_state
     (\<lambda>v t \<tau>. holds t \<tau> v (RI 1 1))"
  by (intro conjI; rule runs_mono [OF comparison_correct
        [where ra = "RI 64 5" and rb = "RI 64 (2 ^ 63)" and x = 5 and y = "2 ^ 63"]])
    (simp_all add: num_arg_def int_size_def compares_def as_num_def sval_def)

text \<open>The sign test of a floating-point number of 32 or 64 bits gives its top bit.\<close>

theorem sign_test_correct:
  assumes "ctx_ok s" "holds s \<sigma> a (RFlt (sz = 64) x)" "sz = 32 \<or> sz = 64"
  shows "runs (branch_codegen (FSGN sz) [a]) s \<sigma> (\<lambda>v t \<tau>.
    holds t \<tau> v (RI 1 (of_bool (bit x (nat sz - 1)))) \<and>
    rv_mem \<tau> = rv_mem \<sigma> \<and> rs_get (cx_regState t) = rs_get (cx_regState s))"
proof -
  have "known s \<sigma> (rs_get (cx_regState s)) (rv_mem \<sigma>) [(a, RFlt (sz = 64) x)] s \<sigma>"
    using assms by (intro known_at) auto
  then show ?thesis
    by (rule runs_FSGN [where x = x]) (use assms known_results in \<open>auto 0 3\<close>)
qed

lemma sign_test_correct_witness:
  "runs (branch_codegen (FSGN 64) [VArg 8 DoubleTy]) work_ctx work_state
     (\<lambda>v t \<tau>. holds t \<tau> v (RI 1 1))"
  by (rule runs_mono [OF sign_test_correct [where x = "2 ^ 63"]]) (simp_all add: bit_exp_iff)

section \<open>Trapping arithmetic\<close>

text \<open>C8: trapping addition, subtraction and multiplication always succeed.  The code in the current
  block computes the wrapped result and whether the exact result is not representable, and ends
  with a branch to the overflow block in that case and to a new, empty block otherwise, which
  becomes the current one; memory and registers stay as they are.\<close>

theorem trapping_arithmetic:
  assumes "ctx_ok s" "overflow_ok s" "caches_ok s" "ir_insert s = Some c" "c < ir_nblocks s"
    "holds s \<sigma> a ra" "holds s \<sigma> b rb" "num_arg (nat sz) ra x" "num_arg (nat sz) rb y"
    "trapping op" "sz = 32 \<or> sz = 64" "z = arith_exact op (sval (nat sz) x) (sval (nat sz) y)"
  shows "\<exists>res t is \<tau> n obit ovfl nxt.
    ARITH_codegen op sz [a, b] s = Inr (res, t) \<and>
    bb_insts (ir_blocks t c) =
      bb_insts (ir_blocks s c) @ is @ [(n, CondBr obit ovfl nxt (Some overflowWeights))] \<and>
    exec \<sigma> is = Some \<tau> \<and> rv_mem \<tau> = rv_mem \<sigma> \<and>
    veval \<tau> res = Some (RI (nat sz) (take_bit (nat sz) z)) \<and>
    veval \<tau> obit = Some (RI 1 (of_bool (\<not> fits_signed (nat sz) z))) \<and>
    cx_overflowBB t = Some ovfl \<and> ir_insert t = Some nxt \<and> bb_insts (ir_blocks t nxt) = [] \<and>
    rs_get (cx_regState t) = rs_get (cx_regState s) \<and> overflow_ok t"
  by (rule ARITH_traps [OF assms])

lemma trapping_arithmetic_witness:
  "\<exists>res t is \<tau> n obit ovfl nxt.
    ARITH_codegen ISUB 64 [VArg 6 i64Ty, VArg 7 i64Ty] work_ctx = Inr (res, t) \<and>
    bb_insts (ir_blocks t 0) = is @ [(n, CondBr obit ovfl nxt (Some overflowWeights))] \<and>
    exec work_state is = Some \<tau> \<and> veval \<tau> obit = Some (RI 1 1)"
proof -
  have e: "bb_insts (ir_blocks work_ctx 0) = []"
    by (simp add: work_ctx_def sample_ctx_def Context_init_def empty_block_def)
  show ?thesis
    using trapping_arithmetic [of work_ctx 0 work_state "VArg 6 i64Ty" "RI 64 5" "VArg 7 i64Ty"
        "RI 64 (2 ^ 63)" 64 5 "2 ^ 63" ISUB, OF _ work_overflow_ok work_caches_ok]
    by (simp add: e num_arg_def trapping_def arith_exact_def fits_signed_def sval_def) blast
qed

text \<open>C13: asking for the overflow block always succeeds.  The block is made by the first request and
  shared by the later ones; each adds to its phi nodes, one for each machine register, an edge from
  the current block with the value that the register has there.\<close>

theorem overflow_block_shared:
  assumes "overflow_ok s" "ir_insert s = Some c"
  shows "\<exists>ob t. getOverflowBB s = Inr (ob, t) \<and> overflow_ok t \<and>
    cx_overflowBB t = Some ob \<and> ir_insert t = Some c \<and> cx_regState t = cx_regState s \<and>
    (case cx_overflowBB s of
       Some b \<Rightarrow> ob = b \<and> ir_nblocks t = ir_nblocks s \<and> ir_blocks t = ir_blocks s
     | None \<Rightarrow> ob = ir_nblocks s \<and> ir_nblocks t = ir_nblocks s + 1 \<and>
         (\<forall>b. b \<noteq> ob \<longrightarrow> ir_blocks t b = ir_blocks s b)) \<and>
    (\<exists>ns. cx_overflowPhiNodes t = map (\<lambda>n. VInst n PtrTy) ns \<and> distinct ns \<and>
       length ns = numMachineRegs (cx_regInfo s) \<and>
       (\<forall>i<length ns. \<exists>v. rs_get (cx_regState s) (ri_id (machineReg (cx_regInfo s) i)) = Some v \<and>
          ir_phis t (ns ! i) = ir_phis s (ns ! i) @ [(v, c)]) \<and>
       (\<forall>n. n \<notin> set ns \<longrightarrow> ir_phis t n = ir_phis s n))"
proof -
  obtain ob t where run: "getOverflowBB s = Inr (ob, t)" "overflow_ok t" "edge_added c s ob t"
    using does_getOverflowBB [OF assms, of "\<lambda>ob t. overflow_ok t \<and> edge_added c s ob t"]
    by (auto simp: does_def)
  have v: "rs_get (cx_regState s) (ri_id (machineReg (cx_regInfo s) i)) = Some (reg_val s i)"
    if "i < numMachineRegs (cx_regInfo s)" for i
    using assms(1) that by (auto simp: overflow_ok_def reg_val_def)
  note edge = run(3) [unfolded edge_added_def]
  from edge obtain ns where ns: "cx_overflowPhiNodes t = map (\<lambda>n. VInst n PtrTy) ns" "distinct ns"
    "length ns = numMachineRegs (cx_regInfo s)"
    "\<forall>i<length ns. ir_phis t (ns ! i) = ir_phis s (ns ! i) @ [(reg_val s i, c)]"
    "\<forall>n. n \<notin> set ns \<longrightarrow> ir_phis t n = ir_phis s n"
    by blast
  have edges: "\<forall>i<length ns. \<exists>v. rs_get (cx_regState s) (ri_id (machineReg (cx_regInfo s) i)) = Some v \<and>
      ir_phis t (ns ! i) = ir_phis s (ns ! i) @ [(v, c)]"
    using ns(3,4) v by simp
  show ?thesis
    by (rule exI [of _ ob], rule exI [of _ t], intro conjI exI [of _ ns] run(1,2) ns edges)
      (use edge in simp_all)
qed

lemma overflow_block_shared_witness:
  "\<exists>ob t. getOverflowBB work_ctx = Inr (ob, t) \<and> cx_overflowBB t = Some ob \<and>
     ir_nblocks t = 2 \<and> length (cx_overflowPhiNodes t) = 3"
proof -
  have n: "cx_overflowBB work_ctx = None"
    "numMachineRegs (CMRegs_new (Some (X86_64Info sample_build))) = 3"
    by (simp_all add: work_ctx_def sample_ctx_def run_defs)
  show ?thesis
    using overflow_block_shared [of work_ctx 0, OF work_overflow_ok] by (auto simp: n)
qed

section \<open>Raw records\<close>

lemma raw_record_memory:
  fixes d :: u64
  assumes f: "list_all2 fits flds rs" "raw_bump flds < 2 ^ 31"
    and M: "M = put_fields (p + 8) 0 (zip flds rs) (put 8 p (uint d) M0)"
  shows "get 8 p M = uint d"
    and "i < length flds \<Longrightarrow> fld_bytes (flds ! i) dvd field_offsets 0 flds ! i \<and>
      get (nat (fld_bytes (flds ! i))) (p + 8 + word_of_int (field_offsets 0 flds ! i)) M = raw (rs ! i)"
    and "8 + fields_end 0 flds \<le> int (unat (x - p)) \<Longrightarrow> M x = M0 x"
proof -
  have ok: "list_all fld_ok flds" using f(1) by (auto simp: list_all_length list_all2_conv_all_nth fits_def)
  have e: "0 \<le> fields_end 0 flds" "fields_end 0 flds < 2 ^ 31"
    using fields_end_ge [OF ok] align_up_bounds [of 8 "fields_end 0 flds"] f(2)
    by (auto simp: raw_bump_def)
  have fs: "list_all (\<lambda>fr. fld_ok (fst fr)) (zip flds rs)" "map fst (zip flds rs) = flds"
    using ok f(1) by (auto simp: list_all_length list_all2_lengthD)
  have out: "M y = put 8 p (uint d) M0 y" if "fields_end 0 flds \<le> int (unat (y - (p + 8)))" for y
    unfolding M using fs that e by (intro put_fields_elsewhere) auto
  have far: "2 ^ 64 - 8 \<le> int (unat (p + of_nat j - (p + 8)))" if "j < 8" for j :: nat
  proof -
    have "p + of_nat j - (p + 8) = - of_nat (8 - j)" using that by (simp add: of_nat_diff)
    then show ?thesis using that unat_neg [of "8 - j"] by simp
  qed
  have "get 8 p M = get 8 p (put 8 p (uint d) M0)"
    by (rule get_cong, rule out) (use far e in force)
  then show "get 8 p M = uint d" using uint64_less [of d] by (simp add: get_put_same)
  show "fld_bytes (flds ! i) dvd field_offsets 0 flds ! i \<and>
      get (nat (fld_bytes (flds ! i))) (p + 8 + word_of_int (field_offsets 0 flds ! i)) M = raw (rs ! i)"
    if "i < length flds" for i
    unfolding M using field_offsets_bounds [OF ok that] f(1) that e by (auto intro!: put_fields_read)
  show "M x = M0 x" if "8 + fields_end 0 flds \<le> int (unat (x - p))"
  proof -
    have x: "8 \<le> unat (x - p)" using that e by linarith
    then have "unat (x - (p + 8)) = unat (x - p) - 8"
      using unat_sub [of 8 "x - p"] by (simp add: word_le_iff diff_diff_eq)
    then have "fields_end 0 flds \<le> int (unat (x - (p + 8)))" using that x by linarith
    from out [OF this] show ?thesis by (simp only: put_outside [OF x])
  qed
qed

text \<open>C28: allocating a raw record succeeds; the code writes the descriptor at the allocation pointer
  and each field, in its own size, at an offset aligned to its size, the fields one after the other
  without overlap; no other memory changes.  The allocation pointer is moved by eight times the
  size of the fields rounded up to words, where the size itself would do.\<close>

theorem raw_record_allocated:
  assumes "ctx_ok s" "reg_has s \<sigma> ALLOC_PTR p" "toUInt64 desc = Some d"
    "length args = length flds" "list_all2 (holds s \<sigma>) args rs" "list_all2 fits flds rs"
    "raw_bump flds < 2 ^ 31"
  shows "runs (RAW_RECORD_codegen desc flds args) s \<sigma> (\<lambda>obj t \<tau>.
    holds t \<tau> obj (RP (p + 8)) \<and> get 8 p (rv_mem \<tau>) = uint d \<and>
    (\<forall>i<length flds.
       fld_bytes (flds ! i) dvd field_offsets 0 flds ! i \<and>
       get (nat (fld_bytes (flds ! i))) (p + 8 + word_of_int (field_offsets 0 flds ! i)) (rv_mem \<tau>) =
         raw (rs ! i)) \<and>
    (\<forall>x. 8 + fields_end 0 flds \<le> int (unat (x - p)) \<longrightarrow> rv_mem \<tau> x = rv_mem \<sigma> x) \<and>
    reg_has t \<tau> ALLOC_PTR (p + 8 + 8 * word_of_int (raw_bump flds)))"
proof -
  from assms(2) obtain ap where ap: "rs_get (cx_regState s) ALLOC_PTR = Some ap" "holds s \<sigma> ap (RP p)"
    by (auto simp: reg_has_def)
  define \<Gamma> where "\<Gamma> = (ap, RP p) # zip args rs"
  have n: "length rs = length args" using assms(5) by (simp add: list_all2_lengthD)
  have k: "known s \<sigma> (rs_get (cx_regState s)) (rv_mem \<sigma>) \<Gamma> s \<sigma>"
    using assms(1,5) ap n by (intro known_at) (auto simp: \<Gamma>_def list_all2_iff)
  have args: "list_all2 (\<lambda>v r. (v, r) \<in> set \<Gamma>) args rs"
    using n by (auto simp: \<Gamma>_def list_all2_conv_all_nth set_zip)
  define M where "M = put_fields (p + 8) 0 (zip flds rs) (put 8 p (uint d) (rv_mem \<sigma>))"
  show ?thesis
    by (rule runs_RAW_RECORD [OF k ap(1) _ assms(3,4) args assms(6,7)])
      (auto simp: \<Gamma>_def M_def [symmetric] raw_record_memory [OF assms(6,7) M_def] known_results
        intro: known_reg)
qed

lemma raw_record_allocated_witness:
  "runs (RAW_RECORD_codegen (integer_of_uint64 18)
      [\<lparr>rt_kind = INT_k, rt_sz = 8\<rparr>, \<lparr>rt_kind = FLT, rt_sz = 64\<rparr>] [VInt 8 7, VArg 8 DoubleTy])
    work_ctx work_state (\<lambda>obj t \<tau>. holds t \<tau> obj (RP 4104) \<and> get 1 4104 (rv_mem \<tau>) = 7 \<and>
      get 8 4112 (rv_mem \<tau>) = 2 ^ 63 \<and> reg_has t \<tau> ALLOC_PTR (4104 + 128))"
proof (rule runs_mono [OF raw_record_allocated
    [where p = 4096 and d = 18 and rs = "[RI 8 7, RFlt True (2 ^ 63)]"]])
  show "reg_has work_ctx work_state ALLOC_PTR 4096" by (rule work_reg_has [of 0]) simp_all
  have "holds work_ctx work_state (VInt 8 7) (RI 8 7)"
    using holds_int [of work_ctx work_state 8 7] by simp
  then show "list_all2 (holds work_ctx work_state) [VInt 8 7, VArg 8 DoubleTy]
      [RI 8 7, RFlt True (2 ^ 63)]" by simp
  let ?fs = "[\<lparr>rt_kind = INT_k, rt_sz = 8\<rparr>, \<lparr>rt_kind = FLT, rt_sz = 64\<rparr>]"
  show "list_all2 fits ?fs [RI 8 7, RFlt True (2 ^ 63)]" by (simp add: fits_def fld_ok_def)
  have b: "fld_bytes \<lparr>rt_kind = INT_k, rt_sz = 8\<rparr> = 1" "fld_bytes \<lparr>rt_kind = FLT, rt_sz = 64\<rparr> = 8"
    by (simp_all add: fld_bytes_def)
  have bump: "raw_bump ?fs = 16" "field_offsets 0 ?fs = [0, 8]"
    by (simp_all add: raw_bump_def b align_up_def)
  show "raw_bump ?fs < 2 ^ 31" by (simp add: bump)
  fix obj t \<tau>
  assume *: "holds t \<tau> obj (RP (4096 + 8)) \<and> get 8 4096 (rv_mem \<tau>) = uint (18 :: u64) \<and>
    (\<forall>i<length ?fs. fld_bytes (?fs ! i) dvd field_offsets 0 ?fs ! i \<and>
       get (nat (fld_bytes (?fs ! i))) (4096 + 8 + word_of_int (field_offsets 0 ?fs ! i)) (rv_mem \<tau>) =
         raw ([RI 8 7, RFlt True (2 ^ 63)] ! i)) \<and>
    (\<forall>x. 8 + fields_end 0 ?fs \<le> int (unat (x - 4096)) \<longrightarrow> rv_mem \<tau> x = rv_mem work_state x) \<and>
    reg_has t \<tau> ALLOC_PTR (4096 + 8 + 8 * word_of_int (raw_bump ?fs))"
  then have "get (nat (fld_bytes (?fs ! i))) (4096 + 8 + word_of_int (field_offsets 0 ?fs ! i)) (rv_mem \<tau>) =
      raw ([RI 8 7, RFlt True (2 ^ 63)] ! i)" if "i < 2" for i
    using that by simp
  from this [of 0] this [of 1] * show "holds t \<tau> obj (RP 4104) \<and> get 1 4104 (rv_mem \<tau>) = 7 \<and>
      get 8 4112 (rv_mem \<tau>) = 2 ^ 63 \<and> reg_has t \<tau> ALLOC_PTR (4104 + 128)"
    by (simp add: b bump raw_def align_up_def)
qed (simp_all add: integer_of_uint64_def toUInt64_def)

text \<open>C27: allocating raw memory with an alignment of a power of two above 8 gives an object that is
  aligned so, with the descriptor in front of it, at most the alignment above the allocation
  pointer, which is moved behind the object; no other memory changes.\<close>

theorem raw_memory_allocated:
  assumes "ctx_ok s" "reg_has s \<sigma> ALLOC_PTR p" "toUInt64 desc = Some d"
    "p AND mask 3 = 0" "align = 2 ^ k" "3 \<le> k" "k < 64" "0 \<le> len" "len + 8 < 2 ^ 31"
  shows "runs (RAW_ALLOC_codegen (Some desc) align len args) s \<sigma> (\<lambda>obj t \<tau>. \<exists>a.
    holds t \<tau> obj (RP a) \<and> 2 ^ k dvd unat a \<and> unat (a - 8 - p) \<le> 2 ^ k - 8 \<and>
    get 8 (a - 8) (rv_mem \<tau>) = uint d \<and> reg_has t \<tau> ALLOC_PTR (a + word_of_int len) \<and>
    (\<forall>x. 8 \<le> unat (x - (a - 8)) \<longrightarrow> rv_mem \<tau> x = rv_mem \<sigma> x))"
proof -
  from assms(2) obtain ap where ap: "rs_get (cx_regState s) ALLOC_PTR = Some ap" "holds s \<sigma> ap (RP p)"
    by (auto simp: reg_has_def)
  have k: "known s \<sigma> (rs_get (cx_regState s)) (rv_mem \<sigma>) [(ap, RP p)] s \<sigma>"
    using assms(1) ap by (intro known_at) auto
  define a where "a = raw_start p align + 8"
  have start: "raw_start p align = a - 8" "2 ^ k dvd unat a" "unat (a - 8 - p) \<le> 2 ^ k - 8"
    using raw_start_aligned [OF assms(4,6,7)] by (simp_all add: a_def assms(5))
  have "get 8 (a - 8) (put 8 (a - 8) (uint d) (rv_mem \<sigma>)) = uint d"
    using uint64_less [of d] by (simp add: get_put_same)
  then show ?thesis
    by (intro runs_RAW_ALLOC [OF k ap(1) _ assms(3,8,9)] exI [of _ a])
      (auto simp: start known_results put_outside add_ac intro: known_reg)
qed

lemma raw_memory_allocated_witness:
  "runs (RAW_ALLOC_codegen (Some (integer_of_uint64 18)) 64 256 []) work_ctx work_state
     (\<lambda>obj t \<tau>. \<exists>a. holds t \<tau> obj (RP a) \<and> 64 dvd unat a)"
proof (rule runs_mono [OF raw_memory_allocated [where p = 4096 and d = 18 and k = 6]])
  show "reg_has work_ctx work_state ALLOC_PTR 4096" by (rule work_reg_has [of 0]) simp_all
qed (auto simp: integer_of_uint64_def toUInt64_def mask_eq_exp_minus_1)

end
