(* ===== verification/Stm_Init.thy ===== *)
theory Stm_Init
  imports Module_Structure Overflow_Block
begin

text \<open>
  Initialisation of statements always succeeds inside a function; it adds one empty block for
  each statement that starts one, in order, and changes nothing else of the statement.
\<close>

text \<open>A statement without its blocks.\<close>

fun erase :: "stm \<Rightarrow> stm" where
  "erase (LET _ e p k) = LET None e p (erase k)"
| "erase (ALLOC _ a es x k) = ALLOC None a es x (erase k)"
| "erase (APPLY _ f args tys) = APPLY None f args tys"
| "erase (THROW _ f args tys) = THROW None f args tys"
| "erase (GOTO _ lab args) = GOTO None lab args"
| "erase (SWITCH _ e arms) = SWITCH None e (map erase arms)"
| "erase (BRANCH _ br es prob k1 k2) = BRANCH None br es prob (erase k1) (erase k2)"
| "erase (ARITH _ a es p k) = ARITH None a es p (erase k)"
| "erase (SETTER _ op es k) = SETTER None op es (erase k)"
| "erase (CALLGC _ roots newRoots k) = CALLGC None roots newRoots (erase k)"
| "erase (RCC _ reentrant linkage proto args results live k) =
     RCC None reentrant linkage proto args results live (erase k)"

definition inits :: "cgctx \<Rightarrow> stm \<Rightarrow> stm \<Rightarrow> cgctx \<Rightarrow> bool" where
  "inits s k k' t \<longleftrightarrow> erase k' = erase k \<and> cx_curFn t = cx_curFn s"

lemma does_initBB:
  assumes "cx_curFn s \<noteq> None" "\<And>b t. cx_curFn t = cx_curFn s \<Longrightarrow> Q b t"
  shows "does (initBB ent) s Q"
proof -
  obtain f where "cx_curFn s = Some f" using assms(1) by blast
  then show ?thesis
    unfolding initBB_def using assms(2)
    by (auto intro!: does_bind does_newBB does_return)
qed

lemma does_arms:
  assumes "\<And>a s. a \<in> set arms \<Longrightarrow> cx_curFn s \<noteq> None \<Longrightarrow> does (stm_init a True) s (inits s a)"
    "cx_curFn s \<noteq> None"
  shows "does (cmap (\<lambda>a. stm_init a True) arms) s
    (\<lambda>as t. map erase as = map erase arms \<and> cx_curFn t = cx_curFn s)"
  using assms
proof (induction arms arbitrary: s)
  case Nil
  then show ?case by (simp add: does_return)
next
  case (Cons a arms)
  have "does (stm_init a True) s (inits s a)" using Cons.prems by simp
  then show ?case
    unfolding cmap.simps
  proof (intro does_bind, elim does_mono, intro does_bind)
    fix a' t assume a': "inits s a a' t"
    then have "cx_curFn t \<noteq> None" using Cons.prems(2) by (simp add: inits_def)
    from Cons.IH [OF Cons.prems(1) this]
    have "does (cmap (\<lambda>a. stm_init a True) arms) t
        (\<lambda>as t'. map erase as = map erase arms \<and> cx_curFn t' = cx_curFn t)" by simp
    then show "does (cmap (\<lambda>a. stm_init a True) arms) t
        (\<lambda>as t. does (creturn (a' # as)) t (\<lambda>as t. map erase as = map erase (a # arms) \<and> cx_curFn t = cx_curFn s))"
      by (rule does_mono) (use a' in \<open>auto simp: inits_def intro!: does_return\<close>)
  qed
qed

lemma does_seq:
  assumes "cx_curFn s \<noteq> None" "\<And>t. cx_curFn t \<noteq> None \<Longrightarrow> does (stm_init k False) t (inits t k)"
    "\<And>b k'. erase k' = erase k \<Longrightarrow> erase (F b k') = erase K"
  shows "does (cbind (initBB ent) (\<lambda>b. cbind (stm_init k False) (\<lambda>k. creturn (F b k)))) s (inits s K)"
  apply (intro does_bind, rule does_initBB [OF assms(1)])
  apply (intro does_bind, rule does_mono, rule assms(2), use assms(1) in simp)
  by (intro does_return) (use assms(3) in \<open>simp add: inits_def\<close>)

lemma does_end:
  assumes "cx_curFn s \<noteq> None" "\<And>b. erase (F b) = erase K"
  shows "does (cbind (initBB ent) (\<lambda>b. creturn (F b))) s (inits s K)"
  by (intro does_bind does_initBB [OF assms(1)] does_return) (simp add: inits_def assms(2))

lemma does_stm_init: "cx_curFn s \<noteq> None \<Longrightarrow> does (stm_init k ent) s (inits s k)"
proof (induction k arbitrary: ent s rule: erase.induct)
  case (6 b e arms)
  show ?case
    unfolding stm_init.simps
    apply (intro does_bind, rule does_initBB [OF 6(2)])
    apply (intro does_bind, rule does_mono, rule does_arms, erule 6(1), assumption)
    by (use 6(2) in simp, intro does_return, simp add: inits_def)
next
  case (7 b br es prob k1 k2)
  show ?case
    unfolding stm_init.simps
    apply (intro does_bind, rule does_initBB [OF 7(3)])
    apply (intro does_bind, rule does_mono, rule 7(1), use 7(3) in simp)
    apply (intro does_bind, rule does_mono, rule 7(2), use 7(3) in \<open>simp add: inits_def\<close>)
    by (intro does_return) (simp add: inits_def)
qed (unfold stm_init.simps, (rule does_seq does_end; simp)+)

end
