(* ===== verification/Transfers.thy ===== *)
theory Transfers
  imports Module_Structure
begin

text \<open>
  Transfers of control: the arguments of calls have the types of the callee's parameters, a jump
  adds one value of the right type to each phi node, and every arm of a branch starts with the
  registers of the branch.
\<close>

section \<open>Types of generated values\<close>

definition fold_typed :: "(instr \<Rightarrow> value option) \<Rightarrow> bool" where
  "fold_typed f \<longleftrightarrow> (\<forall>i v. f i = Some v \<longrightarrow> type_of v = instr_ty i)"

lemma ir_append_type: "ir_append i s = Inr (v, t) \<Longrightarrow> type_of v = instr_ty i \<and> ir_phis t = ir_phis s"
  by (auto simp: ir_append_def Let_def split: option.splits)

lemma ir_create_type:
  "ir_create i s = Inr (v, t) \<Longrightarrow> fold_typed (ir_fold s) \<Longrightarrow> type_of v = instr_ty i \<and> ir_phis t = ir_phis s"
  by (auto simp: ir_create_def fold_typed_def dest: ir_append_type split: option.splits)

lemma CreateCast_type:
  "CreateCast op v ty s = Inr (w, t) \<Longrightarrow> fold_typed (ir_fold s) \<Longrightarrow> type_of w = ty \<and> ir_phis t = ir_phis s"
  by (auto simp: CreateCast_def creturn_def dest: ir_create_type split: if_splits)

lemma coerce_arg_type:
  assumes "coerce_arg ty v s = Inr (w, t)" "fold_typed (ir_fold s)"
  shows "type_of w = ty" "ir_phis t = ir_phis s" "type_of v = ty \<Longrightarrow> w = v"
  using assms
  by (auto simp: coerce_arg_def castTy_def creturn_def cfail_def dest: CreateCast_type split: if_splits)

lemma straight_fold: "straight m \<Longrightarrow> m s = Inr (x, t) \<Longrightarrow> ir_fold t = ir_fold s"
  by (auto dest!: straightD simp: kept_def)

section \<open>Calls\<close>

lemma setup_args_types:
  assumes "setup_args ft i es s = Inr (vs, t)" "fold_typed (ir_fold s)"
  shows "length vs = length es \<and> (es \<noteq> [] \<longrightarrow> i + length es \<le> length (ft_params ft)) \<and>
    map type_of vs = take (length es) (drop i (ft_params ft))"
  using assms
proof (induction es arbitrary: i s vs)
  case Nil
  then show ?case by (simp add: creturn_def)
next
  case (Cons e es)
  from Cons.prems(1) obtain v s1 ty s2 w s3 ws where
    1: "exp_codegen e s = Inr (v, s1)" and 2: "cnth (ft_params ft) i s1 = Inr (ty, s2)"
    and 3: "coerce_arg ty v s2 = Inr (w, s3)" and 4: "setup_args ft (i + 1) es s3 = Inr (ws, t)"
    and vs: "vs = w # ws"
    by (auto elim!: cbind_InrE simp: creturn_def)
  have i: "i < length (ft_params ft)" "ty = ft_params ft ! i" "s2 = s1"
    using 2 by (auto simp: cnth_def creturn_def cfail_def split: if_splits)
  have f: "fold_typed (ir_fold s2)" "fold_typed (ir_fold s3)"
    using Cons.prems(2) straight_fold [OF straight.keeps_exp 1] straight_fold [OF straight.keeps_coerce_arg 3] i(3)
    by simp_all
  from Cons.IH [OF 4 f(2)] coerce_arg_type(1) [OF 3 f(1)] i(1,2) vs
  show ?case by (cases es) (auto simp: Cons_nth_drop_Suc [symmetric])
qed

text \<open>The registers hold pointers, and the base pointer is a number.\<close>

definition regs_typed :: "cgctx \<Rightarrow> bool" where
  "regs_typed s \<longleftrightarrow>
     (\<forall>r v. rs_get (cx_regState s) r = Some v \<longrightarrow> type_of v = PtrTy) \<and>
     (\<forall>v. getBasePtr (cx_regState s) = Some v \<longrightarrow> type_of v = cx_intTy s)"

lemma reg_value_eq: "reg_value r s = Inr (v, t) \<longleftrightarrow> rs_get (cx_regState s) r = Some v \<and> t = s"
  by (auto simp: reg_value_def cbind_def cget_def cthe_def creturn_def cfail_def split: option.splits)

lemma cmap_regs:
  "cmap (\<lambda>i. reg_value (ri_id (machineReg ri i))) is s = Inr (vs, t) \<Longrightarrow> regs_typed s \<Longrightarrow>
     t = s \<and> map type_of vs = replicate (length is) PtrTy"
proof (induction "is" arbitrary: vs)
  case (Cons i js)
  then show ?case by (auto elim!: cbind_InrE simp: reg_value_eq creturn_def regs_typed_def)
qed (simp add: creturn_def)

lemma createArgs_types:
  assumes "createArgs k n s = Inr (vs, t)" "regs_typed s"
  shows "t = s \<and> createParamTys k n s = Inr (map type_of vs, s)"
proof -
  from assms(1) obtain info s1 as s2 where
    1: "getArgInfo k s = Inr (info, s1)" and 2: "addExtraArgs [] info s1 = Inr (as, s2)"
    and vs: "vs = as @ replicate (nUnused info) (VUndef mlValueTy)" "t = s2"
    unfolding createArgs_def by (auto elim!: cbind_InrE simp: creturn_def)
  have s1: "s1 = s"
    using 1 unfolding getArgInfo_def
    by (auto elim!: cbind_InrE simp: cget_def creturn_def cfail_def split: frag_kind.splits option.splits)
  from 2 obtain regs where regs: "map type_of regs = replicate (nExtra info) PtrTy" "s2 = s"
    and as: "map type_of as = map type_of regs @ (if nBasePtr info \<noteq> 0 then [cx_intTy s] else [])"
    unfolding addExtraArgs_def s1 using assms(2)
    by (auto elim!: cbind_InrE dest!: cmap_regs
        simp: cget_def creturn_def cfail_def cthe_def regs_typed_def split: if_splits option.splits)
  show ?thesis
    using 1 vs as regs
    by (simp add: createParamTys_def addExtraParamTys_def s1 cbind_def cget_def creturn_def)
qed

text \<open>The arguments of a call fit the type of the callee, when that is the type for the kind of the
  callee and as many arguments.\<close>

lemma SetupStdArgs_types:
  assumes run: "SetupStdArgs ft k es s = Inr (vs, t)" and typed: "fold_typed (ir_fold s)" "regs_typed s"
    and ft: "createFnTy k tys s = Inr (ft, s')" "length tys = length es"
  shows "map type_of vs = ft_params ft"
proof -
  from run obtain as s1 bs where 1: "createArgs k (length es) s = Inr (as, s1)"
    and 2: "setup_args ft (length as) es s1 = Inr (bs, t)" and vs: "vs = as @ bs"
    unfolding SetupStdArgs_def by (auto elim!: cbind_InrE simp: creturn_def)
  note as = createArgs_types [OF 1 typed(2)]
  have ps: "ft_params ft = map type_of as @ tys"
    using ft as by (simp add: createFnTy_def cbind_def creturn_def) auto
  have "map type_of bs = take (length es) (drop (length as) (ft_params ft))"
    using setup_args_types [OF 2] typed(1) as by simp
  then show ?thesis using ft(2) by (simp add: vs ps)
qed

section \<open>\<open>APPLY\<close> and \<open>THROW\<close>\<close>

lemma straight_steps:
  assumes "straight m" "keeps quiet m" "m s = Inr (x, t)"
  shows "kept s t" "quiet s t"
  using straightD [OF assms(1,3)] keepsD [OF assms(2,3)] by simp_all

lemma getArgInfo_kept:
  "kept s u \<Longrightarrow> getArgInfo k s = Inr (info, s') \<Longrightarrow> getArgInfo k u = Inr (info, u)"
  unfolding getArgInfo_def
  by (auto simp: kept_def cbind_def cget_def creturn_def cfail_def split: frag_kind.splits option.splits)

lemma createFnTy_eq:
  "createFnTy k tys s = Inr (ft, s') \<longleftrightarrow>
     (\<exists>info. getArgInfo k s = Inr (info, s) \<and> s' = s \<and>
        ft = \<lparr>ft_ret = VoidTy, ft_params = replicate (nExtra info) PtrTy @
          (if nBasePtr info \<noteq> 0 then [cx_intTy s] else []) @ replicate (nUnused info) mlValueTy @ tys\<rparr>)"
  (is "?l \<longleftrightarrow> ?r")
proof
  assume ?l
  then obtain info u where u: "getArgInfo k s = Inr (info, u)"
    unfolding createFnTy_def createParamTys_def by (auto elim!: cbind_InrE)
  with readsD [OF reads_getArgInfo] have "u = s" by blast
  with \<open>?l\<close> u show ?r
    by (simp add: createFnTy_def createParamTys_def addExtraParamTys_def cbind_def cget_def creturn_def)
next
  assume ?r
  then show ?l
    by (auto simp: createFnTy_def createParamTys_def addExtraParamTys_def cbind_def cget_def creturn_def)
qed

lemma createFnTy_kept:
  "kept s u \<Longrightarrow> createFnTy k tys s = Inr (ft, s') \<Longrightarrow> createFnTy k tys u = Inr (ft, u)"
proof -
  assume k: "kept s u" and "createFnTy k tys s = Inr (ft, s')"
  then obtain info where info: "getArgInfo k s = Inr (info, s)" and
    ft: "ft = \<lparr>ft_ret = VoidTy, ft_params = replicate (nExtra info) PtrTy @
      (if nBasePtr info \<noteq> 0 then [cx_intTy s] else []) @ replicate (nUnused info) mlValueTy @ tys\<rparr>"
    unfolding createFnTy_eq by blast
  have "cx_intTy u = cx_intTy s" using k by (simp add: kept_def)
  with getArgInfo_kept [OF k info] ft show ?thesis
    unfolding createFnTy_eq by (intro exI [of _ info]) simp
qed

lemma reads_genTypes: "reads (genTypes tys)"
  unfolding genTypes_def by (intro frame_intros)

text \<open>The entry of a known cluster has the type for its kind and its parameters.\<close>

definition label_ok :: "cgctx \<Rightarrow> exp \<Rightarrow> nat \<Rightarrow> bool" where
  "label_ok s e n \<longleftrightarrow>
     (\<forall>lab c en f. e = LABEL lab \<longrightarrow> cx_clusterMap s lab = Some c \<longrightarrow> cluster_entry c = Some en \<longrightarrow>
        c_fn c = Some f \<longrightarrow>
        (\<exists>tys. createFnTy (f_kind en) tys s = Inr (fn_ty (ir_fns s ! f), s) \<and> length tys = n))"

lemma genTypes_length: "genTypes tys s = Inr (ts, t) \<Longrightarrow> length ts = length tys"
  unfolding genTypes_def
  by (induction tys arbitrary: s ts) (auto elim!: cbind_InrE simp: creturn_def)

lemma callee_quiet: "keeps quiet (APPLY_callee e tys)" "straight (APPLY_callee e tys)"
  by (rule quiet.keeps_APPLY_callee straight.keeps_APPLY_callee)+

lemma APPLY_callee_type:
  assumes run: "APPLY_callee e tys s = Inr ((k, ft, fn), u)" and ok: "label_ok s e (length tys)"
  shows "\<exists>atys. createFnTy k atys u = Inr (ft, u) \<and> length atys = length tys"
proof -
  have ku: "kept s u"
    using straight_steps [OF straight.keeps_APPLY_callee quiet.keeps_APPLY_callee run] by simp
  show ?thesis
  proof (cases "\<exists>lab. e = LABEL lab")
    case True
    then obtain lab where e: "e = LABEL lab" by blast
    from run obtain c en f where c: "cx_clusterMap s lab = Some c" "cluster_entry c = Some en"
      "c_fn c = Some f" "k = f_kind en" "ft = fn_ty (ir_fns s ! f)"
      unfolding e
      by (auto elim!: cbind_InrE simp: APPLY_callee_def lookupCluster_def cluster_fn_def fn_type_def
          cnth_def cthe_def cget_def creturn_def cfail_def split: option.splits if_splits)
    with ok e obtain atys where "createFnTy k atys s = Inr (ft, s)" "length atys = length tys"
      unfolding label_ok_def by metis
    with createFnTy_kept [OF ku] show ?thesis by blast
  next
    case False
    with run obtain ts s1 s2 where ts: "genTypes tys s = Inr (ts, s1)" "createFnTy STD_FUN ts s1 = Inr (ft, s2)"
      "k = STD_FUN"
      by (cases e) (auto elim!: cbind_InrE simp: APPLY_callee_def creturn_def)
    have "s1 = s" by (rule readsD [OF reads_genTypes ts(1)])
    with ts createFnTy_kept [OF ku] genTypes_length [OF ts(1)] show ?thesis by blast
  qed
qed

lemma THROW_callee_type:
  assumes run: "THROW_callee e tys s = Inr ((ft, fn), u)"
    and ok: "label_ok s e (length tys)"
    and cont: "\<And>lab c. e = LABEL lab \<Longrightarrow> cx_clusterMap s lab = Some c \<Longrightarrow>
      \<exists>en. cluster_entry c = Some en \<and> f_kind en = STD_CONT"
  shows "\<exists>atys. createFnTy STD_CONT atys u = Inr (ft, u) \<and> length atys = length tys"
proof -
  have ku: "kept s u"
    using straight_steps [OF straight.keeps_THROW_callee quiet.keeps_THROW_callee run] by simp
  show ?thesis
  proof (cases "\<exists>lab. e = LABEL lab")
    case True
    then obtain lab where e: "e = LABEL lab" by blast
    from run obtain c f where c: "cx_clusterMap s lab = Some c"
      "c_fn c = Some f" "ft = fn_ty (ir_fns s ! f)"
      unfolding e
      by (auto elim!: cbind_InrE simp: THROW_callee_def lookupCluster_def cluster_fn_def fn_type_def
          cnth_def cthe_def cget_def creturn_def cfail_def split: option.splits if_splits)
    have "\<exists>en. cluster_entry c = Some en \<and> f_kind en = STD_CONT" using cont [OF e c(1)] by blast
    with ok e c obtain atys where "createFnTy STD_CONT atys s = Inr (ft, s)" "length atys = length tys"
      unfolding label_ok_def by metis
    with createFnTy_kept [OF ku] show ?thesis by blast
  next
    case False
    with run obtain ts s1 s2 where ts: "genTypes tys s = Inr (ts, s1)" "createFnTy STD_CONT ts s1 = Inr (ft, s2)"
      by (cases e) (auto elim!: cbind_InrE simp: THROW_callee_def creturn_def)
    have "s1 = s" by (rule readsD [OF reads_genTypes ts(1)])
    with ts createFnTy_kept [OF ku] genTypes_length [OF ts(1)] show ?thesis by blast
  qed
qed

text \<open>The end of a call: a tail call, and then the return.\<close>

definition ends_in_call :: "bblock \<Rightarrow> fnty \<Rightarrow> value \<Rightarrow> value list \<Rightarrow> bool" where
  "ends_in_call b ft fn vs \<longleftrightarrow>
     (\<exists>pre m n. bb_insts b = pre @ [(m, Call ft fn vs CC_JWA TCK_Tail), (n, RetVoid)])"

lemma call_end:
  assumes "cbind (createJWACall ft fn vs) (\<lambda>_. ir_exec RetVoid) s = Inr (x, t)" "ir_insert s = Some c"
  shows "ends_in_call (ir_blocks t c) ft fn vs"
  using assms
  by (auto elim!: cbind_InrE dest!: ir_append_Some
      simp: createJWACall_def ir_exec_def creturn_def ends_in_call_def)

lemma call_typed:
  assumes run: "cbind (SetupStdArgs ft k args) (\<lambda>vs.
      cbind (createJWACall ft fn vs) (\<lambda>_. ir_exec RetVoid)) s = Inr (x, t)"
    and ft: "createFnTy k tys s = Inr (ft, s)" "length tys = length args"
    and typed: "fold_typed (ir_fold s)" "regs_typed s" and c: "ir_insert s = Some c"
  shows "\<exists>vs. ends_in_call (ir_blocks t c) ft fn vs \<and> map type_of vs = ft_params ft"
proof -
  from run obtain vs u where u: "SetupStdArgs ft k args s = Inr (vs, u)"
    "cbind (createJWACall ft fn vs) (\<lambda>_. ir_exec RetVoid) u = Inr (x, t)"
    by (auto elim: cbind_InrE)
  have "ir_insert u = Some c" using straightD [OF straight.keeps_SetupStdArgs u(1)] c by (simp add: kept_def)
  from call_end [OF u(2) this] SetupStdArgs_types [OF u(1) typed ft] show ?thesis by blast
qed

lemma typed_later:
  assumes "kept s u" "quiet s u" "fold_typed (ir_fold s)" "regs_typed s"
  shows "fold_typed (ir_fold u)" "regs_typed u"
  using assms by (simp_all add: kept_def quiet_def regs_typed_def)

lemma check_nargs_reads: "check_nargs n tys s = Inr (x, t) \<Longrightarrow> t = s"
  by (auto simp: check_nargs_def cassert_def cget_def creturn_def cfail_def elim!: cbind_InrE
      split: if_splits)

lemma APPLY_typed:
  assumes run: "APPLY_codegen f args tys s = Inr (x, t)" and c: "ir_insert s = Some c"
    and typed: "fold_typed (ir_fold s)" "regs_typed s"
    and ok: "label_ok s f (length tys)" "length tys = length args"
  shows "\<exists>ft fn vs. ends_in_call (ir_blocks t c) ft fn vs \<and> map type_of vs = ft_params ft"
proof -
  from run obtain k ft fn u where 1: "APPLY_callee f tys s = Inr ((k, ft, fn), u)"
    and 2: "cbind (SetupStdArgs ft k args) (\<lambda>vs.
      cbind (createJWACall ft fn vs) (\<lambda>_. ir_exec RetVoid)) u = Inr (x, t)"
    unfolding APPLY_codegen_def
    by (auto elim!: cbind_InrE [where m = "APPLY_callee f tys"] cthen_InrE dest: check_nargs_reads)
  note ku = straight_steps [OF straight.keeps_APPLY_callee quiet.keeps_APPLY_callee 1]
  obtain atys where "createFnTy k atys u = Inr (ft, u)" "length atys = length args"
    using APPLY_callee_type [OF 1 ok(1)] ok(2) by auto
  from call_typed [OF 2 this typed_later [OF ku typed]] c ku(1) show ?thesis
    by (auto simp: kept_def)
qed

lemma THROW_typed:
  assumes run: "THROW_codegen f args tys s = Inr (x, t)" and c: "ir_insert s = Some c"
    and typed: "fold_typed (ir_fold s)" "regs_typed s"
    and ok: "label_ok s f (length tys)" "length tys = length args"
    and cont: "\<And>lab c. f = LABEL lab \<Longrightarrow> cx_clusterMap s lab = Some c \<Longrightarrow>
      \<exists>en. cluster_entry c = Some en \<and> f_kind en = STD_CONT"
  shows "\<exists>ft fn vs. ends_in_call (ir_blocks t c) ft fn vs \<and> map type_of vs = ft_params ft"
proof -
  from run obtain ft fn u where 1: "THROW_callee f tys s = Inr ((ft, fn), u)"
    and 2: "cbind (SetupStdArgs ft STD_CONT args) (\<lambda>vs.
      cbind (createJWACall ft fn vs) (\<lambda>_. ir_exec RetVoid)) u = Inr (x, t)"
    unfolding THROW_codegen_def
    by (auto elim!: cbind_InrE [where m = "THROW_callee f tys"] cthen_InrE dest: check_nargs_reads)
  note ku = straight_steps [OF straight.keeps_THROW_callee quiet.keeps_THROW_callee 1]
  have "\<exists>atys. createFnTy STD_CONT atys u = Inr (ft, u) \<and> length atys = length tys"
    by (rule THROW_callee_type [OF 1 ok(1)]) (rule cont)
  then obtain atys where "createFnTy STD_CONT atys u = Inr (ft, u)" "length atys = length args"
    using ok(2) by auto
  from call_typed [OF 2 this typed_later [OF ku typed]] c ku(1) show ?thesis
    by (auto simp: kept_def)
qed

section \<open>Jumps\<close>

lemma goto_phis_adds:
  assumes "goto_phis phis i vs c s = Inr (x, t)" "fold_typed (ir_fold s)"
    "phis = map (\<lambda>(n, ty). VInst n ty) nts" "distinct (map fst nts)"
  shows "(\<forall>j<length vs. i + j < length nts \<and> (\<exists>w. type_of w = snd (nts ! (i + j)) \<and>
      (type_of (vs ! j) = snd (nts ! (i + j)) \<longrightarrow> w = vs ! j) \<and>
      ir_phis t (fst (nts ! (i + j))) = ir_phis s (fst (nts ! (i + j))) @ [(w, c)])) \<and>
    (\<forall>n. n \<notin> fst ` set (take (length vs) (drop i nts)) \<longrightarrow> ir_phis t n = ir_phis s n)"
  using assms
proof (induction vs arbitrary: i s)
  case Nil
  then show ?case by (simp add: creturn_def)
next
  case (Cons v vs)
  from Cons.prems(1) obtain phi s1 w s2 s3 where
    1: "cnth phis i s = Inr (phi, s1)" and 2: "coerce_arg (type_of phi) v s1 = Inr (w, s2)"
    and 3: "phi_addIncoming phi w c s2 = Inr ((), s3)"
    and 4: "goto_phis phis (i + 1) vs c s3 = Inr (x, t)"
    by (auto elim!: cthen_InrE cbind_InrE)
  obtain n ty where nt: "i < length nts" "nts ! i = (n, ty)" "phi = VInst n ty" "s1 = s"
    using 1 Cons.prems(3) by (cases "nts ! i") (auto simp: cnth_def creturn_def cfail_def split: if_splits)
  have w: "type_of w = ty" "ir_phis s2 = ir_phis s" "type_of v = ty \<longrightarrow> w = v"
    using coerce_arg_type [OF 2] Cons.prems(2) nt by simp_all
  have s3: "s3 = s2\<lparr>ir_phis := (ir_phis s2)(n := ir_phis s2 n @ [(w, c)])\<rparr>"
    using 3 nt(3) by (simp add: phi_addIncoming_def cmodify_def)
  have "ir_fold s3 = ir_fold s" using straight_fold [OF straight.keeps_coerce_arg 2] nt(4) by (simp add: s3)
  with Cons.IH [OF 4 _ Cons.prems(3,4)] Cons.prems(2) have IH:
    "\<And>j. j < length vs \<Longrightarrow> i + 1 + j < length nts \<and> (\<exists>w. type_of w = snd (nts ! (i + 1 + j)) \<and>
      (type_of (vs ! j) = snd (nts ! (i + 1 + j)) \<longrightarrow> w = vs ! j) \<and>
      ir_phis t (fst (nts ! (i + 1 + j))) = ir_phis s3 (fst (nts ! (i + 1 + j))) @ [(w, c)])"
    "\<And>m. m \<notin> fst ` set (take (length vs) (drop (i + 1) nts)) \<Longrightarrow> ir_phis t m = ir_phis s3 m"
    by auto
  have dr: "drop i nts = (n, ty) # drop (i + 1) nts"
    using Cons_nth_drop_Suc [OF nt(1)] nt(2) by simp
  have dist: "n \<notin> fst ` set (drop (i + 1) nts)"
    using Cons.prems(4) distinct_drop [of "map fst nts" i] by (simp add: drop_map dr)
  then have own: "ir_phis t n = ir_phis s n @ [(w, c)]"
    using IH(2) [of n] s3 w(2) by (auto dest: in_set_takeD)
  have other: "ir_phis s3 (fst (nts ! (i + 1 + j))) = ir_phis s (fst (nts ! (i + 1 + j)))"
    if "i + 1 + j < length nts" for j
  proof -
    have "nts ! (i + 1 + j) \<in> set (drop (i + 1) nts)"
      using that nth_mem [of j "drop (i + 1) nts"] by simp
    with dist have "fst (nts ! (i + 1 + j)) \<noteq> n" by force
    then show ?thesis by (simp add: s3 w(2))
  qed
  show ?case
  proof (intro conjI allI impI)
    fix j assume j: "j < length (v # vs)"
    show "i + j < length nts" using IH(1) [of "j - 1"] j nt(1) by (cases j) auto
    show "\<exists>w. type_of w = snd (nts ! (i + j)) \<and>
        (type_of ((v # vs) ! j) = snd (nts ! (i + j)) \<longrightarrow> w = (v # vs) ! j) \<and>
        ir_phis t (fst (nts ! (i + j))) = ir_phis s (fst (nts ! (i + j))) @ [(w, c)]"
    proof (cases j)
      case 0
      then show ?thesis using own w(1,3) nt(2) by auto
    next
      case (Suc k)
      with IH(1) [of k] j other [of k] show ?thesis by auto
    qed
  next
    fix m assume "m \<notin> fst ` set (take (length (v # vs)) (drop i nts))"
    then have "m \<noteq> n" "m \<notin> fst ` set (take (length vs) (drop (i + 1) nts))" by (auto simp: dr)
    with IH(2) [of m] show "ir_phis t m = ir_phis s m" by (simp add: s3 w(2))
  qed
qed

lemma createArgs_length:
  assumes "createArgs k n s = Inr (vs, t)" "regs_typed s" "createParamTys k n s = Inr (tys, s')"
  shows "length vs = length tys"
  using createArgs_types [OF assms(1,2)] assms(3) by auto

lemma createParamTys_arg: "createParamTys k n = createParamTys k m"
  by (simp add: createParamTys_def)

lemma GOTO_adds:
  assumes run: "GOTO_codegen lab args s = Inr (x, t)" and c: "ir_insert s = Some c"
    and typed: "fold_typed (ir_fold s)" "regs_typed s"
    and fr: "cx_fragMap s lab = Some fr" "f_phiNodes fr = map (\<lambda>(n, ty). VInst n ty) nts"
      "distinct (map fst nts)"
    and len: "createParamTys INTERNAL n s = Inr (tys, s)" "length nts = length tys + length args"
  shows "\<exists>extra vs u. createArgs INTERNAL (length args) s = Inr (extra, s) \<and>
    exps_codegen args s = Inr (vs, u) \<and>
    (\<exists>b pre m. stm_bb (f_body fr) = Some b \<and> bb_insts (ir_blocks t c) = pre @ [(m, Br b)]) \<and>
    (\<forall>j<length nts. \<exists>w. type_of w = snd (nts ! j) \<and>
      (type_of ((extra @ vs) ! j) = snd (nts ! j) \<longrightarrow> w = (extra @ vs) ! j) \<and>
      ir_phis t (fst (nts ! j)) = ir_phis s (fst (nts ! j)) @ [(w, c)]) \<and>
    (\<forall>n. n \<notin> fst ` set nts \<longrightarrow> ir_phis t n = ir_phis s n)"
proof -
  from run c fr(1) obtain extra s1 vs s2 s3 b where
    1: "createArgs INTERNAL (length args) s = Inr (extra, s1)" and 2: "exps_codegen args s1 = Inr (vs, s2)"
    and 3: "goto_phis (f_phiNodes fr) 0 (extra @ vs) c s2 = Inr ((), s3)"
    and b: "stm_bb (f_body fr) = Some b" and 4: "ir_exec (Br b) s3 = Inr (x, t)"
    unfolding GOTO_codegen_def
    by (auto elim!: cbind_InrE cthen_InrE simp: GetInsertBlock_eq lookupFrag_def cget_def cassert_def
        creturn_def cfail_def bb_of_eq createBr_def split: if_splits)
  have s1: "s1 = s" using createArgs_types [OF 1 typed(2)] by simp
  note k2 = straight_steps [OF straight.keeps_exps quiet.keeps_exps 2]
  have lv: "length vs = length args"
    using 2 unfolding exps_codegen_def
    by (induction args arbitrary: s1 vs) (auto elim!: cbind_InrE simp: creturn_def)
  have "length extra = length tys"
    using createArgs_length [OF 1 typed(2)] len(1) createParamTys_arg by metis
  with lv len(2) have ln: "length (extra @ vs) = length nts" by simp
  have f2: "fold_typed (ir_fold s2)" using k2(1) typed(1) by (simp add: kept_def s1)
  note g = goto_phis_adds [OF 3 f2 fr(2,3), unfolded ln]
  have k3: "kept s2 s3" using straightD [OF straight.keeps_goto_phis 3] by simp
  have "ir_insert s3 = Some c" using k2(1) k3 c by (simp add: kept_def s1)
  then obtain m where m: "bb_insts (ir_blocks t c) = bb_insts (ir_blocks s3 c) @ [(m, Br b)]"
    and pt: "ir_phis t = ir_phis s3"
    using 4 by (auto simp: ir_exec_def creturn_def elim!: cbind_InrE dest!: ir_append_Some)
  have p2: "ir_phis s2 = ir_phis s" using k2(2) by (simp add: quiet_def s1)
  have "\<forall>j<length nts. \<exists>w. type_of w = snd (nts ! j) \<and>
      (type_of ((extra @ vs) ! j) = snd (nts ! j) \<longrightarrow> w = (extra @ vs) ! j) \<and>
      ir_phis t (fst (nts ! j)) = ir_phis s (fst (nts ! j)) @ [(w, c)]"
    "\<forall>n. n \<notin> fst ` set nts \<longrightarrow> ir_phis t n = ir_phis s n"
    using g pt p2 by simp_all
  moreover have "\<exists>b pre m. stm_bb (f_body fr) = Some b \<and> bb_insts (ir_blocks t c) = pre @ [(m, Br b)]"
    using b m by blast
  moreover have "createArgs INTERNAL (length args) s = Inr (extra, s)" "exps_codegen args s = Inr (vs, s2)"
    using 1 2 s1 by simp_all
  ultimately show ?thesis by blast
qed

section \<open>Arms\<close>

text \<open>The code of the arms is generated one after the other, from \<open>u\<close> to \<open>t\<close>, each in its own block
  and with the registers of \<open>s\<close>; nothing else happens in between.\<close>

primrec arms_run :: "cgctx \<Rightarrow> stm list \<Rightarrow> cgctx \<Rightarrow> cgctx \<Rightarrow> bool" where
  "arms_run s [] u t \<longleftrightarrow> t = u"
| "arms_run s (k # ks) u t \<longleftrightarrow>
     (\<exists>v w. stm_codegen k v = Inr ((), w) \<and> stm_bb k \<noteq> None \<and> ir_insert v = stm_bb k \<and>
        rs_get (cx_regState v) = rs_get (cx_regState s) \<and>
        v = u\<lparr>ir_insert := ir_insert v, cx_regState := cx_regState v\<rparr> \<and> arms_run s ks w t)"

lemma quiet_exec: "keeps quiet (ir_exec i)"
  by (auto simp: ir_exec_def keeps_def quiet_def creturn_def elim!: cbind_InrE dest!: ir_append_Some)

lemma arm_codegen_run:
  assumes "arm_codegen k (u\<lparr>cx_regState := st\<rparr>) = Inr (x, w)" "rs_get st = rs_get (cx_regState s)"
    "arms_run s ks w t"
  shows "arms_run s (k # ks) u t"
proof -
  from assms(1) obtain b where b: "stm_bb k = Some b"
    and run: "stm_codegen k (u\<lparr>cx_regState := st, ir_insert := Some b\<rparr>) = Inr ((), w)"
    unfolding arm_codegen_def by (auto elim!: cthen_InrE cbind_InrE simp: bb_of_eq SetInsertPoint_eq)
  show ?thesis
    unfolding arms_run.simps
    by (intro exI conjI, rule run) (use assms(2,3) b in simp_all)
qed

lemma arms_loop_run:
  assumes "arms_codegen d arms u = Inr (x, t)" "rs_get d = rs_get (cx_regState s)"
  shows "arms_run s arms u t"
  using assms(1)
proof (induction arms arbitrary: u)
  case (Cons a arms)
  from Cons.prems obtain v where
    v: "arm_codegen a (u\<lparr>cx_regState := copyFrom (cx_regState u) d\<rparr>) = Inr ((), v)"
    and w: "arms_codegen d arms v = Inr (x, t)"
    by (auto elim!: cthen_InrE simp: restore_eq arms_codegen_def)
  show ?case
    by (rule arm_codegen_run [OF v]) (use assms(2) Cons.IH [OF w] in \<open>auto simp: fun_eq_iff\<close>)
qed (simp add: arms_codegen_def creturn_def)

lemma quiet_heads:
  "keeps quiet (switch_head e arms)" "keeps quiet (branch_test br es prob k1 k2)"
proof -
  have new: "keeps quiet (newBB nm)" for nm
    by (auto simp: keeps_def quiet_def dest!: newBB_eq)
  have ins: "keeps quiet (SetInsertPoint b)" for b
    by (auto simp: keeps_def quiet_def SetInsertPoint_eq)
  show "keeps quiet (switch_head e arms)"
    unfolding switch_head_def switch_arg_def createTrunc_def switch_end_def
    by (intro quiet.keeps_bind quiet.keeps_then new ins quiet_exec frame_intros)
  show "keeps quiet (branch_test br es prob k1 k2)"
    unfolding branch_test_def by (intro quiet.keeps_bind quiet_exec frame_intros)
qed

lemma fork_arms:
  assumes "forks k h" "keeps quiet h" "stm_codegen k s = Inr (x, t)"
  shows "\<exists>u. cx_regState u = cx_regState s \<and> arms_run s (arms_of k) u t"
proof -
  obtain u d where 1: "h s = Inr ((), u)" and 2: "arms_codegen d (arms_of k) u = Inr (x, t)"
    and d: "d = copyFrom CMRegState_new (cx_regState u)"
    using fork_split [OF assms(1,3)] .
  have r: "cx_regState u = cx_regState s" using keepsD [OF assms(2) 1] by (simp add: quiet_def)
  have "arms_run s (arms_of k) u t" by (rule arms_loop_run [OF 2]) (simp add: d r fun_eq_iff)
  with r show ?thesis by blast
qed

lemmas BRANCH_arms = fork_arms [OF BRANCH_forks quiet_heads(2)]
lemmas SWITCH_arms = fork_arms [OF SWITCH_forks quiet_heads(1)]

end
