(* ===== verification/Entry.thy ===== *)
theory Entry
  imports Transfers
begin

text \<open>
  The entry of functions and fragments: the machine registers get the first arguments, or the
  first phi nodes, the other registers live on the stack, and the parameters are bound to the
  arguments that follow.
\<close>

definition in_machine :: "target_info \<Rightarrow> CMRegId \<Rightarrow> bool" where
  "in_machine ti r \<longleftrightarrow> ti_stkOffset ti ! reg_num r = 0"

definition hw_ids :: "target_info \<Rightarrow> CMRegId list" where
  "hw_ids ti = filter (in_machine ti) reg_ids"

lemma hwRegs_hw_ids: "map ri_id (rg_hwRegs (CMRegs_new (Some ti))) = hw_ids ti"
  by (simp add: hwRegs_ids hw_ids_def in_machine_def [abs_def])

lemma hw_ids_nth: "i < numMachineRegs (CMRegs_new (Some ti)) \<Longrightarrow>
    ri_id (machineReg (CMRegs_new (Some ti)) i) = hw_ids ti ! i"
  by (simp add: machineReg_def numMachineRegs_new flip: hwRegs_hw_ids)

lemma hw_ids_length: "length (hw_ids ti) = numMachineRegs (CMRegs_new (Some ti))"
  by (simp add: numMachineRegs_new flip: hwRegs_hw_ids)

lemma get_reg_info_new:
  assumes "cx_regInfo s = CMRegs_new (Some ti)" "get_reg_info r s = Inr (info, t)"
  shows "t = s" "isMachineReg info \<longleftrightarrow> in_machine ti r" "ri_id info = r"
  using assms
  by (auto simp: get_reg_info_def cbind_def cget_def cthe_def creturn_def reg_info_new in_machine_def
      split: if_splits)

lemma getArg_eq: "getArg f i s = Inr (v, t) \<Longrightarrow> t = s \<and> v = VArg i (ft_params (fn_ty (ir_fns s ! f)) ! i)"
  by (auto simp: getArg_def fn_type_def cnth_def cget_def creturn_def cfail_def elim!: cbind_InrE
      split: if_splits)

lemma setup_regs_state:
  assumes "setup_regs f rs k s = Inr (x, t)" "cx_regInfo s = CMRegs_new (Some ti)" "distinct rs"
  shows "(\<forall>j<length (filter (in_machine ti) rs). rs_get (cx_regState t) (filter (in_machine ti) rs ! j) =
        Some (VArg (k + j) (ft_params (fn_ty (ir_fns s ! f)) ! (k + j)))) \<and>
    (\<forall>r\<in>set rs. \<not> in_machine ti r \<longrightarrow> rs_get (cx_regState t) r = None) \<and>
    (\<forall>r. r \<notin> set rs \<longrightarrow> rs_get (cx_regState t) r = rs_get (cx_regState s) r) \<and>
    (\<exists>rs'. t = s\<lparr>cx_regState := rs'\<rparr>)"
  using assms
proof (induction rs arbitrary: k s)
  case Nil
  then show ?case by (auto simp: creturn_def intro: exI [of _ "cx_regState s"])
next
  case (Cons r rs)
  from Cons.prems(1) obtain info u where i: "get_reg_info r s = Inr (info, u)"
    by (auto elim: cbind_InrE)
  note g = get_reg_info_new [OF Cons.prems(2) i]
  define v where "v = (if in_machine ti r then Some (VArg k (ft_params (fn_ty (ir_fns s ! f)) ! k)) else None)"
  define k' where "k' = (if in_machine ti r then k + 1 else k)"
  define s1 where "s1 = s\<lparr>cx_regState := rs_set (cx_regState s) r v\<rparr>"
  have run: "setup_regs f rs k' s1 = Inr (x, t)"
    using Cons.prems(1) i g
    by (auto simp: cbind_def [of "get_reg_info r"] s1_def v_def k'_def setRegState_def cmodify_def
        elim!: cbind_InrE cthen_InrE dest!: getArg_eq)
  note IH = Cons.IH [OF run]
  have ok: "cx_regInfo s1 = CMRegs_new (Some ti)" "distinct rs" "r \<notin> set rs"
    using Cons.prems(2,3) by (simp_all add: s1_def)
  have fns: "ir_fns s1 = ir_fns s" by (simp add: s1_def)
  have r: "rs_get (cx_regState t) r = v" using IH [OF ok(1,2)] ok(3) by (simp add: s1_def)
  obtain st where t: "t = s1\<lparr>cx_regState := st\<rparr>" using IH [OF ok(1,2)] by blast
  show ?case
  proof (intro conjI)
    show "\<forall>j<length (filter (in_machine ti) (r # rs)). rs_get (cx_regState t) (filter (in_machine ti) (r # rs) ! j) =
        Some (VArg (k + j) (ft_params (fn_ty (ir_fns s ! f)) ! (k + j)))"
    proof (intro allI impI)
      fix j assume j: "j < length (filter (in_machine ti) (r # rs))"
      show "rs_get (cx_regState t) (filter (in_machine ti) (r # rs) ! j) =
        Some (VArg (k + j) (ft_params (fn_ty (ir_fns s ! f)) ! (k + j)))"
      proof (cases "in_machine ti r")
        case True
        then show ?thesis
          using IH [OF ok(1,2)] r j fns by (cases j) (auto simp: v_def k'_def)
      next
        case False
        then show ?thesis using IH [OF ok(1,2)] j fns by (simp add: k'_def)
      qed
    qed
    show "\<forall>q\<in>set (r # rs). \<not> in_machine ti q \<longrightarrow> rs_get (cx_regState t) q = None"
      using IH [OF ok(1,2)] r by (auto simp: v_def)
    show "\<forall>q. q \<notin> set (r # rs) \<longrightarrow> rs_get (cx_regState t) q = rs_get (cx_regState s) q"
      using IH [OF ok(1,2)] by (simp add: s1_def)
    show "\<exists>rs'. t = s\<lparr>cx_regState := rs'\<rparr>" by (auto simp: t s1_def)
  qed
qed

lemma bind_params_state:
  assumes "bind_params ps arg i s = Inr (x, t)" "distinct (map p_name ps)"
    "\<forall>p\<in>set ps. cx_vMap s (p_name p) = None"
    "ir_fns s = F"
    and arg: "\<And>i s v t. arg i s = Inr (v, t) \<Longrightarrow> ir_fns s = F \<Longrightarrow> t = s \<and> v = g i"
  shows "(\<forall>j<length ps. cx_vMap t (p_name (ps ! j)) = Some (g (i + j))) \<and>
    (\<forall>y. y \<notin> p_name ` set ps \<longrightarrow> cx_vMap t y = cx_vMap s y) \<and> (\<exists>m. t = s\<lparr>cx_vMap := m\<rparr>)"
  using assms(1-4)
proof (induction ps arbitrary: i s)
  case Nil
  then have "t = s" by (simp add: creturn_def)
  then show ?case by (intro conjI exI [of _ "cx_vMap s"]) simp_all
next
  case (Cons p ps)
  define s1 where "s1 = s\<lparr>cx_vMap := (cx_vMap s)(p_name p \<mapsto> g i)\<rparr>"
  from Cons.prems(1) obtain v u w where v: "arg i s = Inr (v, u)" "param_bind p v u = Inr ((), w)"
    "bind_params ps arg (i + 1) w = Inr (x, t)"
    by (auto elim!: cthen_InrE cbind_InrE)
  have "u = s" "v = g i" using arg [OF v(1)] Cons.prems(4) by simp_all
  then have "w = s1"
    using v(2) Cons.prems(3) by (simp add: param_bind_def insertVal_def cmodify_def map_insert_def s1_def)
  with v(3) have run: "bind_params ps arg (i + 1) s1 = Inr (x, t)" by simp
  note IH = Cons.IH [OF run]
  have ok: "distinct (map p_name ps)" "\<forall>q\<in>set ps. cx_vMap s1 (p_name q) = None" "ir_fns s1 = F"
    using Cons.prems(2,3,4) by (simp_all add: s1_def) (metis image_eqI)
  obtain m where m: "t = s1\<lparr>cx_vMap := m\<rparr>" using IH [OF ok] by blast
  have p: "cx_vMap t (p_name p) = Some (g i)"
    using IH [OF ok] Cons.prems(2) by (auto simp: s1_def)
  show ?case
  proof (intro conjI allI impI)
    fix j assume "j < length (p # ps)"
    then show "cx_vMap t (p_name ((p # ps) ! j)) = Some (g (i + j))"
      using IH [OF ok] p by (cases j) auto
  next
    fix y assume "y \<notin> p_name ` set (p # ps)"
    then show "cx_vMap t y = cx_vMap s y" using IH [OF ok] by (simp add: s1_def)
  next
    show "\<exists>m. t = s\<lparr>cx_vMap := m\<rparr>" by (auto simp: m s1_def)
  qed
qed

section \<open>Standard functions and continuations\<close>

text \<open>What holds after the entry: \<open>val i\<close> is the value of the \<open>i\<close>th formal argument, \<open>k\<close> the position
  of the first parameter.\<close>

definition entered :: "target_info \<Rightarrow> (nat \<Rightarrow> value) \<Rightarrow> nat \<Rightarrow> param list \<Rightarrow> cgctx \<Rightarrow> bool" where
  "entered ti val k ps t \<longleftrightarrow>
     (\<forall>i<length (hw_ids ti). rs_get (cx_regState t) (hw_ids ti ! i) = Some (val i)) \<and>
     (\<forall>j<length ps. cx_vMap t (p_name (ps ! j)) = Some (val (k + j)))"

lemma set_hw_ids: "r \<in> set (hw_ids ti) \<longleftrightarrow> in_machine ti r"
  by (simp add: hw_ids_def set_reg_ids)

lemma getArgInfo_state: "getArgInfo k s = Inr (info, t) \<Longrightarrow> t = s"
  unfolding getArgInfo_def
  by (auto elim!: cbind_InrE simp: cget_def creturn_def cfail_def split: frag_kind.splits option.splits)

text \<open>Setting or clearing the base pointer leaves the registers and the bindings as they are.\<close>

definition same_regs :: "cgctx \<Rightarrow> cgctx \<Rightarrow> bool" where
  "same_regs s t \<longleftrightarrow>
     rs_get (cx_regState t) = rs_get (cx_regState s) \<and> cx_vMap t = cx_vMap s \<and> ir_fns t = ir_fns s"

lemma same_regs_trans: "same_regs s t \<Longrightarrow> same_regs t u \<Longrightarrow> same_regs s u"
  by (simp add: same_regs_def)

lemma createPtrToInt_same: "createPtrToInt v s = Inr (w, t) \<Longrightarrow> same_regs s t"
  using straight_steps [OF straight.keeps_createPtrToInt quiet.keeps_createPtrToInt]
  by (auto simp: same_regs_def quiet_def kept_def)

lemma set_basePtr_same: "set_basePtr v s = Inr (x, t) \<Longrightarrow> same_regs s t"
  by (auto simp: set_basePtr_def cassert_def cthen_def cbind_def cmodify_def creturn_def cfail_def
      same_regs_def fun_eq_iff split: if_splits)

lemma clear_basePtr_same: "clear_basePtr s = Inr (x, t) \<Longrightarrow> same_regs s t"
  by (auto simp: clear_basePtr_def cmodify_def same_regs_def rs_get_def clearBasePtr_def fun_eq_iff)

definition formal :: "cgctx \<Rightarrow> nat \<Rightarrow> nat \<Rightarrow> value" where
  "formal s f i = VArg i (ft_params (fn_ty (ir_fns s ! f)) ! i)"

lemma base_pointer_same:
  assumes "cbind (cget cx_regInfo) (\<lambda>ri. cbind (b ri) (\<lambda>b.
      if b then cbind (getArg f (g ri)) (\<lambda>a. cbind (createPtrToInt a) set_basePtr)
      else clear_basePtr)) s = Inr (x, t)"
    and b: "\<And>ri y u. b ri s = Inr (y, u) \<Longrightarrow> u = s"
  shows "same_regs s t"
  using assms
  by (auto elim!: cbind_InrE simp: cget_def split: if_splits dest!: b getArg_eq createPtrToInt_same
      set_basePtr_same clear_basePtr_same intro: same_regs_trans)

lemma setupStdEntry_entered:
  assumes run: "setupStdEntry fr s = Inr (x, t)" and ri: "cx_regInfo s = CMRegs_new (Some ti)"
    and f: "cx_curFn s = Some f" and info: "getArgInfo (f_kind fr) s = Inr (info, s)"
    and fresh: "distinct (map p_name (f_params fr))" "\<forall>p\<in>set (f_params fr). cx_vMap s (p_name p) = None"
  shows "entered ti (formal s f) (nExtra info + nUnused info) (f_params fr) t"
    and "\<And>r. \<not> in_machine ti r \<Longrightarrow> rs_get (cx_regState t) r = None"
proof -
  define base where "base = cbind (cget cx_regInfo) (\<lambda>ri.
        cbind (if usesBasePtr ri
               then cbind get_curCluster (\<lambda>c. creturn (needsBasePtr (c_attrs c)))
               else creturn False) (\<lambda>b.
        if b then
          cbind (getArg f (if f_kind fr = STD_FUN then numMachineRegs ri else numMachineRegs ri + 2))
            (\<lambda>a. cbind (createPtrToInt a) set_basePtr)
        else clear_basePtr))"
  from run have "cthen (setup_regs f reg_ids 0) (cthen base
      (bind_params (f_params fr) (getArg f) (nExtra info + nUnused info))) s = Inr (x, t)"
    unfolding setupStdEntry_def
    by (auto elim!: cbind_InrE simp: curFn_def f cget_def cthe_def creturn_def info base_def)
  then obtain s1 s2 where 1: "setup_regs f reg_ids 0 s = Inr ((), s1)" and 2: "base s1 = Inr ((), s2)"
    and 3: "bind_params (f_params fr) (getArg f) (nExtra info + nUnused info) s2 = Inr (x, t)"
    by (auto elim!: cthen_InrE)
  note regs = setup_regs_state [OF 1 ri distinct_reg_ids, simplified]
  have same: "same_regs s1 s2"
    using 2 unfolding base_def
    by (rule base_pointer_same)
      (auto simp: get_curCluster_def cget_def cthe_def creturn_def cfail_def elim!: cbind_InrE
        split: if_splits option.splits)
  have fns: "ir_fns s2 = ir_fns s" "cx_vMap s2 = cx_vMap s" using same regs by (auto simp: same_regs_def)
  have arg: "\<And>i s' v u. getArg f i s' = Inr (v, u) \<Longrightarrow> ir_fns s' = ir_fns s \<Longrightarrow> u = s' \<and> v = formal s f i"
    by (auto simp: formal_def dest!: getArg_eq)
  have "\<exists>m. t = s2\<lparr>cx_vMap := m\<rparr>" and binds: "\<And>j. j < length (f_params fr) \<Longrightarrow>
      cx_vMap t (p_name (f_params fr ! j)) = Some (formal s f (nExtra info + nUnused info + j))"
    using bind_params_state [OF 3 fresh(1), where g = "formal s f" and F = "ir_fns s", OF _ _ arg]
      fresh(2) fns by auto
  then have st: "rs_get (cx_regState t) = rs_get (cx_regState s1)"
    using same by (auto simp: same_regs_def)
  show "entered ti (formal s f) (nExtra info + nUnused info) (f_params fr) t"
    unfolding entered_def using regs binds by (simp add: st hw_ids_def formal_def)
  show "rs_get (cx_regState t) r = None" if "\<not> in_machine ti r" for r
    using regs that by (simp add: st set_reg_ids)
qed

section \<open>Fragments\<close>

lemma frag_regs_state:
  assumes "cforeach xs (\<lambda>i. cbind (phi_at phis i) (\<lambda>p. setRegState (h i) (Some p))) s = Inr (x, t)"
    "distinct xs" "inj_on h (set xs)"
  shows "(\<forall>i\<in>set xs. rs_get (cx_regState t) (h i) = Some (phis ! i)) \<and>
    (\<forall>r. r \<notin> h ` set xs \<longrightarrow> rs_get (cx_regState t) r = rs_get (cx_regState s) r) \<and>
    (\<exists>rs. t = s\<lparr>cx_regState := rs\<rparr>)"
  using assms
proof (induction xs arbitrary: s)
  case Nil
  then have "t = s" by (simp add: creturn_def)
  then show ?case by (intro conjI exI [of _ "cx_regState s"]) simp_all
next
  case (Cons i xs)
  define s1 where "s1 = s\<lparr>cx_regState := rs_set (cx_regState s) (h i) (Some (phis ! i))\<rparr>"
  have run: "cforeach xs (\<lambda>i. cbind (phi_at phis i) (\<lambda>p. setRegState (h i) (Some p))) s1 = Inr (x, t)"
    using Cons.prems(1)
    by (auto elim!: cthen_InrE cbind_InrE split: if_splits
        simp: phi_at_def cnth_def creturn_def cfail_def setRegState_def cmodify_def s1_def)
  have ok: "distinct xs" "inj_on h (set xs)" "h i \<notin> h ` set xs"
    using Cons.prems(2,3) by auto
  note IH = Cons.IH [OF run ok(1,2)]
  obtain rs where rs: "t = s1\<lparr>cx_regState := rs\<rparr>" using IH by blast
  show ?case
  proof (intro conjI)
    show "\<exists>rs. t = s\<lparr>cx_regState := rs\<rparr>" by (auto simp: rs s1_def)
  qed (use IH ok(3) in \<open>auto simp: s1_def\<close>)
qed

lemma hw_ids_inj: "inj_on (\<lambda>i. ri_id (machineReg (CMRegs_new (Some ti)) i))
    (set [0..<numMachineRegs (CMRegs_new (Some ti))])"
  by (rule inj_onI) (simp add: hw_ids_nth hw_ids_length nth_eq_iff_index_eq hw_ids_def
      distinct_reg_ids flip: hw_ids_length)

lemma setupFragEntry_entered:
  assumes run: "setupFragEntry fr phis s = Inr (x, t)" and ri: "cx_regInfo s = CMRegs_new (Some ti)"
    and info: "getArgInfo INTERNAL s = Inr (info, s)"
    and fresh: "distinct (map p_name (f_params fr))" "\<forall>p\<in>set (f_params fr). cx_vMap s (p_name p) = None"
  shows "entered ti (nth phis) (nExtra info + nBasePtr info) (f_params fr) t"
    and "\<And>r. \<not> in_machine ti r \<Longrightarrow> rs_get (cx_regState t) r = rs_get (cx_regState s) r"
proof -
  let ?h = "\<lambda>i. ri_id (machineReg (CMRegs_new (Some ti)) i)"
  have n: "nExtra info = length (hw_ids ti)"
    using info ri unfolding getArgInfo_def hw_ids_length
    by (auto elim!: cbind_InrE simp: cget_def creturn_def cfail_def split: option.splits)
  have k: "f_kind fr = INTERNAL"
    using run by (auto simp: setupFragEntry_def cassert_def cfail_def elim!: cthen_InrE split: if_splits)
  from run obtain s1 s2 where
    1: "cforeach [0..<nExtra info] (\<lambda>i. cbind (phi_at phis i) (\<lambda>p. setRegState (?h i) (Some p))) s =
      Inr ((), s1)"
    and 2: "(if nBasePtr info \<noteq> 0 then cbind (phi_at phis (nExtra info)) set_basePtr
              else creturn ()) s1 = Inr ((), s2)"
    and 3: "bind_params (f_params fr) (phi_at phis) (nExtra info + nBasePtr info) s2 = Inr (x, t)"
    unfolding setupFragEntry_def
    by (auto elim!: cthen_InrE cbind_InrE
        simp: k info ri cget_def cassert_def creturn_def cfail_def split: if_splits)
  have regs: "(\<forall>i<length (hw_ids ti). rs_get (cx_regState s1) (?h i) = Some (phis ! i)) \<and>
    (\<forall>r. r \<notin> ?h ` {0..<length (hw_ids ti)} \<longrightarrow> rs_get (cx_regState s1) r = rs_get (cx_regState s) r) \<and>
    (\<exists>rs. s1 = s\<lparr>cx_regState := rs\<rparr>)"
    using frag_regs_state [OF 1] hw_ids_inj [of ti] by (simp add: n hw_ids_length)
  have regs: "\<And>i. i < length (hw_ids ti) \<Longrightarrow> rs_get (cx_regState s1) (hw_ids ti ! i) = Some (phis ! i)"
    "\<And>r. \<not> in_machine ti r \<Longrightarrow> rs_get (cx_regState s1) r = rs_get (cx_regState s) r"
    "cx_vMap s1 = cx_vMap s" "ir_fns s1 = ir_fns s"
  proof -
    show "rs_get (cx_regState s1) (hw_ids ti ! i) = Some (phis ! i)" if "i < length (hw_ids ti)" for i
      using regs that hw_ids_nth [of i ti] by (auto simp: hw_ids_length)
    show "rs_get (cx_regState s1) r = rs_get (cx_regState s) r" if "\<not> in_machine ti r" for r
    proof -
      have "r \<notin> ?h ` {0..<length (hw_ids ti)}"
        using that hw_ids_nth [of _ ti] by (auto simp: hw_ids_length simp flip: set_hw_ids)
      then show ?thesis using regs by simp
    qed
    show "cx_vMap s1 = cx_vMap s" "ir_fns s1 = ir_fns s" using regs by auto
  qed
  have same: "same_regs s1 s2"
    using 2 by (auto split: if_splits elim!: cbind_InrE simp: phi_at_def cnth_def cfail_def creturn_def
        same_regs_def dest!: set_basePtr_same)
  have fns: "ir_fns s2 = ir_fns s" "cx_vMap s2 = cx_vMap s" using same regs by (auto simp: same_regs_def)
  have arg: "\<And>i s' v u. phi_at phis i s' = Inr (v, u) \<Longrightarrow> ir_fns s' = ir_fns s \<Longrightarrow> u = s' \<and> v = phis ! i"
    by (auto simp: phi_at_def cnth_def creturn_def cfail_def split: if_splits)
  have "\<exists>m. t = s2\<lparr>cx_vMap := m\<rparr>" and binds: "\<And>j. j < length (f_params fr) \<Longrightarrow>
      cx_vMap t (p_name (f_params fr ! j)) = Some (phis ! (nExtra info + nBasePtr info + j))"
    using bind_params_state [OF 3 fresh(1), where g = "nth phis" and F = "ir_fns s", OF _ _ arg]
      fresh(2) fns by auto
  then have st: "rs_get (cx_regState t) = rs_get (cx_regState s1)"
    using same by (auto simp: same_regs_def)
  show "entered ti (nth phis) (nExtra info + nBasePtr info) (f_params fr) t"
    unfolding entered_def using regs binds by (simp add: st)
  show "rs_get (cx_regState t) r = rs_get (cx_regState s) r" if "\<not> in_machine ti r" for r
    using regs that by (simp add: st)
qed

section \<open>Caller and callee agree\<close>

lemma reg_values:
  assumes "cmap (\<lambda>i. reg_value (h i)) xs s = Inr (vs, t)"
  shows "t = s \<and> list_all2 (\<lambda>i v. rs_get (cx_regState s) (h i) = Some v) xs vs"
  using assms
  by (induction xs arbitrary: vs)
    (auto elim!: cbind_InrE simp: creturn_def reg_value_def cget_def cthe_def cfail_def
      split: option.splits)

lemma std_info:
  assumes "k = STD_FUN \<or> k = STD_CONT" "cx_regInfo s = CMRegs_new (Some ti)"
  shows "getArgInfo k s = Inr (\<lparr>nExtra = length (hw_ids ti), nBasePtr = 0,
    nUnused = (if k = STD_FUN then 0 else 2)\<rparr>, s)"
  using assms by (auto simp: getArgInfo_def cbind_def cget_def creturn_def hw_ids_length)

text \<open>The position of the first argument proper of a standard call.\<close>

definition first_arg :: "target_info \<Rightarrow> frag_kind \<Rightarrow> nat" where
  "first_arg ti k = length (hw_ids ti) + (if k = STD_FUN then 0 else 2)"

lemma std_args:
  assumes "SetupStdArgs ft k es s = Inr (vs, s')" "k = STD_FUN \<or> k = STD_CONT"
    and ri: "cx_regInfo s = CMRegs_new (Some ti)"
  shows "setup_args ft (first_arg ti k) es s = Inr (drop (first_arg ti k) vs, s') \<and>
    first_arg ti k \<le> length vs \<and>
    (\<forall>i<length (hw_ids ti). rs_get (cx_regState s) (hw_ids ti ! i) = Some (vs ! i))"
proof -
  from assms(1) obtain as s1 bs where 1: "createArgs k (length es) s = Inr (as, s1)"
    and 2: "setup_args ft (length as) es s1 = Inr (bs, s')" and vs: "vs = as @ bs"
    unfolding SetupStdArgs_def by (auto elim!: cbind_InrE simp: creturn_def)
  define info where "info = \<lparr>nExtra = length (hw_ids ti), nBasePtr = 0,
    nUnused = (if k = STD_FUN then 0 else 2)\<rparr> "
  from 1 std_info [OF assms(2) ri] obtain bs' where 3: "addExtraArgs [] info s = Inr (bs', s1)"
    and as: "as = bs' @ replicate (nUnused info) (VUndef mlValueTy)"
    unfolding createArgs_def info_def [symmetric] by (auto elim!: cbind_InrE simp: creturn_def)
  from 3 obtain s2 where "cmap (\<lambda>i. reg_value (ri_id (machineReg (CMRegs_new (Some ti)) i)))
      [0..<nExtra info] s = Inr (bs', s2)" "s1 = s2"
    unfolding addExtraArgs_def by (auto elim!: cbind_InrE simp: info_def cget_def ri creturn_def)
  then have regs: "list_all2 (\<lambda>i v. rs_get (cx_regState s) (ri_id (machineReg (CMRegs_new (Some ti)) i)) = Some v)
      [0..<length (hw_ids ti)] bs'" "s1 = s"
    by (auto dest!: reg_values simp: info_def)
  have n: "length bs' = length (hw_ids ti)" using regs(1) by (auto dest: list_all2_lengthD)
  have "length as = first_arg ti k" by (simp add: as n first_arg_def info_def)
  moreover have "rs_get (cx_regState s) (hw_ids ti ! i) = Some (vs ! i)" if "i < length (hw_ids ti)" for i
    using list_all2_nthD [OF regs(1), of i] that n hw_ids_nth [of i ti]
    by (simp add: vs as nth_append hw_ids_length)
  ultimately show ?thesis using 2 regs(2) by (auto simp: vs)
qed

end
