(* ===== verification/Module_Properties.thy ===== *)
theory Module_Properties
  imports Sample_State Stm_Init Entry
begin

text \<open>
  The properties of the generated function: its basic blocks, the caches of the generator, the
  registers at joins, and the calling conventions.
\<close>

section \<open>Blocks\<close>

lemma closed_split:
  assumes "closed b"
  shows "\<exists>pre n i. bb_insts b = pre @ [(n, i)] \<and> is_terminator i \<and>
    (\<forall>(m, j)\<in>set pre. \<not> is_terminator j)"
proof -
  from assms obtain k where k: "map (\<lambda>ni. is_terminator (snd ni)) (bb_insts b) = replicate k False @ [True]"
    by (auto simp: closed_def shape_def)
  then have "bb_insts b \<noteq> []" by auto
  then obtain pre n i where b: "bb_insts b = pre @ [(n, i)]" by (metis rev_exhaust surj_pair)
  with k have pre: "map (\<lambda>ni. is_terminator (snd ni)) pre = replicate k False" "is_terminator i"
    by simp_all
  have "\<not> is_terminator j" if "(m, j) \<in> set pre" for m j
  proof -
    have "is_terminator j \<in> set (map (\<lambda>ni. is_terminator (snd ni)) pre)" using that by force
    then show ?thesis by (auto simp: pre(1))
  qed
  with b pre(2) show ?thesis by auto
qed

text \<open>C7: when a unit has been compiled, every basic block that was made on the way has exactly one
  terminator, at its end; blocks made before are as they were.\<close>

theorem blocks_closed:
  assumes "comp_unit_codegen cu s = Inr (x, t)"
  shows "ir_nblocks s \<le> ir_nblocks t \<and>
    (\<forall>b<ir_nblocks t.
       if b < ir_nblocks s then ir_blocks t b = ir_blocks s b
       else \<exists>pre n i. bb_insts (ir_blocks t b) = pre @ [(n, i)] \<and> is_terminator i \<and>
         (\<forall>(m, j)\<in>set pre. \<not> is_terminator j))"
  using comp_unit_progress [OF assms] by (simp add: progress_def closed_split)

lemma blocks_closed_witness:
  "\<exists>t pre n i. comp_unit_codegen sample_unit sample_ctx = Inr ((), t) \<and> ir_nblocks t = 6 \<and>
     bb_insts (ir_blocks t 5) = pre @ [(n, i)] \<and> is_terminator i"
proof -
  obtain t where t: "comp_unit_codegen sample_unit sample_ctx = Inr ((), t)" "ir_nblocks t = 6"
    by (rule sample_runs)
  have "ir_nblocks sample_ctx = 0" by (simp add: sample_ctx_def Context_init_def)
  then have "\<exists>pre n i. bb_insts (ir_blocks t 5) = pre @ [(n, i)] \<and> is_terminator i"
    using blocks_closed [OF t(1), THEN conjunct2, THEN spec [of _ 5]] t(2) by auto
  with t show ?thesis by blast
qed

text \<open>C18: initialising a statement always succeeds in a function.  It gives empty blocks, numbered
  consecutively in the order of the statements below, to the entry if it is one and to the arms of
  branches and switches, and changes nothing else of the statement or of the blocks.\<close>

theorem statement_initialised:
  assumes "cx_curFn s \<noteq> None"
  shows "\<exists>k' t. stm_init k ent s = Inr (k', t) \<and> erase k' = erase k \<and>
    all_blocks k' = [ir_nblocks s..<ir_nblocks t] \<and> (stm_bb k' \<noteq> None \<longleftrightarrow> ent) \<and>
    t = s\<lparr>ir_nblocks := ir_nblocks t, ir_blocks := ir_blocks t\<rparr> \<and>
    (\<forall>b<ir_nblocks t. if b < ir_nblocks s then ir_blocks t b = ir_blocks s b
       else bb_insts (ir_blocks t b) = [])"
proof -
  obtain k' t where run: "stm_init k ent s = Inr (k', t)" "erase k' = erase k"
    using does_stm_init [OF assms, of k ent] unfolding does_def inits_def by blast
  from stm_init_numbered [OF run(1)] have n: "added s t" "all_blocks k' = [ir_nblocks s..<ir_nblocks t]"
    "stm_bb k' \<noteq> None \<longleftrightarrow> ent"
    by (simp_all add: numbered_def)
  then show ?thesis using run by (intro exI [of _ k'] exI [of _ t]) (simp add: added_def)
qed

lemma statement_initialised_witness:
  "\<exists>k' t. stm_init sample_body True work_ctx = Inr (k', t) \<and> erase k' = erase sample_body \<and>
     all_blocks k' = [1..<ir_nblocks t]"
  using statement_initialised [of work_ctx sample_body True] by auto

section \<open>Caches\<close>

text \<open>C17: after a unit has been compiled, the cached intrinsics and the cached access to the stack
  pointer belong to the module that was made for it, whatever the caches held before.\<close>

theorem caches_belong_to_module:
  assumes "comp_unit_codegen cu s = Inr (x, t)"
  shows "ir_module t = Some (ir_nmodules s) \<and>
    (\<forall>i v. cx_intr t i = Some v \<longrightarrow> v = VIntr i (ir_nmodules s)) \<and>
    (\<forall>v. cx_readReg t = Some v \<longrightarrow> v = VReadReg (ir_nmodules s))"
  using comp_unit_caches [OF assms] by (auto simp: caches_ok_def)

lemma caches_belong_to_module_witness:
  "\<exists>t. comp_unit_codegen sample_unit sample_ctx = Inr ((), t) \<and> ir_module t = Some 0"
proof -
  obtain t where t: "comp_unit_codegen sample_unit sample_ctx = Inr ((), t)"
    by (rule sample_runs)
  have "ir_nmodules sample_ctx = 0" by (simp add: sample_ctx_def Context_init_def)
  with caches_belong_to_module [OF t] t show ?thesis by auto
qed

section \<open>Arms\<close>

text \<open>C14: the arms of a branch or switch are generated one after the other, each in its own block and
  each with the registers that were current before the test; whatever the code of one arm does to
  the registers is undone before the next.\<close>

theorem arms_start_alike:
  assumes "stm_codegen k s = Inr (x, t)" "ir_insert s = Some c" "arms_of k \<noteq> []"
  shows "\<exists>u. cx_regState u = cx_regState s \<and> arms_run s (arms_of k) u t"
proof (cases k)
  case (SWITCH b e arms)
  then show ?thesis using SWITCH_arms assms by auto
next
  case (BRANCH b br es prob k1 k2)
  then show ?thesis using BRANCH_arms assms by auto
qed (use assms in simp_all)

section \<open>Calls\<close>

text \<open>C16: the code of a call or of a throw ends in a tail call with the convention of the runtime
  system and a return, and the types of the arguments are those of the callee's parameters; for a
  known callee its function is to have the type for the kind of its entry and as many parameters,
  for a known continuation the entry is to be one.\<close>

theorem calls_typed:
  assumes "APPLY_codegen f args tys s = Inr (x, t) \<or>
      THROW_codegen f args tys s = Inr (x, t) \<and>
      (\<forall>lab c. f = LABEL lab \<longrightarrow> cx_clusterMap s lab = Some c \<longrightarrow>
        (\<exists>en. cluster_entry c = Some en \<and> f_kind en = STD_CONT))"
    and "ir_insert s = Some c" "fold_typed (ir_fold s)" "regs_typed s"
    and "label_ok s f (length tys)" "length tys = length args"
  shows "\<exists>ft fn vs. ends_in_call (ir_blocks t c) ft fn vs \<and> map type_of vs = ft_params ft"
  using assms(1)
proof (elim disjE conjE)
  assume "APPLY_codegen f args tys s = Inr (x, t)"
  from APPLY_typed [OF this assms(2-6)] show ?thesis .
next
  assume "THROW_codegen f args tys s = Inr (x, t)" and
    "\<forall>lab c. f = LABEL lab \<longrightarrow> cx_clusterMap s lab = Some c \<longrightarrow>
      (\<exists>en. cluster_entry c = Some en \<and> f_kind en = STD_CONT)"
  then show ?thesis by (intro THROW_typed [OF _ assms(2-6)]) auto
qed

text \<open>A state with values for two variables.\<close>

definition call_ctx :: cgctx where
  "call_ctx = work_ctx\<lparr>cx_vMap := [1 \<mapsto> VArg 5 PtrTy, 2 \<mapsto> VArg 6 i64Ty]\<rparr>"

lemma call_run:
  "case APPLY_codegen (VAR 1) [VAR 2] [PTRt] call_ctx of Inl _ \<Rightarrow> False | Inr _ \<Rightarrow> True"
  by (simp add: call_ctx_def work_ctx_def work_regs_def sample_ctx_def APPLY_codegen_def APPLY_callee_def
      castTy_def run_defs)

lemma calls_typed_witness:
  "\<exists>t ft fn vs. APPLY_codegen (VAR 1) [VAR 2] [PTRt] call_ctx = Inr ((), t) \<and>
     ends_in_call (ir_blocks t 0) ft fn vs \<and> map type_of vs = ft_params ft"
proof -
  obtain t where t: "APPLY_codegen (VAR 1) [VAR 2] [PTRt] call_ctx = Inr ((), t)"
    using call_run by (auto split: sum.splits)
  have "ir_insert call_ctx = Some 0" "fold_typed (ir_fold call_ctx)" "regs_typed call_ctx"
    "label_ok call_ctx (VAR 1) 1"
    by (simp_all add: call_ctx_def fold_typed_def regs_typed_def label_ok_def)
      (simp_all add: work_ctx_def sample_ctx_def Context_init_def work_regs_def getBasePtr_def)
  with calls_typed [OF disjI1 [OF t]] t show ?thesis by fastforce
qed

text \<open>The code of a jump to a fragment ends the current block with a branch to the block of the
  fragment, and adds to each of its phi nodes one edge from the current block: the registers, the
  base pointer where it is passed, and the arguments, in the order of the phi nodes and cast to
  their types.\<close>

theorem goto_adds_edges:
  assumes "GOTO_codegen lab args s = Inr (x, t)" "ir_insert s = Some c"
    "fold_typed (ir_fold s)" "regs_typed s"
    "cx_fragMap s lab = Some fr" "f_phiNodes fr = map (\<lambda>(n, ty). VInst n ty) nts"
    "distinct (map fst nts)"
    "createParamTys INTERNAL n s = Inr (tys, s)" "length nts = length tys + length args"
  shows "\<exists>extra vs u. createArgs INTERNAL (length args) s = Inr (extra, s) \<and>
    exps_codegen args s = Inr (vs, u) \<and>
    (\<exists>b pre m. stm_bb (f_body fr) = Some b \<and> bb_insts (ir_blocks t c) = pre @ [(m, Br b)]) \<and>
    (\<forall>j<length nts. \<exists>w. type_of w = snd (nts ! j) \<and>
      (type_of ((extra @ vs) ! j) = snd (nts ! j) \<longrightarrow> w = (extra @ vs) ! j) \<and>
      ir_phis t (fst (nts ! j)) = ir_phis s (fst (nts ! j)) @ [(w, c)]) \<and>
    (\<forall>n. n \<notin> fst ` set nts \<longrightarrow> ir_phis t n = ir_phis s n)"
  by (rule GOTO_adds [OF assms])

definition goto_nodes :: "(nat \<times> lty) list" where
  "goto_nodes = [(10, PtrTy), (11, PtrTy), (12, PtrTy), (13, PtrTy)]"

definition goto_frag :: frag where
  "goto_frag = \<lparr>f_kind = INTERNAL, f_lab = 8, f_params = [sample_param 4 PTRt],
     f_body = THROW (Some 3) (VAR 4) [VAR 4] [PTRt], f_phiNodes = map (\<lambda>(n, ty). VInst n ty) goto_nodes\<rparr>"

definition goto_ctx :: cgctx where
  "goto_ctx = call_ctx\<lparr>cx_fragMap := [8 \<mapsto> goto_frag], cx_curCluster := Some sample_cluster\<rparr>"

lemma goto_run:
  "case GOTO_codegen 8 [VAR 1] goto_ctx of Inl _ \<Rightarrow> False | Inr _ \<Rightarrow> True"
  by (simp add: goto_ctx_def call_ctx_def work_ctx_def work_regs_def sample_ctx_def goto_frag_def
      goto_nodes_def sample_cluster_def castTy_def run_defs)

lemma goto_adds_edges_witness:
  "\<exists>t w. GOTO_codegen 8 [VAR 1] goto_ctx = Inr ((), t) \<and> type_of w = PtrTy \<and>
     ir_phis t 13 = ir_phis goto_ctx 13 @ [(w, 0)]"
proof -
  obtain t where t: "GOTO_codegen 8 [VAR 1] goto_ctx = Inr ((), t)"
    using goto_run by (auto split: sum.splits)
  have tys: "createParamTys INTERNAL 1 goto_ctx = Inr ([PtrTy, PtrTy, PtrTy], goto_ctx)"
    by (simp add: goto_ctx_def call_ctx_def work_ctx_def sample_ctx_def sample_cluster_def run_defs)
  have "ir_insert goto_ctx = Some 0" "fold_typed (ir_fold goto_ctx)" "regs_typed goto_ctx"
    "cx_fragMap goto_ctx 8 = Some goto_frag"
    by (simp_all add: goto_ctx_def call_ctx_def fold_typed_def regs_typed_def)
      (simp_all add: work_ctx_def sample_ctx_def Context_init_def work_regs_def getBasePtr_def)
  note c = this
  have n: "length goto_nodes = 4" "f_phiNodes goto_frag = map (\<lambda>(n, ty). VInst n ty) goto_nodes"
    "distinct (map fst goto_nodes)"
    by (simp_all add: goto_nodes_def goto_frag_def)
  from goto_adds_edges [OF t c n(2,3) tys] n(1)
  have "\<forall>j<4. \<exists>w. type_of w = snd (goto_nodes ! j) \<and>
      ir_phis t (fst (goto_nodes ! j)) = ir_phis goto_ctx (fst (goto_nodes ! j)) @ [(w, 0)]"
    by simp blast
  from this [THEN spec [of _ 3]] t show ?thesis by (auto simp: goto_nodes_def)
qed

text \<open>A branch between a throw and a jump, at a state in which the jump is possible.\<close>

definition arm_stm :: stm where
  "arm_stm = BRANCH (Some 5) (CMP LT True 64) [VAR 2, VAR 2] 0
     (THROW (Some 6) (VAR 1) [VAR 1] [PTRt]) (GOTO (Some 7) 8 [VAR 1])"

lemma arm_run: "case stm_codegen arm_stm goto_ctx of Inl _ \<Rightarrow> False | Inr _ \<Rightarrow> True"
  by (simp add: arm_stm_def goto_ctx_def call_ctx_def work_ctx_def work_regs_def sample_ctx_def
      goto_frag_def goto_nodes_def sample_cluster_def castTy_def run_defs)

lemma arms_start_alike_witness:
  "\<exists>u t. stm_codegen arm_stm goto_ctx = Inr ((), t) \<and>
     cx_regState u = cx_regState goto_ctx \<and> arms_run goto_ctx (arms_of arm_stm) u t"
proof -
  obtain t where t: "stm_codegen arm_stm goto_ctx = Inr ((), t)"
    using arm_run by (auto split: sum.splits)
  have "ir_insert goto_ctx = Some 0" "arms_of arm_stm \<noteq> []"
    by (simp_all add: goto_ctx_def call_ctx_def arm_stm_def)
  from arms_start_alike [OF t this] t show ?thesis by blast
qed

section \<open>Calling conventions\<close>

text \<open>C15: in a standard call, caller and callee agree.  The machine registers are passed first, in the
  order in which the entry binds them, the registers on the stack are not passed, and the argument
  for the \<open>j\<close>th parameter is at the position to which the entry binds the parameter.\<close>

theorem standard_calls_agree:
  assumes "SetupStdArgs ft k es s = Inr (vs, s')" "k = STD_FUN \<or> k = STD_CONT"
    "cx_regInfo s = CMRegs_new (Some ti)"
    and "setupStdEntry fr u = Inr (x, t)" "f_kind fr = k" "cx_regInfo u = CMRegs_new (Some ti)"
      "cx_curFn u = Some f"
      "distinct (map p_name (f_params fr))" "\<forall>p\<in>set (f_params fr). cx_vMap u (p_name p) = None"
  shows "(\<forall>i<length (hw_ids ti).
      rs_get (cx_regState s) (hw_ids ti ! i) = Some (vs ! i) \<and>
      rs_get (cx_regState t) (hw_ids ti ! i) = Some (formal u f i)) \<and>
    (\<forall>r. \<not> in_machine ti r \<longrightarrow> rs_get (cx_regState t) r = None) \<and>
    setup_args ft (first_arg ti k) es s = Inr (drop (first_arg ti k) vs, s') \<and>
    (\<forall>j<length (f_params fr).
      cx_vMap t (p_name (f_params fr ! j)) = Some (formal u f (first_arg ti k + j)))"
proof -
  have "getArgInfo (f_kind fr) u = Inr (\<lparr>nExtra = length (hw_ids ti), nBasePtr = 0,
      nUnused = (if k = STD_FUN then 0 else 2)\<rparr>, u)"
    using std_info [OF assms(2,6)] assms(5) by simp
  note entry = setupStdEntry_entered [OF assms(4,6,7) this assms(8,9)]
  show ?thesis
    using std_args [OF assms(1-3)] entry by (auto simp: entered_def first_arg_def)
qed

text \<open>A continuation with three registers, two unused parameters and one proper parameter.\<close>

definition cont_type :: fnty where
  "cont_type = \<lparr>ft_ret = VoidTy, ft_params = [PtrTy, PtrTy, PtrTy, PtrTy, PtrTy, i64Ty]\<rparr>"

definition cont_frag :: frag where
  "cont_frag = \<lparr>f_kind = STD_CONT, f_lab = 7, f_params = [sample_param 5 (NUMt 64)],
     f_body = GOTO None 8 [], f_phiNodes = []\<rparr>"

definition entry_ctx :: cgctx where
  "entry_ctx = work_ctx\<lparr>ir_fns := [\<lparr>fn_ty = cont_type, fn_name = [], fn_module = 0,
     fn_public = False, fn_cc = CC_JWA, fn_nounwind = True\<rparr>]\<rparr>"

lemma convention_run:
  "case setupStdEntry cont_frag entry_ctx of Inl _ \<Rightarrow> False | Inr _ \<Rightarrow> True"
  "case SetupStdArgs cont_type STD_CONT [VAR 2] call_ctx of Inl _ \<Rightarrow> False | Inr (vs, _) \<Rightarrow> length vs = 6"
  by (simp_all add: call_ctx_def entry_ctx_def work_ctx_def work_regs_def sample_ctx_def
      cont_frag_def cont_type_def sample_param_def run_defs)

lemma x86_hw_ids: "hw_ids (X86_64Info b) = [ALLOC_PTR, LIMIT_PTR, STORE_PTR]"
  by (simp add: hw_ids_def in_machine_def reg_ids_def X86_64Info_def)

lemma standard_calls_agree_witness:
  "\<exists>vs s' t. SetupStdArgs cont_type STD_CONT [VAR 2] call_ctx = Inr (vs, s') \<and>
     setupStdEntry cont_frag entry_ctx = Inr ((), t) \<and>
     rs_get (cx_regState t) STORE_PTR = Some (VArg 2 PtrTy) \<and> cx_vMap t 5 = Some (VArg 5 i64Ty)"
proof -
  obtain vs s' where a: "SetupStdArgs cont_type STD_CONT [VAR 2] call_ctx = Inr (vs, s')"
    using convention_run(2) by (auto split: sum.splits)
  obtain t where t: "setupStdEntry cont_frag entry_ctx = Inr ((), t)"
    using convention_run(1) by (auto split: sum.splits)
  have c: "cx_regInfo call_ctx = CMRegs_new (Some (X86_64Info sample_build))"
    by (simp add: call_ctx_def)
  have e: "f_kind cont_frag = STD_CONT" "cx_regInfo entry_ctx = CMRegs_new (Some (X86_64Info sample_build))"
    "cx_curFn entry_ctx = Some 0" "distinct (map p_name (f_params cont_frag))"
    "\<forall>p\<in>set (f_params cont_frag). cx_vMap entry_ctx (p_name p) = None"
    by (simp_all add: entry_ctx_def cont_frag_def)
      (simp add: work_ctx_def sample_ctx_def Context_init_def)
  have formal: "formal entry_ctx 0 2 = VArg 2 PtrTy" "formal entry_ctx 0 5 = VArg 5 i64Ty"
    by (simp_all add: formal_def entry_ctx_def cont_type_def)
  have n: "length (hw_ids (X86_64Info sample_build)) = 3" "hw_ids (X86_64Info sample_build) ! 2 = STORE_PTR"
    "first_arg (X86_64Info sample_build) STD_CONT = 5"
    "length (f_params cont_frag) = 1" "p_name (f_params cont_frag ! 0) = 5"
    by (simp_all add: x86_hw_ids first_arg_def cont_frag_def sample_param_def)
  note agree = standard_calls_agree [OF a _ c t e, simplified n]
  have "rs_get (cx_regState t) STORE_PTR = Some (VArg 2 PtrTy)"
    using agree [THEN conjunct1, THEN spec [of _ 2]] by (simp add: n formal)
  moreover have "cx_vMap t 5 = Some (VArg 5 i64Ty)"
    using agree [THEN conjunct2, THEN conjunct2, THEN conjunct2, THEN spec [of _ 0]]
    by (simp add: n formal)
  ultimately show ?thesis using a t by blast
qed

text \<open>At the entry of a fragment each machine register is its phi node and the parameters are
  bound to the phi nodes after those of the registers and of the base pointer, where one is
  passed; registers on the stack stay as they are.\<close>

theorem fragment_entry:
  assumes "setupFragEntry fr phis s = Inr (x, t)" "cx_regInfo s = CMRegs_new (Some ti)"
    "getArgInfo INTERNAL s = Inr (info, s)"
    "distinct (map p_name (f_params fr))" "\<forall>p\<in>set (f_params fr). cx_vMap s (p_name p) = None"
  shows "(\<forall>i<length (hw_ids ti). rs_get (cx_regState t) (hw_ids ti ! i) = Some (phis ! i)) \<and>
    (\<forall>r. \<not> in_machine ti r \<longrightarrow> rs_get (cx_regState t) r = rs_get (cx_regState s) r) \<and>
    (\<forall>j<length (f_params fr).
      cx_vMap t (p_name (f_params fr ! j)) = Some (phis ! (nExtra info + nBasePtr info + j)))"
  using setupFragEntry_entered [OF assms] by (auto simp: entered_def)

lemma fragment_run:
  "case setupFragEntry goto_frag (f_phiNodes goto_frag) goto_ctx of Inl _ \<Rightarrow> False | Inr _ \<Rightarrow> True"
  "getArgInfo INTERNAL goto_ctx = Inr (\<lparr>nExtra = 3, nBasePtr = 0, nUnused = 0\<rparr>, goto_ctx)"
  by (simp_all add: goto_ctx_def call_ctx_def work_ctx_def work_regs_def sample_ctx_def goto_frag_def
      goto_nodes_def sample_cluster_def sample_param_def run_defs)

lemma fragment_entry_witness:
  "\<exists>t. setupFragEntry goto_frag (f_phiNodes goto_frag) goto_ctx = Inr ((), t) \<and>
     rs_get (cx_regState t) STORE_PTR = Some (VInst 12 PtrTy) \<and>
     cx_vMap t 4 = Some (VInst 13 PtrTy)"
proof -
  obtain t where t: "setupFragEntry goto_frag (f_phiNodes goto_frag) goto_ctx = Inr ((), t)"
    using fragment_run(1) by (auto split: sum.splits)
  have c: "cx_regInfo goto_ctx = CMRegs_new (Some (X86_64Info sample_build))"
    by (simp add: goto_ctx_def call_ctx_def)
  have p: "distinct (map p_name (f_params goto_frag))"
    "\<forall>p\<in>set (f_params goto_frag). cx_vMap goto_ctx (p_name p) = None"
    by (simp_all add: goto_frag_def goto_ctx_def call_ctx_def sample_param_def work_ctx_def
        sample_ctx_def Context_init_def)
  have n: "length (hw_ids (X86_64Info sample_build)) = 3" "hw_ids (X86_64Info sample_build) ! 2 = STORE_PTR"
    "length (f_params goto_frag) = 1" "p_name (f_params goto_frag ! 0) = 4"
    "f_phiNodes goto_frag ! 2 = VInst 12 PtrTy" "f_phiNodes goto_frag ! 3 = VInst 13 PtrTy"
    by (simp_all add: x86_hw_ids goto_frag_def goto_nodes_def sample_param_def)
  note entry = fragment_entry [OF t c fragment_run(2) p, simplified n]
  have "rs_get (cx_regState t) STORE_PTR = Some (VInst 12 PtrTy)"
    using entry [THEN conjunct1, THEN spec [of _ 2]] by (simp add: n)
  moreover have "cx_vMap t 4 = Some (VInst 13 PtrTy)"
    using entry [THEN conjunct2, THEN conjunct2, THEN spec [of _ 0]] by (simp add: n)
  ultimately show ?thesis using t by blast
qed

end
