(* ===== verification/Stm_Sem.thy ===== *)
theory Stm_Sem
  imports Exp_Sem Raw_Alloc Arith_Code
begin

text \<open>
  The meaning of the statements of the CFG language, over an environment for the variables, the
  contents of the registers of the runtime system and the memory: a statement runs until it leaves
  its fragment, by a jump, a call or an overflow.  The calls of the garbage collector, raw records,
  the registers that may live on the stack and floating-point comparisons have no meaning here.
\<close>

section \<open>Outcomes\<close>

type_synonym regs = "CMRegId \<Rightarrow> u64"

text \<open>Where a call goes: the entry of a cluster, or an address.\<close>

datatype dest = Entry lvar | Address u64

datatype outcome =
    Jump lvar "rval list" regs mem
  | Leave frag_kind dest "rval list" regs mem
  | Overflow regs mem

text \<open>The target, and the types of the parameters of fragments and of the entries of clusters.\<close>

record sigs =
  sg_target :: target_info
  sg_frag :: "lvar \<Rightarrow> ty list option"
  sg_fn :: "lvar \<Rightarrow> (frag_kind \<times> ty list) option"

section \<open>Arguments\<close>

definition lty_of :: "ty \<Rightarrow> lty" where
  "lty_of t = (case t of NUMt sz \<Rightarrow> iType sz | FLTt sz \<Rightarrow> fType sz | TAGt \<Rightarrow> i64Ty | _ \<Rightarrow> PtrTy)"

text \<open>An argument has the type of its parameter, or both are ML values: pointers and 64-bit numbers
  stand for each other.\<close>

definition as_ty :: "lty \<Rightarrow> rval \<Rightarrow> rval option" where
  "as_ty t r =
     (if rtype r = t then Some r
      else if ml_word r \<and> t = PtrTy then Some (RP (word_of_int (raw r)))
      else if ml_word r \<and> t = i64Ty then Some (RI 64 (raw r))
      else None)"

definition pass :: "ty list \<Rightarrow> rval list \<Rightarrow> rval list option" where
  "pass tys rs =
     (if length rs = length tys then those (map2 as_ty (map lty_of tys) rs) else None)"

section \<open>Allocation\<close>

definition desc_val :: "integer \<Rightarrow> int option" where
  "desc_val iv = (if canonical iv \<and> 0 \<le> int_val iv \<and> int_val iv < 2 ^ 64 then Some (int_val iv) else None)"

text \<open>A record at the allocation pointer, with its descriptor in front.\<close>

definition new_record :: "int \<Rightarrow> rval list \<Rightarrow> regs \<Rightarrow> mem \<Rightarrow> (u64 \<times> regs \<times> mem) option" where
  "new_record d rs G M =
     (let p = G ALLOC_PTR
      in if list_all ml_word rs \<and> length rs < 2 ^ 30 then
           Some (p + 8, G(ALLOC_PTR := p + 8 * of_nat (length rs + 1)), write_words p (d # map raw rs) M)
         else None)"

text \<open>Raw memory of \<open>len\<close> bytes, aligned, with its descriptor in front.\<close>

definition new_raw :: "int \<Rightarrow> int \<Rightarrow> int \<Rightarrow> regs \<Rightarrow> mem \<Rightarrow> (u64 \<times> regs \<times> mem) option" where
  "new_raw d align len G M =
     (let p = raw_start (G ALLOC_PTR) align
      in if 0 \<le> len \<and> len + 8 < 2 ^ 31 then
           Some (p + 8, G(ALLOC_PTR := p + word_of_int (len + 8)), put 8 p d M)
         else None)"

definition alloc_eval :: "alloc \<Rightarrow> rval list \<Rightarrow> regs \<Rightarrow> mem \<Rightarrow> (u64 \<times> regs \<times> mem) option" where
  "alloc_eval op rs G M =
     (case op of
        SPECIAL \<Rightarrow>
          (case rs of [d, v] \<Rightarrow> if ml_word d then new_record (raw d) [v] G M else None | _ \<Rightarrow> None)
      | RECORD desc _ \<Rightarrow> (case desc_val desc of Some d \<Rightarrow> new_record d rs G M | None \<Rightarrow> None)
      | RAW_ALLOC (Some desc) align len \<Rightarrow>
          (case desc_val desc of Some d \<Rightarrow> new_raw d align len G M | None \<Rightarrow> None)
      | _ \<Rightarrow> None)"

section \<open>Updates\<close>

text \<open>The address \<open>x\<close> goes onto the store list.\<close>

definition log_store :: "u64 \<Rightarrow> regs \<Rightarrow> mem \<Rightarrow> regs \<times> mem" where
  "log_store x G M =
     (let p = G ALLOC_PTR
      in (G(STORE_PTR := p, ALLOC_PTR := p + 16), write_words p [uint x, uint (G STORE_PTR)] M))"

text \<open>The element that a number or a pointer is stored as.\<close>

definition elem_fits :: "numkind \<Rightarrow> int \<Rightarrow> rval \<Rightarrow> bool" where
  "elem_fits kind sz r \<longleftrightarrow>
     (if kind = INT_k then int_size sz else sz = 32 \<or> sz = 64) \<and>
     (rtype r = numType kind sz \<or> (\<exists>p. r = RP p) \<and> kind = INT_k \<and> sz = 64)"

definition setter_eval :: "setter \<Rightarrow> rval list \<Rightarrow> regs \<Rightarrow> mem \<Rightarrow> (regs \<times> mem) option" where
  "setter_eval op rs G M =
     (case (op, rs) of
        (ASSIGN, [RP x, v]) \<Rightarrow>
          (if ml_word v then let (G', M') = log_store x G M in Some (G', put 8 x (raw v) M') else None)
      | (UNBOXED_ASSIGN, [RP x, v]) \<Rightarrow> if ml_word v then Some (G, put 8 x (raw v) M) else None
      | (UPDATE, [RP a, i, v]) \<Rightarrow>
          (case as_index i of
             Some k \<Rightarrow>
               (let x = a + 8 * k; (G', M') = log_store x G M
                in if ml_word v then Some (G', put 8 x (raw v) M') else None)
           | None \<Rightarrow> None)
      | (UNBOXED_UPDATE, [RP a, i, v]) \<Rightarrow>
          (case as_index i of
             Some k \<Rightarrow> if ml_word v then Some (G, put 8 (a + 8 * k) (raw v) M) else None
           | None \<Rightarrow> None)
      | (RAW_UPDATE kind sz, [RP a, i, v]) \<Rightarrow>
          (case as_index i of
             Some k \<Rightarrow>
               if elem_fits kind sz v then
                 Some (G, put (nat sz div 8) (a + elem_bytes sz * k) (raw v) M)
               else None
           | None \<Rightarrow> None)
      | (RAW_STORE kind sz, [RP a, i, v]) \<Rightarrow>
          (case as_index i of
             Some k \<Rightarrow>
               if elem_fits kind sz v then Some (G, put (nat sz div 8) (a + k) (raw v) M) else None
           | None \<Rightarrow> None)
      | _ \<Rightarrow> None)"

section \<open>Arithmetic and tests\<close>

text \<open>The result is \<open>Some None\<close> when the operation overflows.\<close>

definition arith_result :: "arith \<Rightarrow> rval list \<Rightarrow> rval option option" where
  "arith_result op rs =
     (case (op, rs) of
        (ARITH_prim oper sz, [a, b]) \<Rightarrow>
          (let w = nat sz
           in case (as_int w a, as_int w b) of
                (Some x, Some y) \<Rightarrow>
                  if trapping oper \<and> (sz = 32 \<or> sz = 64) then
                    (let z = arith_exact oper (sval w x) (sval w y)
                     in Some (if fits_signed w z then Some (RI w (z mod 2 ^ w)) else None))
                  else if oper = IDIV \<and> int_size sz then
                    map_option (\<lambda>z. Some (RI w z)) (int_op SDIV w x y)
                  else if oper = IREM \<and> int_size sz then
                    map_option (\<lambda>z. Some (RI w z)) (int_op SREM w x y)
                  else None
              | _ \<Rightarrow> None)
      | _ \<Rightarrow> None)"

definition branch_eval :: "target_info \<Rightarrow> branch \<Rightarrow> rval list \<Rightarrow> regs \<Rightarrow> bool option" where
  "branch_eval ti op rs G =
     (case (op, rs) of
        (CMP c sg sz, [a, b]) \<Rightarrow>
          (case (as_int (nat sz) a, as_int (nat sz) b) of
             (Some x, Some y) \<Rightarrow>
               if int_size sz \<and> c \<in> {GT, GTE, LT, LTE, EQL, NEQ} then
                 Some (compares c (as_num sg (nat sz) x) (as_num sg (nat sz) y))
               else None
           | _ \<Rightarrow> None)
      | (FSGN sz, [RFlt d x]) \<Rightarrow> if sz = (if d then 64 else 32) then Some (bit x (nat sz - 1)) else None
      | (PEQL, [a, b]) \<Rightarrow> if ml_word a \<and> ml_word b then Some (raw a = raw b) else None
      | (PNEQ, [a, b]) \<Rightarrow> if ml_word a \<and> ml_word b then Some (raw a \<noteq> raw b) else None
      | (LIMIT amt, _) \<Rightarrow> Some (G LIMIT_PTR < G ALLOC_PTR + beyond_slop ti amt)
      | _ \<Rightarrow> None)"

definition switch_index :: "rval \<Rightarrow> nat option" where
  "switch_index r = (if ml_word r \<or> as_int 32 r \<noteq> None then Some (nat (raw r)) else None)"

section \<open>Statements\<close>

abbreviation evals :: "(lvar \<Rightarrow> rval option) \<Rightarrow> mem \<Rightarrow> exp list \<Rightarrow> rval list option" where
  "evals \<rho> M es \<equiv> those (map (exp_eval \<rho> M) es)"

text \<open>The callee, its kind and the types of its parameters, \<open>tys\<close> for an address.  A continuation is
  only thrown to.\<close>

definition dest_eval ::
  "sigs \<Rightarrow> (lvar \<Rightarrow> rval option) \<Rightarrow> mem \<Rightarrow> frag_kind \<Rightarrow> exp \<Rightarrow> ty list \<Rightarrow>
    (frag_kind \<times> dest \<times> ty list) option" where
  "dest_eval S \<rho> M kind e tys =
     (case e of
        LABEL lab \<Rightarrow>
          (case sg_fn S lab of
             Some (k, ts) \<Rightarrow> if kind = STD_CONT \<longrightarrow> k = STD_CONT then Some (k, Entry lab, ts) else None
           | None \<Rightarrow> None)
      | _ \<Rightarrow> (case exp_eval \<rho> M e of Some (RP p) \<Rightarrow> Some (kind, Address p, tys) | _ \<Rightarrow> None))"

definition leave ::
  "sigs \<Rightarrow> (lvar \<Rightarrow> rval option) \<Rightarrow> regs \<Rightarrow> mem \<Rightarrow> frag_kind \<Rightarrow> exp \<Rightarrow> exp list \<Rightarrow> ty list \<Rightarrow>
    outcome option" where
  "leave S \<rho> G M kind f args tys =
     (case (dest_eval S \<rho> M kind f tys, evals \<rho> M args) of
        (Some (k, d, ts), Some rs) \<Rightarrow> map_option (\<lambda>vs. Leave k d vs G M) (pass ts rs)
      | _ \<Rightarrow> None)"

function stm_eval ::
  "sigs \<Rightarrow> (lvar \<Rightarrow> rval option) \<Rightarrow> regs \<Rightarrow> mem \<Rightarrow> stm \<Rightarrow> outcome option" where
  "stm_eval S \<rho> G M (LET _ e p k) =
     (case exp_eval \<rho> M e of
        Some r \<Rightarrow> stm_eval S (\<rho>(p_name p := Some r)) G M k
      | None \<Rightarrow> None)"
| "stm_eval S \<rho> G M (ALLOC _ a es x k) =
     (case evals \<rho> M es of
        Some rs \<Rightarrow>
          (case alloc_eval a rs G M of
             Some (q, G', M') \<Rightarrow> stm_eval S (\<rho>(x := Some (RP q))) G' M' k
           | None \<Rightarrow> None)
      | None \<Rightarrow> None)"
| "stm_eval S \<rho> G M (APPLY _ f args tys) = leave S \<rho> G M STD_FUN f args tys"
| "stm_eval S \<rho> G M (THROW _ f args tys) = leave S \<rho> G M STD_CONT f args tys"
| "stm_eval S \<rho> G M (GOTO _ lab args) =
     (case (sg_frag S lab, evals \<rho> M args) of
        (Some tys, Some rs) \<Rightarrow> map_option (\<lambda>vs. Jump lab vs G M) (pass tys rs)
      | _ \<Rightarrow> None)"
| "stm_eval S \<rho> G M (SWITCH _ e arms) =
     (case exp_eval \<rho> M e of
        Some r \<Rightarrow>
          (case switch_index r of
             Some i \<Rightarrow>
               if i < length arms \<and> length arms < 2 ^ 32 then stm_eval S \<rho> G M (arms ! i) else None
           | None \<Rightarrow> None)
      | None \<Rightarrow> None)"
| "stm_eval S \<rho> G M (BRANCH _ br es prob k1 k2) =
     (case evals \<rho> M es of
        Some rs \<Rightarrow>
          (case branch_eval (sg_target S) br rs G of
             Some b \<Rightarrow> if b then stm_eval S \<rho> G M k1 else stm_eval S \<rho> G M k2
           | None \<Rightarrow> None)
      | None \<Rightarrow> None)"
| "stm_eval S \<rho> G M (ARITH _ a es p k) =
     (case evals \<rho> M es of
        Some rs \<Rightarrow>
          (case arith_result a rs of
             Some (Some r) \<Rightarrow> stm_eval S (\<rho>(p_name p := Some r)) G M k
           | Some None \<Rightarrow> Some (Overflow G M)
           | None \<Rightarrow> None)
      | None \<Rightarrow> None)"
| "stm_eval S \<rho> G M (SETTER _ op es k) =
     (case evals \<rho> M es of
        Some rs \<Rightarrow>
          (case setter_eval op rs G M of
             Some (G', M') \<Rightarrow> stm_eval S \<rho> G' M' k
           | None \<Rightarrow> None)
      | None \<Rightarrow> None)"
| "stm_eval S \<rho> G M (CALLGC _ roots newRoots k) = None"
| "stm_eval S \<rho> G M (RCC _ reentrant linkage proto args results live k) = None"
  by pat_completeness auto

termination
  by (relation "measure (\<lambda>(S, \<rho>, G, M, k). size k)")
    (auto simp: less_Suc_eq_le intro!: size_list_estimation' [OF nth_mem])

end
