(* ===== verification/Cluster_Sem.thy ===== *)
theory Cluster_Sem
  imports Stm_Sem Stm_Init
begin

text \<open>
  The meaning of a cluster: its fragments run one after the other, each with the values that the
  jump to it passes, until control leaves the cluster.
\<close>

definition param_types :: "frag \<Rightarrow> ty list" where
  "param_types fr = map p_ty (f_params fr)"

definition frag_env :: "param list \<Rightarrow> rval list \<Rightarrow> lvar \<Rightarrow> rval option" where
  "frag_env ps vs = map_of (zip (map p_name ps) vs)"

text \<open>A fragment gets as many values as it has parameters, of their types.\<close>

definition frag_eval :: "sigs \<Rightarrow> frag \<Rightarrow> rval list \<Rightarrow> regs \<Rightarrow> mem \<Rightarrow> outcome option" where
  "frag_eval S fr vs G M =
     (if map rtype vs = map lty_of (param_types fr) then
        stm_eval S (frag_env (f_params fr) vs) G M (f_body fr)
      else None)"

definition find_frag :: "frag list \<Rightarrow> lvar \<Rightarrow> frag option" where
  "find_frag frs lab = find (\<lambda>fr. f_lab fr = lab) frs"

text \<open>From one outcome to the next, as long as it is a jump.\<close>

inductive jumps :: "sigs \<Rightarrow> frag list \<Rightarrow> outcome \<Rightarrow> outcome \<Rightarrow> bool" for S frs where
  jumps_refl: "jumps S frs oc oc"
| jumps_step: "find_frag frs lab = Some fr \<Longrightarrow> frag_eval S fr vs G M = Some oc \<Longrightarrow>
    jumps S frs oc oc' \<Longrightarrow> jumps S frs (Jump lab vs G M) oc'"

code_pred jumps .

text \<open>The outcomes of a cluster: the entry gets the arguments, and then its jumps are followed.\<close>

definition cluster_goes :: "sigs \<Rightarrow> cluster \<Rightarrow> rval list \<Rightarrow> regs \<Rightarrow> mem \<Rightarrow> outcome \<Rightarrow> bool" where
  "cluster_goes S c vs G M oc \<longleftrightarrow>
     (case c_frags c of
        [] \<Rightarrow> False
      | en # rest \<Rightarrow> (case frag_eval S en vs G M of Some oc0 \<Rightarrow> jumps S rest oc0 oc | None \<Rightarrow> False))"

section \<open>The blocks of statements have no meaning\<close>

lemma stm_eval_erase: "stm_eval S \<rho> G M (erase k) = stm_eval S \<rho> G M k"
proof (induction S \<rho> G M k rule: stm_eval.induct)
  case (6 S \<rho> G M b e arms)
  then show ?case by (auto split: option.splits)
next
  case (7 S \<rho> G M b br es prob k1 k2)
  then show ?case by (auto split: option.splits)
qed (auto simp del: fun_upd_apply split: option.splits prod.splits)

lemma stm_eval_same: "erase k' = erase k \<Longrightarrow> stm_eval S \<rho> G M k' = stm_eval S \<rho> G M k"
  by (metis stm_eval_erase)

end
