(* ===== verification/Lasting.thy ===== *)
theory Lasting
  imports Exp_Code
begin

text \<open>
  What the code of a statement leaves behind for the code after it: the surroundings of the
  function stay, bindings of variables and edges of phi nodes are only added, instructions are
  numbered upwards, and the overflow block, once made, stays.
\<close>

section \<open>Unconditionally\<close>

definition surround :: "cgctx \<Rightarrow> cgctx \<Rightarrow> bool" where
  "surround s t \<longleftrightarrow>
     ir_fold t = ir_fold s \<and> ir_module t = ir_module s \<and> ir_fns t = ir_fns s \<and>
     cx_target t = cx_target s \<and> cx_regInfo t = cx_regInfo s \<and> cx_wordSzB t = cx_wordSzB s \<and>
     cx_intTy t = cx_intTy s \<and> cx_curFn t = cx_curFn s \<and> cx_curCluster t = cx_curCluster s \<and>
     cx_clusterMap t = cx_clusterMap s \<and> cx_fragMap t = cx_fragMap s"

definition lasting :: "cgctx \<Rightarrow> cgctx \<Rightarrow> bool" where
  "lasting s t \<longleftrightarrow>
     surround s t \<and> ir_nvals s \<le> ir_nvals t \<and> (numbers_ok s \<longrightarrow> numbers_ok t) \<and>
     (\<forall>x v. cx_vMap s x = Some v \<longrightarrow> cx_vMap t x = Some v) \<and>
     (\<forall>n. \<exists>es. ir_phis t n = ir_phis s n @ es)"

lemma surround_refl [simp]: "surround s s"
  by (simp add: surround_def)

lemma kept_surround: "kept s t \<Longrightarrow> surround s t"
  by (simp add: kept_def surround_def)

lemma lastingI:
  "surround s t \<Longrightarrow> ir_nvals s \<le> ir_nvals t \<Longrightarrow> (numbers_ok s \<Longrightarrow> numbers_ok t) \<Longrightarrow>
     (\<And>x v. cx_vMap s x = Some v \<Longrightarrow> cx_vMap t x = Some v) \<Longrightarrow>
     (\<And>n. \<exists>es. ir_phis t n = ir_phis s n @ es) \<Longrightarrow> lasting s t"
  by (simp add: lasting_def)

lemma lasting_same:
  assumes "surround s t" "ir_nvals t = ir_nvals s" "ir_blocks t = ir_blocks s" "cx_vMap t = cx_vMap s"
    "ir_phis t = ir_phis s"
  shows "lasting s t"
  using assms numbers_ok_cong [of t s] by (simp add: lasting_def)

definition upward :: "cgctx \<Rightarrow> cgctx \<Rightarrow> bool" where
  "upward s t \<longleftrightarrow> ir_nvals s \<le> ir_nvals t"

interpretation upward: expr_frame upward
  by unfold_locales
    (auto simp: keeps_def upward_def setInvarianteLoadMD_def intr_get_def initSPAccess_def
      createGlobalAlias_def current_module_def GetInsertBlock_def cg_simps cbind_def cthe_def
      dest!: ir_append_Some split: option.splits if_splits)

text \<open>Straight operations that keep the bindings and the phi nodes and number upwards.\<close>

lemma lasting_expr:
  assumes "straight m" "keeps quiet m" "keeps tidy m" "keeps upward m"
  shows "keeps lasting m"
  unfolding keeps_def
proof (intro allI impI)
  fix s x t assume run: "m s = Inr (x, t)"
  show "lasting s t"
    using kept_surround straightD [OF assms(1) run] keepsD [OF assms(2) run] keepsD [OF assms(3) run]
      keepsD [OF assms(4) run]
    by (auto simp: lasting_def quiet_def tidy_def upward_def extends_def)
qed

lemma lasting_modify:
  "(\<And>s. lasting s (f s)) \<Longrightarrow> keeps lasting (cmodify f)"
  by (auto simp: keeps_def cmodify_def)

lemma lasting_exec: "keeps lasting (ir_exec i)"
proof -
  have 1: "keeps tidy (ir_exec i)"
    unfolding ir_exec_def by (intro tidy.keeps_bind tidy_append tidy.keeps_return)
  show ?thesis
    unfolding keeps_def
  proof (intro allI impI)
    fix s t :: cgctx and x assume run: "ir_exec i s = Inr (x, t)"
    then have "numbers_ok s \<longrightarrow> numbers_ok t" using keepsD [OF 1] by (auto simp: tidy_def)
    with run show "lasting s t"
      by (auto simp: lasting_def surround_def ir_exec_def creturn_def elim!: cbind_InrE dest!: ir_append_Some)
  qed
qed

lemma lasting_newBB: "keeps lasting (newBB n)"
  unfolding keeps_def
proof (intro allI impI)
  fix s x t assume "newBB n s = Inr (x, t)"
  then obtain f where t: "t = s\<lparr>ir_nblocks := ir_nblocks s + 1,
      ir_blocks := (ir_blocks s)(ir_nblocks s := \<lparr>bb_name = n, bb_fn = f, bb_insts = []\<rparr>)\<rparr>"
    by (auto dest!: newBB_eq)
  have "numbers_ok t" if "numbers_ok s" using that by (auto simp: numbers_ok_def t)
  then show "lasting s t" by (simp add: lasting_def surround_def t)
qed

lemma lasting_basics:
  "keeps lasting (insertVal x v)" "keeps lasting (setRegState r w)"
  "keeps lasting (restoreSMLRegState c)" "keeps lasting (set_basePtr b)"
  "keeps lasting clear_basePtr" "keeps lasting (phi_addIncoming phi v n)"
  "keeps lasting (SetInsertPoint d)"
proof -
  have same: "lasting s (s\<lparr>cx_regState := st\<rparr>)" for s st
    by (rule lasting_same) (simp_all add: surround_def)
  show "keeps lasting (insertVal x v)"
    unfolding insertVal_def
    by (rule lasting_modify)
      (auto simp: lasting_def surround_def numbers_ok_def map_insert_def)
  show "keeps lasting (setRegState r w)" "keeps lasting (restoreSMLRegState c)"
    "keeps lasting clear_basePtr"
    unfolding setRegState_def restoreSMLRegState_def clear_basePtr_def
    by (intro lasting_modify same)+
  show "keeps lasting (set_basePtr b)"
    by (auto simp: keeps_def set_basePtr_def cassert_def cthen_def cbind_def cmodify_def creturn_def
        cfail_def same split: if_splits)
  show "keeps lasting (phi_addIncoming phi v n)"
    by (cases phi)
      (auto simp: phi_addIncoming_def keeps_def cmodify_def cfail_def lasting_def surround_def
        numbers_ok_def)
  show "keeps lasting (SetInsertPoint d)"
    unfolding SetInsertPoint_def
    by (rule lasting_modify) (rule lasting_same, simp_all add: surround_def)
qed

interpretation lasting: stm_frame lasting
proof unfold_locales
  show "lasting s s" for s by (simp add: lasting_def)
  show "lasting s u" if "lasting s t" "lasting t u" for s t u
  proof -
    have "\<exists>es. ir_phis u n = ir_phis s n @ es" for n
      using that unfolding lasting_def by (metis append_assoc)
    then show ?thesis using that by (auto simp: lasting_def surround_def)
  qed
qed (auto intro!: lasting_basics lasting_expr frame_intros)

lemma lasting_make_overflowBB: "keeps lasting (make_overflowBB c n)"
proof -
  have 1: "keeps lasting (cmodify (\<lambda>s. s\<lparr>cx_overflowBB := ob\<rparr>))" for ob
    by (rule lasting_modify) (rule lasting_same, simp_all add: surround_def)
  have 2: "keeps lasting (cmodify (\<lambda>s. s\<lparr>cx_overflowPhiNodes := cx_overflowPhiNodes s @ ps\<rparr>))" for ps
    by (rule lasting_modify) (rule lasting_same, simp_all add: surround_def)
  show ?thesis
    unfolding make_overflowBB_def
    by (intro lasting.keeps_bind lasting.keeps_then lasting.keeps_map lasting_exec lasting_newBB
        lasting_basics 1 2)
      (auto simp: shorthand_defs intro!: frame_intros)
qed

lemma lasting_getOverflowBB: "keeps lasting getOverflowBB"
  unfolding getOverflowBB_def
  by (intro lasting.keeps_bind lasting.keeps_then lasting.keeps_if lasting_make_overflowBB)
    (auto intro!: frame_intros)

interpretation lasting: code_frame lasting
  by unfold_locales
    (auto intro: lasting_exec lasting_newBB lasting_basics lasting_getOverflowBB)

section \<open>The overflow block\<close>

text \<open>What the overflow block needs apart from the registers; once it is made, it stays.\<close>

definition base_ok :: "cgctx \<Rightarrow> bool" where
  "base_ok s \<longleftrightarrow> sp_ok s \<and> cx_curFn s \<noteq> None \<and> phis_ok s"

definition based :: "cgctx \<Rightarrow> cgctx \<Rightarrow> bool" where
  "based s t \<longleftrightarrow>
     (base_ok s \<longrightarrow> base_ok t \<and>
        (cx_overflowBB s \<noteq> None \<longrightarrow>
           cx_overflowBB t = cx_overflowBB s \<and> cx_overflowPhiNodes t = cx_overflowPhiNodes s))"

lemma overflow_ok_base:
  "overflow_ok s \<longleftrightarrow> base_ok s \<and>
     (\<forall>i<numMachineRegs (cx_regInfo s).
        rs_get (cx_regState s) (ri_id (machineReg (cx_regInfo s) i)) \<noteq> None)"
  by (auto simp: overflow_ok_def base_ok_def)

lemma based_same:
  assumes "ir_module t = ir_module s" "cx_intTy t = cx_intTy s" "cx_curFn t = cx_curFn s"
    "cx_regInfo t = cx_regInfo s" "ir_nvals s \<le> ir_nvals t" "cx_overflowBB t = cx_overflowBB s"
    "cx_overflowPhiNodes t = cx_overflowPhiNodes s"
    and "sp_ok s \<Longrightarrow> cx_readReg t = None \<longleftrightarrow> cx_spRegMD t = None"
  shows "based s t"
  unfolding based_def
proof (intro impI conjI assms(6,7))
  assume b: "base_ok s"
  then obtain ns where "cx_overflowPhiNodes s = map (\<lambda>n. VInst n PtrTy) ns" "distinct ns"
    "\<forall>n\<in>set ns. n < ir_nvals s"
    "length ns = (if cx_overflowBB s = None then 0 else numMachineRegs (cx_regInfo s))"
    unfolding base_ok_def phis_ok_def by blast
  then have "phis_ok t"
    using assms(4-7) unfolding phis_ok_def by (intro exI [of _ ns]) (auto dest: order_less_le_trans)
  with b assms show "base_ok t" by (auto simp: base_ok_def sp_ok_def)
qed

lemma based_modify: "(\<And>s. based s (f s)) \<Longrightarrow> keeps based (cmodify f)"
  by (auto simp: keeps_def cmodify_def)

lemma based_append: "keeps based (ir_append i)"
  by (auto simp: keeps_def sp_ok_def intro!: based_same dest!: ir_append_Some)

lemma based_basics:
  "keeps based (setRegState r w)" "keeps based (restoreSMLRegState c)" "keeps based (set_basePtr b)"
  "keeps based clear_basePtr" "keeps based (phi_addIncoming phi v n)" "keeps based (SetInsertPoint d)"
  "keeps based (insertVal x v)" "keeps based (setInvarianteLoadMD v)"
  "keeps based (createGlobalAlias ty nm v)" "keeps based (intr_get j)" "keeps based initSPAccess"
  "keeps based (newBB nm)" "keeps based (ir_exec i)"
proof -
  show "keeps based (setRegState r w)" "keeps based (restoreSMLRegState c)"
    "keeps based clear_basePtr" "keeps based (SetInsertPoint d)" "keeps based (insertVal x v)"
    unfolding setRegState_def restoreSMLRegState_def clear_basePtr_def SetInsertPoint_def insertVal_def
    by (rule based_modify, rule based_same, auto simp: sp_ok_def)+
  show "keeps based (set_basePtr b)" "keeps based (phi_addIncoming phi v n)"
    "keeps based (setInvarianteLoadMD v)" "keeps based (createGlobalAlias ty nm v)"
    "keeps based (intr_get j)" "keeps based initSPAccess"
    unfolding keeps_def
    by (auto simp: set_basePtr_def phi_addIncoming_def setInvarianteLoadMD_def createGlobalAlias_def
        intr_get_def initSPAccess_def current_module_def GetInsertBlock_def cg_simps cthe_def cassert_def
        cthen_def cbind_def cfail_def sp_ok_def intro!: based_same
        split: if_splits "value.splits" option.splits sum.splits)
  show "keeps based (newBB nm)"
    by (auto simp: keeps_def sp_ok_def intro!: based_same dest!: newBB_eq)
  show "keeps based (ir_exec i)"
    by (auto simp: keeps_def ir_exec_def creturn_def elim!: cbind_InrE dest: keepsD [OF based_append])
qed

interpretation based: stm_frame based
proof unfold_locales
  show "based s s" for s by (simp add: based_def)
  show "based s u" if "based s t" "based t u" for s t u
    using that by (auto simp: based_def)
qed (intro based_append based_basics)+

text \<open>The overflow block is made when it is missing, and otherwise only edges are added.\<close>

context edge_frame
begin

lemma keeps_made:
  assumes "\<And>s t c. cx_overflowBB s = None \<Longrightarrow>
    make_overflowBB c (numMachineRegs (cx_regInfo s)) s = Inr ((), t) \<Longrightarrow> P s t"
  shows "keeps P getOverflowBB"
  unfolding keeps_def
proof (intro allI impI)
  fix s x t assume run: "getOverflowBB s = Inr (x, t)"
  let ?make = "\<lambda>c n. cbind (cget cx_overflowBB) (\<lambda>bb.
    if bb = None then make_overflowBB c n else creturn ())"
  let ?rest = "\<lambda>c n. cbind (cget cx_regInfo) (\<lambda>ri.
      cthen (cforeach [0..<n] (\<lambda>i.
        cbind (cbind (cget cx_overflowPhiNodes) (\<lambda>phis. phi_at phis i)) (\<lambda>phi.
        cbind (reg_value (ri_id (machineReg ri i))) (\<lambda>v. phi_addIncoming phi v c))))
      (cbind (cget cx_overflowBB) (cthe (NullPointer ''overflow block''))))"
  let ?n = "numMachineRegs (cx_regInfo s)"
  have "\<exists>c u. ?make c ?n s = Inr ((), u) \<and> ?rest c ?n u = Inr (x, t)"
    using run unfolding getOverflowBB_def
    by (elim cbind_InrE [of GetInsertBlock], elim cbind_InrE [of "cget _"], elim cthen_InrE)
      (auto simp: GetInsertBlock_eq cget_eq simp del: One_nat_def)
  then obtain c u where u: "?make c ?n s = Inr ((), u)" and m: "?rest c ?n u = Inr (x, t)" by blast
  have "P s u"
  proof (cases "cx_overflowBB s")
    case None
    with u have "make_overflowBB c ?n s = Inr ((), u)" by (simp add: cbind_def cget_def)
    then show ?thesis by (rule assms [OF None])
  next
    case (Some b)
    with u have "u = s" by (simp add: cbind_def cget_def creturn_def)
    then show ?thesis by (simp add: keeps_refl)
  qed
  moreover have "keeps P (?rest c ?n)" by (intro frame_intros)
  then have "P u t" by (rule keepsD) (rule m)
  ultimately show "P s t" by (rule keeps_trans)
qed

end

lemma based_getOverflowBB: "keeps based getOverflowBB"
proof (rule based.keeps_made)
  fix s t c
  assume none: "cx_overflowBB s = None" and run: "make_overflowBB c (numMachineRegs (cx_regInfo s)) s = Inr ((), t)"
  show "based s t"
    unfolding based_def
  proof (intro impI conjI)
    assume ok: "base_ok s"
    then have "does (make_overflowBB c (numMachineRegs (cx_regInfo s))) s
        (\<lambda>_. made c (numMachineRegs (cx_regInfo s)) s)"
      by (intro does_make_overflowBB) (auto simp: base_ok_def)
    with run have made: "made c (numMachineRegs (cx_regInfo s)) s t" by (auto simp: does_def)
    from made_phis [OF this _ none refl] made ok show "base_ok t"
      by (simp add: base_ok_def made_def)
  qed (use none in simp_all)
qed

interpretation based: code_frame based
  by unfold_locales (intro based_basics based_getOverflowBB)+

section \<open>Variables\<close>

text \<open>The variables that a statement binds.\<close>

fun binders :: "stm \<Rightarrow> lvar list" where
  "binders (LET _ e p k) = p_name p # binders k"
| "binders (ALLOC _ a es x k) = x # binders k"
| "binders (SWITCH _ e arms) = concat (map binders arms)"
| "binders (BRANCH _ br es prob k1 k2) = binders k1 @ binders k2"
| "binders (ARITH _ a es p k) = p_name p # binders k"
| "binders (SETTER _ op es k) = binders k"
| "binders (CALLGC _ roots newRoots k) = newRoots @ binders k"
| "binders _ = []"

definition binds :: "lvar set \<Rightarrow> cgctx \<Rightarrow> cgctx \<Rightarrow> bool" where
  "binds X s t \<longleftrightarrow> dom (cx_vMap t) \<subseteq> dom (cx_vMap s) \<union> X"

lemma binds_same: "cx_vMap t = cx_vMap s \<Longrightarrow> binds X s t"
  by (simp add: binds_def)

interpretation binds: edge_frame "binds X" for X
proof unfold_locales
  show "binds X s s" for s by (simp add: binds_def)
  show "binds X s u" if "binds X s t" "binds X t u" for s t u
    using that unfolding binds_def by blast
  show "keeps (binds X) (ir_append i)" for i
    by (auto simp: keeps_def intro!: binds_same dest!: ir_append_Some)
qed (auto simp: keeps_def set_basePtr_def phi_addIncoming_def setInvarianteLoadMD_def
      createGlobalAlias_def intr_get_def initSPAccess_def current_module_def GetInsertBlock_def cg_simps
      cthe_def cassert_def cthen_def cbind_def cfail_def setRegState_def restoreSMLRegState_def
      clear_basePtr_def intro!: binds_same split: if_splits "value.splits" option.splits sum.splits)

text \<open>Code that leaves the bindings alone, and the binding of a variable.\<close>

lemma binds_control:
  "keeps (binds X) (ir_exec i)" "keeps (binds X) (newBB nm)" "keeps (binds X) (SetInsertPoint d)"
  "keeps (binds X) (make_overflowBB c n)" "keeps (binds X) getOverflowBB"
proof -
  show exec: "keeps (binds X) (ir_exec i)" for i
    by (auto simp: keeps_def ir_exec_def creturn_def intro!: binds_same elim!: cbind_InrE
        dest!: ir_append_Some)
  show new: "keeps (binds X) (newBB nm)" for nm
    by (auto simp: keeps_def intro!: binds_same dest!: newBB_eq)
  show ins: "keeps (binds X) (SetInsertPoint d)" for d
    by (auto simp: keeps_def SetInsertPoint_eq intro!: binds_same)
  have mod: "keeps (binds X) (cmodify f)" if "\<And>s. cx_vMap (f s) = cx_vMap s" for f
    using that by (auto simp: keeps_def cmodify_def intro!: binds_same)
  show make: "keeps (binds X) (make_overflowBB c n)" for c n
    unfolding make_overflowBB_def
    by (intro binds.keeps_bind binds.keeps_then binds.keeps_map exec new ins mod)
      (auto simp: shorthand_defs intro!: frame_intros)
  show "keeps (binds X) getOverflowBB"
    unfolding getOverflowBB_def
    by (intro binds.keeps_bind binds.keeps_then binds.keeps_if make) (auto intro!: frame_intros)
qed

interpretation binds: flow_frame "binds X" for X
  by unfold_locales (intro binds_control)+

lemma binds_insertVal: "x \<in> X \<Longrightarrow> keeps (binds X) (insertVal x v)"
  by (auto simp: keeps_def insertVal_def cmodify_def binds_def map_insert_def)

lemma binds_stm: "set (binders k) \<subseteq> X \<Longrightarrow> keeps (binds X) (stm_codegen k)"
proof (induction k rule: stm_codegen.induct)
  case (6 b e arms)
  then have "keeps (binds X) (stm_codegen a)" if "a \<in> set arms" for a
    using that by auto
  then show ?case
    unfolding stm_codegen.simps
    by (intro binds.code_intros binds.keeps_foreach) (auto simp: shorthand_defs intro!: frame_intros)
next
  case (7 b br es prob k1 k2)
  then show ?case
    unfolding stm_codegen.simps by (intro binds.code_intros) (auto intro: frame_intros)
next
  case (8 b a es p k)
  then show ?case
    unfolding stm_codegen.simps param_bind_def
    by (intro binds.keeps_then binds.keeps_bind binds.keeps_arith binds_insertVal)
      (auto intro: frame_intros)
next
  case (10 b roots newRoots k)
  have new: "set xs \<subseteq> X \<Longrightarrow> keeps (binds X) (gc_newRoots c xs i)" for c xs i
    by (induction xs arbitrary: i)
      (auto intro!: binds.keeps_then binds.keeps_bind binds_insertVal intro: frame_intros)
  have "keeps (binds X) (callGC vs newRoots)" for vs
    unfolding callGC_def
    by (intro binds.keeps_bind binds.keeps_then new)
      (use 10 in \<open>auto simp: shorthand_defs intro!: frame_intros\<close>)
  with 10 show ?case
    unfolding stm_codegen.simps
    by (intro binds.keeps_then binds.keeps_bind) (auto intro!: frame_intros)
qed (auto intro!: binds.keeps_then binds.keeps_bind binds.keeps_calls binds.keeps_GOTO
      binds_insertVal simp: param_bind_def intro: frame_intros)

end
