(* ===== verification/Edges.thy ===== *)
theory Edges
  imports Lasting
begin

text \<open>
  Where the edges of phi nodes come from: the code of a statement adds edges only from its own
  blocks, and from each of them when it is left.
\<close>

section \<open>Edges from a set of blocks\<close>

definition links :: "nat set \<Rightarrow> cgctx \<Rightarrow> cgctx \<Rightarrow> bool" where
  "links X s t \<longleftrightarrow> (\<forall>n. \<exists>es. ir_phis t n = ir_phis s n @ es \<and> snd ` set es \<subseteq> X)"

lemma links_same: "ir_phis t = ir_phis s \<Longrightarrow> links X s t"
  by (simp add: links_def)

lemma links_mono: "links X s t \<Longrightarrow> X \<subseteq> Y \<Longrightarrow> links Y s t"
  unfolding links_def by (meson subset_trans)

interpretation links: state_frame "links X" for X
proof unfold_locales
  show "links X s s" for s by (rule links_same) simp
  show "links X s u" if "links X s t" "links X t u" for s t u
    unfolding links_def
  proof
    fix n
    from that obtain es fs where "ir_phis t n = ir_phis s n @ es" "snd ` set es \<subseteq> X"
      "ir_phis u n = ir_phis t n @ fs" "snd ` set fs \<subseteq> X"
      unfolding links_def by metis
    then show "\<exists>es. ir_phis u n = ir_phis s n @ es \<and> snd ` set es \<subseteq> X"
      by (intro exI [of _ "es @ fs"]) auto
  qed
  show "keeps (links X) (ir_append i)" for i
    by (auto simp: keeps_def intro!: links_same dest!: ir_append_Some)
qed (auto simp: keeps_def set_basePtr_def setInvarianteLoadMD_def
      createGlobalAlias_def intr_get_def initSPAccess_def current_module_def GetInsertBlock_def cg_simps
      cthe_def cassert_def cthen_def cbind_def cfail_def setRegState_def restoreSMLRegState_def
      clear_basePtr_def intro!: links_same split: if_splits "value.splits" option.splits sum.splits)

lemma links_modify: "(\<And>s. ir_phis (f s) = ir_phis s) \<Longrightarrow> keeps (links X) (cmodify f)"
  by (auto simp: keeps_def cmodify_def intro!: links_same)

lemma links_control:
  "keeps (links X) (ir_exec i)" "keeps (links X) (newBB nm)" "keeps (links X) (SetInsertPoint d)"
  "keeps (links X) (insertVal y v)" "keeps (links X) (make_overflowBB c n)"
proof -
  show exec: "keeps (links X) (ir_exec i)" for i
    by (auto simp: keeps_def ir_exec_def creturn_def intro!: links_same elim!: cbind_InrE
        dest!: ir_append_Some)
  show new: "keeps (links X) (newBB nm)" for nm
    by (auto simp: keeps_def intro!: links_same dest!: newBB_eq)
  show ins: "keeps (links X) (SetInsertPoint d)" for d
    unfolding SetInsertPoint_def by (rule links_modify) simp
  show "keeps (links X) (insertVal y v)"
    unfolding insertVal_def by (rule links_modify) simp
  show "keeps (links X) (make_overflowBB c n)"
    unfolding make_overflowBB_def
    by (intro links.keeps_bind links.keeps_then links.keeps_map exec new ins links_modify)
      (auto simp: shorthand_defs intro!: frame_intros)
qed

lemma links_addIncoming: "b \<in> X \<Longrightarrow> keeps (links X) (phi_addIncoming phi v b)"
  by (cases phi) (auto simp: keeps_def phi_addIncoming_def cmodify_def cfail_def links_def)

section \<open>Operations in a block\<close>

definition linking :: "'a cx \<Rightarrow> bool" where
  "linking m \<longleftrightarrow> (\<forall>s x t c. m s = Inr (x, t) \<longrightarrow> ir_insert s = Some c \<longrightarrow> links {c} s t)"

definition stays :: "'a cx \<Rightarrow> bool" where
  "stays m \<longleftrightarrow> (\<forall>s x t. m s = Inr (x, t) \<longrightarrow> ir_insert t = ir_insert s \<and> ir_phis t = ir_phis s)"

lemma linking_bind:
  assumes "stays m" "\<And>x. linking (k x)"
  shows "linking (cbind m k)"
  unfolding linking_def
proof (intro allI impI)
  fix s x t c assume "cbind m k s = Inr (x, t)" and c: "ir_insert s = Some c"
  then obtain y u where m: "m s = Inr (y, u)" and k: "k y u = Inr (x, t)" by (auto elim: cbind_InrE)
  have u: "ir_insert u = Some c" "ir_phis u = ir_phis s" using assms(1) m c by (auto simp: stays_def)
  then have "links {c} u t" using assms(2) k by (simp add: linking_def)
  with u show "links {c} s t" by (simp add: links_def)
qed

lemma linking_end:
  assumes "linking m" "\<And>x X. keeps (links X) (k x)"
  shows "linking (cbind m k)"
  unfolding linking_def
proof (intro allI impI)
  fix s x t c assume "cbind m k s = Inr (x, t)" and c: "ir_insert s = Some c"
  then obtain y u where m: "m s = Inr (y, u)" and k: "k y u = Inr (x, t)" by (auto elim: cbind_InrE)
  have "links {c} s u" using assms(1) m c by (simp add: linking_def)
  with keepsD [OF assms(2) k] show "links {c} s t" by (blast intro: links.keeps_trans)
qed

lemma linking_keeps: "(\<And>X. keeps (links X) m) \<Longrightarrow> linking m"
  by (auto simp: linking_def dest: keepsD)

lemma linking_block: "(\<And>c. keeps (links {c}) (f c)) \<Longrightarrow> linking (cbind GetInsertBlock f)"
  unfolding linking_def by (auto simp: GetInsertBlock_eq elim!: cbind_InrE) (metis keepsD)

lemma stays_expr: "straight m \<Longrightarrow> keeps quiet m \<Longrightarrow> stays m"
  by (auto simp: stays_def quiet_def extends_def kept_def dest: keepsD)

lemma stays_newBB: "stays (newBB nm)"
  by (auto simp: stays_def dest!: newBB_eq)

lemma linking_getOverflowBB: "linking getOverflowBB"
  unfolding getOverflowBB_def
  by (intro linking_block links.keeps_bind links.keeps_then links.keeps_if links_control
      links.keeps_foreach links_addIncoming) (auto intro!: frame_intros)

lemma linking_trap_post: "linking (trap_post ro)"
  unfolding trap_post_def split_def
  by (rule linking_bind [OF stays_newBB])
    (intro linking_end linking_getOverflowBB links.keeps_then links_control frame_intros)

lemma linking_overflow_check: "linking (overflow_check p)"
  unfolding overflow_check_eq
  by (intro linking_bind linking_trap_post stays_expr frame_intros)

lemma linking_arith: "linking (arith_codegen a args)"
proof (cases a)
  case (ARITH_prim oper sz)
  have "linking (case oper of
        IADD \<Rightarrow> cbind (call_intr (if sz = 32 then Sadd32WO else Sadd64WO) [a0, a1]) overflow_check
      | ISUB \<Rightarrow> cbind (call_intr (if sz = 32 then Ssub32WO else Ssub64WO) [a0, a1]) overflow_check
      | IMUL \<Rightarrow> cbind (call_intr (if sz = 32 then Smul32WO else Smul64WO) [a0, a1]) overflow_check
      | IDIV \<Rightarrow> createSDiv a0 a1
      | IREM \<Rightarrow> createSRem a0 a1
      | arithop_other _ \<Rightarrow> cfail (NoCase ''ARITH''))" for a0 a1
    by (cases oper; simp only: arithop.case shorthand_defs)
      (intro linking_bind stays_expr linking_overflow_check linking_keeps frame_intros)+
  then show ?thesis
    unfolding ARITH_prim arith_codegen_def ARITH_codegen_def arith.case cthen_def
    by (intro linking_bind stays_expr) (auto intro!: frame_intros)
next
  case FLOAT_TO_INT
  then show ?thesis
    unfolding arith_codegen_def shorthand_defs
    by (auto intro!: linking_keeps links.keeps_bind intro: frame_intros)
qed

lemma links_goto_phis: "keeps (links {c}) (goto_phis phis i vs c)"
  by (induction vs arbitrary: i)
    (auto intro!: links.keeps_then links.keeps_bind links_addIncoming intro: frame_intros)

lemma linking_leaves:
  "linking (APPLY_codegen f args tys)" "linking (THROW_codegen f args tys)"
  "linking (GOTO_codegen lab args)"
proof -
  show "linking (APPLY_codegen f args tys)" "linking (THROW_codegen f args tys)"
    unfolding APPLY_codegen_def THROW_codegen_def
    by (auto intro!: linking_keeps links.keeps_bind links.keeps_then links_control
        intro: frame_intros split: prod.splits)
  show "linking (GOTO_codegen lab args)"
    unfolding GOTO_codegen_def createBr_def
    by (intro linking_block links.keeps_bind)
      (auto intro!: links.keeps_bind links.keeps_then links_control links_goto_phis
        intro: frame_intros split: option.splits)
qed

section \<open>Statements\<close>

definition region :: "cgctx \<Rightarrow> cgctx \<Rightarrow> nat \<Rightarrow> nat list \<Rightarrow> nat set" where
  "region s t c bs = insert c (set bs) \<union> {ir_nblocks s..<ir_nblocks t}"

definition stm_links :: "stm \<Rightarrow> bool" where
  "stm_links k \<longleftrightarrow> (\<forall>s x t c. stm_codegen k s = Inr (x, t) \<longrightarrow> ir_insert s = Some c \<longrightarrow>
     ready s (c # inner_blocks k) \<longrightarrow> links (region s t c (inner_blocks k)) s t)"

lemma links_seq:
  assumes "stm_codegen k' = cthen m (stm_codegen k)" "inner_blocks k' = inner_blocks k"
    "movable m" "linking m" "stm_links k"
  shows "stm_links k'"
  unfolding stm_links_def assms(1,2)
proof (intro allI impI)
  fix s x t c
  assume run: "cthen m (stm_codegen k) s = Inr (x, t)" and i: "ir_insert s = Some c"
    and r: "ready s (c # inner_blocks k)"
  then obtain y u where m: "m s = Inr (y, u)" and k: "stm_codegen k u = Inr (x, t)"
    by (auto elim: cthen_InrE)
  obtain d where d: "moved s u c d" using movableD [OF assms(3) m i r] by blast
  then have ins: "ir_insert u = Some d" by (simp add: moved_def)
  have ru: "ready u (d # inner_blocks k)" by (rule ready_moved [OF d r])
  have "ir_nblocks u \<le> ir_nblocks t"
    using closesD [OF stm_closes k ins ru] by (simp add: progress_def)
  then have "region u t d (inner_blocks k) \<subseteq> region s t c (inner_blocks k)"
    using d by (auto simp: region_def moved_def)
  moreover have "links (region u t d (inner_blocks k)) u t"
    using assms(5) k ins ru by (simp add: stm_links_def)
  moreover have "links {c} s u" using assms(4) m i by (simp add: linking_def)
  moreover have "{c} \<subseteq> region s t c (inner_blocks k)" by (simp add: region_def)
  ultimately show "links (region s t c (inner_blocks k)) s t"
    by (blast intro: links_mono links.keeps_trans)
qed

lemma links_leave: "stm_codegen k = m \<Longrightarrow> inner_blocks k = [] \<Longrightarrow> linking m \<Longrightarrow> stm_links k"
  unfolding stm_links_def linking_def region_def by (auto intro: links_mono)

lemma arms_links:
  assumes "\<And>k. k \<in> set arms \<Longrightarrow> stm_links k" "arms_codegen d arms s = Inr (x, t)"
    "ready s (concat (map all_blocks arms))"
  shows "links (set (concat (map all_blocks arms)) \<union> {ir_nblocks s..<ir_nblocks t}) s t"
  using assms
proof (induction arms arbitrary: s)
  case Nil
  then show ?case by (simp add: arms_codegen_def creturn_def links_same)
next
  case (Cons k arms)
  let ?X = "set (concat (map all_blocks (k # arms))) \<union> {ir_nblocks s..<ir_nblocks t}"
  from Cons.prems(2) obtain s1 u where s1: "s1 = s\<lparr>cx_regState := copyFrom (cx_regState s) d\<rparr>"
    and u: "arm_codegen k s1 = Inr ((), u)" and rest: "arms_codegen d arms u = Inr (x, t)"
    by (auto elim!: cthen_InrE simp: restore_eq arms_codegen_def)
  then obtain b where b: "stm_bb k = Some b"
    and k: "stm_codegen k (s1\<lparr>ir_insert := Some b\<rparr>) = Inr ((), u)"
    unfolding arm_codegen_def by (auto elim!: cthen_InrE cbind_InrE simp: bb_of_eq SetInsertPoint_eq)
  have al: "all_blocks k = b # inner_blocks k" by (simp add: all_blocks_def own_blocks_def b)
  have r: "ready s (all_blocks k)" "ready s (concat (map all_blocks arms))"
    "set (all_blocks k) \<inter> set (concat (map all_blocks arms)) = {}"
    using Cons.prems(3) by (auto simp: ready_append)
  then have r1: "ready s1 (all_blocks k)" by (auto simp: s1 intro: ready_cong)
  then have "links (region s u b (inner_blocks k)) s1 u"
    using Cons.prems(1) [of k] k unfolding stm_links_def al region_def
    by (fastforce simp: s1 ready_def links_def)
  then have 1: "links (region s u b (inner_blocks k)) s u" by (simp add: links_def s1)
  have "progress s1 u (set (all_blocks k))" by (rule arm_progress [OF stm_closes u r1])
  then have pu: "progress s u (set (all_blocks k))"
    by (rule progress_start) (simp_all add: s1)
  have ru: "ready u (concat (map all_blocks arms))" by (rule ready_progress [OF pu r(2)]) (use r(3) in auto)
  have "ir_nblocks u \<le> ir_nblocks t"
    using arms_progress [OF stm_closes rest ru] by (simp add: progress_def)
  moreover have "ir_nblocks s \<le> ir_nblocks u" using pu by (simp add: progress_def)
  moreover have "links (set (concat (map all_blocks arms)) \<union> {ir_nblocks u..<ir_nblocks t}) u t"
    by (rule Cons.IH [OF _ rest ru]) (use Cons.prems(1) in simp)
  ultimately have "links ?X s u" "links ?X u t"
    using 1 by (auto intro!: links_mono [OF 1] simp: region_def al elim!: links_mono)
  then show ?case by (rule links.keeps_trans)
qed

lemma links_fork:
  assumes "forks k h" "\<And>X. keeps (links X) h" "\<And>a. a \<in> set (arms_of k) \<Longrightarrow> stm_links a"
  shows "stm_links k"
  unfolding stm_links_def
proof (intro allI impI)
  fix s x t c
  assume run: "stm_codegen k s = Inr (x, t)" and i: "ir_insert s = Some c"
    and r: "ready s (c # inner_blocks k)"
  obtain u d where 1: "h s = Inr ((), u)" and 2: "arms_codegen d (arms_of k) u = Inr (x, t)"
    using fork_split [OF assms(1) run] .
  have inner: "inner_blocks k = concat (map all_blocks (arms_of k))" and cl: "closing h"
    using assms(1) by (auto simp: forks_def)
  have pu: "progress s u {c}" by (rule closingD [OF cl 1 i r])
  have "ready u (inner_blocks k)" by (rule ready_progress [OF pu]) (use r in \<open>auto simp: ready_def\<close>)
  then have "links (set (inner_blocks k) \<union> {ir_nblocks u..<ir_nblocks t}) u t"
    using arms_links [OF assms(3) 2] by (simp add: inner)
  then have "links (region s t c (inner_blocks k)) u t"
    by (rule links_mono) (use pu in \<open>auto simp: region_def progress_def\<close>)
  with keepsD [OF assms(2) 1] show "links (region s t c (inner_blocks k)) s t"
    by (rule links.keeps_trans)
qed

lemma links_heads:
  "keeps (links X) (switch_head e arms)" "keeps (links X) (branch_test br es prob k1 k2)"
  unfolding switch_head_def branch_test_def switch_arg_def switch_end_def
  by (intro links.keeps_bind links.keeps_then links_control; auto simp: shorthand_defs intro!: frame_intros)+

theorem stm_links_all: "stm_links k"
proof (induction k rule: inner_blocks.induct)
  case (3 b e arms)
  then show ?case by (intro links_fork [OF SWITCH_forks] links_heads) simp
next
  case (4 b br es prob k1 k2)
  then show ?case by (intro links_fork [OF BRANCH_forks] links_heads) auto
next
  case 1
  then show ?case
    by (intro links_seq [OF stm_codegen.simps(1)] movable_straight linking_keeps links.keeps_bind)
      (auto simp: param_bind_def intro!: links_control intro: frame_intros)
next
  case 2
  then show ?case
    by (intro links_seq [OF stm_codegen.simps(2)] movable_straight linking_keeps links.keeps_bind)
      (auto intro!: links_control intro: frame_intros)
next
  case (5 b a es p k)
  have "linking (cbind (exps_codegen es) (\<lambda>args. cbind (arith_codegen a args) (param_bind p)))"
    by (intro linking_bind linking_end linking_arith stays_expr)
      (auto simp: param_bind_def intro!: links_control frame_intros)
  with 5 show ?case
    by (intro links_seq [OF stm_codegen.simps(8)] movable_bind movable_arith movable_straight
        frame_intros) simp_all
next
  case 6
  then show ?case
    by (intro links_seq [OF stm_codegen.simps(9)] movable_straight linking_keeps frame_intros) simp_all
next
  case (7 b roots newRoots k)
  have "keeps (links X) (callGC vs newRoots)" for X vs
  proof -
    have "keeps (links X) (gc_newRoots c xs i)" for c xs i
      by (induction xs arbitrary: i)
        (auto intro!: links.keeps_then links.keeps_bind links_control intro: frame_intros)
    then show ?thesis
      unfolding callGC_def
      by (intro links.keeps_bind links.keeps_then) (auto simp: shorthand_defs intro!: frame_intros)
  qed
  with 7 show ?case
    by (intro links_seq [OF stm_codegen.simps(10)] movable_straight linking_keeps links.keeps_bind
        frame_intros) simp_all
next
  case 8
  show ?case by (simp add: stm_links_def cfail_def)
next
  case "9_1"
  show ?case by (rule links_leave [OF stm_codegen.simps(3) _ linking_leaves(1)]) simp
next
  case "9_2"
  show ?case by (rule links_leave [OF stm_codegen.simps(4) _ linking_leaves(2)]) simp
next
  case "9_3"
  show ?case by (rule links_leave [OF stm_codegen.simps(5) _ linking_leaves(3)]) simp
qed

end
