(* ===== verification/Stm_Code.thy ===== *)
theory Stm_Code
  imports Stm_Sem Store_List Exp_Code
begin

text \<open>
  The code of the operations of statements: for every operation with a meaning in \<open>Stm_Sem\<close>, what it
  emits changes the memory and the registers as that says.
\<close>

text \<open>A register is as before, or its new value is known.\<close>

definition regs_follow ::
  "(CMRegId \<Rightarrow> value option) \<Rightarrow> regs \<Rightarrow> (CMRegId \<Rightarrow> value option) \<Rightarrow> regs \<Rightarrow>
    (value \<times> rval) list \<Rightarrow> bool" where
  "regs_follow R G R' G' \<Gamma> \<longleftrightarrow>
     (\<forall>r. R' r = R r \<and> G' r = G r \<or> (\<exists>v. R' r = Some v \<and> (v, RP (G' r)) \<in> set \<Gamma>))"

lemma regs_follow_refl: "regs_follow R G R G \<Gamma>"
  by (simp add: regs_follow_def)

section \<open>Allocation\<close>

lemma desc_val_word:
  assumes "desc_val iv = Some d"
  obtains w :: u64 where "toUInt64 iv = Some w" "uint w = d" "0 \<le> d" "d < 2 ^ 64"
proof -
  have d: "canonical iv" "0 \<le> int_val iv" "int_val iv < 2 ^ 64" "d = int_val iv"
    using assms by (auto simp: desc_val_def split: if_splits)
  then have v: "val32 (i_digits iv) < 2 ^ 64" "d = int (val32 (i_digits iv))"
    by (auto simp: int_val_def split: if_splits)
  then have "uint (word_of_nat (val32 (i_digits iv)) :: u64) = d"
    by (simp add: unsigned_of_nat take_bit_nat_eq_self)
  with that [of "word_of_nat (val32 (i_digits iv))"] d v show thesis by (simp add: toUInt64_exact)
qed

lemma step_allocRecord:
  assumes k: "known s0 \<sigma>0 R M \<Gamma> s \<sigma>" "R ALLOC_PTR = Some ap" "(ap, RP p) \<in> set \<Gamma>"
    and d: "(dv, RI 64 d) \<in> set \<Gamma>" "0 \<le> d" "d < 2 ^ 64"
    and a: "list_all2 (\<lambda>v r. (v, r) \<in> set \<Gamma>) vs rs" "list_all ml_word rs" "length rs < 2 ^ 30"
    and Q: "\<And>obj ap' t \<tau>. known s0 \<sigma>0 (R(ALLOC_PTR := Some ap')) (write_words p (d # map raw rs) M)
      ((ap', RP (p + 8 * of_nat (length rs + 1))) # (obj, RP (p + 8)) # \<Gamma>) t \<tau> \<Longrightarrow> Q obj t \<tau>"
  shows "runs (allocRecord dv vs) s \<sigma> Q"
proof -
  have len: "length vs = length rs" using a(1) by (rule list_all2_lengthD)
  have st: "stands_for s \<sigma> vs rs"
    using a(1,2) known_holds [OF k(1)] unfolding stands_for_def by (auto elim: list_all2_mono)
  have R: "rs_get (cx_regState s) = R" "rv_mem \<sigma> = M" using k(1) by (simp_all add: known_def)
  show ?thesis
  proof (rule runs_allocRecord [OF known_ok [OF k(1)] _ known_holds [OF k(1,3)] known_holds [OF k(1) d(1)]
        d(2,3) st])
    show "rs_get (cx_regState s) ALLOC_PTR = Some ap" "length vs < 2 ^ 30" using k(2) R a(3) len by simp_all
    fix obj t \<tau>
    assume t: "later s \<sigma> t \<tau>" "rv_mem \<tau> = write_words p (d # map raw rs) (rv_mem \<sigma>)"
      "\<And>r. r \<noteq> ALLOC_PTR \<Longrightarrow> rs_get (cx_regState t) r = rs_get (cx_regState s) r"
      "allocated t \<tau> obj (p + 8) (p + 8 * of_nat (length vs + 1))"
    then obtain v where v: "rs_get (cx_regState t) ALLOC_PTR = Some v"
      "holds t \<tau> v (RP (p + 8 * of_nat (length vs + 1)))" "holds t \<tau> obj (RP (p + 8))"
      by (auto simp: allocated_def)
    have "rs_get (cx_regState t) = R(ALLOC_PTR := Some v)"
      using t(3) v(1) R by (auto simp: fun_eq_iff)
    from known_extend [OF k(1) t(1) this, of "write_words p (d # map raw rs) M"
        "[(v, RP (p + 8 * of_nat (length rs + 1))), (obj, RP (p + 8))]"]
    show "Q obj t \<tau>" using t(2) v R len by (intro Q) simp
  qed
qed

lemma runs_alloc:
  assumes k: "known s0 \<sigma>0 R M \<Gamma> s \<sigma>" "R ALLOC_PTR = Some ap" "(ap, RP (G ALLOC_PTR)) \<in> set \<Gamma>"
    and a: "list_all2 (\<lambda>v r. (v, r) \<in> set \<Gamma>) vs rs"
    and ev: "alloc_eval a rs G M = Some (q, G', M')"
    and Q: "\<And>obj R' \<Gamma>' t \<tau>. known s0 \<sigma>0 R' M' \<Gamma>' t \<tau> \<Longrightarrow> set \<Gamma> \<subseteq> set \<Gamma>' \<Longrightarrow>
      regs_follow R G R' G' \<Gamma>' \<Longrightarrow> (obj, RP q) \<in> set \<Gamma>' \<Longrightarrow> Q obj t \<tau>"
  shows "runs (alloc_codegen a vs) s \<sigma> Q"
proof -
  have fin: "Q obj t \<tau>"
    if "known s0 \<sigma>0 (R(ALLOC_PTR := Some ap')) M' ((ap', RP p) # (obj, RP q) # \<Delta>) t \<tau>"
      "set \<Gamma> \<subseteq> set \<Delta>" "G' = G(ALLOC_PTR := p)" for obj ap' p \<Delta> t \<tau>
    by (rule Q [OF that(1)]) (use that in \<open>auto simp: regs_follow_def\<close>)
  have rec: "runs (allocRecord dv ws) t \<tau> Q"
    if "new_record d qs G M = Some (q, G', M')" "known s0 \<sigma>0 R M \<Delta> t \<tau>" "set \<Gamma> \<subseteq> set \<Delta>"
      "(dv, RI 64 d) \<in> set \<Delta>" "0 \<le> d" "d < 2 ^ 64" "list_all2 (\<lambda>v r. (v, r) \<in> set \<Delta>) ws qs"
    for d qs dv ws \<Delta> t \<tau>
  proof -
    have n: "list_all ml_word qs" "length qs < 2 ^ 30" "q = G ALLOC_PTR + 8"
      "G' = G(ALLOC_PTR := G ALLOC_PTR + 8 * of_nat (length qs + 1))"
      "M' = write_words (G ALLOC_PTR) (d # map raw qs) M"
      using that(1) by (auto simp: new_record_def Let_def split: if_splits)
    have ap: "(ap, RP (G ALLOC_PTR)) \<in> set \<Delta>" using k(3) that(3) by auto
    show ?thesis
      by (rule step_allocRecord [OF that(2) k(2) ap that(4-7) n(1,2)], rule fin)
        (use n that(3) in \<open>simp_all del: write_words.simps\<close>)
  qed
  show ?thesis
  proof (cases a)
    case SPECIAL
    then obtain d v where rs: "rs = [d, v]" "ml_word d" "new_record (raw d) [v] G M = Some (q, G', M')"
      using ev by (auto simp: alloc_eval_def split: list.splits if_splits)
    then obtain x y where vs: "vs = [x, y]" "(x, d) \<in> set \<Gamma>" "(y, v) \<in> set \<Gamma>"
      using a by (auto simp: list_all2_Cons2)
    have b: "0 \<le> raw d" "raw d < 2 ^ 64" using rs(2) by (auto elim!: ml_word_cases simp: raw_def uint64_less)
    show ?thesis
      unfolding SPECIAL alloc_codegen_def alloc.case
      apply (rule runs_then, rule runs_assert, simp add: vs)
      apply (simp add: vs cnth_def)
      apply (rule runs_bind, rule step_asInt [OF k(1) vs(2) rs(2)])
      apply (rule rec [OF rs(3)], assumption)
      using b vs(3) by auto
  next
    case (RECORD desc mut)
    then obtain d where d: "desc_val desc = Some d" "new_record d rs G M = Some (q, G', M')"
      using ev by (auto simp: alloc_eval_def split: option.splits)
    from desc_val_word [OF d(1)] obtain w :: u64 where w: "toUInt64 desc = Some w" "uint w = d"
      "0 \<le> d" "d < 2 ^ 64" .
    show ?thesis
      unfolding RECORD alloc_codegen_def alloc.case
      by (intro runs_bind step_desc_word [OF k(1) w(1)], rule rec [OF d(2)], assumption)
        (use w a in \<open>auto elim!: list_all2_mono\<close>)
  next
    case (RAW_ALLOC desc align len)
    then obtain iv d where d: "desc = Some iv" "desc_val iv = Some d" "new_raw d align len G M = Some (q, G', M')"
      using ev by (auto simp: alloc_eval_def split: option.splits)
    from desc_val_word [OF d(2)] obtain w :: u64 where w: "toUInt64 iv = Some w" "uint w = d"
      "0 \<le> d" "d < 2 ^ 64" .
    have n: "0 \<le> len" "len + 8 < 2 ^ 31" "q = raw_start (G ALLOC_PTR) align + 8"
      "G' = G(ALLOC_PTR := raw_start (G ALLOC_PTR) align + word_of_int (len + 8))"
      "M' = put 8 (raw_start (G ALLOC_PTR) align) d M"
      using d(3) by (auto simp: new_raw_def Let_def split: if_splits)
    show ?thesis
      unfolding RAW_ALLOC d(1) alloc_codegen_def alloc.case
      by (rule runs_RAW_ALLOC [OF k w(1) n(1,2)], rule fin [where \<Delta> = \<Gamma>])
        (use n w in simp_all)
  qed (use ev in \<open>simp add: alloc_eval_def\<close>)
qed

section \<open>Updates\<close>

lemma as_index_RI: "as_index i = Some k \<Longrightarrow> \<exists>w n. i = RI w n \<and> k = word_of_int (sval w n)"
  by (auto simp: as_index_def split: rval.splits)

lemma elem_fits_bytes:
  assumes "elem_fits kind sz r"
  shows "rbytes r = nat sz div 8" "ty_bytes (numType kind sz) = nat sz div 8"
    "uint (bitsToBytes sz) = sz div 8"
proof -
  have sz: "sz = 8 \<or> sz = 16 \<or> sz = 32 \<or> sz = 64"
    using assms by (auto simp: elem_fits_def int_size_def split: if_splits)
  then show "uint (bitsToBytes sz) = sz div 8" by (auto simp: bitsToBytes_def)
  show "ty_bytes (numType kind sz) = nat sz div 8"
    using assms sz by (auto simp: elem_fits_def numType_def iType_def fType_def int_size_def split: if_splits)
  show "rbytes r = nat sz div 8"
    using assms sz
    by (cases r) (auto simp: elem_fits_def numType_def iType_def fType_def int_size_def rbytes_def split: if_splits)
qed

lemma elem_fits_type:
  assumes "elem_fits kind sz r" "rtype r = PtrTy"
  shows "numType kind sz = i64Ty"
  using assms by (auto simp: elem_fits_def numType_def iType_def fType_def int_size_def split: if_splits)

lemma runs_setter:
  assumes k: "known s0 \<sigma>0 R M \<Gamma> s \<sigma>"
    and R: "R ALLOC_PTR = Some ap" "(ap, RP (G ALLOC_PTR)) \<in> set \<Gamma>" "R STORE_PTR = Some sp"
      "(sp, RP (G STORE_PTR)) \<in> set \<Gamma>"
    and a: "list_all2 (\<lambda>v r. (v, r) \<in> set \<Gamma>) vs rs"
    and ev: "setter_eval op rs G M = Some (G', M')"
    and Q: "\<And>R' \<Gamma>' t \<tau>. known s0 \<sigma>0 R' M' \<Gamma>' t \<tau> \<Longrightarrow> set \<Gamma> \<subseteq> set \<Gamma>' \<Longrightarrow>
      regs_follow R G R' G' \<Gamma>' \<Longrightarrow> Q () t \<tau>"
  shows "runs (setter_codegen op vs) s \<sigma> Q"
proof -
  have log: "Q () t \<tau>"
    if "known s0 \<sigma>0 (R(STORE_PTR := Some ap, ALLOC_PTR := Some ap')) M' ((ap', RP (G ALLOC_PTR + 16)) # \<Gamma>) t \<tau>"
      "G' = G(STORE_PTR := G ALLOC_PTR, ALLOC_PTR := G ALLOC_PTR + 16)" for ap' t \<tau>
    by (rule Q [OF that(1)]) (use that(2) R in \<open>auto simp: regs_follow_def\<close>)
  have same: "Q () t \<tau>" if "known s0 \<sigma>0 R M' \<Delta> t \<tau>" "set \<Gamma> \<subseteq> set \<Delta>" "G' = G" for \<Delta> t \<tau>
    by (rule Q [OF that(1,2)]) (simp add: that(3) regs_follow_refl)
  show ?thesis
  proof (cases op)
    case ASSIGN
    then obtain x v where rs: "rs = [RP x, v]" "ml_word v"
      "G' = G(STORE_PTR := G ALLOC_PTR, ALLOC_PTR := G ALLOC_PTR + 16)"
      "M' = put 8 x (raw v) (write_words (G ALLOC_PTR) [uint x, uint (G STORE_PTR)] M)"
      using ev by (auto simp: setter_eval_def log_store_def Let_def split: list.splits rval.splits if_splits)
    then obtain y z where vs: "vs = [y, z]" "(y, RP x) \<in> set \<Gamma>" "(z, v) \<in> set \<Gamma>"
      using a by (auto simp: list_all2_Cons2)
    show ?thesis
      unfolding ASSIGN vs(1)
      by (rule runs_ASSIGN [OF k vs(2,3) rs(2) R]) (rule log; simp add: rs(3,4))
  next
    case UPDATE
    then obtain x w n v where rs: "rs = [RP x, RI w n, v]" "ml_word v"
      "G' = G(STORE_PTR := G ALLOC_PTR, ALLOC_PTR := G ALLOC_PTR + 16)"
      "M' = put 8 (x + 8 * word_of_int (sval w n)) (raw v)
        (write_words (G ALLOC_PTR) [uint (x + 8 * word_of_int (sval w n)), uint (G STORE_PTR)] M)"
      using ev by (auto simp: setter_eval_def log_store_def Let_def
          split: list.splits rval.splits if_splits option.splits dest!: as_index_RI)
    then obtain y i z where vs: "vs = [y, i, z]" "(y, RP x) \<in> set \<Gamma>" "(i, RI w n) \<in> set \<Gamma>" "(z, v) \<in> set \<Gamma>"
      using a by (auto simp: list_all2_Cons2)
    show ?thesis
      unfolding UPDATE vs(1)
      by (rule runs_UPDATE [OF k vs(2,3,4) rs(2) R refl]) (rule log; simp add: rs(3,4))
  next
    case UNBOXED_ASSIGN
    then obtain x v where rs: "rs = [RP x, v]" "ml_word v" "G' = G" "M' = put 8 x (raw v) M"
      using ev by (auto simp: setter_eval_def split: list.splits rval.splits if_splits)
    then obtain y z where vs: "vs = [y, z]" "(y, RP x) \<in> set \<Gamma>" "(z, v) \<in> set \<Gamma>"
      using a by (auto simp: list_all2_Cons2)
    show ?thesis
      unfolding UNBOXED_ASSIGN vs(1) setter_codegen_def setter.case
      apply (simp add: cnth_def)
      apply (intro runs_bind, rule step_asInt [OF k vs(3) rs(2)])
      apply (intro runs_bind, erule step_asMLValue [where r = "RP x"])
      apply (simp_all add: vs ml_word_def)
      apply (intro runs_bind, erule step_wordSz)
      apply (erule step_createStore [where r = "RI 64 (raw v)" and p = x])
      apply (simp_all add: raw_def)
      apply (rule same, erule known_weaken)
      by (auto simp: rs rbytes_def raw_def)
  next
    case UNBOXED_UPDATE
    then obtain x w n v where rs: "rs = [RP x, RI w n, v]" "ml_word v" "G' = G"
      "M' = put 8 (x + 8 * word_of_int (sval w n)) (raw v) M"
      using ev by (auto simp: setter_eval_def
          split: list.splits rval.splits if_splits option.splits dest!: as_index_RI)
    then obtain y i z where vs: "vs = [y, i, z]" "(y, RP x) \<in> set \<Gamma>" "(i, RI w n) \<in> set \<Gamma>" "(z, v) \<in> set \<Gamma>"
      using a by (auto simp: list_all2_Cons2)
    show ?thesis
      unfolding UNBOXED_UPDATE vs(1) setter_codegen_def setter.case
      apply (simp add: cnth_def)
      apply (intro runs_bind, rule step_createGEP_ty [OF k vs(2,3)])
      apply (erule step_createStoreML [where r = v and p = "x + 8 * word_of_int (sval w n)"])
      apply (simp_all add: vs rs(2))
      apply (rule same, erule known_weaken)
      by (auto simp: rs)
  next
    case (RAW_UPDATE kind sz)
    then obtain x w n v where rs: "rs = [RP x, RI w n, v]" "elem_fits kind sz v" "G' = G"
      "M' = put (nat sz div 8) (x + elem_bytes sz * word_of_int (sval w n)) (raw v) M"
      using ev by (auto simp: setter_eval_def
          split: list.splits rval.splits if_splits option.splits dest!: as_index_RI)
    then obtain y i z where vs: "vs = [y, i, z]" "(y, RP x) \<in> set \<Gamma>" "(i, RI w n) \<in> set \<Gamma>" "(z, v) \<in> set \<Gamma>"
      using a by (auto simp: list_all2_Cons2)
    note b = elem_fits_bytes [OF rs(2)]
    have tz: "type_of z = rtype v" by (rule known_type [OF k vs(4)])
    let ?p = "x + of_nat (ty_bytes (numType kind sz)) * word_of_int (sval w n)"
    have p: "x + elem_bytes sz * word_of_int (sval w n) = ?p" by (simp add: b elem_bytes_def)
    show ?thesis
    proof (cases "rtype v = PtrTy")
      case True
      then have ml: "ml_word v" by (cases v) (auto simp: ml_word_def split: if_splits)
      show ?thesis
        unfolding RAW_UPDATE vs(1) setter_codegen_def setter.case
        apply (simp add: cnth_def)
        apply (intro runs_bind, rule step_createGEP_ty [OF k vs(2,3)])
        apply (simp add: tz True)
        apply (intro runs_bind, erule step_intTy)
        apply (intro runs_then runs_assert)
         apply (simp add: elem_fits_type [OF rs(2) True])
        apply (erule step_createStoreML [where r = v and p = ?p])
        apply (simp_all add: vs ml)
        apply (rule same, erule known_weaken)
        using b(1) by (auto simp: rs p rbytes_ml [OF ml])
    next
      case False
      show ?thesis
        unfolding RAW_UPDATE vs(1) setter_codegen_def setter.case
        apply (simp add: cnth_def)
        apply (intro runs_bind, rule step_createGEP_ty [OF k vs(2,3)])
        apply (simp add: tz False)
        apply (erule step_createStore [where r = v and p = ?p])
        apply (simp_all add: vs)
        apply (rule same, erule known_weaken)
        by (auto simp: rs p b)
    qed
  next
    case (RAW_STORE kind sz)
    then obtain x w n v where rs: "rs = [RP x, RI w n, v]" "elem_fits kind sz v" "G' = G"
      "M' = put (nat sz div 8) (x + word_of_int (sval w n)) (raw v) M"
      using ev by (auto simp: setter_eval_def
          split: list.splits rval.splits if_splits option.splits dest!: as_index_RI)
    then obtain y i z where vs: "vs = [y, i, z]" "(y, RP x) \<in> set \<Gamma>" "(i, RI w n) \<in> set \<Gamma>" "(z, v) \<in> set \<Gamma>"
      using a by (auto simp: list_all2_Cons2)
    show ?thesis
      unfolding RAW_STORE vs(1) setter_codegen_def setter.case
      apply (simp add: cnth_def)
      apply (intro runs_bind, rule step_createGEP_ty [OF k vs(2,3)])
      apply (erule step_createStore [where r = v and p = "x + word_of_int (sval w n)"])
      apply (simp_all add: vs)
      apply (rule same, erule known_weaken)
      by (auto simp: rs elem_fits_bytes(1) [OF rs(2)])
  qed (use ev in \<open>simp_all add: setter_eval_def\<close>)
qed

section \<open>Tests and division\<close>

lemma runs_branch_eval:
  assumes k: "known s0 \<sigma>0 R M \<Gamma> s \<sigma>"
    and R: "R ALLOC_PTR = Some ap" "(ap, RP (G ALLOC_PTR)) \<in> set \<Gamma>" "R LIMIT_PTR = Some lp"
      "(lp, RP (G LIMIT_PTR)) \<in> set \<Gamma>"
    and a: "list_all2 (\<lambda>v r. (v, r) \<in> set \<Gamma>) vs rs"
    and ev: "branch_eval (cx_target s) op rs G = Some b"
    and Q: "\<And>v t \<tau>. known s0 \<sigma>0 R M ((v, RI 1 (of_bool b)) # \<Gamma>) t \<tau> \<Longrightarrow> Q v t \<tau>"
  shows "runs (branch_codegen op vs) s \<sigma> Q"
proof (cases op)
  case (CMP c sg sz)
  then obtain p q x y where rs: "rs = [p, q]" "as_int (nat sz) p = Some x" "as_int (nat sz) q = Some y"
    "int_size sz" "c \<in> {GT, GTE, LT, LTE, EQL, NEQ}" "b = compares c (as_num sg (nat sz) x) (as_num sg (nat sz) y)"
    using ev by (auto simp: branch_eval_def split: list.splits option.splits if_splits)
  then obtain u v where vs: "vs = [u, v]" "(u, p) \<in> set \<Gamma>" "(v, q) \<in> set \<Gamma>"
    using a by (auto simp: list_all2_Cons2)
  show ?thesis
    unfolding CMP vs(1)
    by (rule runs_CMP [OF k vs(2,3) as_int_num [OF rs(2)] as_int_num [OF rs(3)] rs(4)])
      (use rs(5,6) in \<open>auto intro: Q\<close>)
next
  case (FSGN sz)
  then obtain d x where rs: "rs = [RFlt d x]" "sz = (if d then 64 else 32)" "b = bit x (nat sz - 1)"
    using ev by (auto simp: branch_eval_def split: list.splits rval.splits if_splits)
  then obtain u where vs: "vs = [u]" "(u, RFlt (sz = 64) x) \<in> set \<Gamma>"
    using a by (auto simp: list_all2_Cons2 split: if_splits)
  show ?thesis
    unfolding FSGN vs(1) by (rule runs_FSGN [OF k vs(2)]) (use rs(2,3) in \<open>auto intro: Q\<close>)
next
  case (LIMIT amt)
  then have b: "b = (G LIMIT_PTR < G ALLOC_PTR + beyond_slop (cx_target s) amt)"
    using ev by (auto simp: branch_eval_def split: list.splits)
  show ?thesis
    unfolding LIMIT by (rule runs_LIMIT [OF k R refl]) (rule Q, simp add: b beyond_slop_def)
next
  case PEQL
  then obtain p q where rs: "rs = [p, q]" "ml_word p" "ml_word q" "b = (raw p = raw q)"
    using ev by (auto simp: branch_eval_def split: list.splits if_splits)
  then obtain u v where vs: "vs = [u, v]" "(u, p) \<in> set \<Gamma>" "(v, q) \<in> set \<Gamma>"
    using a by (auto simp: list_all2_Cons2)
  show ?thesis
    unfolding PEQL branch_codegen_def flt_op2_def branch.case createICmpEQ_def
    using step_createICmp [OF k vs(2) rs(2) vs(3) rs(3), of ICMP_EQ Q] Q rs(4)
    by (simp add: vs(1) cnth_def icmp_int_def)
next
  case PNEQ
  then obtain p q where rs: "rs = [p, q]" "ml_word p" "ml_word q" "b = (raw p \<noteq> raw q)"
    using ev by (auto simp: branch_eval_def split: list.splits if_splits)
  then obtain u v where vs: "vs = [u, v]" "(u, p) \<in> set \<Gamma>" "(v, q) \<in> set \<Gamma>"
    using a by (auto simp: list_all2_Cons2)
  show ?thesis
    unfolding PNEQ branch_codegen_def flt_op2_def branch.case createICmpNE_def
    using step_createICmp [OF k vs(2) rs(2) vs(3) rs(3), of ICMP_NE Q] Q rs(4)
    by (simp add: vs(1) cnth_def icmp_int_def)
qed (use ev in \<open>simp add: branch_eval_def split: list.splits\<close>)

text \<open>Trapping operations have a separate treatment; the others are those of pure arithmetic.\<close>

lemma division_codegen:
  "ARITH_codegen IDIV sz [a, b] = PURE_ARITH_codegen SDIV sz [a, b]"
  "ARITH_codegen IREM sz [a, b] = PURE_ARITH_codegen SREM sz [a, b]"
  by (simp_all add: ARITH_codegen_def PURE_ARITH_codegen_def int_op2_def cassert_def cthen_def)

lemma arith_result_cases:
  assumes "arith_result a rs = Some res"
  obtains oper sz p q x y where "a = ARITH_prim oper sz" "rs = [p, q]" "as_int (nat sz) p = Some x"
    "as_int (nat sz) q = Some y" "trapping oper" "sz = 32 \<or> sz = 64"
    "res = (let z = arith_exact oper (sval (nat sz) x) (sval (nat sz) y)
      in if fits_signed (nat sz) z then Some (RI (nat sz) (z mod 2 ^ nat sz)) else None)"
  | oper po sz p q x y z where "a = ARITH_prim oper sz" "rs = [p, q]" "as_int (nat sz) p = Some x"
    "as_int (nat sz) q = Some y" "oper = IDIV \<or> oper = IREM"
    "\<And>u v. ARITH_codegen oper sz [u, v] = PURE_ARITH_codegen po sz [u, v]"
    "int_size sz" "int_op po (nat sz) x y = Some z" "res = Some (RI (nat sz) z)"
proof -
  obtain oper sz p q x y where a: "a = ARITH_prim oper sz" "rs = [p, q]"
      "as_int (nat sz) p = Some x" "as_int (nat sz) q = Some y"
    using assms by (auto simp: arith_result_def Let_def split: arith.splits list.splits option.splits)
  show thesis
  proof (cases "trapping oper \<and> (sz = 32 \<or> sz = 64)")
    case True
    then show thesis
      using assms by (intro that(1) [OF a]) (simp_all add: a arith_result_def Let_def split: if_splits)
  next
    case False
    then have "int_size sz" and "(oper = IDIV \<and> (\<exists>z. int_op SDIV (nat sz) x y = Some z \<and> res = Some (RI (nat sz) z))) \<or>
        (oper = IREM \<and> (\<exists>z. int_op SREM (nat sz) x y = Some z \<and> res = Some (RI (nat sz) z)))"
      using assms by (auto simp: a arith_result_def Let_def split: if_splits)
    then show thesis
      using that(2) [OF a] division_codegen by blast
  qed
qed

end
