(* ===== verification/Block_Sem.thy ===== *)
theory Block_Sem
  imports Llvm_Sem
begin

text \<open>
  The meaning of a function of several blocks: a machine is in a block, with the instructions that
  remain there.  On entering a block, its phi nodes take the values of the edges from the block
  that was left, all at once.
\<close>

type_synonym machine = "nat \<times> (nat \<times> instr) list \<times> rstate"

definition is_phi :: "nat \<times> instr \<Rightarrow> bool" where
  "is_phi ni = (case snd ni of Phi _ \<Rightarrow> True | _ \<Rightarrow> False)"

text \<open>The value of the phi node \<open>n\<close> on the edge from block \<open>c\<close>.\<close>

definition edge :: "cgctx \<Rightarrow> nat \<Rightarrow> nat \<Rightarrow> value option" where
  "edge z n c = map_of (map prod.swap (ir_phis z n)) c"

fun phi_env :: "cgctx \<Rightarrow> nat \<Rightarrow> rstate \<Rightarrow> (nat \<times> instr) list \<Rightarrow> (nat \<Rightarrow> rval option) option" where
  "phi_env z c \<sigma> [] = Some (rv_inst \<sigma>)"
| "phi_env z c \<sigma> ((n, i) # ps) =
     (case (edge z n c, phi_env z c \<sigma> ps) of
        (Some w, Some env) \<Rightarrow> map_option (\<lambda>r. env(n := Some r)) (veval \<sigma> w)
      | _ \<Rightarrow> None)"

definition enter :: "cgctx \<Rightarrow> nat \<Rightarrow> nat \<Rightarrow> rstate \<Rightarrow> machine option" where
  "enter z c d \<sigma> =
     (let is = bb_insts (ir_blocks z d)
      in map_option (\<lambda>env. (d, dropWhile is_phi is, \<sigma>\<lparr>rv_inst := env\<rparr>))
           (phi_env z c \<sigma> (takeWhile is_phi is)))"

definition switch_target :: "rstate \<Rightarrow> rval \<Rightarrow> nat \<Rightarrow> (value \<times> nat) list \<Rightarrow> nat" where
  "switch_target \<sigma> r d cases =
     (case find (\<lambda>(v, b). veval \<sigma> v = Some r) cases of Some (v, b) \<Rightarrow> b | None \<Rightarrow> d)"

fun mstep :: "cgctx \<Rightarrow> machine \<Rightarrow> machine option" where
  "mstep z (c, [], \<sigma>) = None"
| "mstep z (c, (n, i) # is, \<sigma>) =
     (case i of
        Br d \<Rightarrow> enter z c d \<sigma>
      | CondBr v x y w \<Rightarrow>
          (case veval \<sigma> v of
             Some (RI k b) \<Rightarrow> if k = 1 then enter z c (if b = 1 then x else y) \<sigma> else None
           | _ \<Rightarrow> None)
      | Switch v d cases \<Rightarrow>
          (case veval \<sigma> v of Some r \<Rightarrow> enter z c (switch_target \<sigma> r d cases) \<sigma> | None \<Rightarrow> None)
      | _ \<Rightarrow> map_option (\<lambda>\<tau>. (c, is, \<tau>)) (exec1 \<sigma> (n, i)))"

text \<open>Any number of steps.\<close>

inductive flow :: "cgctx \<Rightarrow> machine \<Rightarrow> machine \<Rightarrow> bool" for z where
  flow_refl: "flow z a a"
| flow_step: "mstep z a = Some b \<Longrightarrow> flow z b c \<Longrightarrow> flow z a c"

code_pred flow .

lemma flow_trans: "flow z a b \<Longrightarrow> flow z b c \<Longrightarrow> flow z a c"
  by (induction rule: flow.induct) (auto intro: flow_step)

lemma flow_end: "flow z a b \<Longrightarrow> mstep z b = Some c \<Longrightarrow> flow z a c"
  by (blast intro: flow_trans flow_step flow_refl)

section \<open>Straight-line code\<close>

lemma exec1_no_terminator: "exec1 \<sigma> (n, i) = Some \<tau> \<Longrightarrow> \<not> is_terminator i \<and> \<not> is_phi (n, i)"
  by (cases i) (simp_all add: is_phi_def)

lemma mstep_exec1:
  assumes "exec1 \<sigma> ni = Some \<tau>"
  shows "mstep z (c, ni # is, \<sigma>) = Some (c, is, \<tau>)"
proof -
  obtain n i where ni: "ni = (n, i)" by fastforce
  with assms exec1_no_terminator [of \<sigma> n i] show ?thesis by (cases i) simp_all
qed

lemma flow_exec: "exec \<sigma> is = Some \<tau> \<Longrightarrow> flow z (c, is @ js, \<sigma>) (c, js, \<tau>)"
  by (induction "is" arbitrary: \<sigma>)
    (auto intro: flow_refl flow_step mstep_exec1 split: option.splits)

text \<open>Code that runs does not start with a phi node.\<close>

lemma flow_no_phi:
  assumes "flow z (c, ni # is, \<sigma>) (c', js, \<tau>)" "is_phi ni"
  shows "js = ni # is"
  using assms
proof cases
  case (flow_step b)
  then show ?thesis using assms(2) by (cases ni) (auto simp: is_phi_def split: instr.splits)
qed simp

lemma enter_plain:
  assumes "bb_insts (ir_blocks z d) = is" "is = [] \<or> \<not> is_phi (hd is)"
  shows "enter z c d \<sigma> = Some (d, is, \<sigma>)"
proof -
  have "takeWhile is_phi is = []" "dropWhile is_phi is = is"
    using assms(2) by (cases "is"; simp)+
  then show ?thesis using assms(1) by (simp add: enter_def)
qed

section \<open>Entering a block with phi nodes\<close>

lemma phi_env_results:
  assumes "list_all2 (\<lambda>n r. \<exists>w. edge z n c = Some w \<and> veval \<sigma> w = Some r) ns rs" "distinct ns"
    "map fst ps = ns"
  shows "\<exists>env. phi_env z c \<sigma> ps = Some env \<and> list_all2 (\<lambda>n r. env n = Some r) ns rs \<and>
    (\<forall>n. n \<notin> set ns \<longrightarrow> env n = rv_inst \<sigma> n)"
  using assms
proof (induction ns rs arbitrary: ps rule: list_all2_induct)
  case (Cons n ns r rs)
  then obtain i ps' where ps: "ps = (n, i) # ps'" "map fst ps' = ns" by auto
  with Cons obtain env where env: "phi_env z c \<sigma> ps' = Some env" "list_all2 (\<lambda>n r. env n = Some r) ns rs"
    "\<forall>n. n \<notin> set ns \<longrightarrow> env n = rv_inst \<sigma> n" by auto
  have "list_all2 (\<lambda>m q. (env(n := Some r)) m = Some q) ns rs"
    using env(2) Cons.prems(1) by (auto simp: list_all2_conv_all_nth)
  with Cons.hyps env show ?case by (auto simp: ps)
qed simp

lemma edge_first:
  assumes "\<And>v b. (v, b) \<in> set es \<Longrightarrow> b \<noteq> c" "ir_phis z n = es @ (w, c) # fs"
  shows "edge z n c = Some w"
proof -
  have "map_of (map prod.swap es) c = None"
    using assms(1) by (force simp: map_of_eq_None_iff)
  then show ?thesis by (simp add: edge_def assms(2) map_add_def)
qed

end
