(* ===== verification/Simulation.thy ===== *)
theory Simulation
  imports Edges Stm_Code Block_Sem Transfers
begin

text \<open>
  The relation between the meaning of a statement and the machine that runs its code: what has to
  hold when code generation of a statement starts, and where the machine arrives.
\<close>

section \<open>Registers and edges\<close>

text \<open>The registers of the runtime system that live in machine registers, in the order of arguments.\<close>

definition machine_ids :: "cgctx \<Rightarrow> CMRegId list" where
  "machine_ids s = map (\<lambda>i. ri_id (machineReg (cx_regInfo s) i)) [0..<numMachineRegs (cx_regInfo s)]"

definition reg_vals :: "cgctx \<Rightarrow> regs \<Rightarrow> rval list" where
  "reg_vals s G = map (\<lambda>r. RP (G r)) (machine_ids s)"

text \<open>The edges from block \<open>c\<close> give the phi nodes these values, of their types.\<close>

definition edges_give :: "cgctx \<Rightarrow> nat \<Rightarrow> rstate \<Rightarrow> value list \<Rightarrow> rval list \<Rightarrow> bool" where
  "edges_give z c \<sigma> phis rs \<longleftrightarrow>
     list_all2 (\<lambda>phi r. \<exists>n w. phi = VInst n (rtype r) \<and> edge z n c = Some w \<and> veval \<sigma> w = Some r) phis rs"

section \<open>Where the machine arrives\<close>

text \<open>At a jump, a call or the branch to the overflow block, with the values of the outcome.\<close>

definition callee_is :: "cgctx \<Rightarrow> rstate \<Rightarrow> dest \<Rightarrow> value \<Rightarrow> bool" where
  "callee_is z \<sigma> d fn \<longleftrightarrow>
     (case d of
        Entry lab \<Rightarrow> \<exists>cl f. cx_clusterMap z lab = Some cl \<and> c_fn cl = Some f \<and> fn = VFn f
      | Address p \<Rightarrow> veval \<sigma> fn = Some (RP p))"

definition n_unused :: "frag_kind \<Rightarrow> nat" where
  "n_unused k = (if k = STD_CONT then 2 else 0)"

fun arrives :: "cgctx \<Rightarrow> outcome \<Rightarrow> machine \<Rightarrow> bool" where
  "arrives z (Jump lab vs G M) (c, is, \<sigma>) \<longleftrightarrow>
     rv_mem \<sigma> = M \<and>
     (\<exists>fr b m. cx_fragMap z lab = Some fr \<and> stm_bb (f_body fr) = Some b \<and> is = [(m, Br b)] \<and>
        edges_give z c \<sigma> (f_phiNodes fr) (reg_vals z G @ vs))"
| "arrives z (Leave k d vs G M) (c, is, \<sigma>) \<longleftrightarrow>
     rv_mem \<sigma> = M \<and>
     (\<exists>m ft fn rs us as n. is = [(m, Call ft fn (rs @ us @ as) CC_JWA TCK_Tail), (n, RetVoid)] \<and>
        callee_is z \<sigma> d fn \<and> vevals \<sigma> rs = Some (reg_vals z G) \<and> length us = n_unused k \<and>
        vevals \<sigma> as = Some vs)"
| "arrives z (Overflow G M) (c, is, \<sigma>) \<longleftrightarrow>
     rv_mem \<sigma> = M \<and>
     (\<exists>m v ob y w. is = [(m, CondBr v ob y w)] \<and> veval \<sigma> v = Some (RI 1 1) \<and>
        cx_overflowBB z = Some ob \<and> edges_give z c \<sigma> (cx_overflowPhiNodes z) (reg_vals z G))"

lemma arrives_start:
  assumes "flow z (c, is, \<sigma>) cf" "arrives z oc cf"
  shows "is \<noteq> [] \<and> \<not> is_phi (hd is)"
proof -
  obtain d js \<tau> where cf: "cf = (d, js, \<tau>)" by (cases cf) auto
  have js: "js \<noteq> [] \<and> \<not> is_phi (hd js)"
    using assms(2) by (cases oc) (auto simp: cf is_phi_def)
  show ?thesis
  proof (cases "is")
    case Nil
    with assms(1) have "js = []" by cases (auto simp: cf)
    with js show ?thesis by simp
  next
    case (Cons ni rest)
    with flow_no_phi [of z c ni rest \<sigma> d js \<tau>] assms(1) js show ?thesis by (auto simp: cf)
  qed
qed

section \<open>Before a statement\<close>

text \<open>The labels of the signatures are known, with the types that these say.\<close>

definition frag_known :: "cgctx \<Rightarrow> lvar \<Rightarrow> ty list \<Rightarrow> bool" where
  "frag_known s lab tys \<longleftrightarrow>
     (\<exists>fr ns. cx_fragMap s lab = Some fr \<and> f_kind fr = INTERNAL \<and> stm_bb (f_body fr) \<noteq> None \<and>
        distinct ns \<and> length ns = length (machine_ids s) + length tys \<and>
        f_phiNodes fr = map2 VInst ns (replicate (length (machine_ids s)) PtrTy @ map lty_of tys))"

definition fn_known :: "cgctx \<Rightarrow> lvar \<Rightarrow> frag_kind \<Rightarrow> ty list \<Rightarrow> bool" where
  "fn_known s lab k tys \<longleftrightarrow>
     (\<exists>cl en f. cx_clusterMap s lab = Some cl \<and> cluster_entry cl = Some en \<and> f_kind en = k \<and>
        c_fn cl = Some f \<and> f < length (ir_fns s) \<and>
        createFnTy k (map lty_of tys) s = Inr (fn_ty (ir_fns s ! f), s))"

definition sigs_hold :: "sigs \<Rightarrow> cgctx \<Rightarrow> bool" where
  "sigs_hold S s \<longleftrightarrow>
     cx_target s = sg_target S \<and>
     (\<forall>lab tys. sg_frag S lab = Some tys \<longrightarrow> frag_known s lab tys) \<and>
     (\<forall>lab k tys. sg_fn S lab = Some (k, tys) \<longrightarrow> fn_known s lab k tys)"

text \<open>Code is generated for a 64-bit target with addresses relative to the program counter, where the
  registers for allocation are machine registers.\<close>

definition stage :: "sigs \<Rightarrow> cgctx \<Rightarrow> bool" where
  "stage S s \<longleftrightarrow>
     ctx_ok s \<and> numbers_ok s \<and> caches_ok s \<and> base_ok s \<and> sigs_hold S s \<and>
     \<not> usesBasePtr (cx_regInfo s) \<and> cx_curCluster s \<noteq> None \<and>
     {ALLOC_PTR, LIMIT_PTR, STORE_PTR} \<subseteq> set (machine_ids s)"

text \<open>No edge comes from the blocks of \<open>X\<close> or from blocks to come.\<close>

definition unlinked :: "cgctx \<Rightarrow> nat set \<Rightarrow> bool" where
  "unlinked s X \<longleftrightarrow> (\<forall>n v b. (v, b) \<in> set (ir_phis s n) \<longrightarrow> b < ir_nblocks s \<and> b \<notin> X)"

definition launch :: "sigs \<Rightarrow> stm \<Rightarrow> cgctx \<Rightarrow> nat \<Rightarrow> bool" where
  "launch S k s c \<longleftrightarrow>
     stage S s \<and> ir_insert s = Some c \<and> ready s (c # inner_blocks k) \<and>
     (\<forall>b\<in>set (inner_blocks k). bb_insts (ir_blocks s b) = []) \<and>
     unlinked s (set (c # inner_blocks k)) \<and>
     distinct (binders k) \<and> dom (cx_vMap s) \<inter> set (binders k) = {}"

text \<open>The machine state represents the environment and the registers.\<close>

definition matched :: "(lvar \<Rightarrow> rval option) \<Rightarrow> regs \<Rightarrow> cgctx \<Rightarrow> rstate \<Rightarrow> bool" where
  "matched \<rho> G s \<sigma> \<longleftrightarrow>
     env_holds \<rho> s \<sigma> \<and>
     (\<forall>r\<in>set (machine_ids s). \<exists>v. rs_get (cx_regState s) r = Some v \<and> holds s \<sigma> v (RP (G r)))"

text \<open>As \<open>lasting\<close>, but variables may be forgotten, at the end of a fragment.\<close>

definition outlasts :: "cgctx \<Rightarrow> cgctx \<Rightarrow> bool" where
  "outlasts s t \<longleftrightarrow>
     surround s t \<and> ir_nvals s \<le> ir_nvals t \<and> (numbers_ok s \<longrightarrow> numbers_ok t) \<and>
     (\<forall>n. \<exists>es. ir_phis t n = ir_phis s n @ es)"

lemma lasting_outlasts: "lasting s t \<Longrightarrow> outlasts s t"
  by (simp add: lasting_def outlasts_def)

lemma outlasts_refl [simp]: "outlasts s s"
  by (simp add: outlasts_def)

lemma outlasts_trans:
  assumes "outlasts s t" "outlasts t u"
  shows "outlasts s u"
proof -
  have "\<exists>es. ir_phis u n = ir_phis s n @ es" for n
    using assms unfolding outlasts_def by (metis append_assoc)
  with assms show ?thesis by (auto simp: outlasts_def surround_def)
qed

text \<open>In the final state \<open>z\<close> the blocks of \<open>X\<close> are as in \<open>t\<close>.\<close>

definition settled :: "cgctx \<Rightarrow> cgctx \<Rightarrow> nat set \<Rightarrow> bool" where
  "settled t z X \<longleftrightarrow> outlasts t z \<and> based t z \<and> (\<forall>b\<in>X. ir_blocks z b = ir_blocks t b)"

text \<open>What is to be shown: the code that is added to the block \<open>c\<close> takes the machine to where the
  statement goes.\<close>

definition follows :: "cgctx \<Rightarrow> nat \<Rightarrow> (nat \<times> instr) list \<Rightarrow> rstate \<Rightarrow> outcome \<Rightarrow> bool" where
  "follows z c pre \<sigma> oc \<longleftrightarrow>
     (\<exists>suf cf. bb_insts (ir_blocks z c) = pre @ suf \<and> flow z (c, suf, \<sigma>) cf \<and> arrives z oc cf)"

definition simulates :: "sigs \<Rightarrow> stm \<Rightarrow> bool" where
  "simulates S k \<longleftrightarrow>
     (\<forall>\<rho> G s t c \<sigma> z oc. launch S k s c \<longrightarrow> stm_codegen k s = Inr ((), t) \<longrightarrow> matched \<rho> G s \<sigma> \<longrightarrow>
        stm_eval S \<rho> G (rv_mem \<sigma>) k = Some oc \<longrightarrow>
        settled t z (region s t c (inner_blocks k)) \<longrightarrow>
        follows z c (bb_insts (ir_blocks s c)) \<sigma> oc)"

section \<open>Steps that stay in the block\<close>

definition plain_step :: "lvar set \<Rightarrow> cgctx \<Rightarrow> cgctx \<Rightarrow> bool" where
  "plain_step X s t \<longleftrightarrow>
     extends s t \<and> lasting s t \<and> based s t \<and> cache_step s t \<and> links {} s t \<and> binds X s t"

abbreviation plain :: "lvar set \<Rightarrow> 'a cx \<Rightarrow> bool" where
  "plain X \<equiv> keeps (plain_step X)"

lemma plain_iff:
  "plain X m \<longleftrightarrow> straight m \<and> keeps lasting m \<and> keeps based m \<and> keeps cache_step m \<and>
     keeps (links {}) m \<and> keeps (binds X) m"
  unfolding keeps_def plain_step_def by blast

interpretation plain: state_frame "plain_step X" for X
proof unfold_locales
  show "plain_step X s s" for s
    by (simp add: plain_step_def straight.keeps_refl lasting.keeps_refl based.keeps_refl
        cache.keeps_refl links.keeps_refl binds.keeps_refl)
  show "plain_step X s u" if "plain_step X s t" "plain_step X t u" for s t u
    using that unfolding plain_step_def
    by (blast intro: straight.keeps_trans lasting.keeps_trans based.keeps_trans
        cache.keeps_trans links.keeps_trans binds.keeps_trans)
qed (simp_all add: plain_iff frame_intros)

lemma plain_insertVal: "x \<in> X \<Longrightarrow> plain X (insertVal x v)"
  by (simp add: plain_iff frame_intros links_control binds_insertVal)

lemma plain_param_bind: "p_name p \<in> X \<Longrightarrow> plain X (param_bind p v)"
  unfolding param_bind_def by (rule plain_insertVal)

text \<open>Without bindings, the variables stay as they are.\<close>

lemma plain_vMap: "plain_step {} s t \<Longrightarrow> cx_vMap t = cx_vMap s"
proof (rule ext)
  fix x assume p: "plain_step {} s t"
  show "cx_vMap t x = cx_vMap s x"
  proof (cases "cx_vMap s x")
    case None
    then show ?thesis using p by (auto simp: plain_step_def binds_def)
  next
    case (Some v)
    then show ?thesis using p by (simp add: plain_step_def lasting_def)
  qed
qed

section \<open>The state along a statement\<close>

lemma surround_same:
  assumes "surround s t"
  shows "machine_ids t = machine_ids s" "reg_vals t G = reg_vals s G" "createFnTy k tys s = Inr (ft, s) \<Longrightarrow>
    createFnTy k tys t = Inr (ft, t)"
proof -
  show "machine_ids t = machine_ids s" "reg_vals t G = reg_vals s G"
    using assms by (simp_all add: machine_ids_def reg_vals_def surround_def)
  have "getArgInfo k s = Inr (info, s) \<Longrightarrow> getArgInfo k t = Inr (info, t)" for info
    using assms by (cases k) (auto simp: getArgInfo_def cbind_def cget_def creturn_def cfail_def surround_def
        split: option.splits)
  then show "createFnTy k tys s = Inr (ft, s) \<Longrightarrow> createFnTy k tys t = Inr (ft, t)"
    using assms by (auto simp: createFnTy_eq surround_def)
qed

lemma sigs_hold_surround:
  assumes "surround s t" "sigs_hold S s"
  shows "sigs_hold S t"
proof -
  have "frag_known t lab tys = frag_known s lab tys" for lab tys
    using assms(1) surround_same(1) [OF assms(1)] by (simp add: frag_known_def surround_def)
  moreover have "fn_known t lab k tys" if "fn_known s lab k tys" for lab k tys
  proof -
    from that obtain cl en f where "cx_clusterMap s lab = Some cl" "cluster_entry cl = Some en" "f_kind en = k"
      "c_fn cl = Some f" "f < length (ir_fns s)" "createFnTy k (map lty_of tys) s = Inr (fn_ty (ir_fns s ! f), s)"
      unfolding fn_known_def by blast
    then show ?thesis
      using assms(1) surround_same(3) [OF assms(1)] unfolding fn_known_def
      by (intro exI [of _ cl] exI [of _ en] exI [of _ f]) (simp add: surround_def)
  qed
  ultimately show ?thesis using assms by (auto simp: sigs_hold_def surround_def)
qed

lemma stage_step:
  assumes "stage S s" "lasting s t" "based s t" "cache_step s t" "ir_insert t \<noteq> None"
  shows "stage S t"
proof -
  have "surround s t" using assms(2) by (simp add: lasting_def)
  from sigs_hold_surround [OF this] surround_same(1) [OF this] assms
  show ?thesis
    by (auto simp: stage_def ctx_ok_def lasting_def surround_def based_def cache_step_def)
qed

lemma holds_upward: "holds s \<sigma> v r \<Longrightarrow> ir_nvals s \<le> ir_nvals t \<Longrightarrow> holds t \<sigma> v r"
  by (cases v) (auto simp: holds_def scoped_def)

lemma matched_lasting:
  assumes "matched \<rho> G s \<sigma>" "lasting s t" "rs_get (cx_regState t) = rs_get (cx_regState s)"
  shows "matched \<rho> G t \<sigma>"
proof -
  have h: "machine_ids t = machine_ids s" using assms(2) surround_same(1) by (simp add: lasting_def)
  show ?thesis
    using assms unfolding matched_def env_holds_def h lasting_def by (metis holds_upward)
qed

text \<open>The registers among the known values.\<close>

definition has_regs :: "cgctx \<Rightarrow> (CMRegId \<Rightarrow> value option) \<Rightarrow> regs \<Rightarrow> (value \<times> rval) list \<Rightarrow> bool" where
  "has_regs s R G \<Gamma> \<longleftrightarrow> (\<forall>r\<in>set (machine_ids s). \<exists>v. R r = Some v \<and> (v, RP (G r)) \<in> set \<Gamma>)"

lemma has_regs_more: "has_regs s R G \<Gamma> \<Longrightarrow> set \<Gamma> \<subseteq> set \<Delta> \<Longrightarrow> has_regs s R G \<Delta>"
  unfolding has_regs_def by blast

lemma has_regs_follow:
  assumes "has_regs s R G \<Gamma>" "set \<Gamma> \<subseteq> set \<Delta>" "regs_follow R G R' G' \<Delta>"
  shows "has_regs s R' G' \<Delta>"
  using assms unfolding has_regs_def regs_follow_def by (metis subsetD)

lemma stage_regs:
  assumes "stage S s" "has_regs s R G \<Gamma>" "r = ALLOC_PTR \<or> r = LIMIT_PTR \<or> r = STORE_PTR"
  obtains v where "R r = Some v" "(v, RP (G r)) \<in> set \<Gamma>"
  using assms by (auto simp: stage_def has_regs_def)

lemma known_begin:
  assumes "stage S s" "matched \<rho> G s \<sigma>"
  obtains \<Gamma> where "ready_for s \<sigma> (rs_get (cx_regState s)) (rv_mem \<sigma>) \<Gamma> s \<sigma>"
    "has_regs s (rs_get (cx_regState s)) G \<Gamma>"
proof -
  let ?R = "rs_get (cx_regState s)"
  let ?G = "map (\<lambda>r. (the (?R r), RP (G r))) (machine_ids s)"
  have "\<forall>vr\<in>set ?G. holds s \<sigma> (fst vr) (snd vr)" "has_regs s ?R G ?G"
    using assms(2) by (force simp: matched_def has_regs_def)+
  then show thesis
    using assms(1) known_start [of s ?G \<sigma>]
    by (intro that [of ?G]) (auto simp only: ready_for_def stage_def)
qed

lemma matched_after:
  assumes "matched \<rho> G s \<sigma>" "known s \<sigma> R' M' \<Gamma> t \<tau>" "has_regs s R' G' \<Gamma>" "cx_vMap t = cx_vMap s"
  shows "matched \<rho> G' t \<tau>"
proof -
  have l: "later s \<sigma> t \<tau>" and R: "rs_get (cx_regState t) = R'" using assms(2) by (auto simp: known_def)
  then have "machine_ids t = machine_ids s"
    by (intro surround_same(1) kept_surround) (simp add: later_def still_def)
  with assms(3) R have "\<forall>r\<in>set (machine_ids t). \<exists>v. rs_get (cx_regState t) r = Some v \<and> holds t \<tau> v (RP (G' r))"
    by (auto simp: has_regs_def dest!: known_holds [OF assms(2)])
  moreover have "env_holds \<rho> t \<tau>"
    using assms(1,4) holds_later [OF _ l] unfolding matched_def env_holds_def by metis
  ultimately show ?thesis by (simp add: matched_def)
qed

lemma matched_insert:
  assumes "matched \<rho> G s \<sigma>" "cx_vMap s x = None" "holds s \<sigma> v r"
  shows "matched (\<rho>(x := Some r)) G (s\<lparr>cx_vMap := map_insert v x (cx_vMap s)\<rparr>) \<sigma>"
    (is "matched _ _ ?t _")
proof -
  have "holds ?t = holds s" by (simp add: fun_eq_iff holds_def scoped_def split: "value.split")
  moreover have "machine_ids ?t = machine_ids s" by (simp add: machine_ids_def)
  ultimately show ?thesis using assms by (auto simp: matched_def env_holds_def map_insert_def)
qed

lemma matched_bind:
  assumes "matched \<rho> G s \<sigma>" "cx_vMap s x = None" "holds s \<sigma> v r"
  shows "runs (insertVal x v) s \<sigma> (\<lambda>_ t \<tau>. matched (\<rho>(x := Some r)) G t \<tau> \<and> rv_mem \<tau> = rv_mem \<sigma>)"
  unfolding insertVal_def
  by (rule runs_modify) (use matched_insert [OF assms] in \<open>simp_all add: still_def kept_def cached_same\<close>)

section \<open>Sequences\<close>

lemma launch_step:
  assumes "launch S k' s c" "plain (set xs) m" "m s = Inr (y, u)"
    "inner_blocks k' = inner_blocks k" "binders k' = xs @ binders k"
  shows "launch S k u c"
proof -
  have p: "plain_step (set xs) s u" by (rule keepsD [OF assms(2,3)])
  have st: "straight m" using assms(2) by (simp add: plain_iff)
  note f = straight_frame [OF st assms(3)]
  have l: "ir_insert s = Some c" "ready s (c # inner_blocks k)" "stage S s"
    using assms(1,4) by (simp_all add: launch_def)
  have "moved s u c c" by (rule straight_moved [OF st assms(3) l(1,2)])
  then have "ready u (c # inner_blocks k)" by (rule ready_moved) (rule l(2))
  moreover have "stage S u"
    by (rule stage_step [OF l(3)]) (use p l(1) f in \<open>simp_all add: plain_step_def\<close>)
  moreover have "ir_phis u = ir_phis s" using p by (auto simp: plain_step_def links_def fun_eq_iff)
  moreover have "dom (cx_vMap u) \<inter> set (binders k) = {}"
  proof -
    have "dom (cx_vMap u) \<subseteq> dom (cx_vMap s) \<union> set xs" using p by (simp add: plain_step_def binds_def)
    moreover have "set xs \<inter> set (binders k) = {}" "dom (cx_vMap s) \<inter> set (binders k) = {}"
      using assms(1,5) by (auto simp: launch_def)
    ultimately show ?thesis by blast
  qed
  moreover have "ir_blocks u b = ir_blocks s b" if "b \<in> set (inner_blocks k)" for b
    using that l f(3) [of b] by (auto simp: ready_def)
  ultimately show ?thesis using assms(1,4,5) f by (auto simp: launch_def unlinked_def)
qed

lemma follows_seq:
  assumes sim: "simulates S k" and l: "launch S k' s c"
    and run: "cthen m (stm_codegen k) s = Inr ((), t)"
    and m: "plain (set xs) m" "inner_blocks k' = inner_blocks k" "binders k' = xs @ binders k"
    and code: "runs m s \<sigma> (\<lambda>_ u \<tau>. matched \<rho>' G' u \<tau> \<and> rv_mem \<tau> = M')"
    and ev: "stm_eval S \<rho>' G' M' k = Some oc"
    and z: "settled t z (region s t c (inner_blocks k'))"
  shows "follows z c (bb_insts (ir_blocks s c)) \<sigma> oc"
proof -
  from code obtain x u ins \<tau> where u: "m s = Inr (x, u)" "emits s ins u" "exec \<sigma> ins = Some \<tau>"
    and \<tau>: "matched \<rho>' G' u \<tau>" "rv_mem \<tau> = M'"
    unfolding runs_def by blast
  from run u(1) have k: "stm_codegen k u = Inr ((), t)" by (simp add: cthen_def cbind_def)
  have st: "straight m" using m(1) by (simp add: plain_iff)
  have "ir_nblocks u = ir_nblocks s" by (rule straight_frame(1) [OF st u(1)])
  with z have "settled t z (region u t c (inner_blocks k))" by (simp add: region_def m(2))
  with sim launch_step [OF l m(1) u(1) m(2,3)] k \<tau> ev
  have "follows z c (bb_insts (ir_blocks u c)) \<tau> oc" unfolding simulates_def by blast
  then obtain suf cf where f: "bb_insts (ir_blocks z c) = bb_insts (ir_blocks u c) @ suf"
    "flow z (c, suf, \<tau>) cf" "arrives z oc cf"
    unfolding follows_def by blast
  have "bb_insts (ir_blocks u c) = bb_insts (ir_blocks s c) @ ins"
    using u(2) l by (simp add: emits_def launch_def)
  with f flow_trans [OF flow_exec [OF u(3)] f(2)] show ?thesis
    unfolding follows_def by (intro exI [of _ "ins @ suf"] exI [of _ cf]) simp
qed

end
