(* ===== verification/Sim_Cases.thy ===== *)
theory Sim_Cases
  imports Simulation
begin

text \<open>
  The simulation, statement by statement.
\<close>

section \<open>Statements that stay in the block\<close>

lemma exps_run:
  assumes st: "stage S s" and m: "matched \<rho> G s \<sigma>" and ev: "evals \<rho> (rv_mem \<sigma>) es = Some rs"
  shows "runs (exps_codegen es) s \<sigma> (\<lambda>vs t \<tau>. \<exists>\<Gamma>.
    ready_for s \<sigma> (rs_get (cx_regState s)) (rv_mem \<sigma>) \<Gamma> t \<tau> \<and>
    has_regs s (rs_get (cx_regState s)) G \<Gamma> \<and> list_all2 (\<lambda>v r. (v, r) \<in> set \<Gamma>) vs rs)"
proof -
  let ?R = "rs_get (cx_regState s)"
  have c: "caches_ok s" "ir_module s \<noteq> None" using st by (auto simp: stage_def base_ok_def sp_ok_def)
  have env: "env_holds \<rho> s \<sigma>" using m by (simp add: matched_def)
  have cs: "list_all2 (computes s \<sigma> ?R (rv_mem \<sigma>)) es rs"
    using those_all2 [OF ev] exp_computes [OF _ env c] by (auto elim: list_all2_mono)
  obtain \<Gamma> where g: "ready_for s \<sigma> ?R (rv_mem \<sigma>) \<Gamma> s \<sigma>" "has_regs s ?R G \<Gamma>"
    using known_begin [OF st m] .
  show ?thesis
    unfolding exps_codegen_def
    by (rule runs_args [OF cs g(1)]) (use g(2) has_regs_more in blast)
qed

lemma exp_run:
  assumes "stage S s" "matched \<rho> G s \<sigma>" "exp_eval \<rho> (rv_mem \<sigma>) e = Some r"
  shows "runs (exp_codegen e) s \<sigma> (\<lambda>v t \<tau>. \<exists>\<Gamma>.
    ready_for s \<sigma> (rs_get (cx_regState s)) (rv_mem \<sigma>) \<Gamma> t \<tau> \<and>
    has_regs s (rs_get (cx_regState s)) G \<Gamma> \<and> (v, r) \<in> set \<Gamma>)"
proof -
  let ?R = "rs_get (cx_regState s)"
  have c: "caches_ok s" "ir_module s \<noteq> None" using assms(1) by (auto simp: stage_def base_ok_def sp_ok_def)
  have "env_holds \<rho> s \<sigma>" using assms(2) by (simp add: matched_def)
  note cp = exp_computes [OF assms(3) this c]
  obtain \<Gamma> where g: "ready_for s \<sigma> ?R (rv_mem \<sigma>) \<Gamma> s \<sigma>" "has_regs s ?R G \<Gamma>"
    using known_begin [OF assms(1,2)] .
  show ?thesis
    by (rule computesD [OF cp g(1)]) (use g(2) in \<open>force intro: has_regs_more\<close>)
qed

text \<open>The operation after its arguments, with the variables as before.\<close>

lemma matched_ready:
  assumes m: "matched \<rho> G s \<sigma>" and r: "ready_for s \<sigma> R M \<Gamma> t \<tau>"
    and u: "known s \<sigma> R' M' \<Gamma>' u \<upsilon>" "has_regs s R' G' \<Gamma>'" "plain_step {} t u"
  shows "matched \<rho> G' u \<upsilon>"
  by (rule matched_after [OF m u(1,2)]) (use plain_vMap [OF u(3)] r in \<open>simp add: ready_for_def\<close>)

lemma sim_LET:
  assumes "simulates S k"
  shows "simulates S (LET b e p k)"
  unfolding simulates_def
proof (intro allI impI)
  fix \<rho> G s t c \<sigma> z oc
  assume l: "launch S (LET b e p k) s c" and run: "stm_codegen (LET b e p k) s = Inr ((), t)"
    and m: "matched \<rho> G s \<sigma>" and ev: "stm_eval S \<rho> G (rv_mem \<sigma>) (LET b e p k) = Some oc"
    and z: "settled t z (region s t c (inner_blocks (LET b e p k)))"
  obtain r where r: "exp_eval \<rho> (rv_mem \<sigma>) e = Some r"
    "stm_eval S (\<rho>(p_name p := Some r)) G (rv_mem \<sigma>) k = Some oc"
    using ev by (auto split: option.splits)
  have st: "stage S s" and x: "cx_vMap s (p_name p) = None" using l by (auto simp: launch_def)
  show "follows z c (bb_insts (ir_blocks s c)) \<sigma> oc"
  proof (rule follows_seq [OF assms l run [unfolded stm_codegen.simps] _ _ _ _ r(2) z])
    show "plain (set [p_name p]) (cbind (exp_codegen e) (param_bind p))"
      by (intro plain.keeps_bind plain_param_bind frame_intros) simp
    show "runs (cbind (exp_codegen e) (param_bind p)) s \<sigma>
        (\<lambda>_ u \<tau>. matched (\<rho>(p_name p := Some r)) G u \<tau> \<and> rv_mem \<tau> = rv_mem \<sigma>)"
    proof (rule runs_bind, rule runs_mono [OF exp_run [OF st m r(1)]])
      fix v u \<tau>
      assume "\<exists>\<Gamma>. ready_for s \<sigma> (rs_get (cx_regState s)) (rv_mem \<sigma>) \<Gamma> u \<tau> \<and>
        has_regs s (rs_get (cx_regState s)) G \<Gamma> \<and> (v, r) \<in> set \<Gamma>"
      then obtain \<Gamma> where k: "known s \<sigma> (rs_get (cx_regState s)) (rv_mem \<sigma>) \<Gamma> u \<tau>" "cx_vMap u = cx_vMap s"
        "has_regs s (rs_get (cx_regState s)) G \<Gamma>" "(v, r) \<in> set \<Gamma>"
        by (auto simp: ready_for_def)
      have "matched \<rho> G u \<tau>" by (rule matched_after [OF m k(1,3,2)])
      from matched_bind [OF this _ known_holds [OF k(1,4)], of "p_name p"] x k(1,2)
      show "runs (param_bind p v) u \<tau>
          (\<lambda>_ u \<tau>. matched (\<rho>(p_name p := Some r)) G u \<tau> \<and> rv_mem \<tau> = rv_mem \<sigma>)"
        by (simp add: param_bind_def known_def)
    qed
  qed simp_all
qed

lemma sim_ALLOC:
  assumes "simulates S k"
  shows "simulates S (ALLOC b a es x k)"
  unfolding simulates_def
proof (intro allI impI)
  fix \<rho> G s t c \<sigma> z oc
  assume l: "launch S (ALLOC b a es x k) s c" and run: "stm_codegen (ALLOC b a es x k) s = Inr ((), t)"
    and m: "matched \<rho> G s \<sigma>" and ev: "stm_eval S \<rho> G (rv_mem \<sigma>) (ALLOC b a es x k) = Some oc"
    and z: "settled t z (region s t c (inner_blocks (ALLOC b a es x k)))"
  obtain rs q G' M' where r: "evals \<rho> (rv_mem \<sigma>) es = Some rs"
    "alloc_eval a rs G (rv_mem \<sigma>) = Some (q, G', M')"
    "stm_eval S (\<rho>(x := Some (RP q))) G' M' k = Some oc"
    using ev by (auto split: option.splits)
  have st: "stage S s" and xn: "cx_vMap s x = None" using l by (auto simp: launch_def)
  show "follows z c (bb_insts (ir_blocks s c)) \<sigma> oc"
  proof (rule follows_seq [OF assms l run [unfolded stm_codegen.simps] _ _ _ _ r(3) z])
    show "plain (set [x]) (cbind (exps_codegen es) (\<lambda>args. cbind (alloc_codegen a args) (insertVal x)))"
      by (intro plain.keeps_bind plain_insertVal frame_intros) simp
    show "runs (cbind (exps_codegen es) (\<lambda>args. cbind (alloc_codegen a args) (insertVal x))) s \<sigma>
        (\<lambda>_ u \<tau>. matched (\<rho>(x := Some (RP q))) G' u \<tau> \<and> rv_mem \<tau> = M')"
    proof (rule runs_bind, rule runs_mono [OF exps_run [OF st m r(1)]])
      fix vs u \<tau>
      assume "\<exists>\<Gamma>. ready_for s \<sigma> (rs_get (cx_regState s)) (rv_mem \<sigma>) \<Gamma> u \<tau> \<and>
        has_regs s (rs_get (cx_regState s)) G \<Gamma> \<and> list_all2 (\<lambda>v r. (v, r) \<in> set \<Gamma>) vs rs"
      then obtain \<Gamma> where k: "ready_for s \<sigma> (rs_get (cx_regState s)) (rv_mem \<sigma>) \<Gamma> u \<tau>"
        "has_regs s (rs_get (cx_regState s)) G \<Gamma>" "list_all2 (\<lambda>v r. (v, r) \<in> set \<Gamma>) vs rs" by blast
      have kn: "known s \<sigma> (rs_get (cx_regState s)) (rv_mem \<sigma>) \<Gamma> u \<tau>" using k(1) by (simp add: ready_for_def)
      obtain ap where ap: "rs_get (cx_regState s) ALLOC_PTR = Some ap" "(ap, RP (G ALLOC_PTR)) \<in> set \<Gamma>"
        using stage_regs [OF st k(2)] by blast
      have "runs (alloc_codegen a vs) u \<tau> (\<lambda>v t \<upsilon>. \<exists>R' \<Gamma>'. known s \<sigma> R' M' \<Gamma>' t \<upsilon> \<and>
          has_regs s R' G' \<Gamma>' \<and> (v, RP q) \<in> set \<Gamma>')"
        by (rule runs_alloc [where G = G, OF kn ap k(3) r(2)]) (blast intro: has_regs_follow [OF k(2)])
      moreover have "plain {} (alloc_codegen a vs)" by (intro frame_intros)
      ultimately have run: "runs (alloc_codegen a vs) u \<tau> (\<lambda>v t \<upsilon>. (\<exists>R' \<Gamma>'. known s \<sigma> R' M' \<Gamma>' t \<upsilon> \<and>
          has_regs s R' G' \<Gamma>' \<and> (v, RP q) \<in> set \<Gamma>') \<and> plain_step {} u t)"
        by (rule runs_keeps)
      show "runs (cbind (alloc_codegen a vs) (insertVal x)) u \<tau>
          (\<lambda>_ u \<tau>. matched (\<rho>(x := Some (RP q))) G' u \<tau> \<and> rv_mem \<tau> = M')"
      proof (rule runs_bind, rule runs_mono [OF run])
        fix v w \<upsilon>
        assume "(\<exists>R' \<Gamma>'. known s \<sigma> R' M' \<Gamma>' w \<upsilon> \<and> has_regs s R' G' \<Gamma>' \<and> (v, RP q) \<in> set \<Gamma>') \<and>
          plain_step {} u w"
        then obtain R' \<Gamma>' where k': "known s \<sigma> R' M' \<Gamma>' w \<upsilon>" "has_regs s R' G' \<Gamma>'" "(v, RP q) \<in> set \<Gamma>'"
          "plain_step {} u w" by blast
        have "matched \<rho> G' w \<upsilon>" by (rule matched_ready [OF m k(1) k'(1,2,4)])
        moreover have "cx_vMap w x = None"
          using plain_vMap [OF k'(4)] k(1) xn by (simp add: ready_for_def)
        ultimately show "runs (insertVal x v) w \<upsilon>
            (\<lambda>_ u \<tau>. matched (\<rho>(x := Some (RP q))) G' u \<tau> \<and> rv_mem \<tau> = M')"
          using matched_bind [OF _ _ known_holds [OF k'(1,3)]] k'(1) by (simp add: known_def)
      qed
    qed
  qed simp_all
qed

lemma sim_SETTER:
  assumes "simulates S k"
  shows "simulates S (SETTER b op es k)"
  unfolding simulates_def
proof (intro allI impI)
  fix \<rho> G s t c \<sigma> z oc
  assume l: "launch S (SETTER b op es k) s c" and run: "stm_codegen (SETTER b op es k) s = Inr ((), t)"
    and m: "matched \<rho> G s \<sigma>" and ev: "stm_eval S \<rho> G (rv_mem \<sigma>) (SETTER b op es k) = Some oc"
    and z: "settled t z (region s t c (inner_blocks (SETTER b op es k)))"
  obtain rs G' M' where r: "evals \<rho> (rv_mem \<sigma>) es = Some rs"
    "setter_eval op rs G (rv_mem \<sigma>) = Some (G', M')" "stm_eval S \<rho> G' M' k = Some oc"
    using ev by (auto split: option.splits)
  have st: "stage S s" using l by (auto simp: launch_def)
  show "follows z c (bb_insts (ir_blocks s c)) \<sigma> oc"
  proof (rule follows_seq [OF assms l run [unfolded stm_codegen.simps] _ _ _ _ r(3) z])
    show "plain (set []) (cbind (exps_codegen es) (setter_codegen op))" by (intro frame_intros)
    show "runs (cbind (exps_codegen es) (setter_codegen op)) s \<sigma>
        (\<lambda>_ u \<tau>. matched \<rho> G' u \<tau> \<and> rv_mem \<tau> = M')"
    proof (rule runs_bind, rule runs_mono [OF exps_run [OF st m r(1)]])
      fix vs u \<tau>
      assume "\<exists>\<Gamma>. ready_for s \<sigma> (rs_get (cx_regState s)) (rv_mem \<sigma>) \<Gamma> u \<tau> \<and>
        has_regs s (rs_get (cx_regState s)) G \<Gamma> \<and> list_all2 (\<lambda>v r. (v, r) \<in> set \<Gamma>) vs rs"
      then obtain \<Gamma> where k: "ready_for s \<sigma> (rs_get (cx_regState s)) (rv_mem \<sigma>) \<Gamma> u \<tau>"
        "has_regs s (rs_get (cx_regState s)) G \<Gamma>" "list_all2 (\<lambda>v r. (v, r) \<in> set \<Gamma>) vs rs" by blast
      have kn: "known s \<sigma> (rs_get (cx_regState s)) (rv_mem \<sigma>) \<Gamma> u \<tau>" using k(1) by (simp add: ready_for_def)
      obtain ap where ap: "rs_get (cx_regState s) ALLOC_PTR = Some ap" "(ap, RP (G ALLOC_PTR)) \<in> set \<Gamma>"
        using stage_regs [OF st k(2)] by blast
      obtain sp where sp: "rs_get (cx_regState s) STORE_PTR = Some sp" "(sp, RP (G STORE_PTR)) \<in> set \<Gamma>"
        using stage_regs [OF st k(2)] by blast
      have "runs (setter_codegen op vs) u \<tau>
          (\<lambda>_ t \<upsilon>. \<exists>R' \<Gamma>'. known s \<sigma> R' M' \<Gamma>' t \<upsilon> \<and> has_regs s R' G' \<Gamma>')"
        by (rule runs_setter [where G = G, OF kn ap sp k(3) r(2)]) (blast intro: has_regs_follow [OF k(2)])
      moreover have "plain {} (setter_codegen op vs)" by (intro frame_intros)
      ultimately have "runs (setter_codegen op vs) u \<tau>
          (\<lambda>_ t \<upsilon>. (\<exists>R' \<Gamma>'. known s \<sigma> R' M' \<Gamma>' t \<upsilon> \<and> has_regs s R' G' \<Gamma>') \<and> plain_step {} u t)"
        by (rule runs_keeps)
      then show "runs (setter_codegen op vs) u \<tau> (\<lambda>_ u \<tau>. matched \<rho> G' u \<tau> \<and> rv_mem \<tau> = M')"
        by (rule runs_mono) (auto intro: matched_ready [OF m k(1)] simp: known_def)
    qed
  qed simp_all
qed

section \<open>Arithmetic\<close>

lemma sim_division:
  assumes sim: "simulates S k" and l: "launch S (ARITH b a es p k) s c"
    and run: "stm_codegen (ARITH b a es p k) s = Inr ((), t)"
    and m: "matched \<rho> G s \<sigma>" and z: "settled t z (region s t c (inner_blocks (ARITH b a es p k)))"
    and rs: "evals \<rho> (rv_mem \<sigma>) es = Some [q1, q2]"
    and a: "a = ARITH_prim oper sz" "as_int (nat sz) q1 = Some x" "as_int (nat sz) q2 = Some y"
      "oper = IDIV \<or> oper = IREM" "\<And>u v. ARITH_codegen oper sz [u, v] = PURE_ARITH_codegen po sz [u, v]"
      "int_size sz" "int_op po (nat sz) x y = Some n" "r = RI (nat sz) n"
    and ev: "stm_eval S (\<rho>(p_name p := Some r)) G (rv_mem \<sigma>) k = Some oc"
  shows "follows z c (bb_insts (ir_blocks s c)) \<sigma> oc"
proof (rule follows_seq [OF sim l run [unfolded stm_codegen.simps] _ _ _ _ ev z])
  let ?m = "cbind (exps_codegen es) (\<lambda>args. cbind (arith_codegen a args) (param_bind p))"
  have st: "stage S s" and pn: "cx_vMap s (p_name p) = None" using l by (auto simp: launch_def)
  have pl: "plain X (arith_codegen a vs)" for X vs
    using a(4) unfolding a(1) arith_codegen_def arith.case
    by (auto simp: ARITH_codegen_def shorthand_defs intro!: plain.keeps_then plain.keeps_bind
        intro: frame_intros)
  show "plain (set [p_name p]) ?m"
    by (intro plain.keeps_bind plain_param_bind pl frame_intros) simp
  show "runs ?m s \<sigma> (\<lambda>_ u \<tau>. matched (\<rho>(p_name p := Some r)) G u \<tau> \<and> rv_mem \<tau> = rv_mem \<sigma>)"
  proof (rule runs_bind, rule runs_mono [OF exps_run [OF st m rs]])
    fix vs u \<tau>
    assume "\<exists>\<Gamma>. ready_for s \<sigma> (rs_get (cx_regState s)) (rv_mem \<sigma>) \<Gamma> u \<tau> \<and>
      has_regs s (rs_get (cx_regState s)) G \<Gamma> \<and> list_all2 (\<lambda>v r. (v, r) \<in> set \<Gamma>) vs [q1, q2]"
    then obtain \<Gamma> v1 v2 where k: "ready_for s \<sigma> (rs_get (cx_regState s)) (rv_mem \<sigma>) \<Gamma> u \<tau>"
      "has_regs s (rs_get (cx_regState s)) G \<Gamma>" "vs = [v1, v2]" "(v1, q1) \<in> set \<Gamma>" "(v2, q2) \<in> set \<Gamma>"
      by (auto simp: list_all2_Cons2)
    have kn: "known s \<sigma> (rs_get (cx_regState s)) (rv_mem \<sigma>) \<Gamma> u \<tau>" using k(1) by (simp add: ready_for_def)
    have "runs (arith_codegen a vs) u \<tau> (\<lambda>v t \<upsilon>.
        known s \<sigma> (rs_get (cx_regState s)) (rv_mem \<sigma>) ((v, r) # \<Gamma>) t \<upsilon>)"
      unfolding a(1,8) arith_codegen_def arith.case k(3) a(5)
      by (rule runs_int_op [OF kn k(4,5) a(6,2,3,7)])
    from runs_keeps [OF this pl [of "{}"]]
    have "runs (arith_codegen a vs) u \<tau> (\<lambda>v t \<upsilon>.
        known s \<sigma> (rs_get (cx_regState s)) (rv_mem \<sigma>) ((v, r) # \<Gamma>) t \<upsilon> \<and> plain_step {} u t)" .
    then show "runs (cbind (arith_codegen a vs) (param_bind p)) u \<tau>
        (\<lambda>_ u \<tau>. matched (\<rho>(p_name p := Some r)) G u \<tau> \<and> rv_mem \<tau> = rv_mem \<sigma>)"
    proof (intro runs_bind, elim runs_mono)
      fix v w \<upsilon>
      assume "known s \<sigma> (rs_get (cx_regState s)) (rv_mem \<sigma>) ((v, r) # \<Gamma>) w \<upsilon> \<and> plain_step {} u w"
      then have k': "known s \<sigma> (rs_get (cx_regState s)) (rv_mem \<sigma>) ((v, r) # \<Gamma>) w \<upsilon>"
        "plain_step {} u w" by auto
      have "has_regs s (rs_get (cx_regState s)) G ((v, r) # \<Gamma>)" using k(2) by (rule has_regs_more) auto
      from matched_ready [OF m k(1) k'(1) this k'(2)] have "matched \<rho> G w \<upsilon>" .
      moreover have "cx_vMap w (p_name p) = None"
        using plain_vMap [OF k'(2)] k(1) pn by (simp add: ready_for_def)
      moreover have "holds w \<upsilon> v r" using known_holds [OF k'(1)] by simp
      ultimately have "runs (insertVal (p_name p) v) w \<upsilon>
          (\<lambda>_ u \<tau>. matched (\<rho>(p_name p := Some r)) G u \<tau> \<and> rv_mem \<tau> = rv_mem \<upsilon>)"
        by (rule matched_bind)
      then show "runs (param_bind p v) w \<upsilon>
          (\<lambda>_ u \<tau>. matched (\<rho>(p_name p := Some r)) G u \<tau> \<and> rv_mem \<tau> = rv_mem \<sigma>)"
        using k'(1) by (simp add: param_bind_def known_def)
    qed
  qed
qed simp_all

text \<open>The state at the branch of a trapping operation.\<close>

lemma trap_run:
  assumes st: "stage S s" and m: "matched \<rho> G s \<sigma>"
    and rs: "evals \<rho> (rv_mem \<sigma>) es = Some [q1, q2]"
    and a: "as_int (nat sz) q1 = Some x" "as_int (nat sz) q2 = Some y" "trapping oper" "sz = 32 \<or> sz = 64"
    and z: "z = arith_exact oper (sval (nat sz) x) (sval (nat sz) y)"
  shows "runs (cbind (exps_codegen es) (\<lambda>vs. trap_pre oper sz (vs ! 0) (vs ! 1))) s \<sigma> (\<lambda>ro u \<tau>.
    matched \<rho> G u \<tau> \<and> rv_mem \<tau> = rv_mem \<sigma> \<and> cx_vMap u = cx_vMap s \<and>
    holds u \<tau> (snd ro) (RI 1 (of_bool (\<not> fits_signed (nat sz) z))) \<and>
    holds u \<tau> (fst ro) (RI (nat sz) (z mod 2 ^ nat sz)))"
proof (rule runs_bind, rule runs_mono [OF exps_run [OF st m rs]])
  fix vs u \<tau>
  let ?R = "rs_get (cx_regState s)" and ?w = "nat sz"
  assume "\<exists>\<Gamma>. ready_for s \<sigma> ?R (rv_mem \<sigma>) \<Gamma> u \<tau> \<and> has_regs s ?R G \<Gamma> \<and>
    list_all2 (\<lambda>v r. (v, r) \<in> set \<Gamma>) vs [q1, q2]"
  then obtain \<Gamma> v1 v2 where k: "ready_for s \<sigma> ?R (rv_mem \<sigma>) \<Gamma> u \<tau>" "has_regs s ?R G \<Gamma>" "vs = [v1, v2]"
    "(v1, q1) \<in> set \<Gamma>" "(v2, q2) \<in> set \<Gamma>"
    by (auto simp: list_all2_Cons2)
  have nth: "vs ! 0 = v1" "vs ! 1 = v2" by (simp_all add: k(3))
  have kn: "known s \<sigma> ?R (rv_mem \<sigma>) \<Gamma> u \<tau>" using k(1) by (simp add: ready_for_def)
  have c: "caches_ok s" "ir_module s \<noteq> None" using st by (auto simp: stage_def base_ok_def sp_ok_def)
  let ?\<Delta> = "\<lambda>ro. (snd ro, RI 1 (of_bool (\<not> fits_signed ?w z))) # (fst ro, RI ?w (take_bit ?w z)) # \<Gamma>"
  have "runs (trap_pre oper sz v1 v2) u \<tau> (\<lambda>ro t \<upsilon>. known s \<sigma> ?R (rv_mem \<sigma>) (?\<Delta> ro) t \<upsilon>)"
    by (rule runs_trap_pre [OF kn k(4,5) as_int_num [OF a(1)] as_int_num [OF a(2)] c a(3,4) z]) simp
  moreover have "plain {} (trap_pre oper sz v1 v2)" unfolding trap_pre_def by (intro frame_intros)
  ultimately have "runs (trap_pre oper sz v1 v2) u \<tau>
      (\<lambda>ro t \<upsilon>. known s \<sigma> ?R (rv_mem \<sigma>) (?\<Delta> ro) t \<upsilon> \<and> plain_step {} u t)"
    by (rule runs_keeps)
  then show "runs (trap_pre oper sz (vs ! 0) (vs ! 1)) u \<tau> (\<lambda>ro u \<tau>.
      matched \<rho> G u \<tau> \<and> rv_mem \<tau> = rv_mem \<sigma> \<and> cx_vMap u = cx_vMap s \<and>
      holds u \<tau> (snd ro) (RI 1 (of_bool (\<not> fits_signed ?w z))) \<and>
      holds u \<tau> (fst ro) (RI ?w (z mod 2 ^ ?w)))"
    unfolding nth
  proof (rule runs_mono, intro conjI)
    fix ro t \<upsilon>
    assume "known s \<sigma> ?R (rv_mem \<sigma>) (?\<Delta> ro) t \<upsilon> \<and> plain_step {} u t"
    then have k': "known s \<sigma> ?R (rv_mem \<sigma>) (?\<Delta> ro) t \<upsilon>" and p: "plain_step {} u t" by auto
    have "has_regs s ?R G (?\<Delta> ro)" using k(2) by (rule has_regs_more) auto
    from matched_ready [OF m k(1) k' this p] show "matched \<rho> G t \<upsilon>" .
    show "rv_mem \<upsilon> = rv_mem \<sigma>" using k' by (simp add: known_def)
    show "cx_vMap t = cx_vMap s" using plain_vMap [OF p] k(1) by (simp add: ready_for_def)
    show "holds t \<upsilon> (snd ro) (RI 1 (of_bool (\<not> fits_signed ?w z)))"
      using known_holds [OF k'] by simp
    show "holds t \<upsilon> (fst ro) (RI ?w (z mod 2 ^ ?w))"
      using known_holds [OF k', of "fst ro"] by (simp add: take_bit_eq_mod)
  qed
qed

text \<open>The branch itself.\<close>

lemma overflow_ok_matched:
  assumes "stage S u" "matched \<rho> G u \<tau>"
  shows "overflow_ok u"
  using assms by (auto simp: overflow_ok_base stage_def matched_def machine_ids_def)

lemma settled_back:
  assumes "settled t z X" "keeps lasting m" "keeps based m" "m s = Inr (x, t)" "X' \<subseteq> X"
    "\<And>b. b \<in> X' \<Longrightarrow> ir_blocks t b = ir_blocks s b"
  shows "settled s z X'"
proof -
  have "outlasts s t" by (rule lasting_outlasts [OF keepsD [OF assms(2,4)]])
  moreover have "based s t" by (rule keepsD [OF assms(3,4)])
  ultimately show ?thesis
    using assms(1,5,6) outlasts_trans based.keeps_trans unfolding settled_def by (metis subsetD)
qed

text \<open>The code after the branch is that of \<open>k\<close>, in the new block.\<close>

lemma launch_trap:
  assumes l: "launch S (ARITH b a es p k) u c" and t: "trap_post (res, obit) u = Inr (res', v)"
  shows "launch S k (v\<lparr>cx_vMap := map_insert w (p_name p) (cx_vMap v)\<rparr>) (ir_nblocks u)"
    and "moved u v c (ir_nblocks u)" "ir_nblocks u < ir_nblocks v" "lasting u v" "based u v"
    "cx_vMap v = cx_vMap u"
proof -
  let ?n = "ir_nblocks u" and ?v = "v\<lparr>cx_vMap := map_insert w (p_name p) (cx_vMap v)\<rparr>"
  have lu: "stage S u" "ir_insert u = Some c" "ready u (c # inner_blocks k)"
      "\<forall>b\<in>set (inner_blocks k). bb_insts (ir_blocks u b) = []"
      "unlinked u (set (c # inner_blocks k))" "distinct (p_name p # binders k)"
      "dom (cx_vMap u) \<inter> set (p_name p # binders k) = {}"
    using l by (simp_all add: launch_def)
  have mv: "moved u v c ?n" "?n < ir_nblocks v" using trap_post_moved [OF t lu(2,3)] by simp_all
  then show "moved u v c ?n" "?n < ir_nblocks v" .
  show ls: "lasting u v" by (rule keepsD [OF lasting.keeps_trap_post t])
  show bs: "based u v" by (rule keepsD [OF based.keeps_trap_post t])
  have cs: "cache_step u v" by (rule keepsD [OF cache.keeps_trap_post t])
  have "binds {} u v" by (rule keepsD [OF binds.keeps_trap_post t])
  with ls show vm: "cx_vMap v = cx_vMap u"
    by (intro ext) (metis binds_def domIff lasting_def not_None_eq subsetD sup_bot.right_neutral)
  have lk: "links {c} u v" using linking_trap_post t lu(2) unfolding linking_def by blast
  have "stage S v" by (rule stage_step [OF lu(1) ls bs cs]) (use mv in \<open>simp add: moved_def\<close>)
  moreover have "lasting v ?v" "based v ?v" "cache_step v ?v"
    using keepsD [OF lasting.keeps_insertVal] keepsD [OF based.keeps_insertVal]
      keepsD [OF cache.keeps_insertVal] by (auto simp: insertVal_def cmodify_def)
  ultimately have "stage S ?v"
    by (rule stage_step) (use mv in \<open>simp add: moved_def\<close>)
  moreover have "ready ?v (?n # inner_blocks k)"
    by (rule ready_cong [OF ready_moved [OF mv(1) lu(3)]]) simp_all
  moreover have "bb_insts (ir_blocks v b) = []" if "b \<in> set (inner_blocks k)" for b
    using that mv(1) lu(3,4) by (auto simp: moved_def ready_def)
  moreover have "unlinked ?v (set (?n # inner_blocks k))"
    unfolding unlinked_def
  proof (intro allI impI)
    fix n x d assume e: "(x, d) \<in> set (ir_phis ?v n)"
    obtain fs where "ir_phis v n = ir_phis u n @ fs" "snd ` set fs \<subseteq> {c}"
      using lk unfolding links_def by blast
    with e consider "(x, d) \<in> set (ir_phis u n)" | "d = c" by auto
    then show "d < ir_nblocks ?v \<and> d \<notin> set (?n # inner_blocks k)"
      using lu(3,5) mv by cases (force simp: unlinked_def ready_def moved_def)+
  qed
  moreover have "dom (cx_vMap ?v) \<inter> set (binders k) = {}"
    using lu(6,7) vm by (auto simp: map_insert_def)
  ultimately show "launch S k ?v ?n"
    using lu(6) mv(1) by (simp add: launch_def moved_def)
qed

text \<open>The edges to the overflow block.\<close>

lemma trapped_edges:
  assumes t: "trapped c obit u v" "unlinked u X" "c \<in> X" and m: "matched \<rho> G u \<tau>"
    and z: "lasting u v" "outlasts v z" "based v z"
  shows "\<exists>ovfl. (\<exists>n. bb_insts (ir_blocks v c) =
      bb_insts (ir_blocks u c) @ [(n, CondBr obit ovfl (ir_nblocks u) (Some overflowWeights))]) \<and>
    cx_overflowBB z = Some ovfl \<and> edges_give z c \<tau> (cx_overflowPhiNodes z) (reg_vals z G)"
proof -
  obtain n ovfl ns where i: "bb_insts (ir_blocks v c) =
        bb_insts (ir_blocks u c) @ [(n, CondBr obit ovfl (ir_nblocks u) (Some overflowWeights))]"
    and o: "cx_overflowBB v = Some ovfl" "cx_overflowPhiNodes v = map (\<lambda>n. VInst n PtrTy) ns"
      "length ns = numMachineRegs (cx_regInfo u)"
      "\<forall>i<length ns. ir_phis v (ns ! i) = ir_phis u (ns ! i) @ [(reg_val u i, c)]"
    and ok: "overflow_ok v"
    using t(1) unfolding trapped_def by blast
  have zo: "cx_overflowBB z = Some ovfl" "cx_overflowPhiNodes z = map (\<lambda>n. VInst n PtrTy) ns"
    using z(3) ok o by (auto simp: based_def overflow_ok_base)
  have hw: "machine_ids z = machine_ids u"
    using z(1,2) surround_same(1) [of u v] surround_same(1) [of v z] by (simp add: lasting_def outlasts_def)
  have len: "length (machine_ids u) = length ns" by (simp add: machine_ids_def o(3))
  have "edge z (ns ! j) c = Some (reg_val u j) \<and> veval \<tau> (reg_val u j) = Some (RP (G (machine_ids u ! j)))"
    if j: "j < length ns" for j
  proof
    obtain es where "ir_phis z (ns ! j) = ir_phis u (ns ! j) @ (reg_val u j, c) # es"
      using z(2) o(4) j unfolding outlasts_def by (metis append.assoc append_Cons append_Nil)
    moreover have "b \<noteq> c" if "(w, b) \<in> set (ir_phis u (ns ! j))" for w b
      using t(2,3) that by (auto simp: unlinked_def)
    ultimately show "edge z (ns ! j) c = Some (reg_val u j)" by (intro edge_first)
    have "machine_ids u ! j = ri_id (machineReg (cx_regInfo u) j)"
      using j o(3) by (simp add: machine_ids_def)
    moreover have "machine_ids u ! j \<in> set (machine_ids u)" using j len by simp
    ultimately show "veval \<tau> (reg_val u j) = Some (RP (G (machine_ids u ! j)))"
      using m by (force simp: matched_def reg_val_def holds_def)
  qed
  then have "edges_give z c \<tau> (map (\<lambda>n. VInst n PtrTy) ns) (reg_vals z G)"
    by (auto simp: edges_give_def reg_vals_def hw list_all2_conv_all_nth len)
  with i zo show ?thesis by auto
qed

lemma sim_trap:
  assumes sim: "simulates S k" and l: "launch S (ARITH b a es p k) s c"
    and run: "stm_codegen (ARITH b a es p k) s = Inr ((), t)"
    and m: "matched \<rho> G s \<sigma>" and z: "settled t z (region s t c (inner_blocks (ARITH b a es p k)))"
    and rs: "evals \<rho> (rv_mem \<sigma>) es = Some [q1, q2]"
    and a: "a = ARITH_prim oper sz" "as_int (nat sz) q1 = Some x" "as_int (nat sz) q2 = Some y"
      "trapping oper" "sz = 32 \<or> sz = 64"
    and n: "n = arith_exact oper (sval (nat sz) x) (sval (nat sz) y)"
    and ev: "(if fits_signed (nat sz) n
        then stm_eval S (\<rho>(p_name p := Some (RI (nat sz) (n mod 2 ^ nat sz)))) G (rv_mem \<sigma>) k
        else Some (Overflow G (rv_mem \<sigma>))) = Some oc"
  shows "follows z c (bb_insts (ir_blocks s c)) \<sigma> oc"
proof -
  let ?pre = "cbind (exps_codegen es) (\<lambda>vs. trap_pre oper sz (vs ! 0) (vs ! 1))"
  let ?k = "ARITH b a es p k" and ?w = "nat sz"
  have st: "stage S s" using l by (simp add: launch_def)
  from trap_run [OF st m rs a(2-5) n] obtain res obit u ins \<tau> where
    u: "?pre s = Inr ((res, obit), u)" "emits s ins u" "exec \<sigma> ins = Some \<tau>"
    and \<tau>: "matched \<rho> G u \<tau>" "rv_mem \<tau> = rv_mem \<sigma>" "cx_vMap u = cx_vMap s"
      "holds u \<tau> obit (RI 1 (of_bool (\<not> fits_signed ?w n)))" "holds u \<tau> res (RI ?w (n mod 2 ^ ?w))"
    unfolding runs_def by auto
  have pl: "plain (set []) ?pre" unfolding trap_pre_def by (intro frame_intros)
  have lu: "launch S ?k u c" by (rule launch_step [OF l pl u(1)]) simp_all
  have ins: "bb_insts (ir_blocks u c) = bb_insts (ir_blocks s c) @ ins"
    using u(2) l by (simp add: emits_def launch_def)
  from run obtain vs u1 res' v where e: "exps_codegen es s = Inr (vs, u1)"
      "arith_codegen a vs u1 = Inr (res', v)"
    and k: "stm_codegen k (v\<lparr>cx_vMap := map_insert res' (p_name p) (cx_vMap v)\<rparr>) = Inr ((), t)"
    by (auto elim!: cthen_InrE cbind_InrE simp: param_bind_def insertVal_def cmodify_def)
  from e(2) have "length vs = 2"
    by (auto simp: a(1) arith_codegen_def ARITH_codegen_def cassert_def cfail_def elim!: cthen_InrE split: if_splits)
  then obtain v1 v2 where vs: "vs = [v1, v2]" by (auto simp: numeral_2_eq_2 length_Suc_conv)
  have tp: "trap_post (res, obit) u = Inr (res', v)"
    using e u(1) by (simp add: vs a(1) arith_codegen_def trap_split [OF a(4)] cbind_def)
  have cu: "ir_insert u = Some c" "c < ir_nblocks u" "stage S u" "unlinked u (set (c # inner_blocks k))"
    using lu by (simp_all add: launch_def ready_def)
  have tr: "res' = res" "trapped c obit u v"
    using does_trap_post [OF overflow_ok_matched [OF cu(3) \<tau>(1)] cu(1,2), of res obit] tp
    by (auto simp: does_def)
  let ?v = "v\<lparr>cx_vMap := map_insert res (p_name p) (cx_vMap v)\<rparr>"
  note k = k [unfolded tr(1)]
  note lt = launch_trap(1) [OF lu tp, of res] launch_trap(2-) [OF lu tp]
  have ready: "ready ?v (ir_nblocks u # inner_blocks k)" and nv: "ir_insert ?v = Some (ir_nblocks u)"
    using lt(1) by (simp_all add: launch_def)
  have pr: "progress ?v t (insert (ir_nblocks u) (set (inner_blocks k)))"
    by (rule closesD [OF stm_closes k nv ready])
  have su: "ir_nblocks u = ir_nblocks s"
    using u(2) by (simp add: emits_def still_def kept_def)
  have reg: "region ?v t (ir_nblocks u) (inner_blocks k) \<subseteq> region s t c (inner_blocks ?k)"
    using lt(2,3) pr by (auto simp: region_def su progress_def)
  have zt: "outlasts t z" "based t z" using z by (auto simp: settled_def)
  have vt: "lasting ?v t" "based ?v t"
    by (rule keepsD [OF lasting.keeps_stm k], rule keepsD [OF based.keeps_stm k])
  have vv: "lasting v ?v" "based v ?v"
    using keepsD [OF lasting.keeps_insertVal] keepsD [OF based.keeps_insertVal]
    by (auto simp: insertVal_def cmodify_def)
  have "lasting v t" by (rule lasting.keeps_trans [OF vv(1) vt(1)])
  then have vz: "outlasts v z" "based v z"
    using zt vt(2) vv(2) lasting_outlasts outlasts_trans based.keeps_trans by blast+
  have "unlinked u (set (c # inner_blocks k))" "c \<in> set (c # inner_blocks k)" using cu by simp_all
  from trapped_edges [OF tr(2) this \<tau>(1) lt(4) vz] obtain ovfl i where
    ov: "bb_insts (ir_blocks v c) =
        bb_insts (ir_blocks u c) @ [(i, CondBr obit ovfl (ir_nblocks u) (Some overflowWeights))]"
      "cx_overflowBB z = Some ovfl" "edges_give z c \<tau> (cx_overflowPhiNodes z) (reg_vals z G)"
    by blast
  have "c < ir_nblocks v" "c \<notin> insert (ir_nblocks u) (set (inner_blocks k))"
    using cu(2) lt(3) lu by (auto simp: launch_def ready_def)
  then have "ir_blocks t c = ir_blocks v c" using pr by (simp add: progress_def)
  moreover have "ir_blocks z c = ir_blocks t c" using z by (simp add: settled_def region_def)
  ultimately have blk: "bb_insts (ir_blocks z c) = bb_insts (ir_blocks s c) @
      (ins @ [(i, CondBr obit ovfl (ir_nblocks u) (Some overflowWeights))])"
    by (simp add: ov(1) ins)
  let ?br = "[(i, CondBr obit ovfl (ir_nblocks u) (Some overflowWeights))]"
  have fl: "flow z (c, ins @ ?br, \<sigma>) (c, ?br, \<tau>)" by (rule flow_exec [OF u(3)])
  show ?thesis
  proof (cases "fits_signed ?w n")
    case False
    then have "oc = Overflow G (rv_mem \<sigma>)" using ev by simp
    moreover have "veval \<tau> obit = Some (RI 1 1)" using \<tau>(4) False by (simp add: holds_def)
    ultimately have "arrives z oc (c, ?br, \<tau>)" using \<tau>(2) ov by auto
    with blk fl show ?thesis unfolding follows_def by blast
  next
    case True
    let ?r = "RI ?w (n mod 2 ^ ?w)"
    have "rs_get (cx_regState v) = rs_get (cx_regState u)" using tr(2) by (simp add: trapped_def)
    from matched_lasting [OF \<tau>(1) lt(4) this] have "matched \<rho> G v \<tau>" .
    moreover have "cx_vMap v (p_name p) = None"
      using lt(6) \<tau>(3) l by (auto simp: launch_def)
    moreover have "holds v \<tau> res ?r"
      using holds_upward [OF \<tau>(5)] lt(4) by (simp add: lasting_def)
    ultimately have mv: "matched (\<rho>(p_name p := Some ?r)) G ?v \<tau>" by (rule matched_insert)
    have "settled t z (region ?v t (ir_nblocks u) (inner_blocks k))"
      using z reg by (auto simp: settled_def)
    moreover have "stm_eval S (\<rho>(p_name p := Some ?r)) G (rv_mem \<tau>) k = Some oc"
      using ev True \<tau>(2) by simp
    ultimately have "follows z (ir_nblocks u) (bb_insts (ir_blocks ?v (ir_nblocks u))) \<tau> oc"
      using sim lt(1) k mv unfolding simulates_def by blast
    moreover have "bb_insts (ir_blocks ?v (ir_nblocks u)) = []"
      using tr(2) by (simp add: trapped_def)
    ultimately obtain suf cf where f: "bb_insts (ir_blocks z (ir_nblocks u)) = suf"
        "flow z (ir_nblocks u, suf, \<tau>) cf" "arrives z oc cf"
      unfolding follows_def by auto
    have "mstep z (c, ?br, \<tau>) = Some (ir_nblocks u, suf, \<tau>)"
      using enter_plain [OF f(1)] arrives_start [OF f(2,3)] \<tau>(4) True by (simp add: holds_def)
    from flow_trans [OF fl flow_step [OF this f(2)]] f(3) blk
    show ?thesis unfolding follows_def by blast
  qed
qed

lemma sim_ARITH:
  assumes "simulates S k"
  shows "simulates S (ARITH b a es p k)"
  unfolding simulates_def
proof (intro allI impI)
  fix \<rho> G s t c \<sigma> z oc
  assume l: "launch S (ARITH b a es p k) s c" and run: "stm_codegen (ARITH b a es p k) s = Inr ((), t)"
    and m: "matched \<rho> G s \<sigma>" and ev: "stm_eval S \<rho> G (rv_mem \<sigma>) (ARITH b a es p k) = Some oc"
    and z: "settled t z (region s t c (inner_blocks (ARITH b a es p k)))"
  obtain rs res where r: "evals \<rho> (rv_mem \<sigma>) es = Some rs" "arith_result a rs = Some res"
    using ev by (auto split: option.splits)
  from r(2) show "follows z c (bb_insts (ir_blocks s c)) \<sigma> oc"
  proof (cases rule: arith_result_cases)
    case (1 oper sz p' q x y)
    show ?thesis
      by (rule sim_trap [OF assms l run m z r(1) [unfolded 1(2)] 1(1,3-6) refl])
        (use ev r in \<open>simp add: 1(7) Let_def split: if_splits\<close>)
  next
    case (2 oper po sz p' q x y n)
    show ?thesis
      by (rule sim_division [OF assms l run m z r(1) [unfolded 2(2)] 2(1,3-8) refl])
        (use ev r in \<open>simp add: 2\<close>)
  qed
qed

end
