(* ===== verification/Sim_Branches.thy ===== *)
theory Sim_Branches
  imports Sim_Cases
begin

text \<open>
  The simulation of branches: the head takes the machine to the block of an arm, and the code of the
  arm finds there what held before the branch.
\<close>

section \<open>One arm among the others\<close>

lemma cforeach_append: "cforeach (xs @ ys) f = cthen (cforeach xs f) (cforeach ys f)"
proof (induction xs)
  case (Cons x xs)
  then show ?case by (simp add: cthen_def cbind_assoc)
qed (simp add: fun_eq_iff cthen_def cbind_def creturn_def)

lemma arms_append:
  "arms_codegen d (xs @ ys) = cthen (arms_codegen d xs) (arms_codegen d ys)"
  by (simp add: arms_codegen_def cforeach_append)

lemma arms_split:
  assumes "arms_codegen d (as @ a # bs) u = Inr (x, t)"
  obtains b u' v w where "arms_codegen d as u = Inr ((), u')" "stm_bb a = Some b"
    "v = u'\<lparr>cx_regState := copyFrom (cx_regState u') d, ir_insert := Some b\<rparr>"
    "stm_codegen a v = Inr ((), w)" "arms_codegen d bs w = Inr (x, t)"
proof -
  from assms obtain u' u2 w where 1: "arms_codegen d as u = Inr ((), u')"
    and 2: "u2 = u'\<lparr>cx_regState := copyFrom (cx_regState u') d\<rparr>" "arm_codegen a u2 = Inr ((), w)"
    and 3: "arms_codegen d bs w = Inr (x, t)"
    unfolding arms_append
    by (auto elim!: cthen_InrE simp: restore_eq arms_codegen_def)
  from 2(2) obtain b where b: "stm_bb a = Some b" "stm_codegen a (u2\<lparr>ir_insert := Some b\<rparr>) = Inr ((), w)"
    unfolding arm_codegen_def by (auto elim!: cthen_InrE cbind_InrE simp: bb_of_eq SetInsertPoint_eq)
  show thesis by (rule that [OF 1 b(1) refl _ 3]) (use b(2) 2(1) in simp)
qed

lemma arms_frames:
  "keeps lasting (arms_codegen d arms)" "keeps based (arms_codegen d arms)"
  "keeps cache_step (arms_codegen d arms)"
  "set (concat (map binders arms)) \<subseteq> X \<Longrightarrow> keeps (binds X) (arms_codegen d arms)"
  unfolding arms_codegen_def arm_codegen_def
  by (intro lasting.keeps_foreach lasting.keeps_then lasting.keeps_bind lasting.keeps_stm lasting.code_intros
      based.keeps_foreach based.keeps_then based.keeps_bind based.keeps_stm based.code_intros
      cache.keeps_foreach cache.keeps_then cache.keeps_bind cache.keeps_stm cache.code_intros frame_intros)+
    (auto intro!: binds.keeps_foreach binds.keeps_then binds.keeps_bind binds_stm binds.code_intros
      intro: frame_intros)

text \<open>What the head of a branch keeps.\<close>

definition heads :: "unit cx \<Rightarrow> bool" where
  "heads h \<longleftrightarrow> keeps lasting h \<and> keeps based h \<and> keeps cache_step h \<and> keeps (binds {}) h \<and>
     keeps (links {}) h"

lemma heads_forks: "heads (switch_head e arms)" "heads (branch_test br es prob k1 k2)"
  unfolding heads_def
  by (intro conjI links_heads; unfold switch_head_def branch_test_def switch_arg_def switch_end_def
        createTrunc_def;
      intro lasting.code_intros based.code_intros cache.code_intros binds.code_intros frame_intros)+

lemma binders_arms: "arms_of k \<noteq> [] \<Longrightarrow> binders k = concat (map binders (arms_of k))"
  by (cases k) simp_all

text \<open>When the head is done, the arms are ready.\<close>

lemma launch_arm:
  assumes l: "launch S k s c" and f: "forks k h" "heads h" and h: "h s = Inr ((), u)"
    and arms: "arms_of k = as @ a # bs" and pre: "arms_codegen d as u = Inr ((), u')"
    and b: "stm_bb a = Some b"
    and v: "v = u'\<lparr>cx_regState := copyFrom (cx_regState u') d, ir_insert := Some b\<rparr>"
  shows "launch S a v b" "bb_insts (ir_blocks v b) = []" "lasting u v"
    "ready v (all_blocks a @ concat (map all_blocks bs))" "ir_blocks v c = ir_blocks u c"
    "ir_nblocks s \<le> ir_nblocks v"
proof -
  let ?A = "concat (map all_blocks as)" and ?B = "concat (map all_blocks bs)"
  have inner: "inner_blocks k = ?A @ all_blocks a @ ?B" and cl: "closing h"
    using f(1) by (simp_all add: forks_def arms)
  have al: "all_blocks a = b # inner_blocks a" by (simp add: all_blocks_def own_blocks_def b)
  note L = l [unfolded launch_def inner]
  have ls: "stage S s" "ir_insert s = Some c" "ready s (c # ?A @ all_blocks a @ ?B)"
    "\<And>x. x \<in> set (all_blocks a) \<Longrightarrow> bb_insts (ir_blocks s x) = []"
    "unlinked s (set (c # ?A @ all_blocks a @ ?B))" "distinct (binders k)"
    "dom (cx_vMap s) \<inter> set (binders k) = {}"
    using L by simp_all
  have bk: "binders k = concat (map binders as) @ binders a @ concat (map binders bs)"
    using binders_arms [of k] arms by simp
  have pu: "progress s u {c}"
    by (rule closingD [OF cl h ls(2)]) (use ls(3) in \<open>simp add: inner\<close>)
  have ru: "ready u (?A @ all_blocks a @ ?B)"
    by (rule ready_progress [OF pu]) (use ls(3) in \<open>auto simp: ready_def\<close>)
  then have rA: "ready u ?A" "ready u (all_blocks a @ ?B)" "set (all_blocks a @ ?B) \<inter> set ?A = {}"
    by (auto simp: ready_append)
  have p': "progress u u' (set ?A)" by (rule arms_progress [OF stm_closes pre rA(1)])
  show rv: "ready v (all_blocks a @ ?B)"
    by (rule ready_cong [OF ready_progress [OF p' rA(2,3)]]) (simp_all add: v)
  have blk: "ir_blocks v x = ir_blocks s x" if "x \<in> set (all_blocks a)" for x
  proof -
    have "x < ir_nblocks u" "x \<notin> set ?A" using that ru rA(3) by (auto simp: ready_def)
    moreover have "x < ir_nblocks s" "x \<noteq> c" using that ls(3) by (auto simp: ready_def)
    ultimately show ?thesis using pu p' by (simp add: progress_def v del: set_concat set_map)
  qed
  show "bb_insts (ir_blocks v b) = []" using blk [of b] ls(4) [of b] by (simp add: al)
  have nb: "ir_nblocks s \<le> ir_nblocks u" "ir_nblocks u \<le> ir_nblocks v"
    using pu p' by (auto simp: progress_def v)
  then show "ir_nblocks s \<le> ir_nblocks v" by simp
  have cs: "c < ir_nblocks s" "c \<notin> set ?A" "c \<notin> set (all_blocks a)" using ls(3) by (auto simp: ready_def)
  then show "ir_blocks v c = ir_blocks u c" using p' nb by (auto simp: progress_def v)
  have sv: "lasting u' v" "based u' v" "cache_step u' v" "cx_vMap v = cx_vMap u'" "ir_phis v = ir_phis u'"
    by (auto simp: v lasting_def surround_def numbers_ok_def cache_step_def caches_ok_def sp_ok_def intro!: based_same)
  note pre_keeps = keepsD [OF arms_frames(1) pre] keepsD [OF arms_frames(2) pre]
    keepsD [OF arms_frames(3) pre] keepsD [OF arms_frames(4) pre, OF subset_refl]
  have hd: "lasting s u" "based s u" "cache_step s u" "binds {} s u" "links {} s u"
    using f(2) h unfolding heads_def by (blast dest: keepsD)+
  show uv: "lasting u v" using pre_keeps(1) sv(1) by (rule lasting.keeps_trans)
  have sv': "lasting s v" "based s v" "cache_step s v"
    by (rule lasting.keeps_trans [OF hd(1) uv],
        rule based.keeps_trans [OF hd(2) based.keeps_trans [OF pre_keeps(2) sv(2)]],
        rule cache.keeps_trans [OF hd(3) cache.keeps_trans [OF pre_keeps(3) sv(3)]])
  have "stage S v" by (rule stage_step [OF ls(1) sv']) (simp add: v)
  moreover have "unlinked v (set (b # inner_blocks a))"
    unfolding unlinked_def
  proof (intro allI impI)
    fix n x y assume "(x, y) \<in> set (ir_phis v n)"
    moreover have "links (set ?A \<union> {ir_nblocks u..<ir_nblocks u'}) u u'"
      by (rule arms_links [OF stm_links_all pre rA(1)])
    ultimately have "(x, y) \<in> set (ir_phis s n) \<or> y \<in> set ?A \<union> {ir_nblocks u..<ir_nblocks u'}"
      using hd(5) unfolding links_def sv(5) by (fastforce dest: spec [of _ n])
    then show "y < ir_nblocks v \<and> y \<notin> set (b # inner_blocks a)"
    proof
      assume "(x, y) \<in> set (ir_phis s n)"
      then have "y < ir_nblocks s" "y \<notin> set (all_blocks a)"
        using ls(5) by (auto simp: unlinked_def simp del: set_concat)
      with nb show ?thesis by (simp add: al)
    next
      assume y: "y \<in> set ?A \<union> {ir_nblocks u..<ir_nblocks u'}"
      have "set ?A \<union> set (all_blocks a) \<subseteq> {..<ir_nblocks u}"
        using ready_subset [OF ru] by (simp del: set_concat)
      with y rA(3) nb show ?thesis by (auto simp: al v simp del: set_concat)
    qed
  qed
  moreover have "dom (cx_vMap v) \<inter> set (binders a) = {}"
    using hd(4) pre_keeps(4) ls(6,7) unfolding binds_def sv(4) bk by (simp del: set_concat) blast
  ultimately show "launch S a v b"
    using rv [unfolded ready_append] ls(4,6) blk by (auto simp: launch_def v al bk)
qed

text \<open>The head ends in a jump to block \<open>b\<close>.\<close>

definition turns ::
  "(lvar \<Rightarrow> rval option) \<Rightarrow> regs \<Rightarrow> cgctx \<Rightarrow> unit cx \<Rightarrow> cgctx \<Rightarrow> nat \<Rightarrow> rstate \<Rightarrow> nat \<Rightarrow> bool" where
  "turns \<rho> G z h s c \<sigma> b \<longleftrightarrow>
     (\<forall>u. h s = Inr ((), u) \<longrightarrow>
        (\<exists>ins br \<tau>. bb_insts (ir_blocks u c) = bb_insts (ir_blocks s c) @ ins @ [br] \<and>
           exec \<sigma> ins = Some \<tau> \<and> rv_mem \<tau> = rv_mem \<sigma> \<and> matched \<rho> G u \<tau> \<and>
           mstep z (c, [br], \<tau>) = enter z c b \<tau>))"

lemma sim_fork:
  assumes sim: "simulates S a" and l: "launch S k s c" and f: "forks k h" "heads h"
    and run: "stm_codegen k s = Inr ((), t)" and arms: "arms_of k = as @ a # bs"
    and b: "stm_bb a = Some b" and head: "turns \<rho> G z h s c \<sigma> b"
    and ev: "stm_eval S \<rho> G (rv_mem \<sigma>) a = Some oc"
    and z: "settled t z (region s t c (inner_blocks k))"
  shows "follows z c (bb_insts (ir_blocks s c)) \<sigma> oc"
proof -
  let ?B = "concat (map all_blocks bs)"
  obtain u d where u: "h s = Inr ((), u)" "arms_codegen d (as @ a # bs) u = Inr ((), t)"
    and d: "d = copyFrom CMRegState_new (cx_regState u)"
    using fork_split [OF f(1) run] arms by metis
  obtain b' u' v w where pre: "arms_codegen d as u = Inr ((), u')" and b': "stm_bb a = Some b'"
    and v: "v = u'\<lparr>cx_regState := copyFrom (cx_regState u') d, ir_insert := Some b'\<rparr>"
    and a: "stm_codegen a v = Inr ((), w)" and post: "arms_codegen d bs w = Inr ((), t)"
    using arms_split [OF u(2)] .
  have [simp]: "b' = b" using b b' by simp
  note la = launch_arm [OF l f u(1) arms pre b' v, simplified]
  have al: "all_blocks a = b # inner_blocks a" by (simp add: all_blocks_def own_blocks_def b)
  have inner: "inner_blocks k = concat (map all_blocks as) @ all_blocks a @ ?B"
    using f(1) by (simp add: forks_def arms)
  have rv: "ready v (all_blocks a)" "ready v ?B" "set ?B \<inter> set (all_blocks a) = {}"
    using la(4) by (auto simp: ready_append)
  have iv: "ir_insert v = Some b" by (simp add: v)
  have pw: "progress v w (set (all_blocks a))"
    using closesD [OF stm_closes a iv] rv(1) by (simp add: al)
  have rw: "ready w ?B" by (rule ready_progress [OF pw rv(2,3)])
  have pt: "progress w t (set ?B)" by (rule arms_progress [OF stm_closes post rw])
  have nb: "ir_nblocks v \<le> ir_nblocks w" "ir_nblocks w \<le> ir_nblocks t"
    using pw pt by (simp_all add: progress_def)
  have "set (all_blocks a) \<subseteq> {..<ir_nblocks v}" by (rule ready_subset [OF rv(1)])
  have reg: "region v w b (inner_blocks a) \<subseteq> region s t c (inner_blocks k)"
    using la(6) nb by (auto simp: region_def inner al)
  have "ir_blocks t x = ir_blocks w x" if "x \<in> region v w b (inner_blocks a)" for x
  proof -
    have "x \<in> set (all_blocks a) \<or> ir_nblocks v \<le> x \<and> x < ir_nblocks w"
      using that by (auto simp: region_def al)
    then have "x < ir_nblocks w \<and> x \<notin> set ?B"
      using ready_subset [OF rv(1)] ready_subset [OF rv(2)] rv(3) nb
      by (auto simp del: set_concat)
    then show ?thesis using pt by (simp add: progress_def del: set_concat)
  qed
  then have zw: "settled w z (region v w b (inner_blocks a))"
    by (intro settled_back [OF z arms_frames(1,2) post reg])
  obtain ins br \<tau> where br: "bb_insts (ir_blocks u c) = bb_insts (ir_blocks s c) @ ins @ [br]"
    "exec \<sigma> ins = Some \<tau>" "rv_mem \<tau> = rv_mem \<sigma>" "matched \<rho> G u \<tau>" "mstep z (c, [br], \<tau>) = enter z c b \<tau>"
    using head u(1) unfolding turns_def by blast
  have "rs_get (cx_regState v) = rs_get (cx_regState u)" by (simp add: v d fun_eq_iff)
  from matched_lasting [OF br(4) la(3) this] have "matched \<rho> G v \<tau>" .
  then have "follows z b (bb_insts (ir_blocks v b)) \<tau> oc"
    using sim la(1) a ev zw br(3) unfolding simulates_def by metis
  then obtain suf cf where suf: "bb_insts (ir_blocks z b) = suf" "flow z (b, suf, \<tau>) cf" "arrives z oc cf"
    by (auto simp: follows_def la(2))
  have "ir_blocks z c = ir_blocks u c"
  proof -
    have "c < ir_nblocks s" "c \<notin> set (all_blocks a @ ?B)"
      using l by (auto simp: launch_def ready_def inner)
    then have "ir_blocks t c = ir_blocks v c"
      using pw pt la(6) by (simp add: progress_def del: set_concat)
    with la(5) z show ?thesis by (simp add: settled_def region_def)
  qed
  moreover have "mstep z (c, [br], \<tau>) = Some (b, suf, \<tau>)"
    using enter_plain [OF suf(1)] arrives_start [OF suf(2,3)] by (simp add: br(5))
  from flow_trans [OF flow_exec [OF br(2)] flow_step [OF this suf(2)]]
  have "flow z (c, ins @ [br], \<sigma>) cf" .
  ultimately show ?thesis
    unfolding follows_def using br(1) suf(3) by (intro exI [of _ "ins @ [br]"] exI [of _ cf]) simp
qed

section \<open>The two heads\<close>

lemma exec_end:
  assumes "ir_exec i s = Inr (x, t)" "ir_insert s = Some c" "matched \<rho> G s \<tau>"
  shows "\<exists>n. bb_insts (ir_blocks t c) = bb_insts (ir_blocks s c) @ [(n, i)]" "matched \<rho> G t \<tau>"
proof -
  show "\<exists>n. bb_insts (ir_blocks t c) = bb_insts (ir_blocks s c) @ [(n, i)]"
    using assms(1,2) by (auto simp: ir_exec_def creturn_def elim!: cbind_InrE dest!: ir_append_Some)
  have "cx_regState t = cx_regState s" using keepsD [OF quiet_exec assms(1)] by (simp add: quiet_def)
  then show "matched \<rho> G t \<tau>"
    using matched_lasting [OF assms(3) keepsD [OF lasting_exec assms(1)]] by simp
qed

lemma test_turns:
  assumes st: "stage S s" "ir_insert s = Some c" and m: "matched \<rho> G s \<sigma>"
    and rs: "evals \<rho> (rv_mem \<sigma>) es = Some rs" "branch_eval (sg_target S) br rs G = Some b"
    and bb: "stm_bb k1 = Some b1" "stm_bb k2 = Some b2"
  shows "turns \<rho> G z (branch_test br es prob k1 k2) s c \<sigma> (if b then b1 else b2)"
  unfolding turns_def
proof (intro allI impI)
  fix u assume u: "branch_test br es prob k1 k2 s = Inr ((), u)"
  let ?R = "rs_get (cx_regState s)" and ?br = "\<lambda>v. CondBr v b1 b2 (if prob = 0 then None else Some (branchProb prob))"
  have "runs (cbind (exps_codegen es) (branch_codegen br)) s \<sigma> (\<lambda>v t \<tau>.
      matched \<rho> G t \<tau> \<and> rv_mem \<tau> = rv_mem \<sigma> \<and> veval \<tau> v = Some (RI 1 (of_bool b)))"
  proof (rule runs_bind, rule runs_mono [OF exps_run [OF st(1) m rs(1)]])
    fix vs w \<tau>
    assume "\<exists>\<Gamma>. ready_for s \<sigma> ?R (rv_mem \<sigma>) \<Gamma> w \<tau> \<and> has_regs s ?R G \<Gamma> \<and>
      list_all2 (\<lambda>v r. (v, r) \<in> set \<Gamma>) vs rs"
    then obtain \<Gamma> where k: "ready_for s \<sigma> ?R (rv_mem \<sigma>) \<Gamma> w \<tau>" "has_regs s ?R G \<Gamma>"
      "list_all2 (\<lambda>v r. (v, r) \<in> set \<Gamma>) vs rs" by blast
    have kn: "known s \<sigma> ?R (rv_mem \<sigma>) \<Gamma> w \<tau>" using k(1) by (simp add: ready_for_def)
    then have "cx_target w = sg_target S"
      using st(1) by (simp add: known_def later_def still_def kept_def stage_def sigs_hold_def)
    with rs(2) have ev: "branch_eval (cx_target w) br rs G = Some b" by simp
    obtain ap where ap: "?R ALLOC_PTR = Some ap" "(ap, RP (G ALLOC_PTR)) \<in> set \<Gamma>"
      using stage_regs [OF st(1) k(2)] by blast
    obtain lp where lp: "?R LIMIT_PTR = Some lp" "(lp, RP (G LIMIT_PTR)) \<in> set \<Gamma>"
      using stage_regs [OF st(1) k(2)] by blast
    have "runs (branch_codegen br vs) w \<tau>
        (\<lambda>v t \<upsilon>. known s \<sigma> ?R (rv_mem \<sigma>) ((v, RI 1 (of_bool b)) # \<Gamma>) t \<upsilon>)"
      by (rule runs_branch_eval [where G = G, OF kn ap lp k(3) ev])
    moreover have "plain {} (branch_codegen br vs)" by (intro frame_intros)
    ultimately have "runs (branch_codegen br vs) w \<tau> (\<lambda>v t \<upsilon>.
        known s \<sigma> ?R (rv_mem \<sigma>) ((v, RI 1 (of_bool b)) # \<Gamma>) t \<upsilon> \<and> plain_step {} w t)"
      by (rule runs_keeps)
    then show "runs (branch_codegen br vs) w \<tau> (\<lambda>v t \<tau>.
        matched \<rho> G t \<tau> \<and> rv_mem \<tau> = rv_mem \<sigma> \<and> veval \<tau> v = Some (RI 1 (of_bool b)))"
    proof (rule runs_mono)
      fix v t \<upsilon>
      assume "known s \<sigma> ?R (rv_mem \<sigma>) ((v, RI 1 (of_bool b)) # \<Gamma>) t \<upsilon> \<and> plain_step {} w t"
      then have k': "known s \<sigma> ?R (rv_mem \<sigma>) ((v, RI 1 (of_bool b)) # \<Gamma>) t \<upsilon>" "plain_step {} w t" by auto
      have "has_regs s ?R G ((v, RI 1 (of_bool b)) # \<Gamma>)" using k(2) by (rule has_regs_more) auto
      from matched_ready [OF m k(1) k'(1) this k'(2)] have "matched \<rho> G t \<upsilon>" .
      then show "matched \<rho> G t \<upsilon> \<and> rv_mem \<upsilon> = rv_mem \<sigma> \<and> veval \<upsilon> v = Some (RI 1 (of_bool b))"
        using k'(1) known_holds [OF k'(1), of v "RI 1 (of_bool b)"] by (simp add: known_def holds_def)
    qed
  qed
  then obtain v w ins \<tau> where w: "cbind (exps_codegen es) (branch_codegen br) s = Inr (v, w)"
      "emits s ins w" "exec \<sigma> ins = Some \<tau>"
    and \<tau>: "matched \<rho> G w \<tau>" "rv_mem \<tau> = rv_mem \<sigma>" "veval \<tau> v = Some (RI 1 (of_bool b))"
    unfolding runs_def by blast
  have "branch_test br es prob k1 k2 =
      cbind (cbind (exps_codegen es) (branch_codegen br)) (\<lambda>v. ir_exec (?br v))"
    by (simp add: branch_test_def cbind_assoc bb_of_Some [OF bb(1)] bb_of_Some [OF bb(2)])
  with u w(1) have e: "ir_exec (?br v) w = Inr ((), u)" by (simp add: cbind_def)
  have "ir_insert w = Some c" using w(2) st(2) by (simp add: emits_def still_def kept_def)
  from exec_end [OF e this \<tau>(1)] obtain n where
    n: "bb_insts (ir_blocks u c) = bb_insts (ir_blocks w c) @ [(n, ?br v)]" "matched \<rho> G u \<tau>" by blast
  then show "\<exists>ins br \<tau>. bb_insts (ir_blocks u c) = bb_insts (ir_blocks s c) @ ins @ [br] \<and>
      exec \<sigma> ins = Some \<tau> \<and> rv_mem \<tau> = rv_mem \<sigma> \<and> matched \<rho> G u \<tau> \<and>
      mstep z (c, [br], \<tau>) = enter z c (if b then b1 else b2) \<tau>"
    using w(2,3) \<tau>(2,3) st(2)
    by (intro exI [of _ ins] exI [of _ "(n, ?br v)"] exI [of _ \<tau>]) (simp add: emits_def)
qed

lemma sim_BRANCH:
  assumes sim: "simulates S k1" "simulates S k2"
  shows "simulates S (BRANCH n br es prob k1 k2)"
  unfolding simulates_def
proof (intro allI impI)
  fix \<rho> G s t c \<sigma> z oc
  let ?k = "BRANCH n br es prob k1 k2"
  assume l: "launch S ?k s c" and run: "stm_codegen ?k s = Inr ((), t)"
    and m: "matched \<rho> G s \<sigma>" and ev: "stm_eval S \<rho> G (rv_mem \<sigma>) ?k = Some oc"
    and z: "settled t z (region s t c (inner_blocks ?k))"
  obtain rs b where r: "evals \<rho> (rv_mem \<sigma>) es = Some rs" "branch_eval (sg_target S) br rs G = Some b"
    "stm_eval S \<rho> G (rv_mem \<sigma>) (if b then k1 else k2) = Some oc"
    using ev by (auto split: option.splits if_splits)
  have st: "stage S s" "ir_insert s = Some c" using l by (simp_all add: launch_def)
  from run obtain b1 b2 where bb: "stm_bb k1 = Some b1" "stm_bb k2 = Some b2"
    by (auto elim!: cbind_InrE simp: bb_of_eq)
  note t = test_turns [OF st m r(1,2) bb, of z prob]
  show "follows z c (bb_insts (ir_blocks s c)) \<sigma> oc"
  proof (cases b)
    case True
    show ?thesis
      by (rule sim_fork [OF sim(1) l BRANCH_forks heads_forks(2) run _ bb(1) _ _ z, of "[]"])
        (use t r(3) True in simp_all)
  next
    case False
    show ?thesis
      by (rule sim_fork [OF sim(2) l BRANCH_forks heads_forks(2) run _ bb(2) _ _ z, of "[k1]"])
        (use t r(3) False in simp_all)
  qed
qed

text \<open>The index of a switch, as the code computes it.\<close>

lemma runs_switch_arg:
  assumes st: "stage S s" and m: "matched \<rho> G s \<sigma>"
    and r: "exp_eval \<rho> (rv_mem \<sigma>) e = Some r" "switch_index r = Some i" "i < 2 ^ 32"
  shows "runs (switch_arg e) s \<sigma> (\<lambda>v t \<tau>.
    matched \<rho> G t \<tau> \<and> rv_mem \<tau> = rv_mem \<sigma> \<and> veval \<tau> v = Some (RI 32 (int i)))"
  unfolding switch_arg_def cbind_assoc
proof (rule runs_bind, rule runs_mono [OF exp_run [OF st m r(1)]])
  fix v u \<tau>
  let ?R = "rs_get (cx_regState s)" and ?Q = "\<lambda>v t \<upsilon>. \<exists>\<Gamma>. known s \<sigma> (rs_get (cx_regState s)) (rv_mem \<sigma>) \<Gamma> t \<upsilon> \<and>
    has_regs s (rs_get (cx_regState s)) G \<Gamma> \<and> (v, RI 32 (int i)) \<in> set \<Gamma>"
  let ?m = "cbind (asInt v) (\<lambda>v. createTrunc v i32Ty)"
  assume "\<exists>\<Gamma>. ready_for s \<sigma> ?R (rv_mem \<sigma>) \<Gamma> u \<tau> \<and> has_regs s ?R G \<Gamma> \<and> (v, r) \<in> set \<Gamma>"
  then obtain \<Gamma> where k: "ready_for s \<sigma> ?R (rv_mem \<sigma>) \<Gamma> u \<tau>" "has_regs s ?R G \<Gamma>" "(v, r) \<in> set \<Gamma>" by blast
  have kn: "known s \<sigma> ?R (rv_mem \<sigma>) \<Gamma> u \<tau>" using k(1) by (simp add: ready_for_def)
  have "runs ?m u \<tau> ?Q"
  proof (cases "ml_word r")
    case True
    then have "0 \<le> raw r" by (cases r) (simp_all add: ml_word_def raw_def)
    with r(2) have x: "raw r = int i" by (auto simp: switch_index_def split: if_splits)
    show ?thesis
      unfolding createTrunc_def
    proof (rule runs_bind, rule step_asInt [OF kn k(3) True])
      fix w t \<upsilon>
      assume k1: "known s \<sigma> ?R (rv_mem \<sigma>) ((w, RI 64 (raw r)) # \<Gamma>) t \<upsilon>"
      show "runs (CreateCast Trunc w i32Ty) t \<upsilon> ?Q"
      proof (rule step_cast [OF k1, where r = "RI 64 (raw r)" and r' = "RI 32 (int i)"])
        fix v' t' \<upsilon>' let ?\<Delta> = "(v', RI 32 (int i)) # (w, RI 64 (raw r)) # \<Gamma>"
        assume "known s \<sigma> ?R (rv_mem \<sigma>) ?\<Delta> t' \<upsilon>'"
        moreover have "has_regs s ?R G ?\<Delta>" using k(2) by (rule has_regs_more) auto
        ultimately show "?Q v' t' \<upsilon>'" by (intro exI [of _ ?\<Delta>]) simp
      qed (use r(3) in \<open>simp_all add: x(1) cast_val_def take_bit_int_eq_self\<close>)
    qed
  next
    case False
    then obtain x where x: "as_int 32 r = Some x" "i = nat (raw r)"
      using r(2) False by (auto simp: switch_index_def split: if_splits)
    then have rr: "r = RI 32 (int i)" by (cases r) (simp_all add: as_int_def split: if_splits)
    show ?thesis
      unfolding createTrunc_def
    proof (rule runs_bind)
      have "runs (CreateCast Trunc v i32Ty) u \<tau> ?Q"
      proof (rule step_cast [OF kn k(3), where r' = "RI 32 (int i)"])
        fix v' t' \<upsilon>'
        assume "known s \<sigma> ?R (rv_mem \<sigma>) ((v', RI 32 (int i)) # \<Gamma>) t' \<upsilon>'"
        moreover have "has_regs s ?R G ((v', RI 32 (int i)) # \<Gamma>)" using k(2) by (rule has_regs_more) auto
        ultimately show "?Q v' t' \<upsilon>'" by (intro exI [of _ "(v', RI 32 (int i)) # \<Gamma>"]) simp
      qed (simp_all add: rr)
      then show "runs (asInt v) u \<tau> (\<lambda>x t \<tau>. runs (CreateCast Trunc x i32Ty) t \<tau> ?Q)"
        unfolding known_asInt [OF kn k(3) [unfolded rr]] by (rule runs_return)
    qed
  qed
  moreover have "plain {} ?m" unfolding createTrunc_def by (intro frame_intros)
  ultimately have "runs ?m u \<tau> (\<lambda>v t \<upsilon>. ?Q v t \<upsilon> \<and> plain_step {} u t)" by (rule runs_keeps)
  then show "runs ?m u \<tau> (\<lambda>v t \<tau>.
      matched \<rho> G t \<tau> \<and> rv_mem \<tau> = rv_mem \<sigma> \<and> veval \<tau> v = Some (RI 32 (int i)))"
  proof (rule runs_mono)
    fix v t \<upsilon>
    assume "?Q v t \<upsilon> \<and> plain_step {} u t"
    then obtain \<Gamma>' where k': "known s \<sigma> ?R (rv_mem \<sigma>) \<Gamma>' t \<upsilon>" "has_regs s ?R G \<Gamma>'"
      "(v, RI 32 (int i)) \<in> set \<Gamma>'" "plain_step {} u t" by blast
    show "matched \<rho> G t \<upsilon> \<and> rv_mem \<upsilon> = rv_mem \<sigma> \<and> veval \<upsilon> v = Some (RI 32 (int i))"
      using matched_ready [OF m k(1) k'(1,2,4)] known_holds [OF k'(1,3)] k'(1)
      by (simp add: known_def holds_def)
  qed
qed

text \<open>The case for the index.\<close>

lemma switch_target_nth:
  assumes "i < n" "length bbs = n" "n \<le> 2 ^ 32"
  shows "switch_target \<tau> (RI 32 (int i)) d
    (zip (map (\<lambda>i. iConst_sz 32 (word_of_nat i)) [0..<n]) bbs) = bbs ! i"
proof -
  let ?c = "\<lambda>i. iConst_sz 32 (word_of_nat i)" and ?P = "\<lambda>(v, b). veval \<tau> v = Some (RI 32 (int i))"
  let ?xs = "zip (map ?c [0..<n]) bbs"
  have c: "veval \<tau> (?c j) = Some (RI 32 (int j))" if "j < n" for j
  proof -
    have "uint (word_of_nat j :: u64) = int j"
      using that assms(3) by (simp add: unsigned_of_nat take_bit_nat_eq_self)
    then have "sint (word_of_nat j :: u64) = int j"
      using that assms(3) by (simp add: sint_uint signed_take_bit_int_eq_self)
    then show ?thesis using that assms(3) by (simp add: iConst_sz_def const_of_def iType_size int_size_def take_bit_int_eq_self)
  qed
  have "find ?P ?xs = Some (?c i, bbs ! i)"
    unfolding find_Some_iff
    by (intro exI [of _ i]) (use assms(1,2) c in auto)
  then show ?thesis by (simp add: switch_target_def)
qed

lemma cmap_bb_of:
  "cmap bb_of as s = Inr (bbs, t) \<Longrightarrow> t = s \<and> map stm_bb as = map Some bbs"
  by (induction as arbitrary: bbs) (auto elim!: cbind_InrE simp: creturn_def bb_of_eq)

lemma switch_turns:
  assumes st: "stage S s" "ir_insert s = Some c" "ready s (c # bs)" and m: "matched \<rho> G s \<sigma>"
    and r: "exp_eval \<rho> (rv_mem \<sigma>) e = Some r" "switch_index r = Some i" "i < length arms"
      "length arms < 2 ^ 32"
    and b: "stm_bb (arms ! i) = Some b"
  shows "turns \<rho> G z (switch_head e arms) s c \<sigma> b"
  unfolding turns_def
proof (intro allI impI)
  fix u assume run: "switch_head e arms s = Inr ((), u)"
  obtain arg s1 dflt s2 s3 where 1: "switch_arg e s = Inr (arg, s1)"
    and 2: "newBB ''impossible'' s1 = Inr (dflt, s2)"
    and 3: "ir_exec Unreachable (s2\<lparr>ir_insert := Some dflt\<rparr>) = Inr ((), s3)"
    and 4: "switch_end arg dflt arms (s3\<lparr>ir_insert := Some c\<rparr>) = Inr ((), u)"
    using switch_head_steps [OF run st(2)] .
  have "i < 2 ^ 32" using r(3,4) by simp
  from runs_switch_arg [OF st(1) m r(1,2) this] 1 obtain ins \<tau> where
    e: "emits s ins s1" "exec \<sigma> ins = Some \<tau>"
    and \<tau>: "matched \<rho> G s1 \<tau>" "rv_mem \<tau> = rv_mem \<sigma>" "veval \<tau> arg = Some (RI 32 (int i))"
    unfolding runs_def by auto
  obtain f where s2: "dflt = ir_nblocks s1" "s2 = s1\<lparr>ir_nblocks := ir_nblocks s1 + 1,
      ir_blocks := (ir_blocks s1)(ir_nblocks s1 :=
        \<lparr>bb_name = ''impossible'', bb_fn = f, bb_insts = []\<rparr>)\<rparr>"
    using newBB_eq [OF 2] by blast
  have c: "c < ir_nblocks s1"
    using st(3) straight_frame(1) [OF straight_switch_arg 1] by (simp add: ready_def)
  let ?i = "\<lambda>b s. s\<lparr>ir_insert := Some b\<rparr>"
  have ins: "lasting s (?i b s)" for s b by (rule lasting_same) (simp_all add: surround_def)
  have "lasting s1 (?i c s3)"
    using keepsD [OF lasting_newBB 2] ins keepsD [OF lasting_exec 3] ins
    by (rule lasting.keeps_trans [OF lasting.keeps_trans [OF lasting.keeps_trans]])
  moreover have "cx_regState s3 = cx_regState s1"
    using keepsD [OF quiet_exec 3] by (simp add: quiet_def s2)
  ultimately have m3: "matched \<rho> G (?i c s3) \<tau>" by (intro matched_lasting [OF \<tau>(1)]) simp_all
  have blk: "ir_blocks s3 c = ir_blocks s1 c"
    using 3 c by (auto simp: ir_exec_def creturn_def s2 elim!: cbind_InrE dest!: ir_append_Some)
  from 4 obtain bbs where bbs: "map stm_bb arms = map Some bbs"
    and sw: "ir_exec (Switch arg dflt (zip (map (\<lambda>i. iConst_sz 32 (word_of_nat i)) [0..<length arms]) bbs))
      (?i c s3) = Inr ((), u)"
    unfolding switch_end_def by (auto elim!: cbind_InrE dest!: cmap_bb_of)
  obtain n where n: "bb_insts (ir_blocks u c) = bb_insts (ir_blocks s1 c) @
      [(n, Switch arg dflt (zip (map (\<lambda>i. iConst_sz 32 (word_of_nat i)) [0..<length arms]) bbs))]"
    and mu: "matched \<rho> G u \<tau>"
    using exec_end [OF sw _ m3] blk by auto
  have len: "length bbs = length arms" using bbs by (metis length_map)
  have "Some (bbs ! i) = Some b" using bbs b r(3) len by (metis nth_map)
  with switch_target_nth [OF r(3) len, of \<tau> dflt] r(4) have
    "mstep z (c, [(n, Switch arg dflt (zip (map (\<lambda>i. iConst_sz 32 (word_of_nat i)) [0..<length arms]) bbs))], \<tau>)
      = enter z c b \<tau>"
    by (simp add: \<tau>(3))
  with n e \<tau>(2) mu st(2)
  show "\<exists>ins br \<tau>. bb_insts (ir_blocks u c) = bb_insts (ir_blocks s c) @ ins @ [br] \<and>
      exec \<sigma> ins = Some \<tau> \<and> rv_mem \<tau> = rv_mem \<sigma> \<and> matched \<rho> G u \<tau> \<and>
      mstep z (c, [br], \<tau>) = enter z c b \<tau>"
    by (intro exI [of _ ins] exI conjI) (auto simp: emits_def)
qed

lemma sim_SWITCH:
  assumes sim: "\<And>a. a \<in> set arms \<Longrightarrow> simulates S a"
  shows "simulates S (SWITCH n e arms)"
  unfolding simulates_def
proof (intro allI impI)
  fix \<rho> G s t c \<sigma> z oc
  let ?k = "SWITCH n e arms"
  assume l: "launch S ?k s c" and run: "stm_codegen ?k s = Inr ((), t)"
    and m: "matched \<rho> G s \<sigma>" and ev: "stm_eval S \<rho> G (rv_mem \<sigma>) ?k = Some oc"
    and z: "settled t z (region s t c (inner_blocks ?k))"
  obtain r i where r: "exp_eval \<rho> (rv_mem \<sigma>) e = Some r" "switch_index r = Some i" "i < length arms"
      "length arms < 2 ^ 32" "stm_eval S \<rho> G (rv_mem \<sigma>) (arms ! i) = Some oc"
    using ev by (auto split: option.splits if_splits)
  have st: "stage S s" "ir_insert s = Some c" "ready s (c # inner_blocks ?k)"
    using l by (simp_all add: launch_def)
  obtain u d where u: "arms_codegen d (arms_of ?k) u = Inr ((), t)"
    using fork_split [OF SWITCH_forks run] by blast
  have arms: "arms_of ?k = take i arms @ arms ! i # drop (Suc i) arms"
    using id_take_nth_drop [OF r(3)] by simp
  obtain b where b: "stm_bb (arms ! i) = Some b"
    using arms_split [OF u [unfolded arms]] by metis
  show "follows z c (bb_insts (ir_blocks s c)) \<sigma> oc"
    by (rule sim_fork [OF sim l SWITCH_forks heads_forks(1) run arms b
        switch_turns [OF st m r(1-4) b] r(5) z]) (use r(3) in simp)
qed

end
