(* ===== verification/Sim_Leaves.thy ===== *)
theory Sim_Leaves
  imports Sim_Branches
begin

text \<open>
  The simulation of the statements that leave a fragment: the values that a jump or a call passes.
\<close>

section \<open>Arguments\<close>

lemma step_coerce:
  assumes k: "known s0 \<sigma>0 R M \<Gamma> s \<sigma>" "(v, r) \<in> set \<Gamma>" and a: "as_ty t r = Some q"
    and Q: "\<And>v t \<tau>. known s0 \<sigma>0 R M ((v, q) # \<Gamma>) t \<tau> \<Longrightarrow> Q v t \<tau>"
  shows "runs (coerce_arg t v) s \<sigma> Q"
proof -
  note tv = known_type [OF k]
  consider "rtype r = t" "q = r" | x where "r = RI 64 x" "t = PtrTy" "q = RP (word_of_int x)"
    | p where "r = RP p" "t = i64Ty" "q = RI 64 (uint p)"
    using a by (cases r) (auto simp: as_ty_def ml_word_def raw_def split: if_splits)
  then show ?thesis
  proof cases
    case 1
    have "known s0 \<sigma>0 R M ((v, q) # \<Gamma>) s \<sigma>"
      using known_weaken [OF k(1) refl refl, of "(v, q) # \<Gamma>"] k(2) 1 by auto
    then show ?thesis using tv 1 by (auto simp: coerce_arg_def intro!: runs_return Q)
  next
    case 2
    then have eq: "coerce_arg t v = CreateCast IntToPtr v PtrTy"
      using tv by (simp add: coerce_arg_def castTy_def isPointerTy_def isIntegerTy_def)
    show ?thesis
      unfolding eq
      by (rule step_cast [OF k, where r' = q]) (use 2 in \<open>simp_all add: cast_val_def Q\<close>)
  next
    case 3
    then have eq: "coerce_arg t v = CreateCast PtrToInt v i64Ty"
      using tv by (simp add: coerce_arg_def castTy_def isPointerTy_def isIntegerTy_def)
    show ?thesis
      unfolding eq
      by (rule step_cast [OF k, where r' = q]) (use 3 in \<open>simp_all add: cast_val_def take_bit_int_eq_self Q\<close>)
  qed
qed

lemma reg_vals_length: "length (reg_vals s G) = numMachineRegs (cx_regInfo s)"
  by (simp add: reg_vals_def machine_ids_def)

lemma cmap_reads:
  "(\<And>x. x \<in> set xs \<Longrightarrow> f x s = Inr (g x, s)) \<Longrightarrow> cmap f xs s = Inr (map g xs, s)"
  by (induction xs) (simp_all add: cbind_def creturn_def)

lemma createArgs_regs:
  assumes st: "stage S s" and m: "matched \<rho> G s \<sigma>" and k: "\<And>n. k \<noteq> frag_kind_other n"
  shows "createArgs k n s =
      Inr (map (reg_val s) [0..<numMachineRegs (cx_regInfo s)] @ replicate (n_unused k) (VUndef mlValueTy), s)"
    and "list_all2 (holds s \<sigma>) (map (reg_val s) [0..<numMachineRegs (cx_regInfo s)]) (reg_vals s G)"
proof -
  let ?n = "numMachineRegs (cx_regInfo s)"
  have r: "\<exists>v. rs_get (cx_regState s) (ri_id (machineReg (cx_regInfo s) i)) = Some v \<and>
      holds s \<sigma> v (RP (G (ri_id (machineReg (cx_regInfo s) i))))" if "i < ?n" for i
    using m that by (auto simp: matched_def machine_ids_def)
  have regs: "cmap (\<lambda>i. reg_value (ri_id (machineReg (cx_regInfo s) i))) [0..<?n] s =
      Inr (map (reg_val s) [0..<?n], s)"
    by (rule cmap_reads) (use r in \<open>force simp: reg_val_def reg_value_eq\<close>)
  obtain cl where cl: "cx_curCluster s = Some cl" "\<not> usesBasePtr (cx_regInfo s)"
    using st by (auto simp: stage_def)
  have "getArgInfo k s = Inr (\<lparr>nExtra = ?n, nBasePtr = 0, nUnused = n_unused k\<rparr>, s)"
    using k cl by (cases k) (auto simp: getArgInfo_def cbind_def cget_def creturn_def n_unused_def)
  with regs show "createArgs k n s =
      Inr (map (reg_val s) [0..<?n] @ replicate (n_unused k) (VUndef mlValueTy), s)"
    by (simp add: createArgs_def addExtraArgs_def cbind_def cget_def creturn_def)
  show "list_all2 (holds s \<sigma>) (map (reg_val s) [0..<?n]) (reg_vals s G)"
    using r by (force simp: reg_vals_def machine_ids_def list_all2_conv_all_nth reg_val_def)
qed

section \<open>Jumps\<close>

lemma edge_outlasts: "edge s n c = Some w \<Longrightarrow> outlasts s t \<Longrightarrow> edge t n c = Some w"
proof -
  assume e: "edge s n c = Some w" and "outlasts s t"
  then obtain es where "ir_phis t n = ir_phis s n @ es" unfolding outlasts_def by blast
  with e show ?thesis by (simp add: edge_def map_add_def split: option.split)
qed

lemma goto_phis_run:
  assumes "goto_phis phis i vs c s = Inr ((), t)" "drop i phis = map2 VInst ns ts"
    "length ns = length vs" "length ts = length vs" "distinct ns" "ctx_ok s" "ir_insert s = Some c"
    "list_all2 (holds s \<sigma>) vs rs" "those (map2 as_ty ts rs) = Some qs"
    "\<forall>n\<in>set ns. c \<notin> snd ` set (ir_phis s n)"
  shows "\<exists>ins \<tau>. bb_insts (ir_blocks t c) = bb_insts (ir_blocks s c) @ ins \<and> exec \<sigma> ins = Some \<tau> \<and>
    rv_mem \<tau> = rv_mem \<sigma> \<and> ir_insert t = Some c \<and> (\<forall>v r. holds s \<sigma> v r \<longrightarrow> holds t \<tau> v r) \<and>
    list_all2 (\<lambda>n q. \<exists>w. edge t n c = Some w \<and> holds t \<tau> w q) ns qs"
  using assms
proof (induction vs arbitrary: i s \<sigma> ns ts rs qs)
  case Nil
  then show ?case by (intro exI [of _ "[]"] exI [of _ \<sigma>]) (simp add: creturn_def)
next
  case (Cons v vs)
  obtain n ns' ty ts' where ns: "ns = n # ns'" and ts: "ts = ty # ts'"
    using Cons.prems(3,4) by (cases ns; cases ts) auto
  obtain r rs' where rs: "rs = r # rs'" "holds s \<sigma> v r" "list_all2 (holds s \<sigma>) vs rs'"
    using Cons.prems(8) by (auto simp: list_all2_Cons1)
  obtain q qs' where q: "qs = q # qs'" "as_ty ty r = Some q" "those (map2 as_ty ts' rs') = Some qs'"
    using Cons.prems(9) by (auto simp: ts rs split: option.splits)
  have dr: "drop i phis = VInst n ty # map2 VInst ns' ts'" using Cons.prems(2) by (simp add: ns ts)
  then have i: "i < length phis" by (metis drop_all leI list.distinct(1))
  with dr have phi: "phis ! i = VInst n ty" "drop (Suc i) phis = map2 VInst ns' ts'"
    by (metis Cons_nth_drop_Suc list.inject)+
  from Cons.prems(1) obtain w s2 s3 where 2: "coerce_arg ty v s = Inr (w, s2)"
    and 3: "s3 = s2\<lparr>ir_phis := (ir_phis s2)(n := ir_phis s2 n @ [(w, c)])\<rparr>"
    and 4: "goto_phis phis (i + 1) vs c s3 = Inr ((), t)"
    using i phi(1)
    by (auto elim!: cthen_InrE cbind_InrE simp: cnth_def creturn_def phi_addIncoming_def cmodify_def)
  let ?R = "rs_get (cx_regState s)"
  have "known s \<sigma> ?R (rv_mem \<sigma>) [(v, r)] s \<sigma>"
    by (rule known_start [OF Cons.prems(6)]) (simp add: rs)
  then have "runs (coerce_arg ty v) s \<sigma> (\<lambda>w t \<tau>. known s \<sigma> ?R (rv_mem \<sigma>) [(w, q), (v, r)] t \<tau>)"
    by (rule step_coerce [OF _ _ q(2)]) simp
  with 2 obtain ins1 \<tau>1 where 1: "emits s ins1 s2" "exec \<sigma> ins1 = Some \<tau>1"
    and kn: "known s \<sigma> ?R (rv_mem \<sigma>) [(w, q), (v, r)] s2 \<tau>1"
    unfolding runs_def by auto
  have same: "holds s3 = holds s2" by (simp add: fun_eq_iff holds_def scoped_def 3 split: "value.split")
  have lt: "later s \<sigma> s2 \<tau>1" using kn by (simp add: known_def)
  have p2: "ir_phis s2 = ir_phis s" and ins: "ir_insert s2 = Some c"
    using lt Cons.prems(7) by (simp_all add: later_def still_def kept_def)
  have ok: "ctx_ok s3" using kn by (simp add: known_def ctx_ok_def 3)
  have hs: "holds s3 \<tau>1 u p" if "holds s \<sigma> u p" for u p
    using holds_later [OF that lt] by (simp add: same)
  have nn: "n \<notin> set ns'" "distinct ns'" using Cons.prems(5) by (simp_all add: ns)
  have free: "\<forall>m\<in>set ns'. c \<notin> snd ` set (ir_phis s3 m)"
    using Cons.prems(10) nn(1) by (auto simp: ns 3 p2)
  have "\<exists>ins \<tau>. bb_insts (ir_blocks t c) = bb_insts (ir_blocks s3 c) @ ins \<and> exec \<tau>1 ins = Some \<tau> \<and>
    rv_mem \<tau> = rv_mem \<tau>1 \<and> ir_insert t = Some c \<and> (\<forall>v r. holds s3 \<tau>1 v r \<longrightarrow> holds t \<tau> v r) \<and>
    list_all2 (\<lambda>n q. \<exists>w. edge t n c = Some w \<and> holds t \<tau> w q) ns' qs'"
  proof (rule Cons.IH [OF 4 _ _ _ nn(2) ok _ _ q(3) free])
    show "drop (i + 1) phis = map2 VInst ns' ts'" using phi(2) by simp
    show "length ns' = length vs" "length ts' = length vs" using Cons.prems(3,4) by (simp_all add: ns ts)
    show "ir_insert s3 = Some c" using ins by (simp add: 3)
    show "list_all2 (holds s3 \<tau>1) vs rs'" by (rule list_all2_mono [OF rs(3)]) (rule hs)
  qed
  then obtain ins2 \<tau> where 5: "bb_insts (ir_blocks t c) = bb_insts (ir_blocks s3 c) @ ins2"
    "exec \<tau>1 ins2 = Some \<tau>" "rv_mem \<tau> = rv_mem \<tau>1" "ir_insert t = Some c"
    "\<forall>v r. holds s3 \<tau>1 v r \<longrightarrow> holds t \<tau> v r"
    "list_all2 (\<lambda>n q. \<exists>w. edge t n c = Some w \<and> holds t \<tau> w q) ns' qs'" by blast
  have "edge s3 n c = Some w"
  proof (rule edge_first)
    show "ir_phis s3 n = ir_phis s n @ [(w, c)]" by (simp add: 3 p2)
    show "b \<noteq> c" if "(x, b) \<in> set (ir_phis s n)" for x b
      using that Cons.prems(10) unfolding ns by force
  qed
  moreover have "outlasts s3 t" by (rule lasting_outlasts [OF keepsD [OF lasting.keeps_goto_phis 4]])
  ultimately have e: "edge t n c = Some w" by (rule edge_outlasts)
  have "holds s3 \<tau>1 w q" using known_holds [OF kn] by (simp add: same)
  with 5(5) e have own: "\<exists>w. edge t n c = Some w \<and> holds t \<tau> w q" by blast
  have b2: "bb_insts (ir_blocks s3 c) = bb_insts (ir_blocks s c) @ ins1"
    using 1(1) Cons.prems(7) by (simp add: emits_def 3)
  show ?case
  proof (intro exI [of _ "ins1 @ ins2"] exI [of _ \<tau>] conjI)
    show "bb_insts (ir_blocks t c) = bb_insts (ir_blocks s c) @ (ins1 @ ins2)" using 5(1) b2 by simp
    show "exec \<sigma> (ins1 @ ins2) = Some \<tau>" using 1(2) 5(2) by (simp add: exec_append)
    show "rv_mem \<tau> = rv_mem \<sigma>" using 5(3) kn by (simp add: known_def)
    show "\<forall>v r. holds s \<sigma> v r \<longrightarrow> holds t \<tau> v r" using hs 5(5) by blast
    show "list_all2 (\<lambda>n q. \<exists>w. edge t n c = Some w \<and> holds t \<tau> w q) ns qs"
      using own 5(6) by (simp add: ns q(1))
  qed (rule 5(4))
qed

lemma those_regs:
  "those (map2 as_ty (replicate (length ps) PtrTy @ ts) (map RP ps @ rs)) =
     map_option ((@) (map RP ps)) (those (map2 as_ty ts rs))"
  by (induction ps) (auto simp: as_ty_def option.map_comp comp_def map_option.id [unfolded id_def])

lemma those_types: "those (map2 as_ty ts rs) = Some qs \<Longrightarrow> length ts = length rs \<Longrightarrow> map rtype qs = ts"
proof (induction ts arbitrary: rs qs)
  case (Cons t ts)
  then show ?case
    by (cases rs) (auto simp: as_ty_def split: option.splits if_splits)
qed simp

lemma settled_surround:
  assumes "stm_codegen k s = Inr ((), t)" "settled t z X"
  shows "surround s z"
proof -
  have "outlasts s t" by (rule lasting_outlasts [OF keepsD [OF lasting.keeps_stm assms(1)]])
  with assms(2) have "outlasts s z" using outlasts_trans unfolding settled_def by blast
  then show ?thesis by (simp add: outlasts_def)
qed

lemma exec_br:
  assumes "ir_exec i s = Inr (x, t)" "ir_insert s = Some c"
  shows "\<exists>n. bb_insts (ir_blocks t c) = bb_insts (ir_blocks s c) @ [(n, i)]" "lasting s t"
  using assms keepsD [OF lasting_exec assms(1)]
  by (auto simp: ir_exec_def creturn_def elim!: cbind_InrE dest!: ir_append_Some)

lemma sim_GOTO: "simulates S (GOTO n lab args)"
  unfolding simulates_def
proof (intro allI impI)
  fix \<rho> G and s t :: cgctx and c \<sigma> z oc
  let ?k = "GOTO n lab args" and ?R = "rs_get (cx_regState s)"
  assume l: "launch S ?k s c" and run: "stm_codegen ?k s = Inr ((), t)"
    and m: "matched \<rho> G s \<sigma>" and ev: "stm_eval S \<rho> G (rv_mem \<sigma>) ?k = Some oc"
    and z: "settled t z (region s t c (inner_blocks ?k))"
  obtain tys rs qs where r: "sg_frag S lab = Some tys" "evals \<rho> (rv_mem \<sigma>) args = Some rs"
      "pass tys rs = Some qs" and oc: "oc = Jump lab qs G (rv_mem \<sigma>)"
    using ev by (auto split: option.splits)
  have st: "stage S s" "ir_insert s = Some c" "unlinked s {c}" using l by (simp_all add: launch_def)
  have "frag_known s lab tys" using st(1) r(1) by (simp add: stage_def sigs_hold_def)
  then obtain fr ns where fr: "cx_fragMap s lab = Some fr" "distinct ns"
      "length ns = length (machine_ids s) + length tys"
      "f_phiNodes fr = map2 VInst ns (replicate (length (machine_ids s)) PtrTy @ map lty_of tys)"
    unfolding frag_known_def by blast
  let ?ts = "replicate (length (machine_ids s)) PtrTy @ map lty_of tys"
  let ?extra = "map (reg_val s) [0..<numMachineRegs (cx_regInfo s)]"
  note extra = createArgs_regs [OF st(1) m, of INTERNAL, simplified]
  from run obtain vs w s3 b where w: "exps_codegen args s = Inr (vs, w)"
    and g: "goto_phis (f_phiNodes fr) 0 (?extra @ vs) c w = Inr ((), s3)"
    and b: "stm_bb (f_body fr) = Some b" and br: "ir_exec (Br b) s3 = Inr ((), t)"
    by (auto elim!: cbind_InrE cthen_InrE simp: GOTO_codegen_def GetInsertBlock_eq lookupFrag_def
        cget_def cassert_def creturn_def cfail_def bb_of_eq createBr_def fr(1) st(2) extra(1) n_unused_def
        split: if_splits)
  from exps_run [OF st(1) m r(2)] w obtain ins1 \<tau>1 \<Gamma> where 1: "emits s ins1 w" "exec \<sigma> ins1 = Some \<tau>1"
    and kn: "known s \<sigma> ?R (rv_mem \<sigma>) \<Gamma> w \<tau>1" and vs: "list_all2 (\<lambda>v r. (v, r) \<in> set \<Gamma>) vs rs"
    unfolding runs_def ready_for_def by auto
  have lt: "later s \<sigma> w \<tau>1" and ok: "ctx_ok w" using kn by (simp_all add: known_def)
  have "list_all2 (holds w \<tau>1) ?extra (reg_vals s G)"
    by (rule list_all2_mono [OF extra(2)]) (rule holds_later [OF _ lt])
  moreover have "list_all2 (holds w \<tau>1) vs rs"
    by (rule list_all2_mono [OF vs]) (rule known_holds [OF kn])
  ultimately have h: "list_all2 (holds w \<tau>1) (?extra @ vs) (reg_vals s G @ rs)"
    by (rule list_all2_appendI)
  have len: "length rs = length tys" and ps: "those (map2 as_ty (map lty_of tys) rs) = Some qs"
    using r(3) by (simp_all add: pass_def split: if_splits)
  have th: "those (map2 as_ty ?ts (reg_vals s G @ rs)) = Some (reg_vals s G @ qs)"
    using those_regs [of "map G (machine_ids s)" "map lty_of tys" rs] ps by (simp add: reg_vals_def comp_def)
  have iw: "ir_insert w = Some c" "ir_phis w = ir_phis s"
    using lt st(2) by (simp_all add: later_def still_def kept_def)
  have free: "\<forall>n\<in>set ns. c \<notin> snd ` set (ir_phis w n)"
    using st(3) by (force simp: unlinked_def iw(2))
  have lv: "length (?extra @ vs) = length ns"
    using list_all2_lengthD [OF h] fr(3) len by (simp add: reg_vals_length machine_ids_def)
  obtain ins2 \<tau> where 2: "bb_insts (ir_blocks s3 c) = bb_insts (ir_blocks w c) @ ins2"
    "exec \<tau>1 ins2 = Some \<tau>" "rv_mem \<tau> = rv_mem \<tau>1" "ir_insert s3 = Some c"
    "list_all2 (\<lambda>n q. \<exists>w. edge s3 n c = Some w \<and> holds s3 \<tau> w q) ns (reg_vals s G @ qs)"
    using goto_phis_run [OF g _ _ _ fr(2) ok iw(1) h th free] fr(3,4) lv by auto
  obtain m where 3: "bb_insts (ir_blocks t c) = bb_insts (ir_blocks s3 c) @ [(m, Br b)]" "lasting s3 t"
    using exec_br [OF br 2(4)] by blast
  have ls: "surround s z" by (rule settled_surround [OF run z])
  have "outlasts s3 z" using 3(2) z lasting_outlasts outlasts_trans unfolding settled_def by blast
  then have "list_all2 (\<lambda>n q. \<exists>w. edge z n c = Some w \<and> veval \<tau> w = Some q) ns (reg_vals s G @ qs)"
    using 2(5) by (elim list_all2_mono) (auto simp: holds_def intro: edge_outlasts)
  moreover have "f_phiNodes fr ! i = VInst (ns ! i) (rtype ((reg_vals s G @ qs) ! i))" if "i < length ns" for i
  proof -
    have ty: "map rtype (reg_vals s G @ qs) = ?ts"
      by (rule those_types [OF th]) (simp add: len reg_vals_def)
    then have "length (reg_vals s G @ qs) = length ns" using fr(3) by (metis length_append length_map length_replicate)
    with ty that have "rtype ((reg_vals s G @ qs) ! i) = ?ts ! i" by (metis nth_map)
    then show ?thesis using that fr(3,4) by simp
  qed
  ultimately have "edges_give z c \<tau> (f_phiNodes fr) (reg_vals z G @ qs)"
    using fr(3,4) unfolding edges_give_def surround_same(2) [OF ls] list_all2_conv_all_nth
    by (auto simp: list_all2_conv_all_nth)
  moreover have "cx_fragMap z lab = Some fr" using ls fr(1) by (simp add: surround_def)
  ultimately have ar: "arrives z oc (c, [(m, Br b)], \<tau>)"
    using b 2(3) kn by (auto simp: oc known_def)
  have "bb_insts (ir_blocks z c) = bb_insts (ir_blocks s c) @ (ins1 @ ins2) @ [(m, Br b)]"
    using z 3(1) 2(1) 1(1) st(2) by (simp add: settled_def region_def emits_def)
  moreover have "flow z (c, (ins1 @ ins2) @ [(m, Br b)], \<sigma>) (c, [(m, Br b)], \<tau>)"
    by (rule flow_exec) (simp add: exec_append 1(2) 2(2))
  ultimately show "follows z c (bb_insts (ir_blocks s c)) \<sigma> oc"
    unfolding follows_def using ar by blast
qed

section \<open>Calls\<close>

lemma runs_setup_args:
  assumes "list_all2 (computes s0 \<sigma>0 R M) es rs" "ready_for s0 \<sigma>0 R M \<Gamma> s \<sigma>"
    "drop i (ft_params ft) = ts" "length ts = length es" "those (map2 as_ty ts rs) = Some qs"
    and Q: "\<And>vs \<Gamma>' t \<tau>. ready_for s0 \<sigma>0 R M \<Gamma>' t \<tau> \<Longrightarrow> set \<Gamma> \<subseteq> set \<Gamma>' \<Longrightarrow>
      list_all2 (\<lambda>v q. (v, q) \<in> set \<Gamma>') vs qs \<Longrightarrow> Q vs t \<tau>"
  shows "runs (setup_args ft i es) s \<sigma> Q"
  using assms
proof (induction es arbitrary: i rs \<Gamma> s \<sigma> ts qs Q)
  case Nil
  then show ?case by (auto intro!: runs_return)
next
  case (Cons e es)
  obtain r rs' where rs: "rs = r # rs'" "computes s0 \<sigma>0 R M e r" "list_all2 (computes s0 \<sigma>0 R M) es rs'"
    using Cons.prems(1) by (auto simp: list_all2_Cons1)
  obtain ty ts' where ts: "ts = ty # ts'" using Cons.prems(4) by (cases ts) auto
  obtain q qs' where q: "qs = q # qs'" "as_ty ty r = Some q" "those (map2 as_ty ts' rs') = Some qs'"
    using Cons.prems(5) by (auto simp: ts rs split: option.splits)
  have i: "i < length (ft_params ft)" using Cons.prems(3) ts by (metis drop_all leI list.distinct(1))
  with Cons.prems(3) have ps: "ft_params ft ! i = ty" "drop (i + 1) (ft_params ft) = ts'"
    by (simp_all add: ts Cons_nth_drop_Suc [symmetric])
  have one: "cnth (ft_params ft) i = creturn ty" using i ps(1) by (simp add: cnth_def)
  show ?case
    unfolding setup_args.simps one
  proof (rule runs_bind, rule computesD [OF rs(2) Cons.prems(2)], rule runs_bind, rule runs_return,
      rule runs_bind)
    fix v t \<tau> assume k: "ready_for s0 \<sigma>0 R M ((v, r) # \<Gamma>) t \<tau>"
    then have "known s0 \<sigma>0 R M ((v, r) # \<Gamma>) t \<tau>" by (simp add: ready_for_def)
    then have "runs (coerce_arg ty v) t \<tau> (\<lambda>w. known s0 \<sigma>0 R M ((w, q) # (v, r) # \<Gamma>))"
      by (rule step_coerce [OF _ _ q(2)]) simp
    then have "runs (coerce_arg ty v) t \<tau> (\<lambda>w. ready_for s0 \<sigma>0 R M ((w, q) # (v, r) # \<Gamma>))"
      by (rule runs_tidy [OF _ tidy.keeps_coerce_arg k])
    then show "runs (coerce_arg ty v) t \<tau> (\<lambda>x t \<tau>. runs
        (cbind (setup_args ft (i + 1) es) (\<lambda>args. creturn (x # args))) t \<tau> Q)"
    proof (rule runs_mono)
      fix w t' \<tau>' assume k': "ready_for s0 \<sigma>0 R M ((w, q) # (v, r) # \<Gamma>) t' \<tau>'"
      have len: "length ts' = length es" using Cons.prems(4) ts by simp
      show "runs (cbind (setup_args ft (i + 1) es) (\<lambda>args. creturn (w # args))) t' \<tau>' Q"
        by (rule runs_bind, rule Cons.IH [OF rs(3) k' ps(2) len q(3)], rule runs_return)
          (auto intro!: Cons.prems(6) simp: q(1))
    qed
  qed
qed

lemma createFnTy_params:
  assumes "createFnTy k tys u = Inr (ft, u)" "stage S u"
  shows "\<And>n. k \<noteq> frag_kind_other n"
    "drop (numMachineRegs (cx_regInfo u) + n_unused k) (ft_params ft) = tys"
proof -
  obtain info where info: "getArgInfo k u = Inr (info, u)" and
    ft: "ft_params ft = replicate (nExtra info) PtrTy @
      (if nBasePtr info \<noteq> 0 then [cx_intTy u] else []) @ replicate (nUnused info) mlValueTy @ tys"
    using assms(1) unfolding createFnTy_eq by auto
  obtain cl where cl: "cx_curCluster u = Some cl" "\<not> usesBasePtr (cx_regInfo u)"
    using assms(2) by (auto simp: stage_def)
  show k: "k \<noteq> frag_kind_other n" for n
    using info by (auto simp: getArgInfo_def cbind_def cget_def cfail_def)
  have "info = \<lparr>nExtra = numMachineRegs (cx_regInfo u), nBasePtr = 0, nUnused = n_unused k\<rparr>"
    using info cl k by (cases k) (auto simp: getArgInfo_def cbind_def cget_def creturn_def n_unused_def)
  then show "drop (numMachineRegs (cx_regInfo u) + n_unused k) (ft_params ft) = tys"
    by (simp add: ft)
qed

text \<open>The call and the return, after the arguments.\<close>

lemma leave_run:
  assumes st: "stage S u" "ir_insert u = Some c" and m: "matched \<rho> G u \<sigma>"
    and ft: "createFnTy k (map lty_of tys) u = Inr (ft, u)"
    and rs: "evals \<rho> (rv_mem \<sigma>) args = Some rs" "pass tys rs = Some qs"
    and run: "cbind (SetupStdArgs ft k args) (\<lambda>vs.
      cbind (createJWACall ft fn vs) (\<lambda>_. ir_exec RetVoid)) u = Inr ((), t)"
  shows "\<exists>ins \<tau> m n ra us as. bb_insts (ir_blocks t c) = bb_insts (ir_blocks u c) @ ins @
      [(m, Call ft fn (ra @ us @ as) CC_JWA TCK_Tail), (n, RetVoid)] \<and>
    exec \<sigma> ins = Some \<tau> \<and> rv_mem \<tau> = rv_mem \<sigma> \<and> vevals \<tau> ra = Some (reg_vals u G) \<and>
    length us = n_unused k \<and> vevals \<tau> as = Some qs \<and> (\<forall>v r. holds u \<sigma> v r \<longrightarrow> veval \<tau> v = Some r)"
proof -
  let ?R = "rs_get (cx_regState u)" and ?n = "numMachineRegs (cx_regInfo u)"
  let ?ra = "map (reg_val u) [0..<?n]" and ?us = "replicate (n_unused k) (VUndef mlValueTy)"
  note ps = createFnTy_params [OF ft st(1)]
  note extra = createArgs_regs [OF st(1) m ps(1)]
  have c: "caches_ok u" "ir_module u \<noteq> None" using st(1) by (auto simp: stage_def base_ok_def sp_ok_def)
  have "env_holds \<rho> u \<sigma>" using m by (simp add: matched_def)
  then have cs: "list_all2 (computes u \<sigma> ?R (rv_mem \<sigma>)) args rs"
    using those_all2 [OF rs(1)] exp_computes [OF _ _ c] by (auto elim: list_all2_mono)
  obtain \<Gamma> where g: "ready_for u \<sigma> ?R (rv_mem \<sigma>) \<Gamma> u \<sigma>" using known_begin [OF st(1) m] by blast
  have pass: "length (map lty_of tys) = length args" "those (map2 as_ty (map lty_of tys) rs) = Some qs"
    using rs(2) list_all2_lengthD [OF cs] by (simp_all add: pass_def split: if_splits)
  have "runs (setup_args ft (?n + n_unused k) args) u \<sigma> (\<lambda>vs w \<tau>. \<exists>\<Gamma>'.
      known u \<sigma> ?R (rv_mem \<sigma>) \<Gamma>' w \<tau> \<and> list_all2 (\<lambda>v q. (v, q) \<in> set \<Gamma>') vs qs)"
    by (rule runs_setup_args [OF cs g ps(2) pass]) (auto simp: ready_for_def)
  then obtain as w ins \<tau> \<Gamma>' where w: "setup_args ft (?n + n_unused k) args u = Inr (as, w)"
      "emits u ins w" "exec \<sigma> ins = Some \<tau>"
    and kn: "known u \<sigma> ?R (rv_mem \<sigma>) \<Gamma>' w \<tau>" and as: "list_all2 (\<lambda>v q. (v, q) \<in> set \<Gamma>') as qs"
    unfolding runs_def by blast
  have lt: "later u \<sigma> w \<tau>" using kn by (simp add: known_def)
  then have "ir_insert w = Some c" using st(2) by (simp add: later_def still_def kept_def)
  moreover have "cbind (createJWACall ft fn (?ra @ ?us @ as)) (\<lambda>_. ir_exec RetVoid) w = Inr ((), t)"
    using run by (simp add: SetupStdArgs_def cbind_def extra(1) w(1) creturn_def)
  ultimately obtain m n where 1: "bb_insts (ir_blocks t c) = bb_insts (ir_blocks w c) @
      [(m, Call ft fn (?ra @ ?us @ as) CC_JWA TCK_Tail), (n, RetVoid)]"
    by (auto elim!: cbind_InrE dest!: ir_append_Some simp: createJWACall_def ir_exec_def creturn_def)
  have "list_all2 (holds w \<tau>) ?ra (reg_vals u G)"
    by (rule list_all2_mono [OF extra(2)]) (rule holds_later [OF _ lt])
  moreover have "list_all2 (holds w \<tau>) as qs"
    by (rule list_all2_mono [OF as]) (rule known_holds [OF kn])
  moreover have "veval \<tau> v = Some r" if "holds u \<sigma> v r" for v r
    using holds_later [OF that lt] by (simp add: holds_def)
  ultimately show ?thesis
    using 1 w(2,3) kn st(2)
    by (intro exI [of _ ins] exI [of _ \<tau>] exI [of _ m] exI [of _ n] exI [of _ ?ra] exI [of _ ?us] exI [of _ as])
      (simp add: emits_def known_def vevals_holds)
qed

text \<open>Where the call goes.\<close>

definition aims ::
  "sigs \<Rightarrow> (lvar \<Rightarrow> rval option) \<Rightarrow> regs \<Rightarrow> cgctx \<Rightarrow> rstate \<Rightarrow> frag_kind \<Rightarrow> dest \<Rightarrow> ty list \<Rightarrow> fnty \<Rightarrow>
    value \<Rightarrow> cgctx \<Rightarrow> bool" where
  "aims S \<rho> G s \<sigma> k d tys ft fn u \<longleftrightarrow>
     (\<exists>ins \<tau>. emits s ins u \<and> exec \<sigma> ins = Some \<tau> \<and> rv_mem \<tau> = rv_mem \<sigma> \<and> matched \<rho> G u \<tau> \<and> stage S u \<and>
        createFnTy k (map lty_of tys) u = Inr (ft, u) \<and>
        (case d of
           Entry lab \<Rightarrow> \<exists>cl f. cx_clusterMap u lab = Some cl \<and> c_fn cl = Some f \<and> fn = VFn f
         | Address p \<Rightarrow> holds u \<tau> fn (RP p)))"

lemma sim_leave:
  assumes l: "launch S k s c" and run: "stm_codegen k s = Inr ((), t)" and inner: "inner_blocks k = []"
    and a: "aims S \<rho> G s \<sigma> fk d tys ft fn u"
    and call: "cbind (SetupStdArgs ft fk args) (\<lambda>vs.
      cbind (createJWACall ft fn vs) (\<lambda>_. ir_exec RetVoid)) u = Inr ((), t)"
    and rs: "evals \<rho> (rv_mem \<sigma>) args = Some rs" "pass tys rs = Some qs"
    and z: "settled t z (region s t c (inner_blocks k))"
  shows "follows z c (bb_insts (ir_blocks s c)) \<sigma> (Leave fk d qs G (rv_mem \<sigma>))"
proof -
  obtain ins1 \<tau>1 where 1: "emits s ins1 u" "exec \<sigma> ins1 = Some \<tau>1" "rv_mem \<tau>1 = rv_mem \<sigma>"
    "matched \<rho> G u \<tau>1" "stage S u" "createFnTy fk (map lty_of tys) u = Inr (ft, u)"
    and d: "case d of Entry lab \<Rightarrow> \<exists>cl f. cx_clusterMap u lab = Some cl \<and> c_fn cl = Some f \<and> fn = VFn f
      | Address p \<Rightarrow> holds u \<tau>1 fn (RP p)"
    using a unfolding aims_def by blast
  have iu: "ir_insert u = Some c" "ir_insert s = Some c" "kept s u"
    using 1(1) l by (simp_all add: emits_def still_def kept_def launch_def)
  obtain ins2 \<tau> m n ra us as where 2: "bb_insts (ir_blocks t c) = bb_insts (ir_blocks u c) @ ins2 @
      [(m, Call ft fn (ra @ us @ as) CC_JWA TCK_Tail), (n, RetVoid)]"
    "exec \<tau>1 ins2 = Some \<tau>" "rv_mem \<tau> = rv_mem \<tau>1" "vevals \<tau> ra = Some (reg_vals u G)"
    "length us = n_unused fk" "vevals \<tau> as = Some qs" "\<forall>v r. holds u \<tau>1 v r \<longrightarrow> veval \<tau> v = Some r"
    using leave_run [OF 1(5) iu(1) 1(4,6) _ rs(2) call] rs(1) 1(3) by auto
  let ?fin = "[(m, Call ft fn (ra @ us @ as) CC_JWA TCK_Tail), (n, RetVoid)]"
  have sz: "surround s z" by (rule settled_surround [OF run z])
  have su: "surround s u" by (rule kept_surround [OF iu(3)])
  have "callee_is z \<tau> d fn"
    using d sz su 2(7) by (cases d) (auto simp: callee_is_def surround_def)
  moreover have "reg_vals u G = reg_vals z G" using surround_same(2) sz su by metis
  ultimately have "arrives z (Leave fk d qs G (rv_mem \<sigma>)) (c, ?fin, \<tau>)"
    using 1(3) 2(3-6) by auto
  moreover have "bb_insts (ir_blocks z c) = bb_insts (ir_blocks s c) @ (ins1 @ ins2) @ ?fin"
    using z 2(1) 1(1) iu(2) by (simp add: settled_def region_def emits_def)
  moreover have "flow z (c, (ins1 @ ins2) @ ?fin, \<sigma>) (c, ?fin, \<tau>)"
    by (rule flow_exec) (simp add: exec_append 1(2) 2(2))
  ultimately show ?thesis unfolding follows_def by (metis append.assoc)
qed

section \<open>The callee\<close>

lemma genTypes_lty: "ctx_ok s \<Longrightarrow> genTypes tys s = Inr (map lty_of tys, s)"
  unfolding genTypes_def
  by (rule cmap_reads) (auto simp: ty_codegen_def lty_of_def creturn_def cget_def ctx_ok_def split: ty.split)

lemma aims_label:
  assumes "stage S s" "matched \<rho> G s \<sigma>" "sg_fn S lab = Some (k, tys)"
  obtains cl en f where "cx_clusterMap s lab = Some cl" "cluster_entry cl = Some en" "f_kind en = k"
    "c_fn cl = Some f" "f < length (ir_fns s)"
    "aims S \<rho> G s \<sigma> k (Entry lab) tys (fn_ty (ir_fns s ! f)) (VFn f) s"
proof -
  have "fn_known s lab k tys" using assms(1,3) by (simp add: stage_def sigs_hold_def)
  then obtain cl en f where f: "cx_clusterMap s lab = Some cl" "cluster_entry cl = Some en" "f_kind en = k"
    "c_fn cl = Some f" "f < length (ir_fns s)"
    "createFnTy k (map lty_of tys) s = Inr (fn_ty (ir_fns s ! f), s)"
    unfolding fn_known_def by blast
  have "aims S \<rho> G s \<sigma> k (Entry lab) tys (fn_ty (ir_fns s ! f)) (VFn f) s"
    unfolding aims_def using f(1,4,6) assms(1,2)
    by (intro exI [of _ "[]"] exI [of _ \<sigma>]) (simp add: emits_nothing)
  with f(1-5) show thesis by (rule that)
qed

text \<open>A call through an address.\<close>

definition through :: "frag_kind \<Rightarrow> exp \<Rightarrow> ty list \<Rightarrow> (fnty \<times> value) cx" where
  "through k e tys =
     cbind (cbind (genTypes tys) (createFnTy k)) (\<lambda>ft.
     cbind (cbind (exp_codegen e) (\<lambda>v. createBitCast v PtrTy)) (\<lambda>f. creturn (ft, f)))"

lemma through_codegen:
  assumes "\<And>lab. e \<noteq> LABEL lab"
  shows "THROW_callee e tys = through STD_CONT e tys"
    "APPLY_callee e tys = cbind (through STD_FUN e tys) (\<lambda>(ft, f). creturn (STD_FUN, ft, f))"
  using assms
  by (cases e; simp add: THROW_callee_def APPLY_callee_def through_def cbind_assoc)+

lemma aims_through:
  assumes st: "stage S s" and m: "matched \<rho> G s \<sigma>" and e: "exp_eval \<rho> (rv_mem \<sigma>) e = Some (RP p)"
    and run: "through k e tys s = Inr ((ft, fn), u)"
  shows "aims S \<rho> G s \<sigma> k (Address p) tys ft fn u"
proof -
  let ?R = "rs_get (cx_regState s)" and ?m = "cbind (exp_codegen e) (\<lambda>v. createBitCast v PtrTy)"
  have ok: "ctx_ok s" using st by (simp add: stage_def)
  from run obtain s' where ft: "createFnTy k (map lty_of tys) s = Inr (ft, s')"
    and fn: "?m s' = Inr (fn, u)"
    unfolding through_def
    by (elim cbind_InrE [where m = "cbind (genTypes tys) (createFnTy k)"] cbind_InrE [where m = ?m])
      (auto elim!: cbind_InrE [where m = "genTypes tys"] simp: genTypes_lty [OF ok] creturn_def)
  have [simp]: "s' = s" using ft by (auto simp: createFnTy_eq)
  have "runs ?m s \<sigma> (\<lambda>v t \<tau>. \<exists>\<Gamma>. ready_for s \<sigma> ?R (rv_mem \<sigma>) \<Gamma> t \<tau> \<and> has_regs s ?R G \<Gamma> \<and> (v, RP p) \<in> set \<Gamma>)"
  proof (rule runs_bind, rule runs_mono [OF exp_run [OF st m e]])
    fix v t \<tau>
    assume "\<exists>\<Gamma>. ready_for s \<sigma> ?R (rv_mem \<sigma>) \<Gamma> t \<tau> \<and> has_regs s ?R G \<Gamma> \<and> (v, RP p) \<in> set \<Gamma>"
    then obtain \<Gamma> where k: "ready_for s \<sigma> ?R (rv_mem \<sigma>) \<Gamma> t \<tau>" "has_regs s ?R G \<Gamma>" "(v, RP p) \<in> set \<Gamma>" by blast
    then have "known s \<sigma> ?R (rv_mem \<sigma>) \<Gamma> t \<tau>" by (simp add: ready_for_def)
    then show "runs (createBitCast v PtrTy) t \<tau> (\<lambda>v t \<tau>. \<exists>\<Gamma>. ready_for s \<sigma> ?R (rv_mem \<sigma>) \<Gamma> t \<tau> \<and>
        has_regs s ?R G \<Gamma> \<and> (v, RP p) \<in> set \<Gamma>)"
      by (rule step_bitcast [OF _ k(3)]) (use k in blast)
  qed
  then obtain ins \<tau> \<Gamma> where 1: "emits s ins u" "exec \<sigma> ins = Some \<tau>"
    and k: "ready_for s \<sigma> ?R (rv_mem \<sigma>) \<Gamma> u \<tau>" "has_regs s ?R G \<Gamma>" "(fn, RP p) \<in> set \<Gamma>"
    using fn unfolding runs_def by auto
  have kn: "known s \<sigma> ?R (rv_mem \<sigma>) \<Gamma> u \<tau>" "cx_vMap u = cx_vMap s"
    using k(1) by (simp_all add: ready_for_def)
  have pl: "plain {} ?m" unfolding createBitCast_def by (intro frame_intros)
  have p: "plain_step {} s u" by (rule keepsD [OF pl]) (use fn in simp)
  have ku: "kept s u" using 1(1) by (simp add: emits_def still_def)
  have "stage S u"
    by (rule stage_step [OF st]) (use p ku st in \<open>auto simp: plain_step_def kept_def stage_def ctx_ok_def\<close>)
  moreover have "matched \<rho> G u \<tau>" by (rule matched_after [OF m kn(1) k(2) kn(2)])
  moreover have "createFnTy k (map lty_of tys) u = Inr (ft, u)" by (rule createFnTy_kept [OF ku ft])
  ultimately show ?thesis
    unfolding aims_def using 1 kn(1) known_holds [OF kn(1) k(3)]
    by (intro exI [of _ ins] exI [of _ \<tau>]) (simp add: known_def)
qed

lemma dest_cases:
  assumes "dest_eval S \<rho> M kind e tys = Some (k, d, ts)"
  obtains lab where "e = LABEL lab" "d = Entry lab" "sg_fn S lab = Some (k, ts)"
      "kind = STD_CONT \<Longrightarrow> k = STD_CONT"
  | p where "\<And>lab. e \<noteq> LABEL lab" "exp_eval \<rho> M e = Some (RP p)" "d = Address p" "k = kind" "ts = tys"
proof (cases "\<exists>lab. e = LABEL lab")
  case True
  with assms that(1) show thesis by (auto simp: dest_eval_def split: option.splits if_splits)
next
  case False
  then have "dest_eval S \<rho> M kind e tys =
      (case exp_eval \<rho> M e of Some (RP p) \<Rightarrow> Some (kind, Address p, tys) | _ \<Rightarrow> None)"
    by (cases e) (simp_all add: dest_eval_def)
  with assms False that(2) show thesis by (auto split: option.splits rval.splits)
qed

lemma leave_cases:
  assumes "leave S \<rho> G M kind f args tys = Some oc"
  obtains k d ts rs qs where "dest_eval S \<rho> M kind f tys = Some (k, d, ts)" "evals \<rho> M args = Some rs"
    "pass ts rs = Some qs" "oc = Leave k d qs G M"
  using assms by (auto simp: leave_def split: option.splits)

lemma sim_APPLY: "simulates S (APPLY n f args tys)"
  unfolding simulates_def
proof (intro allI impI)
  fix \<rho> G and s t :: cgctx and c \<sigma> z oc
  let ?k = "APPLY n f args tys"
  assume l: "launch S ?k s c" and run: "stm_codegen ?k s = Inr ((), t)"
    and m: "matched \<rho> G s \<sigma>" and ev: "stm_eval S \<rho> G (rv_mem \<sigma>) ?k = Some oc"
    and z: "settled t z (region s t c (inner_blocks ?k))"
  have st: "stage S s" using l by (simp add: launch_def)
  obtain k d ts rs qs where r: "dest_eval S \<rho> (rv_mem \<sigma>) STD_FUN f tys = Some (k, d, ts)"
    "evals \<rho> (rv_mem \<sigma>) args = Some rs" "pass ts rs = Some qs" and oc: "oc = Leave k d qs G (rv_mem \<sigma>)"
    using ev by (auto elim: leave_cases)
  obtain k' ft fn u where callee: "APPLY_callee f tys s = Inr ((k', ft, fn), u)"
    and call: "cbind (SetupStdArgs ft k' args) (\<lambda>vs.
      cbind (createJWACall ft fn vs) (\<lambda>_. ir_exec RetVoid)) u = Inr ((), t)"
    using run unfolding stm_codegen.simps APPLY_codegen_def
    by (auto elim!: cbind_InrE [where m = "APPLY_callee f tys"] cthen_InrE dest: check_nargs_reads)
  from r(1) have "k' = k \<and> aims S \<rho> G s \<sigma> k d ts ft fn u"
  proof (cases rule: dest_cases)
    case (1 lab)
    from aims_label [OF st m 1(3)] obtain cl en g where "cx_clusterMap s lab = Some cl"
      "cluster_entry cl = Some en" "f_kind en = k" "c_fn cl = Some g" "g < length (ir_fns s)"
      "aims S \<rho> G s \<sigma> k (Entry lab) ts (fn_ty (ir_fns s ! g)) (VFn g) s" .
    with callee show ?thesis
      by (auto elim!: cbind_InrE simp: 1 APPLY_callee_def lookupCluster_def cluster_fn_def fn_type_def
          cnth_def cthe_def cget_def creturn_def)
  next
    case (2 p)
    with callee have "through STD_FUN f tys s = Inr ((ft, fn), u)" "k' = STD_FUN"
      by (auto elim!: cbind_InrE simp: through_codegen(2) creturn_def)
    with aims_through [OF st m 2(2)] 2 show ?thesis by simp
  qed
  then show "follows z c (bb_insts (ir_blocks s c)) \<sigma> oc"
    using sim_leave [OF l run _ _ call r(2,3) z] by (simp add: oc)
qed

lemma sim_THROW: "simulates S (THROW n f args tys)"
  unfolding simulates_def
proof (intro allI impI)
  fix \<rho> G and s t :: cgctx and c \<sigma> z oc
  let ?k = "THROW n f args tys"
  assume l: "launch S ?k s c" and run: "stm_codegen ?k s = Inr ((), t)"
    and m: "matched \<rho> G s \<sigma>" and ev: "stm_eval S \<rho> G (rv_mem \<sigma>) ?k = Some oc"
    and z: "settled t z (region s t c (inner_blocks ?k))"
  have st: "stage S s" using l by (simp add: launch_def)
  obtain k d ts rs qs where r: "dest_eval S \<rho> (rv_mem \<sigma>) STD_CONT f tys = Some (k, d, ts)"
    "evals \<rho> (rv_mem \<sigma>) args = Some rs" "pass ts rs = Some qs" and oc: "oc = Leave k d qs G (rv_mem \<sigma>)"
    using ev by (auto elim: leave_cases)
  obtain ft fn u where callee: "THROW_callee f tys s = Inr ((ft, fn), u)"
    and call: "cbind (SetupStdArgs ft STD_CONT args) (\<lambda>vs.
      cbind (createJWACall ft fn vs) (\<lambda>_. ir_exec RetVoid)) u = Inr ((), t)"
    using run unfolding stm_codegen.simps THROW_codegen_def
    by (auto elim!: cbind_InrE [where m = "THROW_callee f tys"] cthen_InrE dest: check_nargs_reads)
  from r(1) have "k = STD_CONT \<and> aims S \<rho> G s \<sigma> k d ts ft fn u"
  proof (cases rule: dest_cases)
    case (1 lab)
    from aims_label [OF st m 1(3)] obtain cl en g where "cx_clusterMap s lab = Some cl"
      "cluster_entry cl = Some en" "f_kind en = k" "c_fn cl = Some g" "g < length (ir_fns s)"
      "aims S \<rho> G s \<sigma> k (Entry lab) ts (fn_ty (ir_fns s ! g)) (VFn g) s" .
    with callee 1(4) show ?thesis
      by (auto elim!: cbind_InrE simp: 1(1,2) THROW_callee_def lookupCluster_def cluster_fn_def fn_type_def
          cnth_def cthe_def cget_def creturn_def)
  next
    case (2 p)
    with callee have "through STD_CONT f tys s = Inr ((ft, fn), u)" by (simp add: through_codegen(1))
    with aims_through [OF st m 2(2)] 2 show ?thesis by simp
  qed
  then have k: "k = STD_CONT" and a: "aims S \<rho> G s \<sigma> STD_CONT d ts ft fn u" by auto
  show "follows z c (bb_insts (ir_blocks s c)) \<sigma> oc"
    unfolding oc k by (rule sim_leave [OF l run _ a call r(2,3) z]) simp
qed

section \<open>All statements\<close>

theorem stm_simulates: "simulates S k"
proof (induction k rule: inner_blocks.induct)
  case (1 b e p k)
  then show ?case by (rule sim_LET)
next
  case (2 b a es x k)
  then show ?case by (rule sim_ALLOC)
next
  case (3 b e arms)
  then show ?case by (rule sim_SWITCH)
next
  case (4 b br es prob k1 k2)
  then show ?case by (rule sim_BRANCH)
next
  case (5 b a es p k)
  then show ?case by (rule sim_ARITH)
next
  case (6 b op es k)
  then show ?case by (rule sim_SETTER)
next
  case (7 b roots newRoots k)
  then show ?case by (simp add: simulates_def)
next
  case (8 b reentrant linkage proto args results live k)
  then show ?case by (simp add: simulates_def)
next
  case "9_1"
  then show ?case by (rule sim_APPLY)
next
  case "9_2"
  then show ?case by (rule sim_THROW)
next
  case "9_3"
  then show ?case by (rule sim_GOTO)
qed

end
