(* ===== verification/Frag_Init.thy ===== *)
theory Frag_Init
  imports Cluster_Sem Sim_Leaves
begin

text \<open>
  Initialisation of the fragments of a cluster: what it gives a fragment, and that this is all it
  changes.
\<close>

section \<open>Phi nodes\<close>

definition phi_insts :: "nat list \<Rightarrow> lty list \<Rightarrow> (nat \<times> instr) list" where
  "phi_insts ns ts = map2 (\<lambda>n t. (n, Phi t)) ns ts"

lemma phi_insts_phi: "length ns = length ts \<Longrightarrow> map fst (phi_insts ns ts) = ns"
  "ni \<in> set (phi_insts ns ts) \<Longrightarrow> is_phi ni"
  by (simp add: phi_insts_def comp_def case_prod_unfold) (auto simp: phi_insts_def is_phi_def)

lemma create_phis:
  assumes "cmap CreatePHI ts s = Inr (ps, t)" "ir_insert s = Some b"
    "ns = [ir_nvals s..<ir_nvals s + length ts]"
  shows "ps = map2 VInst ns ts \<and>
    t = s\<lparr>ir_nvals := ir_nvals s + length ts, ir_blocks := (ir_blocks s)(b := (ir_blocks s b)
      \<lparr>bb_insts := bb_insts (ir_blocks s b) @ phi_insts ns ts\<rparr>)\<rparr>"
  using assms
proof (induction ts arbitrary: s ps ns)
  case Nil
  then show ?case by (simp add: creturn_def phi_insts_def)
next
  case (Cons ty ts)
  from Cons.prems obtain p u ps' where "CreatePHI ty s = Inr (p, u)"
    and 2: "cmap CreatePHI ts u = Inr (ps', t)" and ps: "ps = p # ps'"
    by (auto elim!: cbind_InrE simp: creturn_def)
  then have 1: "ir_append (Phi ty) s = Inr (p, u)" by (simp add: CreatePHI_def)
  have u: "p = VInst (ir_nvals s) ty" "u = s\<lparr>ir_nvals := ir_nvals s + 1,
      ir_blocks := (ir_blocks s)(b := (ir_blocks s b)
        \<lparr>bb_insts := bb_insts (ir_blocks s b) @ [(ir_nvals s, Phi ty)]\<rparr>)\<rparr>"
    using ir_append_Some [OF 1] Cons.prems(2) by auto
  define ms where "ms = [ir_nvals u..<ir_nvals u + length ts]"
  have "ir_insert u = Some b" using Cons.prems(2) by (simp add: u)
  note IH = Cons.IH [OF 2 this ms_def]
  have ns: "ns = ir_nvals s # ms"
    unfolding Cons.prems(3) ms_def by (simp add: u upt_conv_Cons del: upt_Suc)
  show ?case
    using IH unfolding ps ns by (simp add: u phi_insts_def cong: if_cong)
qed

section \<open>Fragments\<close>

text \<open>The types of the phi nodes of a fragment: the registers, and the parameters.\<close>

definition phi_types :: "cgctx \<Rightarrow> frag \<Rightarrow> lty list" where
  "phi_types s fr =
     (if f_kind fr = INTERNAL then
        replicate (length (machine_ids s)) PtrTy @ map lty_of (param_types fr)
      else [])"

text \<open>Nothing but these has changed.\<close>

definition changed :: "cgctx \<Rightarrow> (lvar \<Rightarrow> frag option) \<Rightarrow> cgctx \<Rightarrow> bool" where
  "changed s m t \<longleftrightarrow>
     t = s\<lparr>ir_nvals := ir_nvals t, ir_nblocks := ir_nblocks t, ir_blocks := ir_blocks t,
       ir_insert := ir_insert t, cx_fragMap := m\<rparr>"

lemma changedE:
  assumes "changed s m t"
  obtains a b c d where "t = s\<lparr>ir_nvals := a, ir_nblocks := b, ir_blocks := c, ir_insert := d, cx_fragMap := m\<rparr>"
  using assms unfolding changed_def by blast

lemma changed_trans:
  assumes "changed s m t" "changed t m' u"
  shows "changed s m' u"
proof -
  obtain a b c d where t: "t = s\<lparr>ir_nvals := a, ir_nblocks := b, ir_blocks := c, ir_insert := d, cx_fragMap := m\<rparr>"
    using assms(1) by (rule changedE)
  obtain a' b' c' d' where "u = t\<lparr>ir_nvals := a', ir_nblocks := b', ir_blocks := c', ir_insert := d', cx_fragMap := m'\<rparr>"
    using assms(2) by (rule changedE)
  then show ?thesis by (simp add: changed_def t)
qed

lemma changed_map: "changed s m t \<Longrightarrow> cx_fragMap t = m"
  by (erule changedE) simp

lemma changed_same: "changed s m t \<Longrightarrow> changed s (cx_fragMap t) t"
  using changed_map by blast

text \<open>A fragment with its body initialised and these phi nodes.\<close>

definition initialised :: "frag \<Rightarrow> value list \<Rightarrow> frag \<Rightarrow> bool" where
  "initialised fr phis fr' \<longleftrightarrow>
     f_kind fr' = f_kind fr \<and> f_lab fr' = f_lab fr \<and> f_params fr' = f_params fr \<and>
     erase (f_body fr') = erase (f_body fr) \<and> f_phiNodes fr' = phis"

definition framed :: "frag \<Rightarrow> frag \<Rightarrow> cgctx \<Rightarrow> cgctx \<Rightarrow> bool" where
  "framed fr fr' s t \<longleftrightarrow>
     (let ns = [ir_nvals s..<ir_nvals t] in
      initialised fr (map2 VInst ns (phi_types s fr)) fr' \<and>
      stm_bb (f_body fr') = Some (ir_nblocks s) \<and>
      frag_blocks fr' = [ir_nblocks s..<ir_nblocks t] \<and> length ns = length (phi_types s fr) \<and>
      ir_nvals s \<le> ir_nvals t \<and> ir_nblocks s < ir_nblocks t \<and>
      bb_insts (ir_blocks t (ir_nblocks s)) = phi_insts ns (phi_types s fr) \<and>
      (\<forall>b. ir_nblocks s < b \<longrightarrow> b < ir_nblocks t \<longrightarrow> bb_insts (ir_blocks t b) = []) \<and>
      (\<forall>b<ir_nblocks s. ir_blocks t b = ir_blocks s b) \<and>
      changed s (map_insert fr' (f_lab fr) (cx_fragMap s)) t)"

definition init_ok :: "cgctx \<Rightarrow> bool" where
  "init_ok s \<longleftrightarrow>
     cx_intTy s = i64Ty \<and> cx_curFn s \<noteq> None \<and> cx_curCluster s \<noteq> None \<and> \<not> usesBasePtr (cx_regInfo s)"

lemma internal_types:
  assumes "init_ok s"
  shows "createParamTys INTERNAL n s = Inr (replicate (length (machine_ids s)) PtrTy, s)"
    "cmap (\<lambda>p. ty_codegen (p_ty p)) ps s = Inr (map (\<lambda>p. lty_of (p_ty p)) ps, s)"
proof -
  show "createParamTys INTERNAL n s = Inr (replicate (length (machine_ids s)) PtrTy, s)"
    using assms by (auto simp: init_ok_def createParamTys_def addExtraParamTys_def getArgInfo_def
        cbind_def cget_def creturn_def machine_ids_def)
  show "cmap (\<lambda>p. ty_codegen (p_ty p)) ps s = Inr (map (\<lambda>p. lty_of (p_ty p)) ps, s)"
    by (rule cmap_reads)
      (use assms in \<open>auto simp: ty_codegen_def lty_of_def creturn_def cget_def init_ok_def split: ty.split\<close>)
qed

lemma frag_init_framed:
  assumes run: "frag_init fr s = Inr (fr', t)" and ok: "init_ok s"
  shows "framed fr fr' s t"
proof -
  from run obtain body bb u v ps w where
    1: "stm_init (f_body fr) True s = Inr (body, u)" and b: "stm_bb body = Some bb"
    and 2: "set_bb_name bb (''L_'' @ lvar_string (f_lab fr)) u = Inr ((), v)"
    and 3: "(if f_kind fr = INTERNAL then
          cbind (createParamTys (f_kind fr) (length (f_params fr))) (\<lambda>tys.
          cbind (cmap (\<lambda>p. ty_codegen (p_ty p)) (f_params fr)) (\<lambda>ptys.
          cthen (SetInsertPoint bb)
          (cmap CreatePHI (tys @ ptys))))
        else creturn []) v = Inr (ps, w)"
    and t: "t = w\<lparr>cx_fragMap := map_insert fr' (f_lab fr) (cx_fragMap w)\<rparr>"
    and fr': "fr' = fr\<lparr>f_body := body, f_phiNodes := ps\<rparr>"
    unfolding frag_init_def
    by (auto elim!: cbind_InrE cthen_InrE
        simp: bb_of_eq Let_def insertFrag_def cmodify_def creturn_def simp del: cmap.simps)
  have n: "added s u" "all_blocks body = [ir_nblocks s..<ir_nblocks u]"
    using stm_init_numbered [OF 1] by (simp_all add: numbered_def)
  have al: "all_blocks body = bb # inner_blocks body" by (simp add: all_blocks_def own_blocks_def b)
  with n(2) have nb: "bb = ir_nblocks s" "ir_nblocks s < ir_nblocks u"
    by (metis list.distinct(1) list.inject not_le upt_conv_Cons upt_conv_Nil)+
  have er: "erase body = erase (f_body fr)"
    using does_stm_init [of s "f_body fr" True] ok 1 by (auto simp: does_def inits_def init_ok_def)
  define N where "N = ir_nblocks u"
  define B where "B = (ir_blocks u)(bb := (ir_blocks u bb)\<lparr>bb_name := ''L_'' @ lvar_string (f_lab fr)\<rparr>)"
  have u: "u = s\<lparr>ir_nblocks := N, ir_blocks := ir_blocks u\<rparr>" using n(1) by (simp add: added_def N_def)
  have "v = u\<lparr>ir_blocks := B\<rparr>" using 2 by (simp add: set_bb_name_def cmodify_def B_def)
  also have "\<dots> = s\<lparr>ir_nblocks := N, ir_blocks := B\<rparr>" by (subst u) simp
  finally have v: "v = s\<lparr>ir_nblocks := N, ir_blocks := B\<rparr>" .
  have B: "\<forall>b<ir_nblocks s. B b = ir_blocks s b"
    "\<forall>b. ir_nblocks s \<le> b \<longrightarrow> b < N \<longrightarrow> bb_insts (B b) = []"
    using n(1) nb by (auto simp: added_def B_def N_def)
  have ok': "init_ok v" using ok by (simp add: v init_ok_def)
  have types: "phi_types v fr = phi_types s fr" by (simp add: v phi_types_def machine_ids_def)
  let ?ns = "[ir_nvals s..<ir_nvals w]" and ?ts = "phi_types s fr"
  have w: "ps = map2 VInst ?ns ?ts \<and> ir_nvals w = ir_nvals s + length ?ts \<and>
      (\<exists>i. w = v\<lparr>ir_nvals := ir_nvals w, ir_insert := i,
        ir_blocks := B(bb := (B bb)\<lparr>bb_insts := phi_insts ?ns ?ts\<rparr>)\<rparr>)"
  proof (cases "f_kind fr = INTERNAL")
    case True
    have ts: "replicate (length (machine_ids v)) PtrTy @ map (\<lambda>p. lty_of (p_ty p)) (f_params fr) = ?ts"
      using True types by (simp add: phi_types_def param_types_def comp_def)
    have "cmap CreatePHI ?ts (v\<lparr>ir_insert := Some bb\<rparr>) = Inr (ps, w)"
      using 3 True
      by (simp add: internal_types [OF ok'] ts cbind_def cthen_def SetInsertPoint_def cmodify_def del: cmap.simps)
    from create_phis [OF this _ refl] have p: "ps = map2 VInst [ir_nvals s..<ir_nvals s + length ?ts] ?ts"
      "w = v\<lparr>ir_nvals := ir_nvals s + length ?ts, ir_insert := Some bb, ir_blocks := B(bb := (B bb)
        \<lparr>bb_insts := bb_insts (B bb) @ phi_insts [ir_nvals s..<ir_nvals s + length ?ts] ?ts\<rparr>)\<rparr>"
      by (simp_all add: v)
    moreover have "bb_insts (B bb) = []" using B(2) nb N_def by simp
    ultimately show ?thesis by (intro conjI exI [of _ "Some bb"]) simp_all
  next
    case False
    then have "?ts = []" "w = v" "ps = []" using 3 by (simp_all add: creturn_def phi_types_def)
    moreover have "B(bb := (B bb)\<lparr>bb_insts := []\<rparr>) = B" using B(2) nb N_def by (auto simp: fun_eq_iff)
    ultimately show ?thesis by (intro conjI exI [of _ "ir_insert v"]) (simp_all add: phi_insts_def v)
  qed
  then obtain i where w: "ps = map2 VInst ?ns ?ts" "ir_nvals w = ir_nvals s + length ?ts"
    "w = v\<lparr>ir_nvals := ir_nvals w, ir_insert := i, ir_blocks := B(bb := (B bb)\<lparr>bb_insts := phi_insts ?ns ?ts\<rparr>)\<rparr>"
    by blast
  define W where "W = ir_nvals w"
  have T: "t = s\<lparr>ir_nvals := W, ir_nblocks := N, ir_insert := i,
      ir_blocks := B(bb := (B bb)\<lparr>bb_insts := phi_insts [ir_nvals s..<W] ?ts\<rparr>),
      cx_fragMap := map_insert fr' (f_lab fr) (cx_fragMap s)\<rparr>"
    unfolding t by (subst w(3), subst w(3)) (simp add: v W_def)
  have "W = ir_nvals s + length ?ts" using w(2) by (simp add: W_def)
  then show ?thesis
    using B nb er b n(2) w(1) by (simp add: framed_def changed_def initialised_def T fr' W_def [symmetric] N_def [symmetric] frag_blocks_def Let_def)
qed

section \<open>All fragments of a cluster\<close>

definition numbering :: "cgctx \<Rightarrow> cgctx \<Rightarrow> bool" where
  "numbering s t \<longleftrightarrow> (numbers_ok s \<longrightarrow> numbers_ok t)"

interpretation numbering: frame numbering
  by unfold_locales (auto simp: numbering_def)

lemma numbering_lasting: "keeps lasting m \<Longrightarrow> keeps numbering m"
  unfolding keeps_def numbering_def lasting_def by blast

lemma numbering_stm_init: "keeps numbering (stm_init k ent)"
proof (induction k ent rule: stm_init.induct)
qed (auto simp: initBB_def intro!: numbering.keeps_bind numbering.keeps_map numbering.keeps_return
    numbering_lasting [OF lasting_newBB])

lemma numbering_frag_init: "keeps numbering (frag_init fr)"
proof -
  have 1: "keeps numbering (set_bb_name b nm)" for b nm
    by (auto simp: set_bb_name_def keeps_def cmodify_def numbering_def numbers_ok_def)
  have 2: "keeps numbering (insertFrag lab f)" for lab f
    by (auto simp: insertFrag_def keeps_def cmodify_def numbering_def numbers_ok_def)
  show ?thesis
    unfolding frag_init_def Let_def
    by (intro numbering.keeps_bind numbering.keeps_then numbering.keeps_if numbering.keeps_return
        numbering_stm_init 1 2 numbering_lasting)
      (auto intro!: lasting_basics frame_intros)
qed

text \<open>What initialisation does not change, besides the blocks.\<close>

definition expanded :: "cgctx \<Rightarrow> cgctx \<Rightarrow> bool" where
  "expanded s t \<longleftrightarrow>
     ir_nvals s \<le> ir_nvals t \<and> ir_nblocks s \<le> ir_nblocks t \<and> (numbers_ok s \<longrightarrow> numbers_ok t) \<and>
     (\<forall>b<ir_nblocks s. ir_blocks t b = ir_blocks s b) \<and>
     changed s (cx_fragMap t) t"

lemma expanded_fields:
  assumes "expanded s t"
  shows "machine_ids t = machine_ids s" "init_ok t = init_ok s" "phi_types t fr = phi_types s fr"
    "ir_phis t = ir_phis s"
proof -
  obtain a b c d e where t: "t = s\<lparr>ir_nvals := a, ir_nblocks := b, ir_blocks := c, ir_insert := d, cx_fragMap := e\<rparr>"
    using assms changedE unfolding expanded_def by metis
  show "machine_ids t = machine_ids s" "init_ok t = init_ok s" "phi_types t fr = phi_types s fr"
    "ir_phis t = ir_phis s"
    by (simp_all add: t machine_ids_def init_ok_def phi_types_def)
qed

lemma expanded_trans: "expanded s t \<Longrightarrow> expanded t u \<Longrightarrow> expanded s u"
  unfolding expanded_def by (auto intro: changed_trans)

lemma framed_expanded: "framed fr fr' s t \<Longrightarrow> numbering s t \<Longrightarrow> expanded s t"
  unfolding expanded_def framed_def numbering_def Let_def by (auto dest: changed_same)

lemma expanded_refl: "expanded s s"
  by (simp add: expanded_def changed_def)

text \<open>An initialised fragment, in a later state.\<close>

definition laid :: "cgctx \<Rightarrow> frag \<Rightarrow> frag \<Rightarrow> bool" where
  "laid t fr fr' \<longleftrightarrow>
     (\<exists>ns b. initialised fr (map2 VInst ns (phi_types t fr)) fr' \<and> stm_bb (f_body fr') = Some b \<and>
        distinct ns \<and> length ns = length (phi_types t fr) \<and> set ns \<subseteq> {..<ir_nvals t} \<and>
        b < ir_nblocks t \<and> bb_insts (ir_blocks t b) = phi_insts ns (phi_types t fr) \<and>
        (\<forall>d\<in>set (inner_blocks (f_body fr')). d < ir_nblocks t \<and> bb_insts (ir_blocks t d) = []))"

lemma framed_laid:
  assumes "framed fr fr' s t" "expanded s t"
  shows "laid t fr fr'"
proof -
  let ?ns = "[ir_nvals s..<ir_nvals t]" and ?b = "ir_nblocks s"
  note f = assms(1) [unfolded framed_def Let_def]
  have ty: "phi_types t fr = phi_types s fr" by (rule expanded_fields [OF assms(2)])
  have "?b # inner_blocks (f_body fr') = [?b..<ir_nblocks t]"
    using f by (auto simp: frag_blocks_def all_blocks_def own_blocks_def)
  then have "inner_blocks (f_body fr') = [Suc ?b..<ir_nblocks t]"
    using f by (metis list.inject upt_conv_Cons)
  then show ?thesis
    unfolding laid_def ty
    by (intro exI [of _ ?ns] exI [of _ ?b]) (use f in auto)
qed

lemma laid_expanded:
  assumes "laid s fr fr'" "expanded s t"
  shows "laid t fr fr'"
proof -
  have g: "ir_nvals s \<le> ir_nvals t" "ir_nblocks s \<le> ir_nblocks t"
    "\<And>b. b < ir_nblocks s \<Longrightarrow> ir_blocks t b = ir_blocks s b"
    using assms(2) by (simp_all add: expanded_def)
  have ty: "phi_types t fr = phi_types s fr" by (rule expanded_fields [OF assms(2)])
  obtain ns b where l: "initialised fr (map2 VInst ns (phi_types s fr)) fr'" "stm_bb (f_body fr') = Some b"
    "distinct ns" "length ns = length (phi_types s fr)" "set ns \<subseteq> {..<ir_nvals s}"
    "b < ir_nblocks s" "bb_insts (ir_blocks s b) = phi_insts ns (phi_types s fr)"
    "\<forall>d\<in>set (inner_blocks (f_body fr')). d < ir_nblocks s \<and> bb_insts (ir_blocks s d) = []"
    using assms(1) unfolding laid_def by blast
  show ?thesis
    unfolding laid_def ty
    by (intro exI [of _ ns] exI [of _ b] conjI l(1-4)) (use l(5-8) g in auto)
qed

lemma frag_inits_laid:
  assumes "cmap frag_init frs s = Inr (frs', t)" "init_ok s"
    "distinct (map f_lab frs)" "dom (cx_fragMap s) \<inter> f_lab ` set frs = {}"
  shows "list_all2 (laid t) frs frs' \<and> expanded s t \<and> cx_fragMap s \<subseteq>\<^sub>m cx_fragMap t \<and>
    (\<forall>fr\<in>set frs'. cx_fragMap t (f_lab fr) = Some fr)"
  using assms
proof (induction frs arbitrary: s frs')
  case Nil
  then show ?case by (simp add: creturn_def expanded_refl)
next
  case (Cons fr frs)
  from Cons.prems(1) obtain fr' u rest where 1: "frag_init fr s = Inr (fr', u)"
    and 2: "cmap frag_init frs u = Inr (rest, t)" and eq: "frs' = fr' # rest"
    by (auto elim!: cbind_InrE simp: creturn_def)
  have f: "framed fr fr' s u" by (rule frag_init_framed [OF 1 Cons.prems(2)])
  have su: "expanded s u" by (rule framed_expanded [OF f keepsD [OF numbering_frag_init 1]])
  have lab: "f_lab fr' = f_lab fr" using f by (simp add: framed_def initialised_def Let_def)
  have "cx_fragMap u = map_insert fr' (f_lab fr) (cx_fragMap s)"
    using f by (auto simp: framed_def Let_def dest: changed_map)
  then have m: "cx_fragMap u = (cx_fragMap s)(f_lab fr \<mapsto> fr')"
    using Cons.prems(4) by (auto simp: map_insert_def)
  have IH: "list_all2 (laid t) frs rest" "expanded u t" "cx_fragMap u \<subseteq>\<^sub>m cx_fragMap t"
    "\<forall>fr\<in>set rest. cx_fragMap t (f_lab fr) = Some fr"
  proof -
    have "dom (cx_fragMap u) \<inter> f_lab ` set frs = {}" using Cons.prems(3,4) unfolding m by auto
    with Cons.IH [OF 2] Cons.prems(2,3) expanded_fields(2) [OF su]
    show "list_all2 (laid t) frs rest" "expanded u t" "cx_fragMap u \<subseteq>\<^sub>m cx_fragMap t"
      "\<forall>fr\<in>set rest. cx_fragMap t (f_lab fr) = Some fr" by simp_all
  qed
  have "laid t fr fr'" by (rule laid_expanded [OF framed_laid [OF f su] IH(2)])
  moreover have "expanded s t" by (rule expanded_trans [OF su IH(2)])
  moreover have "cx_fragMap s \<subseteq>\<^sub>m cx_fragMap t"
    using IH(3) Cons.prems(4) by (force simp: m map_le_def dom_def)
  moreover have "cx_fragMap t (f_lab fr') = Some fr'"
    using IH(3) by (force simp: m lab map_le_def)
  ultimately show ?case using IH(1,4) by (simp add: eq)
qed

end
