(* ===== verification/Frag_Entry.thy ===== *)
theory Frag_Entry
  imports Frag_Init Entry Cluster_Sem
begin

text \<open>
  The entry of a fragment: which values stand for the registers and the parameters, and that the
  machine gives them these values on arrival.
\<close>

section \<open>What the entry changes\<close>

text \<open>Only registers and, in \<open>X\<close>, variables have changed.\<close>

definition enters :: "lvar set \<Rightarrow> cgctx \<Rightarrow> cgctx \<Rightarrow> bool" where
  "enters X s t \<longleftrightarrow>
     (\<exists>R m. t = s\<lparr>cx_regState := R, cx_vMap := m\<rparr> \<and> (\<forall>y. y \<notin> X \<longrightarrow> m y = cx_vMap s y))"

lemma entersE:
  assumes "enters X s t"
  obtains R m where "t = s\<lparr>cx_regState := R, cx_vMap := m\<rparr>" "\<And>y. y \<notin> X \<Longrightarrow> m y = cx_vMap s y"
  using assms unfolding enters_def by blast

lemma enters_regs: "enters X s (s\<lparr>cx_regState := R\<rparr>)"
  unfolding enters_def by (intro exI [of _ R] exI [of _ "cx_vMap s"]) simp

interpretation enters: frame "enters X" for X
proof
  show "enters X s s" for s using enters_regs [of X s "cx_regState s"] by simp
  show "enters X s u" if st: "enters X s t" and tu: "enters X t u" for s t u
  proof -
    obtain R m where t: "t = s\<lparr>cx_regState := R, cx_vMap := m\<rparr>" "\<And>y. y \<notin> X \<Longrightarrow> m y = cx_vMap s y"
      using st unfolding enters_def by blast
    obtain R' m' where "u = t\<lparr>cx_regState := R', cx_vMap := m'\<rparr>" "\<And>y. y \<notin> X \<Longrightarrow> m' y = cx_vMap t y"
      using tu unfolding enters_def by blast
    then show ?thesis unfolding enters_def by (intro exI [of _ R'] exI [of _ m']) (simp add: t)
  qed
qed

lemma enters_basics:
  "keeps (enters X) (setRegState r w)" "keeps (enters X) (set_basePtr v)" "keeps (enters X) clear_basePtr"
  "x \<in> X \<Longrightarrow> keeps (enters X) (insertVal x v)"
proof -
  show "keeps (enters X) (setRegState r w)" "keeps (enters X) clear_basePtr"
    unfolding setRegState_def clear_basePtr_def by (intro enters.keeps_modify enters_regs)+
  show "keeps (enters X) (set_basePtr v)"
    unfolding set_basePtr_def
    by (intro enters.keeps_then enters.keeps_assert enters.keeps_modify enters_regs)
  show "keeps (enters X) (insertVal x v)" if "x \<in> X"
    unfolding insertVal_def
  proof (rule enters.keeps_modify)
    fix s show "enters X s (s\<lparr>cx_vMap := map_insert v x (cx_vMap s)\<rparr>)"
      using that unfolding enters_def
      by (intro exI [of _ "cx_regState s"] exI [of _ "map_insert v x (cx_vMap s)"])
        (auto simp: map_insert_def)
  qed
qed

lemma enters_bind:
  "p_name ` set ps \<subseteq> X \<Longrightarrow> (\<And>i. keeps (enters X) (arg i)) \<Longrightarrow> keeps (enters X) (bind_params ps arg i)"
  by (induction ps arbitrary: i)
    (auto simp: param_bind_def intro!: enters.keeps_then enters.keeps_bind enters.keeps_return enters_basics)

lemma enters_regs_loop: "keeps (enters X) (setup_regs f rs k)"
  by (induction rs arbitrary: k)
    (auto simp: getArg_def fn_type_def get_reg_info_def intro!: enters.keeps_then enters.keeps_bind enters.keeps_if
      enters.keeps_return enters.keeps_get enters.keeps_nth enters.keeps_the enters_basics)

lemma enters_frag:
  "keeps (enters (p_name ` set (f_params fr))) (setupFragEntry fr phis)"
  unfolding setupFragEntry_def phi_at_def getArgInfo_def
  by (intro enters.keeps_then enters.keeps_bind enters.keeps_if enters.keeps_return enters.keeps_get
      enters.keeps_nth enters.keeps_assert enters.keeps_foreach enters_basics enters_bind)
    (auto split: frag_kind.splits option.splits intro!: enters.keeps_bind enters.keeps_get
      enters.keeps_return enters.keeps_fail enters.keeps_option)

lemma enters_std:
  assumes "setupStdEntry fr s = Inr (x, t)" "\<not> usesBasePtr (cx_regInfo s)"
  shows "enters (p_name ` set (f_params fr)) s t"
proof -
  let ?X = "p_name ` set (f_params fr)"
  define base where "base = (\<lambda>f. cbind (cget cx_regInfo) (\<lambda>ri.
        cbind (if usesBasePtr ri
               then cbind get_curCluster (\<lambda>c. creturn (needsBasePtr (c_attrs c)))
               else creturn False) (\<lambda>b.
        if b then
          cbind (getArg f (if f_kind fr = STD_FUN then numMachineRegs ri else numMachineRegs ri + 2))
            (\<lambda>a. cbind (createPtrToInt a) set_basePtr)
        else clear_basePtr)))"
  have eq: "setupStdEntry fr = cbind curFn (\<lambda>f. cbind (getArgInfo (f_kind fr)) (\<lambda>info.
     cthen (setup_regs f reg_ids 0)
     (cthen (base f) (bind_params (f_params fr) (getArg f) (nExtra info + nUnused info)))))"
    unfolding setupStdEntry_def base_def ..
  from assms(1) obtain f info s' s0 s1 s2 where c: "curFn s = Inr (f, s')"
    and 0: "getArgInfo (f_kind fr) s' = Inr (info, s0)"
    and 1: "setup_regs f reg_ids 0 s0 = Inr ((), s1)" and 2: "base f s1 = Inr ((), s2)"
    and 3: "bind_params (f_params fr) (getArg f) (nExtra info + nUnused info) s2 = Inr (x, t)"
    unfolding eq by (auto elim!: cbind_InrE [where m = curFn] cbind_InrE [where m = "getArgInfo (f_kind fr)"] cthen_InrE)
  have "s' = s" using c by (auto simp: curFn_def cget_def cthe_def creturn_def cfail_def elim!: cbind_InrE split: option.splits)
  note 0 = 0 [unfolded this]
  have s1: "enters ?X s s1" using keepsD [OF enters_regs_loop 1] getArgInfo_state [OF 0] by simp
  then have "cx_regInfo s1 = cx_regInfo s" by (auto elim: entersE)
  with 2 assms(2) have "clear_basePtr s1 = Inr ((), s2)" by (simp add: base_def cbind_def cget_def creturn_def)
  then have "enters ?X s1 s2" by (rule keepsD [OF enters_basics(3)])
  moreover have "keeps (enters ?X) (bind_params (f_params fr) (getArg f) (nExtra info + nUnused info))"
    by (rule enters_bind) (auto simp: getArg_def fn_type_def intro!: enters.keeps_bind enters.keeps_get
      enters.keeps_nth enters.keeps_return)
  then have "enters ?X s2 t" by (rule keepsD) (rule 3)
  ultimately show ?thesis using s1 enters.keeps_trans by blast
qed

section \<open>The values at the start\<close>

lemma machine_ids_hw:
  assumes "cx_regInfo s = CMRegs_new (Some ti)"
  shows "machine_ids s = hw_ids ti"
  by (rule nth_equalityI) (use assms in \<open>simp_all add: machine_ids_def hw_ids_length hw_ids_nth\<close>)

definition starts :: "cgctx \<Rightarrow> (nat \<Rightarrow> value) \<Rightarrow> nat \<Rightarrow> param list \<Rightarrow> cgctx \<Rightarrow> bool" where
  "starts s val k ps t \<longleftrightarrow>
     enters (p_name ` set ps) s t \<and> cx_vMap s = (\<lambda>_. None) \<and>
     (\<forall>i<length (machine_ids s). rs_get (cx_regState t) (machine_ids s ! i) = Some (val i)) \<and>
     (\<forall>j<length ps. cx_vMap t (p_name (ps ! j)) = Some (val (k + j)))"

lemma starts_frag:
  assumes run: "setupFragEntry fr phis s = Inr (x, t)" and ri: "cx_regInfo s = CMRegs_new (Some ti)"
    and cl: "cx_curCluster s \<noteq> None" "\<not> usesBasePtr (cx_regInfo s)"
    and fresh: "distinct (map p_name (f_params fr))" "cx_vMap s = (\<lambda>_. None)"
  shows "starts s (nth phis) (length (machine_ids s)) (f_params fr) t"
proof -
  have info: "getArgInfo INTERNAL s = Inr (\<lparr>nExtra = length (machine_ids s), nBasePtr = 0, nUnused = 0\<rparr>, s)"
    using cl by (auto simp: getArgInfo_def cbind_def cget_def creturn_def machine_ids_def)
  from setupFragEntry_entered(1) [OF run ri info fresh(1)] fresh(2) keepsD [OF enters_frag run]
  show ?thesis by (simp add: starts_def entered_def machine_ids_hw [OF ri])
qed

lemma starts_std:
  assumes run: "setupStdEntry fr s = Inr (x, t)" and ri: "cx_regInfo s = CMRegs_new (Some ti)"
    and cl: "cx_curCluster s \<noteq> None" "\<not> usesBasePtr (cx_regInfo s)" "cx_curFn s = Some f"
      "\<And>n. f_kind fr \<noteq> frag_kind_other n"
    and fresh: "distinct (map p_name (f_params fr))" "cx_vMap s = (\<lambda>_. None)"
  shows "starts s (formal s f) (length (machine_ids s) + n_unused (f_kind fr)) (f_params fr) t"
proof -
  have info: "getArgInfo (f_kind fr) s =
      Inr (\<lparr>nExtra = length (machine_ids s), nBasePtr = 0, nUnused = n_unused (f_kind fr)\<rparr>, s)"
    using cl by (cases "f_kind fr") (auto simp: getArgInfo_def cbind_def cget_def creturn_def machine_ids_def n_unused_def)
  from setupStdEntry_entered(1) [OF run ri cl(3) info fresh(1)] fresh(2) enters_std [OF run cl(2)]
  show ?thesis by (simp add: starts_def entered_def machine_ids_hw [OF ri])
qed

lemma starts_matched:
  assumes "starts s val k ps t" "distinct (map p_name ps)" "length vs = length ps"
    "\<forall>i<length (machine_ids s). holds s \<sigma> (val i) (RP (G (machine_ids s ! i)))"
    "\<forall>j<length ps. holds s \<sigma> (val (k + j)) (vs ! j)"
  shows "matched (frag_env ps vs) G t \<sigma>" "dom (cx_vMap t) = p_name ` set ps"
proof -
  note st = assms(1) [unfolded starts_def]
  obtain R m where t: "t = s\<lparr>cx_regState := R, cx_vMap := m\<rparr>" "\<And>y. y \<notin> p_name ` set ps \<Longrightarrow> m y = None"
    using st unfolding enters_def by auto
  have h: "holds t = holds s" by (simp add: fun_eq_iff holds_def scoped_def t split: "value.split")
  have ids: "machine_ids t = machine_ids s" by (simp add: t machine_ids_def)
  have "\<exists>v. cx_vMap t x = Some v \<and> holds t \<sigma> v r" if "frag_env ps vs x = Some r" for x r
  proof -
    have "(x, r) \<in> set (zip (map p_name ps) vs)" using that by (simp add: frag_env_def map_of_SomeD)
    then obtain j where "j < length ps" "x = p_name (ps ! j)" "r = vs ! j"
      using assms(3) by (auto simp: set_zip)
    then show ?thesis using st assms(5) by (auto simp: h)
  qed
  moreover have "\<exists>v. rs_get (cx_regState t) r = Some v \<and> holds t \<sigma> v (RP (G r))"
    if "r \<in> set (machine_ids t)" for r
    using that st assms(4) by (auto simp: ids h in_set_conv_nth)
  ultimately show "matched (frag_env ps vs) G t \<sigma>" by (simp add: matched_def env_holds_def)
  have "cx_vMap t (p_name p) \<noteq> None" if "p \<in> set ps" for p
    using that st by (auto simp: in_set_conv_nth)
  then show "dom (cx_vMap t) = p_name ` set ps" using t by (auto simp: dom_def) (metis option.distinct(1))
qed

section \<open>The body of a fragment\<close>

definition fresh_start :: "cgctx \<Rightarrow> nat \<Rightarrow> cgctx" where
  "fresh_start s b = s\<lparr>cx_vMap := (\<lambda>_. None), ir_insert := Some b\<rparr>"

text \<open>Between fragments, the state is fit for the next one when a block is current.\<close>

definition between :: "sigs \<Rightarrow> cgctx \<Rightarrow> bool" where
  "between S s \<longleftrightarrow> stage S (s\<lparr>ir_insert := Some 0\<rparr>)"

lemma stage_cong:
  assumes "stage S s" "t = s\<lparr>ir_insert := Some b, cx_regState := R, cx_vMap := m\<rparr>"
  shows "stage S t"
proof -
  have "frag_known t = frag_known s" "fn_known t = fn_known s"
  proof -
    have "surround s t" by (simp add: surround_def assms(2))
    moreover have "surround t s" by (simp add: surround_def assms(2))
    note eq = calculation this
    show "frag_known t = frag_known s"
      using surround_same(1) [OF eq(1)] by (intro ext) (simp add: frag_known_def assms(2))
    show "fn_known t = fn_known s"
    proof (intro ext)
      fix lab k tys
      have "createFnTy k (map lty_of tys) t = Inr (ft, t) \<longleftrightarrow> createFnTy k (map lty_of tys) s = Inr (ft, s)" for ft
        using surround_same(3) [OF eq(1)] surround_same(3) [OF eq(2)] by blast
      then show "fn_known t lab k tys = fn_known s lab k tys"
        unfolding fn_known_def by (simp add: assms(2))
    qed
  qed
  then have "sigs_hold S t" using assms(1) by (simp add: stage_def sigs_hold_def assms(2))
  moreover have "ctx_ok t" using assms(1) by (simp add: stage_def ctx_ok_def assms(2))
  moreover have "numbers_ok t = numbers_ok s" by (rule numbers_ok_cong) (simp_all add: assms(2))
  moreover have "caches_ok t = caches_ok s" by (simp add: caches_ok_def assms(2))
  moreover have "base_ok t = base_ok s"
  proof -
    have "ir_module t = ir_module s" "cx_readReg t = cx_readReg s" "cx_spRegMD t = cx_spRegMD s"
      "cx_intTy t = cx_intTy s" "cx_curFn t = cx_curFn s" "cx_overflowPhiNodes t = cx_overflowPhiNodes s"
      "ir_nvals t = ir_nvals s" "cx_overflowBB t = cx_overflowBB s" "cx_regInfo t = cx_regInfo s"
      by (simp_all add: assms(2))
    then show ?thesis unfolding base_ok_def sp_ok_def phis_ok_def by (simp only:)
  qed
  moreover have "machine_ids t = machine_ids s" by (simp add: machine_ids_def assms(2))
  moreover have "cx_regInfo t = cx_regInfo s" "cx_curCluster t = cx_curCluster s" by (simp_all add: assms(2))
  ultimately show ?thesis using assms(1) unfolding stage_def by simp
qed

lemma stage_starts:
  assumes "between S s" "starts (fresh_start s b) val k ps u"
  shows "stage S u"
proof -
  obtain R m where "u = s\<lparr>ir_insert := Some 0, ir_insert := Some b, cx_regState := R, cx_vMap := m\<rparr>"
    using assms(2) unfolding starts_def fresh_start_def enters_def by auto
  with assms(1) show ?thesis unfolding between_def by (rule stage_cong)
qed

lemma launch_starts:
  assumes s: "between S s" "ready s (all_blocks k)" "unlinked s (set (all_blocks k))"
    and k: "stm_bb k = Some b" "\<forall>d\<in>set (inner_blocks k). bb_insts (ir_blocks s d) = []"
      "distinct (map p_name ps @ binders k)"
    and u: "starts (fresh_start s b) val n ps u" "dom (cx_vMap u) = p_name ` set ps"
  shows "launch S k u b"
proof -
  obtain R m where t: "u = s\<lparr>ir_insert := Some b, cx_regState := R, cx_vMap := m\<rparr>"
    using u(1) unfolding starts_def fresh_start_def enters_def by auto
  have "all_blocks k = b # inner_blocks k" using k(1) by (simp add: all_blocks_def own_blocks_def)
  with s k u(2) stage_starts [OF s(1) u(1)] show ?thesis
    unfolding launch_def by (auto simp: t unlinked_def ready_def)
qed

text \<open>A fragment whose state at the start matches goes where its body goes.\<close>

lemma body_follows:
  assumes l: "launch S k u b" and run: "stm_codegen k u = Inr ((), t)"
    and m: "matched \<rho> G u \<sigma>" and ev: "stm_eval S \<rho> G (rv_mem \<sigma>) k = Some oc"
    and z: "settled t z (region u t b (inner_blocks k))"
  shows "follows z b (bb_insts (ir_blocks u b)) \<sigma> oc"
  using stm_simulates [of S k] assms unfolding simulates_def by blast

end
