(* ===== verification/Cluster_Code.thy ===== *)
theory Cluster_Code
  imports Frag_Entry
begin

text \<open>
  The simulation of clusters: every fragment of a cluster, entered through its phi nodes, goes where
  its meaning says, and so does the cluster.
\<close>

section \<open>Fragments still to be generated\<close>

definition fit :: "cgctx \<Rightarrow> frag \<Rightarrow> bool" where
  "fit s fr \<longleftrightarrow>
     (\<exists>ns b. f_phiNodes fr = map2 VInst ns (phi_types s fr) \<and> distinct ns \<and>
        length ns = length (phi_types s fr) \<and> set ns \<subseteq> {..<ir_nvals s} \<and>
        stm_bb (f_body fr) = Some b \<and> bb_insts (ir_blocks s b) = phi_insts ns (phi_types s fr) \<and>
        (\<forall>d\<in>set (inner_blocks (f_body fr)). bb_insts (ir_blocks s d) = []) \<and>
        distinct (map p_name (f_params fr) @ binders (f_body fr)))"

definition todo :: "sigs \<Rightarrow> cgctx \<Rightarrow> frag list \<Rightarrow> bool" where
  "todo S s frs \<longleftrightarrow>
     between S s \<and> ready s (concat (map frag_blocks frs)) \<and>
     unlinked s (set (concat (map frag_blocks frs))) \<and> (\<forall>fr\<in>set frs. fit s fr) \<and>
     cx_regInfo s = CMRegs_new (Some (cx_target s))"

lemma between_fields:
  assumes "between S s"
  shows "cx_curCluster s \<noteq> None" "\<not> usesBasePtr (cx_regInfo s)" "cx_target s = sg_target S"
  using assms by (simp_all add: between_def stage_def sigs_hold_def)

lemma starts_same:
  assumes "starts (fresh_start s b) val k ps u"
  shows "outlasts s u" "based s u" "ir_insert u = Some b" "ir_blocks u = ir_blocks s"
    "ir_nblocks u = ir_nblocks s" "ir_phis u = ir_phis s" "machine_ids u = machine_ids s"
    "cx_regInfo u = cx_regInfo s" "cx_target u = cx_target s"
proof -
  obtain R m where u: "u = s\<lparr>ir_insert := Some b, cx_regState := R, cx_vMap := m\<rparr>"
    using assms unfolding starts_def fresh_start_def enters_def by auto
  show "outlasts s u" by (simp add: u outlasts_def surround_def numbers_ok_def)
  show "based s u" by (rule based_same) (simp_all add: u sp_ok_def)
  show "ir_insert u = Some b" "ir_blocks u = ir_blocks s" "ir_nblocks u = ir_nblocks s"
    "ir_phis u = ir_phis s" "machine_ids u = machine_ids s" "cx_regInfo u = cx_regInfo s"
    "cx_target u = cx_target s"
    by (simp_all add: u machine_ids_def)
qed

text \<open>The code of one fragment leaves the others as they were.\<close>

lemma body_step:
  assumes td: "todo S s (fr # frs)" and b: "stm_bb (f_body fr) = Some b"
    and u: "starts (fresh_start s b) val k (f_params fr) u" and run: "stm_codegen (f_body fr) u = Inr ((), t)"
  shows "todo S t frs" "outlasts s t" "based s t" "ir_nblocks s \<le> ir_nblocks t"
    "\<And>x. x < ir_nblocks s \<Longrightarrow> x \<notin> set (frag_blocks fr) \<Longrightarrow> ir_blocks t x = ir_blocks s x"
proof -
  let ?B = "concat (map frag_blocks frs)" and ?I = "inner_blocks (f_body fr)"
  have fb: "frag_blocks fr = b # ?I" using b by (simp add: frag_blocks_def all_blocks_def own_blocks_def)
  have r: "ready s (b # ?I)" "ready s ?B" "set (b # ?I) \<inter> set ?B = {}"
    using td by (auto simp: todo_def fb ready_append [of s "b # ?I" ?B, simplified])
  note us = starts_same [OF u]
  have ru: "ready u (b # ?I)" by (rule ready_cong [OF r(1) us(5,4)])
  have "progress u t (insert b (set ?I))" by (rule closesD [OF stm_closes run us(3) ru])
  then have p: "progress s t (set (b # ?I))" using us(4,5) by (auto intro: progress_start)
  then show nb: "ir_nblocks s \<le> ir_nblocks t"
    and blk: "\<And>x. x < ir_nblocks s \<Longrightarrow> x \<notin> set (frag_blocks fr) \<Longrightarrow> ir_blocks t x = ir_blocks s x"
    by (simp_all add: progress_def fb)
  have ut: "lasting u t" "based u t" "cache_step u t"
    by (rule keepsD [OF lasting.keeps_stm run], rule keepsD [OF based.keeps_stm run],
        rule keepsD [OF cache.keeps_stm run])
  show st: "outlasts s t" "based s t"
    using us(1,2) ut(1,2) lasting_outlasts outlasts_trans based.keeps_trans by blast+
  let ?t = "t\<lparr>ir_insert := Some 0\<rparr>"
  have "lasting t ?t" by (rule lasting_same) (simp_all add: surround_def)
  moreover have "based t ?t" by (rule based_same) (simp_all add: sp_ok_def)
  moreover have "cache_step t ?t" by (simp add: cache_step_def caches_ok_def)
  ultimately have "lasting u ?t" "based u ?t" "cache_step u ?t"
    using ut lasting.keeps_trans based.keeps_trans cache.keeps_trans by blast+
  moreover have bs: "between S s" using td by (simp add: todo_def)
  ultimately have "between S t"
    unfolding between_def by (intro stage_step [OF stage_starts [OF bs u]]) simp_all
  moreover have rt: "ready t ?B" by (rule ready_progress [OF p r(2)]) (use r(3) in auto)
  moreover have "unlinked t (set ?B)"
    unfolding unlinked_def
  proof (intro allI impI)
    fix n v d assume e: "(v, d) \<in> set (ir_phis t n)"
    have "links (region u t b ?I) u t"
      using stm_links_all [of "f_body fr"] run us(3) ru unfolding stm_links_def by blast
    with e have "(v, d) \<in> set (ir_phis s n) \<or> d \<in> region u t b ?I"
      unfolding links_def us(6) by (fastforce dest: spec [of _ n])
    then show "d < ir_nblocks t \<and> d \<notin> set ?B"
    proof
      assume "(v, d) \<in> set (ir_phis s n)"
      with td nb show ?thesis by (fastforce simp: todo_def unlinked_def)
    next
      assume "d \<in> region u t b ?I"
      then have "d \<in> set (b # ?I) \<or> ir_nblocks s \<le> d \<and> d < ir_nblocks t" by (auto simp: region_def us(5))
      with r nb ready_subset [OF r(1)] ready_subset [OF r(2)] show ?thesis by (auto simp del: set_concat)
    qed
  qed
  moreover have "fit t fr'" if "fr' \<in> set frs" for fr'
  proof -
    have "fit s fr'" using td that by (simp add: todo_def)
    moreover have "ir_blocks t x = ir_blocks s x" if "x \<in> set (frag_blocks fr')" for x
    proof -
      have "x \<in> set ?B" using that \<open>fr' \<in> set frs\<close> by auto
      with r(3) ready_subset [OF r(2)] have "x < ir_nblocks s" "x \<notin> set (frag_blocks fr)" by (auto simp: fb)
      then show ?thesis by (rule blk)
    qed
    moreover have "ir_nvals s \<le> ir_nvals t" "phi_types t fr' = phi_types s fr'"
      using st(1) surround_same(1) [of s t] by (simp_all add: outlasts_def phi_types_def)
    ultimately show ?thesis
      unfolding fit_def frag_blocks_def all_blocks_def own_blocks_def by fastforce
  qed
  moreover have "cx_regInfo t = CMRegs_new (Some (cx_target t))"
    using td st(1) by (simp add: todo_def outlasts_def surround_def)
  ultimately show "todo S t frs" by (simp add: todo_def)
qed

section \<open>Fragments\<close>

text \<open>In the final state \<open>z\<close>, nothing that exists in \<open>t\<close> has changed.\<close>

definition finished :: "cgctx \<Rightarrow> cgctx \<Rightarrow> bool" where
  "finished t z \<longleftrightarrow>
     outlasts t z \<and> based t z \<and> (\<forall>b<ir_nblocks t. ir_blocks z b = ir_blocks t b)"

text \<open>An internal fragment, entered from the block \<open>c\<close>.\<close>

definition frag_goes :: "sigs \<Rightarrow> cgctx \<Rightarrow> frag \<Rightarrow> bool" where
  "frag_goes S z fr \<longleftrightarrow>
     (\<forall>c \<sigma> vs G oc. edges_give z c \<sigma> (f_phiNodes fr) (reg_vals z G @ vs) \<longrightarrow>
        frag_eval S fr vs G (rv_mem \<sigma>) = Some oc \<longrightarrow>
        (\<exists>b cf cf'. stm_bb (f_body fr) = Some b \<and> enter z c b \<sigma> = Some cf \<and> flow z cf cf' \<and> arrives z oc cf'))"

lemma todo_body:
  assumes td: "todo S s (fr # frs)" and b: "stm_bb (f_body fr) = Some b"
    and u: "starts (fresh_start s b) val k (f_params fr) u" "dom (cx_vMap u) = p_name ` set (f_params fr)"
    and run: "stm_codegen (f_body fr) u = Inr ((), t)"
    and m: "matched \<rho> G u \<sigma>" and ev: "stm_eval S \<rho> G (rv_mem \<sigma>) (f_body fr) = Some oc"
    and z: "outlasts t z" "based t z" "\<And>x. x < ir_nblocks t \<Longrightarrow> x \<notin> set (concat (map frag_blocks frs)) \<Longrightarrow>
      ir_blocks z x = ir_blocks t x"
  shows "follows z b (bb_insts (ir_blocks s b)) \<sigma> oc"
proof -
  let ?I = "inner_blocks (f_body fr)" and ?B = "concat (map frag_blocks frs)"
  have fb: "frag_blocks fr = all_blocks (f_body fr)" by (simp add: frag_blocks_def)
  have al: "all_blocks (f_body fr) = b # ?I" using b by (simp add: all_blocks_def own_blocks_def)
  have r: "ready s (all_blocks (f_body fr))" "ready s ?B" "set (b # ?I) \<inter> set ?B = {}"
    using td by (auto simp: todo_def fb al ready_append [of s "b # ?I" ?B, simplified])
  have bs: "between S s" "unlinked s (set (all_blocks (f_body fr)))" "fit s fr"
    using td by (auto simp: todo_def unlinked_def fb)
  then have f: "\<forall>d\<in>set ?I. bb_insts (ir_blocks s d) = []"
    "distinct (map p_name (f_params fr) @ binders (f_body fr))"
    by (auto simp: fit_def)
  have l: "launch S (f_body fr) u b" by (rule launch_starts [OF bs(1) r(1) bs(2) b f u])
  note us = starts_same [OF u(1)]
  have nb: "ir_nblocks s \<le> ir_nblocks t" by (rule body_step [OF td b u(1) run])
  have "ir_blocks z x = ir_blocks t x" if "x \<in> region u t b ?I" for x
  proof -
    have "x \<in> set (b # ?I) \<or> ir_nblocks s \<le> x \<and> x < ir_nblocks t"
      using that by (auto simp: region_def us(5))
    then show ?thesis
      using r(3) ready_subset [OF r(1)] ready_subset [OF r(2)] nb
      by (intro z(3)) (auto simp: al simp del: set_concat)
  qed
  with z(1,2) have "settled t z (region u t b ?I)" by (simp add: settled_def)
  from body_follows [OF l run m ev this] show ?thesis by (simp add: us(4))
qed

lemma internal_goes:
  assumes td: "todo S s (fr # frs)" and run: "frag_codegen fr False s = Inr ((), t)"
    and z: "outlasts t z" "based t z" "\<And>x. x < ir_nblocks t \<Longrightarrow> x \<notin> set (concat (map frag_blocks frs)) \<Longrightarrow>
      ir_blocks z x = ir_blocks t x"
  shows "frag_goes S z fr" "todo S t frs" "outlasts s t" "based s t" "ir_nblocks s \<le> ir_nblocks t"
    "\<And>x. x < ir_nblocks s \<Longrightarrow> x \<notin> set (frag_blocks fr) \<Longrightarrow> ir_blocks t x = ir_blocks s x"
proof -
  have "fit s fr" and ri: "cx_regInfo s = CMRegs_new (Some (cx_target s))" and bs: "between S s"
    using td by (simp_all add: todo_def)
  then obtain ns b where f: "f_phiNodes fr = map2 VInst ns (phi_types s fr)" "distinct ns"
    "length ns = length (phi_types s fr)" "set ns \<subseteq> {..<ir_nvals s}" "stm_bb (f_body fr) = Some b"
    "bb_insts (ir_blocks s b) = phi_insts ns (phi_types s fr)"
    "distinct (map p_name (f_params fr) @ binders (f_body fr))"
    unfolding fit_def by blast
  let ?s = "fresh_start s b"
  from run obtain u where u: "setupFragEntry fr (f_phiNodes fr) ?s = Inr ((), u)"
    and body: "stm_codegen (f_body fr) u = Inr ((), t)"
    unfolding frag_codegen_def fresh_start_def
    by (auto elim!: cthen_InrE cbind_InrE simp: bb_of_eq SetInsertPoint_eq beginFrag_def cmodify_def f(5))
  have kind: "f_kind fr = INTERNAL"
    using u by (auto simp: setupFragEntry_def cassert_def cfail_def elim!: cthen_InrE split: if_splits)
  let ?n = "length (machine_ids s)" and ?ts = "phi_types s fr"
  have ids: "machine_ids ?s = machine_ids s" by (simp add: fresh_start_def machine_ids_def)
  have st: "starts ?s (nth (f_phiNodes fr)) ?n (f_params fr) u"
    using starts_frag [OF u, of "cx_target s"] ri between_fields(1,2) [OF bs] f(7)
    by (simp add: fresh_start_def machine_ids_def)
  show "todo S t frs" "outlasts s t" "based s t" "ir_nblocks s \<le> ir_nblocks t"
    "\<And>x. x < ir_nblocks s \<Longrightarrow> x \<notin> set (frag_blocks fr) \<Longrightarrow> ir_blocks t x = ir_blocks s x"
    by (rule body_step [OF td f(5) st body]; assumption)+
  have "outlasts s z" using \<open>outlasts s t\<close> z(1) by (rule outlasts_trans)
  then have rv: "reg_vals z G = reg_vals s G" for G by (simp add: outlasts_def surround_same(2))
  show "frag_goes S z fr"
    unfolding frag_goes_def
  proof (intro allI impI)
    fix c \<sigma> vs G oc
    assume e: "edges_give z c \<sigma> (f_phiNodes fr) (reg_vals z G @ vs)"
      and ev: "frag_eval S fr vs G (rv_mem \<sigma>) = Some oc"
    let ?rs = "reg_vals s G @ vs"
    have lvs: "length vs = length (f_params fr)"
      and ev: "stm_eval S (frag_env (f_params fr) vs) G (rv_mem \<sigma>) (f_body fr) = Some oc"
      using ev by (auto simp: frag_eval_def param_types_def split: if_splits dest: map_eq_imp_length_eq)
    have len: "length ?rs = length ns" "length ?ts = ?n + length (f_params fr)"
      using lvs f(3) by (simp_all add: reg_vals_def phi_types_def kind param_types_def)
    have ed: "?ts ! i = rtype (?rs ! i) \<and> (\<exists>w. edge z (ns ! i) c = Some w \<and> veval \<sigma> w = Some (?rs ! i))"
      if "i < length ns" for i
      using e that f(1,3) len unfolding edges_give_def rv by (auto simp: list_all2_conv_all_nth)
    then have "list_all2 (\<lambda>n r. \<exists>w. edge z n c = Some w \<and> veval \<sigma> w = Some r) ns ?rs"
      using len(1) by (simp add: list_all2_conv_all_nth)
    from phi_env_results [OF this f(2) phi_insts_phi(1) [OF f(3)]] obtain env where
      env: "phi_env z c \<sigma> (phi_insts ns ?ts) = Some env" "list_all2 (\<lambda>n r. env n = Some r) ns ?rs"
      by blast
    let ?\<tau> = "\<sigma>\<lparr>rv_inst := env\<rparr>"
    have h: "holds ?s ?\<tau> (f_phiNodes fr ! i) (?rs ! i)" if "i < length ns" for i
    proof -
      have "env (ns ! i) = Some (?rs ! i)" using env(2) that by (simp add: list_all2_conv_all_nth)
      moreover have "ns ! i < ir_nvals s" using f(4) that by (meson lessThan_iff nth_mem subsetD)
      ultimately show ?thesis
        using ed [OF that] that f(1,3) by (simp add: holds_def scoped_def fresh_start_def)
    qed
    have "\<forall>i<length (machine_ids ?s). holds ?s ?\<tau> (f_phiNodes fr ! i) (RP (G (machine_ids ?s ! i)))"
    proof (intro allI impI)
      fix i assume "i < length (machine_ids ?s)"
      with h [of i] len f(3) show "holds ?s ?\<tau> (f_phiNodes fr ! i) (RP (G (machine_ids ?s ! i)))"
        by (simp add: ids reg_vals_def nth_append)
    qed
    moreover have "\<forall>j<length (f_params fr). holds ?s ?\<tau> (f_phiNodes fr ! (?n + j)) (vs ! j)"
    proof (intro allI impI)
      fix j assume "j < length (f_params fr)"
      with h [of "?n + j"] len f(3) show "holds ?s ?\<tau> (f_phiNodes fr ! (?n + j)) (vs ! j)"
        by (simp add: reg_vals_def nth_append)
    qed
    ultimately have m: "matched (frag_env (f_params fr) vs) G u ?\<tau>" "dom (cx_vMap u) = p_name ` set (f_params fr)"
      using starts_matched [OF st _ lvs] f(7) by simp_all
    have "follows z b (bb_insts (ir_blocks s b)) ?\<tau> oc"
      by (rule todo_body [OF td f(5) st m(2) body m(1) _ z]) (simp_all add: ev)
    then obtain suf cf where suf: "bb_insts (ir_blocks z b) = phi_insts ns ?ts @ suf"
      "flow z (b, suf, ?\<tau>) cf" "arrives z oc cf"
      unfolding follows_def f(6) by blast
    have "takeWhile is_phi (phi_insts ns ?ts @ suf) = phi_insts ns ?ts"
      "dropWhile is_phi (phi_insts ns ?ts @ suf) = suf"
      using arrives_start [OF suf(2,3)] phi_insts_phi(2) [of _ ns ?ts]
      by (cases suf; simp add: takeWhile_append dropWhile_append)+
    then have "enter z c b \<sigma> = Some (b, suf, ?\<tau>)" using env(1) by (simp add: enter_def suf(1))
    with suf(2,3) f(5)
    show "\<exists>b cf cf'. stm_bb (f_body fr) = Some b \<and> enter z c b \<sigma> = Some cf \<and> flow z cf cf' \<and> arrives z oc cf'"
      by blast
  qed
qed

end
