(* ===== verification/Cluster_Simulation.thy ===== *)
theory Cluster_Simulation
  imports Cluster_Code
begin

text \<open>
  The simulation of clusters: the entry, entered by a call, goes where its meaning says, and from
  there every jump leads to a fragment that does the same.
\<close>

section \<open>The internal fragments\<close>

lemma frags_go:
  assumes "todo S s frs" "cforeach frs (\<lambda>fr. frag_codegen fr False) s = Inr ((), t)" "finished t z"
  shows "(\<forall>fr\<in>set frs. frag_goes S z fr) \<and> todo S t [] \<and> outlasts s t \<and> based s t \<and> ir_nblocks s \<le> ir_nblocks t \<and>
    (\<forall>x<ir_nblocks s. x \<notin> set (concat (map frag_blocks frs)) \<longrightarrow> ir_blocks t x = ir_blocks s x)"
  using assms
proof (induction frs arbitrary: s)
  case Nil
  then show ?case by (simp add: creturn_def based.keeps_refl)
next
  case (Cons fr frs)
  from Cons.prems(2) obtain u where run: "frag_codegen fr False s = Inr ((), u)"
    and rest: "cforeach frs (\<lambda>fr. frag_codegen fr False) u = Inr ((), t)"
    by (auto elim!: cthen_InrE)
  note u = internal_goes(2-) [OF Cons.prems(1) run outlasts_refl based.keeps_refl refl]
  note t = Cons.IH [OF u(1) rest Cons.prems(3)]
  have z: "outlasts t z" "based t z" "\<And>x. x < ir_nblocks t \<Longrightarrow> ir_blocks z x = ir_blocks t x"
    using Cons.prems(3) by (auto simp: finished_def)
  have "outlasts u z" "based u z" using t z by (blast intro: outlasts_trans based.keeps_trans)+
  moreover have "ir_blocks z x = ir_blocks u x"
    if "x < ir_nblocks u" "x \<notin> set (concat (map frag_blocks frs))" for x
    using that t z(3) [of x] by (simp del: set_concat)
  ultimately have "frag_goes S z fr" by (rule internal_goes(1) [OF Cons.prems(1) run])
  moreover have "outlasts s t" "based s t" using t u by (blast intro: outlasts_trans based.keeps_trans)+
  moreover have "ir_blocks t x = ir_blocks s x"
    if "x < ir_nblocks s" "x \<notin> set (concat (map frag_blocks (fr # frs)))" for x
    using that t u(4) u(5) [of x] by (auto simp del: set_concat simp: set_concat)
  ultimately show ?case using t u(4) by auto
qed

section \<open>The entry\<close>

text \<open>The arguments of a call: the registers, some that are not used, and the values.\<close>

definition passed :: "cgctx \<Rightarrow> frag_kind \<Rightarrow> rval list \<Rightarrow> regs \<Rightarrow> rstate \<Rightarrow> bool" where
  "passed s k vs G \<sigma> \<longleftrightarrow>
     (\<forall>i<length (machine_ids s). rv_arg \<sigma> i = Some (reg_vals s G ! i)) \<and>
     (\<forall>j<length vs. rv_arg \<sigma> (length (machine_ids s) + n_unused k + j) = Some (vs ! j))"

lemma std_params:
  assumes "createFnTy k tys s = Inr (ft, s)" "cx_curCluster s \<noteq> None" "\<not> usesBasePtr (cx_regInfo s)"
  shows "\<And>n. k \<noteq> frag_kind_other n"
    "ft_params ft = replicate (length (machine_ids s)) PtrTy @ replicate (n_unused k) PtrTy @ tys"
proof -
  obtain info where info: "getArgInfo k s = Inr (info, s)" and
    ft: "ft_params ft = replicate (nExtra info) PtrTy @
      (if nBasePtr info \<noteq> 0 then [cx_intTy s] else []) @ replicate (nUnused info) mlValueTy @ tys"
    using assms(1) unfolding createFnTy_eq by auto
  obtain cl where cl: "cx_curCluster s = Some cl" using assms(2) by auto
  show k: "k \<noteq> frag_kind_other n" for n
    using info by (auto simp: getArgInfo_def cbind_def cget_def cfail_def)
  have "info = \<lparr>nExtra = length (machine_ids s), nBasePtr = 0, nUnused = n_unused k\<rparr>"
    using info assms(3) cl k
    by (cases k) (auto simp: getArgInfo_def cbind_def cget_def creturn_def n_unused_def machine_ids_def)
  then show "ft_params ft = replicate (length (machine_ids s)) PtrTy @ replicate (n_unused k) PtrTy @ tys"
    by (simp add: ft)
qed

definition typed_entry :: "frag \<Rightarrow> nat \<Rightarrow> cgctx \<Rightarrow> bool" where
  "typed_entry en f s \<longleftrightarrow>
     createFnTy (f_kind en) (map lty_of (param_types en)) s = Inr (fn_ty (ir_fns s ! f), s)"

lemma passed_holds:
  assumes "passed s k vs G \<sigma>" "map rtype vs = tys"
    "ft_params (fn_ty (ir_fns s ! f)) =
       replicate (length (machine_ids s)) PtrTy @ replicate (n_unused k) PtrTy @ tys"
  shows "\<And>i. i < length (machine_ids s) \<Longrightarrow> holds s \<sigma> (formal s f i) (RP (G (machine_ids s ! i)))"
    "\<And>j. j < length vs \<Longrightarrow>
       holds s \<sigma> (formal s f (length (machine_ids s) + n_unused k + j)) (vs ! j)"
proof -
  show "holds s \<sigma> (formal s f i) (RP (G (machine_ids s ! i)))" if "i < length (machine_ids s)" for i
    using assms(1) that
    by (simp add: holds_def formal_def assms(3) scoped_def nth_append passed_def) (simp add: reg_vals_def)
  show "holds s \<sigma> (formal s f (length (machine_ids s) + n_unused k + j)) (vs ! j)"
    if "j < length vs" for j
    using assms(1) that assms(2) [symmetric]
    by (simp add: holds_def formal_def assms(3) scoped_def nth_append passed_def)
qed

lemma entry_run:
  assumes td: "todo S s (en # rest)" and run: "frag_codegen en True s = Inr ((), t)"
    and b: "stm_bb (f_body en) = Some b"
    and f: "cx_curFn s = Some f" "typed_entry en f s"
  obtains u where
    "starts (fresh_start s b) (formal s f) (length (machine_ids s) + n_unused (f_kind en)) (f_params en) u"
    "stm_codegen (f_body en) u = Inr ((), t)"
proof -
  have ri: "cx_regInfo s = CMRegs_new (Some (cx_target s))" and bs: "between S s" and "fit s en"
    using td by (simp_all add: todo_def)
  let ?s = "fresh_start s b"
  from run b obtain u where u: "setupStdEntry en ?s = Inr ((), u)"
    and body: "stm_codegen (f_body en) u = Inr ((), t)"
    unfolding frag_codegen_def fresh_start_def
    by (auto elim!: cthen_InrE cbind_InrE simp: bb_of_eq SetInsertPoint_eq beginFrag_def cmodify_def)
  have d: "distinct (map p_name (f_params en))" using \<open>fit s en\<close> by (auto simp: fit_def)
  have k: "f_kind en \<noteq> frag_kind_other n" for n
    by (rule std_params(1) [OF f(2) [unfolded typed_entry_def] between_fields(1,2) [OF bs]])
  have "starts ?s (formal ?s f) (length (machine_ids ?s) + n_unused (f_kind en)) (f_params en) u"
    by (rule starts_std [OF u, of "cx_target s"])
      (use ri between_fields(1,2) [OF bs] d k f(1) in \<open>simp_all add: fresh_start_def\<close>)
  moreover have "formal ?s f = formal s f" "machine_ids ?s = machine_ids s"
    by (simp_all add: fresh_start_def formal_def [abs_def] machine_ids_def)
  ultimately show ?thesis using body by (intro that) simp_all
qed

lemma entry_goes:
  assumes td: "todo S s (en # rest)" and run: "frag_codegen en True s = Inr ((), t)"
    and b: "stm_bb (f_body en) = Some b" and k: "f_kind en \<noteq> INTERNAL"
    and f: "cx_curFn s = Some f" "typed_entry en f s"
    and z: "outlasts t z" "based t z" "\<And>x. x < ir_nblocks t \<Longrightarrow> x \<notin> set (concat (map frag_blocks rest)) \<Longrightarrow>
      ir_blocks z x = ir_blocks t x"
    and p: "passed s (f_kind en) vs G \<sigma>" and ev: "frag_eval S en vs G (rv_mem \<sigma>) = Some oc"
  shows "\<exists>cf. flow z (b, bb_insts (ir_blocks z b), \<sigma>) cf \<and> arrives z oc cf"
proof -
  obtain u where u:
    "starts (fresh_start s b) (formal s f) (length (machine_ids s) + n_unused (f_kind en)) (f_params en) u"
    and body: "stm_codegen (f_body en) u = Inr ((), t)"
    by (rule entry_run [OF td run b f])
  have bs: "between S s" and "fit s en" using td by (simp_all add: todo_def)
  then have d: "distinct (map p_name (f_params en))" and e: "bb_insts (ir_blocks s b) = []"
    using k b by (auto simp: fit_def phi_types_def phi_insts_def)
  have lvs: "length vs = length (f_params en)" "map rtype vs = map lty_of (param_types en)"
    and ev: "stm_eval S (frag_env (f_params en) vs) G (rv_mem \<sigma>) (f_body en) = Some oc"
    using ev by (auto simp: frag_eval_def param_types_def split: if_splits dest: map_eq_imp_length_eq)
  have "ft_params (fn_ty (ir_fns s ! f)) = replicate (length (machine_ids s)) PtrTy @
    replicate (n_unused (f_kind en)) PtrTy @ map lty_of (param_types en)"
    by (rule std_params(2) [OF f(2) [unfolded typed_entry_def] between_fields(1,2) [OF bs]])
  note h = passed_holds [OF p lvs(2) this]
  have same: "holds (fresh_start s b) = holds s" "machine_ids (fresh_start s b) = machine_ids s"
    by (simp_all add: fun_eq_iff holds_def scoped_def fresh_start_def machine_ids_def split: "value.split")
  have m: "matched (frag_env (f_params en) vs) G u \<sigma>" "dom (cx_vMap u) = p_name ` set (f_params en)"
    using starts_matched [OF u d lvs(1), of \<sigma> G] h lvs(1) by (simp_all add: same)
  have "follows z b (bb_insts (ir_blocks s b)) \<sigma> oc"
    by (rule todo_body [OF td b u m(2) body m(1) ev z])
  then show ?thesis unfolding follows_def e by auto
qed

section \<open>The whole cluster\<close>

lemma laid_same: "laid t fr fr' \<Longrightarrow> f_lab fr' = f_lab fr"
  unfolding laid_def initialised_def by blast

lemma find_frag_twin:
  assumes "list_all2 (laid t) frs frs'" "find_frag frs lab = Some fr"
  shows "\<exists>fr'\<in>set frs'. f_lab fr' = lab \<and> laid t fr fr'"
proof -
  obtain i where i: "i < length frs" "frs ! i = fr" "f_lab fr = lab"
    using assms(2) by (auto simp: find_frag_def find_Some_iff)
  then have "i < length frs'" "laid t fr (frs' ! i)"
    using assms(1) by (auto simp: list_all2_conv_all_nth)
  moreover from this(2) have "f_lab (frs' ! i) = f_lab fr" by (rule laid_same)
  ultimately show ?thesis using i(3) nth_mem by metis
qed

lemma frag_eval_laid: "laid t fr fr' \<Longrightarrow> frag_eval S fr' = frag_eval S fr"
  unfolding laid_def initialised_def frag_eval_def param_types_def fun_eq_iff by (metis stm_eval_same)

text \<open>Jumps are followed by the machine.\<close>

lemma jumps_follow:
  assumes "jumps S rest oc oc'" "flow z cf0 cf" "arrives z oc cf"
    and rest: "list_all2 (laid t) rest rest'" "\<forall>fr\<in>set rest'. frag_goes S z fr"
      "\<forall>fr\<in>set rest'. cx_fragMap z (f_lab fr) = Some fr"
  shows "\<exists>cf. flow z cf0 cf \<and> arrives z oc' cf"
  using assms(1-3)
proof (induction arbitrary: cf)
  case (jumps_step lab fr vs G M oc oc')
  obtain c ins \<sigma> where cf: "cf = (c, ins, \<sigma>)" by (cases cf) auto
  obtain fr' where fr': "fr' \<in> set rest'" "f_lab fr' = lab" "laid t fr fr'"
    using find_frag_twin [OF rest(1) jumps_step.hyps(1)] by blast
  have ev: "frag_eval S fr' vs G M = Some oc"
    using jumps_step.hyps(2) by (simp add: frag_eval_laid [OF fr'(3)])
  have M: "rv_mem \<sigma> = M" using jumps_step.prems(2) by (simp add: cf)
  obtain b m where b: "stm_bb (f_body fr') = Some b" "ins = [(m, Br b)]"
    "edges_give z c \<sigma> (f_phiNodes fr') (reg_vals z G @ vs)"
    using jumps_step.prems(2) rest(3) [rule_format, OF fr'(1)] fr'(2) by (auto simp: cf)
  have "frag_goes S z fr'" using rest(2) fr'(1) by blast
  from this [unfolded frag_goes_def, rule_format, OF b(3) ev [folded M]]
  obtain cf1 cf2 where f: "enter z c b \<sigma> = Some cf1" "flow z cf1 cf2" "arrives z oc cf2"
    by (auto simp: b(1))
  have "mstep z cf = Some cf1" using f(1) by (simp add: cf b(2))
  with jumps_step.prems(1) have "flow z cf0 cf1" by (rule flow_end)
  from flow_trans [OF this f(2)] have "flow z cf0 cf2" .
  then show ?case using f(3) by (rule jumps_step.IH)
qed blast

section \<open>Before a cluster\<close>

text \<open>The state at the start of a cluster, before its fragments are initialised.\<close>

definition begun :: "cluster \<Rightarrow> cgctx \<Rightarrow> cgctx" where
  "begun c s = s\<lparr>cx_overflowBB := None, cx_overflowPhiNodes := [], cx_fragMap := (\<lambda>_. None),
     cx_curFn := c_fn c, cx_curCluster := Some c\<rparr>"

text \<open>A generator for a 64-bit target with addresses relative to the program counter, between
  clusters.\<close>

definition idle :: "target_info \<Rightarrow> cgctx \<Rightarrow> bool" where
  "idle ti s \<longleftrightarrow>
     cx_target s = ti \<and> cx_regInfo s = CMRegs_new (Some ti) \<and> \<not> usesBasePtr (CMRegs_new (Some ti)) \<and>
     {ALLOC_PTR, LIMIT_PTR, STORE_PTR} \<subseteq> set (hw_ids ti) \<and>
     cx_intTy s = i64Ty \<and> cx_wordSzB s = 8 \<and> fold_sound (ir_fold s) \<and> numbers_ok s \<and>
     (\<forall>n v b. (v, b) \<in> set (ir_phis s n) \<longrightarrow> b < ir_nblocks s)"

text \<open>It is fit for the code of the cluster when the functions that the signatures name are known.\<close>

definition poised :: "sigs \<Rightarrow> cluster \<Rightarrow> cgctx \<Rightarrow> bool" where
  "poised S c s \<longleftrightarrow>
     idle (sg_target S) s \<and> caches_ok s \<and> sp_ok s \<and>
     (\<forall>lab k tys. sg_fn S lab = Some (k, tys) \<longrightarrow> fn_known (begun c s) lab k tys)"

lemma poised_fields:
  assumes "poised S c s"
  shows "cx_target s = sg_target S" "cx_regInfo s = CMRegs_new (Some (cx_target s))"
    "\<not> usesBasePtr (cx_regInfo s)" "{ALLOC_PTR, LIMIT_PTR, STORE_PTR} \<subseteq> set (machine_ids s)"
    "cx_intTy s = i64Ty" "cx_wordSzB s = 8" "fold_sound (ir_fold s)" "numbers_ok s" "caches_ok s" "sp_ok s"
    "\<And>n v b. (v, b) \<in> set (ir_phis s n) \<Longrightarrow> b < ir_nblocks s"
    "\<And>lab k tys. sg_fn S lab = Some (k, tys) \<Longrightarrow> fn_known (begun c s) lab k tys"
proof -
  have i: "idle (sg_target S) s" using assms by (simp add: poised_def)
  then have "machine_ids s = hw_ids (sg_target S)" by (intro machine_ids_hw) (simp add: idle_def)
  with i show "cx_target s = sg_target S" "cx_regInfo s = CMRegs_new (Some (cx_target s))"
    "\<not> usesBasePtr (cx_regInfo s)" "{ALLOC_PTR, LIMIT_PTR, STORE_PTR} \<subseteq> set (machine_ids s)"
    "cx_intTy s = i64Ty" "cx_wordSzB s = 8" "fold_sound (ir_fold s)" "numbers_ok s"
    "\<And>n v b. (v, b) \<in> set (ir_phis s n) \<Longrightarrow> b < ir_nblocks s"
    by (auto simp: idle_def)
  show "caches_ok s" "sp_ok s"
    "\<And>lab k tys. sg_fn S lab = Some (k, tys) \<Longrightarrow> fn_known (begun c s) lab k tys"
    using assms by (simp_all add: poised_def)
qed

text \<open>A cluster of an entry, with its function, and internal fragments, whose labels and variables
  are distinct and whose parameters the signatures give.\<close>

definition well_formed :: "sigs \<Rightarrow> cluster \<Rightarrow> cgctx \<Rightarrow> bool" where
  "well_formed S c s \<longleftrightarrow>
     (\<exists>en rest f. c_frags c = en # rest \<and> c_fn c = Some f \<and> typed_entry en f (begun c s) \<and>
        f_kind en \<noteq> INTERNAL \<and> (\<forall>fr\<in>set rest. f_kind fr = INTERNAL) \<and>
        distinct (map f_lab (c_frags c)) \<and>
        (\<forall>fr\<in>set (c_frags c). distinct (map p_name (f_params fr) @ binders (f_body fr))) \<and>
        sg_frag S = (\<lambda>lab. map_option param_types (find_frag rest lab)))"

lemma createFnTy_fields:
  assumes "cx_regInfo t = cx_regInfo s" "cx_intTy t = cx_intTy s" "cx_curCluster t = cx_curCluster s"
    "createFnTy k tys s = Inr (ft, s)"
  shows "createFnTy k tys t = Inr (ft, t)"
proof -
  have "getArgInfo k s = Inr (info, s) \<Longrightarrow> getArgInfo k t = Inr (info, t)" for info
    using assms(1-3) by (cases k) (auto simp: getArgInfo_def cbind_def cget_def creturn_def cfail_def
        split: option.splits)
  with assms show ?thesis by (auto simp: createFnTy_eq)
qed

lemma binders_erase: "binders (erase k) = binders k"
  by (induction k rule: erase.induct) (simp_all add: o_def cong: map_cong)

lemma expandedE:
  assumes "expanded s t"
  obtains a b c d e where
    "t = s\<lparr>ir_nvals := a, ir_nblocks := b, ir_blocks := c, ir_insert := d, cx_fragMap := e\<rparr>"
proof -
  have "changed s (cx_fragMap t) t" using assms by (simp add: expanded_def)
  then show ?thesis by (rule changedE) (rule that)
qed

lemma begun_initialised:
  assumes ok: "poised S c s" "well_formed S c s" and run: "cmap frag_init (c_frags c) (begun c s) = Inr (frs, t)"
  shows "list_all2 (laid t) (c_frags c) frs" "expanded (begun c s) t"
    "\<And>fr. fr \<in> set frs \<Longrightarrow> cx_fragMap t (f_lab fr) = Some fr"
    "prepared (begun c s) t (concat (map frag_blocks frs))"
proof -
  have "init_ok (begun c s)"
    using poised_fields [OF ok(1)] ok(2) by (auto simp: well_formed_def init_ok_def begun_def)
  moreover have "distinct (map f_lab (c_frags c))" using ok(2) by (auto simp: well_formed_def)
  moreover have "dom (cx_fragMap (begun c s)) \<inter> f_lab ` set (c_frags c) = {}" by (simp add: begun_def)
  ultimately show "list_all2 (laid t) (c_frags c) frs" "expanded (begun c s) t"
    "\<And>fr. fr \<in> set frs \<Longrightarrow> cx_fragMap t (f_lab fr) = Some fr"
    using frag_inits_laid [OF run] by blast+
  show "prepared (begun c s) t (concat (map frag_blocks frs))" using frag_inits_prepared [OF run] by blast
qed

lemma laid_fit:
  assumes "laid t fr fr'" "distinct (map p_name (f_params fr) @ binders (f_body fr))"
  shows "fit t fr'"
proof -
  obtain ns b where l: "f_phiNodes fr' = map2 VInst ns (phi_types t fr)" "distinct ns"
    "length ns = length (phi_types t fr)" "set ns \<subseteq> {..<ir_nvals t}" "stm_bb (f_body fr') = Some b"
    "bb_insts (ir_blocks t b) = phi_insts ns (phi_types t fr)"
    "\<forall>d\<in>set (inner_blocks (f_body fr')). bb_insts (ir_blocks t d) = []"
    "f_kind fr' = f_kind fr" "f_params fr' = f_params fr" "erase (f_body fr') = erase (f_body fr)"
    using assms(1) unfolding laid_def initialised_def by blast
  have "phi_types t fr' = phi_types t fr" using l(8,9) by (simp add: phi_types_def param_types_def)
  moreover have "binders (f_body fr') = binders (f_body fr)" using l(10) binders_erase by metis
  ultimately show ?thesis using l assms(2) unfolding fit_def by (intro exI [of _ ns] exI [of _ b]) simp
qed

lemma laid_known:
  assumes "laid t fr fr'" "cx_fragMap t lab = Some fr'" "f_kind fr = INTERNAL"
  shows "frag_known t lab (param_types fr)"
proof -
  obtain ns b where l: "f_phiNodes fr' = map2 VInst ns (phi_types t fr)" "distinct ns"
    "length ns = length (phi_types t fr)" "stm_bb (f_body fr') = Some b" "f_kind fr' = f_kind fr"
    using assms(1) unfolding laid_def initialised_def by blast
  then show ?thesis
    using assms(2,3) unfolding frag_known_def
    by (intro exI [of _ fr'] exI [of _ ns]) (simp add: phi_types_def)
qed

lemma fn_known_expanded:
  assumes "expanded s t" "fn_known s lab k tys"
  shows "fn_known t lab k tys"
proof -
  obtain a b c d e where
    t: "t = s\<lparr>ir_nvals := a, ir_nblocks := b, ir_blocks := c, ir_insert := d, cx_fragMap := e\<rparr>"
    using assms(1) by (rule expandedE)
  from assms(2) obtain cl en f where k: "cx_clusterMap s lab = Some cl" "cluster_entry cl = Some en"
    "f_kind en = k" "c_fn cl = Some f" "f < length (ir_fns s)"
    "createFnTy k (map lty_of tys) s = Inr (fn_ty (ir_fns s ! f), s)"
    unfolding fn_known_def by blast
  from k(6) have "createFnTy k (map lty_of tys) t = Inr (fn_ty (ir_fns s ! f), t)"
    by (rule createFnTy_fields [rotated 3]) (simp_all add: t)
  with k show ?thesis
    unfolding fn_known_def by (intro exI [of _ cl] exI [of _ en] exI [of _ f]) (simp add: t)
qed

lemma begun_between:
  assumes ok: "poised S c s" "well_formed S c s" and run: "cmap frag_init (c_frags c) (begun c s) = Inr (frs, t)"
  shows "between S t"
proof -
  note i = begun_initialised [OF ok run]
  obtain a b' c' d e where t: "t = (begun c s)\<lparr>ir_nvals := a, ir_nblocks := b', ir_blocks := c',
      ir_insert := d, cx_fragMap := e\<rparr>"
    using i(2) by (rule expandedE)
  obtain en rest where w: "c_frags c = en # rest" "\<forall>fr\<in>set rest. f_kind fr = INTERNAL"
    "sg_frag S = (\<lambda>lab. map_option param_types (find_frag rest lab))" "c_fn c \<noteq> None"
    using ok(2) unfolding well_formed_def by blast
  have f: "cx_intTy s = i64Ty" "cx_wordSzB s = 8" "fold_sound (ir_fold s)" "caches_ok s" "sp_ok s"
    "\<not> usesBasePtr (cx_regInfo s)" "{ALLOC_PTR, LIMIT_PTR, STORE_PTR} \<subseteq> set (machine_ids s)"
    by (rule poised_fields [OF ok(1)])+
  have "numbers_ok (begun c s)" using poised_fields(8) [OF ok(1)] by (simp add: begun_def numbers_ok_def)
  then have n: "numbers_ok t" using i(2) by (simp add: expanded_def)
  have frag: "frag_known t lab tys" if l: "sg_frag S lab = Some tys" for lab tys
  proof -
    obtain fr where fr: "find_frag rest lab = Some fr" "tys = param_types fr"
      using l by (auto simp: w(3))
    obtain en' rest' where frs: "frs = en' # rest'" "list_all2 (laid t) rest rest'"
      using i(1) by (auto simp: w(1) list_all2_Cons1)
    obtain fr' where fr': "fr' \<in> set rest'" "f_lab fr' = lab" "laid t fr fr'"
      using find_frag_twin [OF frs(2) fr(1)] by blast
    have "fr \<in> set rest" using fr(1) by (auto simp: find_frag_def find_Some_iff)
    moreover have "cx_fragMap t lab = Some fr'" using i(3) [of fr'] fr' frs(1) by auto
    ultimately show ?thesis using laid_known [OF fr'(3)] w(2) by (simp add: fr(2))
  qed
  have fn: "fn_known t lab k tys" if "sg_fn S lab = Some (k, tys)" for lab k tys
    by (rule fn_known_expanded [OF i(2) poised_fields(12) [OF ok(1) that]])
  let ?t = "t\<lparr>ir_insert := Some 0\<rparr>"
  have "sigs_hold S t"
    using frag fn poised_fields(1) [OF ok(1)] by (simp add: sigs_hold_def) (simp add: t begun_def)
  moreover have "surround t ?t" by (simp add: surround_def)
  ultimately have "sigs_hold S ?t" using sigs_hold_surround by blast
  moreover have "numbers_ok ?t" using n by (simp add: numbers_ok_def)
  moreover have "ctx_ok ?t" "caches_ok ?t" "base_ok ?t" "\<not> usesBasePtr (cx_regInfo ?t)"
    "cx_curCluster ?t \<noteq> None" "{ALLOC_PTR, LIMIT_PTR, STORE_PTR} \<subseteq> set (machine_ids ?t)"
    using f w(4)
    by (simp_all add: t begun_def ctx_ok_def caches_ok_def base_ok_def sp_ok_def phis_ok_def machine_ids_def)
  ultimately show ?thesis by (simp add: between_def stage_def)
qed

lemma begun_todo:
  assumes ok: "poised S c s" "well_formed S c s" and run: "cmap frag_init (c_frags c) (begun c s) = Inr (frs, t)"
  shows "todo S t frs"
proof -
  note i = begun_initialised [OF ok run]
  have b: "between S t" by (rule begun_between [OF ok run])
  moreover have "ready t (concat (map frag_blocks frs))" by (rule prepared_ready [OF i(4)])
  moreover have "unlinked t (set (concat (map frag_blocks frs)))"
  proof -
    have "ir_phis t = ir_phis s" "ir_nblocks s \<le> ir_nblocks t"
      using expanded_fields(4) [OF i(2)] i(2) by (simp_all add: begun_def expanded_def)
    moreover have "set (concat (map frag_blocks frs)) = {ir_nblocks s..<ir_nblocks t}"
      using i(4) by (simp add: prepared_def begun_def)
    ultimately show ?thesis using poised_fields(11) [OF ok(1)] unfolding unlinked_def by fastforce
  qed
  moreover have "fit t fr'" if fr': "fr' \<in> set frs" for fr'
  proof -
    obtain fr where "fr \<in> set (c_frags c)" "laid t fr fr'"
      using i(1) fr' by (metis in_set_conv_nth list_all2_conv_all_nth)
    with ok(2) show ?thesis by (auto simp: well_formed_def intro!: laid_fit)
  qed
  moreover have "cx_regInfo t = CMRegs_new (Some (cx_target t))"
  proof -
    obtain a b c' d e where "t = (begun c s)\<lparr>ir_nvals := a, ir_nblocks := b, ir_blocks := c',
      ir_insert := d, cx_fragMap := e\<rparr>"
      using i(2) by (rule expandedE)
    then show ?thesis using poised_fields(2) [OF ok(1)] by (simp add: begun_def)
  qed
  ultimately show ?thesis by (simp add: todo_def)
qed

section \<open>The theorem\<close>

lemma cluster_run:
  assumes ok: "poised S c s" "well_formed S c s" and run: "cluster_codegen c s = Inr ((), t)"
  obtains en rest f en' rest' s1 s2 where "c_frags c = en # rest" "f_kind en \<noteq> INTERNAL"
    "cmap frag_init (c_frags c) (begun c s) = Inr (en' # rest', s1)" "todo S s1 (en' # rest')"
    "laid s1 en en'" "list_all2 (laid s1) rest rest'"
    "\<forall>fr\<in>set rest'. cx_fragMap s1 (f_lab fr) = Some fr" "stm_bb (f_body en') = Some (ir_nblocks s)"
    "cx_curFn s1 = Some f" "typed_entry en' f s1"
    "frag_codegen en' True s1 = Inr ((), s2)"
    "cforeach rest' (\<lambda>fr. frag_codegen fr False) s2 = Inr ((), t)"
proof -
  obtain en rest f where w: "c_frags c = en # rest" "c_fn c = Some f" "typed_entry en f (begun c s)"
    "f_kind en \<noteq> INTERNAL"
    using ok(2) unfolding well_formed_def by blast
  from run obtain frs s1 where init: "cmap frag_init (c_frags c) (begun c s) = Inr (frs, s1)"
    and gen: "(case frs of [] \<Rightarrow> cfail IndexOutOfRange
             | fr # rest \<Rightarrow> cthen (frag_codegen fr True) (cforeach rest (\<lambda>fr. frag_codegen fr False))) s1 =
      Inr ((), t)"
    unfolding cluster_codegen_def beginCluster_def begun_def w(2) cassert_def
    by (auto elim!: cbind_InrE cthen_InrE simp: endCluster_def creturn_def cmodify_def)
  note i = begun_initialised [OF ok init]
  obtain en' rest' where frs: "frs = en' # rest'" "laid s1 en en'" "list_all2 (laid s1) rest rest'"
    using i(1) by (auto simp: w(1) list_all2_Cons1)
  from gen obtain s2 where s2: "frag_codegen en' True s1 = Inr ((), s2)"
    "cforeach rest' (\<lambda>fr. frag_codegen fr False) s2 = Inr ((), t)"
    by (auto simp: frs(1) elim!: cthen_InrE)
  obtain b where b: "stm_bb (f_body en') = Some b"
    using frs(2) unfolding laid_def by blast
  have "[ir_nblocks s..<ir_nblocks s1] = b # inner_blocks (f_body en') @ concat (map frag_blocks rest')"
    using i(4) b by (simp add: prepared_def begun_def frs(1) frag_blocks_def all_blocks_def own_blocks_def)
  then have b': "b = ir_nblocks s" by (simp add: upt_eq_Cons_conv)
  obtain p q r v m where s1: "s1 = (begun c s)\<lparr>ir_nvals := p, ir_nblocks := q, ir_blocks := r,
      ir_insert := v, cx_fragMap := m\<rparr>"
    using i(2) by (rule expandedE)
  have same: "f_kind en' = f_kind en" "param_types en' = param_types en"
    using frs(2) unfolding laid_def initialised_def param_types_def by auto
  have "createFnTy (f_kind en) (map lty_of (param_types en)) s1 =
      Inr (fn_ty (ir_fns (begun c s) ! f), s1)"
    by (rule createFnTy_fields [OF _ _ _ w(3) [unfolded typed_entry_def]]) (simp_all add: s1)
  then have "typed_entry en' f s1" unfolding typed_entry_def same by (simp add: s1)
  moreover have "cx_curFn s1 = Some f" by (simp add: s1 begun_def w(2))
  ultimately show ?thesis
    using i(3) b b' s2 frs init begun_todo [OF ok init] w(1,4)
    by (intro that [of en rest en' rest' s1 f s2]) simp_all
qed

theorem cluster_follows:
  assumes ok: "poised S c s" "well_formed S c s" and run: "cluster_codegen c s = Inr ((), t)"
    and z: "finished t z"
    and en: "cluster_entry c = Some en" and p: "passed s (f_kind en) vs G \<sigma>"
    and goes: "cluster_goes S c vs G (rv_mem \<sigma>) oc"
  shows "\<exists>cf. flow z (ir_nblocks s, bb_insts (ir_blocks z (ir_nblocks s)), \<sigma>) cf \<and> arrives z oc cf"
proof -
  obtain en0 rest f en' rest' s1 s2 where r: "c_frags c = en0 # rest" "f_kind en0 \<noteq> INTERNAL"
    "cmap frag_init (c_frags c) (begun c s) = Inr (en' # rest', s1)" "todo S s1 (en' # rest')"
    "laid s1 en0 en'" "list_all2 (laid s1) rest rest'"
    "\<forall>fr\<in>set rest'. cx_fragMap s1 (f_lab fr) = Some fr" "stm_bb (f_body en') = Some (ir_nblocks s)"
    "cx_curFn s1 = Some f" "typed_entry en' f s1"
    "frag_codegen en' True s1 = Inr ((), s2)"
    "cforeach rest' (\<lambda>fr. frag_codegen fr False) s2 = Inr ((), t)"
    by (rule cluster_run [OF ok run])
  have en0: "en0 = en" using en r(1) by (simp add: cluster_entry_def)
  have k: "f_kind en' = f_kind en" using r(5) unfolding laid_def initialised_def en0 by blast
  obtain oc0 where oc0: "frag_eval S en vs G (rv_mem \<sigma>) = Some oc0" "jumps S rest oc0 oc"
    using goes by (auto simp: cluster_goes_def r(1) en0 split: option.splits)
  obtain u where u:
    "starts (fresh_start s1 (ir_nblocks s)) (formal s1 f) (length (machine_ids s1) + n_unused (f_kind en'))
       (f_params en') u" "stm_codegen (f_body en') u = Inr ((), s2)"
    by (rule entry_run [OF r(4,11,8-10)])
  note step = body_step [OF r(4,8) u]
  have go: "(\<forall>fr\<in>set rest'. frag_goes S z fr) \<and> todo S t [] \<and> outlasts s2 t \<and> based s2 t \<and> ir_nblocks s2 \<le> ir_nblocks t \<and>
    (\<forall>x<ir_nblocks s2. x \<notin> set (concat (map frag_blocks rest')) \<longrightarrow> ir_blocks t x = ir_blocks s2 x)"
    by (rule frags_go [OF step(1) r(12) z])
  have z': "outlasts s2 z" "based s2 z" "outlasts s1 z"
    using go z step(2) unfolding finished_def by (blast intro: outlasts_trans based.keeps_trans)+
  have blk: "ir_blocks z x = ir_blocks s2 x"
    if "x < ir_nblocks s2" "x \<notin> set (concat (map frag_blocks rest'))" for x
    using that go z unfolding finished_def by (metis order_less_le_trans)
  have ids: "machine_ids s1 = machine_ids s" "reg_vals s1 G = reg_vals s G"
    using expanded_fields(1) [OF begun_initialised(2) [OF ok r(3)]]
    by (simp_all add: begun_def machine_ids_def reg_vals_def)
  have "passed s1 (f_kind en') vs G \<sigma>" using p by (simp add: passed_def ids k)
  moreover have "frag_eval S en' vs G (rv_mem \<sigma>) = Some oc0"
    using oc0(1) frag_eval_laid [OF r(5)] by (simp add: en0)
  moreover have "f_kind en' \<noteq> INTERNAL" using k r(2) en0 by simp
  ultimately obtain cf0 where
    cf0: "flow z (ir_nblocks s, bb_insts (ir_blocks z (ir_nblocks s)), \<sigma>) cf0" "arrives z oc0 cf0"
    using entry_goes [OF r(4,11,8) _ r(9,10) z'(1,2) blk] by blast
  have "\<forall>fr\<in>set rest'. cx_fragMap z (f_lab fr) = Some fr"
    using r(7) z'(3) by (simp add: outlasts_def surround_def)
  from jumps_follow [OF oc0(2) cf0 r(6) conjunct1 [OF go] this] show ?thesis .
qed

section \<open>After a cluster\<close>

text \<open>From the code of one cluster to that of later ones, the module stays and blocks that are
  finished stay as they are.\<close>

definition endures :: "cgctx \<Rightarrow> cgctx \<Rightarrow> bool" where
  "endures s t \<longleftrightarrow>
     ir_fold t = ir_fold s \<and> ir_module t = ir_module s \<and> ir_fns t = ir_fns s \<and>
     cx_target t = cx_target s \<and> cx_regInfo t = cx_regInfo s \<and> cx_wordSzB t = cx_wordSzB s \<and>
     cx_intTy t = cx_intTy s \<and> cx_clusterMap t = cx_clusterMap s \<and>
     ir_nvals s \<le> ir_nvals t \<and> ir_nblocks s \<le> ir_nblocks t \<and>
     (\<forall>b<ir_nblocks s. ir_blocks t b = ir_blocks s b) \<and> (\<forall>n. \<exists>es. ir_phis t n = ir_phis s n @ es)"

lemma endures_refl [simp]: "endures s s"
  by (simp add: endures_def)

lemma endures_trans:
  assumes "endures s t" "endures t u"
  shows "endures s u"
proof -
  have "\<exists>es. ir_phis u n = ir_phis s n @ es" for n
    using assms unfolding endures_def by (metis append_assoc)
  with assms show ?thesis by (simp add: endures_def)
qed

lemma outlasts_endures:
  "outlasts s t \<Longrightarrow> ir_nblocks s \<le> ir_nblocks t \<Longrightarrow>
     (\<And>b. b < ir_nblocks s \<Longrightarrow> ir_blocks t b = ir_blocks s b) \<Longrightarrow> endures s t"
  by (simp add: outlasts_def surround_def endures_def)

lemma cluster_ends:
  assumes ok: "poised S c s" "well_formed S c s" and run: "cluster_codegen c s = Inr ((), t)"
  shows "endures s t" "idle (sg_target S) t" "caches_ok t" "base_ok t" "ir_nblocks s < ir_nblocks t"
proof -
  obtain en0 rest f en' rest' s1 s2 where r: "c_frags c = en0 # rest" "f_kind en0 \<noteq> INTERNAL"
    "cmap frag_init (c_frags c) (begun c s) = Inr (en' # rest', s1)" "todo S s1 (en' # rest')"
    "laid s1 en0 en'" "list_all2 (laid s1) rest rest'"
    "\<forall>fr\<in>set rest'. cx_fragMap s1 (f_lab fr) = Some fr" "stm_bb (f_body en') = Some (ir_nblocks s)"
    "cx_curFn s1 = Some f" "typed_entry en' f s1"
    "frag_codegen en' True s1 = Inr ((), s2)"
    "cforeach rest' (\<lambda>fr. frag_codegen fr False) s2 = Inr ((), t)"
    by (rule cluster_run [OF ok run])
  obtain u where u:
    "starts (fresh_start s1 (ir_nblocks s)) (formal s1 f) (length (machine_ids s1) + n_unused (f_kind en'))
       (f_params en') u" "stm_codegen (f_body en') u = Inr ((), s2)"
    by (rule entry_run [OF r(4,11,8-10)])
  note step = body_step [OF r(4,8) u] and i = begun_initialised [OF ok r(3)]
  have "finished t t" by (simp add: finished_def based.keeps_refl)
  note go = frags_go [OF step(1) r(12) this]
  have o: "outlasts s1 t" using go step(2) by (blast intro: outlasts_trans)
  have bs: "set (concat (map frag_blocks (en' # rest'))) = {ir_nblocks s..<ir_nblocks s1}"
    using i(4) by (simp add: prepared_def begun_def del: set_concat)
  have nb: "ir_nblocks s \<le> ir_nblocks s1" "\<And>b. b < ir_nblocks s \<Longrightarrow> ir_blocks s1 b = ir_blocks s b"
    using i(2) by (simp_all add: expanded_def begun_def)
  have "ir_blocks t b = ir_blocks s b" if "b < ir_nblocks s" for b
  proof -
    have "b \<notin> set (frag_blocks en')" "b \<notin> set (concat (map frag_blocks rest'))"
      using bs [unfolded set_eq_iff, rule_format, of b] that by (simp_all del: set_concat)
    with that nb step(4) step(5) [of b] go show ?thesis by (simp del: set_concat)
  qed
  moreover obtain a b' c' d e where s1: "s1 = (begun c s)\<lparr>ir_nvals := a, ir_nblocks := b', ir_blocks := c',
      ir_insert := d, cx_fragMap := e\<rparr>"
    using i(2) by (rule expandedE)
  moreover have "ir_nvals s \<le> ir_nvals s1" using i(2) by (simp add: expanded_def begun_def)
  moreover have "ir_nblocks s1 \<le> ir_nblocks t" using step(4) go by simp
  ultimately show "endures s t"
    using o nb(1) by (simp add: endures_def outlasts_def surround_def begun_def del: set_concat)
  have "ir_nblocks s \<in> set (concat (map frag_blocks (en' # rest')))"
    using r(8) by (simp add: frag_blocks_def all_blocks_def own_blocks_def)
  then have "ir_nblocks s < ir_nblocks s1" unfolding bs by simp
  then show "ir_nblocks s < ir_nblocks t" using step(4) go by simp
  have td: "between S t" "unlinked t {}" "cx_regInfo t = CMRegs_new (Some (cx_target t))"
    using go by (simp_all add: todo_def)
  then have st: "stage S (t\<lparr>ir_insert := Some 0\<rparr>)" by (simp add: between_def)
  then show "caches_ok t" "base_ok t"
    by (auto simp: stage_def caches_ok_def base_ok_def sp_ok_def phis_ok_def)
  have "cx_target t = sg_target S" using between_fields(3) [OF td(1)] .
  moreover have "machine_ids t = hw_ids (sg_target S)" using td(3) calculation by (intro machine_ids_hw) simp
  moreover have "machine_ids (t\<lparr>ir_insert := Some 0\<rparr>) = machine_ids t" by (simp add: machine_ids_def)
  ultimately show "idle (sg_target S) t"
    using st td(2,3) by (auto simp: idle_def stage_def ctx_ok_def numbers_ok_def unlinked_def)
qed

end
