(* ===== verification/Simulation_Properties.thy ===== *)
theory Simulation_Properties
  imports Cluster_Simulation Sample_State
begin

text \<open>
  Properties of the generated code as a whole: the code of a statement, and the code of a cluster,
  takes the machine to where the source goes.
\<close>

lemma x86_machine_ids:
  "cx_regInfo s = CMRegs_new (Some (X86_64Info b)) \<Longrightarrow> machine_ids s = [ALLOC_PTR, LIMIT_PTR, STORE_PTR]"
  by (simp add: machine_ids_def X86_64Info_def run_defs eval_nat_numeral)

section \<open>Statements\<close>

text \<open>C5: The code of a statement does what the statement does.  Let code be generated for the
  statement \<open>k\<close> in the block \<open>c\<close>, in a state \<open>s\<close> that is fit for it, and let the machine state
  represent the variables and the registers.  If the statement goes to \<open>oc\<close> (a jump to another
  fragment, a call, a continuation, or an overflow, with its arguments, registers and memory), then
  the machine, started at the new code in the block \<open>c\<close> of the finished function \<open>z\<close>, gets to a
  branch, a call or the overflow branch that does this, with these values.\<close>

theorem statement_simulated:
  assumes "launch S k s c" "stm_codegen k s = Inr ((), t)" "matched \<rho> G s \<sigma>"
    "stm_eval S \<rho> G (rv_mem \<sigma>) k = Some oc" "settled t z (region s t c (inner_blocks k))"
  shows "\<exists>new cf. bb_insts (ir_blocks z c) = bb_insts (ir_blocks s c) @ new \<and>
    flow z (c, new, \<sigma>) cf \<and> arrives z oc cf"
  using stm_simulates [of S k] assms unfolding simulates_def follows_def by blast

definition twice_stm :: stm where
  "twice_stm = ARITH None (ARITH_prim IADD 64) [VAR 2, VAR 2] (sample_param 3 (NUMt 64))
     (THROW None (VAR 1) [VAR 1, VAR 3] [PTRt, NUMt 64])"

definition twice_ctx :: cgctx where
  "twice_ctx = work_ctx\<lparr>cx_vMap := [1 \<mapsto> VArg 5 PtrTy, 2 \<mapsto> VArg 6 i64Ty],
     cx_curCluster := Some sample_cluster\<rparr>"

definition work_sigs :: sigs where
  "work_sigs = \<lparr>sg_target = X86_64Info sample_build, sg_frag = (\<lambda>_. None), sg_fn = (\<lambda>_. None)\<rparr>"

definition work_Regs :: regs where
  "work_Regs r = 4096 * (of_nat (reg_num r) + 1)"

lemmas work_eval_defs =
  lty_of_def iType_def as_int_def arith_exact_def Let_def trapping_def fits_signed_def sval_def
  signed_take_bit_eq_if_positive signed_take_bit_eq_if_negative take_bit_eq_mod as_num_def compares_def int_size_def

lemma twice_simps [simp]:
  "cx_target twice_ctx = X86_64Info sample_build" "cx_vMap twice_ctx = [1 \<mapsto> VArg 5 PtrTy, 2 \<mapsto> VArg 6 i64Ty]"
  "cx_regInfo twice_ctx = CMRegs_new (Some (X86_64Info sample_build))" "cx_curCluster twice_ctx \<noteq> None"
  "ir_insert twice_ctx = Some 0" "ir_nblocks twice_ctx = 1" "cx_regState twice_ctx = work_regs"
  "bb_insts (ir_blocks twice_ctx b) = []" "ir_phis twice_ctx n = []" "ctx_ok twice_ctx" "caches_ok twice_ctx"
  using work_ctx_simps work_caches_ok
  by (simp_all add: twice_ctx_def ctx_ok_def caches_ok_def)
    (simp_all add: work_ctx_def sample_ctx_def Context_init_def empty_block_def)

lemma x86_hw: "set (hw_ids (X86_64Info b)) = {ALLOC_PTR, LIMIT_PTR, STORE_PTR}"
proof -
  let ?s = "Context_init (\<lambda>_. None) (X86_64Info b)"
  have "machine_ids ?s = hw_ids (X86_64Info b)" by (rule machine_ids_hw) (simp add: Context_init_def)
  moreover have "machine_ids ?s = [ALLOC_PTR, LIMIT_PTR, STORE_PTR]"
    by (rule x86_machine_ids [of _ b]) (simp add: Context_init_def)
  ultimately have "hw_ids (X86_64Info b) = [ALLOC_PTR, LIMIT_PTR, STORE_PTR]" by (rule subst)
  then show ?thesis by simp
qed

lemma x86_no_base: "\<not> usesBasePtr (CMRegs_new (Some (X86_64Info b)))"
  by (simp add: X86_64Info_def run_defs)

lemma twice_holds: "holds twice_ctx = holds work_ctx"
  by (simp add: fun_eq_iff holds_def scoped_def twice_ctx_def split: "value.split")

lemma twice_launch: "launch work_sigs twice_stm twice_ctx 0"
proof -
  have "base_ok twice_ctx"
    using work_overflow_ok unfolding overflow_ok_base base_ok_def
    by (auto simp: twice_ctx_def sp_ok_def phis_ok_def)
  moreover have "sigs_hold work_sigs twice_ctx" by (simp add: sigs_hold_def work_sigs_def)
  moreover have "unfinished (ir_blocks twice_ctx 0)" by (rule unfinished_empty) simp
  ultimately show ?thesis
    by (auto simp: launch_def stage_def numbers_ok_def x86_machine_ids x86_no_base ready_def unlinked_def
        twice_stm_def sample_param_def)
qed

lemma twice_matched: "matched [1 \<mapsto> RP 24576, 2 \<mapsto> RI 64 5] work_Regs twice_ctx work_state"
  using work_holds(1) [of 0] work_holds(1) [of 1] work_holds(1) [of 2] work_holds(1) [of 5] work_holds(2)
  by (auto simp: matched_def env_holds_def twice_holds x86_machine_ids work_Regs_def algebra_simps
      split: if_splits)

lemma twice_run: "case stm_codegen twice_stm twice_ctx of Inl _ \<Rightarrow> False | Inr _ \<Rightarrow> True"
  by (simp add: run_defs sample_defs twice_stm_def twice_ctx_def work_ctx_def work_regs_def)

lemma statement_simulated_witness:
  "\<exists>t cf. stm_codegen twice_stm twice_ctx = Inr ((), t) \<and>
     flow t (0, bb_insts (ir_blocks t 0), work_state) cf \<and>
     arrives t (Leave STD_CONT (Address 24576) [RP 24576, RI 64 10] work_Regs (rv_mem work_state)) cf"
proof -
  let ?oc = "Leave STD_CONT (Address 24576) [RP 24576, RI 64 10] work_Regs (rv_mem work_state)"
  obtain t where t: "stm_codegen twice_stm twice_ctx = Inr ((), t)"
    using twice_run by (auto split: sum.splits)
  have "stm_eval work_sigs [1 \<mapsto> RP 24576, 2 \<mapsto> RI 64 5] work_Regs (rv_mem work_state) twice_stm = Some ?oc"
    by (simp add: twice_stm_def sample_param_def arith_result_def leave_def dest_eval_def pass_def as_ty_def
        work_eval_defs)
  moreover have "settled t t (region twice_ctx t 0 (inner_blocks twice_stm))"
    by (simp add: settled_def based.keeps_refl)
  ultimately obtain new cf where "bb_insts (ir_blocks t 0) = bb_insts (ir_blocks twice_ctx 0) @ new"
    "flow t (0, new, work_state) cf" "arrives t ?oc cf"
    using statement_simulated [OF twice_launch t twice_matched] by blast
  moreover have "bb_insts (ir_blocks twice_ctx 0) = []"
    by (simp add: twice_ctx_def work_ctx_def sample_ctx_def Context_init_def empty_block_def)
  ultimately have "flow t (0, bb_insts (ir_blocks t 0), work_state) cf \<and> arrives t ?oc cf" by simp
  with t show ?thesis by blast
qed

section \<open>Clusters\<close>

text \<open>C4: The code of a cluster does what the cluster does.  Let code be generated for the well-formed
  cluster \<open>c\<close> in a module that is fit for it, and let the function of \<open>c\<close> be called with the values \<open>vs\<close>
  in its arguments, after the registers.  Wherever the cluster goes, through any number of jumps
  between its fragments, the machine gets there, starting at the first block that the cluster has
  added: to a jump, to a call with the same callee, arguments, registers and memory, or to the
  branch to the overflow block.\<close>

theorem cluster_simulated:
  assumes "poised S c s" "well_formed S c s" "cluster_codegen c s = Inr ((), z)"
    "cluster_entry c = Some en" "passed s (f_kind en) vs G \<sigma>" "cluster_goes S c vs G (rv_mem \<sigma>) oc"
  shows "\<exists>cf. flow z (ir_nblocks s, bb_insts (ir_blocks z (ir_nblocks s)), \<sigma>) cf \<and> arrives z oc cf"
  using cluster_follows [OF assms(1-3) _ assms(4-6)] by (simp add: finished_def based.keeps_refl)

definition mod_cluster :: cluster where
  "mod_cluster = sample_cluster\<lparr>c_fn := Some 0\<rparr>"

definition mod_ctx :: cgctx where
  "mod_ctx = sample_ctx\<lparr>ir_module := Some 0, ir_nmodules := 1,
     ir_fns := [\<lparr>fn_ty = \<lparr>ft_ret = VoidTy, ft_params = [PtrTy, PtrTy, PtrTy, PtrTy, PtrTy, PtrTy, i64Ty]\<rparr>, fn_name = ''fn7'',
       fn_module = 0, fn_public = False, fn_cc = CC_JWA, fn_nounwind = True\<rparr>]\<rparr>"

definition mod_sigs :: sigs where
  "mod_sigs = \<lparr>sg_target = X86_64Info sample_build,
     sg_frag = (\<lambda>lab. map_option param_types (find_frag (tl sample_frags) lab)), sg_fn = (\<lambda>_. None)\<rparr>"

text \<open>Argument 5 is a pointer, 6 the number -1, which is not less than its double.\<close>

definition mod_state :: rstate where
  "mod_state = work_state\<lparr>rv_arg := (rv_arg work_state)(6 := Some (RI 64 18446744073709551615))\<rparr>"

lemma mod_poised: "poised mod_sigs mod_cluster mod_ctx"
proof -
  have r: "cx_regInfo mod_ctx = CMRegs_new (Some (X86_64Info sample_build))"
    "cx_target mod_ctx = X86_64Info sample_build"
    by (simp_all add: mod_ctx_def sample_ctx_def Context_init_def)
  have "numbers_ok mod_ctx" "caches_ok mod_ctx" "sp_ok mod_ctx" "\<And>n. ir_phis mod_ctx n = []"
    by (simp_all add: mod_ctx_def sample_ctx_def Context_init_def numbers_ok_def caches_ok_def sp_ok_def
        isIntegerTy_def X86_64Info_def empty_block_def)
  moreover have "cx_intTy mod_ctx = i64Ty" "cx_wordSzB mod_ctx = 8" "fold_sound (ir_fold mod_ctx)"
    by (simp_all add: mod_ctx_def sample_ctx_def Context_init_def X86_64Info_def)
  ultimately show ?thesis
    unfolding poised_def idle_def r by (simp add: x86_no_base x86_hw mod_sigs_def)
qed

lemma mod_typed: "createFnTy STD_CONT [PtrTy, i64Ty] (begun c mod_ctx) =
    Inr (fn_ty (ir_fns (begun c mod_ctx) ! 0), begun c mod_ctx)"
  by (simp add: begun_def mod_ctx_def run_defs sample_ctx_def eval_nat_numeral)

lemma mod_cluster_simps [simp]: "c_frags mod_cluster = sample_frags" "c_fn mod_cluster = Some 0"
  by (simp_all add: mod_cluster_def sample_cluster_def)

lemma mod_well_formed: "well_formed mod_sigs mod_cluster mod_ctx"
proof -
  have "typed_entry (hd sample_frags) 0 (begun mod_cluster mod_ctx)"
    using mod_typed [of mod_cluster]
    by (simp add: typed_entry_def sample_frags_def sample_param_def param_types_def lty_of_def iType_def)
  moreover have "sample_frags = hd sample_frags # tl sample_frags" by (simp add: sample_frags_def)
  ultimately show ?thesis
    unfolding well_formed_def mod_cluster_simps
    by (intro exI [of _ "hd sample_frags"] exI [of _ "tl sample_frags"] exI [of _ 0])
      (simp add: mod_sigs_def sample_frags_def sample_body_def sample_param_def)
qed

lemma mod_run: "case cluster_codegen mod_cluster mod_ctx of Inl _ \<Rightarrow> False | Inr _ \<Rightarrow> True"
  by (simp add: run_defs sample_defs mod_cluster_def mod_ctx_def)

abbreviation mod_vals :: "rval list" where
  "mod_vals \<equiv> [RP 24576, RI 64 18446744073709551615]"

lemma mod_passed: "passed mod_ctx STD_CONT mod_vals work_Regs mod_state"
  unfolding passed_def
  by (simp add: reg_vals_def x86_machine_ids mod_ctx_def sample_ctx_def Context_init_def n_unused_def
      mod_state_def work_state_def work_Regs_def eval_nat_numeral less_Suc_eq all_conj_distrib)

lemma mod_entry: "frag_eval mod_sigs (hd sample_frags) mod_vals work_Regs M = Some (Jump 8 [RP 24576] work_Regs M)"
  by (simp add: sample_frags_def frag_eval_def frag_env_def sample_param_def sample_body_def mod_sigs_def
      find_frag_def param_types_def pass_def as_ty_def arith_result_def branch_eval_def work_eval_defs)

lemma mod_jump: "frag_eval mod_sigs (sample_frags ! 1) [RP 24576] work_Regs M =
    Some (Leave STD_CONT (Address 24576) [RP 24576] work_Regs M)"
  by (simp add: sample_frags_def frag_eval_def frag_env_def sample_param_def param_types_def leave_def
      dest_eval_def pass_def as_ty_def work_eval_defs)

lemma mod_goes: "cluster_goes mod_sigs mod_cluster mod_vals work_Regs M
    (Leave STD_CONT (Address 24576) [RP 24576] work_Regs M)"
proof -
  obtain en fr where fr: "sample_frags = [en, fr]" "f_lab fr = 8" by (simp add: sample_frags_def)
  then have "find_frag [fr] 8 = Some fr" by (simp add: find_frag_def)
  then show ?thesis
    using mod_entry [of M] mod_jump [of M]
    by (auto simp: cluster_goes_def fr(1) intro!: jumps.intros)
qed

lemma cluster_simulated_witness:
  "\<exists>z cf. cluster_codegen mod_cluster mod_ctx = Inr ((), z) \<and>
     flow z (0, bb_insts (ir_blocks z 0), mod_state) cf \<and>
     arrives z (Leave STD_CONT (Address 24576) [RP 24576] work_Regs (rv_mem mod_state)) cf"
proof -
  obtain z where z: "cluster_codegen mod_cluster mod_ctx = Inr ((), z)"
    using mod_run by (auto split: sum.splits)
  obtain en where en: "cluster_entry mod_cluster = Some en" "f_kind en = STD_CONT"
    by (simp add: sample_frags_def cluster_entry_def)
  have "passed mod_ctx (f_kind en) mod_vals work_Regs mod_state" using mod_passed en(2) by simp
  from cluster_simulated [OF mod_poised mod_well_formed z en(1) this mod_goes] z
  show ?thesis by (simp add: mod_ctx_def sample_ctx_def Context_init_def del: arrives.simps)
qed

end
