(* ===== verification/Block_Owner.thy ===== *)
theory Block_Owner
  imports Lasting
begin

text \<open>
  The function that a block belongs to: every block that the code of a cluster adds is a block of
  the current function, and stays one.
\<close>

definition owned :: "cgctx \<Rightarrow> cgctx \<Rightarrow> bool" where
  "owned s t \<longleftrightarrow>
     cx_curFn t = cx_curFn s \<and> ir_nblocks s \<le> ir_nblocks t \<and>
     (\<forall>b<ir_nblocks s. bb_fn (ir_blocks t b) = bb_fn (ir_blocks s b)) \<and>
     (\<forall>b. ir_nblocks s \<le> b \<longrightarrow> b < ir_nblocks t \<longrightarrow> cx_curFn s = Some (bb_fn (ir_blocks t b)))"

lemma owned_same:
  "cx_curFn t = cx_curFn s \<Longrightarrow> ir_nblocks t = ir_nblocks s \<Longrightarrow>
     (\<And>b. bb_fn (ir_blocks t b) = bb_fn (ir_blocks s b)) \<Longrightarrow> owned s t"
  by (simp add: owned_def)

lemma owned_modify:
  "(\<And>s. cx_curFn (f s) = cx_curFn s) \<Longrightarrow> (\<And>s. ir_nblocks (f s) = ir_nblocks s) \<Longrightarrow>
     (\<And>s b. bb_fn (ir_blocks (f s) b) = bb_fn (ir_blocks s b)) \<Longrightarrow> keeps owned (cmodify f)"
  by (auto simp: keeps_def cmodify_def intro: owned_same)

lemma owned_append: "keeps owned (ir_append i)"
  by (auto simp: keeps_def intro!: owned_same dest!: ir_append_Some)

interpretation owned: stm_frame owned
proof unfold_locales
  show "owned s s" for s by (simp add: owned_def)
  show "owned s u" if "owned s t" "owned t u" for s t u
  proof -
    have "cx_curFn s = Some (bb_fn (ir_blocks u b))" if "ir_nblocks s \<le> b" "b < ir_nblocks u" for b
      using that \<open>owned s t\<close> \<open>owned t u\<close> by (cases "b < ir_nblocks t") (auto simp: owned_def)
    with that show ?thesis by (auto simp: owned_def)
  qed
  show "keeps owned (ir_append i)" for i by (rule owned_append)
qed (auto simp: keeps_def set_basePtr_def phi_addIncoming_def setInvarianteLoadMD_def
      createGlobalAlias_def intr_get_def initSPAccess_def current_module_def GetInsertBlock_def cg_simps
      cthe_def cassert_def cthen_def cbind_def cfail_def setRegState_def restoreSMLRegState_def
      clear_basePtr_def insertVal_def cmodify_def intro!: owned_same
      split: if_splits "value.splits" option.splits sum.splits)

lemma owned_control:
  "keeps owned (ir_exec i)" "keeps owned (newBB nm)" "keeps owned (SetInsertPoint d)"
  "keeps owned (make_overflowBB c n)" "keeps owned getOverflowBB"
proof -
  show exec: "keeps owned (ir_exec i)" for i
    unfolding ir_exec_def by (intro owned.keeps_bind owned_append owned.keeps_return)
  show new: "keeps owned (newBB nm)" for nm
    by (auto simp: keeps_def newBB_def curFn_def BasicBlock_Create_def cget_def cthe_def creturn_def cfail_def
        owned_def less_Suc_eq elim!: cbind_InrE split: option.splits)
  show ins: "keeps owned (SetInsertPoint d)" for d
    unfolding SetInsertPoint_def by (rule owned_modify) simp_all
  have mod: "keeps owned (cmodify (\<lambda>s. s\<lparr>cx_overflowBB := ob\<rparr>))"
    "keeps owned (cmodify (\<lambda>s. s\<lparr>cx_overflowPhiNodes := cx_overflowPhiNodes s @ ps\<rparr>))" for ob ps
    by (rule owned_modify; simp)+
  show make: "keeps owned (make_overflowBB c n)" for c n
    unfolding make_overflowBB_def
    by (intro owned.keeps_bind owned.keeps_then owned.keeps_map exec new ins mod)
      (auto simp: shorthand_defs intro!: frame_intros)
  show "keeps owned getOverflowBB"
    unfolding getOverflowBB_def
    by (intro owned.keeps_bind owned.keeps_then owned.keeps_if make) (auto intro!: frame_intros)
qed

interpretation owned: code_frame owned
  by unfold_locales (intro owned_control)+

section \<open>Fragments and clusters\<close>

lemma owned_stm_init: "keeps owned (stm_init k ent)"
proof (induction k ent rule: stm_init.induct)
  case (6 b e arms ent)
  then show ?case
    unfolding stm_init.simps initBB_def
    by (intro owned.keeps_bind owned.keeps_map owned.keeps_if owned.keeps_return owned_control)
qed (auto simp: initBB_def intro!: owned.keeps_bind owned.keeps_if owned.keeps_return owned_control)

lemma owned_frag_init: "keeps owned (frag_init fr)"
proof -
  have "keeps owned (set_bb_name b n)" for b n
    unfolding set_bb_name_def by (rule owned_modify) auto
  moreover have "keeps owned (insertFrag lab f)" for lab f
    unfolding insertFrag_def by (rule owned_modify) auto
  ultimately show ?thesis
    unfolding frag_init_def Let_def
    by (intro owned.keeps_bind owned.keeps_then owned.keeps_if owned_stm_init owned_control)
      (auto intro!: frame_intros)
qed

lemma owned_frag_codegen: "keeps owned (frag_codegen fr ent)"
proof -
  have "keeps owned beginFrag" unfolding beginFrag_def by (rule owned_modify) simp_all
  then show ?thesis
    unfolding frag_codegen_def
    by (intro owned.keeps_then owned.keeps_bind owned.keeps_if owned.keeps_stm owned_control)
      (auto intro!: frame_intros)
qed

end
