(* ===== verification/Unit_Sem.thy ===== *)
theory Unit_Sem
  imports Cluster_Sem Block_Sem
begin

text \<open>
  The meaning of a compilation unit, whose clusters call each other, and the machine for a module,
  in which a tail call enters the function that it calls.  Where the functions are loaded is a
  parameter of both.
\<close>

section \<open>The source\<close>

definition find_cluster :: "cluster list \<Rightarrow> lvar \<Rightarrow> cluster option" where
  "find_cluster cs lab = find (\<lambda>c. map_option f_lab (cluster_entry c) = Some lab) cs"

text \<open>The signatures for a cluster: its own fragments, and the entries of all clusters.\<close>

definition unit_sigs :: "target_info \<Rightarrow> cluster list \<Rightarrow> cluster \<Rightarrow> sigs" where
  "unit_sigs ti cs c =
     \<lparr>sg_target = ti,
      sg_frag = (\<lambda>lab. map_option param_types (find_frag (tl (c_frags c)) lab)),
      sg_fn = (\<lambda>lab. Option.bind (find_cluster cs lab) (\<lambda>c.
        map_option (\<lambda>en. (f_kind en, param_types en)) (cluster_entry c)))\<rparr>"

text \<open>The label that a destination stands for: \<open>code\<close> gives the labels at the addresses of code.\<close>

definition dest_label :: "(u64 \<Rightarrow> lvar option) \<Rightarrow> dest \<Rightarrow> lvar option" where
  "dest_label code d = (case d of Entry lab \<Rightarrow> Some lab | Address p \<Rightarrow> code p)"

definition callee :: "(u64 \<Rightarrow> lvar option) \<Rightarrow> cluster list \<Rightarrow> frag_kind \<Rightarrow> dest \<Rightarrow> cluster option" where
  "callee code cs k d =
     Option.bind (dest_label code d) (\<lambda>lab. Option.bind (find_cluster cs lab) (\<lambda>c.
       if map_option f_kind (cluster_entry c) = Some k then Some c else None))"

text \<open>From one outcome to the next, as long as it is a call of a cluster of the unit.\<close>

inductive calls :: "target_info \<Rightarrow> (u64 \<Rightarrow> lvar option) \<Rightarrow> cluster list \<Rightarrow> outcome \<Rightarrow> outcome \<Rightarrow> bool"
  for ti code cs where
  calls_refl: "calls ti code cs oc oc"
| calls_step: "callee code cs k d = Some c \<Longrightarrow> cluster_goes (unit_sigs ti cs c) c vs G M oc \<Longrightarrow>
    calls ti code cs oc oc' \<Longrightarrow> calls ti code cs (Leave k d vs G M) oc'"

section \<open>The machine\<close>

text \<open>The first block of a function is its entry.\<close>

definition fn_entry :: "cgctx \<Rightarrow> nat \<Rightarrow> nat option" where
  "fn_entry z f = find (\<lambda>b. bb_fn (ir_blocks z b) = f) [0..<ir_nblocks z]"

text \<open>The arguments may be undefined.\<close>

definition enter_fn :: "cgctx \<Rightarrow> nat \<Rightarrow> rval option list \<Rightarrow> rstate \<Rightarrow> machine option" where
  "enter_fn z f rs \<sigma> =
     map_option (\<lambda>b. (b, bb_insts (ir_blocks z b),
       \<sigma>\<lparr>rv_inst := (\<lambda>_. None), rv_arg := (\<lambda>i. if i < length rs then rs ! i else None)\<rparr>)) (fn_entry z f)"

text \<open>The function that a value stands for: \<open>fcode\<close> gives the functions at the addresses of code.\<close>

definition callee_fn :: "(u64 \<Rightarrow> nat option) \<Rightarrow> rstate \<Rightarrow> value \<Rightarrow> nat option" where
  "callee_fn fcode \<sigma> fn =
     (case fn of
        VFn f \<Rightarrow> Some f
      | _ \<Rightarrow> (case veval \<sigma> fn of Some (RP p) \<Rightarrow> fcode p | _ \<Rightarrow> None))"

definition tail_call :: "(nat \<times> instr) list \<Rightarrow> (value \<times> value list) option" where
  "tail_call ins =
     (case ins of
        [(m, Call ft fn args cc tk), (n, RetVoid)] \<Rightarrow>
          if cc = CC_JWA \<and> tk = TCK_Tail then Some (fn, args) else None
      | _ \<Rightarrow> None)"

definition pstep :: "(u64 \<Rightarrow> nat option) \<Rightarrow> cgctx \<Rightarrow> machine \<Rightarrow> machine option" where
  "pstep fcode z a =
     (case a of (c, ins, \<sigma>) \<Rightarrow>
       (case tail_call ins of
          None \<Rightarrow> mstep z a
        | Some (fn, args) \<Rightarrow>
            (case callee_fn fcode \<sigma> fn of
               None \<Rightarrow> mstep z a
             | Some f \<Rightarrow> enter_fn z f (map (veval \<sigma>) args) \<sigma>)))"

inductive pflow :: "(u64 \<Rightarrow> nat option) \<Rightarrow> cgctx \<Rightarrow> machine \<Rightarrow> machine \<Rightarrow> bool" for fcode z where
  pflow_refl: "pflow fcode z a a"
| pflow_step: "pstep fcode z a = Some b \<Longrightarrow> pflow fcode z b c \<Longrightarrow> pflow fcode z a c"

code_pred pflow .

lemma pflow_trans: "pflow fcode z a b \<Longrightarrow> pflow fcode z b c \<Longrightarrow> pflow fcode z a c"
  by (induction rule: pflow.induct) (auto intro: pflow_step)

text \<open>Within a function, the machine of the function runs: it does not get past a tail call.\<close>

lemma mstep_pstep:
  assumes "mstep z a = Some b"
  shows "pstep fcode z a = Some b"
proof -
  obtain c ins \<sigma> where a: "a = (c, ins, \<sigma>)" by (cases a) auto
  have "callee_fn fcode \<sigma> fn = None" if t: "tail_call ins = Some (fn, args)" for fn args
  proof -
    obtain m ft n where "ins = [(m, Call ft fn args CC_JWA TCK_Tail), (n, RetVoid)]"
      using t by (auto simp: tail_call_def split: list.splits instr.splits prod.splits if_splits)
    then show ?thesis using assms
      by (cases fn) (auto simp: a callee_fn_def split: option.splits)
  qed
  with assms show ?thesis by (auto simp: a pstep_def split: option.splits)
qed

lemma flow_pflow: "flow z a b \<Longrightarrow> pflow fcode z a b"
  by (induction rule: flow.induct) (auto intro: pflow_refl pflow_step mstep_pstep)

end
