(* ===== verification/Unit_Code.thy ===== *)
theory Unit_Code
  imports Cluster_Simulation Block_Owner Unit_Sem
begin

text \<open>
  The code of a compilation unit, cluster after cluster: initialisation declares a function for
  each cluster, and the code of each cluster is generated in a state that is fit for it and stays
  until the end.
\<close>

section \<open>Declared functions\<close>

text \<open>The type of a function does not depend on the cluster when there is no base pointer.\<close>

lemma createFnTy_cluster:
  assumes "createFnTy k tys s = Inr (ft, s)" "cx_regInfo t = cx_regInfo s" "cx_intTy t = cx_intTy s"
    "cx_curCluster t \<noteq> None" "\<not> usesBasePtr (cx_regInfo s)"
  shows "createFnTy k tys t = Inr (ft, t)"
proof -
  have "getArgInfo k s = Inr (info, s) \<Longrightarrow> getArgInfo k t = Inr (info, t)" for info
    using assms(2-5) by (cases k) (auto simp: getArgInfo_def cbind_def cget_def creturn_def cfail_def
        split: option.splits)
  with assms show ?thesis by (auto simp: createFnTy_eq)
qed

text \<open>The cluster \<open>c\<close> has been initialised to \<open>c'\<close>.\<close>

definition registered :: "cgctx \<Rightarrow> cluster \<Rightarrow> cluster \<Rightarrow> bool" where
  "registered s c c' \<longleftrightarrow>
     (\<exists>en f. cluster_entry c = Some en \<and> c' = c\<lparr>c_fn := Some f\<rparr> \<and> f < length (ir_fns s) \<and>
        cx_clusterMap s (f_lab en) = Some c' \<and>
        createFnTy (f_kind en) (map lty_of (param_types en)) (s\<lparr>cx_curCluster := Some c\<rparr>) =
          Inr (fn_ty (ir_fns s ! f), s\<lparr>cx_curCluster := Some c\<rparr>))"

text \<open>Only functions have been added.\<close>

definition declares :: "cgctx \<Rightarrow> cgctx \<Rightarrow> bool" where
  "declares s t \<longleftrightarrow>
     (\<exists>gs cl m. t = s\<lparr>cx_curCluster := cl, ir_fns := ir_fns s @ gs, cx_clusterMap := m\<rparr> \<and>
        cx_clusterMap s \<subseteq>\<^sub>m m)"

lemma declaresE:
  assumes "declares s t"
  obtains gs cl m where "t = s\<lparr>cx_curCluster := cl, ir_fns := ir_fns s @ gs, cx_clusterMap := m\<rparr>"
    "cx_clusterMap s \<subseteq>\<^sub>m m"
  using assms unfolding declares_def by blast

lemma declares_refl: "declares s s"
  unfolding declares_def by (intro exI [of _ "[]"] exI [of _ "cx_curCluster s"] exI [of _ "cx_clusterMap s"]) simp

lemma declares_trans:
  assumes "declares s t" "declares t u"
  shows "declares s u"
proof -
  obtain gs cl m where t: "t = s\<lparr>cx_curCluster := cl, ir_fns := ir_fns s @ gs, cx_clusterMap := m\<rparr>"
    "cx_clusterMap s \<subseteq>\<^sub>m m" using assms(1) by (rule declaresE)
  obtain hs cl' m' where "u = t\<lparr>cx_curCluster := cl', ir_fns := ir_fns t @ hs, cx_clusterMap := m'\<rparr>"
    "cx_clusterMap t \<subseteq>\<^sub>m m'" using assms(2) by (rule declaresE)
  then have "u = s\<lparr>cx_curCluster := cl', ir_fns := ir_fns s @ (gs @ hs), cx_clusterMap := m'\<rparr>"
    "cx_clusterMap s \<subseteq>\<^sub>m m'"
    using t by (auto intro: map_le_trans)
  then show ?thesis unfolding declares_def by blast
qed

lemma registered_later:
  assumes "registered s c c'" "cx_regInfo t = cx_regInfo s" "cx_intTy t = cx_intTy s"
    "cx_clusterMap s \<subseteq>\<^sub>m cx_clusterMap t" "ir_fns t = ir_fns s @ gs"
  shows "registered t c c'"
proof -
  obtain en f where r: "cluster_entry c = Some en" "c' = c\<lparr>c_fn := Some f\<rparr>" "f < length (ir_fns s)"
    "cx_clusterMap s (f_lab en) = Some c'"
    "createFnTy (f_kind en) (map lty_of (param_types en)) (s\<lparr>cx_curCluster := Some c\<rparr>) =
      Inr (fn_ty (ir_fns s ! f), s\<lparr>cx_curCluster := Some c\<rparr>)"
    using assms(1) unfolding registered_def by blast
  have "createFnTy (f_kind en) (map lty_of (param_types en)) (t\<lparr>cx_curCluster := Some c\<rparr>) =
      Inr (fn_ty (ir_fns s ! f), t\<lparr>cx_curCluster := Some c\<rparr>)"
    by (rule createFnTy_fields [OF _ _ _ r(5)]) (simp_all add: assms(2,3))
  moreover have "cx_clusterMap t (f_lab en) = Some c'" using assms(4) r(4) by (metis domI map_le_def)
  ultimately show ?thesis
    using r(1-3) assms(5) unfolding registered_def
    by (intro exI [of _ en] exI [of _ f]) (simp add: nth_append)
qed

lemma registered_declares: "registered s c c' \<Longrightarrow> declares s t \<Longrightarrow> registered t c c'"
  by (erule declaresE, erule registered_later) auto

lemma registered_endures:
  assumes "registered s c c'" "endures s t"
  shows "registered t c c'"
  by (rule registered_later [OF assms(1), of _ "[]"]) (use assms(2) in \<open>simp_all add: endures_def\<close>)

lemma ty_codegen_lty: "cx_intTy s = i64Ty \<Longrightarrow> ty_codegen t s = Inr (lty_of t, s)"
  by (simp add: ty_codegen_def lty_of_def creturn_def cget_def split: ty.split)

lemma cluster_init_run:
  assumes "cluster_init c e s = Inr (c', t)" "cx_intTy s = i64Ty" "cluster_entry c = Some en"
    "cx_clusterMap s (f_lab en) = None"
  shows "registered t c c' \<and> declares s t \<and> c_fn c' = Some (length (ir_fns s)) \<and>
    length (ir_fns t) = Suc (length (ir_fns s)) \<and>
    dom (cx_clusterMap t) = insert (f_lab en) (dom (cx_clusterMap s))"
proof -
  let ?s = "s\<lparr>cx_curCluster := Some c\<rparr>"
  have en: "c_frags c ! 0 = en" "c_frags c \<noteq> []"
    using assms(3) by (auto simp: cluster_entry_def split: list.splits)
  have tys: "cmap (\<lambda>p. ty_codegen (p_ty p)) ps ?s = Inr (map (\<lambda>p. lty_of (p_ty p)) ps, ?s)" for ps
    using assms(2) by (induction ps) (simp_all add: cbind_def creturn_def ty_codegen_lty)
  have "cluster_init c e s =
      cbind (createFnTy (f_kind en) (map lty_of (param_types en))) (\<lambda>ft.
      cbind (newFunction ft ((if e then ''entry'' else ''fn'') @ lvar_string (f_lab en)) e) (\<lambda>f.
      let c' = c\<lparr>c_fn := Some f\<rparr> in cthen (insertCluster (f_lab en) c') (creturn c'))) ?s"
    using en tys [of "f_params en"]
    by (simp add: cluster_init_def setCluster_def cmodify_def cassert_def creturn_def param_types_def
        comp_def cthen_def cbind_def Let_def)
  with assms(1) obtain ft u where
    ft: "createFnTy (f_kind en) (map lty_of (param_types en)) ?s = Inr (ft, u)"
    and rest: "cbind (newFunction ft ((if e then ''entry'' else ''fn'') @ lvar_string (f_lab en)) e) (\<lambda>f.
      let c' = c\<lparr>c_fn := Some f\<rparr> in cthen (insertCluster (f_lab en) c') (creturn c')) u = Inr (c', t)"
    by (auto elim: cbind_InrE)
  have u: "u = ?s" using ft by (auto simp: createFnTy_eq)
  from rest obtain k where c': "c' = c\<lparr>c_fn := Some (length (ir_fns s))\<rparr>"
    and t': "t = ?s\<lparr>ir_fns := ir_fns s @ [\<lparr>fn_ty = ft, fn_name = (if e then ''entry'' else ''fn'') @
        lvar_string (f_lab en), fn_module = k, fn_public = e, fn_cc = CC_JWA, fn_nounwind = True\<rparr>],
      cx_clusterMap := map_insert c' (f_lab en) (cx_clusterMap s)\<rparr>"
    by (auto simp: u newFunction_def Function_Create_def fn_update_def current_module_def insertCluster_def
        cmodify_def creturn_def cget_def cthe_def cfail_def Let_def elim!: cbind_InrE cthen_InrE
        split: option.splits)
  obtain g where g: "fn_ty g = ft"
    and t: "t = ?s\<lparr>ir_fns := ir_fns s @ [g], cx_clusterMap := map_insert c' (f_lab en) (cx_clusterMap s)\<rparr>"
    by (rule that [OF _ t']) simp
  have m: "map_insert x (f_lab en) (cx_clusterMap s) = (cx_clusterMap s)(f_lab en \<mapsto> x)" for x
    using assms(4) by (simp add: map_insert_def)
  have "createFnTy (f_kind en) (map lty_of (param_types en)) (t\<lparr>cx_curCluster := Some c\<rparr>) =
      Inr (ft, t\<lparr>cx_curCluster := Some c\<rparr>)"
    by (rule createFnTy_fields [OF _ _ _ ft [unfolded u]]) (simp_all add: t)
  then have "registered t c c'"
    using assms(3) unfolding registered_def
    by (intro exI [of _ en] exI [of _ "length (ir_fns s)"]) (simp add: c' t m g)
  moreover have "declares s t"
    unfolding declares_def
    by (intro exI [of _ "[g]"] exI [of _ "Some c"] exI [of _ "(cx_clusterMap s)(f_lab en \<mapsto> c')"])
      (use assms(4) in \<open>auto simp: t m map_le_def\<close>)
  ultimately show ?thesis by (simp add: c' t m)
qed

lemma cluster_inits_run:
  assumes "cmap (\<lambda>c. cluster_init c e) cs s = Inr (cs', t)" "cx_intTy s = i64Ty"
    "map cluster_entry cs = map Some ens" "distinct (map f_lab ens)"
    "dom (cx_clusterMap s) \<inter> f_lab ` set ens = {}"
  shows "list_all2 (registered t) cs cs' \<and> declares s t \<and>
    map c_fn cs' = map Some [length (ir_fns s)..<length (ir_fns t)] \<and>
    length (ir_fns s) \<le> length (ir_fns t) \<and>
    dom (cx_clusterMap t) = dom (cx_clusterMap s) \<union> f_lab ` set ens"
  using assms
proof (induction cs arbitrary: s cs' ens)
  case Nil
  then show ?case by (simp add: creturn_def declares_refl)
next
  case (Cons c cs)
  obtain en ens' where ens: "ens = en # ens'" "cluster_entry c = Some en" "map cluster_entry cs = map Some ens'"
    using Cons.prems(3) by (cases ens) auto
  from Cons.prems(1) obtain c' u rest where c: "cluster_init c e s = Inr (c', u)"
    and rest: "cmap (\<lambda>c. cluster_init c e) cs u = Inr (rest, t)" and cs': "cs' = c' # rest"
    by (auto elim!: cbind_InrE simp: creturn_def)
  have "cx_clusterMap s (f_lab en) = None" using Cons.prems(5) by (auto simp: ens(1))
  note 1 = cluster_init_run [OF c Cons.prems(2) ens(2) this]
  then have "cx_intTy u = i64Ty" using Cons.prems(2) by (auto simp: declares_def)
  note 2 = Cons.IH [OF rest this ens(3)]
  have "dom (cx_clusterMap u) \<inter> f_lab ` set ens' = {}" "distinct (map f_lab ens')"
    using 1 Cons.prems(4,5) by (auto simp: ens(1))
  from 2 [OF this(2,1)] have 2: "list_all2 (registered t) cs rest" "declares u t"
    "map c_fn rest = map Some [length (ir_fns u)..<length (ir_fns t)]" "length (ir_fns u) \<le> length (ir_fns t)"
    "dom (cx_clusterMap t) = dom (cx_clusterMap u) \<union> f_lab ` set ens'" by blast+
  have "declares s t" using 1 2(2) declares_trans by blast
  moreover have "registered t c c'" using 1 2(2) registered_declares by blast
  ultimately show ?case
    using 1 2 by (simp add: cs' ens(1) upt_conv_Cons)
qed

text \<open>The signatures of the unit are known before each of its clusters.\<close>

lemma registered_fn_known:
  assumes "\<And>c. c \<in> set cs \<Longrightarrow> \<exists>c'. registered s c c'" "\<not> usesBasePtr (cx_regInfo s)"
    "sg_fn (unit_sigs ti cs c) lab = Some (k, tys)"
  shows "fn_known (begun d s) lab k tys"
proof -
  obtain c1 en where c1: "find_cluster cs lab = Some c1" "cluster_entry c1 = Some en"
    "k = f_kind en" "tys = param_types en"
    using assms(3) by (auto simp: unit_sigs_def bind_eq_Some_conv)
  from c1(1) obtain i where "i < length cs" "cs ! i = c1" "map_option f_lab (cluster_entry c1) = Some lab"
    unfolding find_cluster_def by (auto simp: find_Some_iff)
  with c1(2) have "c1 \<in> set cs" "f_lab en = lab" by auto
  with assms(1) obtain c' where "registered s c1 c'" by blast
  then obtain f where r: "c' = c1\<lparr>c_fn := Some f\<rparr>" "f < length (ir_fns s)"
    "cx_clusterMap s lab = Some c'"
    "createFnTy (f_kind en) (map lty_of (param_types en)) (s\<lparr>cx_curCluster := Some c1\<rparr>) =
      Inr (fn_ty (ir_fns s ! f), s\<lparr>cx_curCluster := Some c1\<rparr>)"
    unfolding registered_def using c1(2) \<open>f_lab en = lab\<close> by auto
  have "createFnTy (f_kind en) (map lty_of (param_types en)) (begun d s) =
      Inr (fn_ty (ir_fns s ! f), begun d s)"
    by (rule createFnTy_cluster [OF r(4)]) (simp_all add: begun_def assms(2))
  then show ?thesis
    using r(1-3) c1(2) unfolding fn_known_def c1(3,4)
    by (intro exI [of _ c'] exI [of _ en] exI [of _ f]) (simp add: begun_def cluster_entry_def)
qed

section \<open>One cluster after the other\<close>

text \<open>A cluster is an entry and internal fragments; labels and variables are distinct.\<close>

definition proper :: "cluster \<Rightarrow> bool" where
  "proper c \<longleftrightarrow>
     (case c_frags c of
        [] \<Rightarrow> False
      | en # rest \<Rightarrow>
          f_kind en \<noteq> INTERNAL \<and> (\<forall>fr\<in>set rest. f_kind fr = INTERNAL) \<and>
          distinct (map f_lab (c_frags c)) \<and>
          (\<forall>fr\<in>set (c_frags c). distinct (map p_name (f_params fr) @ binders (f_body fr))))"

lemma registered_well_formed:
  assumes "registered s c c'" "proper c" "\<not> usesBasePtr (cx_regInfo s)"
  shows "well_formed (unit_sigs ti cs c) c' s"
proof -
  obtain en f where r: "cluster_entry c = Some en" "c' = c\<lparr>c_fn := Some f\<rparr>"
    "createFnTy (f_kind en) (map lty_of (param_types en)) (s\<lparr>cx_curCluster := Some c\<rparr>) =
      Inr (fn_ty (ir_fns s ! f), s\<lparr>cx_curCluster := Some c\<rparr>)"
    using assms(1) unfolding registered_def by blast
  obtain rest where fr: "c_frags c = en # rest"
    using r(1) by (auto simp: cluster_entry_def split: list.splits)
  have "createFnTy (f_kind en) (map lty_of (param_types en)) (begun c' s) =
      Inr (fn_ty (ir_fns s ! f), begun c' s)"
    by (rule createFnTy_cluster [OF r(3)]) (simp_all add: begun_def assms(3))
  then have "typed_entry en f (begun c' s)" by (simp add: typed_entry_def begun_def)
  with assms(2) fr show ?thesis
    unfolding well_formed_def
    by (intro exI [of _ en] exI [of _ rest] exI [of _ f])
      (auto simp: r(2) proper_def unit_sigs_def)
qed

text \<open>What is left of the code of the cluster \<open>c\<close> in the finished module \<open>z\<close>.\<close>

definition generated :: "target_info \<Rightarrow> cluster list \<Rightarrow> cgctx \<Rightarrow> cluster \<Rightarrow> cluster \<Rightarrow> bool" where
  "generated ti cs z c c' \<longleftrightarrow>
     (\<exists>s t f. c_fn c' = Some f \<and> fn_entry z f = Some (ir_nblocks s) \<and>
        poised (unit_sigs ti cs c) c' s \<and> well_formed (unit_sigs ti cs c) c' s \<and>
        cluster_codegen c' s = Inr ((), t) \<and> endures t z)"

lemma owned_cluster:
  assumes "cluster_codegen c s = Inr (x, t)"
  shows "owned (begun c s) t"
proof -
  let ?rest = "cbind (cmap frag_init (c_frags c)) (\<lambda>frs.
      cthen (case frs of
               [] \<Rightarrow> cfail IndexOutOfRange
             | fr # rest \<Rightarrow> cthen (frag_codegen fr True) (cforeach rest (\<lambda>fr. frag_codegen fr False)))
      endCluster)"
  have "keeps owned (case frs of [] \<Rightarrow> cfail IndexOutOfRange
      | fr # rest \<Rightarrow> cthen (frag_codegen fr True) (cforeach rest (\<lambda>fr. frag_codegen fr False)))" for frs
    by (cases frs) (auto intro!: owned.keeps_then owned.keeps_foreach owned_frag_codegen owned.keeps_fail)
  then have "keeps owned ?rest"
    unfolding endCluster_def
    by (intro owned.keeps_bind owned.keeps_then owned.keeps_map owned_frag_init owned.keeps_return)
  moreover have "?rest (begun c s) = Inr (x, t)"
    using assms unfolding cluster_codegen_def beginCluster_def begun_def
    by (auto simp: cassert_def cmodify_def creturn_def cfail_def elim!: cthen_InrE split: if_splits)
  ultimately show ?thesis by (rule keepsD)
qed

text \<open>The entry of the function is the first block that the cluster adds.\<close>

lemma cluster_fn_entry:
  assumes run: "cluster_codegen c s = Inr (x, t)" and f: "c_fn c = Some f"
    and old: "\<And>b. b < ir_nblocks s \<Longrightarrow> bb_fn (ir_blocks s b) \<noteq> f"
    and t: "ir_nblocks s < ir_nblocks t" "endures t z"
  shows "fn_entry z f = Some (ir_nblocks s)"
proof -
  have ow: "\<And>b. b < ir_nblocks s \<Longrightarrow> bb_fn (ir_blocks t b) = bb_fn (ir_blocks s b)"
    "bb_fn (ir_blocks t (ir_nblocks s)) = f"
    using owned_cluster [OF run] f t(1) by (auto simp: owned_def begun_def)
  have "ir_blocks z b = ir_blocks t b" if "b \<le> ir_nblocks s" for b
    using t that by (simp add: endures_def)
  with ow old have "\<And>b. b < ir_nblocks s \<Longrightarrow> bb_fn (ir_blocks z b) \<noteq> f"
    "bb_fn (ir_blocks z (ir_nblocks s)) = f" by simp_all
  moreover have "ir_nblocks s < ir_nblocks z" using t by (simp add: endures_def)
  ultimately show ?thesis
    by (auto simp: fn_entry_def find_Some_iff intro!: exI [of _ "ir_nblocks s"])
qed

lemma clusters_generated:
  assumes "cforeach cs' cluster_codegen s = Inr ((), z)" "list_all2 (registered s) cs0 cs'"
    "\<forall>c\<in>set cs0. proper c" "idle ti s" "caches_ok s" "sp_ok s" "\<forall>c\<in>set cs. \<exists>c'. registered s c c'"
    "distinct (map c_fn cs')" "\<forall>b<ir_nblocks s. Some (bb_fn (ir_blocks s b)) \<notin> c_fn ` set cs'"
  shows "list_all2 (generated ti cs z) cs0 cs' \<and> endures s z \<and> idle ti z \<and> sp_ok z"
  using assms
proof (induction cs' arbitrary: s cs0)
  case Nil
  then show ?case by (simp add: creturn_def)
next
  case (Cons c' cs')
  obtain c cs1 where cs0: "cs0 = c # cs1" "registered s c c'" "list_all2 (registered s) cs1 cs'"
    using Cons.prems(2) by (auto simp: list_all2_Cons2)
  from Cons.prems(1) obtain t where run: "cluster_codegen c' s = Inr ((), t)"
    and rest: "cforeach cs' cluster_codegen t = Inr ((), z)"
    by (auto elim!: cthen_InrE)
  let ?S = "unit_sigs ti cs c"
  have nb: "\<not> usesBasePtr (cx_regInfo s)" using Cons.prems(4) by (simp add: idle_def)
  have wf: "well_formed ?S c' s"
    using registered_well_formed [OF cs0(2) _ nb] Cons.prems(3) by (simp add: cs0(1))
  have po: "poised ?S c' s"
    unfolding poised_def
  proof (intro conjI allI impI)
    show "idle (sg_target ?S) s" using Cons.prems(4) by (simp add: unit_sigs_def)
    fix lab k tys assume "sg_fn ?S lab = Some (k, tys)"
    then show "fn_known (begun c' s) lab k tys"
      using registered_fn_known [OF _ nb] Cons.prems(7) by blast
  qed (use Cons.prems(5,6) in simp_all)
  note e = cluster_ends [OF po wf run]
  obtain f where f: "c_fn c' = Some f" using cs0(2) unfolding registered_def by auto
  have ow: "\<And>b. b < ir_nblocks s \<Longrightarrow> bb_fn (ir_blocks t b) = bb_fn (ir_blocks s b)"
    "\<And>b. ir_nblocks s \<le> b \<Longrightarrow> b < ir_nblocks t \<Longrightarrow> bb_fn (ir_blocks t b) = f"
    using owned_cluster [OF run] f by (auto simp: owned_def begun_def)
  have "list_all2 (generated ti cs z) cs1 cs' \<and> endures t z \<and> idle ti z \<and> sp_ok z"
  proof (rule Cons.IH [OF rest])
    show "list_all2 (registered t) cs1 cs'"
      using cs0(3) registered_endures [OF _ e(1)] by (auto elim: list_all2_mono)
    show "\<forall>c\<in>set cs1. proper c" using Cons.prems(3) by (simp add: cs0(1))
    show "idle ti t" using e(2) by (simp add: unit_sigs_def)
    show "caches_ok t" "sp_ok t" using e(3,4) by (simp_all add: base_ok_def)
    show "\<forall>c\<in>set cs. \<exists>c'. registered t c c'" using Cons.prems(7) registered_endures [OF _ e(1)] by blast
    show "distinct (map c_fn cs')" using Cons.prems(8) by simp
    show "\<forall>b<ir_nblocks t. Some (bb_fn (ir_blocks t b)) \<notin> c_fn ` set cs'"
    proof (intro allI impI)
      fix b assume b: "b < ir_nblocks t"
      show "Some (bb_fn (ir_blocks t b)) \<notin> c_fn ` set cs'"
      proof (cases "b < ir_nblocks s")
        case True
        with ow(1) Cons.prems(9) show ?thesis by auto
      next
        case False
        with ow(2) b Cons.prems(8) f show ?thesis by auto
      qed
    qed
  qed
  then have g: "list_all2 (generated ti cs z) cs1 cs'" "endures t z" "idle ti z" "sp_ok z" by simp_all
  have "fn_entry z f = Some (ir_nblocks s)"
    by (rule cluster_fn_entry [OF run f _ e(5) g(2)]) (use Cons.prems(9) f in auto)
  then have "generated ti cs z c c'" using f po wf run g(2) unfolding generated_def by blast
  moreover have "endures s z" using e(1) g(2) by (rule endures_trans)
  ultimately show ?case using g by (simp add: cs0(1))
qed

end
