(* ===== verification/Overflow_Raise.thy ===== *)
theory Overflow_Raise
  imports Lasting Exp_Code Block_Sem Cache_Laws
begin

text \<open>
  The code of the overflow block: from the phi nodes, which stand for the registers, it gets to the
  call of the handler whose address the runtime system keeps on the stack.
\<close>

section \<open>Loads from the stack\<close>

text \<open>The first access sets up the intrinsic that reads the stack pointer.\<close>

definition sp_set :: "cgctx \<Rightarrow> cgctx" where
  "sp_set s =
     (if cx_readReg s = None then
        s\<lparr>cx_readReg := map_option VReadReg (ir_module s), cx_spRegMD := Some (VMeta (ti_spName (cx_target s)))\<rparr>
      else s)"

definition stack_load :: "value \<Rightarrow> value \<Rightarrow> int \<Rightarrow> value cx" where
  "stack_load rr md offset =
     cbind (ir_append (Call \<lparr>ft_ret = i64Ty, ft_params = [MetadataTy]\<rparr> rr [md] CC_C TCK_None)) (\<lambda>sp.
     cbind (iConst offset) (\<lambda>off.
     cbind (createAdd sp off) (\<lambda>a.
     cbind (createIntToPtr a) (\<lambda>a.
     cbind wordAlign (\<lambda>al.
     ir_append (Load mlValueTy a al False))))))"

lemma loadFromStack_split:
  assumes "sp_ok s" "cx_intTy s = i64Ty"
  obtains rr md where "cx_readReg (sp_set s) = Some rr" "cx_spRegMD (sp_set s) = Some md"
    "loadFromStack offset s = stack_load rr md offset (sp_set s)"
proof -
  obtain m where m: "ir_module s = Some m" using assms(1) by (auto simp: sp_ok_def)
  obtain rr md where r: "cx_readReg (sp_set s) = Some rr" "cx_spRegMD (sp_set s) = Some md"
    using assms(1) m by (cases "cx_readReg s") (auto simp: sp_set_def sp_ok_def)
  have i: "cx_intTy (sp_set s) = i64Ty" using assms(2) by (simp add: sp_set_def)
  have "(if cx_readReg s = None then initSPAccess else creturn ()) s = Inr ((), sp_set s)"
    using assms(1) m
    by (auto simp: sp_set_def initSPAccess_def current_module_def cassert_def cthe_def cbind_def cthen_def
        cget_def cmodify_def creturn_def sp_ok_def)
  then have "loadFromStack offset s = stack_load rr md offset (sp_set s)"
    using r i
    by (auto simp: loadFromStack_def stkAddr_def stack_load_def readReg_ty_def cbind_def cthen_def
        cget_def creturn_def cthe_def fun_eq_iff split: sum.split)
  with r show ?thesis by (rule that)
qed

definition stack_word :: "rstate \<Rightarrow> int \<Rightarrow> mem \<Rightarrow> rval" where
  "stack_word \<sigma> offset M = RP (word_of_int (get 8 (rv_sp \<sigma> + word_of_int offset) M))"

lemma step_stack_load:
  assumes k: "known s0 \<sigma>0 R M \<Gamma> s \<sigma>"
    and Q: "\<And>v t \<tau>. known s0 \<sigma>0 R M ((v, stack_word \<sigma> offset M) # \<Gamma>) t \<tau> \<Longrightarrow> Q v t \<tau>"
  shows "runs (stack_load (VReadReg m) md offset) s \<sigma> Q"
  unfolding stack_load_def createAdd_def iConst_def
proof (intro runs_bind, rule step_append [OF k, where r = "RI 64 (uint (rv_sp \<sigma>))"])
  fix sp t \<tau>
  let ?sp = "uint (rv_sp \<sigma>)" and ?x = "take_bit 64 offset"
  let ?z = "take_bit 64 (?sp + ?x)" and ?p = "rv_sp \<sigma> + word_of_int offset"
  assume 1: "known s0 \<sigma>0 R M ((sp, RI 64 ?sp) # \<Gamma>) t \<tau>"
  have c: "const_of i64Ty offset = VInt 64 ?x" by (simp add: const_of_def)
  have "known s0 \<sigma>0 R M ([(VInt 64 ?x, RI 64 ?x)] @ (sp, RI 64 ?sp) # \<Gamma>) t \<tau>"
    by (rule known_extend [OF 1]) (use 1 in \<open>auto simp: known_def holds_def scoped_def\<close>)
  then have 2: "known s0 \<sigma>0 R M ((VInt 64 ?x, RI 64 ?x) # (sp, RI 64 ?sp) # \<Gamma>) t \<tau>" by simp
  have "?p = word_of_int (?sp + offset)" by simp
  then have w: "word_of_int ?z = ?p"
    by (simp add: word_of_int_eq_iff take_bit_eq_mod mod_add_right_eq del: of_int_add)
  show "runs (cbind (cbind (cget cx_intTy) (\<lambda>t. creturn (const_of t offset))) (\<lambda>off.
      cbind (createBin OpAdd sp off) (\<lambda>a. cbind (createIntToPtr a) (\<lambda>a.
      cbind wordAlign (\<lambda>al. ir_append (Load mlValueTy a al False)))))) t \<tau> Q"
  proof (intro runs_bind, rule step_intTy [OF 1], intro runs_return, unfold c,
      intro runs_bind, rule step_createBin [OF 2, where z = ?z])
    fix a t \<tau>
    assume "known s0 \<sigma>0 R M ((a, RI 64 ?z) # (VInt 64 ?x, RI 64 ?x) # (sp, RI 64 ?sp) # \<Gamma>) t \<tau>"
    then show "runs (cbind (createIntToPtr a) (\<lambda>a. cbind wordAlign (\<lambda>al.
        ir_append (Load mlValueTy a al False)))) t \<tau> Q"
    proof (intro runs_bind, elim step_toPtr [where x = ?z])
      fix p t \<tau>
      assume 3: "known s0 \<sigma>0 R M ((p, RP (word_of_int ?z)) #
        (a, RI 64 ?z) # (VInt 64 ?x, RI 64 ?x) # (sp, RI 64 ?sp) # \<Gamma>) t \<tau>"
      show "runs (cbind wordAlign (\<lambda>al. ir_append (Load mlValueTy p al False))) t \<tau> Q"
      proof (intro runs_bind, rule step_wordAlign [OF 3],
          rule step_load [OF 3, where p = ?p and r = "stack_word \<sigma> offset M"])
        show "(p, RP ?p) \<in> set ((p, RP (word_of_int ?z)) #
          (a, RI 64 ?z) # (VInt 64 ?x, RI 64 ?x) # (sp, RI 64 ?sp) # \<Gamma>)" unfolding w by simp
        show "loaded mlValueTy ?p M = Some (stack_word \<sigma> offset M)"
          by (simp add: loaded_def stack_word_def)
        show "Q v t \<tau>" if "known s0 \<sigma>0 R M ((v, stack_word \<sigma> offset M) # (p, RP (word_of_int ?z)) #
          (a, RI 64 ?z) # (VInt 64 ?x, RI 64 ?x) # (sp, RI 64 ?sp) # \<Gamma>) t \<tau>" for v t \<tau>
          by (rule Q, rule known_weaken [OF that]) auto
      qed
    qed (use take_bit_int_less_exp [of 64 "?sp + ?x"] in auto)
  qed (use take_bit_int_less_exp [of 64 offset] in \<open>auto simp: ml_word_def bin_int_def uint64_less raw_def\<close>)
qed (use k in \<open>simp_all add: known_def\<close>)

section \<open>The code of the block\<close>

text \<open>After the phi nodes \<open>ns\<close>, the code gets from every state to the call of the handler with the phi
  nodes as its arguments.\<close>

definition raises :: "nat list \<Rightarrow> int \<Rightarrow> (nat \<times> instr) list \<Rightarrow> bool" where
  "raises ns offset insts \<longleftrightarrow>
     (\<exists>pre m ft fn n more.
        insts = map (\<lambda>k. (k, Phi PtrTy)) ns @ pre @
          (m, Call ft fn (map (\<lambda>k. VInst k PtrTy) ns) CC_JWA TCK_NoTail) # (n, RetVoid) # more \<and>
        (\<forall>\<sigma>. \<exists>\<tau>. exec \<sigma> pre = Some \<tau> \<and> rv_mem \<tau> = rv_mem \<sigma> \<and> rv_sp \<tau> = rv_sp \<sigma> \<and>
           veval \<tau> fn = Some (stack_word \<sigma> offset (rv_mem \<sigma>)) \<and> (\<forall>k\<in>set ns. rv_inst \<tau> k = rv_inst \<sigma> k)))"

lemma overflow_phis_state:
  fixes s t :: cgctx
  assumes "cmap (\<lambda>_. cbind (CreatePHI PtrTy) (\<lambda>phi.
      cthen (cmodify (\<lambda>s. s\<lparr>cx_overflowPhiNodes := cx_overflowPhiNodes s @ [phi]\<rparr>))
      (creturn phi))) (xs :: nat list) s = Inr (ps, t)" "ir_insert s = Some c"
    "ns = [ir_nvals s..<ir_nvals s + length xs]"
  shows "ps = map (\<lambda>k. VInst k PtrTy) ns \<and>
    t = s\<lparr>ir_nvals := ir_nvals s + length xs, ir_blocks := (ir_blocks s)(c := (ir_blocks s c)
        \<lparr>bb_insts := bb_insts (ir_blocks s c) @ map (\<lambda>k. (k, Phi PtrTy)) ns\<rparr>),
      cx_overflowPhiNodes := cx_overflowPhiNodes s @ map (\<lambda>k. VInst k PtrTy) ns\<rparr>"
  using assms
proof (induction xs arbitrary: s ps ns)
  case Nil
  then show ?case by (simp add: creturn_def)
next
  case (Cons x xs)
  define u where "u = s\<lparr>ir_nvals := ir_nvals s + 1, ir_blocks := (ir_blocks s)
    (c := (ir_blocks s c)\<lparr>bb_insts := bb_insts (ir_blocks s c) @ [(ir_nvals s, Phi PtrTy)]\<rparr>),
    cx_overflowPhiNodes := cx_overflowPhiNodes s @ [VInst (ir_nvals s) PtrTy]\<rparr>"
  define f where "f = (\<lambda>_ :: nat. cbind (CreatePHI PtrTy) (\<lambda>phi.
      cthen (cmodify (\<lambda>s. s\<lparr>cx_overflowPhiNodes := cx_overflowPhiNodes s @ [phi]\<rparr>))
      (creturn phi :: value cx)))"
  have "f x s = Inr (VInst (ir_nvals s) PtrTy, u)"
    using Cons.prems(2)
    by (simp add: f_def CreatePHI_def ir_append_def Let_def u_def cbind_def cthen_def cmodify_def creturn_def)
  with Cons.prems(1) [folded f_def] obtain qs where
    qs: "cmap f xs u = Inr (qs, t)" "ps = VInst (ir_nvals s) PtrTy # qs"
    by (auto simp: cbind_def creturn_def split: sum.splits)
  have u: "ir_insert u = Some c" "ir_nvals u = Suc (ir_nvals s)"
    "ir_blocks u = (ir_blocks s)(c := (ir_blocks s c)\<lparr>bb_insts := bb_insts (ir_blocks s c) @ [(ir_nvals s, Phi PtrTy)]\<rparr>)"
    "cx_overflowPhiNodes u = cx_overflowPhiNodes s @ [VInst (ir_nvals s) PtrTy]"
    using Cons.prems(2) by (simp_all add: u_def)
  obtain ms where ms: "ms = [ir_nvals u..<ir_nvals u + length xs]" by simp
  have ns: "ns = ir_nvals s # ms" by (simp add: Cons.prems(3) ms u(2) upt_conv_Cons del: upt_Suc)
  have "qs = map (\<lambda>k. VInst k PtrTy) ms \<and>
    t = u\<lparr>ir_nvals := ir_nvals u + length xs, ir_blocks := (ir_blocks u)(c := (ir_blocks u c)
        \<lparr>bb_insts := bb_insts (ir_blocks u c) @ map (\<lambda>k. (k, Phi PtrTy)) ms\<rparr>),
      cx_overflowPhiNodes := cx_overflowPhiNodes u @ map (\<lambda>k. VInst k PtrTy) ms\<rparr>"
    by (rule Cons.IH [OF qs(1) [unfolded f_def] u(1) ms])
  moreover have "(ir_blocks u)(c := (ir_blocks u c)\<lparr>bb_insts := bb_insts (ir_blocks u c) @ map (\<lambda>k. (k, Phi PtrTy)) ms\<rparr>) =
      (ir_blocks s)(c := (ir_blocks s c)\<lparr>bb_insts := bb_insts (ir_blocks s c) @ map (\<lambda>k. (k, Phi PtrTy)) ns\<rparr>)"
    by (simp add: u(3) ns)
  moreover obtain B where B: "B = (ir_blocks s)(c := (ir_blocks s c)
        \<lparr>bb_insts := bb_insts (ir_blocks s c) @ map (\<lambda>k. (k, Phi PtrTy)) ns\<rparr>)" by simp
  ultimately have "qs = map (\<lambda>k. VInst k PtrTy) ms" "t = u\<lparr>ir_nvals := ir_nvals s + length (x # xs),
      ir_blocks := B, cx_overflowPhiNodes := cx_overflowPhiNodes s @ map (\<lambda>k. VInst k PtrTy) ns\<rparr>"
    by (simp_all only: u(2,4)) (simp_all add: ns)
  then show ?case unfolding qs(2) B [symmetric] by (simp add: u_def ns)
qed

text \<open>What an operation emits does not depend on the state of the machine.\<close>

lemma runs_all:
  assumes "\<And>\<sigma>. runs m s \<sigma> (Q \<sigma>)" "ir_insert s = Some c"
  shows "\<exists>x t ins. m s = Inr (x, t) \<and> emits s ins t \<and> (\<forall>\<sigma>. \<exists>\<tau>. exec \<sigma> ins = Some \<tau> \<and> Q \<sigma> x t \<tau>)"
proof -
  obtain x t ins where m: "m s = Inr (x, t)" "emits s ins t"
    using assms(1) unfolding runs_def by blast
  have "\<exists>\<tau>. exec \<sigma> ins = Some \<tau> \<and> Q \<sigma> x t \<tau>" for \<sigma>
  proof -
    obtain ins' \<tau> where e: "emits s ins' t" "exec \<sigma> ins' = Some \<tau>" "Q \<sigma> x t \<tau>"
      using assms(1) [of \<sigma>] m(1) unfolding runs_def by auto
    have "bb_insts (ir_blocks s c) @ ins' = bb_insts (ir_blocks s c) @ ins"
      using e(1) m(2) assms(2) unfolding emits_def by metis
    with e show ?thesis by auto
  qed
  with m show ?thesis by blast
qed

text \<open>A state in which the overflow block can be made, and has this code once it is made.\<close>

definition raise_ok :: "cgctx \<Rightarrow> bool" where
  "raise_ok s \<longleftrightarrow>
     base_ok s \<and> caches_ok s \<and> cx_intTy s = i64Ty \<and> cx_wordSzB s = 8 \<and> fold_sound (ir_fold s) \<and>
     (\<forall>ob. cx_overflowBB s = Some ob \<longrightarrow>
        ob < ir_nblocks s \<and> (\<exists>ns. cx_overflowPhiNodes s = map (\<lambda>k. VInst k PtrTy) ns \<and>
          raises ns (ti_raiseOvflwOffset (cx_target s)) (bb_insts (ir_blocks s ob))))"

lemma body_emits:
  assumes ok: "sp_ok v" "caches_ok v" "ctx_ok v"
    and run: "loadFromStack off v = Inr (r, v1)" "createBitCast r PtrTy v1 = Inr (fn, w)"
  shows "\<exists>pre. emits (sp_set v) pre w \<and>
    (\<forall>\<sigma>. \<exists>\<tau>. exec \<sigma> pre = Some \<tau> \<and> rv_mem \<tau> = rv_mem \<sigma> \<and> rv_sp \<tau> = rv_sp \<sigma> \<and>
       veval \<tau> fn = Some (stack_word \<sigma> off (rv_mem \<sigma>)) \<and> (\<forall>k<ir_nvals v. rv_inst \<tau> k = rv_inst \<sigma> k))"
proof -
  let ?s = "sp_set v"
  obtain rr md where r: "cx_readReg ?s = Some rr" "loadFromStack off v = stack_load rr md off ?s"
    using loadFromStack_split [OF ok(1)] ok(3) unfolding ctx_ok_def by metis
  obtain m where rr: "rr = VReadReg m"
    using r(1) ok(1,2) by (auto simp: sp_set_def caches_ok_def sp_ok_def split: if_splits)
  have c: "ctx_ok ?s" using ok(3) by (simp add: sp_set_def ctx_ok_def)
  obtain b where b: "ir_insert ?s = Some b" using c by (auto simp: ctx_ok_def)
  let ?m = "cbind (stack_load rr md off) (\<lambda>r. createBitCast r PtrTy)"
  have "runs ?m ?s \<sigma> (\<lambda>fn t \<tau>. known ?s \<sigma> (rs_get (cx_regState ?s)) (rv_mem \<sigma>)
      [(fn, stack_word \<sigma> off (rv_mem \<sigma>))] t \<tau>)" for \<sigma>
    unfolding rr createBitCast_def
  proof (intro runs_bind, rule step_stack_load)
    show "known ?s \<sigma> (rs_get (cx_regState ?s)) (rv_mem \<sigma>) [] ?s \<sigma>" by (rule known_start) (use c in simp_all)
    show "runs (CreateCast BitCast fn PtrTy) t \<tau> (\<lambda>fn t \<tau>. known ?s \<sigma> (rs_get (cx_regState ?s)) (rv_mem \<sigma>)
        [(fn, stack_word \<sigma> off (rv_mem \<sigma>))] t \<tau>)"
      if k: "known ?s \<sigma> (rs_get (cx_regState ?s)) (rv_mem \<sigma>) [(fn, stack_word \<sigma> off (rv_mem \<sigma>))] t \<tau>" for fn t \<tau>
      by (rule step_cast [OF k, where r = "stack_word \<sigma> off (rv_mem \<sigma>)" and r' = "stack_word \<sigma> off (rv_mem \<sigma>)"])
        (auto simp: stack_word_def elim: known_weaken)
  qed
  from runs_all [OF this b] obtain fn' w' pre where e: "?m ?s = Inr (fn', w')" "emits ?s pre w'"
    "\<forall>\<sigma>. \<exists>\<tau>. exec \<sigma> pre = Some \<tau> \<and> known ?s \<sigma> (rs_get (cx_regState ?s)) (rv_mem \<sigma>)
      [(fn', stack_word \<sigma> off (rv_mem \<sigma>))] w' \<tau>" by blast
  have "fn' = fn" "w' = w" using e(1) run r(2) by (simp_all add: cbind_def)
  moreover have "ir_nvals ?s = ir_nvals v" by (simp add: sp_set_def)
  ultimately show ?thesis using e(2,3) by (fastforce simp: known_def later_def holds_def)
qed

lemma make_overflow_start:
  assumes "make_overflowBB c n s = Inr (x, t)" "cx_curFn s = Some f" "cx_overflowPhiNodes s = []"
    "ns = [ir_nvals s..<ir_nvals s + n]" "b = ir_nblocks s"
    "v = s\<lparr>ir_nblocks := b + 1, ir_nvals := ir_nvals s + n, ir_blocks := (ir_blocks s)
      (b := \<lparr>bb_name = ''overflow'', bb_fn = f, bb_insts = map (\<lambda>k. (k, Phi PtrTy)) ns\<rparr>),
      cx_overflowBB := Some b, ir_insert := Some b, cx_overflowPhiNodes := map (\<lambda>k. VInst k PtrTy) ns\<rparr>"
  obtains r v1 fn w m w1 k w2 where
    "loadFromStack (ti_raiseOvflwOffset (cx_target s)) v = Inr (r, v1)" "createBitCast r PtrTy v1 = Inr (fn, w)"
    "ir_append (Call (cx_raiseOverflowFnTy v1) fn (map (\<lambda>k. VInst k PtrTy) ns) CC_JWA TCK_NoTail) w = Inr (m, w1)"
    "ir_append RetVoid w1 = Inr (k, w2)" "t = w2\<lparr>ir_insert := Some c\<rparr>"
proof -
  define u where "u = s\<lparr>ir_nblocks := b + 1, ir_blocks := (ir_blocks s)
      (b := \<lparr>bb_name = ''overflow'', bb_fn = f, bb_insts = []\<rparr>),
      cx_overflowBB := Some b, ir_insert := Some b\<rparr>"
  define phi where "phi = (\<lambda>_ :: nat. cbind (CreatePHI PtrTy) (\<lambda>phi.
      cthen (cmodify (\<lambda>s. s\<lparr>cx_overflowPhiNodes := cx_overflowPhiNodes s @ [phi]\<rparr>))
      (creturn phi :: value cx)))"
  define body where "body = (\<lambda>args :: value list.
      cbind (cbind (cget (\<lambda>s. ti_raiseOvflwOffset (cx_target s))) loadFromStack) (\<lambda>raiseFn.
      cbind (cget cx_raiseOverflowFnTy) (\<lambda>ft.
      cbind (createBitCast raiseFn PtrTy) (\<lambda>f.
      cthen (cbind (ir_append (Call ft f args CC_JWA TCK_NoTail)) (\<lambda>_. creturn ()))
      (cthen (ir_exec RetVoid)
      (SetInsertPoint c))))))"
  have new: "newBB ''overflow'' s = Inr (b, s\<lparr>ir_nblocks := b + 1, ir_blocks := (ir_blocks s)
        (b := \<lparr>bb_name = ''overflow'', bb_fn = f, bb_insts = []\<rparr>)\<rparr>)"
    by (simp add: newBB_def curFn_def cthe_def BasicBlock_Create_def cget_def cbind_def creturn_def assms(2,5))
  from assms(1) obtain ps v' where p: "cmap phi [0..<n] u = Inr (ps, v')" and body: "body ps v' = Inr (x, t)"
    unfolding make_overflowBB_def phi_def [symmetric] body_def [symmetric]
    by (auto elim!: cbind_InrE cthen_InrE simp: new cmodify_def SetInsertPoint_def u_def)
  have ui: "ir_insert u = Some b" by (simp add: u_def)
  have "ps = map (\<lambda>k. VInst k PtrTy) ns" "v' = v"
    using overflow_phis_state [OF p [unfolded phi_def] ui refl] by (simp_all add: u_def assms(3-6))
  with body show ?thesis
    unfolding body_def
    by (auto elim!: cbind_InrE cthen_InrE simp: cget_def creturn_def ir_exec_def SetInsertPoint_def cmodify_def
        assms(6) intro: that)
qed

lemma make_raises:
  assumes ok: "raise_ok s" "cx_overflowBB s = None" and run: "make_overflowBB c n s = Inr (x, t)"
  shows "\<exists>ns. cx_overflowPhiNodes t = map (\<lambda>k. VInst k PtrTy) ns \<and> cx_overflowBB t = Some (ir_nblocks s) \<and>
    ir_nblocks s < ir_nblocks t \<and>
    raises ns (ti_raiseOvflwOffset (cx_target s)) (bb_insts (ir_blocks t (ir_nblocks s)))"
proof -
  obtain f where f: "cx_curFn s = Some f" using ok(1) by (auto simp: raise_ok_def base_ok_def)
  have phis: "cx_overflowPhiNodes s = []" using ok by (auto simp: raise_ok_def base_ok_def phis_ok_def)
  define b where "b = ir_nblocks s"
  define ns where "ns = [ir_nvals s..<ir_nvals s + n]"
  define v where "v = s\<lparr>ir_nblocks := b + 1, ir_nvals := ir_nvals s + n, ir_blocks := (ir_blocks s)
      (b := \<lparr>bb_name = ''overflow'', bb_fn = f, bb_insts = map (\<lambda>k. (k, Phi PtrTy)) ns\<rparr>),
      cx_overflowBB := Some b, ir_insert := Some b, cx_overflowPhiNodes := map (\<lambda>k. VInst k PtrTy) ns\<rparr>"
  obtain r v1 fn w m w1 k w2 where r:
    "loadFromStack (ti_raiseOvflwOffset (cx_target s)) v = Inr (r, v1)" "createBitCast r PtrTy v1 = Inr (fn, w)"
    "ir_append (Call (cx_raiseOverflowFnTy v1) fn (map (\<lambda>k. VInst k PtrTy) ns) CC_JWA TCK_NoTail) w = Inr (m, w1)"
    "ir_append RetVoid w1 = Inr (k, w2)" "t = w2\<lparr>ir_insert := Some c\<rparr>"
    by (rule make_overflow_start [OF run f phis ns_def b_def v_def])
  have "sp_ok v" "caches_ok v" "ctx_ok v"
    using ok(1) by (simp_all add: v_def raise_ok_def base_ok_def sp_ok_def caches_ok_def ctx_ok_def isIntegerTy_def)
  from body_emits [OF this r(1,2)] obtain pre where e: "emits (sp_set v) pre w"
    "\<forall>\<sigma>. \<exists>\<tau>. exec \<sigma> pre = Some \<tau> \<and> rv_mem \<tau> = rv_mem \<sigma> \<and> rv_sp \<tau> = rv_sp \<sigma> \<and>
       veval \<tau> fn = Some (stack_word \<sigma> (ti_raiseOvflwOffset (cx_target s)) (rv_mem \<sigma>)) \<and>
       (\<forall>k<ir_nvals v. rv_inst \<tau> k = rv_inst \<sigma> k)" by blast
  have sp: "ir_insert (sp_set v) = Some b" "ir_nblocks (sp_set v) = b + 1"
    "cx_overflowBB (sp_set v) = Some b" "cx_overflowPhiNodes (sp_set v) = map (\<lambda>k. VInst k PtrTy) ns"
    "bb_insts (ir_blocks (sp_set v) b) = map (\<lambda>k. (k, Phi PtrTy)) ns"
    by (simp_all add: sp_set_def v_def)
  have w: "ir_insert w = Some b" "ir_nblocks w = b + 1" "cx_overflowBB w = Some b"
    "cx_overflowPhiNodes w = map (\<lambda>k. VInst k PtrTy) ns"
    "bb_insts (ir_blocks w b) = map (\<lambda>k. (k, Phi PtrTy)) ns @ pre"
    using e(1) sp by (simp_all add: emits_def still_def kept_def)
  have t: "ir_nblocks t = b + 1" "cx_overflowBB t = Some b" "cx_overflowPhiNodes t = map (\<lambda>k. VInst k PtrTy) ns"
    "\<exists>m n. bb_insts (ir_blocks t b) = map (\<lambda>k. (k, Phi PtrTy)) ns @ pre @
       [(m, Call (cx_raiseOverflowFnTy v1) fn (map (\<lambda>k. VInst k PtrTy) ns) CC_JWA TCK_NoTail), (n, RetVoid)]"
    using r(3-5) w by (auto dest!: ir_append_Some)
  have less: "\<And>k. k \<in> set ns \<Longrightarrow> k < ir_nvals v" by (simp add: ns_def v_def)
  have "\<exists>\<tau>. exec \<sigma> pre = Some \<tau> \<and> rv_mem \<tau> = rv_mem \<sigma> \<and> rv_sp \<tau> = rv_sp \<sigma> \<and>
      veval \<tau> fn = Some (stack_word \<sigma> (ti_raiseOvflwOffset (cx_target s)) (rv_mem \<sigma>)) \<and>
      (\<forall>k\<in>set ns. rv_inst \<tau> k = rv_inst \<sigma> k)" for \<sigma>
    using e(2) less by blast
  with t(4) have "raises ns (ti_raiseOvflwOffset (cx_target s)) (bb_insts (ir_blocks t b))"
    unfolding raises_def by blast
  with t(1-3) show ?thesis by (intro exI [of _ ns]) (simp add: b_def)
qed

section \<open>The block stays\<close>

lemma exec_invariant: "exec \<sigma> (map (set_invariant v) ins) = exec \<sigma> ins"
proof (induction ins arbitrary: \<sigma>)
  case (Cons ni ins)
  have "exec1 \<sigma> (set_invariant v ni) = exec1 \<sigma> ni"
    by (cases ni; cases v; cases "snd ni") (auto simp: set_invariant_def)
  with Cons show ?case by (simp split: option.splits)
qed simp

lemma set_invariant_plain: "\<not> (\<exists>t a al iv. i = Load t a al iv) \<Longrightarrow> set_invariant v (n, i) = (n, i)"
  by (cases v; cases i) (simp_all add: set_invariant_def)

lemma raises_invariant:
  assumes "raises ns off ins"
  shows "raises ns off (map (set_invariant v) ins)"
proof -
  obtain pre m ft fn n more where
    "ins = map (\<lambda>k. (k, Phi PtrTy)) ns @ pre @
          (m, Call ft fn (map (\<lambda>k. VInst k PtrTy) ns) CC_JWA TCK_NoTail) # (n, RetVoid) # more"
    "\<forall>\<sigma>. \<exists>\<tau>. exec \<sigma> pre = Some \<tau> \<and> rv_mem \<tau> = rv_mem \<sigma> \<and> rv_sp \<tau> = rv_sp \<sigma> \<and>
           veval \<tau> fn = Some (stack_word \<sigma> off (rv_mem \<sigma>)) \<and> (\<forall>k\<in>set ns. rv_inst \<tau> k = rv_inst \<sigma> k)"
    using assms unfolding raises_def by blast
  then show ?thesis
    unfolding raises_def
    by (intro exI [of _ "map (set_invariant v) pre"] exI [of _ m] exI [of _ ft] exI [of _ fn] exI [of _ n]
        exI [of _ "map (set_invariant v) more"])
      (simp add: exec_invariant set_invariant_plain comp_def)
qed

lemma raises_append:
  assumes "raises ns off ins"
  shows "raises ns off (ins @ js)"
proof -
  obtain pre m ft fn n more where
    "ins = map (\<lambda>k. (k, Phi PtrTy)) ns @ pre @
          (m, Call ft fn (map (\<lambda>k. VInst k PtrTy) ns) CC_JWA TCK_NoTail) # (n, RetVoid) # more"
    "\<forall>\<sigma>. \<exists>\<tau>. exec \<sigma> pre = Some \<tau> \<and> rv_mem \<tau> = rv_mem \<sigma> \<and> rv_sp \<tau> = rv_sp \<sigma> \<and>
           veval \<tau> fn = Some (stack_word \<sigma> off (rv_mem \<sigma>)) \<and> (\<forall>k\<in>set ns. rv_inst \<tau> k = rv_inst \<sigma> k)"
    using assms unfolding raises_def by blast
  then show ?thesis
    unfolding raises_def
    by (intro exI [of _ pre] exI [of _ m] exI [of _ ft] exI [of _ fn] exI [of _ n] exI [of _ "more @ js"]) simp
qed

text \<open>The overflow block and its code.\<close>

definition ovf_kept :: "cgctx \<Rightarrow> cgctx \<Rightarrow> bool" where
  "ovf_kept s t \<longleftrightarrow>
     cx_overflowBB t = cx_overflowBB s \<and> cx_overflowPhiNodes t = cx_overflowPhiNodes s \<and> ir_nblocks s \<le> ir_nblocks t \<and>
     (\<forall>b ns off. b < ir_nblocks s \<longrightarrow> raises ns off (bb_insts (ir_blocks s b)) \<longrightarrow>
        raises ns off (bb_insts (ir_blocks t b)))"

lemma ovf_kept_append: "keeps ovf_kept (ir_append i)"
  by (auto simp: keeps_def ovf_kept_def intro: raises_append dest!: ir_append_Some)

lemma ovf_kept_same:
  "cx_overflowBB t = cx_overflowBB s \<Longrightarrow>
     cx_overflowPhiNodes t = cx_overflowPhiNodes s \<Longrightarrow> ir_nblocks t = ir_nblocks s \<Longrightarrow>
     ir_blocks t = ir_blocks s \<Longrightarrow> ovf_kept s t"
  by (simp add: ovf_kept_def)

lemma ovf_kept_modify:
  "(\<And>s. cx_overflowBB (f s) = cx_overflowBB s) \<Longrightarrow> (\<And>s. cx_overflowPhiNodes (f s) = cx_overflowPhiNodes s) \<Longrightarrow>
     (\<And>s. ir_nblocks (f s) = ir_nblocks s) \<Longrightarrow> (\<And>s. ir_blocks (f s) = ir_blocks s) \<Longrightarrow> keeps ovf_kept (cmodify f)"
  by (auto simp: keeps_def cmodify_def intro: ovf_kept_same)

interpretation ovf_kept: frame ovf_kept
proof unfold_locales
  show "ovf_kept s s" for s by (simp add: ovf_kept_def)
  show "ovf_kept s u" if "ovf_kept s t" "ovf_kept t u" for s t u
    using that unfolding ovf_kept_def by (auto dest: order_less_le_trans)
qed

lemma ovf_kept_basics:
  "keeps ovf_kept (setRegState r w)" "keeps ovf_kept (restoreSMLRegState c)" "keeps ovf_kept (set_basePtr b)"
  "keeps ovf_kept clear_basePtr" "keeps ovf_kept (phi_addIncoming phi v n)" "keeps ovf_kept (insertVal x v)"
  "keeps ovf_kept (setInvarianteLoadMD v)" "keeps ovf_kept (createGlobalAlias ty nm v)"
  "keeps ovf_kept (intr_get j)" "keeps ovf_kept initSPAccess"
proof -
  show "keeps ovf_kept (setInvarianteLoadMD v)"
    by (auto simp: keeps_def setInvarianteLoadMD_def GetInsertBlock_def cg_simps cthe_def cbind_def
        ovf_kept_def intro: raises_invariant split: option.splits)
  show "keeps ovf_kept (createGlobalAlias ty nm v)"
    by (auto simp: keeps_def createGlobalAlias_def current_module_def cg_simps cthe_def cbind_def
        intro!: ovf_kept_same split: option.splits)
  show "keeps ovf_kept (phi_addIncoming phi v n)"
    by (cases phi) (auto simp: phi_addIncoming_def intro!: ovf_kept_modify ovf_kept.keeps_fail)
qed (auto simp: set_basePtr_def intr_get_def initSPAccess_def current_module_def
      setRegState_def restoreSMLRegState_def clear_basePtr_def insertVal_def Let_def
      intro!: frame_intros ovf_kept_modify)

interpretation ovf_kept: stm_frame ovf_kept
  by unfold_locales (intro ovf_kept_append ovf_kept_basics)+

lemma ovf_kept_control:
  "keeps ovf_kept (ir_exec i)" "keeps ovf_kept (newBB nm)" "keeps ovf_kept (SetInsertPoint d)"
proof -
  show "keeps ovf_kept (ir_exec i)"
    unfolding ir_exec_def by (intro ovf_kept.keeps_bind ovf_kept_append ovf_kept.keeps_return)
  show "keeps ovf_kept (newBB nm)"
    by (auto simp: keeps_def ovf_kept_def dest!: newBB_eq)
  show "keeps ovf_kept (SetInsertPoint d)"
    unfolding SetInsertPoint_def by (rule ovf_kept.keeps_modify) (simp add: ovf_kept_def)
qed

definition raising :: "cgctx \<Rightarrow> cgctx \<Rightarrow> bool" where
  "raising s t \<longleftrightarrow> (raise_ok s \<longrightarrow> raise_ok t)"

lemma raisingI:
  assumes "based s t" "cache_step s t" "lasting s t" "ovf_kept s t"
  shows "raising s t"
  unfolding raising_def
proof
  assume ok: "raise_ok s"
  have "base_ok t" "caches_ok t" using ok assms(1,2) by (simp_all add: raise_ok_def based_def cache_step_def)
  moreover have "cx_intTy t = i64Ty" "cx_wordSzB t = 8" "fold_sound (ir_fold t)" "cx_target t = cx_target s"
    using ok assms(3) by (simp_all add: raise_ok_def lasting_def surround_def)
  moreover have "ob < ir_nblocks t \<and> (\<exists>ns. cx_overflowPhiNodes t = map (\<lambda>k. VInst k PtrTy) ns \<and>
      raises ns (ti_raiseOvflwOffset (cx_target s)) (bb_insts (ir_blocks t ob)))"
    if "cx_overflowBB t = Some ob" for ob
  proof -
    have s: "cx_overflowBB s = Some ob" "cx_overflowPhiNodes t = cx_overflowPhiNodes s" "ir_nblocks s \<le> ir_nblocks t"
      using that assms(4) by (simp_all add: ovf_kept_def)
    then obtain ns where ns: "ob < ir_nblocks s" "cx_overflowPhiNodes s = map (\<lambda>k. VInst k PtrTy) ns"
      "raises ns (ti_raiseOvflwOffset (cx_target s)) (bb_insts (ir_blocks s ob))"
      using ok by (auto simp: raise_ok_def)
    from ns(1,3) have "raises ns (ti_raiseOvflwOffset (cx_target s)) (bb_insts (ir_blocks t ob))"
      using assms(4) by (simp add: ovf_kept_def)
    with ns(1,2) s(2,3) show ?thesis by auto
  qed
  ultimately show "raise_ok t" by (simp add: raise_ok_def)
qed

lemma raising_keeps: "keeps based m \<Longrightarrow> keeps cache_step m \<Longrightarrow> keeps lasting m \<Longrightarrow> keeps ovf_kept m \<Longrightarrow>
    keeps raising m"
  unfolding keeps_def by (blast intro: raisingI)

interpretation raising: stm_frame raising
  by unfold_locales (auto simp: raising_def intro!: raising_keeps frame_intros)

lemma raising_control:
  "keeps raising (ir_exec i)" "keeps raising (newBB nm)" "keeps raising (SetInsertPoint d)"
  by (intro raising_keeps based_basics ovf_kept_control cache_intros lasting_exec lasting_newBB lasting_basics)+

lemma raising_getOverflowBB: "keeps raising getOverflowBB"
proof (rule raising.keeps_made)
  fix s t c
  assume none: "cx_overflowBB s = None" and run: "make_overflowBB c (numMachineRegs (cx_regInfo s)) s = Inr ((), t)"
  show "raising s t"
    unfolding raising_def
  proof
    assume ok: "raise_ok s"
    then have b: "base_ok s" by (simp add: raise_ok_def)
    then have "does (make_overflowBB c (numMachineRegs (cx_regInfo s))) s
        (\<lambda>_. made c (numMachineRegs (cx_regInfo s)) s)"
      by (intro does_make_overflowBB) (auto simp: base_ok_def)
    with run have made: "made c (numMachineRegs (cx_regInfo s)) s t" by (auto simp: does_def)
    from made_phis [OF this _ none refl] made b have "base_ok t" by (simp add: base_ok_def made_def)
    moreover have "lasting s t" by (rule keepsD [OF lasting_make_overflowBB run])
    moreover have "caches_ok t"
      using keepsD [OF cache_make_overflowBB run] ok by (simp add: cache_step_def raise_ok_def)
    ultimately show "raise_ok t"
      using make_raises [OF ok none run] ok by (auto simp: raise_ok_def lasting_def surround_def)
  qed
qed

interpretation raising: code_frame raising
  by unfold_locales (intro raising_control raising_getOverflowBB)+

lemma raising_frag_codegen: "keeps raising (frag_codegen fr ent)"
proof -
  have "keeps raising beginFrag"
    by (auto simp: keeps_def beginFrag_def cmodify_def raising_def raise_ok_def base_ok_def sp_ok_def
        phis_ok_def caches_ok_def)
  then show ?thesis
    unfolding frag_codegen_def
    by (intro raising.keeps_then raising.keeps_bind raising.keeps_if raising.keeps_stm raising_control)
      (auto intro!: frame_intros)
qed

end
