(* ===== verification/Unit_Simulation.thy ===== *)
theory Unit_Simulation
  imports Unit_Code Overflow_Raise
begin

text \<open>
  The simulation of a compilation unit: the finished module runs the clusters of the unit as their
  meanings say, through the tail calls from one to the next.
\<close>

section \<open>The finished module, as a cluster left it\<close>

text \<open>The module \<open>z\<close> with what the state \<open>t\<close>, after a cluster, knew about that cluster.\<close>

definition view :: "cgctx \<Rightarrow> cgctx \<Rightarrow> cgctx" where
  "view t z = z\<lparr>cx_overflowBB := cx_overflowBB t, cx_overflowPhiNodes := cx_overflowPhiNodes t,
     cx_fragMap := cx_fragMap t, cx_curFn := cx_curFn t, cx_curCluster := cx_curCluster t\<rparr>"

lemma view_simps [simp]:
  "ir_blocks (view t z) = ir_blocks z" "ir_phis (view t z) = ir_phis z" "ir_nblocks (view t z) = ir_nblocks z"
  "ir_nvals (view t z) = ir_nvals z" "cx_regInfo (view t z) = cx_regInfo z"
  "cx_clusterMap (view t z) = cx_clusterMap z" "cx_fragMap (view t z) = cx_fragMap t"
  "cx_overflowBB (view t z) = cx_overflowBB t" "cx_overflowPhiNodes (view t z) = cx_overflowPhiNodes t"
  by (simp_all add: view_def)

lemma edge_view: "edge (view t z) = edge z"
  by (simp add: edge_def fun_eq_iff)

lemma reg_vals_view: "reg_vals (view t z) = reg_vals z"
  by (simp add: reg_vals_def machine_ids_def fun_eq_iff)

lemma phi_env_view: "phi_env (view t z) c \<sigma> ps = phi_env z c \<sigma> ps"
  by (induction ps) (auto simp: edge_view split: option.splits)

lemma mstep_view: "mstep (view t z) a = mstep z a"
  by (induction z a rule: mstep.induct)
    (simp_all add: enter_def phi_env_view split: instr.split option.split rval.split)

lemma arrives_leave_view: "arrives (view t z) (Leave k d vs G M) cf = arrives z (Leave k d vs G M) cf"
proof -
  have "callee_is (view t z) = callee_is z" by (simp add: callee_is_def fun_eq_iff split: dest.split)
  then show ?thesis by (cases cf) (simp add: reg_vals_view)
qed

lemma flow_view: "flow (view t z) a b \<Longrightarrow> flow z a b"
  by (induction rule: flow.induct) (auto intro: flow.intros simp: mstep_view)

lemma view_finished:
  assumes "endures t z" "base_ok t" "sp_ok z" "numbers_ok z"
  shows "finished t (view t z)"
proof -
  have n: "numbers_ok (view t z)" using assms(4) by (simp add: numbers_ok_def)
  have "outlasts t (view t z)"
    using assms(1) n by (simp add: outlasts_def surround_def endures_def) (simp add: view_def)
  moreover obtain ns where ns: "cx_overflowPhiNodes t = map (\<lambda>n. VInst n PtrTy) ns" "distinct ns"
    "\<forall>n\<in>set ns. n < ir_nvals t"
    "length ns = (if cx_overflowBB t = None then 0 else numMachineRegs (cx_regInfo t))"
    using assms(2) unfolding base_ok_def phis_ok_def by blast
  then have "phis_ok (view t z)"
    using assms(1) unfolding phis_ok_def
    by (intro exI [of _ ns]) (auto simp: endures_def dest: order_less_le_trans)
  then have "base_ok (view t z)"
    using assms(2,3) by (simp add: base_ok_def sp_ok_def) (simp add: view_def)
  ultimately show ?thesis
    using assms(1) by (auto simp: finished_def based_def endures_def)
qed

section \<open>From one cluster to the next\<close>

text \<open>The clusters \<open>cs\<close> of the module \<open>z\<close>.\<close>

definition compiled :: "target_info \<Rightarrow> cluster list \<Rightarrow> cgctx \<Rightarrow> bool" where
  "compiled ti cs z \<longleftrightarrow>
     idle ti z \<and> sp_ok z \<and> (\<exists>cs'. list_all2 (\<lambda>c c'. registered z c c' \<and> generated ti cs z c c') cs cs')"

text \<open>The state \<open>t\<close> after the code of the cluster \<open>c\<close>, and the machine in the code of this cluster.\<close>

definition within :: "target_info \<Rightarrow> cluster list \<Rightarrow> cgctx \<Rightarrow> outcome \<Rightarrow> machine \<Rightarrow> bool" where
  "within ti cs z oc cf \<longleftrightarrow>
     (\<exists>c c' s t. poised (unit_sigs ti cs c) c' s \<and> well_formed (unit_sigs ti cs c) c' s \<and>
        cluster_codegen c' s = Inr ((), t) \<and> endures t z \<and> arrives (view t z) oc cf)"

text \<open>The functions at the addresses of code.\<close>

definition fn_at :: "(u64 \<Rightarrow> lvar option) \<Rightarrow> cgctx \<Rightarrow> u64 \<Rightarrow> nat option" where
  "fn_at code z p = Option.bind (code p) (\<lambda>lab. Option.bind (cx_clusterMap z lab) c_fn)"

lemma cluster_goes_fn: "cluster_goes S (c\<lparr>c_fn := f\<rparr>) = cluster_goes S c"
  by (simp add: cluster_goes_def fun_eq_iff)

lemma compiled_cluster:
  assumes "compiled ti cs z" "find_cluster cs lab = Some c"
  obtains en c' f where "cluster_entry c = Some en" "f_lab en = lab" "cx_clusterMap z lab = Some c'"
    "c_fn c' = Some f" "c' = c\<lparr>c_fn := Some f\<rparr>" "generated ti cs z c c'"
proof -
  obtain cs' where cs': "list_all2 (\<lambda>c c'. registered z c c' \<and> generated ti cs z c c') cs cs'"
    using assms(1) by (auto simp: compiled_def)
  obtain i where i: "i < length cs" "cs ! i = c" "map_option f_lab (cluster_entry c) = Some lab"
    using assms(2) unfolding find_cluster_def by (auto simp: find_Some_iff)
  then have "registered z c (cs' ! i)" "generated ti cs z c (cs' ! i)"
    using cs' by (auto simp: list_all2_conv_all_nth)
  with i(3) show ?thesis by (auto simp: registered_def intro!: that)
qed

text \<open>A function runs its cluster.\<close>

lemma function_goes:
  assumes z: "compiled ti cs z" and c: "generated ti cs z c c'" "c' = c\<lparr>c_fn := Some f\<rparr>" "cluster_entry c = Some en"
    and rs: "length us = n_unused (f_kind en)"
    and goes: "cluster_goes (unit_sigs ti cs c) c vs G (rv_mem \<sigma>) oc"
  shows "\<exists>cf cf'. enter_fn z f (map Some (reg_vals z G) @ us @ map Some vs) \<sigma> = Some cf \<and> flow z cf cf' \<and>
    within ti cs z oc cf'"
proof -
  obtain s t where g: "fn_entry z f = Some (ir_nblocks s)" "poised (unit_sigs ti cs c) c' s"
    "well_formed (unit_sigs ti cs c) c' s" "cluster_codegen c' s = Inr ((), t)" "endures t z"
    using c(1) unfolding generated_def by (auto simp: c(2))
  note e = cluster_ends [OF g(2-4)]
  have i: "idle ti z" "sp_ok z" using z by (simp_all add: compiled_def)
  then have fin: "finished t (view t z)"
    using view_finished [OF g(5) e(4)] by (simp add: idle_def)
  have s: "cx_regInfo s = cx_regInfo z" using g(5) e(1) by (simp add: endures_def)
  then have ids: "machine_ids s = machine_ids z" "reg_vals s G = reg_vals z G"
    by (simp_all add: machine_ids_def reg_vals_def)
  define rs where "rs = map Some (reg_vals z G) @ us @ map Some vs"
  define \<tau> where "\<tau> = \<sigma>\<lparr>rv_inst := (\<lambda>_. None), rv_arg := (\<lambda>i. if i < length rs then rs ! i else None)\<rparr>"
  have l: "length (reg_vals z G) = length (machine_ids z)" by (simp add: reg_vals_def)
  have p: "passed s (f_kind en) vs G \<tau>"
    using rs l unfolding passed_def ids by (auto simp: \<tau>_def rs_def nth_append)
  have "cluster_goes (unit_sigs ti cs c) c' vs G (rv_mem \<tau>) oc"
    using goes by (simp add: c(2) cluster_goes_fn \<tau>_def)
  moreover have "cluster_entry c' = Some en" using c(3) by (simp add: c(2) cluster_entry_def)
  ultimately obtain cf where
    cf: "flow (view t z) (ir_nblocks s, bb_insts (ir_blocks (view t z) (ir_nblocks s)), \<tau>) cf"
    "arrives (view t z) oc cf"
    using cluster_follows [OF g(2-4) fin _ p] by blast
  from cf(1) have "flow z (ir_nblocks s, bb_insts (ir_blocks z (ir_nblocks s)), \<tau>) cf"
    using flow_view by fastforce
  moreover have "enter_fn z f rs \<sigma> = Some (ir_nblocks s, bb_insts (ir_blocks z (ir_nblocks s)), \<tau>)"
    by (simp add: enter_fn_def g(1) \<tau>_def)
  moreover have "within ti cs z oc cf" using g cf(2) unfolding within_def by blast
  ultimately show ?thesis unfolding rs_def by blast
qed

text \<open>A tail call to a cluster of the unit enters its function.\<close>

lemma vevals_map: "vevals \<sigma> vs = Some rs \<Longrightarrow> map (veval \<sigma>) vs = map Some rs"
  by (induction vs arbitrary: rs) (auto split: option.splits)

lemma tail_call_step:
  assumes z: "compiled ti cs z" and within: "within ti cs z (Leave k d vs G M) cf"
    and c: "callee code cs k d = Some c"
    and goes: "cluster_goes (unit_sigs ti cs c) c vs G M oc"
  shows "\<exists>cf'. pflow (fn_at code z) z cf cf' \<and> within ti cs z oc cf'"
proof -
  obtain b ins \<sigma> where cf: "cf = (b, ins, \<sigma>)" by (cases cf) auto
  obtain t m ft fn rs us as n where at: "rv_mem \<sigma> = M"
    "ins = [(m, Call ft fn (rs @ us @ as) CC_JWA TCK_Tail), (n, RetVoid)]"
    "callee_is (view t z) \<sigma> d fn" "vevals \<sigma> rs = Some (reg_vals z G)" "length us = n_unused k"
    "vevals \<sigma> as = Some vs"
    using within by (auto simp: within_def cf reg_vals_view)
  obtain lab where lab: "dest_label code d = Some lab" "find_cluster cs lab = Some c"
    "map_option f_kind (cluster_entry c) = Some k"
    using c by (auto simp: callee_def bind_eq_Some_conv split: if_splits)
  obtain en c' f where c': "cluster_entry c = Some en" "f_lab en = lab" "cx_clusterMap z lab = Some c'"
    "c_fn c' = Some f" "c' = c\<lparr>c_fn := Some f\<rparr>" "generated ti cs z c c'"
    by (rule compiled_cluster [OF z lab(2)])
  have fn: "callee_fn (fn_at code z) \<sigma> fn = Some f"
  proof (cases d)
    case (Entry lab')
    then show ?thesis using at(3) lab(1) c'(3,4) by (auto simp: callee_is_def dest_label_def callee_fn_def)
  next
    case (Address p)
    then have "veval \<sigma> fn = Some (RP p)" "code p = Some lab"
      using at(3) lab(1) by (simp_all add: callee_is_def dest_label_def)
    then show ?thesis using c'(3,4) by (cases fn) (auto simp: callee_fn_def fn_at_def)
  qed
  have k: "f_kind en = k" using lab(3) c'(1) by simp
  have "map (veval \<sigma>) (rs @ us @ as) = map Some (reg_vals z G) @ map (veval \<sigma>) us @ map Some vs"
    using at(4,6) by (simp add: vevals_map)
  then have step: "pstep (fn_at code z) z cf =
      enter_fn z f (map Some (reg_vals z G) @ map (veval \<sigma>) us @ map Some vs) \<sigma>"
    by (simp add: cf at(2) pstep_def tail_call_def fn)
  have "length (map (veval \<sigma>) us) = n_unused (f_kind en)" using at(5) k by simp
  moreover have "cluster_goes (unit_sigs ti cs c) c vs G (rv_mem \<sigma>) oc" using goes at(1) by simp
  ultimately obtain cf1 cf' where
    "pstep (fn_at code z) z cf = Some cf1" "flow z cf1 cf'" "within ti cs z oc cf'"
    using function_goes [OF z c'(6,5,1)] unfolding step by blast
  then show ?thesis by (blast intro: pflow_step flow_pflow)
qed

lemma calls_follow:
  assumes "calls ti code cs oc oc'" "compiled ti cs z" "within ti cs z oc cf"
  shows "\<exists>cf'. pflow (fn_at code z) z cf cf' \<and> within ti cs z oc' cf'"
  using assms(1,3)
proof (induction arbitrary: cf)
  case (calls_refl oc)
  then show ?case by (blast intro: pflow_refl)
next
  case (calls_step k d c vs G M oc oc')
  obtain cf1 where 1: "pflow (fn_at code z) z cf cf1" "within ti cs z oc cf1"
    using tail_call_step [OF assms(2) calls_step.prems calls_step.hyps(1,2)] by blast
  from calls_step.IH [OF 1(2)] 1(1) show ?case by (blast intro: pflow_trans)
qed

section \<open>Overflow\<close>

text \<open>The handler for overflow is called, with the registers: its address is on the stack.\<close>

definition raised :: "cgctx \<Rightarrow> regs \<Rightarrow> mem \<Rightarrow> machine \<Rightarrow> bool" where
  "raised z G M cf \<longleftrightarrow>
     (\<exists>b m ft fn as n more \<sigma>. cf = (b, (m, Call ft fn as CC_JWA TCK_NoTail) # (n, RetVoid) # more, \<sigma>) \<and>
        rv_mem \<sigma> = M \<and> veval \<sigma> fn = Some (stack_word \<sigma> (ti_raiseOvflwOffset (cx_target z)) M) \<and>
        vevals \<sigma> as = Some (reg_vals z G))"

lemma cluster_raise_ok:
  assumes ok: "poised S c s" "well_formed S c s" and run: "cluster_codegen c s = Inr ((), t)"
  shows "raise_ok t"
proof -
  obtain en0 rest f en' rest' s1 s2 where r: "c_frags c = en0 # rest" "f_kind en0 \<noteq> INTERNAL"
    "cmap frag_init (c_frags c) (begun c s) = Inr (en' # rest', s1)" "todo S s1 (en' # rest')"
    "laid s1 en0 en'" "list_all2 (laid s1) rest rest'"
    "\<forall>fr\<in>set rest'. cx_fragMap s1 (f_lab fr) = Some fr" "stm_bb (f_body en') = Some (ir_nblocks s)"
    "cx_curFn s1 = Some f" "typed_entry en' f s1"
    "frag_codegen en' True s1 = Inr ((), s2)"
    "cforeach rest' (\<lambda>fr. frag_codegen fr False) s2 = Inr ((), t)"
    by (rule cluster_run [OF ok run])
  obtain a b c' d e where s1: "s1 = (begun c s)\<lparr>ir_nvals := a, ir_nblocks := b, ir_blocks := c',
      ir_insert := d, cx_fragMap := e\<rparr>"
    using begun_initialised(2) [OF ok r(3)] by (rule expandedE)
  have "stage S (s1\<lparr>ir_insert := Some 0\<rparr>)" using r(4) by (simp add: todo_def between_def)
  then have "base_ok s1" "caches_ok s1" "ctx_ok (s1\<lparr>ir_insert := Some 0\<rparr>)"
    by (auto simp: stage_def caches_ok_def base_ok_def sp_ok_def phis_ok_def)
  moreover have "cx_overflowBB s1 = None" by (simp add: s1 begun_def)
  ultimately have "raise_ok s1" by (simp add: raise_ok_def ctx_ok_def)
  moreover have "raising s1 s2" by (rule keepsD [OF raising_frag_codegen r(11)])
  moreover have "keeps raising (cforeach rest' (\<lambda>fr. frag_codegen fr False))"
    by (intro raising.keeps_foreach raising_frag_codegen)
  then have "raising s2 t" by (rule keepsD) (rule r(12))
  ultimately show ?thesis by (simp add: raising_def)
qed

text \<open>After its phi nodes, the block runs.\<close>

lemma raises_enter:
  assumes "raises ns off (bb_insts (ir_blocks z ob))" "distinct ns"
    and e: "edges_give z c \<sigma> (map (\<lambda>k. VInst k PtrTy) ns) (reg_vals z G)"
    and off: "off = ti_raiseOvflwOffset (cx_target z)"
  shows "\<exists>cf cf'. enter z c ob \<sigma> = Some cf \<and> flow z cf cf' \<and> raised z G (rv_mem \<sigma>) cf'"
proof -
  obtain pre m ft fn n more where
    b: "bb_insts (ir_blocks z ob) = map (\<lambda>k. (k, Phi PtrTy)) ns @ pre @
          (m, Call ft fn (map (\<lambda>k. VInst k PtrTy) ns) CC_JWA TCK_NoTail) # (n, RetVoid) # more"
    and pre: "\<forall>\<sigma>. \<exists>\<tau>. exec \<sigma> pre = Some \<tau> \<and> rv_mem \<tau> = rv_mem \<sigma> \<and> rv_sp \<tau> = rv_sp \<sigma> \<and>
           veval \<tau> fn = Some (stack_word \<sigma> off (rv_mem \<sigma>)) \<and> (\<forall>k\<in>set ns. rv_inst \<tau> k = rv_inst \<sigma> k)"
    using assms(1) unfolding raises_def by blast
  let ?phis = "map (\<lambda>k. (k, Phi PtrTy)) ns"
  let ?rest = "pre @ (m, Call ft fn (map (\<lambda>k. VInst k PtrTy) ns) CC_JWA TCK_NoTail) # (n, RetVoid) # more"
  have no: "\<not> is_phi (hd ?rest)"
  proof (cases pre)
    case (Cons ni pre')
    obtain \<tau> where "exec \<sigma> (ni # pre') = Some \<tau>" using pre Cons by blast
    then obtain \<tau>' where "exec1 \<sigma> ni = Some \<tau>'" by (auto split: option.splits)
    then show ?thesis using exec1_no_terminator Cons by (cases ni) auto
  qed (simp add: is_phi_def)
  have p: "takeWhile is_phi (bb_insts (ir_blocks z ob)) = ?phis" "dropWhile is_phi (bb_insts (ir_blocks z ob)) = ?rest"
    using no unfolding b by (cases pre; auto simp: is_phi_def takeWhile_append dropWhile_append)+
  have "list_all2 (\<lambda>n r. \<exists>w. edge z n c = Some w \<and> veval \<sigma> w = Some r) ns (reg_vals z G)"
    using e by (auto simp: edges_give_def list_all2_conv_all_nth)
  from phi_env_results [OF this assms(2), of ?phis] obtain env where
    env: "phi_env z c \<sigma> ?phis = Some env" "list_all2 (\<lambda>n r. env n = Some r) ns (reg_vals z G)"
    by (auto simp: comp_def)
  let ?\<sigma> = "\<sigma>\<lparr>rv_inst := env\<rparr>"
  obtain \<tau> where \<tau>: "exec ?\<sigma> pre = Some \<tau>" "rv_mem \<tau> = rv_mem \<sigma>" "rv_sp \<tau> = rv_sp \<sigma>"
    "veval \<tau> fn = Some (stack_word ?\<sigma> off (rv_mem \<sigma>))" "\<forall>k\<in>set ns. rv_inst \<tau> k = env k"
    using pre [rule_format, of ?\<sigma>] by auto
  have "enter z c ob \<sigma> = Some (ob, ?rest, ?\<sigma>)"
    by (simp add: enter_def Let_def p env(1))
  moreover note flow_exec [OF \<tau>(1), of z ob "(m, Call ft fn (map (\<lambda>k. VInst k PtrTy) ns) CC_JWA TCK_NoTail) #
      (n, RetVoid) # more"]
  moreover have "stack_word \<tau> off = stack_word ?\<sigma> off"
    using \<tau>(3) by (simp add: stack_word_def fun_eq_iff)
  moreover have "vevals \<tau> (map (\<lambda>k. VInst k PtrTy) ns) = Some (reg_vals z G)"
    using env(2) \<tau>(5)
    by (induction rule: list_all2_induct) auto
  ultimately show ?thesis using \<tau>(2,4) unfolding raised_def off by fastforce
qed

lemma overflow_raised:
  assumes z: "compiled ti cs z" and within: "within ti cs z (Overflow G M) cf"
  shows "\<exists>cf'. flow z cf cf' \<and> raised z G M cf'"
proof -
  obtain b ins \<sigma> where cf: "cf = (b, ins, \<sigma>)" by (cases cf) auto
  obtain c c' s t where w: "poised (unit_sigs ti cs c) c' s" "well_formed (unit_sigs ti cs c) c' s"
    "cluster_codegen c' s = Inr ((), t)" "endures t z" "arrives (view t z) (Overflow G M) (b, ins, \<sigma>)"
    using within unfolding within_def cf by blast
  obtain m v ob y wt where at: "rv_mem \<sigma> = M" "ins = [(m, CondBr v ob y wt)]" "veval \<sigma> v = Some (RI 1 1)"
    "cx_overflowBB t = Some ob" "edges_give (view t z) b \<sigma> (cx_overflowPhiNodes t) (reg_vals z G)"
    using w(5) by (auto simp: reg_vals_view)
  have ok: "raise_ok t" by (rule cluster_raise_ok [OF w(1-3)])
  then obtain ns where ns: "ob < ir_nblocks t" "cx_overflowPhiNodes t = map (\<lambda>k. VInst k PtrTy) ns"
    "raises ns (ti_raiseOvflwOffset (cx_target t)) (bb_insts (ir_blocks t ob))"
    using at(4) by (auto simp: raise_ok_def)
  have "inj (\<lambda>k. VInst k PtrTy)" by (simp add: inj_on_def)
  moreover have "distinct (cx_overflowPhiNodes t)"
    using ok by (auto simp: raise_ok_def base_ok_def phis_ok_def distinct_map inj_on_def)
  ultimately have d: "distinct ns" by (simp add: ns(2) distinct_map)
  have off: "ti_raiseOvflwOffset (cx_target t) = ti_raiseOvflwOffset (cx_target z)"
    using w(4) by (simp add: endures_def)
  have "raises ns (ti_raiseOvflwOffset (cx_target t)) (bb_insts (ir_blocks z ob))"
    using w(4) ns(1,3) by (simp add: endures_def)
  moreover have "edges_give z b \<sigma> (map (\<lambda>k. VInst k PtrTy) ns) (reg_vals z G)"
    using at(5) by (simp add: ns(2) edges_give_def edge_view)
  ultimately obtain cf1 cf2 where e: "enter z b ob \<sigma> = Some cf1" "flow z cf1 cf2" "raised z G M cf2"
    using raises_enter [OF _ d _ off] at(1) by blast
  have "mstep z cf = Some cf1" using e(1) at(3) by (simp add: cf at(2))
  with e(2,3) show ?thesis by (blast intro: flow_step)
qed

section \<open>The unit\<close>

definition unit_clusters :: "comp_unit \<Rightarrow> cluster list" where
  "unit_clusters cu = entry cu # fns cu"

text \<open>The clusters are proper, and no two have the same label.\<close>

definition unit_ok :: "comp_unit \<Rightarrow> bool" where
  "unit_ok cu \<longleftrightarrow>
     (\<forall>c\<in>set (unit_clusters cu). proper c) \<and>
     distinct (map (\<lambda>c. map_option f_lab (cluster_entry c)) (unit_clusters cu))"

text \<open>A state between modules, for a 64-bit target.\<close>

definition fresh_for :: "target_info \<Rightarrow> cgctx \<Rightarrow> bool" where
  "fresh_for ti s \<longleftrightarrow> idle ti s \<and> (\<forall>b<ir_nblocks s. bb_fn (ir_blocks s b) < length (ir_fns s))"

lemma unit_entries:
  assumes "unit_ok cu"
  obtains ens where "map cluster_entry (unit_clusters cu) = map Some ens" "distinct (map f_lab ens)"
proof -
  have "\<exists>en. cluster_entry c = Some en" if "c \<in> set (unit_clusters cu)" for c
    using assms that by (auto simp: unit_ok_def proper_def cluster_entry_def split: list.splits)
  then have ens: "map cluster_entry (unit_clusters cu) = map Some (map (the \<circ> cluster_entry) (unit_clusters cu))"
    by fastforce
  have "map (\<lambda>c. map_option f_lab (cluster_entry c)) (unit_clusters cu) =
      map (map_option f_lab) (map cluster_entry (unit_clusters cu))" by simp
  also have "\<dots> = map Some (map f_lab (map (the \<circ> cluster_entry) (unit_clusters cu)))"
    unfolding ens by simp
  finally have "distinct (map Some (map f_lab (map (the \<circ> cluster_entry) (unit_clusters cu))))"
    using assms unfolding unit_ok_def by metis
  then have "distinct (map f_lab (map (the \<circ> cluster_entry) (unit_clusters cu)))"
    unfolding distinct_map [of Some] by blast
  with ens show ?thesis by (rule that)
qed

lemma declares_idle:
  assumes "declares s t" "idle ti s" "caches_ok s" "sp_ok s"
  shows "idle ti t" "caches_ok t" "sp_ok t" "ir_nblocks t = ir_nblocks s" "ir_blocks t = ir_blocks s"
    "\<not> usesBasePtr (cx_regInfo t)" "cx_intTy t = i64Ty"
proof -
  obtain gs cl m where t: "t = s\<lparr>cx_curCluster := cl, ir_fns := ir_fns s @ gs, cx_clusterMap := m\<rparr>"
    using assms(1) by (rule declaresE)
  show "idle ti t" using assms(2) by (simp add: idle_def numbers_ok_def t)
  show "caches_ok t" using assms(3) by (simp add: caches_ok_def t)
  show "sp_ok t" using assms(4) by (simp add: sp_ok_def t)
  show "ir_nblocks t = ir_nblocks s" "ir_blocks t = ir_blocks s" "\<not> usesBasePtr (cx_regInfo t)"
    "cx_intTy t = i64Ty"
    using assms(2) by (simp_all add: t idle_def)
qed

text \<open>Initialisation registers the clusters in order.\<close>

lemma unit_declared:
  assumes "comp_unit_codegen cu s = Inr ((), z)" "unit_ok cu" "fresh_for ti s"
  obtains cs' t where "cforeach cs' cluster_codegen t = Inr ((), z)"
    "list_all2 (registered t) (unit_clusters cu) cs'" "idle ti t" "caches_ok t" "sp_ok t"
    "distinct (map c_fn cs')" "\<forall>b<ir_nblocks t. Some (bb_fn (ir_blocks t b)) \<notin> c_fn ` set cs'"
proof -
  obtain ens where ens: "map cluster_entry (unit_clusters cu) = map Some ens" "distinct (map f_lab ens)"
    by (rule unit_entries [OF assms(2)])
  then obtain en rest where en: "ens = en # rest" "cluster_entry (entry cu) = Some en"
    "map cluster_entry (fns cu) = map Some rest"
    by (cases ens) (auto simp: unit_clusters_def)
  define s1 where "s1 = s\<lparr>ir_module := Some (ir_nmodules s), ir_nmodules := ir_nmodules s + 1,
      cx_moduleName := srcFile cu, cx_clusterMap := (\<lambda>_. None), cx_intr := (\<lambda>_. None),
      cx_readReg := None, cx_spRegMD := None\<rparr>"
  from assms(1) obtain c1 t1 cs t where init: "cluster_init (entry cu) True s1 = Inr (c1, t1)"
    "cmap (\<lambda>c. cluster_init c False) (fns cu) t1 = Inr (cs, t)"
    and gen: "cforeach (c1 # cs) cluster_codegen t = Inr ((), z)"
    unfolding comp_unit_codegen_def
    by (auto elim!: cthen_InrE cbind_InrE simp: beginModule_eq s1_def completeModule_def creturn_def)
      (simp add: cthen_def cbind_def)
  have "idle ti s" using assms(3) by (simp add: fresh_for_def)
  then have s1: "idle ti s1" "caches_ok s1" "sp_ok s1" "cx_intTy s1 = i64Ty" "cx_clusterMap s1 = (\<lambda>_. None)"
    by (simp_all add: s1_def idle_def caches_ok_def sp_ok_def numbers_ok_def isIntegerTy_def)
  have 1: "registered t1 (entry cu) c1" "declares s1 t1" "c_fn c1 = Some (length (ir_fns s1))"
    "length (ir_fns t1) = Suc (length (ir_fns s1))" "dom (cx_clusterMap t1) = {f_lab en}"
    using cluster_init_run [OF init(1) s1(4) en(2)] by (simp_all add: s1(5))
  note t1 = declares_idle [OF 1(2) s1(1-3)]
  have 2: "list_all2 (registered t) (fns cu) cs" "declares t1 t"
    "map c_fn cs = map Some [length (ir_fns t1)..<length (ir_fns t)]"
    using cluster_inits_run [OF init(2) t1(7) en(3)] ens(2) 1(5) by (auto simp: en(1))
  note t = declares_idle [OF 2(2) t1(1-3)]
  have reg: "list_all2 (registered t) (unit_clusters cu) (c1 # cs)"
    using 2(1) registered_declares [OF 1(1) 2(2)] by (simp add: unit_clusters_def)
  have fns: "map c_fn (c1 # cs) = map Some (length (ir_fns s1) # [Suc (length (ir_fns s1))..<length (ir_fns t)])"
    using 1(3) 2(3) by (simp add: 1(4))
  have d: "distinct (map c_fn (c1 # cs))" unfolding fns by (auto simp: distinct_map)
  have old: "Some (bb_fn (ir_blocks t b)) \<notin> c_fn ` set (c1 # cs)" if "b < ir_nblocks t" for b
  proof -
    have "bb_fn (ir_blocks t b) < length (ir_fns s1)"
      using that assms(3) by (simp add: t t1 s1_def fresh_for_def)
    moreover have "c_fn ` set (c1 # cs) = Some ` set (length (ir_fns s1) # [Suc (length (ir_fns s1))..<length (ir_fns t)])"
      using arg_cong [OF fns, of set] unfolding set_map .
    ultimately show ?thesis by auto
  qed
  show ?thesis by (rule that [OF gen reg t(1-3) d]) (use old in blast)
qed

lemma unit_compiled:
  assumes "comp_unit_codegen cu s = Inr ((), z)" "unit_ok cu" "fresh_for ti s"
  shows "compiled ti (unit_clusters cu) z"
proof -
  obtain cs' t where d: "cforeach cs' cluster_codegen t = Inr ((), z)"
    "list_all2 (registered t) (unit_clusters cu) cs'" "idle ti t" "caches_ok t" "sp_ok t"
    "distinct (map c_fn cs')" "\<forall>b<ir_nblocks t. Some (bb_fn (ir_blocks t b)) \<notin> c_fn ` set cs'"
    by (rule unit_declared [OF assms])
  have p: "\<forall>c\<in>set (unit_clusters cu). proper c" using assms(2) by (simp add: unit_ok_def)
  have r: "\<forall>c\<in>set (unit_clusters cu). \<exists>c'. registered t c c'"
    using d(2) by (metis list_all2_conv_all_nth in_set_conv_nth)
  note g = clusters_generated [OF d(1,2) p d(3-5) r d(6,7)]
  have "list_all2 (registered z) (unit_clusters cu) cs'"
    using d(2) by (rule list_all2_mono) (use g registered_endures in blast)
  with g show ?thesis
    unfolding compiled_def by (intro conjI exI [of _ cs']) (simp_all add: list_all2_conv_all_nth)
qed

text \<open>The runs of a unit, from the cluster with the label \<open>lab\<close> to where it leaves the unit.\<close>

definition unit_goes ::
  "target_info \<Rightarrow> (u64 \<Rightarrow> lvar option) \<Rightarrow> cluster list \<Rightarrow> lvar \<Rightarrow> rval list \<Rightarrow> regs \<Rightarrow> mem \<Rightarrow> outcome \<Rightarrow> bool" where
  "unit_goes ti code cs lab vs G M oc \<longleftrightarrow>
     (\<forall>l ws H N. oc \<noteq> Jump l ws H N) \<and>
     (\<exists>c oc0. find_cluster cs lab = Some c \<and> cluster_goes (unit_sigs ti cs c) c vs G M oc0 \<and>
        calls ti code cs oc0 oc)"

definition entry_kind :: "cluster list \<Rightarrow> lvar \<Rightarrow> frag_kind option" where
  "entry_kind cs lab = Option.bind (find_cluster cs lab) (\<lambda>c. map_option f_kind (cluster_entry c))"

text \<open>The function for the label \<open>lab\<close> is entered with the registers, unused arguments and values.\<close>

definition call_label :: "cgctx \<Rightarrow> lvar \<Rightarrow> regs \<Rightarrow> rval option list \<Rightarrow> rval list \<Rightarrow> rstate \<Rightarrow> machine option" where
  "call_label z lab G us vs \<sigma> =
     Option.bind (Option.bind (cx_clusterMap z lab) c_fn)
       (\<lambda>f. enter_fn z f (map Some (reg_vals z G) @ us @ map Some vs) \<sigma>)"

text \<open>The machine at the call out of the module that an outcome stands for.\<close>

definition departs :: "cgctx \<Rightarrow> outcome \<Rightarrow> machine \<Rightarrow> bool" where
  "departs z oc cf \<longleftrightarrow>
     (case oc of
        Jump _ _ _ _ \<Rightarrow> False
      | Leave _ _ _ _ _ \<Rightarrow> arrives z oc cf
      | Overflow G M \<Rightarrow> raised z G M cf)"

lemma within_departs:
  assumes z: "compiled ti cs z" and within: "within ti cs z oc cf" and oc: "\<forall>l ws H N. oc \<noteq> Jump l ws H N"
  shows "\<exists>cf'. flow z cf cf' \<and> departs z oc cf'"
proof (cases oc)
  case (Leave k d vs G M)
  have "arrives z oc cf" using within unfolding within_def Leave arrives_leave_view by blast
  then have "departs z oc cf" by (simp add: departs_def Leave del: arrives.simps)
  then show ?thesis by (blast intro: flow_refl)
next
  case (Overflow G M)
  then show ?thesis using overflow_raised [OF z] within by (auto simp: departs_def)
qed (use oc in simp)

theorem unit_follows:
  assumes z: "compiled ti cs z" and goes: "unit_goes ti code cs lab vs G (rv_mem \<sigma>) oc"
    and k: "entry_kind cs lab = Some k" "length us = n_unused k"
  shows "\<exists>cf cf'. call_label z lab G us vs \<sigma> = Some cf \<and> pflow (fn_at code z) z cf cf' \<and> departs z oc cf'"
proof -
  obtain c oc0 where c: "find_cluster cs lab = Some c" "cluster_goes (unit_sigs ti cs c) c vs G (rv_mem \<sigma>) oc0"
    "calls ti code cs oc0 oc" and oc: "\<forall>l ws H N. oc \<noteq> Jump l ws H N"
    using goes by (auto simp: unit_goes_def)
  obtain en c' f where c': "cluster_entry c = Some en" "f_lab en = lab" "cx_clusterMap z lab = Some c'"
    "c_fn c' = Some f" "c' = c\<lparr>c_fn := Some f\<rparr>" "generated ti cs z c c'"
    by (rule compiled_cluster [OF z c(1)])
  have "length us = n_unused (f_kind en)" using k c(1) c'(1) by (simp add: entry_kind_def)
  from function_goes [OF z c'(6,5,1) this c(2)] obtain cf cf0 where
    1: "enter_fn z f (map Some (reg_vals z G) @ us @ map Some vs) \<sigma> = Some cf" "flow z cf cf0"
      "within ti cs z oc0 cf0" by blast
  obtain cf1 where 2: "pflow (fn_at code z) z cf0 cf1" "within ti cs z oc cf1"
    using calls_follow [OF c(3) z 1(3)] by blast
  obtain cf' where 3: "flow z cf1 cf'" "departs z oc cf'" using within_departs [OF z 2(2) oc] by blast
  have "pflow (fn_at code z) z cf cf'"
    using 1(2) 2(1) 3(1) by (blast intro: pflow_trans flow_pflow)
  moreover have "call_label z lab G us vs \<sigma> = Some cf" using 1(1) c'(3,4) by (simp add: call_label_def)
  ultimately show ?thesis using 3(2) by blast
qed

end
