(* ===== verification/Unit_Properties.thy ===== *)
theory Unit_Properties
  imports Unit_Simulation Simulation_Properties
begin

text \<open>
  The property of the code generator as a whole: the module for a compilation unit does what the
  clusters of the unit do, calls between them included.
\<close>

text \<open>C2: The compiled module does what the compilation unit does.  Let code generation for the unit
  \<open>cu\<close>, whose clusters are proper, succeed with the module \<open>z\<close>, and let a run of the unit start at the
  cluster with the label \<open>lab\<close> and the values \<open>vs\<close>, go through any number of jumps between fragments and
  calls of clusters of the unit, by label or by address, and end with the outcome \<open>oc\<close>.  Then the
  machine that enters the function for \<open>lab\<close> with these values, whatever the unused arguments are,
  gets through all of this to the call out of the module that the outcome is: the call of its
  callee, with its arguments, registers and memory, or for an overflow the call of the handler whose
  address is on the stack.\<close>

theorem unit_simulated:
  assumes "comp_unit_codegen cu s = Inr ((), z)" "unit_ok cu" "fresh_for ti s"
    "unit_goes ti code (unit_clusters cu) lab vs G (rv_mem \<sigma>) oc"
    "entry_kind (unit_clusters cu) lab = Some k" "length us = n_unused k"
  shows "\<exists>cf cf'. call_label z lab G us vs \<sigma> = Some cf \<and> pflow (fn_at code z) z cf cf' \<and> departs z oc cf'"
  by (rule unit_follows [OF unit_compiled [OF assms(1-3)] assms(4-6)])

text \<open>A unit of two clusters: the first calls the second by its label, which doubles a number with an
  overflow check and throws.\<close>

definition pair_cluster :: "lvar \<Rightarrow> stm \<Rightarrow> cluster" where
  "pair_cluster lab k =
     \<lparr>c_attrs = \<lparr>alignHP = 0, needsBasePtr = False, hasTrapArith = True, hasRCC = False\<rparr>,
      c_frags = [\<lparr>f_kind = STD_CONT, f_lab = lab, f_params = [sample_param 1 PTRt, sample_param 2 (NUMt 64)],
        f_body = k, f_phiNodes = []\<rparr>],
      c_fn = None\<rparr>"

definition pair_unit :: comp_unit where
  "pair_unit =
     \<lparr>srcFile = [], entry = pair_cluster 7 (THROW None (LABEL 9) [VAR 1, VAR 2] [PTRt, NUMt 64]),
      fns = [pair_cluster 9 twice_stm]\<rparr>"

text \<open>The unit is compiled, whatever the types of the functions of the runtime system are.\<close>

lemma pair_compiles:
  "case comp_unit_codegen pair_unit (sample_ctx\<lparr>cx_gcFnTy := g, cx_raiseOverflowFnTy := r\<rparr>) of
     Inl _ \<Rightarrow> False | Inr _ \<Rightarrow> True"
  by (simp add: run_defs sample_defs pair_unit_def pair_cluster_def twice_stm_def lookupCluster_def
      cluster_fn_def)

lemma pair_run: "case comp_unit_codegen pair_unit sample_ctx of Inl _ \<Rightarrow> False | Inr _ \<Rightarrow> True"
  using pair_compiles [where g = "cx_gcFnTy sample_ctx" and r = "cx_raiseOverflowFnTy sample_ctx"] by simp

lemma pair_ok: "unit_ok pair_unit"
  by (simp add: unit_ok_def unit_clusters_def pair_unit_def pair_cluster_def cluster_entry_def proper_def
      twice_stm_def sample_param_def)

lemma pair_fresh: "fresh_for (X86_64Info sample_build) sample_ctx"
proof -
  have "cx_regInfo sample_ctx = CMRegs_new (Some (X86_64Info sample_build))"
    "cx_target sample_ctx = X86_64Info sample_build" "numbers_ok sample_ctx" "\<And>n. ir_phis sample_ctx n = []"
    "cx_intTy sample_ctx = i64Ty" "cx_wordSzB sample_ctx = 8" "fold_sound (ir_fold sample_ctx)"
    "ir_nblocks sample_ctx = 0"
    by (simp_all add: sample_ctx_def Context_init_def numbers_ok_def X86_64Info_def empty_block_def)
  then show ?thesis by (simp add: fresh_for_def idle_def x86_no_base x86_hw)
qed

lemma pair_find:
  "find_cluster (unit_clusters pair_unit) 7 =
     Some (pair_cluster 7 (THROW None (LABEL 9) [VAR 1, VAR 2] [PTRt, NUMt 64]))"
  "find_cluster (unit_clusters pair_unit) 9 = Some (pair_cluster 9 twice_stm)"
  by (simp_all add: find_cluster_def unit_clusters_def pair_unit_def pair_cluster_def cluster_entry_def)

lemma pair_goes:
  assumes "stm_eval (unit_sigs ti (unit_clusters pair_unit) (pair_cluster 9 twice_stm))
    [1 \<mapsto> RP p, 2 \<mapsto> RI 64 x] G M twice_stm = Some oc" "\<forall>l ws H N. oc \<noteq> Jump l ws H N"
  shows "unit_goes ti code (unit_clusters pair_unit) 7 [RP p, RI 64 x] G M oc"
proof -
  let ?cs = "unit_clusters pair_unit" and ?vs = "[RP p, RI 64 x]"
  let ?call = "THROW None (LABEL 9) [VAR 1, VAR 2] [PTRt, NUMt 64]"
  have 1: "frag_env [\<lparr>p_name = 1, p_ty = PTRt\<rparr>, \<lparr>p_name = 2, p_ty = NUMt 64\<rparr>] ?vs =
      [1 \<mapsto> RP p, 2 \<mapsto> RI 64 x]"
    by (auto simp: frag_env_def)
  have "cluster_goes (unit_sigs ti ?cs (pair_cluster 7 ?call)) (pair_cluster 7 ?call) ?vs G M
      (Leave STD_CONT (Entry 9) ?vs G M)"
    by (auto simp: cluster_goes_def pair_cluster_def frag_eval_def 1 param_types_def sample_param_def
        work_eval_defs unit_sigs_def pair_find(2) leave_def dest_eval_def pass_def as_ty_def cluster_entry_def
        intro!: jumps_refl)
  moreover have "cluster_goes (unit_sigs ti ?cs (pair_cluster 9 twice_stm)) (pair_cluster 9 twice_stm) ?vs G M oc"
    using assms(1)
    by (auto simp: cluster_goes_def pair_cluster_def frag_eval_def 1 param_types_def sample_param_def
        work_eval_defs intro!: jumps_refl)
  moreover have "callee code ?cs STD_CONT (Entry 9) = Some (pair_cluster 9 twice_stm)"
    by (simp add: callee_def dest_label_def pair_find(2)) (simp add: pair_cluster_def cluster_entry_def)
  ultimately show ?thesis
    using assms(2) pair_find(1) unfolding unit_goes_def by (blast intro: calls_step calls_refl)
qed

lemma unit_simulated_witness:
  "\<exists>z. comp_unit_codegen pair_unit sample_ctx = Inr ((), z) \<and>
     (\<exists>cf cf'. call_label z 7 work_Regs [None, None] [RP 24576, RI 64 5] work_state = Some cf \<and>
        pflow (fn_at (\<lambda>_. None) z) z cf cf' \<and>
        departs z (Leave STD_CONT (Address 24576) [RP 24576, RI 64 10] work_Regs (rv_mem work_state)) cf') \<and>
     (\<exists>cf cf'. call_label z 7 work_Regs [None, None] [RP 24576, RI 64 9223372036854775807] work_state = Some cf \<and>
        pflow (fn_at (\<lambda>_. None) z) z cf cf' \<and> departs z (Overflow work_Regs (rv_mem work_state)) cf')"
proof -
  let ?ti = "X86_64Info sample_build" and ?cs = "unit_clusters pair_unit"
  obtain z where z: "comp_unit_codegen pair_unit sample_ctx = Inr ((), z)"
    using pair_run by (auto split: sum.splits)
  have k: "entry_kind ?cs 7 = Some STD_CONT"
    by (simp add: entry_kind_def pair_find(1)) (simp add: pair_cluster_def cluster_entry_def)
  have goes: "unit_goes ?ti (\<lambda>_. None) ?cs 7 [RP 24576, RI 64 5] work_Regs (rv_mem work_state)
      (Leave STD_CONT (Address 24576) [RP 24576, RI 64 10] work_Regs (rv_mem work_state))"
    "unit_goes ?ti (\<lambda>_. None) ?cs 7 [RP 24576, RI 64 9223372036854775807] work_Regs (rv_mem work_state)
      (Overflow work_Regs (rv_mem work_state))"
    by (intro pair_goes; simp add: twice_stm_def sample_param_def arith_result_def leave_def dest_eval_def
        pass_def as_ty_def work_eval_defs)+
  have "length [None, None :: rval option] = n_unused STD_CONT" by (simp add: n_unused_def)
  from unit_simulated [OF z pair_ok pair_fresh goes(1) k this] unit_simulated [OF z pair_ok pair_fresh goes(2) k this] z
  show ?thesis by blast
qed

end
