(* ===== verification/Process.thy ===== *)
theory Process
  imports Prelude
begin

text \<open>
  What the command-line tools share: a process that reads and writes files, prints, and may end
  early, by \<open>exit\<close> or by an abort.  What it has printed and written by then stays.
\<close>

section \<open>The world of a process\<close>

text \<open>What goes to a stream: text, bytes that a library writes, and a time in units of 100
  nanoseconds, which is printed in milliseconds.\<close>

datatype chunk = Text string | Bytes "u8 list" | Time u64

record world =
  w_files :: "string \<Rightarrow> u8 list option"
  w_writable :: "string \<Rightarrow> bool"
  w_stdout :: "chunk list"
  w_stderr :: "chunk list"
  w_clock :: "nat \<Rightarrow> int \<times> int"  \<comment> \<open>the readings of the clock, in seconds and nanoseconds\<close>
  w_now :: nat

datatype finish = Exit int | Abort string

section \<open>Programs\<close>

type_synonym ('s, 'a) prog = "'s \<Rightarrow> (finish + 'a) \<times> 's"

definition preturn :: "'a \<Rightarrow> ('s, 'a) prog" where
  "preturn x = (\<lambda>s. (Inr x, s))"

definition pbind :: "('s, 'a) prog \<Rightarrow> ('a \<Rightarrow> ('s, 'b) prog) \<Rightarrow> ('s, 'b) prog" where
  "pbind m k = (\<lambda>s. case m s of (Inl e, t) \<Rightarrow> (Inl e, t) | (Inr x, t) \<Rightarrow> k x t)"

definition pthen :: "('s, 'a) prog \<Rightarrow> ('s, 'b) prog \<Rightarrow> ('s, 'b) prog" where
  "pthen m k = pbind m (\<lambda>_. k)"

definition pget :: "('s \<Rightarrow> 'a) \<Rightarrow> ('s, 'a) prog" where
  "pget f = (\<lambda>s. (Inr (f s), s))"

definition pmodify :: "('s \<Rightarrow> 's) \<Rightarrow> ('s, unit) prog" where
  "pmodify f = (\<lambda>s. (Inr (), f s))"

definition pexit :: "int \<Rightarrow> ('s, 'a) prog" where
  "pexit n = (\<lambda>s. (Inl (Exit n), s))"

definition pabort :: "string \<Rightarrow> ('s, 'a) prog" where
  "pabort msg = (\<lambda>s. (Inl (Abort msg), s))"

primrec pforeach :: "'a list \<Rightarrow> ('a \<Rightarrow> ('s, unit) prog) \<Rightarrow> ('s, unit) prog" where
  "pforeach [] f = preturn ()"
| "pforeach (x # xs) f = pthen (f x) (pforeach xs f)"

lemmas prog_defs =
  preturn_def pbind_def pthen_def pget_def pmodify_def pexit_def pabort_def

section \<open>Status\<close>

text \<open>The exit status; \<open>None\<close> when the process is aborted.\<close>

definition exit_status :: "(finish + int) \<times> 's \<Rightarrow> int option" where
  "exit_status r = (case fst r of Inl (Exit n) \<Rightarrow> Some n | Inl (Abort _) \<Rightarrow> None | Inr n \<Rightarrow> Some n)"

section \<open>Streams and files\<close>

definition say :: "string \<Rightarrow> ('x world_scheme, unit) prog" where
  "say msg = pmodify (\<lambda>w. w\<lparr>w_stdout := w_stdout w @ [Text msg]\<rparr>)"

definition complain :: "string \<Rightarrow> ('x world_scheme, unit) prog" where
  "complain msg = pmodify (\<lambda>w. w\<lparr>w_stderr := w_stderr w @ [Text msg]\<rparr>)"

text \<open>Opening a file for output succeeds when it can be written to, and empties it.  The name \<open>-\<close> stands
  for the standard output.\<close>

definition open_output :: "string \<Rightarrow> ('x world_scheme, bool) prog" where
  "open_output f =
     (if f = ''-'' then preturn True
      else pbind (pget w_writable) (\<lambda>ok.
        if ok f then pthen (pmodify (\<lambda>w. w\<lparr>w_files := (w_files w)(f \<mapsto> [])\<rparr>)) (preturn True)
        else preturn False))"

definition write_output :: "string \<Rightarrow> u8 list \<Rightarrow> ('x world_scheme, unit) prog" where
  "write_output f bs =
     (if f = ''-'' then pmodify (\<lambda>w. w\<lparr>w_stdout := w_stdout w @ [Bytes bs]\<rparr>)
      else pmodify (\<lambda>w. w\<lparr>w_files := (w_files w)(f \<mapsto> (case w_files w f of None \<Rightarrow> [] | Some old \<Rightarrow> old) @ bs)\<rparr>))"

section \<open>Strings\<close>

text \<open>\<open>std::string::npos\<close>, and the positions of the last occurrence of a string and of a character.\<close>

definition npos :: u64 where
  "npos = - 1"

definition string_rfind :: "string \<Rightarrow> string \<Rightarrow> u64" where
  "string_rfind s pat =
     (case find (\<lambda>i. take (length pat) (drop i s) = pat) (rev [0..<length s + 1]) of
        Some i \<Rightarrow> of_nat i
      | None \<Rightarrow> npos)"

definition find_last_of :: "string \<Rightarrow> char \<Rightarrow> u64" where
  "find_last_of s c =
     (case find (\<lambda>i. s ! i = c) (rev [0..<length s]) of Some i \<Rightarrow> of_nat i | None \<Rightarrow> npos)"

text \<open>\<open>substr(0, n)\<close>.\<close>

definition substr0 :: "string \<Rightarrow> u64 \<Rightarrow> string" where
  "substr0 s n = take (unat n) s"

definition quoted :: "string \<Rightarrow> string" where
  "quoted s = CHR 0x27 # s @ [CHR 0x27]"

definition newline :: string where
  "newline = [CHR 0x0A]"

end
