(* ===== verification/Driver.thy ===== *)
theory Driver
  imports Process Cfg_Read Context_Code Codegen Object_Load
begin

text \<open>
  The tool \<open>cfgc\<close> (\<open>cfgc/main.cpp\<close>), with the methods of \<open>Context\<close> and \<open>MCGen\<close> that it calls to
  verify, optimise and output the module.  The parts of LLVM behind them are a parameter, the
  record \<open>llvm\<close>.
\<close>

section \<open>LLVM\<close>

datatype file_type = AssemblyFile | ObjectFile

text \<open>The report of the verifier on a broken module, the passes, the printer, whether there are passes
  for a type of file and what they emit, the writing of the object file to a stream, if there are
  passes for it, and the loader.\<close>

record llvm =
  ll_verify :: "cgctx \<Rightarrow> string option"
  ll_optimize :: "cgctx \<Rightarrow> cgctx"
  ll_print :: "cgctx \<Rightarrow> u8 list"
  ll_emits :: "file_type \<Rightarrow> bool"
  ll_emit :: "file_type \<Rightarrow> cgctx \<Rightarrow> u8 list"
  ll_emitMC :: "cgctx \<Rightarrow> stream_call list option"
  ll_dyld :: runtime_dyld

text \<open>The process, with the variable \<open>gContext\<close>.\<close>

record cfgc = world +
  gContext :: "cgctx option"

type_synonym 'a run = "(cfgc, 'a) prog"

section \<open>Command line\<close>

datatype Output = PrintAsm | AsmFile | ObjFile | Memory | LLVMAsmFile

record cfgc_options =
  opt_out :: Output
  opt_emitLLVM :: bool
  opt_dumpBits :: bool
  opt_src :: string
  opt_targetArch :: string

definition kHostArch :: "build_config \<Rightarrow> string" where
  "kHostArch b = (case cfg_arch b of HOST_AMD64 \<Rightarrow> ''x86_64'' | HOST_ARM64 \<Rightarrow> ''aarch64'')"

definition default_options :: "build_config \<Rightarrow> cfgc_options" where
  "default_options b =
     \<lparr>opt_out = PrintAsm, opt_emitLLVM = False, opt_dumpBits = False, opt_src = [],
      opt_targetArch = kHostArch b\<rparr>"

text \<open>The loop over the arguments; \<open>None\<close> stands for a call of \<open>usage\<close>.  The first character of an empty
  argument is the null at its end.\<close>

definition is_switch :: "string \<Rightarrow> bool" where
  "is_switch a \<longleftrightarrow> (case a of [] \<Rightarrow> False | c # _ \<Rightarrow> c = CHR ''-'')"

fun parse_args :: "string list \<Rightarrow> cfgc_options \<Rightarrow> cfgc_options option" where
  "parse_args [] opts = Some opts"
| "parse_args (a # args) opts =
     (if is_switch a then
        if a = ''-o'' then parse_args args (opts\<lparr>opt_out := ObjFile\<rparr>)
        else if a = ''-L'' then parse_args args (opts\<lparr>opt_out := LLVMAsmFile\<rparr>)
        else if a = ''-S'' then parse_args args (opts\<lparr>opt_out := AsmFile\<rparr>)
        else if a = ''-c'' then parse_args args (opts\<lparr>opt_out := Memory\<rparr>)
        else if a = ''-emit-llvm'' then parse_args args (opts\<lparr>opt_emitLLVM := True\<rparr>)
        else if a = ''-bits'' then parse_args args (opts\<lparr>opt_dumpBits := True, opt_out := Memory\<rparr>)
        else if a = ''-target'' then
          (case args of [] \<Rightarrow> None | t # args' \<Rightarrow> parse_args args' (opts\<lparr>opt_targetArch := t\<rparr>))
        else None
      else if args \<noteq> [] then None
      else Some (opts\<lparr>opt_src := a\<rparr>))"

definition command_line :: "build_config \<Rightarrow> string list \<Rightarrow> cfgc_options option" where
  "command_line b args =
     (if args = [] then None
      else case parse_args args (default_options b) of
             None \<Rightarrow> None
           | Some opts \<Rightarrow> if opt_src opts = [] then None else Some opts)"

definition usage_text :: "build_config \<Rightarrow> string" where
  "usage_text b =
     ''usage: cfgc [ -o | -S | -c ] [ --emit-llvm ] [ --bits ] [ --target <target> ] <pkl-file>'' @ [CHR 0x0A] @
     ''options:'' @ [CHR 0x0A] @
     ''    -o                -- generate an object file'' @ [CHR 0x0A] @
     ''    -S                -- emit target assembly code to a file'' @ [CHR 0x0A] @
     ''    -c                -- use JIT compiler and loader to produce code object'' @ [CHR 0x0A] @
     ''    -emit-llvm        -- emit generated LLVM assembly to standard output'' @ [CHR 0x0A] @
     ''    -bits             -- output the code-object bits (implies \"-c\" flag)'' @ [CHR 0x0A] @
     ''    -target <target>  -- specify the target architecture (default '' @ kHostArch b @ '')'' @ [CHR 0x0A]"

definition usage :: "build_config \<Rightarrow> 'a run" where
  "usage b = pthen (complain (usage_text b)) (pexit 1)"

section \<open>Code generation\<close>

definition setTarget :: "build_config \<Rightarrow> (instr \<Rightarrow> value option) \<Rightarrow> string \<Rightarrow> bool run" where
  "setTarget b folder target =
     pbind (pget gContext) (\<lambda>c.
       if (case c of Some s \<Rightarrow> target = ti_name (cx_target s) | None \<Rightarrow> False) then preturn False
       else
         (case create b folder target of
            Inl e \<Rightarrow> pabort ''create''
          | Inr c \<Rightarrow> pthen (pmodify (\<lambda>w. w\<lparr>gContext := c\<rparr>)) (preturn (c = None))))"

text \<open>The timer counts in units of 100 nanoseconds.\<close>

definition cvtTimeSpec :: "int \<times> int \<Rightarrow> u64" where
  "cvtTimeSpec ts = 10000000 * word_of_int (fst ts) + word_of_int (snd ts) div 100"

definition clock_gettime :: "(int \<times> int) run" where
  "clock_gettime =
     pbind (pget (\<lambda>w. w_clock w (w_now w))) (\<lambda>ts.
     pthen (pmodify (\<lambda>w. w\<lparr>w_now := w_now w + 1\<rparr>)) (preturn ts))"

definition Timer_start :: "u64 run" where
  "Timer_start = pbind clock_gettime (\<lambda>ts. preturn (cvtTimeSpec ts))"

definition say_msec :: "u64 \<Rightarrow> unit run" where
  "say_msec start =
     pbind clock_gettime (\<lambda>ts.
       pmodify (\<lambda>w. w\<lparr>w_stdout := w_stdout w @
         [Text '' '', Time (cvtTimeSpec ts - start), Text (''ms'' @ [CHR 0x0A])]\<rparr>))"

text \<open>The reader of pickles reports an error on the standard error stream and ends the program.\<close>

definition asdl_exit :: "asdl_error \<Rightarrow> 'a run" where
  "asdl_exit e =
     (case e of
        InvalidTag tag ty nm \<Rightarrow>
          pthen (complain (''[asdl] invalid tag '' @ quoted (dec_digits (unat tag)) @ '' for '' @ quoted ty @
            '' in '' @ quoted nm @ newline)) (pexit 1)
      | UnexpectedEOF nm \<Rightarrow>
          pthen (complain (''[asdl] unexpected end of file reading from '' @ quoted nm @ newline)) (pexit 1)
      | ReadError nm \<Rightarrow> pthen (complain (''[asdl] error reading from '' @ quoted nm @ newline)) (pexit 1)
      | AssertFailure \<Rightarrow> pabort ''assertion failed''
      | SignedOverflow \<Rightarrow> pabort ''signed overflow''
      | OutOfFuel \<Rightarrow> pabort ''out of stack'')"

definition read_unit :: "string \<Rightarrow> comp_unit run" where
  "read_unit src =
     pbind (pget w_files) (\<lambda>files.
       (case read_comp_unit (file_instream src (files src)) of
          Inl e \<Rightarrow> asdl_exit e
        | Inr (cu, _) \<Rightarrow> preturn cu))"

text \<open>A method of \<open>Context\<close>, on the object of the process; its errors abort.\<close>

definition on_context :: "'a cx \<Rightarrow> 'a run" where
  "on_context m =
     pbind (pget gContext) (\<lambda>c.
       (case c of
          None \<Rightarrow> pabort ''null pointer''
        | Some s \<Rightarrow>
            (case m s of
               Inl (AssertFailed msg) \<Rightarrow> pabort msg
             | Inl _ \<Rightarrow> pabort ''undefined behaviour''
             | Inr (x, t) \<Rightarrow> pthen (pmodify (\<lambda>w. w\<lparr>gContext := Some t\<rparr>)) (preturn x))))"

section \<open>Output\<close>

text \<open>\<open>Context::dump\<close> prints to the standard error stream; \<open>Context::verify\<close> is true when the module is
  broken, and reports why.\<close>

definition dump :: "llvm \<Rightarrow> unit run" where
  "dump ll =
     pbind (on_context (cget (\<lambda>s. s))) (\<lambda>s.
       pmodify (\<lambda>w. w\<lparr>w_stderr := w_stderr w @ [Bytes (ll_print ll s)]\<rparr>))"

definition verify :: "llvm \<Rightarrow> bool run" where
  "verify ll =
     pbind (on_context (cget (\<lambda>s. s))) (\<lambda>s.
       (case ll_verify ll s of
          None \<Rightarrow> preturn False
        | Some report \<Rightarrow> pthen (complain report) (preturn True)))"

definition optimize :: "llvm \<Rightarrow> unit run" where
  "optimize ll = on_context (cmodify (ll_optimize ll))"

definition emitFile :: "llvm \<Rightarrow> string \<Rightarrow> file_type \<Rightarrow> unit run" where
  "emitFile ll outFile ft =
     pbind (open_output outFile) (\<lambda>ok.
       if \<not> ok then complain (''unable to open output file '' @ quoted outFile @ newline)
       else if \<not> ll_emits ll ft then complain (''unable to add pass to generate '' @ quoted outFile @ newline)
       else pbind (on_context (cget (\<lambda>s. s))) (\<lambda>s. write_output outFile (ll_emit ll ft s)))"

definition dumpAsm :: "llvm \<Rightarrow> unit run" where
  "dumpAsm ll = emitFile ll ''-'' AssemblyFile"

definition dumpAsm_stem :: "llvm \<Rightarrow> string \<Rightarrow> unit run" where
  "dumpAsm_stem ll stem = emitFile ll (stem @ ''.s'') AssemblyFile"

definition dumpObj :: "llvm \<Rightarrow> string \<Rightarrow> unit run" where
  "dumpObj ll stem = emitFile ll (stem @ ''.o'') ObjectFile"

text \<open>The error code is not looked at; the stream of a file that could not be opened fails its
  assertion on the first write.\<close>

definition dumpLL :: "llvm \<Rightarrow> string \<Rightarrow> unit run" where
  "dumpLL ll stem =
     pbind (open_output (stem @ ''.ll'')) (\<lambda>ok.
     pbind (on_context (cget (\<lambda>s. s))) (\<lambda>s.
       if ok then write_output (stem @ ''.ll'') (ll_print ll s) else pabort ''File already closed.''))"

text \<open>The code in memory: \<open>MCGen::emitMC\<close> has the object file written to a stream and loaded.  LLVM's
  \<open>report_fatal_error\<close> ends the program by an abort when it is asked for a crash report.\<close>

definition report_fatal_error :: "string \<Rightarrow> bool \<Rightarrow> 'a run" where
  "report_fatal_error reason genCrashDiag =
     pthen (complain (''LLVM ERROR: '' @ reason @ newline)) (if genCrashDiag then pabort reason else pexit 1)"

definition compile :: "llvm \<Rightarrow> loading run" where
  "compile ll =
     pbind (on_context (cget (\<lambda>s. s))) (\<lambda>s.
       (case ll_emitMC ll s of
          None \<Rightarrow> report_fatal_error ''unable to add pass to generate code'' True
        | Some calls \<Rightarrow>
            (case stream_calls calls [] of
               Inl _ \<Rightarrow> pabort ''assertion failed''
             | Inr output \<Rightarrow>
                 (case ObjectFile_new (ll_dyld ll) output of
                    Inl (DyldFailed msg) \<Rightarrow> report_fatal_error (''RuntimeDyld failed: '' @ msg) False
                  | Inl _ \<Rightarrow> pabort ''assertion failed''
                  | Inr obj \<Rightarrow> preturn obj))))"

definition hex_digit :: "nat \<Rightarrow> char" where
  "hex_digit d = ''0123456789abcdef'' ! d"

fun hex_digits :: "nat \<Rightarrow> string" where
  "hex_digits n = (if n < 16 then [hex_digit n] else hex_digits (n div 16) @ [hex_digit (n mod 16)])"

definition format_hex_no_prefix :: "nat \<Rightarrow> nat \<Rightarrow> string" where
  "format_hex_no_prefix n width =
     (let ds = hex_digits n in replicate (width - length ds) CHR 0x30 @ ds)"

definition bits_row :: "u8 list \<Rightarrow> nat \<Rightarrow> string" where
  "bits_row bytes i =
     (let limit = min (i + 16) (length bytes)
      in ''  '' @ format_hex_no_prefix i 4 @ '': '' @
         concat (map (\<lambda>j. '' '' @ format_hex_no_prefix (unat (bytes ! j)) 2) [i..<limit]) @ newline)"

function bits_rows :: "u8 list \<Rightarrow> nat \<Rightarrow> string list" where
  "bits_rows bytes i = (if i < length bytes then bits_row bytes i # bits_rows bytes (i + 16) else [])"
  by auto
termination by (relation "measure (\<lambda>(bytes, i). length bytes - i)") auto

definition dump_bits :: "loading \<Rightarrow> unit run" where
  "dump_bits obj =
     pthen (complain (''##### OBJECT FILE BITS: '' @ dec_digits (unat (object_size obj)) @ '' bytes #####'' @ newline))
       (case object_bytes obj of
          Inl _ \<Rightarrow> pabort ''no memory allocated''
        | Inr bytes \<Rightarrow> pforeach (bits_rows bytes 0) complain)"

section \<open>The whole program\<close>

text \<open>The name of the pickle without its suffix; the sum wraps when there is no suffix.\<close>

definition stem_of :: "string \<Rightarrow> string" where
  "stem_of src =
     (let pos = string_rfind src ''.pkl''
      in if pos + 4 \<noteq> of_nat (length src) then ''out'' else substr0 src pos)"

definition output_code :: "llvm \<Rightarrow> bool \<Rightarrow> Output \<Rightarrow> string \<Rightarrow> unit run" where
  "output_code ll dumpBits out stem =
     (case out of
        PrintAsm \<Rightarrow> dumpAsm ll
      | AsmFile \<Rightarrow> dumpAsm_stem ll stem
      | ObjFile \<Rightarrow> dumpObj ll stem
      | Memory \<Rightarrow> pbind (compile ll) (\<lambda>obj. if dumpBits then dump_bits obj else preturn ())
      | LLVMAsmFile \<Rightarrow> dumpLL ll stem)"

definition verified :: "llvm \<Rightarrow> string \<Rightarrow> unit run" where
  "verified ll msg =
     pbind (verify ll) (\<lambda>broken. if \<not> broken then complain (msg @ newline) else preturn ())"

definition codegen :: "llvm \<Rightarrow> string \<Rightarrow> bool \<Rightarrow> bool \<Rightarrow> Output \<Rightarrow> unit run" where
  "codegen ll src emitLLVM dumpBits out =
     pbind (pget gContext) (\<lambda>c.
     pthen (if c \<noteq> None then preturn () else pabort ''call setTarget before calling codegen'')
     (pthen (say ''read pickle ...'')
     (pbind Timer_start (\<lambda>unpklTimer.
     pbind (read_unit src) (\<lambda>cu.
     pthen (say_msec unpklTimer)
     (pthen (say '' generate llvm ...'')
     (pbind Timer_start (\<lambda>genTimer.
     pthen (on_context (comp_unit_codegen cu))
     (pthen (say_msec genTimer)
     (pthen (if emitLLVM then dump ll else preturn ())
     (pthen (verified ll ''Module verified'')
     (pthen (say '' optimize ...'')
     (pbind Timer_start (\<lambda>optTimer.
     pthen (optimize ll)
     (pthen (say_msec optTimer)
     (pthen (verified ll ''Module verified after optimization'')
     (pthen (output_code ll dumpBits out (stem_of src))
     (on_context endModule))))))))))))))))))"

definition main :: "build_config \<Rightarrow> (instr \<Rightarrow> value option) \<Rightarrow> llvm \<Rightarrow> string list \<Rightarrow> int run" where
  "main b folder ll args =
     (case command_line b args of
        None \<Rightarrow> usage b
      | Some opts \<Rightarrow>
          pbind (setTarget b folder (opt_targetArch opts)) (\<lambda>failed.
            if failed then
              pthen (complain (''codegen: unable to set target to \"'' @ opt_targetArch opts @ ''\"'' @ newline))
                (preturn 1)
            else
              pthen (codegen ll (opt_src opts) (opt_emitLLVM opts) (opt_dumpBits opts) (opt_out opts))
                (preturn 0)))"

end
