(* ===== verification/Driver_Properties.thy ===== *)
theory Driver_Properties
  imports Driver Cfg_Roundtrip Unit_Properties
begin

text \<open>
  Properties of the tool \<open>cfgc\<close>: its command line, the names of its output files, what it does with
  a pickle from the command line to the output, and how it fails.
\<close>

section \<open>The command line\<close>

datatype switch = Sw_o | Sw_L | Sw_S | Sw_c | Sw_emit_llvm | Sw_bits | Sw_target string

primrec print_switch :: "switch \<Rightarrow> string list" where
  "print_switch Sw_o = [''-o'']"
| "print_switch Sw_L = [''-L'']"
| "print_switch Sw_S = [''-S'']"
| "print_switch Sw_c = [''-c'']"
| "print_switch Sw_emit_llvm = [''-emit-llvm'']"
| "print_switch Sw_bits = [''-bits'']"
| "print_switch (Sw_target t) = [''-target'', t]"

primrec apply_switch :: "switch \<Rightarrow> cfgc_options \<Rightarrow> cfgc_options" where
  "apply_switch Sw_o opts = opts\<lparr>opt_out := ObjFile\<rparr>"
| "apply_switch Sw_L opts = opts\<lparr>opt_out := LLVMAsmFile\<rparr>"
| "apply_switch Sw_S opts = opts\<lparr>opt_out := AsmFile\<rparr>"
| "apply_switch Sw_c opts = opts\<lparr>opt_out := Memory\<rparr>"
| "apply_switch Sw_emit_llvm opts = opts\<lparr>opt_emitLLVM := True\<rparr>"
| "apply_switch Sw_bits opts = opts\<lparr>opt_dumpBits := True, opt_out := Memory\<rparr>"
| "apply_switch (Sw_target t) opts = opts\<lparr>opt_targetArch := t\<rparr>"

lemma parse_switch: "parse_args (print_switch sw @ args) opts = parse_args args (apply_switch sw opts)"
  by (cases sw) (simp_all add: is_switch_def)

lemma parse_switches:
  "parse_args (concat (map print_switch sws) @ args) opts = parse_args args (fold apply_switch sws opts)"
  by (induction sws arbitrary: opts) (simp_all add: parse_switch)

lemma parse_sound:
  assumes "parse_args args opts = Some opts'"
  shows "\<exists>sws rest. args = concat (map print_switch sws) @ rest \<and>
    (rest = [] \<and> opts' = fold apply_switch sws opts \<or>
     (\<exists>src. rest = [src] \<and> \<not> is_switch src \<and> opts' = (fold apply_switch sws opts)\<lparr>opt_src := src\<rparr>))"
  using assms
proof (induction args opts rule: parse_args.induct)
  case (1 opts)
  then show ?case by (intro exI [of _ "[]"]) simp
next
  case (2 a args opts)
  let ?splits = "\<lambda>args opts. \<exists>sws rest. args = concat (map print_switch sws) @ rest \<and>
    (rest = [] \<and> opts' = fold apply_switch sws opts \<or>
     (\<exists>src. rest = [src] \<and> \<not> is_switch src \<and> opts' = (fold apply_switch sws opts)\<lparr>opt_src := src\<rparr>))"
  have step: ?case if "?splits args' (apply_switch sw opts)" "a # args = print_switch sw @ args'" for sw args'
  proof -
    from that(1) obtain sws rest where "args' = concat (map print_switch sws) @ rest"
      "rest = [] \<and> opts' = fold apply_switch (sw # sws) opts \<or>
       (\<exists>src. rest = [src] \<and> \<not> is_switch src \<and> opts' = (fold apply_switch (sw # sws) opts)\<lparr>opt_src := src\<rparr>)"
      by auto
    with that(2) show ?thesis by (intro exI [of _ "sw # sws"] exI [of _ rest]) simp
  qed
  show ?case
  proof (cases "is_switch a")
    case True
    note p = "2.prems" and ih = "2.IH" [OF True]
    have simple: ?thesis
      if "print_switch sw = [a]" "?splits args (apply_switch sw opts)" for sw
      using that by (intro step [of args sw]) simp_all
    from p True consider "a = ''-o''" | "a = ''-L''" | "a = ''-S''" | "a = ''-c''" | "a = ''-emit-llvm''"
      | "a = ''-bits''" | t args' where "a = ''-target''" "args = t # args'"
      by (fastforce split: if_splits list.splits)
    then show ?thesis
    proof cases
      case 1 then show ?thesis using p ih(1) True by (intro simple [of Sw_o]) simp_all
    next
      case 2 then show ?thesis using p ih(2) True by (intro simple [of Sw_L]) simp_all
    next
      case 3 then show ?thesis using p ih(3) True by (intro simple [of Sw_S]) simp_all
    next
      case 4 then show ?thesis using p ih(4) True by (intro simple [of Sw_c]) simp_all
    next
      case 5 then show ?thesis using p ih(5) True by (intro simple [of Sw_emit_llvm]) simp_all
    next
      case 6 then show ?thesis using p ih(6) True by (intro simple [of Sw_bits]) simp_all
    next
      case 7 then show ?thesis using p ih(7) True by (intro step [of args' "Sw_target t"]) simp_all
    qed
  next
    case False
    with "2.prems" have "args = []" "opts' = opts\<lparr>opt_src := a\<rparr>" by (auto split: if_splits)
    with False show ?thesis by (intro exI [of _ "[]"] exI [of _ "[a]"]) simp
  qed
qed

text \<open>C23: The command line of \<open>cfgc\<close> is exactly a list of switches, where \<open>-target\<close> takes the next
  argument, followed by the name of a pickle, which is not empty and is not a switch; later switches
  override earlier ones.  Everything else is answered with the usage message.\<close>

theorem command_line_correct:
  "command_line b args = Some opts \<longleftrightarrow>
     (\<exists>sws src. args = concat (map print_switch sws) @ [src] \<and> src \<noteq> [] \<and> \<not> is_switch src \<and>
        opts = (fold apply_switch sws (default_options b))\<lparr>opt_src := src\<rparr>)"
proof
  assume c: "command_line b args = Some opts"
  then have p: "parse_args args (default_options b) = Some opts" and src: "opt_src opts \<noteq> []"
    by (auto simp: command_line_def split: if_splits option.splits)
  have keep: "opt_src (fold apply_switch sws os) = opt_src os" for sws os
  proof (induction sws arbitrary: os)
    case (Cons sw sws)
    then show ?case by (cases sw) simp_all
  qed simp
  from parse_sound [OF p] src show "\<exists>sws src. args = concat (map print_switch sws) @ [src] \<and> src \<noteq> [] \<and>
      \<not> is_switch src \<and> opts = (fold apply_switch sws (default_options b))\<lparr>opt_src := src\<rparr>"
    by (auto simp: keep default_options_def)
next
  assume "\<exists>sws src. args = concat (map print_switch sws) @ [src] \<and> src \<noteq> [] \<and> \<not> is_switch src \<and>
      opts = (fold apply_switch sws (default_options b))\<lparr>opt_src := src\<rparr>"
  then show "command_line b args = Some opts" by (auto simp: command_line_def parse_switches)
qed

section \<open>The names of output files\<close>

lemma find_rev_upt:
  "find P (rev [0..<n]) = Some i \<longleftrightarrow> i < n \<and> P i \<and> (\<forall>j. i < j \<longrightarrow> j < n \<longrightarrow> \<not> P j)"
proof (induction n)
  case (Suc n)
  then show ?case by (auto simp: less_Suc_eq)
qed simp

lemma string_rfind_Some:
  assumes "i \<le> length s" "take (length pat) (drop i s) = pat"
    "\<And>j. i < j \<Longrightarrow> j \<le> length s \<Longrightarrow> take (length pat) (drop j s) \<noteq> pat"
  shows "string_rfind s pat = of_nat i"
proof -
  have "find (\<lambda>i. take (length pat) (drop i s) = pat) (rev [0..<length s + 1]) = Some i"
    unfolding find_rev_upt using assms by auto
  then show ?thesis by (simp add: string_rfind_def)
qed

text \<open>C24: The output files of \<open>cfgc\<close> are named after the pickle: \<open>base.pkl\<close> gives \<open>base\<close>.  A name without
  this suffix gives \<open>out\<close>, unless it has three characters: \<open>npos + 4\<close> wraps to 3, and the name is
  taken as it is.\<close>

theorem stem_of_correct:
  assumes "length src < 2 ^ 63"
  shows "stem_of src =
    (if \<exists>base. src = base @ ''.pkl'' then take (length src - 4) src
     else if length src = 3 then src else ''out'')"
proof -
  let ?P = "\<lambda>i. take 4 (drop i src) = ''.pkl''"
  have len: "unat (of_nat n :: u64) = n" if "n < 2 ^ 64" for n
    using that by (simp add: unat_word_of_nat)
  have P: "i + 4 \<le> length src" if "?P i" for i
    using arg_cong [OF that, of length] by auto
  have eq: "(of_nat i + 4 = (of_nat (length src) :: u64)) = (i + 4 = length src)" if "?P i" for i
  proof -
    have "of_nat i + 4 = (of_nat (i + 4) :: u64)" by simp
    moreover have "i + 4 < 2 ^ 64" "length src < 2 ^ 64" using P [OF that] assms by simp_all
    ultimately show ?thesis using len by metis
  qed
  have "length ''.pkl'' = 4" by simp
  then have rfind: "string_rfind src ''.pkl'' =
      (case find ?P (rev [0..<length src + 1]) of Some i \<Rightarrow> of_nat i | None \<Rightarrow> npos)"
    by (simp only: string_rfind_def)
  show ?thesis
  proof (cases "find ?P (rev [0..<length src + 1])")
    case None
    then have "\<not> ?P i" if "i < length src" for i using that by (auto simp: find_None_iff)
    with P have no: "\<not> ?P i" for i by fastforce
    have "\<not> (\<exists>base. src = base @ ''.pkl'')"
    proof
      assume "\<exists>base. src = base @ ''.pkl''"
      then obtain base where "src = base @ ''.pkl''" by blast
      then show False using no [of "length base"] by simp
    qed
    moreover have "(npos + 4 = of_nat (length src)) = (length src = 3)"
      using len [of "length src"] assms by (auto simp: npos_def)
    moreover have "unat npos \<ge> length src"
      using assms by (simp add: npos_def unsigned_minus_1_eq_mask mask_eq_exp_minus_1)
    moreover have "string_rfind src ''.pkl'' = npos" by (simp only: rfind None option.case)
    then have "stem_of src = (if npos + 4 \<noteq> of_nat (length src) then ''out'' else take (unat npos) src)"
      by (simp only: stem_of_def Let_def substr0_def)
    ultimately show ?thesis by auto
  next
    case (Some i)
    then have i: "i \<le> length src" "?P i" "\<And>j. i < j \<Longrightarrow> j \<le> length src \<Longrightarrow> \<not> ?P j"
      unfolding find_rev_upt by auto
    have r: "string_rfind src ''.pkl'' = of_nat i" by (simp only: rfind Some option.case)
    have suf: "(\<exists>base. src = base @ ''.pkl'') = (i + 4 = length src)"
    proof
      assume "i + 4 = length src"
      with i(2) have "drop i src = ''.pkl''" by simp
      then have "src = take i src @ ''.pkl''" by (metis append_take_drop_id)
      then show "\<exists>base. src = base @ ''.pkl''" by blast
    next
      assume "\<exists>base. src = base @ ''.pkl''"
      then obtain base where "src = base @ ''.pkl''" by blast
      with i(3) [of "length base"] P [OF i(2)] show "i + 4 = length src" by fastforce
    qed
    show ?thesis
    proof (cases "i + 4 = length src")
      case True
      then have "unat (of_nat i :: u64) = length src - 4" using len [of i] assms by simp
      with True suf eq [OF i(2)] show ?thesis by (simp add: stem_of_def r substr0_def)
    next
      case False
      moreover have "length src \<noteq> 3" using P [OF i(2)] by simp
      ultimately show ?thesis using suf eq [OF i(2)] by (simp add: stem_of_def r)
    qed
  qed
qed

lemma stem_of_correct_witness:
  "stem_of ''dir/a.pkl'' = ''dir/a'' \<and> stem_of ''a.pickle'' = ''out'' \<and> stem_of ''abc'' = ''abc''"
proof -
  have "\<nexists>base. ''a.pickle'' = base @ ''.pkl''" "\<nexists>base. ''abc'' = base @ ''.pkl''"
    by (simp_all add: append_eq_Cons_conv Cons_eq_append_conv)
  moreover have "''dir/a.pkl'' = ''dir/a'' @ ''.pkl''" by simp
  then have "\<exists>base. ''dir/a.pkl'' = base @ ''.pkl''" by blast
  ultimately show ?thesis
    using stem_of_correct [of "''dir/a.pkl''"] stem_of_correct [of "''a.pickle''"] stem_of_correct [of "''abc''"]
    by simp
qed

section \<open>From a pickle to the output\<close>

lemma infoForTarget_cases:
  assumes "infoForTarget b name = Some ti"
  shows "ti = X86_64Info b \<or> ti = Arm64Info b"
  using assms by (auto simp: infoForTarget_def Targets_def split: if_splits)

lemma target_registers:
  assumes "ti = X86_64Info b \<or> ti = Arm64Info b"
  shows "\<not> usesBasePtr (CMRegs_new (Some ti))" "{ALLOC_PTR, LIMIT_PTR, STORE_PTR} \<subseteq> set (hw_ids ti)"
    "ti_wordSz ti = 64"
proof -
  have "\<not> usesBasePtr (CMRegs_new (Some (X86_64Info b)))" "\<not> usesBasePtr (CMRegs_new (Some (Arm64Info b)))"
    by (simp_all add: X86_64Info_def Arm64Info_def CMRegs_new_def usesBasePtr_def Let_def)
  with assms show "\<not> usesBasePtr (CMRegs_new (Some ti))" by auto
  show "ti_wordSz ti = 64" using assms by (auto simp: X86_64Info_def Arm64Info_def)
  show "{ALLOC_PTR, LIMIT_PTR, STORE_PTR} \<subseteq> set (hw_ids ti)"
    using assms by (auto simp: set_hw_ids in_machine_def X86_64Info_def Arm64Info_def)
qed

lemma Context_new_eq:
  "Context_new folder ti = Inr ((Context_init folder ti)
     \<lparr>cx_gcFnTy := (let tys = replicate (numMachineRegs (CMRegs_new (Some ti)) + nat (ti_numCalleeSaves ti + 4)) PtrTy
        in \<lparr>ft_ret = StructTy tys, ft_params = tys\<rparr>),
      cx_raiseOverflowFnTy := \<lparr>ft_ret = VoidTy, ft_params = replicate (numMachineRegs (CMRegs_new (Some ti))) PtrTy\<rparr>\<rparr>)"
proof -
  have "createParamTys STD_FUN n (Context_init folder ti) =
      Inr (replicate (numMachineRegs (CMRegs_new (Some ti))) PtrTy, Context_init folder ti)" for n
    by (simp add: createParamTys_def getArgInfo_def addExtraParamTys_def cbind_def cget_def creturn_def
        Context_init_def)
  then show ?thesis
    by (simp add: Context_new_def init_fn_types_def cbind_def cthen_def cget_def cmodify_def Let_def replicate_add)
      (simp add: Context_init_def)
qed

lemma Context_new_fresh:
  assumes "infoForTarget b name = Some ti" "fold_sound folder" "Context_new folder ti = Inr s"
  shows "fresh_for ti s"
proof -
  note r = target_registers [OF infoForTarget_cases [OF assms(1)]]
  have "fresh_for ti (Context_init folder ti)"
    using r assms(2) by (simp add: fresh_for_def idle_def Context_init_def numbers_ok_def empty_block_def)
  moreover obtain g h where "s = (Context_init folder ti)\<lparr>cx_gcFnTy := g, cx_raiseOverflowFnTy := h\<rparr>"
    using assms(3) by (auto simp: Context_new_eq)
  ultimately show ?thesis by (simp add: fresh_for_def idle_def numbers_ok_def)
qed

text \<open>The run of \<open>codegen\<close> up to the output of the optimised module.\<close>

lemma codegen_run:
  assumes ctx: "gContext w = Some s" and rd: "read_comp_unit (file_instream src (w_files w src)) = Inr (cu, ins)"
    and gen: "comp_unit_codegen cu s = Inr ((), z)"
  shows "\<exists>w1. codegen ll src emitLLVM dumpBits out w =
      pthen (output_code ll dumpBits out (stem_of src)) (on_context endModule) w1 \<and>
    gContext w1 = Some (ll_optimize ll z) \<and> w_files w1 = w_files w \<and> w_writable w1 = w_writable w"
  unfolding codegen_def
  apply (simp add: prog_defs say_def complain_def Timer_start_def clock_gettime_def say_msec_def read_unit_def
      on_context_def verified_def verify_def dump_def optimize_def ctx rd gen cget_def cmodify_def
      split: option.split)
  by (intro conjI impI allI; rule exI, rule conjI, rule refl, simp)

text \<open>The file that the code is written to.\<close>

definition output_file :: "Output \<Rightarrow> string \<Rightarrow> (string \<times> file_type) option" where
  "output_file out stem =
     (case out of
        AsmFile \<Rightarrow> Some (stem @ ''.s'', AssemblyFile)
      | ObjFile \<Rightarrow> Some (stem @ ''.o'', ObjectFile)
      | _ \<Rightarrow> None)"

lemma output_code_file:
  assumes "output_file out stem = Some (f, ft)" "gContext w = Some s"
  shows "output_code ll dumpBits out stem w = emitFile ll f ft w" "f \<noteq> ''-''"
    "exit_status (pthen (emitFile ll f ft) (pthen (on_context endModule) (preturn 0)) w) = Some 0"
    "w_files (snd (pthen (emitFile ll f ft) (on_context endModule) w)) =
       (if \<not> w_writable w f then w_files w
        else (w_files w)(f \<mapsto> if ll_emits ll ft then ll_emit ll ft s else []))"
proof -
  show f: "f \<noteq> ''-''" and "output_code ll dumpBits out stem w = emitFile ll f ft w"
    using assms(1) by (cases out; auto simp: output_file_def output_code_def dumpAsm_stem_def dumpObj_def)+
  show "exit_status (pthen (emitFile ll f ft) (pthen (on_context endModule) (preturn 0)) w) = Some 0"
    "w_files (snd (pthen (emitFile ll f ft) (on_context endModule) w)) =
       (if \<not> w_writable w f then w_files w
        else (w_files w)(f \<mapsto> if ll_emits ll ft then ll_emit ll ft s else []))"
    using f assms(2)
    by (simp_all add: exit_status_def emitFile_def open_output_def write_output_def prog_defs complain_def
        on_context_def cget_def cmodify_def endModule_def)
qed

lemma main_starts:
  assumes "command_line b args = Some opts" "infoForTarget b (opt_targetArch opts) = Some ti"
    "gContext w = None" "Context_new folder ti = Inr s"
  shows "main b folder ll args w =
    pthen (codegen ll (opt_src opts) (opt_emitLLVM opts) (opt_dumpBits opts) (opt_out opts)) (preturn 0)
      (w\<lparr>gContext := Some s\<rparr>)"
  using assms by (simp add: main_def setTarget_def create_def prog_defs)

lemma pthen_assoc: "pthen (pthen m k) l = pthen m (pthen k l)"
  by (auto simp: prog_defs fun_eq_iff split: prod.splits sum.splits)

lemma snd_pthen_return: "snd (pthen m (preturn x) w) = snd (m w)"
  by (auto simp: prog_defs split: prod.splits sum.splits)

lemma pthen_at: "m w = m' w' \<Longrightarrow> pthen m k w = pthen m' k w'"
  by (simp add: prog_defs)

text \<open>A run that generates code comes to the output of the optimised module.\<close>

lemma main_reaches_output:
  assumes "command_line b args = Some opts" "infoForTarget b (opt_targetArch opts) = Some ti"
    "gContext w = None" "Context_new folder ti = Inr s"
    "read_comp_unit (file_instream (opt_src opts) (w_files w (opt_src opts))) = Inr (cu, ins)"
    "comp_unit_codegen cu s = Inr ((), z)"
  obtains w1 where "main b folder ll args w =
      pthen (output_code ll (opt_dumpBits opts) (opt_out opts) (stem_of (opt_src opts)))
        (pthen (on_context endModule) (preturn 0)) w1"
    "gContext w1 = Some (ll_optimize ll z)" "w_files w1 = w_files w" "w_writable w1 = w_writable w"
proof -
  let ?src = "opt_src opts" and ?w = "w\<lparr>gContext := Some s\<rparr>"
  let ?cg = "codegen ll ?src (opt_emitLLVM opts) (opt_dumpBits opts) (opt_out opts)"
  have "gContext ?w = Some s" "read_comp_unit (file_instream ?src (w_files ?w ?src)) = Inr (cu, ins)"
    using assms(5) by simp_all
  from codegen_run [OF this assms(6)] obtain w1 where
    w1: "?cg ?w = pthen (output_code ll (opt_dumpBits opts) (opt_out opts) (stem_of ?src)) (on_context endModule) w1"
      "gContext w1 = Some (ll_optimize ll z)" "w_files w1 = w_files w" "w_writable w1 = w_writable w"
    by fastforce
  have "main b folder ll args w = pthen ?cg (preturn 0) ?w"
    by (rule main_starts [OF assms(1-4)])
  also have "\<dots> = pthen (output_code ll (opt_dumpBits opts) (opt_out opts) (stem_of ?src))
      (pthen (on_context endModule) (preturn 0)) w1"
    unfolding pthen_assoc [symmetric] by (rule pthen_at) (rule w1(1))
  finally show thesis by (rule that) (rule w1)+
qed

text \<open>Generated code is output, whatever becomes of the output file.\<close>

lemma main_outputs:
  assumes "command_line b args = Some opts" "infoForTarget b (opt_targetArch opts) = Some ti"
    "gContext w = None" "Context_new folder ti = Inr s"
    "read_comp_unit (file_instream (opt_src opts) (w_files w (opt_src opts))) = Inr (cu, ins)"
    "comp_unit_codegen cu s = Inr ((), z)" "output_file (opt_out opts) (stem_of (opt_src opts)) = Some (f, ft)"
  shows "exit_status (main b folder ll args w) = Some 0"
    "w_files (snd (main b folder ll args w)) =
       (if \<not> w_writable w f then w_files w
        else (w_files w)(f \<mapsto> if ll_emits ll ft then ll_emit ll ft (ll_optimize ll z) else []))"
proof -
  obtain w1 where w1: "main b folder ll args w =
      pthen (output_code ll (opt_dumpBits opts) (opt_out opts) (stem_of (opt_src opts)))
        (pthen (on_context endModule) (preturn 0)) w1"
    "gContext w1 = Some (ll_optimize ll z)" "w_files w1 = w_files w" "w_writable w1 = w_writable w"
    by (rule main_reaches_output [OF assms(1-6)])
  note o = output_code_file [OF assms(7) w1(2)]
  have run: "main b folder ll args w = pthen (emitFile ll f ft) (pthen (on_context endModule) (preturn 0)) w1"
    unfolding w1(1) by (rule pthen_at) (rule o(1))
  show "exit_status (main b folder ll args w) = Some 0" using o(3) by (simp add: run)
  show "w_files (snd (main b folder ll args w)) =
       (if \<not> w_writable w f then w_files w
        else (w_files w)(f \<mapsto> if ll_emits ll ft then ll_emit ll ft (ll_optimize ll z) else []))"
    using o(4) unfolding run pthen_assoc [symmetric] snd_pthen_return by (simp add: w1(3,4))
qed

text \<open>C3: From the pickle to the module and its output.  Let the SML pickler write the compilation unit
  \<open>cu\<close> to a file, and let \<open>cfgc\<close>, called with this file for a target of the table, exit normally.
  Then it has compiled \<open>cu\<close> to a module that does what the unit does, in the sense of the simulation
  of compilation units, and the output file, when it can be opened, holds what LLVM emits for this
  module after its passes.\<close>

theorem pickle_compiled:
  assumes "file_pickle P" "comp_unit_ok cu" "unit_ok cu" "write_comp_unit P cu memory_outstream = Inr os"
    "command_line b args = Some opts" "infoForTarget b (opt_targetArch opts) = Some ti" "fold_sound folder"
    "w_files w (opt_src opts) = Some (get_pickle os)" "gContext w = None"
    "exit_status (main b folder ll args w) = Some 0"
  shows "\<exists>z.
    (\<forall>code lab vs G us k \<sigma> oc.
       unit_goes ti code (unit_clusters cu) lab vs G (rv_mem \<sigma>) oc \<longrightarrow>
       entry_kind (unit_clusters cu) lab = Some k \<longrightarrow> length us = n_unused k \<longrightarrow>
       (\<exists>cf cf'. call_label z lab G us vs \<sigma> = Some cf \<and> pflow (fn_at code z) z cf cf' \<and> departs z oc cf')) \<and>
    (\<forall>f ft. output_file (opt_out opts) (stem_of (opt_src opts)) = Some (f, ft) \<longrightarrow>
       w_writable w f \<longrightarrow> ll_emits ll ft \<longrightarrow>
       w_files (snd (main b folder ll args w)) f = Some (ll_emit ll ft (ll_optimize ll z)))"
proof -
  obtain p where p: "write_comp_unit P cu memory_outstream = Inr (emit memory_outstream p)"
    "read_comp_unit (stream nm (p @ bs)) = Inr (cu, stream nm bs)" for nm bs
    using file_pickle.comp_unit_rt [OF assms(1,2)] unfolding Cfg_Roundtrip.emits_def by blast
  have "get_pickle os = p" using p(1) assms(4) by (simp add: get_pickle_emit)
  then have rd: "read_comp_unit (file_instream (opt_src opts) (w_files w (opt_src opts))) =
      Inr (cu, stream (opt_src opts) [])"
    using p(2) [of "opt_src opts" "[]"] assms(8) by (simp add: file_instream_def)
  obtain s where s: "Context_new folder ti = Inr s" by (simp add: Context_new_eq)
  have fresh: "fresh_for ti s" by (rule Context_new_fresh [OF assms(6,7) s])
  have run: "main b folder ll args w =
    pthen (codegen ll (opt_src opts) (opt_emitLLVM opts) (opt_dumpBits opts) (opt_out opts)) (preturn 0)
      (w\<lparr>gContext := Some s\<rparr>)"
    by (rule main_starts [OF assms(5,6,9) s])
  obtain z where z: "comp_unit_codegen cu s = Inr ((), z)"
  proof (cases "comp_unit_codegen cu s")
    case (Inl e)
    then have "exit_status (main b folder ll args w) = None"
      unfolding run codegen_def
      by (cases e) (simp_all add: exit_status_def prog_defs say_def Timer_start_def clock_gettime_def say_msec_def
          read_unit_def on_context_def rd)
    with assms(10) show thesis by simp
  next
    case (Inr r)
    then show thesis using that by (cases r) simp
  qed
  have compiled: "compiled ti (unit_clusters cu) z" by (rule unit_compiled [OF z assms(3) fresh])
  have "w_files (snd (main b folder ll args w)) f = Some (ll_emit ll ft (ll_optimize ll z))"
    if "output_file (opt_out opts) (stem_of (opt_src opts)) = Some (f, ft)" "w_writable w f" "ll_emits ll ft" for f ft
    using main_outputs(2) [OF assms(5,6,9) s rd z that(1)] that(2,3) by simp
  with unit_follows [OF compiled] show ?thesis by (intro exI [of _ z]) blast
qed

text \<open>A loader that copies an object file to memory, an LLVM that changes nothing and writes the number of
  blocks or an object file of two bytes, and a directory with one file.\<close>

definition demo_dyld :: runtime_dyld where
  "demo_dyld =
     \<lparr>rd_new = 0x7f0010, rd_fresh = (\<lambda>_. 0),
      rd_load = (\<lambda>_ bs. Some
        ([Reserve (of_nat (length bs), 16) (0, 1) (0, 1),
          Allocate \<lparr>rq_kind = Code, rq_szb = of_nat (length bs), rq_align = 16\<rparr>,
          Fill (\<lambda>ps m a. if unat (a - ps ! 0) < length bs then bs ! unat (a - ps ! 0) else m a)], None))\<rparr>"

definition demo_llvm :: llvm where
  "demo_llvm =
     \<lparr>ll_verify = (\<lambda>_. None), ll_optimize = (\<lambda>s. s), ll_print = (\<lambda>_. []), ll_emits = (\<lambda>_. True),
      ll_emit = (\<lambda>ft s. [word_of_nat (ir_nblocks s)]), ll_emitMC = (\<lambda>_. Some [Write [0x90, 0xC3]]),
      ll_dyld = demo_dyld\<rparr>"

definition demo_world :: "(string \<Rightarrow> u8 list option) \<Rightarrow> (string \<Rightarrow> bool) \<Rightarrow> cfgc" where
  "demo_world files writable =
     \<lparr>w_files = files, w_writable = writable, w_stdout = [], w_stderr = [], w_clock = (\<lambda>_. (0, 0)), w_now = 0,
      gContext = None\<rparr>"

lemma demo_command_line: "command_line sample_build [''-o'', ''a.pkl''] =
    Some (default_options sample_build\<lparr>opt_out := ObjFile, opt_src := ''a.pkl''\<rparr>)"
  by (simp add: command_line_def is_switch_def default_options_def)

lemma demo_target: "infoForTarget sample_build ''x86_64'' = Some (X86_64Info sample_build)"
  by (simp add: infoForTarget_def Targets_def enable_x86_def sample_build_def X86_64Info_def)

lemma demo_stem: "stem_of ''a.pkl'' = ''a''"
  by (simp add: stem_of_def string_rfind_def substr0_def eval_nat_numeral upt_rec)

lemma pair_comp_unit_ok: "comp_unit_ok pair_unit"
  by (simp add: pair_unit_def pair_cluster_def twice_stm_def sample_param_def comp_unit_ok_def len_ok_def
      cluster_ok_def attrs_ok_def int_ok_def seq_ok_def frag_ok_def frag_kind_ok_def lvar_ok_def param_ok_def
      arithop_ok_def)

lemma demo_compiles:
  assumes "Context_new (\<lambda>_. None) (X86_64Info sample_build) = Inr s"
  obtains z where "comp_unit_codegen pair_unit s = Inr ((), z)"
proof -
  have "case comp_unit_codegen pair_unit s of Inl _ \<Rightarrow> False | Inr _ \<Rightarrow> True"
    using assms pair_compiles unfolding Context_new_eq sample_ctx_def [symmetric] by auto
  then show thesis using that by (auto split: sum.splits)
qed

lemma pickle_compiled_witness:
  "\<exists>os z. write_comp_unit cpp_pickle pair_unit memory_outstream = Inr os \<and>
     (\<exists>cf cf'. call_label z 7 work_Regs [None, None] [RP 24576, RI 64 5] work_state = Some cf \<and>
        pflow (fn_at (\<lambda>_. None) z) z cf cf' \<and>
        departs z (Leave STD_CONT (Address 24576) [RP 24576, RI 64 10] work_Regs (rv_mem work_state)) cf') \<and>
     w_files (snd (main sample_build (\<lambda>_. None) demo_llvm [''-o'', ''a.pkl'']
       (demo_world [''a.pkl'' \<mapsto> get_pickle os] (\<lambda>_. True)))) ''a.o'' = Some (ll_emit demo_llvm ObjectFile z)"
proof -
  let ?opts = "default_options sample_build\<lparr>opt_out := ObjFile, opt_src := ''a.pkl''\<rparr>"
  let ?ti = "X86_64Info sample_build" and ?args = "[''-o'', ''a.pkl'']" and ?cs = "unit_clusters pair_unit"
  have P: "file_pickle cpp_pickle" by (rule cpp_fp.file_pickle_axioms)
  obtain p where p: "write_comp_unit cpp_pickle pair_unit memory_outstream = Inr (emit memory_outstream p)"
    "\<And>nm bs. read_comp_unit (stream nm (p @ bs)) = Inr (pair_unit, stream nm bs)"
    using file_pickle.comp_unit_rt [OF P pair_comp_unit_ok] unfolding Cfg_Roundtrip.emits_def by blast
  let ?w = "demo_world [''a.pkl'' \<mapsto> get_pickle (emit memory_outstream p)] (\<lambda>_. True)"
  have o: "opt_src ?opts = ''a.pkl''" "opt_targetArch ?opts = ''x86_64''" "opt_out ?opts = ObjFile"
    by (simp_all add: default_options_def kHostArch_def sample_build_def)
  have ti: "infoForTarget sample_build (opt_targetArch ?opts) = Some ?ti" unfolding o by (rule demo_target)
  have w: "gContext ?w = None" "w_files ?w (opt_src ?opts) = Some (get_pickle (emit memory_outstream p))"
    by (simp_all add: demo_world_def o)
  have f: "output_file (opt_out ?opts) (stem_of (opt_src ?opts)) = Some (''a.o'', ObjectFile)"
    unfolding o demo_stem by (simp add: output_file_def)
  obtain s where s: "Context_new (\<lambda>_. None) ?ti = Inr s" by (simp add: Context_new_eq)
  obtain z where z: "comp_unit_codegen pair_unit s = Inr ((), z)" by (rule demo_compiles [OF s])
  have rd: "read_comp_unit (file_instream (opt_src ?opts) (w_files ?w (opt_src ?opts))) = Inr (pair_unit, stream ''a.pkl'' [])"
    using p(2) [of "''a.pkl''" "[]"] by (simp add: demo_world_def get_pickle_emit file_instream_def o)
  have st: "exit_status (main sample_build (\<lambda>_. None) demo_llvm ?args ?w) = Some 0"
    by (rule main_outputs(1) [OF demo_command_line ti w(1) s rd z f])
  have "fold_sound (\<lambda>_. None)" by (simp add: fold_sound_def)
  from pickle_compiled [OF P pair_comp_unit_ok pair_ok p(1) demo_command_line ti this w(2,1) st] obtain z where
    z: "unit_goes ?ti code ?cs lab vs G (rv_mem \<sigma>) oc \<Longrightarrow> entry_kind ?cs lab = Some k \<Longrightarrow> length us = n_unused k \<Longrightarrow>
      \<exists>cf cf'. call_label z lab G us vs \<sigma> = Some cf \<and> pflow (fn_at code z) z cf cf' \<and> departs z oc cf'"
    "w_files (snd (main sample_build (\<lambda>_. None) demo_llvm ?args ?w)) ''a.o'' = Some (ll_emit demo_llvm ObjectFile z)"
    for code lab vs G us k \<sigma> oc
    using f by (fastforce simp: demo_world_def demo_llvm_def)
  have goes: "unit_goes ?ti (\<lambda>_. None) ?cs 7 [RP 24576, RI 64 5] work_Regs (rv_mem work_state)
      (Leave STD_CONT (Address 24576) [RP 24576, RI 64 10] work_Regs (rv_mem work_state))"
    by (intro pair_goes; simp add: twice_stm_def sample_param_def arith_result_def leave_def dest_eval_def
        pass_def as_ty_def work_eval_defs)
  have k: "entry_kind ?cs 7 = Some STD_CONT"
    by (simp add: entry_kind_def pair_find(1)) (simp add: pair_cluster_def cluster_entry_def)
  have "length [None, None :: rval option] = n_unused STD_CONT" by (simp add: n_unused_def)
  from z(1) [OF goes k this] z(2) p(1) show ?thesis by blast
qed

section \<open>Failures\<close>

text \<open>C21: How \<open>cfgc\<close> fails.  A command line that is not one ends with the usage message and status 1, as
  does a target that is not in the table, with its own message.  A pickle that cannot be read,
  whether there is no file or its contents are not a compilation unit, ends with status 1 and no
  output file; only an integer of about \<open>2\<^sup>3\<^sup>1\<close> bits, on which the reader overflows, ends in
  undefined behaviour instead.  But an output file that cannot be opened is not noticed in the status, which is 0.\<close>

theorem cfgc_failures:
  assumes "gContext w = None"
  shows "(command_line b args = None \<longrightarrow>
      main b folder ll args w = (Inl (Exit 1), w\<lparr>w_stderr := w_stderr w @ [Text (usage_text b)]\<rparr>)) \<and>
    (\<forall>opts. command_line b args = Some opts \<longrightarrow>
      (infoForTarget b (opt_targetArch opts) = None \<longrightarrow>
         exit_status (main b folder ll args w) = Some 1 \<and>
         w_files (snd (main b folder ll args w)) = w_files w) \<and>
      (\<forall>ti s. infoForTarget b (opt_targetArch opts) = Some ti \<longrightarrow> Context_new folder ti = Inr s \<longrightarrow>
        (case read_comp_unit (file_instream (opt_src opts) (w_files w (opt_src opts))) of
           Inl e \<Rightarrow> exit_status (main b folder ll args w) =
               (if e = AssertFailure \<or> e = SignedOverflow then None else Some 1) \<and>
             w_files (snd (main b folder ll args w)) = w_files w
         | Inr (cu, _) \<Rightarrow>
             (\<forall>z f ft. comp_unit_codegen cu s = Inr ((), z) \<longrightarrow>
               output_file (opt_out opts) (stem_of (opt_src opts)) = Some (f, ft) \<longrightarrow> \<not> w_writable w f \<longrightarrow>
               exit_status (main b folder ll args w) = Some 0 \<and>
               w_files (snd (main b folder ll args w)) = w_files w))))"
proof (intro conjI allI impI)
  assume "command_line b args = None"
  then show "main b folder ll args w = (Inl (Exit 1), w\<lparr>w_stderr := w_stderr w @ [Text (usage_text b)]\<rparr>)"
    by (simp add: main_def usage_def complain_def prog_defs)
next
  fix opts assume c: "command_line b args = Some opts"
  {
    assume "infoForTarget b (opt_targetArch opts) = None"
    then have "setTarget b folder (opt_targetArch opts) w = (Inr True, w)"
      using assms by (simp add: setTarget_def create_def prog_defs)
    then show "exit_status (main b folder ll args w) = Some 1" "w_files (snd (main b folder ll args w)) = w_files w"
      using c by (simp_all add: main_def exit_status_def complain_def prog_defs)
  }
  fix ti s assume ti: "infoForTarget b (opt_targetArch opts) = Some ti" "Context_new folder ti = Inr s"
  let ?r = "main b folder ll args w" and ?src = "opt_src opts"
  show "case read_comp_unit (file_instream ?src (w_files w ?src)) of
      Inl e \<Rightarrow> exit_status ?r = (if e = AssertFailure \<or> e = SignedOverflow then None else Some 1) \<and> w_files (snd ?r) = w_files w
    | Inr (cu, _) \<Rightarrow>
        (\<forall>z f ft. comp_unit_codegen cu s = Inr ((), z) \<longrightarrow>
          output_file (opt_out opts) (stem_of ?src) = Some (f, ft) \<longrightarrow> \<not> w_writable w f \<longrightarrow>
          exit_status ?r = Some 0 \<and> w_files (snd ?r) = w_files w)"
  proof (cases "read_comp_unit (file_instream ?src (w_files w ?src))")
    case (Inl e)
    then have "e \<noteq> OutOfFuel" using comp_unit_r.never_out_of_fuel by blast
    then have "exit_status ?r = (if e = AssertFailure \<or> e = SignedOverflow then None else Some 1) \<and> w_files (snd ?r) = w_files w"
      unfolding main_starts [OF c ti(1) assms ti(2)] codegen_def
      by (cases e) (simp_all add: exit_status_def prog_defs say_def complain_def Timer_start_def
          clock_gettime_def read_unit_def asdl_exit_def Inl)
    then show ?thesis using Inl by simp
  next
    case (Inr r)
    obtain cu ins where r: "r = (cu, ins)" by (cases r) auto
    have "exit_status ?r = Some 0 \<and> w_files (snd ?r) = w_files w"
      if z: "comp_unit_codegen cu s = Inr ((), z)" "output_file (opt_out opts) (stem_of ?src) = Some (f, ft)"
        "\<not> w_writable w f" for z f ft
      using main_outputs [OF c ti(1) assms ti(2) Inr [unfolded r] z(1,2)] z(3) by simp
    then show ?thesis unfolding Inr r by auto
  qed
qed

text \<open>Two dashes are no switch, and a file that is missing cannot be read.\<close>

lemma cfgc_failures_witness:
  "fst (main sample_build (\<lambda>_. None) demo_llvm [''--emit-llvm'', ''a.pkl''] (demo_world (\<lambda>_. None) (\<lambda>_. True))) =
     Inl (Exit 1) \<and>
   exit_status (main sample_build (\<lambda>_. None) demo_llvm [''-o'', ''a.pkl''] (demo_world (\<lambda>_. None) (\<lambda>_. True))) =
     Some 1"
proof -
  let ?w = "demo_world (\<lambda>_. None) (\<lambda>_. True)"
  let ?opts = "default_options sample_build\<lparr>opt_out := ObjFile, opt_src := ''a.pkl''\<rparr>"
  have w: "gContext ?w = None" by (simp add: demo_world_def)
  note fail = cfgc_failures [OF w, of sample_build _ "\<lambda>_. None" demo_llvm]
  have "command_line sample_build [''--emit-llvm'', ''a.pkl''] = None"
    by (simp add: command_line_def is_switch_def)
  then have 1: "fst (main sample_build (\<lambda>_. None) demo_llvm [''--emit-llvm'', ''a.pkl''] ?w) = Inl (Exit 1)"
    using fail [of "[''--emit-llvm'', ''a.pkl'']"] by simp
  obtain s where s: "Context_new (\<lambda>_. None) (X86_64Info sample_build) = Inr s" by (simp add: Context_new_eq)
  have o: "opt_src ?opts = ''a.pkl''" "opt_targetArch ?opts = ''x86_64''"
    by (simp_all add: default_options_def kHostArch_def sample_build_def)
  have "read_comp_unit (file_instream ''a.pkl'' None) = Inl (ReadError ''a.pkl'')"
    by (simp add: read_comp_unit_def read_string_def read_uint_def rbind_def getb_def good_def
        file_instream_def stream_def invalidIOState_def)
  then have "read_comp_unit (file_instream (opt_src ?opts) (w_files ?w (opt_src ?opts))) = Inl (ReadError ''a.pkl'')"
    by (simp add: o demo_world_def)
  with fail [of "[''-o'', ''a.pkl'']"] demo_command_line demo_target [folded o(2)] s
  have "exit_status (main sample_build (\<lambda>_. None) demo_llvm [''-o'', ''a.pkl''] ?w) = Some 1"
    by (auto simp del: o)
  with 1 show ?thesis ..
qed

end
