(* ===== verification/Bits_Properties.thy ===== *)
theory Bits_Properties
  imports Driver_Properties
begin

text \<open>
  The code that \<open>cfgc\<close> keeps in memory and prints: the bytes of the loaded object can be read
  back from the dump.
\<close>

section \<open>Reading a dump\<close>

definition unhex :: "char \<Rightarrow> nat" where
  "unhex c = length (takeWhile (\<lambda>d. d \<noteq> c) ''0123456789abcdef'')"

fun hex_bytes :: "string \<Rightarrow> u8 list" where
  "hex_bytes (c # h # l # rest) = word_of_nat (16 * unhex h + unhex l) # hex_bytes rest"
| "hex_bytes _ = []"

text \<open>A row is an address, a colon and a blank, the bytes, each with a blank before it, and the end of the
  line.\<close>

definition decode_row :: "string \<Rightarrow> u8 list" where
  "decode_row row = hex_bytes (drop 2 (dropWhile (\<lambda>c. c \<noteq> CHR '':'') row))"

section \<open>The dump\<close>

declare hex_digits.simps [simp del] bits_rows.simps [simp del]

lemma hex_digit_cases:
  assumes "d < 16"
  shows "unhex (hex_digit d) = d" "hex_digit d \<noteq> CHR '':''"
proof -
  have "\<forall>d < 16. unhex (hex_digit d) = d \<and> hex_digit d \<noteq> CHR '':''" by code_simp
  with assms show "unhex (hex_digit d) = d" "hex_digit d \<noteq> CHR '':''" by blast+
qed

lemma hex_digits_colon: "CHR '':'' \<notin> set (hex_digits n)"
proof (induction n rule: hex_digits.induct)
  case (1 n)
  then show ?case
    using hex_digit_cases(2) [of n] hex_digit_cases(2) [of "n mod 16"]
    by (cases "n < 16") (simp_all add: hex_digits.simps [of n])
qed

lemma format_hex_colon: "CHR '':'' \<notin> set (format_hex_no_prefix n k)"
  using hex_digits_colon [of n] by (auto simp: format_hex_no_prefix_def Let_def)

lemma format_hex_byte:
  assumes "n < 256"
  shows "format_hex_no_prefix n 2 = [hex_digit (n div 16), hex_digit (n mod 16)]"
proof -
  have "hex_digit 0 = CHR 0x30" by (simp add: hex_digit_def)
  moreover have "n div 16 < 16" using assms by (simp add: less_mult_imp_div_less)
  ultimately show ?thesis
    using hex_digits.simps [of n] hex_digits.simps [of "n div 16"]
    by (simp add: format_hex_no_prefix_def numeral_2_eq_2)
qed

lemma hex_bytes_row:
  "length end_of_line < 3 \<Longrightarrow>
     hex_bytes (concat (map (\<lambda>b. '' '' @ format_hex_no_prefix (unat b) 2) bs) @ end_of_line) = bs"
proof (induction bs)
  case Nil
  then show ?case by (cases end_of_line rule: hex_bytes.cases) auto
next
  case (Cons b bs)
  have "unat b < 2 ^ LENGTH(8)" by (rule unsigned_less)
  then have b: "unat b < 256" by simp
  then have "unat b div 16 < 16" by (simp add: less_mult_imp_div_less)
  with b Cons show ?case by (simp add: format_hex_byte hex_digit_cases)
qed

lemma decode_bits_row: "decode_row (bits_row bytes i) = take 16 (drop i bytes)"
proof -
  let ?js = "[i..<min (i + 16) (length bytes)]"
  have slice: "map ((!) bytes) ?js = take 16 (drop i bytes)"
    by (rule nth_equalityI) (auto simp: min_def split: if_splits)
  have skip: "dropWhile (\<lambda>c. c \<noteq> CHR '':'') (xs @ CHR '':'' # ys) = CHR '':'' # ys" if "CHR '':'' \<notin> set xs" for xs ys
    using that by (induction xs) auto
  have "drop 2 (dropWhile (\<lambda>c. c \<noteq> CHR '':'') (bits_row bytes i)) =
      concat (map (\<lambda>b. '' '' @ format_hex_no_prefix (unat b) 2) (map ((!) bytes) ?js)) @ newline"
    by (simp add: bits_row_def Let_def skip [OF format_hex_colon] comp_def)
  then show ?thesis
    unfolding decode_row_def slice [symmetric] by (simp only:) (rule hex_bytes_row, simp add: newline_def)
qed

lemma decode_bits_rows: "concat (map decode_row (bits_rows bytes i)) = drop i bytes"
proof (induction bytes i rule: bits_rows.induct)
  case (1 bytes i)
  show ?case
  proof (cases "i < length bytes")
    case True
    have "take 16 (drop i bytes) @ drop (i + 16) bytes = drop i bytes"
      by (metis append_take_drop_id drop_drop add.commute)
    with True 1 show ?thesis by (simp add: bits_rows.simps [of bytes i] decode_bits_row)
  qed (simp add: bits_rows.simps [of bytes i])
qed

lemma complain_rows:
  "pforeach rows complain w = (Inr (), w\<lparr>w_stderr := w_stderr w @ map Text rows\<rparr>)"
  by (induction rows arbitrary: w) (simp_all add: complain_def prog_defs)

section \<open>The bits of a compiled unit\<close>

text \<open>What \<open>cfgc\<close> does with \<open>-bits\<close>.  Let code be generated for the unit of a pickle and an object
  file be written for the optimised module.  If the loader makes an object of it, \<open>cfgc\<close> ends
  with status 0 and no file changes; the last lines on the standard error stream are the size
  of the object and rows from which its bytes can be read back, in order and none left out.  If
  the loader reports an error, the status is 1; otherwise an assertion has failed.\<close>

theorem bits_printed:
  assumes "command_line b args = Some opts" "opt_out opts = Memory" "opt_dumpBits opts"
    and "infoForTarget b (opt_targetArch opts) = Some ti" "gContext w = None" "Context_new folder ti = Inr s"
    and "read_comp_unit (file_instream (opt_src opts) (w_files w (opt_src opts))) = Inr (cu, ins)"
    and "comp_unit_codegen cu s = Inr ((), z)"
    and "ll_emitMC ll (ll_optimize ll z) = Some cs" "stream_calls cs [] = Inr output"
  shows "w_files (snd (main b folder ll args w)) = w_files w \<and>
    (case ObjectFile_new (ll_dyld ll) output of
       Inl (DyldFailed msg) \<Rightarrow> exit_status (main b folder ll args w) = Some 1
     | Inl _ \<Rightarrow> exit_status (main b folder ll args w) = None
     | Inr obj \<Rightarrow>
         (case object_bytes obj of
            Inl _ \<Rightarrow> exit_status (main b folder ll args w) = None
          | Inr bs \<Rightarrow> exit_status (main b folder ll args w) = Some 0 \<and>
              (\<exists>pre rows. w_stderr (snd (main b folder ll args w)) = pre @
                 Text (''##### OBJECT FILE BITS: '' @ dec_digits (length bs) @ '' bytes #####'' @ newline) #
                 map Text rows \<and> concat (map decode_row rows) = bs)))"
proof -
  obtain w1 where w1: "main b folder ll args w =
      pthen (output_code ll (opt_dumpBits opts) (opt_out opts) (stem_of (opt_src opts)))
        (pthen (on_context endModule) (preturn 0)) w1"
    "gContext w1 = Some (ll_optimize ll z)" "w_files w1 = w_files w"
    by (rule main_reaches_output [OF assms(1,4-8)])
  have size: "length bs = unat (object_size obj)" if "object_bytes obj = Inr bs" for obj bs
    using that by (auto simp: object_bytes_def split: sum.splits)
  note defs = output_code_def compile_def report_fatal_error_def dump_bits_def on_context_def exit_status_def
    complain_rows complain_def prog_defs cget_def cmodify_def endModule_def
  show ?thesis
  proof (cases "ObjectFile_new (ll_dyld ll) output")
    case (Inl e)
    then show ?thesis using w1 assms(2,3,9,10) by (cases e) (simp_all add: defs)
  next
    case (Inr obj)
    show ?thesis
    proof (cases "object_bytes obj")
      case (Inl e)
      then show ?thesis using w1 assms(2,3,9,10) Inr by (simp add: defs)
    next
      case bs: (Inr bs)
      have "concat (map decode_row (bits_rows bs 0)) = bs" using decode_bits_rows [of bs 0] by simp
      moreover have "exit_status (main b folder ll args w) = Some 0"
        "w_files (snd (main b folder ll args w)) = w_files w"
        "w_stderr (snd (main b folder ll args w)) = w_stderr w1 @
           Text (''##### OBJECT FILE BITS: '' @ dec_digits (length bs) @ '' bytes #####'' @ newline) #
           map Text (bits_rows bs 0)"
        unfolding w1(1) assms(2) size [OF bs] using w1(2,3) assms(3,9,10) Inr bs by (simp_all add: defs)
      ultimately show ?thesis unfolding Inr sum.case bs by blast
    qed
  qed
qed

lemma demo_object:
  "case ObjectFile_new demo_dyld [0x90, 0xC3] of
     Inl _ \<Rightarrow> False
   | Inr obj \<Rightarrow> object_data obj = Inr 0x7f1000 \<and> object_size obj = 16 \<and>
       map (ld_mem obj) [0x7f1000, 0x7f1001] = [0x90, 0xC3]"
  by (simp add: ObjectFile_new_def demo_dyld_def reserveAllocationSpace_def MemManager_new_def section_new_def
      setSize_def alignBy_def maxAlign_def mm_size_def sec_top_def mm_alloc_def allocateCodeSection_def
      sec_alloc_def object_data_def object_size_def Let_def)

lemma bits_printed_witness:
  "\<exists>os bs pre rows. write_comp_unit cpp_pickle pair_unit memory_outstream = Inr os \<and>
     w_stderr (snd (main sample_build (\<lambda>_. None) demo_llvm [''-bits'', ''a.pkl'']
       (demo_world [''a.pkl'' \<mapsto> get_pickle os] (\<lambda>_. True)))) =
       pre @ Text (''##### OBJECT FILE BITS: '' @ dec_digits 16 @ '' bytes #####'' @ newline) # map Text rows \<and>
     take 2 (concat (map decode_row rows)) = [0x90, 0xC3]"
proof -
  let ?opts = "default_options sample_build\<lparr>opt_out := Memory, opt_dumpBits := True, opt_src := ''a.pkl''\<rparr>"
  let ?ti = "X86_64Info sample_build" and ?args = "[''-bits'', ''a.pkl'']"
  have P: "file_pickle cpp_pickle" by (rule cpp_fp.file_pickle_axioms)
  obtain p where p: "write_comp_unit cpp_pickle pair_unit memory_outstream = Inr (emit memory_outstream p)"
    "\<And>nm bs. read_comp_unit (stream nm (p @ bs)) = Inr (pair_unit, stream nm bs)"
    using file_pickle.comp_unit_rt [OF P pair_comp_unit_ok] unfolding Cfg_Roundtrip.emits_def by blast
  let ?w = "demo_world [''a.pkl'' \<mapsto> get_pickle (emit memory_outstream p)] (\<lambda>_. True)"
  have args: "command_line sample_build ?args = Some ?opts"
    by (simp add: command_line_def is_switch_def default_options_def)
  have o: "opt_src ?opts = ''a.pkl''" "opt_targetArch ?opts = ''x86_64''" "opt_out ?opts = Memory" "opt_dumpBits ?opts"
    by (simp_all add: default_options_def kHostArch_def sample_build_def)
  have ti: "infoForTarget sample_build (opt_targetArch ?opts) = Some ?ti" unfolding o by (rule demo_target)
  have w: "gContext ?w = None" by (simp add: demo_world_def)
  obtain s where s: "Context_new (\<lambda>_. None) ?ti = Inr s" by (simp add: Context_new_eq)
  obtain z where z: "comp_unit_codegen pair_unit s = Inr ((), z)" by (rule demo_compiles [OF s])
  have rd: "read_comp_unit (file_instream (opt_src ?opts) (w_files ?w (opt_src ?opts))) = Inr (pair_unit, stream ''a.pkl'' [])"
    using p(2) [of "''a.pkl''" "[]"] by (simp add: demo_world_def get_pickle_emit file_instream_def o)
  have mc: "ll_emitMC demo_llvm (ll_optimize demo_llvm z) = Some [Write [0x90, 0xC3]]"
    "stream_calls [Write [0x90, 0xC3]] [] = Inr [0x90, 0xC3]"
    by (simp_all add: demo_llvm_def write_impl_def)
  obtain obj where obj: "ObjectFile_new (ll_dyld demo_llvm) [0x90, 0xC3] = Inr obj"
    "object_data obj = Inr 0x7f1000" "object_size obj = 16" "map (ld_mem obj) [0x7f1000, 0x7f1001] = [0x90, 0xC3]"
    using demo_object by (auto simp: demo_llvm_def split: sum.splits)
  define bs where "bs = map (\<lambda>i. ld_mem obj (0x7f1000 + of_nat i)) [0..<16]"
  have bs: "object_bytes obj = Inr bs" using obj(2,3) by (simp add: object_bytes_def bs_def)
  have size: "length bs = 16" by (simp add: bs_def)
  have "take 2 bs = map (\<lambda>i. ld_mem obj (0x7f1000 + of_nat i)) [0, 1]"
    by (simp add: bs_def take_map numeral_2_eq_2)
  then have first: "take 2 bs = [0x90, 0xC3]" using obj(4) by simp
  obtain pre rows where "w_stderr (snd (main sample_build (\<lambda>_. None) demo_llvm ?args ?w)) =
      pre @ Text (''##### OBJECT FILE BITS: '' @ dec_digits 16 @ '' bytes #####'' @ newline) # map Text rows"
    "concat (map decode_row rows) = bs"
    using bits_printed [OF args o(3,4) ti w s rd z mc] unfolding obj(1) bs sum.case size by blast
  then show ?thesis using p(1) first by blast
qed

end
