(* ===== verification/Heap_Image.thy ===== *)
theory Heap_Image
  imports Process
begin

text \<open>
  The tool \<open>heap2obj\<close> (\<open>heap2obj/main.cpp\<close>) and its library (\<open>lib-heap2obj/heap2obj.cpp\<close>): it wraps a
  heap image in an object file.  LLVM is a parameter, the record \<open>heap_llvm\<close>.  The file
  \<open>lib-heap2obj/main.cpp\<close> is an older version of the tool that is not part of the build.
\<close>

section \<open>The module for a heap image\<close>

datatype heap_mode = eObjFile | eAsmFile | eLLVMAsmFile

datatype Status = eSuccess | eFailure

text \<open>A module with one constant global variable, a structure of a 64-bit integer and bytes.\<close>

record heap_module =
  hm_name :: string
  hm_source :: "string option"
  hm_triple :: string
  hm_dataLayout :: string
  hm_global :: string
  hm_size :: u64
  hm_data :: "u8 list"

text \<open>The host, the error message when the registry has no target for it, the triple and data layout of
  the target machine, if there is one, and the output of a module as text, assembly code or object
  code, if there are passes for it.\<close>

record heap_llvm =
  hl_hostTriple :: string
  hl_lookupTarget :: "string \<Rightarrow> string option"
  hl_machine :: "(string \<times> string) option"
  hl_print :: "heap_module \<Rightarrow> u8 list"
  hl_emit :: "heap_mode \<Rightarrow> (heap_module \<Rightarrow> u8 list) option"

definition toSML :: "u64 \<Rightarrow> u64" where
  "toSML n = n + n + 1"

definition heap_module_of :: "string \<times> string \<Rightarrow> u8 list \<Rightarrow> string \<Rightarrow> heap_module" where
  "heap_module_of machine heap heapFile =
     \<lparr>hm_name = (if heapFile = [] then ''heap-image'' else heapFile),
      hm_source = (if heapFile = [] then None else Some heapFile),
      hm_triple = fst machine, hm_dataLayout = snd machine,
      hm_global = ''smlnj_heap_image'',
      hm_size = toSML (of_nat (length heap)), hm_data = heap\<rparr>"

definition fatal :: "string \<Rightarrow> (world, Status) prog" where
  "fatal msg = pthen (complain (''[FATAL ERROR] '' @ msg @ newline)) (preturn eFailure)"

definition emitHeapFile ::
  "heap_llvm \<Rightarrow> string \<Rightarrow> u8 list \<Rightarrow> heap_mode \<Rightarrow> string \<Rightarrow> (world, Status) prog" where
  "emitHeapFile ll outFile heap fileType heapFile =
     (case hl_lookupTarget ll (hl_hostTriple ll) of
        Some errMsg \<Rightarrow>
          fatal (''unable to find target for '' @ quoted (hl_hostTriple ll) @ newline @ ''    ['' @ errMsg @ '']'')
      | None \<Rightarrow>
          (case hl_machine ll of
             None \<Rightarrow> fatal ''unable to create target machine''
           | Some machine \<Rightarrow>
               pbind (open_output outFile) (\<lambda>ok.
                 let llvmModule = heap_module_of machine heap heapFile
                 in if \<not> ok then fatal (''unable to open output file '' @ quoted outFile)
                    else if fileType = eLLVMAsmFile then
                      pthen (write_output outFile (hl_print ll llvmModule)) (preturn eSuccess)
                    else
                      (case hl_emit ll fileType of
                         None \<Rightarrow> fatal (''unable to add pass to generate '' @ quoted outFile)
                       | Some emit \<Rightarrow> pthen (write_output outFile (emit llvmModule)) (preturn eSuccess)))))"

section \<open>Command line\<close>

definition isCommandLineSwitch :: "string \<Rightarrow> bool" where
  "isCommandLineSwitch s \<longleftrightarrow> (case s of [] \<Rightarrow> False | c # _ \<Rightarrow> c = CHR ''-'')"

datatype heap_args = Usage int | Arguments heap_mode string string  \<comment> \<open>mode, heap file, output file\<close>

fun heap_parse :: "string list \<Rightarrow> heap_mode \<Rightarrow> string \<Rightarrow> string \<Rightarrow> heap_args" where
  "heap_parse [] outMode heapFile outFile =
     (if heapFile = [] then Usage 1 else Arguments outMode heapFile outFile)"
| "heap_parse (arg # args) outMode heapFile outFile =
     (if isCommandLineSwitch arg then
        if arg = ''-h'' then Usage 0
        else if arg = ''-o'' then
          (case args of
             [] \<Rightarrow> Usage 1
           | f # args' \<Rightarrow> if isCommandLineSwitch f then Usage 1 else heap_parse args' outMode heapFile f)
        else if arg = ''-S'' then heap_parse args eAsmFile heapFile outFile
        else if arg = ''-emit-llvm'' then heap_parse args eLLVMAsmFile heapFile outFile
        else Usage 1
      else if heapFile = [] then heap_parse args outMode arg outFile
      else Usage 1)"

definition heap_usage_text :: string where
  "heap_usage_text =
     ''usage: heap2objfile [ options ] <heap-file>'' @ newline @
     ''options:'' @ newline @
     ''    -o <obj-file>     -- specify the name of the output file'' @ newline @
     ''    -S                -- emit assembly code to the output file'' @ newline @
     ''    -emit-llvm        -- emit generated LLVM assembly to the output file'' @ newline"

definition heap_usage :: "int \<Rightarrow> (world, 'a) prog" where
  "heap_usage status = pthen (complain heap_usage_text) (pexit status)"

section \<open>The program\<close>

text \<open>The name of the output file; the base name ends at the last dot, in a directory or not.\<close>

definition output_name :: "heap_mode \<Rightarrow> string \<Rightarrow> string \<Rightarrow> string" where
  "output_name outMode heapFile outFile =
     (let baseName = substr0 heapFile (find_last_of heapFile CHR ''.'')
      in if outFile \<noteq> [] then outFile
         else baseName @ (case outMode of eObjFile \<Rightarrow> ''.o'' | eAsmFile \<Rightarrow> ''.s'' | eLLVMAsmFile \<Rightarrow> ''.ll''))"

text \<open>The contents of the heap file, padded; the size of a missing file is the largest number, and the
  errors are not looked at.\<close>

definition file_size :: "u8 list option \<Rightarrow> u64" where
  "file_size contents = (case contents of None \<Rightarrow> - 1 | Some bs \<Rightarrow> of_nat (length bs))"

definition heap_data :: "u8 list option \<Rightarrow> u8 list" where
  "heap_data contents =
     (let nBytes = unat ((file_size contents + 7) AND NOT 7);
          bs = (case contents of None \<Rightarrow> [] | Some bs \<Rightarrow> bs)
      in bs @ replicate (nBytes - length bs) 0)"

definition heap_main :: "heap_llvm \<Rightarrow> string list \<Rightarrow> (world, int) prog" where
  "heap_main ll args =
     (case (if args = [] then Usage 1 else heap_parse args eObjFile [] []) of
        Usage status \<Rightarrow> heap_usage status
      | Arguments outMode heapFile outFile \<Rightarrow>
          pbind (pget w_files) (\<lambda>files.
          pbind (emitHeapFile ll (output_name outMode heapFile outFile) (heap_data (files heapFile)) outMode [])
            (\<lambda>sts. preturn (if sts = eFailure then 1 else 0))))"

end
