(* ===== verification/Heap_Properties.thy ===== *)
theory Heap_Properties
  imports Heap_Image
begin

text \<open>
  Properties of the tool \<open>heap2obj\<close>: what the module that it outputs holds of the heap file, and how
  it fails.
\<close>

section \<open>Padding\<close>

lemma unat_small: "n < 2 ^ 64 \<Longrightarrow> unat (of_nat n :: u64) = n"
  by (simp add: unat_of_nat)

lemma and_not_7: "(y AND NOT 7 :: u64) = 8 * (y div 8)"
proof -
  have m: "(7 :: u64) = mask 3" by (simp add: mask_eq_exp_minus_1)
  have "y AND NOT 7 = push_bit 3 (drop_bit 3 y)"
    unfolding m by (rule bit_eqI) (auto simp: bit_simps)
  then show ?thesis by (simp add: push_bit_eq_mult drop_bit_eq_div mult.commute)
qed

lemma unat_round_8: "unat (y AND NOT 7 :: u64) = 8 * (unat y div 8)"
proof -
  have "unat (y div 8) = unat y div 8" by (simp add: unat_div)
  moreover have "unat y < 2 ^ LENGTH(64)" by (rule unsigned_less)
  then have "8 * (unat y div 8) < 2 ^ 64" by simp
  ultimately show ?thesis unfolding and_not_7 by (simp add: unat_word_ariths(2))
qed

lemmas unat_round_minus_8 = unat_round_8 [simplified]

text \<open>The heap file is padded to a multiple of eight bytes, and a missing one is empty.\<close>

definition heap_bytes :: "u8 list option \<Rightarrow> u8 list" where
  "heap_bytes contents = (case contents of None \<Rightarrow> [] | Some bs \<Rightarrow> bs)"

lemma heap_data_padded:
  assumes "length (heap_bytes contents) + 7 < 2 ^ 64"
  obtains n where "n < 8" "8 dvd length (heap_bytes contents) + n" "heap_data contents = heap_bytes contents @ replicate n 0"
proof (cases contents)
  case None
  then show thesis using that [of 0] by (simp add: heap_bytes_def heap_data_def file_size_def)
next
  case (Some bs)
  have "unat (of_nat (length bs) + 7 :: u64) = length bs + 7"
    using unat_small [of "length bs + 7"] assms Some by (simp add: heap_bytes_def)
  then have "heap_data contents = bs @ replicate (8 * ((length bs + 7) div 8) - length bs) 0"
    using Some by (simp add: heap_data_def file_size_def unat_round_minus_8)
  then show thesis using that [of "8 * ((length bs + 7) div 8) - length bs"] Some
    by (simp add: heap_bytes_def)
qed

section \<open>Output\<close>

lemma heap_parse_output:
  "heap_parse args mode h f = Arguments mode' h' f' \<Longrightarrow> \<not> isCommandLineSwitch f \<Longrightarrow> \<not> isCommandLineSwitch f'"
  by (induction args mode h f rule: heap_parse.induct)
     (auto split: if_splits list.splits)

lemma output_name_file:
  assumes "heap_parse args mode h [] = Arguments mode' h' f'"
  shows "output_name mode' h' f' \<noteq> ''-''"
proof -
  have "\<not> isCommandLineSwitch f'" using heap_parse_output [OF assms] by (simp add: isCommandLineSwitch_def)
  then show ?thesis
    by (auto simp: output_name_def isCommandLineSwitch_def append_eq_Cons_conv split: heap_mode.splits)
qed

text \<open>What is written to the output file for a module, if anything can be.\<close>

definition heap_writer :: "heap_llvm \<Rightarrow> heap_mode \<Rightarrow> (heap_module \<Rightarrow> u8 list) option" where
  "heap_writer ll mode = (if mode = eLLVMAsmFile then Some (hl_print ll) else hl_emit ll mode)"

lemmas heap_run_defs =
  heap_main_def emitHeapFile_def fatal_def complain_def open_output_def write_output_def heap_writer_def
  exit_status_def Let_def prog_defs

lemma heap_main_writes:
  fixes w :: world
  assumes "heap_parse args eObjFile [] [] = Arguments mode heapFile outFile"
    and "hl_lookupTarget ll (hl_hostTriple ll) = None" "hl_machine ll = Some machine"
    and "w_writable w (output_name mode heapFile outFile)" "heap_writer ll mode = Some print"
  shows "heap_main ll args w =
    (Inr 0, w\<lparr>w_files := (w_files w)(output_name mode heapFile outFile \<mapsto>
       print (heap_module_of machine (heap_data (w_files w heapFile)) []))\<rparr>)"
proof -
  have "args \<noteq> []" using assms(1) by auto
  then show ?thesis
    using assms(2-5) output_name_file [OF assms(1)]
    by (simp add: heap_run_defs assms(1) split: if_splits)
qed

lemma heap_main_fails:
  fixes w :: world
  assumes "heap_parse args eObjFile [] [] = Arguments mode heapFile outFile"
    and "\<not> (hl_lookupTarget ll (hl_hostTriple ll) = None \<and> hl_machine ll \<noteq> None \<and>
      w_writable w (output_name mode heapFile outFile) \<and> heap_writer ll mode \<noteq> None)"
    and "heap_main ll args w = r"
  shows "exit_status r = Some 1" "w_stderr (snd r) \<noteq> w_stderr w"
    "f \<noteq> output_name mode heapFile outFile \<Longrightarrow> w_files (snd r) f = w_files w f"
proof -
  let ?out = "output_name mode heapFile outFile"
  have args: "args \<noteq> []" using assms(1) by auto
  note out = output_name_file [OF assms(1)]
  consider err where "hl_lookupTarget ll (hl_hostTriple ll) = Some err"
    | "hl_lookupTarget ll (hl_hostTriple ll) = None" "hl_machine ll = None"
    | machine where "hl_lookupTarget ll (hl_hostTriple ll) = None" "hl_machine ll = Some machine"
        "\<not> w_writable w ?out"
    | machine where "hl_lookupTarget ll (hl_hostTriple ll) = None" "hl_machine ll = Some machine"
        "w_writable w ?out" "mode \<noteq> eLLVMAsmFile" "hl_emit ll mode = None"
    using assms(2) by (cases "hl_lookupTarget ll (hl_hostTriple ll)"; cases "hl_machine ll")
      (auto simp: heap_writer_def split: if_splits)
  then have "exit_status r = Some 1 \<and> w_stderr (snd r) \<noteq> w_stderr w \<and>
      (f \<noteq> ?out \<longrightarrow> w_files (snd r) f = w_files w f)"
    by cases (simp_all add: assms(1) assms(3) [symmetric] args out heap_run_defs)
  then show "exit_status r = Some 1" "w_stderr (snd r) \<noteq> w_stderr w"
    "f \<noteq> ?out \<Longrightarrow> w_files (snd r) f = w_files w f" by auto
qed

text \<open>C22: What \<open>heap2obj\<close> does.  Where LLVM has the target of the host and the output file can be opened
  and written, the tool ends with status 0, and the only file that changes is the output file, which
  holds the module whose data are the bytes of the heap file with fewer than eight zeros after them,
  up to a multiple of eight, and whose size field is the number of these bytes as a tagged integer of
  SML, without overflow.  A heap file that is missing counts as an empty one.  Otherwise the status
  is 1, there is a message, and no file but the output file changes.\<close>

theorem heap2obj_correct:
  fixes w :: world
  assumes "heap_parse args eObjFile [] [] = Arguments mode heapFile outFile"
    and "length (heap_bytes (w_files w heapFile)) < 2 ^ 62"
  shows "let out = output_name mode heapFile outFile; bs = heap_bytes (w_files w heapFile);
             r = heap_main ll args w; t = snd r in
    (if hl_lookupTarget ll (hl_hostTriple ll) = None \<and> hl_machine ll \<noteq> None \<and> w_writable w out \<and>
        heap_writer ll mode \<noteq> None
     then \<exists>n. n < 8 \<and> 8 dvd length bs + n \<and> r = (Inr 0, w\<lparr>w_files := (w_files w)(out \<mapsto>
         the (heap_writer ll mode)
           \<lparr>hm_name = ''heap-image'', hm_source = None, hm_triple = fst (the (hl_machine ll)),
            hm_dataLayout = snd (the (hl_machine ll)), hm_global = ''smlnj_heap_image'',
            hm_size = toSML (of_nat (length bs + n)), hm_data = bs @ replicate n 0\<rparr>)\<rparr>) \<and>
         unat (toSML (of_nat (length bs + n))) = 2 * (length bs + n) + 1
     else exit_status r = Some 1 \<and> w_stderr t \<noteq> w_stderr w \<and> (\<forall>f. f \<noteq> out \<longrightarrow> w_files t f = w_files w f))"
proof -
  let ?out = "output_name mode heapFile outFile" and ?bs = "heap_bytes (w_files w heapFile)"
  obtain n where n: "n < 8" "8 dvd length ?bs + n" "heap_data (w_files w heapFile) = ?bs @ replicate n 0"
    using assms(2) by (auto intro: heap_data_padded [of "w_files w heapFile"])
  have "toSML (of_nat (length ?bs + n)) = of_nat (2 * (length ?bs + n) + 1)" by (simp add: toSML_def)
  then have "unat (toSML (of_nat (length ?bs + n))) = 2 * (length ?bs + n) + 1"
    using unat_small [of "2 * (length ?bs + n) + 1"] assms(2) n(1) by simp
  note size = this
  show ?thesis
  proof (cases "hl_lookupTarget ll (hl_hostTriple ll) = None \<and> hl_machine ll \<noteq> None \<and> w_writable w ?out \<and>
      heap_writer ll mode \<noteq> None")
    case True
    then obtain machine print where "hl_machine ll = Some machine" "heap_writer ll mode = Some print" by auto
    moreover from this have "heap_main ll args w =
        (Inr 0, w\<lparr>w_files := (w_files w)(?out \<mapsto> print (heap_module_of machine (?bs @ replicate n 0) []))\<rparr>)"
      using heap_main_writes [OF assms(1)] True n(3) by simp
    ultimately show ?thesis
      using True n(1,2) size by (auto simp: Let_def heap_module_of_def intro!: exI [of _ n])
  next
    case False
    then show ?thesis
      using heap_main_fails [OF assms(1) False refl] by (simp only: Let_def if_False) blast
  qed
qed

text \<open>The heap file \<open>d.1/heap\<close>, three bytes long, has the output file \<open>d.o\<close>, outside the directory.\<close>

definition demo_heap_llvm :: heap_llvm where
  "demo_heap_llvm =
     \<lparr>hl_hostTriple = ''host'', hl_lookupTarget = (\<lambda>_. None), hl_machine = Some (''host'', ''e''),
      hl_print = hm_data, hl_emit = (\<lambda>_. Some hm_data)\<rparr>"

definition demo_heap_world :: world where
  "demo_heap_world =
     \<lparr>w_files = [''d.1/heap'' \<mapsto> [1, 2, 3]], w_writable = (\<lambda>_. True), w_stdout = [], w_stderr = [],
      w_clock = (\<lambda>_. (0, 0)), w_now = 0\<rparr>"

lemma heap2obj_correct_witness:
  "w_files (snd (heap_main demo_heap_llvm [''d.1/heap''] demo_heap_world)) ''d.o'' = Some [1, 2, 3, 0, 0, 0, 0, 0]"
proof -
  have parse: "heap_parse [''d.1/heap''] eObjFile [] [] = Arguments eObjFile ''d.1/heap'' []"
    by (simp add: isCommandLineSwitch_def)
  have out: "output_name eObjFile ''d.1/heap'' [] = ''d.o''"
    by (simp add: output_name_def find_last_of_def substr0_def eval_nat_numeral upt_rec)
  have bytes: "heap_bytes (w_files demo_heap_world ''d.1/heap'') = [1, 2, 3]"
    by (simp add: demo_heap_world_def heap_bytes_def)
  have "n = 5" if "n < 8" "8 dvd Suc (Suc (Suc n))" for n :: nat
    using that by presburger
  moreover have "length (heap_bytes (w_files demo_heap_world ''d.1/heap'')) < 2 ^ 62" by (simp add: bytes)
  note heap2obj_correct [OF parse this, of demo_heap_llvm]
  then obtain n where "n < 8" "8 dvd Suc (Suc (Suc n))"
    "w_files (snd (heap_main demo_heap_llvm [''d.1/heap''] demo_heap_world)) ''d.o'' = Some ([1, 2, 3] @ replicate n 0)"
    unfolding bytes out by (auto simp: Let_def demo_heap_llvm_def demo_heap_world_def heap_writer_def)
  ultimately have "w_files (snd (heap_main demo_heap_llvm [''d.1/heap''] demo_heap_world)) ''d.o'' =
      Some ([1, 2, 3] @ replicate 5 0)"
    by blast
  then show ?thesis by (simp add: numeral_eq_Suc)
qed

end
