(* ===== verification/Spec2Isabelle.thy ===== *)
theory Spec2Isabelle
  imports Pickle_Properties Memory_Properties Emission_Properties Module_Properties
    Simulation_Properties Unit_Properties Driver_Properties Bits_Properties Heap_Properties
begin

text \<open>
  A verification development for the SML/NJ code generator, the directory \<open>src/smlnj\<close> of this
  LLVM tree.  File names below are relative to it.


  THE PROGRAM

  The SML/NJ compiler hands a compilation unit to the code generator as a pickle, a string of
  bytes in the format of the ASDL tools.  The generator

    \<^item> reads the pickle into the CFG intermediate representation (\<open>include/asdl\<close>,
      \<open>lib-codegen/asdl.cpp\<close>, \<open>asdl-integer.cpp\<close>, \<open>lambda-var.cpp\<close>, \<open>cfg.cpp\<close>);
    \<^item> initialises it: one LLVM function for each cluster, one basic block for each statement that
      is the target of a jump (\<open>lib-codegen/cfg-init.cpp\<close>);
    \<^item> generates LLVM instructions through a context that tracks the registers of the runtime
      system, the variables in scope and the current block (\<open>include/context.hpp\<close>,
      \<open>lib-codegen/context.cpp\<close>, \<open>overflow.cpp\<close>, \<open>cm-registers.cpp\<close>, \<open>target-info.cpp\<close>,
      \<open>cfg-prim-codegen.cpp\<close>, \<open>cfg-codegen.cpp\<close>);
    \<^item> lets LLVM produce an object file in memory and lays out its sections
      (\<open>lib-codegen/objfile-stream.cpp\<close>, \<open>object-file.cpp\<close>).

  Two tools come with it: \<open>cfgc\<close> compiles a file with a pickle to assembly or object code
  (\<open>cfgc/main.cpp\<close>, with the methods of \<open>Context\<close> and of \<open>MCGen\<close> in \<open>lib-codegen/mc-gen.cpp\<close> that
  call the passes of LLVM), and \<open>heap2obj\<close> wraps a heap image in an object file (\<open>heap2obj/main.cpp\<close>,
  \<open>lib-heap2obj/heap2obj.cpp\<close>).


  THE MODEL

  A C++ function that reads or changes a state is a function from the state to an error or a
  result and the new state; the readers work on \<open>instream\<close> (\<open>Asdl_Stream\<close>), the generator on
  \<open>cgctx\<close> (\<open>Context\<close>), which extends the record \<open>ir\<close> of the LLVM objects built so far
  (\<open>Llvm_IR\<close>).  Exceptions, calls of \<open>exit\<close>, failed assertions (the program is modelled with
  assertions enabled), dereferenced null pointers, vector indices out of range and a \<open>switch\<close>
  without a case are constructors of the error types.  Machine integers are words.  Arguments of
  C++ calls are evaluated from left to right.  Overflow of signed integers, undefined in C++, is an
  error value where the code can reach it (\<open>SignedOverflow\<close>).

    \<^item> \<open>Prelude\<close>: names of the machine integers, generic lemmas.
    \<^item> \<open>Asdl_Stream\<close>, \<open>Asdl\<close>, \<open>Asdl_Integer\<close>, \<open>Lambda_Var\<close>: \<open>asdl-stream.hpp\<close>, \<open>asdl.hpp\<close>,
      \<open>asdl.cpp\<close>, \<open>asdl-integer.hpp\<close>, \<open>asdl-integer.cpp\<close>, \<open>lambda-var.cpp\<close>; readers and writers.
    \<^item> \<open>Cfg_Types\<close>, \<open>Cfg_Read\<close>: the classes of \<open>cfg.hpp\<close> as datatypes with the constructors of the
      source, and every reader of \<open>cfg.cpp\<close>.  The readers of recursive types take fuel, the bytes
      that are left; each level of recursion consumes one, so the fuel never runs out, and
      the readers satisfy the equations of the source without it (\<open>comp_unit_reader_total\<close>,
      \<open>reader_recursion\<close>).
    \<^item> \<open>Cfg_Pickle\<close>: the writers of the other side, \<open>tests/Synthetic/cfg-file-pickle.sml\<close>, over a
      parameter for the ASDL structure they call.
    \<^item> \<open>Target_Info\<close>: the target table and the registers of the runtime system.
    \<^item> \<open>Object_File\<close>, \<open>Object_Load\<close>: the memory manager, the object-file stream, and the class
      \<open>ObjectFile\<close>, which loads an object file.  The loader of LLVM is a parameter, the calls that it
      makes to the memory manager and the symbol resolver.
    \<^item> \<open>Llvm_IR\<close>: the part of LLVM's representation that the generator builds, as data, and the
      builder.  LLVM is a library of this program; its constant folder is the field \<open>ir_fold\<close>,
      a parameter.
    \<^item> \<open>Context\<close>, \<open>Context_Code\<close>: the class \<open>Context\<close>, one definition for each method.
    \<^item> \<open>Prim_Codegen\<close>, \<open>Codegen\<close>: every \<open>codegen\<close> and \<open>init\<close> method of \<open>cfg-prim-codegen.cpp\<close>,
      \<open>cfg-init.cpp\<close> and \<open>cfg-codegen.cpp\<close>.
    \<^item> \<open>Process\<close>: a process with files, standard streams and a clock (\<open>world\<close>), and programs (\<open>prog\<close>)
      that may end early by \<open>exit\<close> or an abort and leave what they have written.  \<open>Driver\<close>: the
      tool \<open>cfgc\<close>, from its arguments to its output.  \<open>Heap_Image\<close>: the tool \<open>heap2obj\<close>.  What they
      call of LLVM, the passes, the verifier, the printers and the emitters, is a record, \<open>llvm\<close> and
      \<open>heap_llvm\<close>, with nothing assumed of it.


  SPECIFICATIONS

    \<^item> \<open>Llvm_Sem\<close>: the meaning of straight-line instructions after the LLVM Language Reference,
      over values and a byte memory; what is undefined there has no result.
    \<^item> \<open>Exp_Sem\<close>: the meaning of CFG expressions by arithmetic, independent of the generator.
    \<^item> \<open>Stm_Sem\<close>, \<open>Cluster_Sem\<close>: the meaning of CFG statements over variables, registers and memory,
      up to an \<open>outcome\<close> (a jump, a call or throw, an overflow), and of clusters, whose jumps
      between fragments \<open>jumps\<close> follows.  Both know nothing of blocks or instructions.
      \<open>Unit_Sem\<close>: the meaning of a compilation unit, whose clusters call each other by label or by
      address (\<open>calls\<close>); the addresses at which code is loaded are a parameter.
    \<^item> \<open>Block_Sem\<close>: a machine that runs functions of several blocks: a position, the instructions
      that remain in its block and the values; phi nodes are read on entering a block (\<open>flow\<close>).
      The machine of \<open>Unit_Sem\<close> also enters the functions of the module that a tail call calls
      (\<open>pflow\<close>).
    \<^item> \<open>Store_List\<close> and \<open>Raw_Alloc\<close> define the log of the garbage collector and the layout of raw
      records that the emitted code is to produce.


  THE LIBRARY

  The interfaces are locales, each interpreted on the definitions of the program.
    \<^item> \<open>asdl_reader\<close>, \<open>pickler\<close> (\<open>Asdl_Laws\<close>): a reader that consumes input, and one that inverts a
      writer on a range; interpreted for the base types, multiprecision integers and lambda
      variables.  \<open>recursive_reader\<close> (\<open>Asdl_Stream\<close>): fuel that suffices; interpreted for types,
      expressions and statements.  \<open>file_pickle\<close> (\<open>Cfg_Roundtrip\<close>): what the SML writers rely on;
      interpreted for the format of the C++ runtime.
    \<^item> \<open>frame\<close> and its extensions \<open>expr_frame\<close>, \<open>state_frame\<close>, \<open>edge_frame\<close>, \<open>stm_frame\<close>, \<open>flow_frame\<close> and
      \<open>code_frame\<close> (\<open>Frames\<close>): a relation between states that every composition of operations keeps
      when the basic ones keep it; from one to the next they cover more of the generator, up to
      whole statements.  Interpreted for what straight-line code leaves alone (\<open>straight\<close>,
      \<open>quiet\<close>), for reads (\<open>reads\<close>), for the caches (\<open>cache\<close>), for the numbering of instructions
      (\<open>tidy\<close>, \<open>numbering\<close>), for what lasts to the end of the function (\<open>lasting\<close>, \<open>based\<close> in
      \<open>Lasting\<close>), for the variables bound (\<open>binds\<close>), for the edges added (\<open>links\<close> in \<open>Edges\<close>), for
      the functions that blocks belong to (\<open>owned\<close> in \<open>Block_Owner\<close>), for the code of the overflow
      block (\<open>ovf_kept\<close>, \<open>raising\<close> in \<open>Overflow_Raise\<close>), and for several of these at once (\<open>plain\<close> in
      \<open>Simulation\<close>, \<open>enters\<close> in \<open>Frag_Entry\<close>).
    \<^item> \<open>Emit_Logic\<close>, \<open>Emit_Steps\<close>: a calculus of weakest preconditions, \<open>runs\<close>, for an operation of
      the generator together with the run of the instructions it emits, and one rule for each
      builder function; it requires success, so that every result proved with it is total.
      \<open>Overflow_Block\<close> has the calculus \<open>does\<close> for operations that leave the current block.


  WHAT IS PROVED

    \<^item> \<open>Simulation_Properties\<close>: the simulation.  \<open>Simulation\<close> says when a state is fit for a statement
      (\<open>launch\<close>), when a machine state represents variables and registers (\<open>matched\<close>) and when a
      machine has arrived at an outcome (\<open>arrives\<close>); \<open>Sim_Cases\<close>, \<open>Sim_Branches\<close> and \<open>Sim_Leaves\<close> prove
      one constructor after the other that its code goes where its meaning says, and
      \<open>stm_simulates\<close> puts them together.  \<open>Frag_Init\<close>, \<open>Frag_Entry\<close>, \<open>Cluster_Code\<close> and
      \<open>Cluster_Simulation\<close> do the same for fragments, entered through their phi nodes or by a
      call, and for clusters.
    \<^item> \<open>Unit_Properties\<close>: the simulation of whole compilation units.  \<open>Unit_Code\<close> follows the module
      through the code of its clusters (\<open>clusters_generated\<close>), \<open>Overflow_Raise\<close> gives the code of the
      overflow block, which calls the handler, and \<open>Unit_Simulation\<close> joins the runs of the clusters
      at the tail calls between them.
    \<^item> \<open>Driver_Properties\<close>: the tool \<open>cfgc\<close> from the command line to the output file.
      \<open>pickle_compiled\<close> joins the round trip of pickles and the simulation of units; the other
      theorems are about the command line, file names and failures.  \<open>Bits_Properties\<close>: the bytes of
      the loaded object can be read back from what \<open>-bits\<close> prints.  \<open>Heap_Properties\<close>: what
      \<open>heap2obj\<close> writes and how it fails.
    \<^item> \<open>Pickle_Properties\<close>: what the SML writers write, the C++ readers read back, for whole
      compilation units; the readers are total; ranges, byte formats and truncated input of the
      base picklers; multiprecision integers.
    \<^item> \<open>Memory_Properties\<close>: the sections of the object file are aligned, disjoint and inside the
      reservation, and the loaded object holds their contents; the target and register tables.
    \<^item> \<open>Emission_Properties\<close> (with \<open>Exp_Code\<close>, \<open>Alloc_Correct\<close>, \<open>Store_List\<close>, \<open>Raw_Alloc\<close>,
      \<open>Test_Code\<close>, \<open>Arith_Code\<close>): the emitted code of expressions, records, the write barrier,
      the heap check, comparisons and trapping arithmetic computes what it should.
    \<^item> \<open>Module_Properties\<close> (with \<open>Block_Structure\<close>, \<open>Module_Structure\<close>, \<open>Stm_Init\<close>, \<open>Cache_Laws\<close>,
      \<open>Transfers\<close>, \<open>Entry\<close>): every block ends in its only terminator, initialisation is total,
      caches do not cross modules, arms start with the same registers, calls are well typed, and
      callers and callees agree on positions.
    \<^item> Witnesses evaluate on \<open>Sample_Unit\<close>, a compilation unit that is compiled by rewriting, and
      \<open>Sample_State\<close>, a state for x86-64.

  The semantics and the theorems about emitted code are for 64-bit words (\<open>ctx_ok\<close>), which both
  targets have, and for a folder that respects the semantics (\<open>fold_sound\<close>); the folder that never
  folds is one, and the witnesses use it.


  NOT MODELLED

  The constructor of \<open>MCGen\<close>, which builds the pass pipeline and the target machine out of objects of
  LLVM; the SML readers of the test program; the files \<open>cfgc/codegen.cpp\<close> and
  \<open>lib-heap2obj/main.cpp\<close>, older versions of the tools that are not in the build; the rest of this
  tree, which is LLVM itself with a calling convention added.  The passes of LLVM are a parameter:
  \<open>pickle_compiled\<close> speaks of the module that they are given.  Floating-point arithmetic is
  emitted by the model but has no meaning in \<open>Llvm_Sem\<close>.  The least 64-bit integer has no meaning as
  a number in an expression, as the conversion of the source overflows on it.  The semantics of
  statements gives no meaning to raw records, calls of the garbage collector, calls of C functions
  (which the generator rejects), floating-point comparisons, labels used as values, and registers
  that live on the stack.


  WHAT IS LEFT

  A meaning for labels as values; the registers that live on the stack, which the semantics of
  expressions leaves out; the calls of the garbage collector.
\<close>

end
